(* ===== verification/Prelude.thy ===== *)
theory Prelude
  imports Main "HOL-Library.Word" "HOL-Library.Signed_Division"
begin

text \<open>
  Shared vocabulary of the development: C's machine integers, the macros of
  \<^verbatim>\<open>common/cf_platform.h\<close> that every component uses, and the fact collections that the
  component proofs are driven by.

  Conventions, used in every theory:
  \<^item> \<open>uint8_t\<close>, \<open>uint16_t\<close>, \<open>uint32_t\<close>, \<open>uint64_t\<close> are words (\<open>+\<close>, \<open>-\<close>, \<open>*\<close> wrap);
  \<^item> \<open>int\<close> and \<open>int32_t\<close> are HOL's \<open>int\<close>; the conversion of a wider value to \<open>int\<close> and the
    arithmetic that can leave 32 bits goes through \<^verbatim>\<open>s32\<close>, which is two's complement
    wrap-around;
  \<^item> \<open>int64_t\<close> carries times in milliseconds and unwrapped sequence numbers; it is HOL's
    \<open>int\<close> (a clock of 2^63 ms is out of reach), with \<^verbatim>\<open>s64\<close> only where a bit pattern is
    reinterpreted;
  \<^item> \<open>size_t\<close> is \<open>nat\<close> (an object size, never near 2^64), unless the code subtracts.
\<close>

type_synonym u8 = "8 word"
type_synonym u16 = "16 word"
type_synonym u32 = "32 word"
type_synonym u64 = "64 word"

named_theorems cint_simps \<open>evaluation of the C integer conversions\<close>
named_theorems inv_intros \<open>preservation of component invariants\<close>

subsection \<open>Signed conversions\<close>

definition s32 :: "int \<Rightarrow> int" where
  "s32 x = (x + 2147483648) mod 4294967296 - 2147483648"

definition s64 :: "int \<Rightarrow> int" where
  "s64 x = (x + 9223372036854775808) mod 18446744073709551616 - 9223372036854775808"

lemma s32_id [cint_simps]: "- 2147483648 \<le> x \<Longrightarrow> x < 2147483648 \<Longrightarrow> s32 x = x"
  by (simp add: s32_def)

lemma s32_range: "- 2147483648 \<le> s32 x \<and> s32 x < 2147483648"
proof -
  have "0 \<le> (x + 2147483648) mod 4294967296" and "(x + 2147483648) mod 4294967296 < 4294967296"
    by simp_all
  then show ?thesis
    unfolding s32_def by linarith
qed

lemma s32_ge: "- 2147483648 \<le> s32 x" and s32_less: "s32 x < 2147483648"
  using s32_range by auto

lemma s32_idem [simp]: "s32 (s32 x) = s32 x"
  using s32_range by (auto intro: s32_id)

lemma s32_uint: "uint (t :: u32) < 2147483648 \<Longrightarrow> s32 (uint t) = uint t"
  by (rule s32_id, rule order_trans [of _ 0]) simp_all

lemma s64_id [cint_simps]:
  "- 9223372036854775808 \<le> x \<Longrightarrow> x < 9223372036854775808 \<Longrightarrow> s64 x = x"
  by (simp add: s64_def)

lemma s64_uint_word: "s64 (uint (word_of_int x :: u64)) = s64 x"
  by (simp add: s64_def uint_word_of_int take_bit_eq_mod mod_simps)

lemma s32_uint_word: "s32 (uint (word_of_int x :: u32)) = s32 x"
  by (simp add: s32_def uint_word_of_int take_bit_eq_mod mod_simps)

subsection \<open>The macros SU_MAX, SU_MIN and SU_ABS\<close>

text \<open>
  The macros compare with the language's \<open><\<close> or \<open>>\<close> and pick an operand. On a linear order they
  are \<open>max\<close>, \<open>min\<close> and the distance; on floating point values (see \<^verbatim>\<open>Cfloat\<close>) they differ from
  those when an operand is a NaN, so the conditional is kept.
\<close>

definition su_max :: "'a::ord \<Rightarrow> 'a \<Rightarrow> 'a" where
  "su_max a b = (if b < a then a else b)"

definition su_min :: "'a::ord \<Rightarrow> 'a \<Rightarrow> 'a" where
  "su_min a b = (if a < b then a else b)"

definition su_abs :: "'a::{ord,minus} \<Rightarrow> 'a \<Rightarrow> 'a" where
  "su_abs a b = (if b < a then a - b else b - a)"

lemma su_max_linorder [simp]: "su_max (a :: 'a::linorder) b = max a b"
  by (auto simp: su_max_def max_def)

lemma su_min_linorder [simp]: "su_min (a :: 'a::linorder) b = min a b"
  by (auto simp: su_min_def min_def)

lemma su_abs_int [simp]: "su_abs (a :: int) b = \<bar>a - b\<bar>"
  by (simp add: su_abs_def)

subsection \<open>Words as integers\<close>

lemma uint_u8_range [simp]: "uint (w :: u8) < 256" "0 \<le> uint (w :: u8)"
  using uint_bounded [of w] by simp_all

lemma uint_u16_range [simp]: "uint (w :: u16) < 65536" "0 \<le> uint (w :: u16)"
  using uint_bounded [of w] by simp_all

lemma uint_u32_range [simp]: "uint (w :: u32) < 4294967296" "0 \<le> uint (w :: u32)"
  using uint_bounded [of w] by simp_all

lemma uint_of_int_u16: "uint (word_of_int x :: u16) = x mod 65536"
  by (simp add: uint_word_of_int take_bit_eq_mod)

lemma uint_of_int_u32: "uint (word_of_int x :: u32) = x mod 4294967296"
  by (simp add: uint_word_of_int take_bit_eq_mod)

lemma uint_of_int_u8: "uint (word_of_int x :: u8) = x mod 256"
  by (simp add: uint_word_of_int take_bit_eq_mod)

lemma uint_sub_u16: "uint (a - b :: u16) = (uint a - uint b) mod 65536"
  by (simp add: uint_word_ariths take_bit_eq_mod)

lemma uint_sub_u32: "uint (a - b :: u32) = (uint a - uint b) mod 4294967296"
  by (simp add: uint_word_ariths take_bit_eq_mod)

lemma uint_add_u32: "uint (a + b :: u32) = (uint a + uint b) mod 4294967296"
  by (simp add: uint_word_ariths take_bit_eq_mod)

subsection \<open>Lists\<close>

lemma sum_list_update:
  fixes xs :: "int list"
  assumes "i < length xs"
  shows "sum_list (xs[i := x]) = sum_list xs - xs ! i + x"
  using assms
proof (induction xs arbitrary: i)
  case Nil
  then show ?case by simp
next
  case (Cons a xs)
  then show ?case by (cases i) auto
qed

lemma sum_list_map_update:
  fixes f :: "'a \<Rightarrow> int"
  assumes "i < length xs"
  shows "sum_list (map f (xs[i := x])) = sum_list (map f xs) - f (xs ! i) + f x"
  using assms by (simp add: map_update sum_list_update)

subsection \<open>Rings\<close>

text \<open>
  An array of \<open>w\<close> cells written cyclically, the \<open>j\<close>-th value at \<open>j mod w\<close>, holds the last \<open>w\<close> values
  of the log \<open>xs\<close> of everything written.
\<close>

definition ring_holds :: "'a list \<Rightarrow> nat \<Rightarrow> 'a list \<Rightarrow> bool" where
  "ring_holds r w xs \<longleftrightarrow> length r = w \<and> (\<forall>j. j < length xs \<and> length xs \<le> j + w \<longrightarrow> r ! (j mod w) = xs ! j)"

lemma ring_holds_Nil: "length r = w \<Longrightarrow> ring_holds r w []"
  by (simp add: ring_holds_def)

lemma mod_neq_near: "j < n \<Longrightarrow> n < j + w \<Longrightarrow> j mod w \<noteq> n mod (w :: nat)"
proof
  assume a: "j < n" "n < j + w" and e: "j mod w = n mod w"
  then have "w dvd n - j"
    using mod_eq_dvd_iff_nat [of j n w] by simp
  then have "w \<le> n - j"
    using a(1) by (intro dvd_imp_le) auto
  then show False using a by linarith
qed

lemma ring_holds_snoc:
  assumes "ring_holds r w xs" and "0 < w"
  shows "ring_holds (r[length xs mod w := x]) w (xs @ [x])"
proof -
  have "(r[length xs mod w := x]) ! (j mod w) = (xs @ [x]) ! j" if "j < Suc (length xs)" "Suc (length xs) \<le> j + w" for j
    using that assms mod_neq_near [of j "length xs" w]
    by (cases "j = length xs") (auto simp: ring_holds_def nth_append)
  then show ?thesis
    using assms(1) by (simp add: ring_holds_def)
qed

lemma ring_holds_set:
  assumes "ring_holds r w xs" and "0 < w"
  shows "set (take (min (length xs) w) r) = set (drop (length xs - w) xs)"
proof -
  have eq: "r ! (j mod w) = xs ! j" if "j < length xs" "length xs \<le> j + w" for j
    using assms(1) that by (simp add: ring_holds_def)
  have lr: "length r = w" using assms(1) by (simp add: ring_holds_def)
  show ?thesis
  proof (intro equalityI subsetI)
    fix y assume "y \<in> set (take (min (length xs) w) r)"
    then obtain i where i: "i < length xs" "i < w" "y = r ! i"
      using lr by (auto simp: in_set_conv_nth)
    define j where "j = i + w * ((length xs - 1 - i) div w)"
    have "w * ((length xs - 1 - i) div w) \<le> length xs - 1 - i" "length xs - 1 - i < w * ((length xs - 1 - i) div w) + w"
      using dividend_less_times_div [OF assms(2), of "length xs - 1 - i"] by simp_all
    then have j: "j < length xs" "length xs \<le> j + w"
      using i(1) unfolding j_def by linarith+
    have "j mod w = i"
      using i(2) by (simp add: j_def)
    note j = j this
    then have "y = xs ! j" using eq [of j] i(3) by simp
    then show "y \<in> set (drop (length xs - w) xs)"
      using j by (auto simp: in_set_conv_nth intro!: exI [of _ "j - (length xs - w)"])
  next
    fix y assume "y \<in> set (drop (length xs - w) xs)"
    then obtain k where k: "k < length xs - (length xs - w)" "y = xs ! (length xs - w + k)"
      by (auto simp: in_set_conv_nth)
    define j where "j = length xs - w + k"
    have j: "j < length xs" "length xs \<le> j + w" using k(1) by (auto simp: j_def)
    then have "y = r ! (j mod w)" using eq [of j] k(2) by (simp add: j_def)
    moreover have "j mod w < min (length xs) w"
      using j(1) assms(2) by (simp add: le_less_trans [OF mod_less_eq_dividend])
    ultimately show "y \<in> set (take (min (length xs) w) r)"
      using lr by (auto simp: in_set_conv_nth)
  qed
qed

end
