(* ===== verification/Bin_Stream.thy ===== *)
theory Bin_Stream
  imports Prelude "HOL-Library.Monad_Syntax"
begin

text \<open>
  \<^verbatim>\<open>common/cf_stream.c\<close>: the growable byte buffer that feedback messages and simulated datagrams
  are encoded in. \<open>rptr\<close> and \<open>wptr\<close> are offsets into \<open>data\<close>; \<open>size_t\<close> values are naturals. The
  environment holds the host's byte order, the static \<open>big_endian\<close> that \<open>bin_stream_init\<close> sets
  (-1 before), and what \<open>realloc\<close> leaves in new bytes. An access outside the buffer is \<open>None\<close>.

  The lemmas: every write appends its encoding to what was written and keeps the stream well
  formed (growing it when needed), every read that finds enough bytes consumes its encoding, and
  a read past the end returns zero and consumes nothing. The contract of a pair of write and read
  is the locale \<open>field_codec\<close>, interpreted for every type of the file.
\<close>

subsection \<open>State\<close>

record env =
  host_big :: bool
  big_endian :: int
  fresh_byte :: "nat \<Rightarrow> u8"

record bin_stream =
  data :: "u8 list"
  strm_size :: nat
  rptr :: nat
  rsize :: nat
  wptr :: nat
  used :: nat
  magic :: u64

abbreviation DEFAULT_PACKET_SIZE :: nat where "DEFAULT_PACKET_SIZE \<equiv> 1024"
abbreviation BIN_STREAM_MAGIC :: u64 where "BIN_STREAM_MAGIC \<equiv> 0x019ef8f09867cda6"
abbreviation READ_DATA_ERROR :: u16 where "READ_DATA_ERROR \<equiv> 0xffff"

text \<open>Memory: store bytes at an offset, load bytes from one, and \<open>realloc\<close>.\<close>

definition poke :: "nat \<Rightarrow> u8 list \<Rightarrow> u8 list \<Rightarrow> u8 list option" where
  "poke p bs d = (if p + length bs \<le> length d then Some (take p d @ bs @ drop (p + length bs) d) else None)"

definition peek :: "nat \<Rightarrow> nat \<Rightarrow> u8 list \<Rightarrow> u8 list option" where
  "peek p n d = (if p + n \<le> length d then Some (take n (drop p d)) else None)"

definition realloc_bytes :: "env \<Rightarrow> nat \<Rightarrow> u8 list \<Rightarrow> u8 list" where
  "realloc_bytes e n d = take n d @ map (fresh_byte e) [length d..<n]"

subsection \<open>Life cycle\<close>

text \<open>\<open>None\<close> is the return value -1, when \<open>malloc\<close> fails.\<close>

definition bin_stream_init :: "env \<Rightarrow> bool \<Rightarrow> env \<times> bin_stream option" where
  "bin_stream_init e malloc_ok =
     ((if big_endian e = -1 then e\<lparr>big_endian := (if host_big e then 1 else 0)\<rparr> else e),
      if malloc_ok
      then Some \<lparr>data = map (fresh_byte e) [0..<DEFAULT_PACKET_SIZE], strm_size = DEFAULT_PACKET_SIZE,
                 rptr = 0, rsize = 0, wptr = 0, used = 0, magic = 0\<rparr>
      else None)"

definition bin_stream_destroy :: "bin_stream \<Rightarrow> bin_stream" where
  "bin_stream_destroy s = s\<lparr>data := [], strm_size := 0, rptr := 0, rsize := 0, wptr := 0, used := 0\<rparr>"

definition bin_stream_rewind :: "bin_stream \<Rightarrow> int \<Rightarrow> bin_stream" where
  "bin_stream_rewind s reset =
     (let s = (if reset = 1 then s\<lparr>wptr := 0, used := 0\<rparr> else s) in s\<lparr>rptr := 0, rsize := 0\<rparr>)"

definition bin_stream_reduce :: "env \<Rightarrow> bin_stream \<Rightarrow> bin_stream" where
  "bin_stream_reduce e s =
     (if DEFAULT_PACKET_SIZE * 2 < strm_size s
      then s\<lparr>data := realloc_bytes e DEFAULT_PACKET_SIZE (data s), rptr := 0, wptr := 0,
             strm_size := DEFAULT_PACKET_SIZE, rsize := 0, used := 0\<rparr>
      else s)"

definition bin_stream_reset :: "env \<Rightarrow> bin_stream \<Rightarrow> int \<Rightarrow> bin_stream" where
  "bin_stream_reset e s flag =
     bin_stream_reduce e (bin_stream_rewind (s\<lparr>magic := if flag = 1 then BIN_STREAM_MAGIC else 0\<rparr>) 1)"

definition bin_stream_check :: "bin_stream \<Rightarrow> int" where
  "bin_stream_check s = (if magic s = BIN_STREAM_MAGIC then 0 else -1)"

definition bin_stream_available_read :: "bin_stream \<Rightarrow> int option" where
  "bin_stream_available_read s = (if rsize s \<le> used s then Some (int (used s - rsize s)) else None)"

partial_function (option) alloc_size_loop :: "nat \<Rightarrow> nat \<Rightarrow> nat option" where
  "alloc_size_loop new_size alloc_size =
     (if alloc_size < new_size then alloc_size_loop new_size (alloc_size * 2) else Some alloc_size)"

definition bin_stream_resize :: "env \<Rightarrow> bin_stream \<Rightarrow> nat \<Rightarrow> bin_stream option" where
  "bin_stream_resize e s new_size =
     (if new_size \<le> strm_size s then Some s
      else do {
        alloc_size \<leftarrow> alloc_size_loop new_size (strm_size s);
        Some (s\<lparr>data := realloc_bytes e alloc_size (data s), strm_size := alloc_size,
                wptr := used s, rptr := rsize s\<rparr>)
      })"

definition bin_stream_set_used_size :: "bin_stream \<Rightarrow> nat \<Rightarrow> bin_stream" where
  "bin_stream_set_used_size s n = s\<lparr>used := n\<rparr>"

definition bin_stream_move :: "bin_stream \<Rightarrow> bin_stream option" where
  "bin_stream_move s0 =
     (let s = (if used s0 = rsize s0 \<and> 0 < rsize s0
               then s0\<lparr>rptr := 0, wptr := 0, used := 0, rsize := 0\<rparr> else s0)
      in if rsize s < used s \<and> strm_size s div 2 < rsize s \<and> strm_size s \<le> used s + 256
         then do {
           let n = used s - rsize s;
           bs \<leftarrow> peek (rptr s) n (data s);
           d \<leftarrow> poke 0 bs (data s);
           Some (s\<lparr>data := d, wptr := n, rptr := 0, rsize := 0, used := n\<rparr>)
         }
         else Some s)"

text \<open>The macro \<open>RESIZE\<close>.\<close>

definition resize_for :: "env \<Rightarrow> bin_stream \<Rightarrow> nat \<Rightarrow> bin_stream option" where
  "resize_for e s n = (if strm_size s < used s + n then bin_stream_resize e s (used s + n) else Some s)"

subsection \<open>Byte order\<close>

text \<open>With \<open>big_endian\<close> not zero the value is stored as the host stores it.\<close>

definition host_order :: "env \<Rightarrow> u8 list \<Rightarrow> u8 list" where
  "host_order e bs = (if host_big e then bs else rev bs)"

definition be2 :: "u16 \<Rightarrow> u8 list" where
  "be2 v = [ucast (drop_bit 8 v), ucast v]"

definition be4 :: "u32 \<Rightarrow> u8 list" where
  "be4 v = [ucast (drop_bit 24 v), ucast (drop_bit 16 v), ucast (drop_bit 8 v), ucast v]"

definition be8 :: "u64 \<Rightarrow> u8 list" where
  "be8 v = [ucast (drop_bit 56 v), ucast (drop_bit 48 v), ucast (drop_bit 40 v), ucast (drop_bit 32 v),
     ucast (drop_bit 24 v), ucast (drop_bit 16 v), ucast (drop_bit 8 v), ucast v]"

definition of_be2 :: "u8 list \<Rightarrow> u16" where
  "of_be2 p = push_bit 8 (ucast (p ! 0)) + ucast (p ! 1)"

definition of_be4 :: "u8 list \<Rightarrow> u32" where
  "of_be4 p = push_bit 24 (ucast (p ! 0)) + push_bit 16 (ucast (p ! 1)) + push_bit 8 (ucast (p ! 2)) + ucast (p ! 3)"

definition of_be8 :: "u8 list \<Rightarrow> u64" where
  "of_be8 p = push_bit 56 (ucast (p ! 0)) + push_bit 48 (ucast (p ! 1)) + push_bit 40 (ucast (p ! 2))
     + push_bit 32 (ucast (p ! 3)) + push_bit 24 (ucast (p ! 4)) + push_bit 16 (ucast (p ! 5))
     + push_bit 8 (ucast (p ! 6)) + ucast (p ! 7)"

definition mach_put_2 :: "env \<Rightarrow> u16 \<Rightarrow> u8 list" where
  "mach_put_2 e v = (if big_endian e \<noteq> 0 then host_order e (be2 v) else be2 v)"

definition mach_get_2 :: "env \<Rightarrow> u8 list \<Rightarrow> u16" where
  "mach_get_2 e p = (if big_endian e \<noteq> 0 then of_be2 (host_order e p) else of_be2 p)"

definition mach_put_4 :: "env \<Rightarrow> u32 \<Rightarrow> u8 list" where
  "mach_put_4 e v = (if big_endian e \<noteq> 0 then host_order e (be4 v) else be4 v)"

definition mach_get_4 :: "env \<Rightarrow> u8 list \<Rightarrow> u32" where
  "mach_get_4 e p = (if big_endian e \<noteq> 0 then of_be4 (host_order e p) else of_be4 p)"

definition mach_put_8 :: "env \<Rightarrow> u64 \<Rightarrow> u8 list" where
  "mach_put_8 e v = (if big_endian e \<noteq> 0 then host_order e (be8 v) else be8 v)"

definition mach_get_8 :: "env \<Rightarrow> u8 list \<Rightarrow> u64" where
  "mach_get_8 e p = (if big_endian e \<noteq> 0 then of_be8 (host_order e p) else of_be8 p)"

subsection \<open>Writes and reads\<close>

text \<open>What every write does with its bytes, and every read of \<open>n\<close> bytes.\<close>

definition put_bytes :: "u8 list \<Rightarrow> bin_stream \<Rightarrow> bin_stream option" where
  "put_bytes bs s = do {
     d \<leftarrow> poke (wptr s) bs (data s);
     Some (s\<lparr>data := d, wptr := wptr s + length bs, used := used s + length bs\<rparr>)
   }"

definition write_bytes :: "env \<Rightarrow> u8 list \<Rightarrow> bin_stream \<Rightarrow> bin_stream option" where
  "write_bytes e bs s = do { s \<leftarrow> resize_for e s (length bs); put_bytes bs s }"

definition read_bytes :: "nat \<Rightarrow> (u8 list \<Rightarrow> 'a) \<Rightarrow> 'a \<Rightarrow> bin_stream \<Rightarrow> (bin_stream \<times> 'a) option" where
  "read_bytes n get zero s =
     (if used s < rsize s + n then Some (s, zero)
      else do {
        bs \<leftarrow> peek (rptr s) n (data s);
        Some (s\<lparr>rptr := rptr s + n, rsize := rsize s + n\<rparr>, get bs)
      })"

definition mach_uint8_write :: "env \<Rightarrow> u8 \<Rightarrow> bin_stream \<Rightarrow> bin_stream option" where
  "mach_uint8_write e v s = write_bytes e [v] s"

definition mach_uint8_read :: "bin_stream \<Rightarrow> (bin_stream \<times> u8) option" where
  "mach_uint8_read s = read_bytes 1 (\<lambda>p. p ! 0) 0 s"

definition mach_int8_write :: "env \<Rightarrow> int \<Rightarrow> bin_stream \<Rightarrow> bin_stream option" where
  "mach_int8_write e v s = write_bytes e [word_of_int v] s"

definition mach_int8_read :: "bin_stream \<Rightarrow> (bin_stream \<times> int) option" where
  "mach_int8_read s = read_bytes 1 (\<lambda>p. sint (p ! 0)) 0 s"

definition mach_uint16_write :: "env \<Rightarrow> u16 \<Rightarrow> bin_stream \<Rightarrow> bin_stream option" where
  "mach_uint16_write e v s = write_bytes e (mach_put_2 e v) s"

definition mach_uint16_read :: "env \<Rightarrow> bin_stream \<Rightarrow> (bin_stream \<times> u16) option" where
  "mach_uint16_read e s = read_bytes 2 (\<lambda>p. word_of_int (sint (mach_get_2 e p))) 0 s"

definition mach_int16_write :: "env \<Rightarrow> int \<Rightarrow> bin_stream \<Rightarrow> bin_stream option" where
  "mach_int16_write e v s = write_bytes e (mach_put_2 e (word_of_int v)) s"

definition mach_int16_read :: "env \<Rightarrow> bin_stream \<Rightarrow> (bin_stream \<times> int) option" where
  "mach_int16_read e s = read_bytes 2 (\<lambda>p. sint (mach_get_2 e p)) 0 s"

definition mach_uint32_write :: "env \<Rightarrow> u32 \<Rightarrow> bin_stream \<Rightarrow> bin_stream option" where
  "mach_uint32_write e v s = write_bytes e (mach_put_4 e v) s"

definition mach_uint32_read :: "env \<Rightarrow> bin_stream \<Rightarrow> (bin_stream \<times> u32) option" where
  "mach_uint32_read e s = read_bytes 4 (mach_get_4 e) 0 s"

definition mach_int32_write :: "env \<Rightarrow> int \<Rightarrow> bin_stream \<Rightarrow> bin_stream option" where
  "mach_int32_write e v s = write_bytes e (mach_put_4 e (word_of_int v)) s"

definition mach_int32_read :: "env \<Rightarrow> bin_stream \<Rightarrow> (bin_stream \<times> int) option" where
  "mach_int32_read e s = read_bytes 4 (\<lambda>p. sint (mach_get_4 e p)) 0 s"

definition mach_uint64_write :: "env \<Rightarrow> u64 \<Rightarrow> bin_stream \<Rightarrow> bin_stream option" where
  "mach_uint64_write e v s = write_bytes e (mach_put_8 e v) s"

definition mach_uint64_read :: "env \<Rightarrow> bin_stream \<Rightarrow> (bin_stream \<times> u64) option" where
  "mach_uint64_read e s = read_bytes 8 (mach_get_8 e) 0 s"

definition mach_int64_write :: "env \<Rightarrow> int \<Rightarrow> bin_stream \<Rightarrow> bin_stream option" where
  "mach_int64_write e v s = write_bytes e (mach_put_8 e (word_of_int v)) s"

definition mach_int64_read :: "env \<Rightarrow> bin_stream \<Rightarrow> (bin_stream \<times> int) option" where
  "mach_int64_read e s = read_bytes 8 (\<lambda>p. sint (mach_get_8 e p)) 0 s"

definition mach_data_write :: "env \<Rightarrow> u8 list \<Rightarrow> bin_stream \<Rightarrow> bin_stream option" where
  "mach_data_write e str s = do {
     s \<leftarrow> resize_for e s (length str + 2);
     s \<leftarrow> mach_uint16_write e (word_of_nat (length str)) s;
     put_bytes str s
   }"

text \<open>\<open>cap\<close> is the size of the caller's buffer. The third result is what is copied to it.\<close>

definition mach_data_read :: "env \<Rightarrow> nat \<Rightarrow> bin_stream \<Rightarrow> (bin_stream \<times> u16 \<times> u8 list) option" where
  "mach_data_read e cap s = do {
     (s, len) \<leftarrow> mach_uint16_read e s;
     if cap < unat len \<or> used s < rsize s + unat len then Some (s, READ_DATA_ERROR, [])
     else do {
       bs \<leftarrow> peek (rptr s) (unat len) (data s);
       Some (s\<lparr>rptr := rptr s + unat len, rsize := rsize s + unat len\<rparr>, len, bs)
     }
   }"

definition mach_block_write :: "env \<Rightarrow> u8 list \<Rightarrow> bin_stream \<Rightarrow> bin_stream option" where
  "mach_block_write e str s = write_bytes e str s"

definition mach_block_read :: "nat \<Rightarrow> bin_stream \<Rightarrow> (bin_stream \<times> u16 \<times> u8 list) option" where
  "mach_block_read n s =
     (if used s < rsize s + n then Some (s, READ_DATA_ERROR, [])
      else do {
        bs \<leftarrow> peek (rptr s) n (data s);
        Some (s\<lparr>rptr := rptr s + n, rsize := rsize s + n\<rparr>, word_of_nat n, bs)
      })"

subsection \<open>Well-formed streams\<close>

definition strm_wf :: "bin_stream \<Rightarrow> bool" where
  "strm_wf s \<longleftrightarrow> length (data s) = strm_size s \<and> 0 < strm_size s \<and> rptr s = rsize s \<and> wptr s = used s
     \<and> rsize s \<le> used s \<and> used s \<le> strm_size s"

text \<open>The bytes written so far, and those not yet read.\<close>

definition written :: "bin_stream \<Rightarrow> u8 list" where
  "written s = take (used s) (data s)"

definition unread :: "bin_stream \<Rightarrow> u8 list" where
  "unread s = drop (rsize s) (written s)"

lemma bin_stream_init_wf: "bin_stream_init e True = (e', Some s) \<Longrightarrow> strm_wf s \<and> written s = []"
  by (auto simp: bin_stream_init_def strm_wf_def written_def)

lemma bin_stream_rewind_wf:
  "strm_wf s \<Longrightarrow> strm_wf (bin_stream_rewind s r) \<and> rsize (bin_stream_rewind s r) = 0
    \<and> written (bin_stream_rewind s r) = (if r = 1 then [] else written s)"
  by (auto simp: bin_stream_rewind_def strm_wf_def written_def Let_def)

lemma length_realloc [simp]: "length (realloc_bytes e n d) = n"
  by (simp add: realloc_bytes_def)

lemma take_realloc: "k \<le> n \<Longrightarrow> k \<le> length d \<Longrightarrow> take k (realloc_bytes e n d) = take k d"
  by (simp add: realloc_bytes_def min_def)

lemma bin_stream_reset_wf:
  "strm_wf s \<Longrightarrow> strm_wf (bin_stream_reset e s f) \<and> written (bin_stream_reset e s f) = []
    \<and> strm_size (bin_stream_reset e s f) \<le> 2 * DEFAULT_PACKET_SIZE"
  by (auto simp: bin_stream_reset_def bin_stream_reduce_def bin_stream_rewind_def strm_wf_def written_def Let_def)

lemma alloc_size_loop_ok: "0 < a \<Longrightarrow> \<exists>b. alloc_size_loop n a = Some b \<and> n \<le> b \<and> a \<le> b"
proof (induction "n - a" arbitrary: a rule: less_induct)
  case less
  show ?case
  proof (cases "a < n")
    case True
    have "n - a * 2 < n - a" using True less.prems by simp
    from less.hyps [OF this] less.prems obtain b where "alloc_size_loop n (a * 2) = Some b" "n \<le> b" "a * 2 \<le> b"
      by auto
    then show ?thesis using True by (simp add: alloc_size_loop.simps [of n a])
  next
    case False
    then show ?thesis by (simp add: alloc_size_loop.simps [of n a])
  qed
qed

lemma bin_stream_resize_ok:
  assumes "strm_wf s"
  shows "\<exists>s'. bin_stream_resize e s n = Some s' \<and> strm_wf s' \<and> n \<le> strm_size s' \<and> used s' = used s
    \<and> rsize s' = rsize s \<and> written s' = written s"
proof (cases "n \<le> strm_size s")
  case True
  then show ?thesis using assms by (simp add: bin_stream_resize_def)
next
  case False
  obtain b where "alloc_size_loop n (strm_size s) = Some b" "n \<le> b" "strm_size s \<le> b"
    using alloc_size_loop_ok [of "strm_size s" n] assms by (auto simp: strm_wf_def)
  then show ?thesis
    using False assms by (auto simp: bin_stream_resize_def strm_wf_def written_def take_realloc)
qed

lemma resize_for_ok:
  assumes "strm_wf s"
  shows "\<exists>s'. resize_for e s n = Some s' \<and> strm_wf s' \<and> used s + n \<le> strm_size s' \<and> used s' = used s
    \<and> rsize s' = rsize s \<and> written s' = written s"
  using bin_stream_resize_ok [OF assms, of e "used s + n"] assms by (auto simp: resize_for_def)

lemma put_bytes_ok:
  assumes "strm_wf s" and "used s + length bs \<le> strm_size s"
  shows "\<exists>s'. put_bytes bs s = Some s' \<and> strm_wf s' \<and> rsize s' = rsize s \<and> written s' = written s @ bs"
  using assms by (auto simp: put_bytes_def poke_def strm_wf_def written_def)

text \<open>Every write appends.\<close>

lemma write_bytes_ok:
  assumes "strm_wf s"
  shows "\<exists>s'. write_bytes e bs s = Some s' \<and> strm_wf s' \<and> rsize s' = rsize s \<and> written s' = written s @ bs"
proof -
  obtain s1 where s1: "resize_for e s (length bs) = Some s1" "strm_wf s1" "used s + length bs \<le> strm_size s1"
      "used s1 = used s" "rsize s1 = rsize s" "written s1 = written s"
    using resize_for_ok [OF assms] by blast
  then show ?thesis
    using put_bytes_ok [of s1 bs] by (auto simp: write_bytes_def)
qed

text \<open>Reads and what they leave unread.\<close>

lemma unread_length: "strm_wf s \<Longrightarrow> length (unread s) = used s - rsize s"
  by (auto simp: unread_def written_def strm_wf_def)

lemma peek_unread:
  assumes "strm_wf s" and "unread s = bs @ rest"
  shows "peek (rptr s) (length bs) (data s) = Some bs" and "rsize s + length bs \<le> used s"
    and "strm_wf (s\<lparr>rptr := rptr s + length bs, rsize := rsize s + length bs\<rparr>)"
    and "unread (s\<lparr>rptr := rptr s + length bs, rsize := rsize s + length bs\<rparr>) = rest"
    and "written (s\<lparr>rptr := rptr s + length bs, rsize := rsize s + length bs\<rparr>) = written s"
proof -
  have len: "length bs \<le> used s - rsize s"
    using unread_length [OF assms(1)] assms(2) by simp
  then show le: "rsize s + length bs \<le> used s"
    using assms(1) unfolding strm_wf_def by linarith
  have "take (length bs) (unread s) = bs"
    by (simp add: assms(2))
  moreover have "take (length bs) (unread s) = take (length bs) (drop (rsize s) (data s))"
    using le by (simp add: unread_def written_def drop_take)
  ultimately show "peek (rptr s) (length bs) (data s) = Some bs"
    using le assms(1) by (simp add: peek_def strm_wf_def)
  show "strm_wf (s\<lparr>rptr := rptr s + length bs, rsize := rsize s + length bs\<rparr>)"
    using assms(1) le by (simp add: strm_wf_def)
  have "drop (length bs) (unread s) = rest"
    by (simp add: assms(2))
  then show "unread (s\<lparr>rptr := rptr s + length bs, rsize := rsize s + length bs\<rparr>) = rest"
    by (simp add: unread_def written_def add.commute)
qed (simp add: written_def)

lemma read_bytes_ok:
  assumes "strm_wf s" and "unread s = bs @ rest" and "length bs = n"
  shows "\<exists>s'. read_bytes n get zero s = Some (s', get bs) \<and> strm_wf s' \<and> unread s' = rest \<and> written s' = written s"
  using peek_unread [OF assms(1,2)] assms(3) by (auto simp: read_bytes_def)

lemma read_bytes_short:
  "strm_wf s \<Longrightarrow> length (unread s) < n \<Longrightarrow> read_bytes n get zero s = Some (s, zero)"
  using unread_length [of s] by (auto simp: read_bytes_def strm_wf_def)

text \<open>Reading never fails on a well-formed stream.\<close>

lemma read_bytes_total:
  assumes "strm_wf s"
  shows "\<exists>s' v. read_bytes n get zero s = Some (s', v) \<and> strm_wf s' \<and> written s' = written s"
proof (cases "length (unread s) < n")
  case True
  then have "read_bytes n get zero s = Some (s, zero)"
    by (rule read_bytes_short [OF assms])
  then show ?thesis using assms by blast
next
  case False
  then show ?thesis
    using read_bytes_ok [OF assms, of "take n (unread s)" "drop n (unread s)" n get zero] by auto
qed

lemma mach_uint8_read_total:
  "strm_wf s \<Longrightarrow> \<exists>s' v. mach_uint8_read s = Some (s', v) \<and> strm_wf s' \<and> written s' = written s"
  unfolding mach_uint8_read_def by (rule read_bytes_total)

lemma mach_uint16_read_total:
  "strm_wf s \<Longrightarrow> \<exists>s' v. mach_uint16_read e s = Some (s', v) \<and> strm_wf s' \<and> written s' = written s"
  unfolding mach_uint16_read_def by (rule read_bytes_total)

lemma mach_uint32_read_total:
  "strm_wf s \<Longrightarrow> \<exists>s' v. mach_uint32_read e s = Some (s', v) \<and> strm_wf s' \<and> written s' = written s"
  unfolding mach_uint32_read_def by (rule read_bytes_total)

lemma mach_int32_read_total:
  "strm_wf s \<Longrightarrow> \<exists>s' v. mach_int32_read e s = Some (s', v) \<and> strm_wf s' \<and> written s' = written s"
  unfolding mach_int32_read_def by (rule read_bytes_total)

lemma mach_int64_read_total:
  "strm_wf s \<Longrightarrow> \<exists>s' v. mach_int64_read e s = Some (s', v) \<and> strm_wf s' \<and> written s' = written s"
  unfolding mach_int64_read_def by (rule read_bytes_total)

subsection \<open>Byte order round trips\<close>

unbundle bit_operations_syntax

lemma ucast_ucast_u8: "ucast (ucast v :: u8) = (take_bit 8 v :: 'a::len word)" if "8 \<le> LENGTH('a)"
  using that by (intro bit_word_eqI) (auto simp: bit_take_bit_iff bit_ucast_iff dest: bit_imp_le_length)

lemma push_step: "push_bit n (drop_bit n v) = push_bit (n + 8) (drop_bit (n + 8) v) + push_bit n (take_bit 8 (drop_bit n v))"
  for v :: "'a::len word"
proof -
  have "drop_bit n v = push_bit 8 (drop_bit 8 (drop_bit n v)) + take_bit 8 (drop_bit n v)"
    by (rule bits_ident [symmetric])
  then have "push_bit n (drop_bit n v) = push_bit n (push_bit 8 (drop_bit 8 (drop_bit n v)) + take_bit 8 (drop_bit n v))"
    by simp
  then show ?thesis
    by (simp add: push_bit_add push_bit_push_bit drop_bit_drop_bit add.commute)
qed

lemma drop_all: "LENGTH('a) \<le> n \<Longrightarrow> drop_bit n (v :: 'a::len word) = 0"
  by (rule bit_word_eqI) (auto simp: bit_drop_bit_eq dest: bit_imp_le_length)

lemma of_be2_be2 [simp]: "of_be2 (be2 v) = v"
  using push_step [of 0 v] push_step [of 8 v]
  by (simp add: of_be2_def be2_def ucast_ucast_u8 drop_all)

lemma of_be4_be4 [simp]: "of_be4 (be4 v) = v"
  using push_step [of 0 v] push_step [of 8 v] push_step [of 16 v] push_step [of 24 v]
  by (simp add: of_be4_def be4_def ucast_ucast_u8 drop_all)

lemma of_be8_be8 [simp]: "of_be8 (be8 v) = v"
  using push_step [of 0 v] push_step [of 8 v] push_step [of 16 v] push_step [of 24 v]
    push_step [of 32 v] push_step [of 40 v] push_step [of 48 v] push_step [of 56 v]
  by (simp add: of_be8_def be8_def ucast_ucast_u8 drop_all)

lemma host_order_twice [simp]: "host_order e (host_order e bs) = bs"
  by (simp add: host_order_def)

lemma mach_get_put [simp]:
  "mach_get_2 e (mach_put_2 e v2) = v2" "mach_get_4 e (mach_put_4 e v4) = v4" "mach_get_8 e (mach_put_8 e v8) = v8"
  by (simp_all add: mach_get_2_def mach_put_2_def mach_get_4_def mach_put_4_def mach_get_8_def mach_put_8_def)

lemma length_mach_put [simp]:
  "length (mach_put_2 e v2) = 2" "length (mach_put_4 e v4) = 4" "length (mach_put_8 e v8) = 8"
  by (simp_all add: mach_put_2_def mach_put_4_def mach_put_8_def host_order_def be2_def be4_def be8_def)

subsection \<open>The contract of a write and its read\<close>

text \<open>
  What the message codecs rely on: a write appends the encoding, and a read that finds the encoding
  of an admissible value at the front of the unread bytes returns the value and consumes exactly it.
\<close>

locale field_codec =
  fixes wr :: "'a \<Rightarrow> bin_stream \<Rightarrow> bin_stream option"
    and rd :: "bin_stream \<Rightarrow> (bin_stream \<times> 'a) option"
    and enc :: "'a \<Rightarrow> u8 list"
    and ok :: "'a \<Rightarrow> bool"
  assumes wr_enc: "strm_wf s \<Longrightarrow> \<exists>s'. wr v s = Some s' \<and> strm_wf s' \<and> rsize s' = rsize s \<and> written s' = written s @ enc v"
    and rd_enc: "strm_wf s \<Longrightarrow> ok v \<Longrightarrow> unread s = enc v @ rest \<Longrightarrow>
      \<exists>s'. rd s = Some (s', v) \<and> strm_wf s' \<and> unread s' = rest \<and> written s' = written s"
begin

lemma write_read:
  assumes "strm_wf s" and "unread s = []" and "ok v"
  shows "\<exists>s1 s2. wr v s = Some s1 \<and> rd s1 = Some (s2, v) \<and> strm_wf s2 \<and> unread s2 = []"
proof -
  obtain s1 where s1: "wr v s = Some s1" "strm_wf s1" "rsize s1 = rsize s" "written s1 = written s @ enc v"
    using wr_enc [OF assms(1)] by blast
  have "length (written s) = rsize s"
    using assms(1,2) by (auto simp: unread_def written_def strm_wf_def)
  then have "unread s1 = enc v @ []"
    using s1(3,4) by (simp add: unread_def)
  then show ?thesis
    using rd_enc [OF s1(2) assms(3)] s1(1) by blast
qed

end

lemma field_codec_intro:
  assumes "\<And>v s. wr v s = write_bytes e (enc v) s" and "\<And>s. rd s = read_bytes n get zero s"
    and "\<And>v. length (enc v) = n" and "\<And>v. ok v \<Longrightarrow> get (enc v) = v"
  shows "field_codec wr rd enc ok"
proof
  fix s v
  assume "strm_wf s"
  then show "\<exists>s'. wr v s = Some s' \<and> strm_wf s' \<and> rsize s' = rsize s \<and> written s' = written s @ enc v"
    unfolding assms(1) by (rule write_bytes_ok)
next
  fix s v rest
  assume "strm_wf s" and "ok v" and "unread s = enc v @ rest"
  then show "\<exists>s'. rd s = Some (s', v) \<and> strm_wf s' \<and> unread s' = rest \<and> written s' = written s"
    unfolding assms(2) using read_bytes_ok [of s "enc v" rest n get zero] assms(3,4) by simp
qed

lemma sint_of_int: "- (2 ^ (LENGTH('a) - 1)) \<le> v \<Longrightarrow> v < 2 ^ (LENGTH('a) - 1) \<Longrightarrow> sint (word_of_int v :: 'a::len word) = v"
  unfolding signed_of_int by (simp add: signed_take_bit_int_eq_self)

interpretation c_u8: field_codec "mach_uint8_write e" mach_uint8_read "\<lambda>v. [v]" "\<lambda>_. True" for e
  by (rule field_codec_intro [where get = "\<lambda>p. p ! 0"]) (simp_all add: mach_uint8_write_def mach_uint8_read_def)

interpretation c_i8: field_codec "mach_int8_write e" mach_int8_read "\<lambda>v. [word_of_int v]" "\<lambda>v. -128 \<le> v \<and> v < 128" for e
  by (rule field_codec_intro [where get = "\<lambda>p. sint (p ! 0)"])
    (simp_all add: mach_int8_write_def mach_int8_read_def sint_of_int)

interpretation c_u16: field_codec "mach_uint16_write e" "mach_uint16_read e" "mach_put_2 e" "\<lambda>_. True" for e
  by (rule field_codec_intro [where get = "\<lambda>p. word_of_int (sint (mach_get_2 e p))"])
    (simp_all add: mach_uint16_write_def mach_uint16_read_def)

interpretation c_i16: field_codec "mach_int16_write e" "mach_int16_read e" "\<lambda>v. mach_put_2 e (word_of_int v)"
    "\<lambda>v. -32768 \<le> v \<and> v < 32768" for e
  by (rule field_codec_intro [where get = "\<lambda>p. sint (mach_get_2 e p)"])
    (simp_all add: mach_int16_write_def mach_int16_read_def sint_of_int)

interpretation c_u32: field_codec "mach_uint32_write e" "mach_uint32_read e" "mach_put_4 e" "\<lambda>_. True" for e
  by (rule field_codec_intro [where get = "mach_get_4 e"])
    (simp_all add: mach_uint32_write_def mach_uint32_read_def)

interpretation c_i32: field_codec "mach_int32_write e" "mach_int32_read e" "\<lambda>v. mach_put_4 e (word_of_int v)"
    "\<lambda>v. -2147483648 \<le> v \<and> v < 2147483648" for e
  by (rule field_codec_intro [where get = "\<lambda>p. sint (mach_get_4 e p)"])
    (simp_all add: mach_int32_write_def mach_int32_read_def sint_of_int)

interpretation c_u64: field_codec "mach_uint64_write e" "mach_uint64_read e" "mach_put_8 e" "\<lambda>_. True" for e
  by (rule field_codec_intro [where get = "mach_get_8 e"])
    (simp_all add: mach_uint64_write_def mach_uint64_read_def)

interpretation c_i64: field_codec "mach_int64_write e" "mach_int64_read e" "\<lambda>v. mach_put_8 e (word_of_int v)"
    "\<lambda>v. -9223372036854775808 \<le> v \<and> v < 9223372036854775808" for e
  by (rule field_codec_intro [where get = "\<lambda>p. sint (mach_get_8 e p)"])
    (simp_all add: mach_int64_write_def mach_int64_read_def sint_of_int)

lemma data_write_enc:
  assumes "strm_wf s"
  shows "\<exists>s'. mach_data_write e v s = Some s' \<and> strm_wf s' \<and> rsize s' = rsize s
    \<and> written s' = written s @ mach_put_2 e (word_of_nat (length v)) @ v"
proof -
  obtain s1 where s1: "resize_for e s (length v + 2) = Some s1" "strm_wf s1" "used s + (length v + 2) \<le> strm_size s1"
      "used s1 = used s" "rsize s1 = rsize s" "written s1 = written s"
    using resize_for_ok [OF assms] by blast
  obtain s2 where s2: "put_bytes (mach_put_2 e (word_of_nat (length v))) s1 = Some s2" "strm_wf s2"
      "rsize s2 = rsize s1" "written s2 = written s1 @ mach_put_2 e (word_of_nat (length v))"
    using put_bytes_ok [OF s1(2), of "mach_put_2 e (word_of_nat (length v))"] s1(3,4) by auto
  have "mach_uint16_write e (word_of_nat (length v)) s1 = Some s2"
    using s1(3,4) s2(1) by (simp add: mach_uint16_write_def write_bytes_def resize_for_def)
  moreover have "used s2 + length v \<le> strm_size s2"
    using s2(1) s1(3,4) by (auto simp: put_bytes_def split: bind_splits)
  ultimately show ?thesis
    using put_bytes_ok [OF s2(2), of v] s1 s2 by (auto simp: mach_data_write_def)
qed

lemma data_read_enc:
  assumes "strm_wf s" and "length v < 65536" and "length v \<le> cap"
    and "unread s = (mach_put_2 e (word_of_nat (length v)) @ v) @ rest"
  shows "\<exists>s'. mach_data_read e cap s = Some (s', word_of_nat (length v), v) \<and> strm_wf s' \<and> unread s' = rest
    \<and> written s' = written s"
proof -
  have "unread s = mach_put_2 e (word_of_nat (length v)) @ v @ rest"
    using assms(4) by simp
  from c_u16.rd_enc [OF assms(1) TrueI this] obtain s1 where
    s1: "mach_uint16_read e s = Some (s1, word_of_nat (length v))" "strm_wf s1" "unread s1 = v @ rest" "written s1 = written s"
    by blast
  have len: "unat (word_of_nat (length v) :: u16) = length v"
    using assms(2) by (simp add: unat_of_nat)
  show ?thesis
    using s1 peek_unread [OF s1(2,3)] assms(3) by (auto simp: mach_data_read_def len)
qed

text \<open>Byte strings with a length prefix, as a value whose reader has room for it.\<close>

interpretation c_data: field_codec "mach_data_write e"
    "\<lambda>s. map_option (\<lambda>(s', _, bs). (s', bs)) (mach_data_read e 65535 s)"
    "\<lambda>v. mach_put_2 e (word_of_nat (length v)) @ v" "\<lambda>v. length v < 65536" for e
proof (unfold_locales, goal_cases)
  case (1 s v)
  then show ?case using data_write_enc [of s e v] by simp
next
  case (2 s v rest)
  then show ?case using data_read_enc [of s v 65535 e rest] by auto
qed

subsection \<open>Sequences of fields\<close>

datatype field = FU8 u8 | FI8 int | FU16 u16 | FI16 int | FU32 u32 | FI32 int | FU64 u64 | FI64 int
  | FData "u8 list" | FBlock "u8 list"

fun write_field :: "env \<Rightarrow> field \<Rightarrow> bin_stream \<Rightarrow> bin_stream option" where
  "write_field e (FU8 v) s = mach_uint8_write e v s"
| "write_field e (FI8 v) s = mach_int8_write e v s"
| "write_field e (FU16 v) s = mach_uint16_write e v s"
| "write_field e (FI16 v) s = mach_int16_write e v s"
| "write_field e (FU32 v) s = mach_uint32_write e v s"
| "write_field e (FI32 v) s = mach_int32_write e v s"
| "write_field e (FU64 v) s = mach_uint64_write e v s"
| "write_field e (FI64 v) s = mach_int64_write e v s"
| "write_field e (FData v) s = mach_data_write e v s"
| "write_field e (FBlock v) s = mach_block_write e v s"

text \<open>Reads a field of the type (and, for a block, the size) of the one given.\<close>

fun read_field :: "env \<Rightarrow> field \<Rightarrow> bin_stream \<Rightarrow> (bin_stream \<times> field) option" where
  "read_field e (FU8 _) s = map_option (apsnd FU8) (mach_uint8_read s)"
| "read_field e (FI8 _) s = map_option (apsnd FI8) (mach_int8_read s)"
| "read_field e (FU16 _) s = map_option (apsnd FU16) (mach_uint16_read e s)"
| "read_field e (FI16 _) s = map_option (apsnd FI16) (mach_int16_read e s)"
| "read_field e (FU32 _) s = map_option (apsnd FU32) (mach_uint32_read e s)"
| "read_field e (FI32 _) s = map_option (apsnd FI32) (mach_int32_read e s)"
| "read_field e (FU64 _) s = map_option (apsnd FU64) (mach_uint64_read e s)"
| "read_field e (FI64 _) s = map_option (apsnd FI64) (mach_int64_read e s)"
| "read_field e (FData v) s = map_option (\<lambda>(s, _, bs). (s, FData bs)) (mach_data_read e (length v) s)"
| "read_field e (FBlock v) s = map_option (\<lambda>(s, _, bs). (s, FBlock bs)) (mach_block_read (length v) s)"

fun write_fields :: "env \<Rightarrow> field list \<Rightarrow> bin_stream \<Rightarrow> bin_stream option" where
  "write_fields e [] s = Some s"
| "write_fields e (f # fs) s = do { s \<leftarrow> write_field e f s; write_fields e fs s }"

fun read_fields :: "env \<Rightarrow> field list \<Rightarrow> bin_stream \<Rightarrow> (bin_stream \<times> field list) option" where
  "read_fields e [] s = Some (s, [])"
| "read_fields e (f # fs) s = do {
     (s, g) \<leftarrow> read_field e f s;
     (s, gs) \<leftarrow> read_fields e fs s;
     Some (s, g # gs)
   }"

fun field_ok :: "field \<Rightarrow> bool" where
  "field_ok (FI8 v) = (-128 \<le> v \<and> v < 128)"
| "field_ok (FI16 v) = (-32768 \<le> v \<and> v < 32768)"
| "field_ok (FI32 v) = (-2147483648 \<le> v \<and> v < 2147483648)"
| "field_ok (FI64 v) = (-9223372036854775808 \<le> v \<and> v < 9223372036854775808)"
| "field_ok (FData v) = (length v < 65536)"
| "field_ok _ = True"

fun field_enc :: "env \<Rightarrow> field \<Rightarrow> u8 list" where
  "field_enc e (FU8 v) = [v]"
| "field_enc e (FI8 v) = [word_of_int v]"
| "field_enc e (FU16 v) = mach_put_2 e v"
| "field_enc e (FI16 v) = mach_put_2 e (word_of_int v)"
| "field_enc e (FU32 v) = mach_put_4 e v"
| "field_enc e (FI32 v) = mach_put_4 e (word_of_int v)"
| "field_enc e (FU64 v) = mach_put_8 e v"
| "field_enc e (FI64 v) = mach_put_8 e (word_of_int v)"
| "field_enc e (FData v) = mach_put_2 e (word_of_nat (length v)) @ v"
| "field_enc e (FBlock v) = v"

lemma write_field_enc:
  "strm_wf s \<Longrightarrow> \<exists>s'. write_field e f s = Some s' \<and> strm_wf s' \<and> rsize s' = rsize s \<and> written s' = written s @ field_enc e f"
  by (cases f) (simp_all add: c_u8.wr_enc c_i8.wr_enc c_u16.wr_enc c_i16.wr_enc c_u32.wr_enc c_i32.wr_enc
      c_u64.wr_enc c_i64.wr_enc data_write_enc mach_block_write_def write_bytes_ok)

lemma read_field_enc:
  assumes "strm_wf s" and "field_ok f" and "unread s = field_enc e f @ rest"
  shows "\<exists>s'. read_field e f s = Some (s', f) \<and> strm_wf s' \<and> unread s' = rest \<and> written s' = written s"
proof (cases f)
  case (FData v)
  then show ?thesis using assms data_read_enc [of s v "length v" e rest] by auto
next
  case (FBlock v)
  then show ?thesis using assms peek_unread [of s v rest] by (auto simp: mach_block_read_def)
qed (use assms c_u8.rd_enc [of s] c_i8.rd_enc [of s] c_u16.rd_enc [of s] c_i16.rd_enc [of s] c_u32.rd_enc [of s]
      c_i32.rd_enc [of s] c_u64.rd_enc [of s] c_i64.rd_enc [of s] in fastforce)+

lemma write_fields_enc:
  "strm_wf s \<Longrightarrow> \<exists>s'. write_fields e fs s = Some s' \<and> strm_wf s' \<and> rsize s' = rsize s
    \<and> written s' = written s @ concat (map (field_enc e) fs)"
proof (induction fs arbitrary: s)
  case (Cons f fs)
  obtain s1 where s1: "write_field e f s = Some s1" "strm_wf s1" "rsize s1 = rsize s" "written s1 = written s @ field_enc e f"
    using write_field_enc [OF Cons.prems] by blast
  then show ?case using Cons.IH [OF s1(2)] by auto
qed simp

lemma read_fields_enc:
  "strm_wf s \<Longrightarrow> list_all field_ok fs \<Longrightarrow> unread s = concat (map (field_enc e) fs) @ rest \<Longrightarrow>
    \<exists>s'. read_fields e fs s = Some (s', fs) \<and> strm_wf s' \<and> unread s' = rest \<and> written s' = written s"
proof (induction fs arbitrary: s)
  case (Cons f fs)
  have "unread s = field_enc e f @ (concat (map (field_enc e) fs) @ rest)"
    using Cons.prems(3) by simp
  then obtain s1 where s1: "read_field e f s = Some (s1, f)" "strm_wf s1" "unread s1 = concat (map (field_enc e) fs) @ rest"
      "written s1 = written s"
    using read_field_enc [of s f e] Cons.prems by auto
  then show ?case using Cons.IH [OF s1(2)] Cons.prems(2) by auto
qed simp

lemma written_rewind: "strm_wf s \<Longrightarrow> unread (bin_stream_rewind s 0) = written s"
  by (simp add: unread_def bin_stream_rewind_def written_def)

text \<open>A read of an integer that finds too few unread bytes returns zero and changes nothing.\<close>

lemma stream_short_read:
  assumes "strm_wf s"
  shows "length (unread s) < 1 \<Longrightarrow> mach_uint8_read s = Some (s, 0)"
    and "length (unread s) < 2 \<Longrightarrow> mach_uint16_read e s = Some (s, 0)"
    and "length (unread s) < 4 \<Longrightarrow> mach_uint32_read e s = Some (s, 0) \<and> mach_int32_read e s = Some (s, 0)"
    and "length (unread s) < 8 \<Longrightarrow> mach_uint64_read e s = Some (s, 0) \<and> mach_int64_read e s = Some (s, 0)"
  by (simp_all add: mach_uint8_read_def mach_uint16_read_def mach_uint32_read_def mach_int32_read_def
      mach_uint64_read_def mach_int64_read_def read_bytes_short [OF assms])

text \<open>\<open>bin_stream_move\<close> keeps what is not yet read.\<close>

lemma bin_stream_move_keeps:
  assumes "strm_wf s"
  shows "\<exists>s'. bin_stream_move s = Some s' \<and> strm_wf s' \<and> unread s' = unread s"
proof (cases "used s = rsize s \<and> 0 < rsize s")
  case True
  then show ?thesis
    using assms by (simp add: bin_stream_move_def strm_wf_def unread_def written_def)
next
  case False
  show ?thesis
  proof (cases "rsize s < used s \<and> strm_size s div 2 < rsize s \<and> strm_size s \<le> used s + 256")
    case True
    define bs where "bs = take (used s - rsize s) (drop (rsize s) (data s))"
    have "peek (rptr s) (used s - rsize s) (data s) = Some bs"
      using assms True by (simp add: peek_def strm_wf_def bs_def)
    moreover have "length bs = used s - rsize s"
      using assms unfolding bs_def strm_wf_def by (simp add: diff_le_mono min_absorb2)
    moreover have "poke 0 bs (data s) = Some (bs @ drop (length bs) (data s))"
      using assms by (simp add: poke_def strm_wf_def bs_def)
    moreover have "unread s = bs"
      by (simp add: unread_def written_def bs_def drop_take)
    ultimately show ?thesis
      using assms True by (auto simp: bin_stream_move_def strm_wf_def unread_def written_def Let_def)
  next
    case no: False
    then have "bin_stream_move s = Some s"
      using False by (auto simp: bin_stream_move_def Let_def)
    then show ?thesis using assms by blast
  qed
qed

subsection \<open>Properties\<close>

text \<open>
  C38: typed fields survive the buffer. On any well-formed stream, whatever the host's byte order
  and whether or not \<open>big_endian\<close> was initialised, any sequence of fields can be written after a
  reset (the buffer grows as needed, no access leaves it), and after a rewind reading the same
  types gives back every field whose value its type can hold, and leaves nothing unread.
\<close>

theorem stream_roundtrip:
  assumes "strm_wf s" and "list_all field_ok fs"
  shows "\<exists>s1 s2. write_fields e fs (bin_stream_rewind s 1) = Some s1
    \<and> read_fields e fs (bin_stream_rewind s1 0) = Some (s2, fs) \<and> unread s2 = []"
proof -
  have "strm_wf (bin_stream_rewind s 1)" and "written (bin_stream_rewind s 1) = []"
    using bin_stream_rewind_wf [OF assms(1), of 1] by simp_all
  then obtain s1 where s1: "write_fields e fs (bin_stream_rewind s 1) = Some s1" "strm_wf s1"
      "written s1 = concat (map (field_enc e) fs)"
    using write_fields_enc [of "bin_stream_rewind s 1" e fs] by auto
  have "strm_wf (bin_stream_rewind s1 0)" and "unread (bin_stream_rewind s1 0) = concat (map (field_enc e) fs) @ []"
    using bin_stream_rewind_wf [OF s1(2), of 0] written_rewind [OF s1(2)] s1(3) by simp_all
  then show ?thesis
    using read_fields_enc [of "bin_stream_rewind s1 0" fs e "[]"] assms(2) s1(1) by blast
qed

lemma init_stream_wf:
  "strm_wf \<lparr>data = replicate 1024 0, strm_size = 1024, rptr = 0, rsize = 0, wptr = 0, used = 0, magic = 0\<rparr>"
  by (simp add: strm_wf_def)

theorem stream_roundtrip_witness:
  "\<exists>s1 s2. write_fields \<lparr>host_big = False, big_endian = -1, fresh_byte = \<lambda>_. 0\<rparr> [FU16 0x1234, FI32 (-5), FData [1, 2], FBlock [9]]
      (bin_stream_rewind \<lparr>data = replicate 1024 0, strm_size = 1024, rptr = 0, rsize = 0, wptr = 0, used = 0, magic = 0\<rparr> 1) = Some s1
    \<and> read_fields \<lparr>host_big = False, big_endian = -1, fresh_byte = \<lambda>_. 0\<rparr> [FU16 0x1234, FI32 (-5), FData [1, 2], FBlock [9]]
      (bin_stream_rewind s1 0) = Some (s2, [FU16 0x1234, FI32 (-5), FData [1, 2], FBlock [9]]) \<and> unread s2 = []"
  by (rule stream_roundtrip [OF init_stream_wf]) simp

end
