(* ===== verification/Estimator_Common.thy ===== *)
theory Estimator_Common
  imports Bin_Stream
begin

text \<open>
  \<^verbatim>\<open>estimator/estimator_common.c\<close> and \<^verbatim>\<open>.h\<close>: the feedback message that the receiver's controller
  sends and the sender's controller decodes, the packet record both share, and the enumerations of
  the estimator. The message's \<open>samples\<close> array has 128 elements; an access beyond is \<open>None\<close>.

  The lemmas: encoding a message and decoding it into any message gives the fields that the flags
  select, with arrival times relative to \<open>min_ts\<close> truncated to 16 bits.
\<close>

abbreviation MAX_FEELBACK_COUNT :: nat where "MAX_FEELBACK_COUNT \<equiv> 128"

datatype bandwidth_usage = kBwNormal | kBwUnderusing | kBwOverusing

datatype rate_control_state = kRcHold | kRcIncrease | kRcDecrease

datatype rate_control_region = kRcNearMax | kRcAboveMax | kRcMaxUnknown

record packet_feedback =
  create_ts :: int
  arrival_ts :: int
  send_ts :: int
  sequence_number :: u16
  payload_size :: nat

definition init_packet_feedback :: packet_feedback where
  "init_packet_feedback = \<lparr>create_ts = -1, arrival_ts = -1, send_ts = -1, sequence_number = 0, payload_size = 0\<rparr>"

record feedback_sample =
  fs_seq :: u16
  fs_ts :: int

record feedback_msg =
  flag :: u8
  remb :: u32
  fraction_loss :: u8
  packet_num :: int
  base_seq :: int
  min_ts :: int
  samples_num :: u8
  samples :: "feedback_sample list"

abbreviation remb_msg :: u8 where "remb_msg \<equiv> 0x01"
abbreviation loss_info_msg :: u8 where "loss_info_msg \<equiv> 0x02"
abbreviation proxy_ts_msg :: u8 where "proxy_ts_msg \<equiv> 0x04"

definition has_flag :: "feedback_msg \<Rightarrow> u8 \<Rightarrow> bool" where
  "has_flag msg f \<longleftrightarrow> and (flag msg) f = f"

text \<open>\<open>i\<close> counts up to \<open>samples_num\<close>; \<open>n\<close> is the number of iterations left.\<close>

fun encode_samples :: "env \<Rightarrow> feedback_msg \<Rightarrow> nat \<Rightarrow> nat \<Rightarrow> bin_stream \<Rightarrow> bin_stream option" where
  "encode_samples e msg i 0 s = Some s"
| "encode_samples e msg i (Suc n) s =
     (if i < length (samples msg)
      then do {
        s \<leftarrow> mach_uint16_write e (fs_seq (samples msg ! i)) s;
        s \<leftarrow> mach_uint16_write e (word_of_int (fs_ts (samples msg ! i) - min_ts msg)) s;
        encode_samples e msg (i + 1) n s
      }
      else None)"

definition feedback_msg_encode :: "env \<Rightarrow> bin_stream \<Rightarrow> feedback_msg \<Rightarrow> bin_stream option" where
  "feedback_msg_encode e s msg = do {
     s \<leftarrow> mach_uint8_write e (flag msg) s;
     s \<leftarrow> (if has_flag msg remb_msg then mach_uint32_write e (remb msg) s else Some s);
     s \<leftarrow> (if has_flag msg loss_info_msg
          then do {
            s \<leftarrow> mach_uint8_write e (fraction_loss msg) s;
            mach_int32_write e (packet_num msg) s
          }
          else Some s);
     if has_flag msg proxy_ts_msg
     then do {
       s \<leftarrow> mach_int64_write e (base_seq msg) s;
       s \<leftarrow> mach_int64_write e (min_ts msg) s;
       s \<leftarrow> mach_uint8_write e (samples_num msg) s;
       encode_samples e msg 0 (unat (samples_num msg)) s
     }
     else Some s
   }"

fun decode_samples :: "env \<Rightarrow> nat \<Rightarrow> nat \<Rightarrow> bin_stream \<Rightarrow> feedback_msg \<Rightarrow> (bin_stream \<times> feedback_msg) option" where
  "decode_samples e i 0 s msg = Some (s, msg)"
| "decode_samples e i (Suc n) s msg =
     (if i < length (samples msg)
      then do {
        (s, q) \<leftarrow> mach_uint16_read e s;
        (s, delta_ts) \<leftarrow> mach_uint16_read e s;
        decode_samples e (i + 1) n s
          (msg\<lparr>samples := (samples msg)[i := \<lparr>fs_seq = q, fs_ts = min_ts msg + uint delta_ts\<rparr>]\<rparr>)
      }
      else None)"

definition decode_remb :: "env \<Rightarrow> bin_stream \<Rightarrow> feedback_msg \<Rightarrow> (bin_stream \<times> feedback_msg) option" where
  "decode_remb e s msg =
     (if has_flag msg remb_msg
      then do { (s, v) \<leftarrow> mach_uint32_read e s; Some (s, msg\<lparr>remb := v\<rparr>) }
      else Some (s, msg))"

definition decode_loss :: "env \<Rightarrow> bin_stream \<Rightarrow> feedback_msg \<Rightarrow> (bin_stream \<times> feedback_msg) option" where
  "decode_loss e s msg =
     (if has_flag msg loss_info_msg
      then do {
        (s, v) \<leftarrow> mach_uint8_read s;
        (s, n) \<leftarrow> mach_int32_read e s;
        Some (s, msg\<lparr>fraction_loss := v, packet_num := n\<rparr>)
      }
      else Some (s, msg))"

definition decode_proxy :: "env \<Rightarrow> bin_stream \<Rightarrow> feedback_msg \<Rightarrow> (bin_stream \<times> feedback_msg) option" where
  "decode_proxy e s msg =
     (if has_flag msg proxy_ts_msg
      then do {
        (s, b) \<leftarrow> mach_int64_read e s;
        (s, t) \<leftarrow> mach_int64_read e s;
        (s, n) \<leftarrow> mach_uint8_read s;
        let n = (if MAX_FEELBACK_COUNT < unat n then 0 else n);
        decode_samples e 0 (unat n) s (msg\<lparr>base_seq := b, min_ts := t, samples_num := n\<rparr>)
      }
      else Some (s, msg))"

definition feedback_msg_decode :: "env \<Rightarrow> bin_stream \<Rightarrow> feedback_msg \<Rightarrow> (bin_stream \<times> feedback_msg) option" where
  "feedback_msg_decode e s msg = do {
     (s, v) \<leftarrow> mach_uint8_read s;
     (s, msg) \<leftarrow> decode_remb e s (msg\<lparr>flag := v\<rparr>);
     (s, msg) \<leftarrow> decode_loss e s msg;
     decode_proxy e s msg
   }"

subsection \<open>Encoding as bytes\<close>

definition sample_enc :: "env \<Rightarrow> int \<Rightarrow> feedback_sample \<Rightarrow> u8 list" where
  "sample_enc e mts x = mach_put_2 e (fs_seq x) @ mach_put_2 e (word_of_int (fs_ts x - mts))"

definition msg_enc :: "env \<Rightarrow> feedback_msg \<Rightarrow> u8 list" where
  "msg_enc e msg =
     [flag msg] @ (if has_flag msg remb_msg then mach_put_4 e (remb msg) else [])
     @ (if has_flag msg loss_info_msg then [fraction_loss msg] @ mach_put_4 e (word_of_int (packet_num msg)) else [])
     @ (if has_flag msg proxy_ts_msg
        then mach_put_8 e (word_of_int (base_seq msg)) @ mach_put_8 e (word_of_int (min_ts msg)) @ [samples_num msg]
          @ concat (map (sample_enc e (min_ts msg)) (take (unat (samples_num msg)) (samples msg)))
        else [])"

text \<open>A message the encoder accepts: integers in range, and no more samples than the array has.\<close>

definition msg_ok :: "feedback_msg \<Rightarrow> bool" where
  "msg_ok msg \<longleftrightarrow> length (samples msg) = MAX_FEELBACK_COUNT \<and> unat (samples_num msg) \<le> MAX_FEELBACK_COUNT
     \<and> -2147483648 \<le> packet_num msg \<and> packet_num msg < 2147483648
     \<and> -9223372036854775808 \<le> base_seq msg \<and> base_seq msg < 9223372036854775808
     \<and> -9223372036854775808 \<le> min_ts msg \<and> min_ts msg < 9223372036854775808"

lemma encode_samples_enc:
  "strm_wf s \<Longrightarrow> i + n \<le> length (samples msg) \<Longrightarrow>
    \<exists>s'. encode_samples e msg i n s = Some s' \<and> strm_wf s' \<and> rsize s' = rsize s
      \<and> written s' = written s @ concat (map (sample_enc e (min_ts msg)) (take n (drop i (samples msg))))"
proof (induction n arbitrary: i s)
  case (Suc n)
  define x where "x = samples msg ! i"
  obtain s1 where s1: "mach_uint16_write e (fs_seq x) s = Some s1" "strm_wf s1" "rsize s1 = rsize s"
      "written s1 = written s @ mach_put_2 e (fs_seq x)"
    using c_u16.wr_enc [OF Suc.prems(1)] by blast
  obtain s2 where s2: "mach_uint16_write e (word_of_int (fs_ts x - min_ts msg)) s1 = Some s2" "strm_wf s2" "rsize s2 = rsize s1"
      "written s2 = written s1 @ mach_put_2 e (word_of_int (fs_ts x - min_ts msg))"
    using c_u16.wr_enc [OF s1(2)] by blast
  have "take (Suc n) (drop i (samples msg)) = x # take n (drop (Suc i) (samples msg))"
    using Suc.prems(2) by (simp add: x_def Cons_nth_drop_Suc [symmetric])
  then show ?case
    using Suc.IH [OF s2(2), of "i + 1"] Suc.prems(2) s1 s2 by (auto simp: x_def [symmetric] sample_enc_def)
qed simp

lemma feedback_msg_encode_enc:
  assumes "strm_wf s" and "has_flag msg proxy_ts_msg \<longrightarrow> unat (samples_num msg) \<le> length (samples msg)"
  shows "\<exists>s'. feedback_msg_encode e s msg = Some s' \<and> strm_wf s' \<and> rsize s' = rsize s \<and> written s' = written s @ msg_enc e msg"
proof -
  obtain s1 where s1: "mach_uint8_write e (flag msg) s = Some s1" "strm_wf s1" "rsize s1 = rsize s" "written s1 = written s @ [flag msg]"
    using c_u8.wr_enc [OF assms(1)] by blast
  obtain s2 where s2: "(if has_flag msg remb_msg then mach_uint32_write e (remb msg) s1 else Some s1) = Some s2" "strm_wf s2"
      "rsize s2 = rsize s1" "written s2 = written s1 @ (if has_flag msg remb_msg then mach_put_4 e (remb msg) else [])"
    using c_u32.wr_enc [OF s1(2), of e "remb msg"] s1(2) by (cases "has_flag msg remb_msg") auto
  obtain s3 where s3: "(if has_flag msg loss_info_msg
          then do { s \<leftarrow> mach_uint8_write e (fraction_loss msg) s2; mach_int32_write e (packet_num msg) s } else Some s2) = Some s3"
      "strm_wf s3" "rsize s3 = rsize s2"
      "written s3 = written s2 @ (if has_flag msg loss_info_msg then [fraction_loss msg] @ mach_put_4 e (word_of_int (packet_num msg)) else [])"
    using c_u8.wr_enc [OF s2(2), of e "fraction_loss msg"] c_i32.wr_enc [of _ e "packet_num msg"] s2(2)
    by (cases "has_flag msg loss_info_msg") fastforce+
  show ?thesis
  proof (cases "has_flag msg proxy_ts_msg")
    case True
    obtain s4 where s4: "mach_int64_write e (base_seq msg) s3 = Some s4" "strm_wf s4" "rsize s4 = rsize s3"
        "written s4 = written s3 @ mach_put_8 e (word_of_int (base_seq msg))"
      using c_i64.wr_enc [OF s3(2)] by blast
    obtain s5 where s5: "mach_int64_write e (min_ts msg) s4 = Some s5" "strm_wf s5" "rsize s5 = rsize s4"
        "written s5 = written s4 @ mach_put_8 e (word_of_int (min_ts msg))"
      using c_i64.wr_enc [OF s4(2)] by blast
    obtain s6 where s6: "mach_uint8_write e (samples_num msg) s5 = Some s6" "strm_wf s6" "rsize s6 = rsize s5"
        "written s6 = written s5 @ [samples_num msg]"
      using c_u8.wr_enc [OF s5(2)] by blast
    have "0 + unat (samples_num msg) \<le> length (samples msg)"
      using assms(2) True by simp
    then show ?thesis
      using encode_samples_enc [OF s6(2), of 0 "unat (samples_num msg)" msg e] s1 s2 s3 s4 s5 s6 True
      by (auto simp: feedback_msg_encode_def msg_enc_def)
  next
    case False
    then show ?thesis
      using s1 s2 s3 by (auto simp: feedback_msg_encode_def msg_enc_def)
  qed
qed

subsection \<open>Decoding\<close>

definition sample_dec :: "int \<Rightarrow> feedback_sample \<Rightarrow> feedback_sample" where
  "sample_dec mts x = \<lparr>fs_seq = fs_seq x, fs_ts = mts + (fs_ts x - mts) mod 65536\<rparr>"

lemma decode_samples_enc:
  "strm_wf s \<Longrightarrow> i + length xs \<le> length (samples msg) \<Longrightarrow>
    unread s = concat (map (sample_enc e (min_ts msg)) xs) @ rest \<Longrightarrow>
    \<exists>s'. decode_samples e i (length xs) s msg = Some (s', msg\<lparr>samples :=
          take i (samples msg) @ map (sample_dec (min_ts msg)) xs @ drop (i + length xs) (samples msg)\<rparr>)
      \<and> strm_wf s' \<and> unread s' = rest"
proof (induction xs arbitrary: i s msg)
  case Nil
  then show ?case by auto
next
  case (Cons x xs)
  have "unread s = mach_put_2 e (fs_seq x) @ mach_put_2 e (word_of_int (fs_ts x - min_ts msg))
      @ concat (map (sample_enc e (min_ts msg)) xs) @ rest"
    using Cons.prems(3) sample_enc_def [of e "min_ts msg" x] by simp
  then obtain s1 where s1: "mach_uint16_read e s = Some (s1, fs_seq x)" "strm_wf s1"
      "unread s1 = mach_put_2 e (word_of_int (fs_ts x - min_ts msg)) @ concat (map (sample_enc e (min_ts msg)) xs) @ rest"
    using c_u16.rd_enc [OF Cons.prems(1) TrueI] by blast
  obtain s2 where s2: "mach_uint16_read e s1 = Some (s2, word_of_int (fs_ts x - min_ts msg))" "strm_wf s2"
      "unread s2 = concat (map (sample_enc e (min_ts msg)) xs) @ rest"
    using c_u16.rd_enc [OF s1(2) TrueI s1(3)] by blast
  define m where "m = msg\<lparr>samples := (samples msg)[i := sample_dec (min_ts msg) x]\<rparr>"
  have i: "i < length (samples msg)"
    using Cons.prems(2) by simp
  have step: "decode_samples e i (length (x # xs)) s msg = decode_samples e (i + 1) (length xs) s2 m"
    using i s1(1) s2(1) by (simp add: m_def sample_dec_def uint_of_int_u16 del: of_int_diff)
  obtain s' where s': "decode_samples e (i + 1) (length xs) s2 m = Some (s', m\<lparr>samples :=
          take (i + 1) (samples m) @ map (sample_dec (min_ts m)) xs @ drop (i + 1 + length xs) (samples m)\<rparr>)"
      "strm_wf s'" "unread s' = rest"
    using Cons.IH [of s2 "i + 1" m] s2 Cons.prems(2) by (auto simp: m_def)
  have "take (i + 1) (samples m) = take i (samples msg) @ [sample_dec (min_ts msg) x]"
    using i by (simp add: m_def take_Suc_conv_app_nth)
  then show ?case
    using s' step by (simp add: m_def)
qed

lemma decode_samples_total:
  "strm_wf s \<Longrightarrow> i + n \<le> length (samples msg) \<Longrightarrow>
    \<exists>s' m'. decode_samples e i n s msg = Some (s', m') \<and> strm_wf s' \<and> length (samples m') = length (samples msg)
      \<and> samples_num m' = samples_num msg \<and> written s' = written s"
proof (induction n arbitrary: i s msg)
  case (Suc n)
  obtain s1 v where s1: "mach_uint16_read e s = Some (s1, v)" "strm_wf s1" "written s1 = written s"
    using mach_uint16_read_total [OF Suc.prems(1)] by blast
  obtain s2 d where s2: "mach_uint16_read e s1 = Some (s2, d)" "strm_wf s2" "written s2 = written s1"
    using mach_uint16_read_total [OF s1(2)] by blast
  show ?case
    using Suc.IH [OF s2(2), of "i + 1" "msg\<lparr>samples := (samples msg)[i := \<lparr>fs_seq = v, fs_ts = min_ts msg + uint d\<rparr>]\<rparr>"]
      Suc.prems(2) s1 s2 by auto
qed simp

text \<open>What decoding a message over an old value of the struct must give, step by step.\<close>

definition merge_remb :: "feedback_msg \<Rightarrow> feedback_msg \<Rightarrow> feedback_msg" where
  "merge_remb old msg = (if has_flag msg remb_msg then old\<lparr>remb := remb msg\<rparr> else old)"

definition merge_loss :: "feedback_msg \<Rightarrow> feedback_msg \<Rightarrow> feedback_msg" where
  "merge_loss old msg =
     (if has_flag msg loss_info_msg then old\<lparr>fraction_loss := fraction_loss msg, packet_num := packet_num msg\<rparr> else old)"

definition merge_proxy :: "feedback_msg \<Rightarrow> feedback_msg \<Rightarrow> feedback_msg" where
  "merge_proxy old msg =
     (if has_flag msg proxy_ts_msg
      then old\<lparr>base_seq := base_seq msg, min_ts := min_ts msg, samples_num := samples_num msg,
               samples := map (sample_dec (min_ts msg)) (take (unat (samples_num msg)) (samples msg))
                 @ drop (unat (samples_num msg)) (samples old)\<rparr>
      else old)"

definition msg_merge :: "feedback_msg \<Rightarrow> feedback_msg \<Rightarrow> feedback_msg" where
  "msg_merge old msg = merge_proxy (merge_loss (merge_remb (old\<lparr>flag := flag msg\<rparr>) msg) msg) msg"

lemma decode_remb_enc:
  assumes "strm_wf s" and "flag old = flag msg"
    and "unread s = (if has_flag msg remb_msg then mach_put_4 e (remb msg) else []) @ rest"
  shows "\<exists>s'. decode_remb e s old = Some (s', merge_remb old msg) \<and> strm_wf s' \<and> unread s' = rest"
  using assms c_u32.rd_enc [OF assms(1) TrueI, of e "remb msg" rest]
  by (auto simp: decode_remb_def merge_remb_def has_flag_def)

lemma decode_loss_enc:
  assumes "strm_wf s" and "flag old = flag msg" and ok: "msg_ok msg"
    and "unread s = (if has_flag msg loss_info_msg then [fraction_loss msg] @ mach_put_4 e (word_of_int (packet_num msg)) else []) @ rest"
  shows "\<exists>s'. decode_loss e s old = Some (s', merge_loss old msg) \<and> strm_wf s' \<and> unread s' = rest"
proof (cases "has_flag msg loss_info_msg")
  case True
  have pn: "-2147483648 \<le> packet_num msg \<and> packet_num msg < 2147483648"
    using ok by (simp add: msg_ok_def)
  have "unread s = [fraction_loss msg] @ mach_put_4 e (word_of_int (packet_num msg)) @ rest"
    using assms(4) True by simp
  then obtain t where t: "mach_uint8_read s = Some (t, fraction_loss msg)" "strm_wf t"
      "unread t = mach_put_4 e (word_of_int (packet_num msg)) @ rest"
    using c_u8.rd_enc [OF assms(1) TrueI] by blast
  obtain t' where "mach_int32_read e t = Some (t', packet_num msg)" "strm_wf t'" "unread t' = rest"
    using c_i32.rd_enc [OF t(2) pn t(3)] by blast
  then show ?thesis
    using t True assms(2) by (simp add: decode_loss_def merge_loss_def has_flag_def)
next
  case False
  then show ?thesis
    using assms by (simp add: decode_loss_def merge_loss_def has_flag_def)
qed

lemma decode_proxy_enc:
  assumes "strm_wf s" and "flag old = flag msg" and ok: "msg_ok msg" and old: "length (samples old) = MAX_FEELBACK_COUNT"
    and "unread s = (if has_flag msg proxy_ts_msg
        then mach_put_8 e (word_of_int (base_seq msg)) @ mach_put_8 e (word_of_int (min_ts msg)) @ [samples_num msg]
          @ concat (map (sample_enc e (min_ts msg)) (take (unat (samples_num msg)) (samples msg)))
        else []) @ rest"
  shows "\<exists>s'. decode_proxy e s old = Some (s', merge_proxy old msg) \<and> strm_wf s' \<and> unread s' = rest"
proof (cases "has_flag msg proxy_ts_msg")
  case False
  then show ?thesis
    using assms by (simp add: decode_proxy_def merge_proxy_def has_flag_def)
next
  case True
  define xs where "xs = take (unat (samples_num msg)) (samples msg)"
  have lx: "length xs = unat (samples_num msg)" "length xs \<le> MAX_FEELBACK_COUNT"
    using ok by (simp_all add: msg_ok_def xs_def)
  have rng: "-9223372036854775808 \<le> base_seq msg \<and> base_seq msg < 9223372036854775808"
      "-9223372036854775808 \<le> min_ts msg \<and> min_ts msg < 9223372036854775808"
    using ok by (simp_all add: msg_ok_def)
  have "unread s = mach_put_8 e (word_of_int (base_seq msg)) @ mach_put_8 e (word_of_int (min_ts msg)) @ [samples_num msg]
        @ concat (map (sample_enc e (min_ts msg)) xs) @ rest"
    using assms(5) True by (simp add: xs_def)
  then obtain s1 where s1: "mach_int64_read e s = Some (s1, base_seq msg)" "strm_wf s1"
      "unread s1 = mach_put_8 e (word_of_int (min_ts msg)) @ [samples_num msg] @ concat (map (sample_enc e (min_ts msg)) xs) @ rest"
    using c_i64.rd_enc [OF assms(1) rng(1)] by blast
  obtain s2 where s2: "mach_int64_read e s1 = Some (s2, min_ts msg)" "strm_wf s2"
      "unread s2 = [samples_num msg] @ concat (map (sample_enc e (min_ts msg)) xs) @ rest"
    using c_i64.rd_enc [OF s1(2) rng(2) s1(3)] by blast
  obtain s3 where s3: "mach_uint8_read s2 = Some (s3, samples_num msg)" "strm_wf s3"
      "unread s3 = concat (map (sample_enc e (min_ts msg)) xs) @ rest"
    using c_u8.rd_enc [OF s2(2) TrueI s2(3)] by blast
  define m where "m = old\<lparr>base_seq := base_seq msg, min_ts := min_ts msg, samples_num := samples_num msg\<rparr>"
  have "0 + length xs \<le> length (samples m)" and "unread s3 = concat (map (sample_enc e (min_ts m)) xs) @ rest"
    using s3(3) lx old by (simp_all add: m_def)
  from decode_samples_enc [OF s3(2) this] obtain s4 where s4: "decode_samples e 0 (length xs) s3 m = Some (s4, m\<lparr>samples :=
        take 0 (samples m) @ map (sample_dec (min_ts m)) xs @ drop (0 + length xs) (samples m)\<rparr>)" "strm_wf s4" "unread s4 = rest"
    by blast
  have "decode_proxy e s old = decode_samples e 0 (length xs) s3 m"
    using s1(1) s2(1) s3(1) True lx assms(2) by (simp add: decode_proxy_def has_flag_def m_def Let_def)
  moreover have "m\<lparr>samples := take 0 (samples m) @ map (sample_dec (min_ts m)) xs @ drop (0 + length xs) (samples m)\<rparr> = merge_proxy old msg"
    using True lx by (simp add: merge_proxy_def m_def xs_def)
  ultimately show ?thesis using s4 by simp
qed

lemma feedback_msg_decode_enc:
  assumes "strm_wf s" and ok: "msg_ok msg" and old: "length (samples old) = MAX_FEELBACK_COUNT"
    and "unread s = msg_enc e msg @ rest"
  shows "\<exists>s'. feedback_msg_decode e s old = Some (s', msg_merge old msg) \<and> strm_wf s' \<and> unread s' = rest"
proof -
  obtain r1 where r1: "msg_enc e msg @ rest = [flag msg] @ r1" "r1 = (if has_flag msg remb_msg then mach_put_4 e (remb msg) else []) @
      (if has_flag msg loss_info_msg then [fraction_loss msg] @ mach_put_4 e (word_of_int (packet_num msg)) else []) @
      (if has_flag msg proxy_ts_msg
        then mach_put_8 e (word_of_int (base_seq msg)) @ mach_put_8 e (word_of_int (min_ts msg)) @ [samples_num msg]
          @ concat (map (sample_enc e (min_ts msg)) (take (unat (samples_num msg)) (samples msg)))
        else []) @ rest"
    by (simp add: msg_enc_def)
  obtain s1 where s1: "mach_uint8_read s = Some (s1, flag msg)" "strm_wf s1" "unread s1 = r1"
    using c_u8.rd_enc [OF assms(1) TrueI] assms(4) r1(1) by auto
  define m1 m2 m3 where "m1 = old\<lparr>flag := flag msg\<rparr>" and "m2 = merge_remb m1 msg" and "m3 = merge_loss m2 msg"
  have fl: "flag m1 = flag msg" "flag m2 = flag msg" "flag m3 = flag msg" "length (samples m3) = MAX_FEELBACK_COUNT"
    using old by (simp_all add: m1_def m2_def m3_def merge_remb_def merge_loss_def)
  obtain s2 where s2: "decode_remb e s1 m1 = Some (s2, m2)" "strm_wf s2" "unread s2 =
      (if has_flag msg loss_info_msg then [fraction_loss msg] @ mach_put_4 e (word_of_int (packet_num msg)) else []) @
      (if has_flag msg proxy_ts_msg
        then mach_put_8 e (word_of_int (base_seq msg)) @ mach_put_8 e (word_of_int (min_ts msg)) @ [samples_num msg]
          @ concat (map (sample_enc e (min_ts msg)) (take (unat (samples_num msg)) (samples msg)))
        else []) @ rest"
    using decode_remb_enc [OF s1(2) fl(1) s1(3) [unfolded r1(2)]] unfolding m2_def by blast
  obtain s3 where s3: "decode_loss e s2 m2 = Some (s3, m3)" "strm_wf s3" "unread s3 =
      (if has_flag msg proxy_ts_msg
        then mach_put_8 e (word_of_int (base_seq msg)) @ mach_put_8 e (word_of_int (min_ts msg)) @ [samples_num msg]
          @ concat (map (sample_enc e (min_ts msg)) (take (unat (samples_num msg)) (samples msg)))
        else []) @ rest"
    using decode_loss_enc [OF s2(2) fl(2) ok s2(3)] unfolding m3_def by blast
  have "feedback_msg_decode e s old = decode_proxy e s3 m3"
    using s1(1) s2(1) s3(1) by (simp add: feedback_msg_decode_def m1_def)
  then show ?thesis
    using decode_proxy_enc [OF s3(2) fl(3) ok fl(4) s3(3)] by (simp add: msg_merge_def m1_def m2_def m3_def)
qed

text \<open>The message that arrives of one sent with any values in its integers, or with \<open>samples_num\<close> not set.\<close>

definition wire_msg :: "feedback_msg \<Rightarrow> feedback_msg" where
  "wire_msg msg = (if has_flag msg proxy_ts_msg
     then msg\<lparr>base_seq := sint (word_of_int (base_seq msg) :: u64), min_ts := sint (word_of_int (min_ts msg) :: u64)\<rparr>
     else msg\<lparr>base_seq := 0, min_ts := 0, samples_num := 0\<rparr>)"

lemma sint_of_int_u16: "(word_of_int (x - sint (word_of_int y :: u64)) :: u16) = word_of_int (x - y)"
proof -
  have "(word_of_int (sint (word_of_int y :: u64)) :: u16) = word_of_int y"
    by (simp add: word_of_int_eq_iff signed_of_int take_bit_signed_take_bit)
  then show ?thesis
    by (metis wi_hom_sub)
qed

lemma msg_enc_wire: "msg_enc e (wire_msg msg) = msg_enc e msg"
proof (cases "has_flag msg proxy_ts_msg")
  case True
  have "sample_enc e (sint (word_of_int (min_ts msg) :: u64)) = sample_enc e (min_ts msg)"
    by (rule ext) (simp add: sample_enc_def sint_of_int_u16 del: of_int_diff)
  then show ?thesis
    using True by (simp add: wire_msg_def msg_enc_def has_flag_def)
qed (simp add: wire_msg_def msg_enc_def has_flag_def)

lemma wire_msg_ok:
  assumes "length (samples msg) = MAX_FEELBACK_COUNT" and "has_flag msg proxy_ts_msg \<longrightarrow> unat (samples_num msg) \<le> MAX_FEELBACK_COUNT"
    and "-2147483648 \<le> packet_num msg" and "packet_num msg < 2147483648"
  shows "msg_ok (wire_msg msg)"
  using assms sint_greater_eq [of "word_of_int (base_seq msg) :: u64"] sint_less [of "word_of_int (base_seq msg) :: u64"]
    sint_greater_eq [of "word_of_int (min_ts msg) :: u64"] sint_less [of "word_of_int (min_ts msg) :: u64"]
  by (simp add: msg_ok_def wire_msg_def)

lemma wire_msg_frame [simp]: "flag (wire_msg msg) = flag msg" "has_flag (wire_msg msg) f = has_flag msg f" "remb (wire_msg msg) = remb msg"
  "fraction_loss (wire_msg msg) = fraction_loss msg" "packet_num (wire_msg msg) = packet_num msg"
  "has_flag msg proxy_ts_msg \<Longrightarrow> samples_num (wire_msg msg) = samples_num msg"
  by (simp_all add: wire_msg_def has_flag_def)

text \<open>The largest message has 18 bytes before its samples, and 4 for the fields of the REMB, 5 for those of the loss report.\<close>

lemma msg_enc_length:
  assumes "has_flag msg proxy_ts_msg \<longrightarrow> unat (samples_num msg) \<le> MAX_FEELBACK_COUNT"
  shows "length (msg_enc e msg) \<le> 539"
proof -
  have "length (concat (map (sample_enc e t) xs)) = 4 * length xs" for t xs
    by (induction xs) (simp_all add: sample_enc_def)
  moreover have "has_flag msg proxy_ts_msg \<Longrightarrow> min (length (samples msg)) (unat (samples_num msg)) \<le> 128"
    using assms by simp
  ultimately show ?thesis
    by (cases "has_flag msg proxy_ts_msg") (auto simp: msg_enc_def)
qed

lemma feedback_msg_decode_total:
  assumes "strm_wf s" and "length (samples old) = MAX_FEELBACK_COUNT"
  shows "\<exists>s' m. feedback_msg_decode e s old = Some (s', m) \<and> strm_wf s' \<and> written s' = written s
    \<and> length (samples m) = MAX_FEELBACK_COUNT
    \<and> (has_flag m proxy_ts_msg \<or> unat (samples_num old) \<le> MAX_FEELBACK_COUNT \<longrightarrow> unat (samples_num m) \<le> MAX_FEELBACK_COUNT)"
proof -
  obtain s1 v where s1: "mach_uint8_read s = Some (s1, v)" "strm_wf s1" "written s1 = written s"
    using mach_uint8_read_total [OF assms(1)] by blast
  obtain s2 m2 where s2: "decode_remb e s1 (old\<lparr>flag := v\<rparr>) = Some (s2, m2)" "strm_wf s2" "written s2 = written s"
      "samples m2 = samples old" "samples_num m2 = samples_num old"
    using mach_uint32_read_total [OF s1(2), of e] s1(2,3)
    by (cases "has_flag (old\<lparr>flag := v\<rparr>) remb_msg") (auto simp: decode_remb_def)
  obtain s3 m3 where s3: "decode_loss e s2 m2 = Some (s3, m3)" "strm_wf s3" "written s3 = written s"
      "samples m3 = samples old" "samples_num m3 = samples_num old"
  proof (cases "has_flag m2 loss_info_msg")
    case True
    obtain t f where t: "mach_uint8_read s2 = Some (t, f)" "strm_wf t" "written t = written s2"
      using mach_uint8_read_total [OF s2(2)] by blast
    obtain t' n where "mach_int32_read e t = Some (t', n)" "strm_wf t'" "written t' = written t"
      using mach_int32_read_total [OF t(2)] by blast
    then show ?thesis using that t s2 True by (simp add: decode_loss_def)
  next
    case False
    then show ?thesis using that s2 by (simp add: decode_loss_def)
  qed
  have "\<exists>s' m. decode_proxy e s3 m3 = Some (s', m) \<and> strm_wf s' \<and> written s' = written s
    \<and> length (samples m) = MAX_FEELBACK_COUNT
    \<and> (has_flag m proxy_ts_msg \<or> unat (samples_num old) \<le> MAX_FEELBACK_COUNT \<longrightarrow> unat (samples_num m) \<le> MAX_FEELBACK_COUNT)"
  proof (cases "has_flag m3 proxy_ts_msg")
    case True
    obtain t1 b where t1: "mach_int64_read e s3 = Some (t1, b)" "strm_wf t1" "written t1 = written s3"
      using mach_int64_read_total [OF s3(2)] by blast
    obtain t2 mt where t2: "mach_int64_read e t1 = Some (t2, mt)" "strm_wf t2" "written t2 = written t1"
      using mach_int64_read_total [OF t1(2)] by blast
    obtain t3 n where t3: "mach_uint8_read t2 = Some (t3, n)" "strm_wf t3" "written t3 = written t2"
      using mach_uint8_read_total [OF t2(2)] by blast
    define n' where "n' = (if MAX_FEELBACK_COUNT < unat n then 0 else n)"
    have "unat n' \<le> MAX_FEELBACK_COUNT"
      by (simp add: n'_def)
    then show ?thesis
      using decode_samples_total [OF t3(2), of 0 "unat n'" "m3\<lparr>base_seq := b, min_ts := mt, samples_num := n'\<rparr>" e]
        t1 t2 t3 s3 assms(2) True by (auto simp: decode_proxy_def n'_def [symmetric] Let_def)
  next
    case False
    then show ?thesis using s3 assms by (simp add: decode_proxy_def)
  qed
  then show ?thesis
    using s1(1) s2(1) s3(1) by (simp add: feedback_msg_decode_def)
qed

subsection \<open>Properties\<close>

text \<open>
  C21: a feedback message survives the wire. Written to an empty well-formed stream and decoded
  into any message struct, it gives back the flag byte and every field its flags select, consumes
  the stream exactly, and returns the samples unchanged when their times are within 65535 ms after
  \<open>min_ts\<close>; the fields whose flag is not set keep their old values.
\<close>

theorem feedback_msg_roundtrip:
  assumes "strm_wf s" and "unread s = []" and "msg_ok msg" and "length (samples old) = MAX_FEELBACK_COUNT"
    and near: "\<forall>x \<in> set (samples msg). min_ts msg \<le> fs_ts x \<and> fs_ts x - min_ts msg < 65536"
  shows "\<exists>s1 s2 m. feedback_msg_encode e s msg = Some s1 \<and> feedback_msg_decode e s1 old = Some (s2, m)
    \<and> unread s2 = [] \<and> flag m = flag msg
    \<and> remb m = (if has_flag msg remb_msg then remb msg else remb old)
    \<and> fraction_loss m = (if has_flag msg loss_info_msg then fraction_loss msg else fraction_loss old)
    \<and> packet_num m = (if has_flag msg loss_info_msg then packet_num msg else packet_num old)
    \<and> (if has_flag msg proxy_ts_msg
       then base_seq m = base_seq msg \<and> min_ts m = min_ts msg \<and> samples_num m = samples_num msg
         \<and> take (unat (samples_num msg)) (samples m) = take (unat (samples_num msg)) (samples msg)
       else base_seq m = base_seq old \<and> min_ts m = min_ts old \<and> samples_num m = samples_num old \<and> samples m = samples old)"
proof -
  obtain s1 where s1: "feedback_msg_encode e s msg = Some s1" "strm_wf s1" "rsize s1 = rsize s" "written s1 = written s @ msg_enc e msg"
    using feedback_msg_encode_enc [OF assms(1), of msg e] assms(3) by (auto simp: msg_ok_def)
  have "length (written s) = rsize s"
    using assms(1,2) by (auto simp: unread_def written_def strm_wf_def)
  then have "unread s1 = msg_enc e msg @ []"
    using s1(3,4) by (simp add: unread_def)
  then obtain s2 where s2: "feedback_msg_decode e s1 old = Some (s2, msg_merge old msg)" "unread s2 = []"
    using feedback_msg_decode_enc [OF s1(2) assms(3,4)] by blast
  define k where "k = unat (samples_num msg)"
  have "sample_dec (min_ts msg) x = x" if "x \<in> set (samples msg)" for x
    using near that by (cases x) (auto simp: sample_dec_def)
  then have smp: "map (sample_dec (min_ts msg)) (take k (samples msg)) = take k (samples msg)"
    by (intro map_idI) (auto dest: in_set_takeD)
  have len: "length (take k (samples msg)) = k"
    using assms(3) by (simp add: msg_ok_def k_def)
  have "take k (take k (samples msg) @ drop k (samples old)) = take k (samples msg)"
    using len by simp
  then show ?thesis
    using s1(1) s2 smp
    by (simp add: msg_merge_def merge_remb_def merge_loss_def merge_proxy_def k_def [symmetric])
qed

definition example_stream :: bin_stream where
  "example_stream = \<lparr>data = replicate 1024 0, strm_size = 1024, rptr = 0, rsize = 0, wptr = 0, used = 0, magic = 0\<rparr>"

definition example_env :: env where
  "example_env = \<lparr>host_big = False, big_endian = 0, fresh_byte = \<lambda>_. 0\<rparr>"

definition example_msg :: "u8 \<Rightarrow> feedback_msg" where
  "example_msg f = \<lparr>flag = f, remb = 1000, fraction_loss = 3, packet_num = -9, base_seq = 5, min_ts = 100, samples_num = 2,
     samples = replicate 128 \<lparr>fs_seq = 7, fs_ts = 150\<rparr>\<rparr>"

lemma example_stream_wf: "strm_wf example_stream" and example_stream_unread: "unread example_stream = []"
  by (simp_all add: example_stream_def strm_wf_def unread_def written_def)

theorem feedback_msg_roundtrip_witness:
  "\<exists>s1 s2 m. feedback_msg_encode example_env example_stream (example_msg 7) = Some s1
    \<and> feedback_msg_decode example_env s1 (example_msg 0) = Some (s2, m) \<and> unread s2 = []
    \<and> packet_num m = -9 \<and> take 2 (samples m) = replicate 2 \<lparr>fs_seq = 7, fs_ts = 150\<rparr>"
  using feedback_msg_roundtrip [of example_stream "example_msg 7" "example_msg 0" example_env]
  by (auto simp: example_stream_wf example_stream_unread example_msg_def msg_ok_def has_flag_def)

text \<open>
  C22: decoding is safe on every input. Whatever bytes a well-formed stream holds, truncated or
  hostile, the decoder finishes without an access outside the stream or the \<open>samples\<close> array, and
  a decoded sample count is at most 128.
\<close>

theorem feedback_msg_decode_safe:
  assumes "strm_wf s" and "length (samples old) = MAX_FEELBACK_COUNT" and "unat (samples_num old) \<le> MAX_FEELBACK_COUNT"
  shows "\<exists>s' m. feedback_msg_decode e s old = Some (s', m) \<and> strm_wf s' \<and> written s' = written s
    \<and> length (samples m) = MAX_FEELBACK_COUNT \<and> unat (samples_num m) \<le> MAX_FEELBACK_COUNT"
  using feedback_msg_decode_total [OF assms(1,2), of e] assms(3) by blast

theorem feedback_msg_decode_safe_witness:
  "\<exists>s' m. feedback_msg_decode example_env example_stream (example_msg 0) = Some (s', m) \<and> strm_wf s'
    \<and> written s' = written example_stream \<and> length (samples m) = MAX_FEELBACK_COUNT
    \<and> unat (samples_num m) \<le> MAX_FEELBACK_COUNT"
  by (rule feedback_msg_decode_safe [OF example_stream_wf]) (simp_all add: example_msg_def)

end
