(* ===== verification/Unwrapper.thy ===== *)
theory Unwrapper
  imports Prelude
begin

text \<open>
  \<^verbatim>\<open>common/cf_unwrapper.c\<close>: an unbounded sequence number from the 16 or 32 bits that travel in a
  packet. The state is the width and the last value returned. \<open>wrap_uint16\<close> and \<open>wrap_uint32\<close>
  assert the width, so they return \<open>None\<close> on an unwrapper of the other width.

  The lemmas: the result has the bits it was given (\<^verbatim>\<open>wrap_uint16_cong\<close>), never goes below
  zero, and equals the true sequence number whenever that is within half the range of the last one
  (\<^verbatim>\<open>wrap16_update_exact\<close>). The contract that both widths share is the locale \<open>unwrapping\<close>.
\<close>

record cf_unwrapper =
  uw_size :: nat
  last_value :: int

definition init_unwrapper16 :: cf_unwrapper where
  "init_unwrapper16 = \<lparr>uw_size = 2, last_value = 0\<rparr>"

text \<open>
  The macro \<open>IS_NEWER\<close>. For \<open>uint16_t\<close> operands \<open>val - prev_val\<close> is computed in \<open>int\<close>, so it is
  negative when \<open>val\<close> is the smaller; for \<open>uint32_t\<close> operands it wraps. 0 is "newer", -1 is not.
\<close>

definition wrap16_is_newer :: "u16 \<Rightarrow> u16 \<Rightarrow> int" where
  "wrap16_is_newer val prev_val =
     (if uint val - uint prev_val = 0xFFFF div 2 + 1 then (if prev_val < val then 0 else -1)
      else if val \<noteq> prev_val \<and> uint (word_of_int (uint val - uint prev_val) :: u16) < 0xFFFF div 2 + 1
      then 0 else -1)"

definition wrap16_update :: "cf_unwrapper \<Rightarrow> u16 \<Rightarrow> int" where
  "wrap16_update wrap val =
     (let max_plus = 0xFFFF + 1;
          cropped_last = (word_of_int (last_value wrap) :: u16);
          delta = uint val - uint cropped_last
      in if wrap16_is_newer val cropped_last = 0
         then last_value wrap + (if delta < 0 then delta + max_plus else delta)
         else if 0 < delta \<and> 0 \<le> last_value wrap + delta - max_plus
         then last_value wrap + (delta - max_plus)
         else last_value wrap + delta)"

definition wrap_uint16 :: "cf_unwrapper \<Rightarrow> u16 \<Rightarrow> (cf_unwrapper \<times> int) option" where
  "wrap_uint16 wrap val =
     (if uw_size wrap = 2
      then (let v = wrap16_update wrap val in Some (wrap\<lparr>last_value := v\<rparr>, v))
      else None)"

definition init_unwrapper32 :: cf_unwrapper where
  "init_unwrapper32 = \<lparr>uw_size = 4, last_value = 0\<rparr>"

definition wrap32_is_newer :: "u32 \<Rightarrow> u32 \<Rightarrow> int" where
  "wrap32_is_newer val prev_val =
     (if val - prev_val = 0xFFFFFFFF div 2 + 1 then (if prev_val < val then 0 else -1)
      else if val \<noteq> prev_val \<and> val - prev_val < 0xFFFFFFFF div 2 + 1 then 0 else -1)"

definition wrap32_update :: "cf_unwrapper \<Rightarrow> u32 \<Rightarrow> int" where
  "wrap32_update wrap val =
     (let max_plus = 0xFFFFFFFF + 1;
          cropped_last = (word_of_int (last_value wrap) :: u32);
          delta = uint (val - cropped_last)
      in if wrap32_is_newer val cropped_last = 0
         then last_value wrap + (if delta < 0 then delta + max_plus else delta)
         else if 0 < delta \<and> 0 \<le> last_value wrap + delta - max_plus
         then last_value wrap + (delta - max_plus)
         else last_value wrap + delta)"

definition wrap_uint32 :: "cf_unwrapper \<Rightarrow> u32 \<Rightarrow> (cf_unwrapper \<times> int) option" where
  "wrap_uint32 wrap val =
     (if uw_size wrap = 4
      then (let v = wrap32_update wrap val in Some (wrap\<lparr>last_value := v\<rparr>, v))
      else None)"

text \<open>A run of arrivals: each packet's bits unwrapped in turn.\<close>

fun wrap_all :: "(cf_unwrapper \<Rightarrow> 'w::len word \<Rightarrow> (cf_unwrapper \<times> int) option)
    \<Rightarrow> cf_unwrapper \<Rightarrow> 'w word list \<Rightarrow> int list option" where
  "wrap_all f w [] = Some []"
| "wrap_all f w (v # vs) =
     (case f w v of None \<Rightarrow> None
      | Some (w', x) \<Rightarrow> map_option (\<lambda>xs. x # xs) (wrap_all f w' vs))"

subsection \<open>The half-range rule in closed form\<close>

text \<open>
  On a last value that is not negative both updates compute the same function: with \<open>d\<close> the
  forward distance from the last value to \<open>val\<close> modulo \<open>2 * H\<close>, the result is \<open>d\<close> ahead, or
  \<open>2 * H - d\<close> behind when \<open>d\<close> exceeds half the range and that does not go below zero. At exactly
  half the range the order of the cropped values decides.
\<close>

definition unwrap_step :: "int \<Rightarrow> int \<Rightarrow> int \<Rightarrow> int" where
  "unwrap_step H l v =
     (let d = (v - l) mod (2 * H) in
      if d < H \<or> (d = H \<and> l mod (2 * H) < v) \<or> l + d < 2 * H then l + d else l + d - 2 * H)"

lemma unwrap_step_cong: "unwrap_step H l v mod (2 * H) = v mod (2 * H)"
proof -
  have "(l + (v - l) mod (2 * H)) mod (2 * H) = v mod (2 * H)"
    by (simp add: mod_simps)
  moreover have "(l + (v - l) mod (2 * H) - 2 * H) mod (2 * H) = (l + (v - l) mod (2 * H)) mod (2 * H)"
    by (rule minus_mod_self2)
  ultimately show ?thesis
    by (simp add: unwrap_step_def Let_def)
qed

lemma unwrap_step_nonneg: "0 < H \<Longrightarrow> 0 \<le> l \<Longrightarrow> 0 \<le> unwrap_step H l v"
  by (simp add: unwrap_step_def Let_def)

lemma unwrap_step_exact:
  assumes "0 \<le> t" and "\<bar>t - l\<bar> < H"
  shows "unwrap_step H l (t mod (2 * H)) = t"
proof -
  have d: "(t mod (2 * H) - l) mod (2 * H) = (t - l) mod (2 * H)"
    by (simp add: mod_simps)
  show ?thesis
  proof (cases "l \<le> t")
    case True
    then have "(t - l) mod (2 * H) = t - l"
      using assms by (intro mod_pos_pos_trivial) auto
    then show ?thesis
      using True assms by (simp add: unwrap_step_def d)
  next
    case False
    have "(t - l) mod (2 * H) = (t - l + 2 * H) mod (2 * H)"
      by simp
    also have "\<dots> = t - l + 2 * H"
      using False assms by (intro mod_pos_pos_trivial) auto
    finally show ?thesis
      using False assms by (simp add: unwrap_step_def d)
  qed
qed

lemma unwrap_step_near:
  assumes "0 < H" and "H \<le> l"
  shows "\<bar>unwrap_step H l v - l\<bar> \<le> H \<or> l < 2 * H"
proof -
  define d where "d = (v - l) mod (2 * H)"
  have "0 \<le> d" and "d < 2 * H"
    using assms by (simp_all add: d_def)
  then show ?thesis
    using assms by (auto simp: unwrap_step_def Let_def abs_le_iff simp flip: d_def)
qed

lemma mod_cases_diff:
  fixes a b m :: int
  assumes "0 \<le> a" and "a < m" and "0 \<le> b" and "b < m"
  shows "(a - b) mod m = (if b \<le> a then a - b else a - b + m)"
proof (cases "b \<le> a")
  case True
  then show ?thesis using assms by simp
next
  case False
  have "(a - b) mod m = (a - b + m) mod m" by simp
  also have "\<dots> = a - b + m" using False assms by (intro mod_pos_pos_trivial) auto
  finally show ?thesis using False by simp
qed

lemma nonneg_minus_mod: "0 \<le> (l :: int) \<Longrightarrow> 0 < m \<Longrightarrow> l mod m \<le> l"
  by (rule zmod_le_nonneg_dividend)

lemma wrap16_update_eq:
  assumes "0 \<le> last_value w"
  shows "wrap16_update w v = unwrap_step 32768 (last_value w) (uint v)"
proof -
  define l c where "l = last_value w" and "c = l mod 65536"
  have c: "0 \<le> c" "c < 65536" "c \<le> l"
    using assms nonneg_minus_mod [of l 65536] by (simp_all add: c_def l_def)
  define x where "x = uint v"
  have v: "0 \<le> uint v" "uint v < 65536" by simp_all
  have uc: "uint (word_of_int l :: u16) = c"
    by (simp add: uint_of_int_u16 c_def)
  have eqw: "v = word_of_int l \<longleftrightarrow> uint v = c"
    by (simp add: word_uint_eq_iff uc)
  have lessw: "(word_of_int l :: u16) < v \<longleftrightarrow> c < uint v"
    by (simp add: word_less_def uc)
  have d: "(uint v - l) mod 65536 = (if c \<le> uint v then uint v - c else uint v - c + 65536)"
    using mod_cases_diff [OF v c(1,2)] by (simp add: c_def mod_simps)
  have dw: "uint (word_of_int (uint v - c) :: u16) = (if c \<le> uint v then uint v - c else uint v - c + 65536)"
    by (simp only: uint_of_int_u16 mod_cases_diff [OF v c(1,2)])
  show ?thesis
    unfolding wrap16_update_def unwrap_step_def wrap16_is_newer_def Let_def l_def [symmetric] uc eqw lessw dw
    using d c v unfolding x_def [symmetric] by (auto simp: c_def [symmetric])
qed

lemma wrap32_update_eq:
  assumes "0 \<le> last_value w"
  shows "wrap32_update w v = unwrap_step 2147483648 (last_value w) (uint v)"
proof -
  define l c where "l = last_value w" and "c = l mod 4294967296"
  have c: "0 \<le> c" "c < 4294967296" "c \<le> l"
    using assms nonneg_minus_mod [of l 4294967296] by (simp_all add: c_def l_def)
  have v: "0 \<le> uint v" "uint v < 4294967296" by simp_all
  have uc: "uint (word_of_int l :: u32) = c"
    by (simp add: uint_of_int_u32 c_def)
  have eqw: "v = word_of_int l \<longleftrightarrow> uint v = c"
    by (simp add: word_uint_eq_iff uc)
  have lessw: "(word_of_int l :: u32) < v \<longleftrightarrow> c < uint v"
    by (simp add: word_less_def uc)
  have d: "(uint v - l) mod 4294967296 = (if c \<le> uint v then uint v - c else uint v - c + 4294967296)"
    using mod_cases_diff [OF v c(1,2)] by (simp add: c_def mod_simps)
  have dw: "uint (v - word_of_int l) = (if c \<le> uint v then uint v - c else uint v - c + 4294967296)"
    using mod_cases_diff [OF v c(1,2)] by (simp add: uint_sub_u32 uc)
  have half: "v - word_of_int l = 2147483648 \<longleftrightarrow> uint (v - word_of_int l) = 2147483648"
    "v - word_of_int l < 2147483648 \<longleftrightarrow> uint (v - word_of_int l) < 2147483648"
    by (simp_all add: word_uint_eq_iff word_less_def)
  have num: "0xFFFFFFFF div 2 + 1 = (2147483648 :: u32)" "0xFFFFFFFF + 1 = (4294967296 :: int)"
    by simp_all
  show ?thesis
    unfolding wrap32_update_def unwrap_step_def wrap32_is_newer_def Let_def l_def [symmetric] eqw lessw num half dw
    using d c v by (auto simp: c_def [symmetric])
qed

subsection \<open>The contract of an unwrapper, and both widths as instances\<close>

text \<open>
  What the sequence-number users (send history, loss statistics, estimator proxy) rely on: an
  operation that keeps the last value, fails only on the wrong width, and follows the half-range
  rule. From it: a stream of sequence numbers that never jumps by half the range is recovered.
\<close>

locale unwrapping =
  fixes wrap :: "cf_unwrapper \<Rightarrow> 'w::len word \<Rightarrow> (cf_unwrapper \<times> int) option"
    and width :: nat
    and H :: int
  assumes half_range: "2 * H = 2 ^ LENGTH('w)" "0 < H"
    and wrap_ok: "uw_size w = width \<Longrightarrow> 0 \<le> last_value w \<Longrightarrow>
      wrap w v = Some (w\<lparr>last_value := unwrap_step H (last_value w) (uint v)\<rparr>,
        unwrap_step H (last_value w) (uint v))"
begin

definition wf :: "cf_unwrapper \<Rightarrow> bool" where
  "wf w \<longleftrightarrow> uw_size w = width \<and> 0 \<le> last_value w"

lemma wrap_total: "wf w \<Longrightarrow> \<exists>w' x. wrap w v = Some (w', x)"
  by (auto simp: wf_def wrap_ok)

lemma wrap_wf: "wf w \<Longrightarrow> wrap w v = Some (w', x) \<Longrightarrow> wf w' \<and> last_value w' = x \<and> 0 \<le> x"
  using half_range(2) by (auto simp: wf_def wrap_ok unwrap_step_nonneg)

lemma wrap_cong: "wf w \<Longrightarrow> wrap w v = Some (w', x) \<Longrightarrow> word_of_int x = v"
proof -
  assume "wf w" and "wrap w v = Some (w', x)"
  then have "x mod 2 ^ LENGTH('w) = uint v mod 2 ^ LENGTH('w)"
    using unwrap_step_cong [of H "last_value w" "uint v"] half_range by (auto simp: wf_def wrap_ok)
  then have "take_bit LENGTH('w) x = take_bit LENGTH('w) (uint v)"
    by (simp only: take_bit_eq_mod)
  then have "(word_of_int x :: 'w word) = word_of_int (uint v)"
    by (simp only: word_of_int_eq_iff)
  then show "word_of_int x = v"
    by (simp only: word_of_int_uint)
qed

lemma wrap_exact:
  assumes "wf w" and "0 \<le> t" and "\<bar>t - last_value w\<bar> < H"
  shows "wrap w (word_of_int t) = Some (w\<lparr>last_value := t\<rparr>, t)"
proof -
  have "uint (word_of_int t :: 'w word) = t mod (2 * H)"
    by (simp add: uint_word_of_int take_bit_eq_mod half_range)
  then show ?thesis
    using assms unwrap_step_exact [of t "last_value w" H] by (simp add: wf_def wrap_ok)
qed

lemma wrap_all_exact:
  "wf w \<Longrightarrow> \<forall>t \<in> set ts. 0 \<le> t \<Longrightarrow> successively (\<lambda>a b. \<bar>b - a\<bar> < H) (last_value w # ts) \<Longrightarrow>
    wrap_all wrap w (map word_of_int ts) = Some ts"
proof (induction ts arbitrary: w)
  case Nil
  then show ?case by simp
next
  case (Cons t ts)
  have "wrap w (word_of_int t) = Some (w\<lparr>last_value := t\<rparr>, t)"
    using Cons.prems by (intro wrap_exact) auto
  moreover have "wf (w\<lparr>last_value := t\<rparr>)"
    using Cons.prems by (simp add: wf_def)
  ultimately show ?case
    using Cons.IH [of "w\<lparr>last_value := t\<rparr>"] Cons.prems by simp
qed

end

interpretation uw16: unwrapping wrap_uint16 2 32768
  by unfold_locales (simp_all add: wrap_uint16_def wrap16_update_eq Let_def)

interpretation uw32: unwrapping wrap_uint32 4 2147483648
  by unfold_locales (simp_all add: wrap_uint32_def wrap32_update_eq Let_def)

lemma init_unwrapper16_wf: "uw16.wf init_unwrapper16"
  by (simp add: uw16.wf_def init_unwrapper16_def)

lemma init_unwrapper32_wf: "uw32.wf init_unwrapper32"
  by (simp add: uw32.wf_def init_unwrapper32_def)

subsection \<open>Properties\<close>

text \<open>
  C39: unwrapping recovers the sender's sequence numbers. From any state with a last value that is
  not negative, when each true number is within half the range (32768) of the one before, the
  16-bit fields of a run of packets, reordered or not, unwrap to exactly the true numbers.
\<close>

theorem unwrap16_stream_recovered:
  assumes "uw_size w = 2" and "0 \<le> last_value w" and "\<forall>t \<in> set ts. 0 \<le> t"
    and "successively (\<lambda>a b. \<bar>b - a\<bar> < 32768) (last_value w # ts)"
  shows "wrap_all wrap_uint16 w (map word_of_int ts) = Some ts"
  using assms by (intro uw16.wrap_all_exact) (simp_all add: uw16.wf_def)

theorem unwrap16_stream_recovered_witness:
  "wrap_all wrap_uint16 \<lparr>uw_size = 2, last_value = 65534\<rparr>
     (map word_of_int [65537, 65535, 98302]) = Some [65537, 65535, 98302]"
  by (rule unwrap16_stream_recovered) simp_all

text \<open>
  The 32-bit unwrapper never fails on an unwrapper of its width, keeps it an unwrapper of its
  width with a last value that is not negative, and returns a number whose low 32 bits are the
  bits it was given.
\<close>

lemma unwrap32_low_bits:
  assumes "uw_size w = 4" and "0 \<le> last_value w"
  shows "\<exists>w' x. wrap_uint32 w v = Some (w', x) \<and> word_of_int x = v \<and> 0 \<le> x
    \<and> uw_size w' = 4 \<and> last_value w' = x"
proof -
  have w: "uw32.wf w"
    using assms by (simp add: uw32.wf_def)
  then obtain w' x where r: "wrap_uint32 w v = Some (w', x)"
    using uw32.wrap_total by blast
  then show ?thesis
    using uw32.wrap_cong [OF w r] uw32.wrap_wf [OF w r] by (auto simp: uw32.wf_def)
qed

lemma unwrap32_low_bits_witness:
  "\<exists>w' x. wrap_uint32 \<lparr>uw_size = 4, last_value = 4294967290\<rparr> 3 = Some (w', x)
    \<and> word_of_int x = (3 :: u32) \<and> 0 \<le> x \<and> uw_size w' = 4 \<and> last_value w' = x"
  by (rule unwrap32_low_bits) simp_all

end
