(* ===== verification/Skiplist.thy ===== *)
theory Skiplist
  imports Prelude "HOL-Library.Monad_Syntax"
begin

text \<open>
  \<^verbatim>\<open>common/cf_skiplist.c\<close>: the ordered map that the send history, the loss statistics, the
  estimator proxy and the pacer queue keep their packets in. The store is explicit: \<open>cells\<close> maps
  the address of a \<open>skiplist_iter_t\<close> to its key, value, depth and \<open>next\<close> array, and a
  \<open>skiplist_iter_t**\<close> is a \<open>slot\<close>: an element of \<open>entries\<close> or of some cell's \<open>next\<close>. A
  dereference outside the store or an array makes the operation \<open>None\<close>; a search that would walk
  for ever has no result either, so every lemma that gives a \<open>Some\<close> is also a termination proof.
  The random depth of a new cell and the address \<open>calloc\<close> returns are arguments.

  The lemmas: the invariant \<open>sl_inv\<close> (at every level the pointers visit exactly the cells deeper
  than it, in key order), the three searches find the predecessor slots, and insert, remove,
  search and clear implement the sorted association list operations \<open>sl_ins\<close>, \<open>sl_del\<close>, \<open>map_of\<close>
  that the client components are modelled with. They are proved once for every comparator with
  the laws of \<open>key_order\<close>, and that locale is interpreted on the eight comparators of the file.
\<close>

type_synonym loc = nat

record ('k, 'v) skiplist_iter =
  it_key :: 'k
  it_val :: 'v
  it_depth :: nat
  it_next :: "loc option list"

record ('k, 'v) skiplist =
  sl_size :: nat
  entries :: "loc option list"
  cells :: "loc \<rightharpoonup> ('k, 'v) skiplist_iter"

abbreviation SKIPLIST_MAXDEPTH :: nat where
  "SKIPLIST_MAXDEPTH \<equiv> 8"

datatype slot = Entry nat | Next loc nat

definition slot_read :: "('k, 'v) skiplist \<Rightarrow> slot \<Rightarrow> loc option option" where
  "slot_read s p = (case p of
     Entry i \<Rightarrow> (if i < length (entries s) then Some (entries s ! i) else None)
   | Next a i \<Rightarrow> (case cells s a of None \<Rightarrow> None
       | Some c \<Rightarrow> if i < length (it_next c) then Some (it_next c ! i) else None))"

definition slot_write :: "('k, 'v) skiplist \<Rightarrow> slot \<Rightarrow> loc option \<Rightarrow> ('k, 'v) skiplist option" where
  "slot_write s p x = (case p of
     Entry i \<Rightarrow> (if i < length (entries s) then Some (s\<lparr>entries := (entries s)[i := x]\<rparr>) else None)
   | Next a i \<Rightarrow> (case cells s a of None \<Rightarrow> None
       | Some c \<Rightarrow> if i < length (it_next c)
           then Some (s\<lparr>cells := (cells s)(a \<mapsto> c\<lparr>it_next := (it_next c)[i := x]\<rparr>)\<rparr>) else None))"

fun slot_dec :: "slot \<Rightarrow> slot" where
  "slot_dec (Entry i) = Entry (i - 1)"
| "slot_dec (Next a i) = Next a (i - 1)"

subsection \<open>The operations\<close>

fun skip_depth_loop :: "(nat \<Rightarrow> int) \<Rightarrow> nat \<Rightarrow> nat \<Rightarrow> nat" where
  "skip_depth_loop rand d 0 = d"
| "skip_depth_loop rand d (Suc n) =
     (if 0x4000 < and (rand d) 0xffff then d else skip_depth_loop rand (d + 1) n)"

definition wb_skip_depth :: "(nat \<Rightarrow> int) \<Rightarrow> nat" where
  "wb_skip_depth rand = skip_depth_loop rand 1 (SKIPLIST_MAXDEPTH - 1)"

definition skiplist_create :: "('k, 'v) skiplist" where
  "skiplist_create = \<lparr>sl_size = 0, entries = replicate SKIPLIST_MAXDEPTH None, cells = Map.empty\<rparr>"

partial_function (option) skiplist_clear_loop ::
  "(loc \<rightharpoonup> ('k, 'v) skiplist_iter) \<Rightarrow> loc option \<Rightarrow> ('k \<times> 'v) list
    \<Rightarrow> ((loc \<rightharpoonup> ('k, 'v) skiplist_iter) \<times> ('k \<times> 'v) list) option" where
  "skiplist_clear_loop h iter freed =
     (case iter of None \<Rightarrow> Some (h, freed)
      | Some a \<Rightarrow> (case h a of None \<Rightarrow> None
          | Some c \<Rightarrow> if it_next c = [] then None
              else skiplist_clear_loop (h(a := None)) (it_next c ! 0) (freed @ [(it_key c, it_val c)])))"

definition skiplist_clear :: "('k, 'v) skiplist \<Rightarrow> (('k, 'v) skiplist \<times> ('k \<times> 'v) list) option" where
  "skiplist_clear s = do {
     iter \<leftarrow> slot_read s (Entry 0);
     (h, freed) \<leftarrow> skiplist_clear_loop (cells s) iter [];
     Some (\<lparr>sl_size = 0, entries = replicate SKIPLIST_MAXDEPTH None, cells = h\<rparr>, freed)
   }"

text \<open>The pairs handed to \<open>free_fun\<close> when the list is destroyed.\<close>

definition skiplist_destroy :: "('k, 'v) skiplist \<Rightarrow> ('k \<times> 'v) list option" where
  "skiplist_destroy s = map_option snd (skiplist_clear s)"

text \<open>\<open>n\<close> is the source's \<open>i + 1\<close>: the levels still to search.\<close>

partial_function (option) skiplist_insert_stack ::
  "('k \<Rightarrow> 'k \<Rightarrow> int) \<Rightarrow> ('k, 'v) skiplist \<Rightarrow> 'k \<Rightarrow> nat \<Rightarrow> slot \<Rightarrow> slot option list
    \<Rightarrow> (int \<times> slot option list) option" where
  "skiplist_insert_stack cmp s k n iterp stack =
     (if n = 0 then Some (0, stack)
      else case slot_read s iterp of None \<Rightarrow> None
      | Some None \<Rightarrow> skiplist_insert_stack cmp s k (n - 1) (slot_dec iterp) (stack[n - 1 := Some iterp])
      | Some (Some iter) \<Rightarrow> (case cells s iter of None \<Rightarrow> None
          | Some c \<Rightarrow>
             if 0 < cmp (it_key c) k
             then skiplist_insert_stack cmp s k (n - 1) (slot_dec iterp) (stack[n - 1 := Some iterp])
             else if cmp (it_key c) k = 0 then Some (-1, stack)
             else skiplist_insert_stack cmp s k n (Next iter (n - 1)) stack))"

fun skiplist_link :: "('k, 'v) skiplist \<Rightarrow> loc \<Rightarrow> slot option list \<Rightarrow> nat \<Rightarrow> ('k, 'v) skiplist option" where
  "skiplist_link s iter stack 0 = Some s"
| "skiplist_link s iter stack (Suc i) = do {
     s \<leftarrow> skiplist_link s iter stack i;
     p \<leftarrow> stack ! i;
     x \<leftarrow> slot_read s p;
     s \<leftarrow> slot_write s (Next iter i) x;
     slot_write s p (Some iter)
   }"

text \<open>The second result is the list of key and value pairs handed to \<open>free_fun\<close>.\<close>

definition skiplist_insert :: "('k \<Rightarrow> 'k \<Rightarrow> int) \<Rightarrow> (nat \<Rightarrow> int) \<Rightarrow> loc
    \<Rightarrow> ('k, 'v) skiplist \<Rightarrow> 'k \<Rightarrow> 'v \<Rightarrow> (('k, 'v) skiplist \<times> ('k \<times> 'v) list) option" where
  "skiplist_insert cmp rand iter s k v = do {
     (r, stack) \<leftarrow> skiplist_insert_stack cmp s k SKIPLIST_MAXDEPTH (Entry (SKIPLIST_MAXDEPTH - 1))
                    (replicate SKIPLIST_MAXDEPTH None);
     if r \<noteq> 0 then Some (s, [(k, v)])
     else do {
       let depth = wb_skip_depth rand;
       let c = \<lparr>it_key = k, it_val = v, it_depth = depth, it_next = replicate depth None\<rparr>;
       s \<leftarrow> skiplist_link (s\<lparr>cells := (cells s)(iter \<mapsto> c)\<rparr>) iter stack depth;
       Some (s\<lparr>sl_size := sl_size s + 1\<rparr>, [])
     }
   }"

partial_function (option) skip_remove_stack ::
  "('k \<Rightarrow> 'k \<Rightarrow> int) \<Rightarrow> ('k, 'v) skiplist \<Rightarrow> 'k \<Rightarrow> nat \<Rightarrow> slot \<Rightarrow> slot option list \<Rightarrow> loc option
    \<Rightarrow> (loc option \<times> slot option list) option" where
  "skip_remove_stack cmp s k n iterp stack ret =
     (if n = 0 then Some (ret, stack)
      else case slot_read s iterp of None \<Rightarrow> None
      | Some None \<Rightarrow> skip_remove_stack cmp s k (n - 1) (slot_dec iterp) (stack[n - 1 := Some iterp]) ret
      | Some (Some iter) \<Rightarrow> (case cells s iter of None \<Rightarrow> None
          | Some c \<Rightarrow>
             if cmp (it_key c) k = 0
             then (if 0 < n - 1
                   then skip_remove_stack cmp s k (n - 1) (slot_dec iterp) (stack[n - 1 := Some iterp]) (Some iter)
                   else Some (Some iter, stack[n - 1 := Some iterp]))
             else if cmp (it_key c) k < 0
             then skip_remove_stack cmp s k n (Next iter (n - 1)) stack ret
             else if 0 < n - 1
             then skip_remove_stack cmp s k (n - 1) (slot_dec iterp) (stack[n - 1 := Some iterp]) ret
             else Some (ret, stack)))"

fun skiplist_unlink :: "('k, 'v) skiplist \<Rightarrow> loc \<Rightarrow> slot option list \<Rightarrow> nat \<Rightarrow> ('k, 'v) skiplist option" where
  "skiplist_unlink s iter stack 0 = Some s"
| "skiplist_unlink s iter stack (Suc i) = do {
     s \<leftarrow> skiplist_unlink s iter stack i;
     p \<leftarrow> stack ! i;
     x \<leftarrow> slot_read s (Next iter i);
     slot_write s p x
   }"

text \<open>The results: the list, the pairs handed to \<open>free_fun\<close>, the cell after the removed one.\<close>

definition skiplist_remove :: "('k \<Rightarrow> 'k \<Rightarrow> int) \<Rightarrow> ('k, 'v) skiplist \<Rightarrow> 'k
    \<Rightarrow> (('k, 'v) skiplist \<times> ('k \<times> 'v) list \<times> loc option) option" where
  "skiplist_remove cmp s k = do {
     (iter, stack) \<leftarrow> skip_remove_stack cmp s k SKIPLIST_MAXDEPTH (Entry (SKIPLIST_MAXDEPTH - 1))
                    (replicate SKIPLIST_MAXDEPTH None) None;
     case iter of None \<Rightarrow> Some (s, [], None)
     | Some a \<Rightarrow> do {
         c \<leftarrow> cells s a;
         s \<leftarrow> skiplist_unlink s a stack (it_depth c);
         let s = s\<lparr>cells := (cells s)(a := None), sl_size := sl_size s - 1\<rparr>;
         p \<leftarrow> stack ! 0;
         ret \<leftarrow> slot_read s p;
         Some (s, [(it_key c, it_val c)], ret)
       }
   }"

partial_function (option) skiplist_search_iter ::
  "('k \<Rightarrow> 'k \<Rightarrow> int) \<Rightarrow> ('k, 'v) skiplist \<Rightarrow> 'k \<Rightarrow> nat \<Rightarrow> slot \<Rightarrow> loc option option" where
  "skiplist_search_iter cmp s k n iterp =
     (if n = 0 then Some None
      else case slot_read s iterp of None \<Rightarrow> None
      | Some None \<Rightarrow> skiplist_search_iter cmp s k (n - 1) (slot_dec iterp)
      | Some (Some iter) \<Rightarrow> (case cells s iter of None \<Rightarrow> None
          | Some c \<Rightarrow>
             if cmp (it_key c) k = 0 then Some (Some iter)
             else if 0 < cmp (it_key c) k then skiplist_search_iter cmp s k (n - 1) (slot_dec iterp)
             else skiplist_search_iter cmp s k n (Next iter (n - 1))))"

definition skiplist_search :: "('k \<Rightarrow> 'k \<Rightarrow> int) \<Rightarrow> ('k, 'v) skiplist \<Rightarrow> 'k \<Rightarrow> loc option option" where
  "skiplist_search cmp s k =
     skiplist_search_iter cmp s k SKIPLIST_MAXDEPTH (Entry (SKIPLIST_MAXDEPTH - 1))"

definition skiplist_first :: "('k, 'v) skiplist \<Rightarrow> loc option option" where
  "skiplist_first s = slot_read s (Entry 0)"

definition skiplist_size :: "('k, 'v) skiplist \<Rightarrow> nat" where
  "skiplist_size s = sl_size s"

subsection \<open>The comparators\<close>

definition idu64_compare :: "u64 \<Rightarrow> u64 \<Rightarrow> int" where
  "idu64_compare k1 k2 = (if k1 > k2 then 1 else if k1 < k2 then -1 else 0)"

definition idu32_compare :: "u32 \<Rightarrow> u32 \<Rightarrow> int" where
  "idu32_compare k1 k2 = (if k1 > k2 then 1 else if k1 < k2 then -1 else 0)"

definition idu16_compare :: "u16 \<Rightarrow> u16 \<Rightarrow> int" where
  "idu16_compare k1 k2 = (if k1 > k2 then 1 else if k1 < k2 then -1 else 0)"

definition idu8_compare :: "u8 \<Rightarrow> u8 \<Rightarrow> int" where
  "idu8_compare k1 k2 = (if k1 > k2 then 1 else if k1 < k2 then -1 else 0)"

text \<open>The default when no comparator is given compares the bytes of the union as they lie in the
  memory of a little-endian host.\<close>

fun memcmp :: "u8 list \<Rightarrow> u8 list \<Rightarrow> int" where
  "memcmp (x # xs) (y # ys) = (if x < y then -1 else if y < x then 1 else memcmp xs ys)"
| "memcmp _ _ = 0"

definition item_bytes :: "u64 \<Rightarrow> u8 list" where
  "item_bytes k = map (\<lambda>i. ucast (drop_bit (8 * i) k)) [0..<8]"

definition skiplist_compare :: "u64 \<Rightarrow> u64 \<Rightarrow> int" where
  "skiplist_compare k1 k2 = memcmp (item_bytes k1) (item_bytes k2)"

text \<open>The signed comparators, on the values the union's members have.\<close>

definition id64_compare :: "int \<Rightarrow> int \<Rightarrow> int" where
  "id64_compare k1 k2 = (if k1 > k2 then 1 else if k1 < k2 then -1 else 0)"

definition id32_compare :: "int \<Rightarrow> int \<Rightarrow> int" where
  "id32_compare k1 k2 = (if k1 > k2 then 1 else if k1 < k2 then -1 else 0)"

definition id16_compare :: "int \<Rightarrow> int \<Rightarrow> int" where
  "id16_compare k1 k2 = (if k1 > k2 then 1 else if k1 < k2 then -1 else 0)"

definition id8_compare :: "int \<Rightarrow> int \<Rightarrow> int" where
  "id8_compare k1 k2 = (if k1 > k2 then 1 else if k1 < k2 then -1 else 0)"

subsection \<open>The abstract map: a sorted association list\<close>

fun sl_ins :: "'k::linorder \<Rightarrow> 'v \<Rightarrow> ('k \<times> 'v) list \<Rightarrow> ('k \<times> 'v) list" where
  "sl_ins k v [] = [(k, v)]"
| "sl_ins k v ((k', v') # xs) =
     (if k < k' then (k, v) # (k', v') # xs else if k = k' then (k', v') # xs
      else (k', v') # sl_ins k v xs)"

definition sl_del :: "'k::linorder \<Rightarrow> ('k \<times> 'v) list \<Rightarrow> ('k \<times> 'v) list" where
  "sl_del k xs = filter (\<lambda>kv. fst kv \<noteq> k) xs"

definition sl_sorted :: "('k::linorder \<times> 'v) list \<Rightarrow> bool" where
  "sl_sorted xs = sorted_wrt (<) (map fst xs)"

lemma sl_sorted_Nil [simp]: "sl_sorted []"
  by (simp add: sl_sorted_def)

lemma sl_sorted_Cons: "sl_sorted (kv # xs) \<longleftrightarrow> (\<forall>k' \<in> fst ` set xs. fst kv < k') \<and> sl_sorted xs"
  by (auto simp: sl_sorted_def)

lemma set_sl_ins: "fst ` set (sl_ins k v xs) = insert k (fst ` set xs)"
  by (induction k v xs rule: sl_ins.induct) auto

lemma sl_sorted_ins [inv_intros]: "sl_sorted xs \<Longrightarrow> sl_sorted (sl_ins k v xs)"
  by (induction k v xs rule: sl_ins.induct) (auto simp: sl_sorted_Cons set_sl_ins)

lemma sl_sorted_del [inv_intros]: "sl_sorted xs \<Longrightarrow> sl_sorted (sl_del k xs)"
  by (induction xs) (auto simp: sl_sorted_Cons sl_del_def)

lemma sl_sorted_tl [inv_intros]: "sl_sorted xs \<Longrightarrow> sl_sorted (tl xs)"
  by (cases xs) (auto simp: sl_sorted_Cons)

lemma sl_sorted_distinct: "sl_sorted xs \<Longrightarrow> distinct (map fst xs)"
  by (auto simp: sl_sorted_def strict_sorted_iff)

lemma sl_ins_map_of: "sl_sorted xs \<Longrightarrow>
    map_of (sl_ins k v xs) = (if k \<in> dom (map_of xs) then map_of xs else (map_of xs)(k \<mapsto> v))"
proof (induction k v xs rule: sl_ins.induct)
  case (2 k v k' v' xs)
  have "map_of xs k = None" if "k < k'"
    using 2(2) that by (auto simp: sl_sorted_Cons map_of_eq_None_iff)
  then show ?case
    using 2 by (auto simp: sl_sorted_Cons fun_eq_iff split: if_splits)
qed auto

lemma sl_del_map_of: "map_of (sl_del k xs) = (map_of xs)(k := None)"
  unfolding sl_del_def by (induction xs) (auto simp: fun_eq_iff)

lemma sl_split_ins:
  assumes "sl_sorted (xs @ ys)" and "\<forall>kv \<in> set xs. fst kv < k" and "ys = [] \<or> k < fst (hd ys)"
  shows "sl_ins k v (xs @ ys) = xs @ (k, v) # ys"
  using assms
proof (induction xs)
  case Nil
  then show ?case by (cases ys) auto
qed (auto simp: sl_sorted_Cons)

lemma sl_split_dup:
  assumes "\<forall>kv \<in> set xs. fst kv < k" and "ys \<noteq> []" and "fst (hd ys) = k"
  shows "sl_ins k v (xs @ ys) = xs @ ys"
  using assms
proof (induction xs)
  case Nil
  then show ?case by (cases ys) auto
qed auto

subsection \<open>The shape of a skip list in the store\<close>

text \<open>
  \<open>as\<close> is the sequence of cells at level 0. At level \<open>i\<close> a pointer leads to the first cell after
  it that is deeper than \<open>i\<close>.
\<close>

definition dep :: "('k, 'v) skiplist \<Rightarrow> loc \<Rightarrow> nat" where
  "dep s a = (case cells s a of None \<Rightarrow> 0 | Some c \<Rightarrow> it_depth c)"

definition key_at :: "('k, 'v) skiplist \<Rightarrow> loc \<Rightarrow> 'k" where
  "key_at s a = it_key (the (cells s a))"

definition item_at :: "('k, 'v) skiplist \<Rightarrow> loc \<Rightarrow> 'k \<times> 'v" where
  "item_at s a = (it_key (the (cells s a)), it_val (the (cells s a)))"

definition first_at :: "('k, 'v) skiplist \<Rightarrow> nat \<Rightarrow> loc list \<Rightarrow> loc option" where
  "first_at s i as = find (\<lambda>a. i < dep s a) as"

definition pred_slot :: "('k, 'v) skiplist \<Rightarrow> nat \<Rightarrow> loc list \<Rightarrow> slot" where
  "pred_slot s i as = (case find (\<lambda>a. i < dep s a) (rev as) of None \<Rightarrow> Entry i | Some a \<Rightarrow> Next a i)"

definition sl_shape :: "('k, 'v) skiplist \<Rightarrow> loc list \<Rightarrow> bool" where
  "sl_shape s as \<longleftrightarrow> distinct as \<and> length (entries s) = SKIPLIST_MAXDEPTH
     \<and> (\<forall>a \<in> set as. \<exists>c. cells s a = Some c \<and> 1 \<le> it_depth c \<and> it_depth c \<le> SKIPLIST_MAXDEPTH
          \<and> length (it_next c) = it_depth c)"

definition sl_linked :: "('k, 'v) skiplist \<Rightarrow> loc list \<Rightarrow> bool" where
  "sl_linked s as \<longleftrightarrow>
     (\<forall>xs ys i. as = xs @ ys \<longrightarrow> i < SKIPLIST_MAXDEPTH \<longrightarrow>
        slot_read s (pred_slot s i xs) = Some (first_at s i ys))"

definition sl_inv :: "('k::linorder, 'v) skiplist \<Rightarrow> loc list \<Rightarrow> bool" where
  "sl_inv s as \<longleftrightarrow> sl_shape s as \<and> sl_linked s as \<and> sorted_wrt (<) (map (key_at s) as)
     \<and> sl_size s = length as"

text \<open>The contents of a skip list in the store.\<close>

definition sl_rel :: "('k::linorder, 'v) skiplist \<Rightarrow> ('k \<times> 'v) list \<Rightarrow> bool" where
  "sl_rel s kvs \<longleftrightarrow> finite (dom (cells s)) \<and> (\<exists>as. sl_inv s as \<and> kvs = map (item_at s) as)"

lemma find_append: "find P (xs @ ys) = (case find P xs of None \<Rightarrow> find P ys | Some x \<Rightarrow> Some x)"
  by (induction xs) simp_all

lemma find_None_all: "find P xs = None \<longleftrightarrow> (\<forall>x \<in> set xs. \<not> P x)"
  by (induction xs) simp_all

lemma find_Some_split: "find P xs = Some b \<Longrightarrow> \<exists>us vs. xs = us @ b # vs \<and> P b \<and> (\<forall>u \<in> set us. \<not> P u)"
proof (induction xs)
  case (Cons a xs)
  show ?case
  proof (cases "P a")
    case True
    then show ?thesis using Cons.prems by (intro exI [of _ "[]"] exI [of _ xs]) simp
  next
    case False
    then obtain us vs where "xs = us @ b # vs" "P b" "\<forall>u \<in> set us. \<not> P u"
      using Cons by auto
    then show ?thesis using False by (intro exI [of _ "a # us"] exI [of _ vs]) simp
  qed
qed simp

lemma first_at_append:
  "first_at s i (xs @ ys) = (case first_at s i xs of None \<Rightarrow> first_at s i ys | Some a \<Rightarrow> Some a)"
  by (simp add: first_at_def find_append split: option.split)

lemma pred_slot_snoc: "pred_slot s i (xs @ [a]) = (if i < dep s a then Next a i else pred_slot s i xs)"
  by (simp add: pred_slot_def)

lemma pred_slot_append_none: "first_at s i q = None \<Longrightarrow> pred_slot s i (p @ q) = pred_slot s i p"
  by (induction q rule: rev_induct) (auto simp: pred_slot_snoc simp flip: append_assoc simp: first_at_def find_append split: option.splits if_splits)

lemma first_at_Cons: "first_at s i (a # as) = (if i < dep s a then Some a else first_at s i as)"
  by (simp add: first_at_def)

lemma first_at_Nil [simp]: "first_at s i [] = None"
  by (simp add: first_at_def)

lemma pred_slot_Nil [simp]: "pred_slot s i [] = Entry i"
  by (simp add: pred_slot_def)

lemma sl_linked_read:
  "sl_linked s (xs @ ys) \<Longrightarrow> i < SKIPLIST_MAXDEPTH \<Longrightarrow>
    slot_read s (pred_slot s i xs) = Some (first_at s i ys)"
  by (simp add: sl_linked_def)

lemma sl_shape_cell:
  assumes "sl_shape s as" and "a \<in> set as"
  obtains c where "cells s a = Some c" "dep s a = it_depth c" "1 \<le> it_depth c"
    "it_depth c \<le> SKIPLIST_MAXDEPTH" "length (it_next c) = it_depth c" "key_at s a = it_key c"
  using assms by (fastforce simp: sl_shape_def dep_def key_at_def)

lemma first_at_0: "sl_shape s as \<Longrightarrow> set ys \<subseteq> set as \<Longrightarrow> first_at s 0 ys = (if ys = [] then None else Some (hd ys))"
proof (cases ys)
  case (Cons y ys')
  assume "sl_shape s as" and "set ys \<subseteq> set as"
  then have "0 < dep s y"
    using Cons by (metis sl_shape_cell list.set_intros(1) less_le_trans less_numeral_extra(1) subsetD)
  then show ?thesis using Cons by (simp add: first_at_Cons)
qed simp

subsection \<open>Walking along the levels\<close>

definition pos :: "('k, 'v) skiplist \<Rightarrow> slot \<Rightarrow> nat \<Rightarrow> loc list \<Rightarrow> bool" where
  "pos s iterp i p \<longleftrightarrow>
     (if p = [] then iterp = Entry i else iterp = Next (last p) i \<and> i < dep s (last p))"

lemma pos_pred: "pos s iterp i p \<Longrightarrow> iterp = pred_slot s i p"
  by (cases p rule: rev_cases) (auto simp: pos_def pred_slot_snoc)

lemma pos_dec: "pos s iterp i p \<Longrightarrow> pos s (slot_dec iterp) (i - 1) p"
  by (auto simp: pos_def split: if_splits)

lemma pos_drop:
  assumes "sl_linked s (p @ q @ ys)" and "i < SKIPLIST_MAXDEPTH" and "pos s iterp i p"
    and "first_at s i q = None"
  shows "slot_read s iterp = Some (first_at s i ys)" and "iterp = pred_slot s i (p @ q)"
proof -
  have eq: "iterp = pred_slot s i p"
    using assms(3) by (rule pos_pred)
  show "slot_read s iterp = Some (first_at s i ys)"
    using sl_linked_read [OF assms(1,2)] assms(4) by (simp add: eq first_at_append)
  show "iterp = pred_slot s i (p @ q)"
    using eq assms(4) by (simp add: pred_slot_append_none)
qed

lemma pos_advance:
  assumes "sl_linked s (p @ q @ ys)" and "i < SKIPLIST_MAXDEPTH" and "pos s iterp i p"
    and "first_at s i q = Some b"
  obtains us vs where "slot_read s iterp = Some (Some b)" "q = us @ b # vs"
    "pos s (Next b i) i (p @ us @ [b])"
proof -
  obtain us vs where q: "q = us @ b # vs" "i < dep s b"
    using assms(4) find_Some_split unfolding first_at_def by fastforce
  have "slot_read s iterp = Some (Some b)"
    using sl_linked_read [OF assms(1,2)] assms(4) pos_pred [OF assms(3)] by (simp add: first_at_append)
  then show ?thesis
    using that q by (simp add: pos_def)
qed

text \<open>What the stack holds after the walk: the predecessor slots of the levels below \<open>n\<close>.\<close>

definition filled :: "('k, 'v) skiplist \<Rightarrow> loc list \<Rightarrow> nat \<Rightarrow> slot option list \<Rightarrow> slot option list \<Rightarrow> bool" where
  "filled s xs n st st' \<longleftrightarrow> length st' = length st \<and>
     (\<forall>j < length st. st' ! j = (if j < n then Some (pred_slot s j xs) else st ! j))"

lemma filled_refl: "filled s xs 0 st st"
  by (simp add: filled_def)

lemma filled_step:
  "filled s xs (n - 1) (st[n - 1 := Some (pred_slot s (n - 1) xs)]) st' \<Longrightarrow> 0 < n \<Longrightarrow> n \<le> length st \<Longrightarrow>
    filled s xs n st st'"
  by (auto simp: filled_def nth_list_update)

subsection \<open>Writing through slots\<close>

text \<open>What linking and unlinking leaves alone: everything but the pointers.\<close>

definition sl_frame :: "('k, 'v) skiplist \<Rightarrow> ('k, 'v) skiplist \<Rightarrow> bool" where
  "sl_frame s s' \<longleftrightarrow> length (entries s') = length (entries s) \<and> sl_size s' = sl_size s
     \<and> (\<forall>a. map_option (\<lambda>c. (it_key c, it_val c, it_depth c, length (it_next c))) (cells s' a)
          = map_option (\<lambda>c. (it_key c, it_val c, it_depth c, length (it_next c))) (cells s a))"

lemma sl_frame_refl: "sl_frame s s"
  by (simp add: sl_frame_def)

lemma sl_frame_trans: "sl_frame s s' \<Longrightarrow> sl_frame s' s'' \<Longrightarrow> sl_frame s s''"
  by (simp add: sl_frame_def)

lemma sl_frame_cell:
  assumes "sl_frame s s'" and "cells s a = Some c"
  obtains c' where "cells s' a = Some c'" "it_key c' = it_key c" "it_val c' = it_val c"
    "it_depth c' = it_depth c" "length (it_next c') = length (it_next c)"
proof -
  have "map_option (\<lambda>c. (it_key c, it_val c, it_depth c, length (it_next c))) (cells s' a)
      = Some (it_key c, it_val c, it_depth c, length (it_next c))"
    using assms by (simp add: sl_frame_def)
  then show thesis
    using that by (auto simp: map_option_eq_Some)
qed

lemma sl_frame_none: "sl_frame s s' \<Longrightarrow> cells s' a = None \<longleftrightarrow> cells s a = None"
proof -
  assume "sl_frame s s'"
  then have "map_option (\<lambda>c. (it_key c, it_val c, it_depth c, length (it_next c))) (cells s' a)
      = map_option (\<lambda>c. (it_key c, it_val c, it_depth c, length (it_next c))) (cells s a)"
    by (simp add: sl_frame_def)
  then show ?thesis
    by (cases "cells s a"; cases "cells s' a") simp_all
qed

lemma sl_frame_dom: "sl_frame s s' \<Longrightarrow> dom (cells s') = dom (cells s)"
  by (auto simp: dom_def sl_frame_none)

lemma sl_frame_dep: "sl_frame s s' \<Longrightarrow> dep s' = dep s"
proof
  fix a
  assume f: "sl_frame s s'"
  show "dep s' a = dep s a"
  proof (cases "cells s a")
    case None
    then have "cells s' a = None" using sl_frame_none [OF f] by blast
    then show ?thesis using None by (simp add: dep_def)
  next
    case (Some c)
    then show ?thesis by (rule sl_frame_cell [OF f]) (simp add: dep_def Some)
  qed
qed

lemma sl_frame_item: "sl_frame s s' \<Longrightarrow> a \<in> dom (cells s) \<Longrightarrow> item_at s' a = item_at s a \<and> key_at s' a = key_at s a"
  by (auto simp: item_at_def key_at_def elim!: sl_frame_cell)

lemma slot_write_ok:
  assumes "slot_read s p = Some x"
  shows "\<exists>s'. slot_write s p y = Some s' \<and> sl_frame s s'
    \<and> (\<forall>q. slot_read s' q = (if q = p then Some y else slot_read s q))"
proof (cases p)
  case (Entry i)
  define s' where "s' = s\<lparr>entries := (entries s)[i := y]\<rparr>"
  have i: "i < length (entries s)"
    using assms by (simp add: slot_read_def Entry split: if_splits)
  have "slot_read s' q = (if q = p then Some y else slot_read s q)" for q
    using i by (cases q) (simp_all add: slot_read_def s'_def Entry nth_list_update)
  moreover have "sl_frame s s'"
    by (simp add: sl_frame_def s'_def)
  moreover have "slot_write s p y = Some s'"
    using i by (simp add: slot_write_def Entry s'_def)
  ultimately show ?thesis by blast
next
  case (Next a i)
  then obtain c where c: "cells s a = Some c" "i < length (it_next c)"
    using assms by (simp add: slot_read_def split: option.splits if_splits)
  define s' where "s' = s\<lparr>cells := (cells s)(a \<mapsto> c\<lparr>it_next := (it_next c)[i := y]\<rparr>)\<rparr>"
  have "slot_write s p y = Some s'"
    using c by (simp add: slot_write_def Next s'_def)
  moreover have "sl_frame s s'"
    using c by (simp add: sl_frame_def s'_def)
  moreover have "slot_read s' q = (if q = p then Some y else slot_read s q)" for q
  proof (cases q)
    case (Entry j)
    then show ?thesis by (simp add: slot_read_def s'_def Next)
  next
    case q: (Next b j)
    show ?thesis
      using c by (cases "b = a"; cases "j = i") (simp_all add: slot_read_def s'_def Next q)
  qed
  ultimately show ?thesis by blast
qed

lemma pred_slot_index: "pred_slot s i xs = pred_slot s j ys \<Longrightarrow> i = j"
  by (auto simp: pred_slot_def split: option.splits)

lemma pred_slot_in: "pred_slot s i xs = Next a j \<Longrightarrow> a \<in> set xs \<and> i = j \<and> i < dep s a"
proof -
  assume p: "pred_slot s i xs = Next a j"
  then have "find (\<lambda>a. i < dep s a) (rev xs) = Some a" and "i = j"
    by (auto simp: pred_slot_def split: option.splits)
  then show ?thesis
    using find_Some_split [of "\<lambda>a. i < dep s a" "rev xs" a] by (auto simp: rev_eq_append_conv)
qed

lemma pred_slot_append_some:
  assumes "first_at s i r = Some b"
  shows "\<exists>c. c \<in> set r \<and> (\<forall>p. pred_slot s i (p @ r) = Next c i)"
proof -
  have "find (\<lambda>a. i < dep s a) (rev r) \<noteq> None"
    using assms find_None_all [of "\<lambda>a. i < dep s a" "rev r"] find_None_all [of "\<lambda>a. i < dep s a" r]
    by (auto simp: first_at_def)
  then obtain c where c: "find (\<lambda>a. i < dep s a) (rev r) = Some c"
    by auto
  then have "pred_slot s i (p @ r) = Next c i" for p
    by (simp add: pred_slot_def find_append)
  moreover have "c \<in> set r"
    using find_Some_split [OF c] by (auto simp: rev_eq_append_conv)
  ultimately show ?thesis by blast
qed

lemma first_at_cong: "(\<And>a. a \<in> set xs \<Longrightarrow> dep s' a = dep s a) \<Longrightarrow> first_at s' i xs = first_at s i xs"
  unfolding first_at_def by (intro find_cong) auto

lemma pred_slot_cong: "(\<And>a. a \<in> set xs \<Longrightarrow> dep s' a = dep s a) \<Longrightarrow> pred_slot s' i xs = pred_slot s i xs"
proof -
  assume "\<And>a. a \<in> set xs \<Longrightarrow> dep s' a = dep s a"
  then have "find (\<lambda>a. i < dep s' a) (rev xs) = find (\<lambda>a. i < dep s a) (rev xs)"
    by (intro find_cong) auto
  then show ?thesis by (simp add: pred_slot_def)
qed

subsection \<open>Linking a new cell\<close>

lemma filled_full:
  "filled s xs SKIPLIST_MAXDEPTH (replicate SKIPLIST_MAXDEPTH None) st \<Longrightarrow> j < SKIPLIST_MAXDEPTH \<Longrightarrow>
    st ! j = Some (pred_slot s j xs)"
  by (simp add: filled_def)

lemma skiplist_link_reads:
  assumes lk: "sl_linked s (xs @ ys)" and u: "cells s0 u = Some c" "length (it_next c) = d" "u \<notin> set xs"
    and s0: "\<And>q. (\<forall>i. q \<noteq> Next u i) \<Longrightarrow> slot_read s0 q = slot_read s q"
    and st: "\<And>j. j < SKIPLIST_MAXDEPTH \<Longrightarrow> st ! j = Some (pred_slot s j xs)" and d: "d \<le> SKIPLIST_MAXDEPTH"
  shows "j \<le> d \<Longrightarrow> \<exists>s'. skiplist_link s0 u st j = Some s' \<and> sl_frame s0 s'
    \<and> (\<forall>i. slot_read s' (Next u i) = (if i < j then Some (first_at s i ys) else slot_read s0 (Next u i)))
    \<and> (\<forall>q. (\<forall>i. q \<noteq> Next u i) \<longrightarrow>
          slot_read s' q = (if \<exists>i<j. q = pred_slot s i xs then Some (Some u) else slot_read s q))"
proof (induction j)
  case 0
  then show ?case using s0 by (simp add: sl_frame_refl)
next
  case (Suc j)
  then obtain s1 where s1: "skiplist_link s0 u st j = Some s1" "sl_frame s0 s1"
    "\<And>i. slot_read s1 (Next u i) = (if i < j then Some (first_at s i ys) else slot_read s0 (Next u i))"
    "\<And>q. (\<forall>i. q \<noteq> Next u i) \<Longrightarrow> slot_read s1 q = (if \<exists>i<j. q = pred_slot s i xs then Some (Some u) else slot_read s q)"
    by auto
  define P where "P = pred_slot s j xs"
  have P: "P \<noteq> Next u i" for i
    using pred_slot_in [of s j xs u i] u(3) by (auto simp: P_def)
  have Pi: "P = pred_slot s i xs \<longleftrightarrow> i = j" for i
    using pred_slot_index [of s j xs i xs] by (auto simp: P_def)
  have rP: "slot_read s1 P = Some (first_at s j ys)"
    using s1(4) [of P] P Pi sl_linked_read [OF lk, of j] Suc.prems d by (simp add: P_def [symmetric])
  obtain y where "slot_read s1 (Next u j) = Some y"
    using s1(3) [of j] u(1,2) Suc.prems by (simp add: slot_read_def)
  then obtain s2 where s2: "slot_write s1 (Next u j) (first_at s j ys) = Some s2" "sl_frame s1 s2"
    "\<And>q. slot_read s2 q = (if q = Next u j then Some (first_at s j ys) else slot_read s1 q)"
    using slot_write_ok by metis
  have "slot_read s2 P = Some (first_at s j ys)"
    using s2(3) P rP by simp
  then obtain s3 where s3: "slot_write s2 P (Some u) = Some s3" "sl_frame s2 s3"
    "\<And>q. slot_read s3 q = (if q = P then Some (Some u) else slot_read s2 q)"
    using slot_write_ok by metis
  have "skiplist_link s0 u st (Suc j) = Some s3"
    using s1(1) st [of j] rP s2(1) s3(1) Suc.prems d by (simp add: P_def)
  moreover have "sl_frame s0 s3"
    using s1(2) s2(2) s3(2) by (blast intro: sl_frame_trans)
  moreover have "slot_read s3 (Next u i) = (if i < Suc j then Some (first_at s i ys) else slot_read s0 (Next u i))" for i
    using s3(3) s2(3) s1(3) P [symmetric] by (simp add: less_Suc_eq)
  moreover have "slot_read s3 q = (if \<exists>i<Suc j. q = pred_slot s i xs then Some (Some u) else slot_read s q)"
    if "\<forall>i. q \<noteq> Next u i" for q
    using s3(3) s2(3) s1(4) [OF that] that by (auto simp: less_Suc_eq P_def)
  ultimately show ?case by blast
qed

lemma append_split_insert:
  assumes "xs @ u # ys = ps @ qs"
  obtains (before) r where "xs = ps @ r" "qs = r @ u # ys" | (after) r where "ps = xs @ u # r" "ys = r @ qs"
  using assms by (fastforce simp: append_eq_append_conv2 Cons_eq_append_conv)

lemma linked_insert:
  assumes lk: "sl_linked s (xs @ ys)" and dist: "distinct (xs @ u # ys)"
    and dep: "\<And>a. a \<noteq> u \<Longrightarrow> dep s' a = dep s a" "dep s' u = d"
    and new: "\<And>i. i < d \<Longrightarrow> slot_read s' (Next u i) = Some (first_at s i ys)"
    and old: "\<And>q. (\<forall>i. q \<noteq> Next u i) \<Longrightarrow>
      slot_read s' q = (if \<exists>i<d. q = pred_slot s i xs then Some (Some u) else slot_read s q)"
  shows "sl_linked s' (xs @ u # ys)"
  unfolding sl_linked_def
proof (intro allI impI)
  fix ps qs i
  assume sp: "xs @ u # ys = ps @ qs" and i: "i < SKIPLIST_MAXDEPTH"
  have fa: "first_at s' i as = first_at s i as" and pa: "pred_slot s' i as = pred_slot s i as" if "u \<notin> set as" for as
  proof -
    have same: "dep s' a = dep s a" if "a \<in> set as" for a
      using that \<open>_ \<notin> set as\<close> by (intro dep(1)) auto
    show "first_at s' i as = first_at s i as"
      by (rule first_at_cong) (rule same)
    show "pred_slot s' i as = pred_slot s i as"
      by (rule pred_slot_cong) (rule same)
  qed
  have neq: "pred_slot s i as \<noteq> Next u j" if "u \<notin> set as" for as j
    using pred_slot_in [of s i as u j] that by auto
  have idx: "(\<exists>j<d. pred_slot s i as = pred_slot s j xs) \<longleftrightarrow> i < d \<and> pred_slot s i as = pred_slot s i xs" for as
    using pred_slot_index by blast
  show "slot_read s' (pred_slot s' i ps) = Some (first_at s' i qs)"
    using sp
  proof (cases rule: append_split_insert)
    case (before r)
    have nu: "u \<notin> set ps" "u \<notin> set r" "u \<notin> set ys"
      using dist before by auto
    have "slot_read s (pred_slot s i ps) = Some (first_at s i (r @ ys))"
      using lk i before by (intro sl_linked_read) simp_all
    moreover have "pred_slot s i ps = pred_slot s i xs \<longleftrightarrow> first_at s i r = None"
    proof (cases "first_at s i r")
      case None
      then show ?thesis by (simp add: before pred_slot_append_none)
    next
      case (Some b)
      then obtain c where c: "c \<in> set r" "\<And>p. pred_slot s i (p @ r) = Next c i"
        using pred_slot_append_some [OF Some] by blast
      then have "c \<notin> set ps"
        using dist before by auto
      then show ?thesis
        using c pred_slot_in [of s i ps c i] Some by (auto simp: before)
    qed
    ultimately show ?thesis
      using nu old [of "pred_slot s i ps"] neq [of ps] dep
      by (auto simp: before(2) fa pa idx first_at_append first_at_Cons split: option.splits)
  next
    case (after r)
    have nu: "u \<notin> set xs" "u \<notin> set r" "u \<notin> set qs"
      using dist after by auto
    have old_read: "slot_read s (pred_slot s i (xs @ r)) = Some (first_at s i qs)"
      using lk i after by (intro sl_linked_read) simp_all
    show ?thesis
    proof (cases "first_at s i r")
      case None
      then have "pred_slot s' i ps = (if i < d then Next u i else pred_slot s i xs)"
        using pred_slot_append_none [of s' i r "xs @ [u]"] nu dep(2) by (simp add: after fa pa pred_slot_snoc)
      moreover have "slot_read s (pred_slot s i xs) = Some (first_at s i qs)"
        using old_read None by (simp add: pred_slot_append_none)
      ultimately show ?thesis
        using new [of i] old [of "pred_slot s i xs"] neq [of xs] nu None
        by (auto simp: after(2) fa idx first_at_append)
    next
      case (Some b)
      obtain c where c: "c \<in> set r" "\<And>p. pred_slot s i (p @ r) = Next c i"
        using pred_slot_append_some [OF Some] by blast
      have "first_at s' i r = Some b"
        using Some fa [OF nu(2)] by simp
      then obtain c' where c': "c' \<in> set r" "\<And>p. pred_slot s' i (p @ r) = Next c' i"
        using pred_slot_append_some by blast
      have "c' = c"
        using c(2) [of "[]"] c'(2) [of "[]"] nu pa by simp
      then have "pred_slot s' i ps = pred_slot s i (xs @ r)"
        using c'(2) [of "xs @ [u]"] c(2) [of xs] by (simp add: after)
      moreover have "pred_slot s i (xs @ r) \<noteq> pred_slot s i xs"
        using c pred_slot_in [of s i xs c i] dist after by auto
      ultimately show ?thesis
        using old [of "pred_slot s i (xs @ r)"] neq [of "xs @ r"] nu old_read by (auto simp: fa idx)
    qed
  qed
qed

subsection \<open>Unlinking a cell\<close>

lemma skiplist_unlink_reads:
  assumes lk: "sl_linked s (xs @ m # zs)" and m: "m \<notin> set xs" and d: "dep s m \<le> SKIPLIST_MAXDEPTH"
    and st: "\<And>j. j < SKIPLIST_MAXDEPTH \<Longrightarrow> st ! j = Some (pred_slot s j xs)"
  shows "j \<le> dep s m \<Longrightarrow> \<exists>s'. skiplist_unlink s m st j = Some s' \<and> sl_frame s s'
    \<and> (\<forall>q. slot_read s' q = (case q of Entry i \<Rightarrow> if i < j \<and> q = pred_slot s i xs then Some (first_at s i zs) else slot_read s q
        | Next a i \<Rightarrow> if i < j \<and> q = pred_slot s i xs then Some (first_at s i zs) else slot_read s q))"
proof (induction j)
  case 0
  then show ?case by (auto simp: sl_frame_refl split: slot.split)
next
  case (Suc j)
  define upd where "upd n q = (case q of Entry i \<Rightarrow> if i < n \<and> q = pred_slot s i xs then Some (first_at s i zs) else slot_read s q
        | Next a i \<Rightarrow> if i < n \<and> q = pred_slot s i xs then Some (first_at s i zs) else slot_read s q)" for n q
  from Suc obtain s1 where s1: "skiplist_unlink s m st j = Some s1" "sl_frame s s1" "\<And>q. slot_read s1 q = upd j q"
    by (auto simp: upd_def)
  define P where "P = pred_slot s j xs"
  have P: "P \<noteq> Next m i" for i
    using pred_slot_in [of s j xs m i] m by (auto simp: P_def)
  have "slot_read s (pred_slot s j (xs @ [m])) = Some (first_at s j zs)"
    using sl_linked_read [of s "xs @ [m]" zs j] lk Suc.prems d by simp
  then have "slot_read s (Next m j) = Some (first_at s j zs)"
    using Suc.prems by (simp add: pred_slot_snoc)
  then have rm: "slot_read s1 (Next m j) = Some (first_at s j zs)"
    by (simp add: s1(3) upd_def)
  have "slot_read s P = Some (first_at s j (m # zs))"
    unfolding P_def using Suc.prems d by (intro sl_linked_read [OF lk]) simp
  then have "slot_read s1 P = Some (first_at s j (m # zs))"
    by (auto simp: s1(3) upd_def P_def pred_slot_def split: option.splits)
  then obtain s2 where s2: "slot_write s1 P (first_at s j zs) = Some s2" "sl_frame s1 s2"
    "\<And>q. slot_read s2 q = (if q = P then Some (first_at s j zs) else slot_read s1 q)"
    using slot_write_ok by metis
  have "skiplist_unlink s m st (Suc j) = Some s2"
    using s1(1) st [of j] rm s2(1) Suc.prems d by (simp add: P_def)
  moreover have "sl_frame s s2"
    using s1(2) s2(2) by (rule sl_frame_trans)
  moreover have "slot_read s2 q = upd (Suc j) q" for q
    by (auto simp: s2(3) s1(3) upd_def P_def less_Suc_eq pred_slot_def split: slot.splits option.splits)
  ultimately show ?case
    unfolding upd_def by blast
qed

lemma linked_remove:
  assumes lk: "sl_linked s (xs @ m # zs)" and dist: "distinct (xs @ m # zs)"
    and dep: "\<And>a. a \<noteq> m \<Longrightarrow> dep s' a = dep s a"
    and old: "\<And>as i. m \<notin> set as \<Longrightarrow> slot_read s' (pred_slot s i as) =
      (if i < dep s m \<and> pred_slot s i as = pred_slot s i xs then Some (first_at s i zs) else slot_read s (pred_slot s i as))"
  shows "sl_linked s' (xs @ zs)"
  unfolding sl_linked_def
proof (intro allI impI)
  fix ps qs i
  assume sp: "xs @ zs = ps @ qs" and i: "i < SKIPLIST_MAXDEPTH"
  have fa: "first_at s' i as = first_at s i as" and pa: "pred_slot s' i as = pred_slot s i as" if "m \<notin> set as" for as
  proof -
    have same: "dep s' a = dep s a" if "a \<in> set as" for a
      using that \<open>_ \<notin> set as\<close> by (intro dep) auto
    show "first_at s' i as = first_at s i as"
      by (rule first_at_cong) (rule same)
    show "pred_slot s' i as = pred_slot s i as"
      by (rule pred_slot_cong) (rule same)
  qed
  have "m \<notin> set (xs @ zs)"
    using dist by simp
  then have m: "m \<notin> set ps" "m \<notin> set qs" "m \<notin> set xs"
    unfolding sp using dist by auto
  consider (before) r where "xs = ps @ r" "qs = r @ zs" | (after) r where "ps = xs @ r" "zs = r @ qs"
    using sp by (auto simp: append_eq_append_conv2)
  then show "slot_read s' (pred_slot s' i ps) = Some (first_at s' i qs)"
  proof cases
    case (before r)
    have r: "slot_read s (pred_slot s i ps) = Some (first_at s i (r @ m # zs))"
      using lk i before by (intro sl_linked_read) simp_all
    have "pred_slot s i ps = pred_slot s i xs \<longleftrightarrow> first_at s i r = None"
    proof (cases "first_at s i r")
      case None
      then show ?thesis by (simp add: before pred_slot_append_none)
    next
      case (Some b)
      then obtain c where c: "c \<in> set r" "\<And>p. pred_slot s i (p @ r) = Next c i"
        using pred_slot_append_some [OF Some] by blast
      then have "c \<notin> set ps"
        using dist before by auto
      then show ?thesis
        using c pred_slot_in [of s i ps c i] Some by (auto simp: before)
    qed
    then show ?thesis
      using r m old [of ps i] by (auto simp: fa pa before(2) first_at_append first_at_Cons split: option.splits)
  next
    case (after r)
    have r: "slot_read s (pred_slot s i (xs @ m # r)) = Some (first_at s i qs)"
      using lk i after by (intro sl_linked_read) simp_all
    show ?thesis
    proof (cases "first_at s i r")
      case None
      then have "pred_slot s i (xs @ m # r) = (if i < dep s m then Next m i else pred_slot s i xs)"
        using pred_slot_append_none [of s i r "xs @ [m]"] by (simp add: pred_slot_snoc)
      then show ?thesis
        using r m None old [of ps i] by (auto simp: fa pa after first_at_append pred_slot_append_none)
    next
      case (Some b)
      then obtain c where c: "c \<in> set r" "\<And>p. pred_slot s i (p @ r) = Next c i"
        using pred_slot_append_some [OF Some] by blast
      then have "pred_slot s i ps = pred_slot s i (xs @ m # r)"
        using c(2) [of xs] c(2) [of "xs @ [m]"] by (simp add: after)
      moreover have "pred_slot s i ps \<noteq> pred_slot s i xs"
        using c(2) [of xs] c(1) pred_slot_in [of s i xs c i] dist by (auto simp: after)
      ultimately show ?thesis
        using r m old [of ps i] by (simp add: fa pa)
    qed
  qed
qed

text \<open>The laws of a comparison callback: the sign of the result is the order of the keys.\<close>

locale key_order =
  fixes cmp :: "'k::linorder \<Rightarrow> 'k \<Rightarrow> int"
  assumes cmp_pos: "0 < cmp a b \<longleftrightarrow> b < a"
    and cmp_zero: "cmp a b = 0 \<longleftrightarrow> a = b"
begin

lemma cmp_neg: "cmp a b < 0 \<longleftrightarrow> a < b"
  using cmp_pos [of a b] cmp_zero [of a b] by auto

lemma walk_step:
  assumes inv: "sl_shape s (p @ q @ ys)" "sl_linked s (p @ q @ ys)" and i: "i < SKIPLIST_MAXDEPTH"
    and pos: "pos s iterp i p" and lt: "\<forall>a \<in> set (p @ q). key_at s a < k" and ge: "\<forall>a \<in> set ys. k \<le> key_at s a"
  obtains (advance) b us vs c where "slot_read s iterp = Some (Some b)" "cells s b = Some c"
      "cmp (it_key c) k < 0" "q = us @ b # vs" "pos s (Next b i) i (p @ us @ [b])"
  | (bottom) "slot_read s iterp = Some None" "iterp = pred_slot s i (p @ q)" "first_at s i ys = None"
  | (drop) b c where "slot_read s iterp = Some (Some b)" "cells s b = Some c" "0 \<le> cmp (it_key c) k"
      "cmp (it_key c) k = 0 \<longleftrightarrow> key_at s b = k" "iterp = pred_slot s i (p @ q)" "first_at s i ys = Some b" "b \<in> set ys"
proof (cases "first_at s i q")
  case None
  note d = pos_drop [OF inv(2) i pos None]
  show ?thesis
  proof (cases "first_at s i ys")
    case None
    then show ?thesis using d bottom by simp
  next
    case (Some b)
    then have b: "b \<in> set ys"
      using find_Some_split unfolding first_at_def by fastforce
    obtain c where c: "cells s b = Some c" "key_at s b = it_key c"
      using sl_shape_cell [OF inv(1), of b] b by auto
    have "0 \<le> cmp (it_key c) k"
      using ge b c cmp_neg [of "it_key c" k] by force
    then show ?thesis
      using drop [of b c] d Some b c by (simp add: cmp_zero)
  qed
next
  case (Some b)
  obtain us vs where a: "slot_read s iterp = Some (Some b)" "q = us @ b # vs" "pos s (Next b i) i (p @ us @ [b])"
    using pos_advance [OF inv(2) i pos Some] by blast
  obtain c where c: "cells s b = Some c" "key_at s b = it_key c"
    using sl_shape_cell [OF inv(1), of b] a(2) by auto
  have "cmp (it_key c) k < 0"
    using lt a(2) c by (simp add: cmp_neg)
  then show ?thesis
    using advance a c by blast
qed

lemma insert_stack_miss:
  assumes "sl_shape s (xs @ ys)" "sl_linked s (xs @ ys)"
    and "\<forall>a \<in> set xs. key_at s a < k" "\<forall>a \<in> set ys. k < key_at s a"
  shows "xs = p @ q \<Longrightarrow> pos s iterp (n - 1) p \<Longrightarrow> n \<le> SKIPLIST_MAXDEPTH \<Longrightarrow> length st = SKIPLIST_MAXDEPTH \<Longrightarrow>
    \<exists>st'. skiplist_insert_stack cmp s k n iterp st = Some (0, st') \<and> filled s xs n st st'"
proof (induction "n + length q" arbitrary: n p q iterp st rule: less_induct)
  case less
  show ?case
  proof (cases "n = 0")
    case True
    then show ?thesis by (simp add: skiplist_insert_stack.simps [of cmp s k] filled_refl)
  next
    case False
    have next_level: "\<exists>st'. skiplist_insert_stack cmp s k (n - 1) (slot_dec iterp) (st[n - 1 := Some iterp]) = Some (0, st')
        \<and> filled s xs n st st'" if "iterp = pred_slot s (n - 1) xs"
      using less.hyps [of "n - 1" q p "slot_dec iterp" "st[n - 1 := Some iterp]"] less.prems pos_dec [OF less.prems(2)]
        False that filled_step [of s xs n st] by fastforce
    have pre: "sl_shape s (p @ q @ ys)" "sl_linked s (p @ q @ ys)" "n - 1 < SKIPLIST_MAXDEPTH"
      "\<forall>a \<in> set (p @ q). key_at s a < k" "\<forall>a \<in> set ys. k \<le> key_at s a"
      using assms less.prems False by (auto intro: less_imp_le)
    show ?thesis
    proof (cases rule: walk_step [OF pre(1-3) less.prems(2) pre(4,5), case_names advance bottom drop])
      case (advance b us vs c)
      then show ?thesis
        using less.hyps [of n vs "p @ us @ [b]" "Next b (n - 1)" st] less.prems False
        by (simp add: skiplist_insert_stack.simps [of cmp s k n])
    next
      case bottom
      then show ?thesis
        using next_level less.prems(1) False by (simp add: skiplist_insert_stack.simps [of cmp s k n])
    next
      case (drop b c)
      then have "0 < cmp (it_key c) k"
        using assms(4) by fastforce
      then show ?thesis
        using next_level less.prems(1) drop False
        by (simp add: skiplist_insert_stack.simps [of cmp s k n])
    qed
  qed
qed

lemma level0_hit:
  assumes "sl_shape s (xs @ m # zs)"
  shows "first_at s 0 (m # zs) = Some m"
  using first_at_0 [OF assms, of "m # zs"] by auto

lemma insert_stack_hit:
  assumes "sl_shape s (xs @ m # zs)" "sl_linked s (xs @ m # zs)"
    and "\<forall>a \<in> set xs. key_at s a < k" "key_at s m = k" "\<forall>a \<in> set zs. k < key_at s a"
  shows "xs = p @ q \<Longrightarrow> pos s iterp (n - 1) p \<Longrightarrow> 0 < n \<Longrightarrow> n \<le> SKIPLIST_MAXDEPTH \<Longrightarrow>
    \<exists>st'. skiplist_insert_stack cmp s k n iterp st = Some (-1, st')"
proof (induction "n + length q" arbitrary: n p q iterp st rule: less_induct)
  case less
  have next_level: "\<exists>st''. skiplist_insert_stack cmp s k (n - 1) (slot_dec iterp) st' = Some (-1, st'')" if "0 < n - 1" for st'
    using less.hyps [of "n - 1" q p "slot_dec iterp" st'] less.prems pos_dec [OF less.prems(2)] that by simp
  have pre: "sl_shape s (p @ q @ m # zs)" "sl_linked s (p @ q @ m # zs)" "n - 1 < SKIPLIST_MAXDEPTH"
    "\<forall>a \<in> set (p @ q). key_at s a < k" "\<forall>a \<in> set (m # zs). k \<le> key_at s a"
    using assms less.prems by (auto intro: less_imp_le)
  show ?case
  proof (cases rule: walk_step [OF pre(1-3) less.prems(2) pre(4,5), case_names advance bottom drop])
    case (advance b us vs c)
    then show ?thesis
      using less.hyps [of n vs "p @ us @ [b]" "Next b (n - 1)" st] less.prems
      by (simp add: skiplist_insert_stack.simps [of cmp s k n])
  next
    case bottom
    then have "0 < n - 1"
      using level0_hit [OF assms(1)] by (cases "n - 1") auto
    then show ?thesis
      using next_level bottom less.prems by (simp add: skiplist_insert_stack.simps [of cmp s k n])
  next
    case (drop b c)
    show ?thesis
    proof (cases "cmp (it_key c) k = 0")
      case True
      then show ?thesis
        using drop less.prems by (simp add: skiplist_insert_stack.simps [of cmp s k n])
    next
      case False
      then have "0 < n - 1"
        using drop assms(4) level0_hit [OF assms(1)] by (cases "n - 1") auto
      then show ?thesis
        using next_level drop False less.prems by (simp add: skiplist_insert_stack.simps [of cmp s k n])
    qed
  qed
qed

lemma remove_stack_hit:
  assumes "sl_shape s (xs @ m # zs)" "sl_linked s (xs @ m # zs)"
    and "\<forall>a \<in> set xs. key_at s a < k" "key_at s m = k" "\<forall>a \<in> set zs. k < key_at s a"
  shows "xs = p @ q \<Longrightarrow> pos s iterp (n - 1) p \<Longrightarrow> 0 < n \<Longrightarrow> n \<le> SKIPLIST_MAXDEPTH \<Longrightarrow> length st = SKIPLIST_MAXDEPTH \<Longrightarrow>
    \<exists>st'. skip_remove_stack cmp s k n iterp st ret = Some (Some m, st') \<and> filled s xs n st st'"
proof (induction "n + length q" arbitrary: n p q iterp st ret rule: less_induct)
  case less
  have next_level: "\<exists>st'. skip_remove_stack cmp s k (n - 1) (slot_dec iterp) (st[n - 1 := Some iterp]) ret' = Some (Some m, st')
        \<and> filled s xs n st st'" if "iterp = pred_slot s (n - 1) xs" "0 < n - 1" for ret'
    using less.hyps [of "n - 1" q p "slot_dec iterp" "st[n - 1 := Some iterp]" ret'] less.prems pos_dec [OF less.prems(2)]
      that filled_step [of s xs n st] by fastforce
  have pre: "sl_shape s (p @ q @ m # zs)" "sl_linked s (p @ q @ m # zs)" "n - 1 < SKIPLIST_MAXDEPTH"
    "\<forall>a \<in> set (p @ q). key_at s a < k" "\<forall>a \<in> set (m # zs). k \<le> key_at s a"
    using assms less.prems by (auto intro: less_imp_le)
  show ?case
  proof (cases rule: walk_step [OF pre(1-3) less.prems(2) pre(4,5), case_names advance bottom drop])
    case (advance b us vs c)
    then show ?thesis
      using less.hyps [of n vs "p @ us @ [b]" "Next b (n - 1)" st ret] less.prems
      by (simp add: skip_remove_stack.simps [of cmp s k n])
  next
    case bottom
    then have "0 < n - 1"
      using level0_hit [OF assms(1)] by (cases "n - 1") auto
    then show ?thesis
      using next_level bottom less.prems by (simp add: skip_remove_stack.simps [of cmp s k n])
  next
    case (drop b c)
    show ?thesis
    proof (cases "cmp (it_key c) k = 0")
      case True
      then have "b = m"
        using drop assms(4,5) by force
      moreover have "filled s xs n st (st[n - 1 := Some iterp])" if "n = 1"
        using drop(5) less.prems(1,5) unfolding that by (auto simp: filled_def nth_list_update)
      moreover have "skip_remove_stack cmp s k n iterp st ret = (if n = 1 then Some (Some m, st[n - 1 := Some iterp])
          else skip_remove_stack cmp s k (n - 1) (slot_dec iterp) (st[n - 1 := Some iterp]) (Some m))"
        using drop True \<open>b = m\<close> less.prems(3) by (subst skip_remove_stack.simps) auto
      ultimately show ?thesis
        using next_level [of "Some m"] drop(5) less.prems by (cases "n = 1") auto
    next
      case False
      then have "0 < n - 1"
        using drop assms(4) level0_hit [OF assms(1)] by (cases "n - 1") auto
      then show ?thesis
        using next_level drop False less.prems by (simp add: skip_remove_stack.simps [of cmp s k n])
    qed
  qed
qed

lemma remove_stack_miss:
  assumes "sl_shape s (xs @ ys)" "sl_linked s (xs @ ys)"
    and "\<forall>a \<in> set xs. key_at s a < k" "\<forall>a \<in> set ys. k < key_at s a"
  shows "xs = p @ q \<Longrightarrow> pos s iterp (n - 1) p \<Longrightarrow> n \<le> SKIPLIST_MAXDEPTH \<Longrightarrow>
    \<exists>st'. skip_remove_stack cmp s k n iterp st ret = Some (ret, st')"
proof (induction "n + length q" arbitrary: n p q iterp st rule: less_induct)
  case less
  show ?case
  proof (cases "n = 0")
    case True
    then show ?thesis by (simp add: skip_remove_stack.simps [of cmp s k])
  next
    case False
    have next_level: "\<exists>st''. skip_remove_stack cmp s k (n - 1) (slot_dec iterp) st' ret = Some (ret, st'')" for st'
      using less.hyps [of "n - 1" q p "slot_dec iterp" st'] less.prems pos_dec [OF less.prems(2)] False by simp
    have pre: "sl_shape s (p @ q @ ys)" "sl_linked s (p @ q @ ys)" "n - 1 < SKIPLIST_MAXDEPTH"
      "\<forall>a \<in> set (p @ q). key_at s a < k" "\<forall>a \<in> set ys. k \<le> key_at s a"
      using assms less.prems False by (auto intro: less_imp_le)
    show ?thesis
    proof (cases rule: walk_step [OF pre(1-3) less.prems(2) pre(4,5), case_names advance bottom drop])
      case (advance b us vs c)
      then show ?thesis
        using less.hyps [of n vs "p @ us @ [b]" "Next b (n - 1)" st] less.prems False
        by (simp add: skip_remove_stack.simps [of cmp s k n])
    next
      case bottom
      then show ?thesis
        using next_level less.prems False by (simp add: skip_remove_stack.simps [of cmp s k n])
    next
      case (drop b c)
      then have "0 < cmp (it_key c) k"
        using assms(4) by fastforce
      then show ?thesis
        using next_level drop less.prems False by (simp add: skip_remove_stack.simps [of cmp s k n])
    qed
  qed
qed

lemma search_iter_eq:
  assumes "sl_shape s (xs @ ys)" "sl_linked s (xs @ ys)"
    and "\<forall>a \<in> set xs. key_at s a < k" "\<forall>a \<in> set ys. k \<le> key_at s a" "\<forall>a \<in> set (tl ys). k < key_at s a"
  shows "xs = p @ q \<Longrightarrow> pos s iterp (n - 1) p \<Longrightarrow> 0 < n \<Longrightarrow> n \<le> SKIPLIST_MAXDEPTH \<Longrightarrow>
    skiplist_search_iter cmp s k n iterp = Some (if ys \<noteq> [] \<and> key_at s (hd ys) = k then Some (hd ys) else None)"
proof (induction "n + length q" arbitrary: n p q iterp rule: less_induct)
  case less
  define res where "res = (if ys \<noteq> [] \<and> key_at s (hd ys) = k then Some (hd ys) else None)"
  have next_level: "skiplist_search_iter cmp s k (n - 1) (slot_dec iterp) = Some res"
    if "n - 1 = 0 \<Longrightarrow> res = None"
    using less.hyps [of "n - 1" q p "slot_dec iterp"] less.prems pos_dec [OF less.prems(2)] that
    by (cases "n - 1 = 0") (simp_all add: res_def [symmetric] skiplist_search_iter.simps [of cmp s k 0])
  have zero: "first_at s 0 ys = (if ys = [] then None else Some (hd ys))"
    using first_at_0 [OF assms(1), of ys] by auto
  have pre: "sl_shape s (p @ q @ ys)" "sl_linked s (p @ q @ ys)" "n - 1 < SKIPLIST_MAXDEPTH"
    "\<forall>a \<in> set (p @ q). key_at s a < k" "\<forall>a \<in> set ys. k \<le> key_at s a"
    using assms less.prems by auto
  show ?case
    unfolding res_def [symmetric]
  proof (cases rule: walk_step [OF pre(1-3) less.prems(2) pre(4,5), case_names advance bottom drop])
    case (advance b us vs c)
    then show "skiplist_search_iter cmp s k n iterp = Some res"
      using less.hyps [of n vs "p @ us @ [b]" "Next b (n - 1)"] less.prems
      by (simp add: skiplist_search_iter.simps [of cmp s k n] res_def [symmetric])
  next
    case bottom
    then have "n - 1 = 0 \<Longrightarrow> res = None"
      using zero by (auto simp: res_def split: if_splits)
    then show "skiplist_search_iter cmp s k n iterp = Some res"
      using next_level bottom less.prems by (simp add: skiplist_search_iter.simps [of cmp s k n])
  next
    case (drop b c)
    show "skiplist_search_iter cmp s k n iterp = Some res"
    proof (cases "cmp (it_key c) k = 0")
      case True
      then have "ys \<noteq> []" "b = hd ys"
        using drop assms(5) by (cases ys; fastforce)+
      then show ?thesis
        using drop True less.prems by (simp add: skiplist_search_iter.simps [of cmp s k n] res_def)
    next
      case False
      then have "n - 1 = 0 \<Longrightarrow> res = None"
        using zero drop by (auto simp: res_def split: if_splits)
      then show ?thesis
        using next_level drop False less.prems by (simp add: skiplist_search_iter.simps [of cmp s k n])
    qed
  qed
qed

text \<open>The cells before and from a key.\<close>

lemma key_split:
  fixes s :: "('k, 'v) skiplist"
  assumes "sorted_wrt (<) (map (key_at s) as)"
  obtains xs ys where "as = xs @ ys" "\<forall>a \<in> set xs. key_at s a < k" "\<forall>a \<in> set ys. k \<le> key_at s a"
    "\<forall>a \<in> set (tl ys). k < key_at s a"
proof -
  have "\<exists>xs ys. as = xs @ ys \<and> (\<forall>a \<in> set xs. key_at s a < k) \<and> (\<forall>a \<in> set ys. k \<le> key_at s a)
      \<and> (\<forall>a \<in> set (tl ys). k < key_at s a)"
    using assms
  proof (induction as)
    case (Cons a as)
    then obtain xs ys where xy: "as = xs @ ys" "\<forall>a \<in> set xs. key_at s a < k" "\<forall>a \<in> set ys. k \<le> key_at s a"
      "\<forall>a \<in> set (tl ys). k < key_at s a"
      by auto
    show ?case
    proof (cases "key_at s a < k")
      case True
      then show ?thesis using xy by (intro exI [of _ "a # xs"] exI [of _ ys]) simp
    next
      case False
      then have "\<forall>b \<in> set as. k < key_at s b"
        using Cons.prems le_less_trans [of k "key_at s a"] by (simp add: not_less)
      then show ?thesis
        using False by (intro exI [of _ "[]"] exI [of _ "a # as"]) auto
    qed
  qed simp
  then show ?thesis using that by blast
qed

lemma pos_start: "pos s (Entry 7) (SKIPLIST_MAXDEPTH - 1) []"
  by (simp add: pos_def)

end

lemma skip_depth_loop_range: "d \<le> skip_depth_loop rand d n \<and> skip_depth_loop rand d n \<le> d + n"
  by (induction n arbitrary: d) (auto simp: le_Suc_eq dest: meta_spec [of _ "Suc _"] intro: order_trans [OF le_SucI])

lemma wb_skip_depth_range: "1 \<le> wb_skip_depth rand" "wb_skip_depth rand \<le> SKIPLIST_MAXDEPTH"
  using skip_depth_loop_range [of 1 rand "SKIPLIST_MAXDEPTH - 1"] by (simp_all add: wb_skip_depth_def)

lemma set_mp_suffix: "set zs \<subseteq> set (xs @ m # zs)"
  by auto

lemma sl_shape_frame:
  assumes "sl_frame s s'" and "sl_shape s as"
  shows "sl_shape s' as"
proof -
  have "\<exists>c'. cells s' a = Some c' \<and> 1 \<le> it_depth c' \<and> it_depth c' \<le> SKIPLIST_MAXDEPTH \<and> length (it_next c') = it_depth c'"
    if a: "a \<in> set as" for a
  proof -
    obtain c where c: "cells s a = Some c" "1 \<le> it_depth c" "it_depth c \<le> SKIPLIST_MAXDEPTH" "length (it_next c) = it_depth c"
      by (rule sl_shape_cell [OF assms(2) a])
    show ?thesis
      by (rule sl_frame_cell [OF assms(1) c(1)]) (use c(2-4) in simp)
  qed
  then show ?thesis
    using assms by (simp add: sl_shape_def sl_frame_def)
qed

lemma sl_frame_items:
  "sl_frame s s' \<Longrightarrow> set as \<subseteq> dom (cells s) \<Longrightarrow> map (item_at s') as = map (item_at s) as \<and> map (key_at s') as = map (key_at s) as"
proof -
  assume f: "sl_frame s s'" and d: "set as \<subseteq> dom (cells s)"
  have "item_at s' a = item_at s a \<and> key_at s' a = key_at s a" if "a \<in> set as" for a
    using sl_frame_item [OF f] d that by blast
  then show ?thesis by simp
qed

lemma sl_shape_dom: "sl_shape s as \<Longrightarrow> set as \<subseteq> dom (cells s)"
  by (auto simp: sl_shape_def)

lemma fst_item_at: "fst (item_at s a) = key_at s a"
  by (simp add: item_at_def key_at_def)

context key_order begin

lemma insert_rel_new:
  assumes rel: "sl_inv s (xs @ ys)" "finite (dom (cells s))" and u: "u \<notin> dom (cells s)"
    and lt: "\<forall>a \<in> set xs. key_at s a < k" and gt: "\<forall>a \<in> set ys. k < key_at s a"
  shows "\<exists>s'. skiplist_insert cmp rand u s k v = Some (s', []) \<and> sl_inv s' (xs @ u # ys)
    \<and> finite (dom (cells s')) \<and> map (item_at s') (xs @ u # ys) = map (item_at s) xs @ (k, v) # map (item_at s) ys"
proof -
  note inv = rel(1) [unfolded sl_inv_def]
  define d c s0 where "d = wb_skip_depth rand"
    and "c = \<lparr>it_key = k, it_val = v, it_depth = d, it_next = replicate d (None :: loc option)\<rparr>"
    and "s0 = s\<lparr>cells := (cells s)(u \<mapsto> c)\<rparr>"
  have uin: "u \<notin> set (xs @ ys)"
    using sl_shape_dom [of s "xs @ ys"] inv u by blast
  obtain st where st: "skiplist_insert_stack cmp s k SKIPLIST_MAXDEPTH (Entry 7) (replicate SKIPLIST_MAXDEPTH None) = Some (0, st)"
    "filled s xs SKIPLIST_MAXDEPTH (replicate SKIPLIST_MAXDEPTH None) st"
    using insert_stack_miss [of s xs ys k "[]" xs "Entry 7" SKIPLIST_MAXDEPTH "replicate SKIPLIST_MAXDEPTH None"]
      inv lt gt pos_start [of s] by auto
  have rd: "slot_read s0 q = slot_read s q" if "\<forall>i. q \<noteq> Next u i" for q
    using that by (cases q) (auto simp: s0_def slot_read_def)
  obtain s1 where s1: "skiplist_link s0 u st d = Some s1" "sl_frame s0 s1"
    "\<And>i. slot_read s1 (Next u i) = (if i < d then Some (first_at s i ys) else slot_read s0 (Next u i))"
    "\<And>q. \<forall>i. q \<noteq> Next u i \<Longrightarrow> slot_read s1 q = (if \<exists>i<d. q = pred_slot s i xs then Some (Some u) else slot_read s q)"
    using skiplist_link_reads [of s xs ys s0 u c d st d] inv uin rd filled_full [OF st(2)] wb_skip_depth_range [of rand]
    by (auto simp: s0_def c_def d_def)
  define s' where "s' = s1\<lparr>sl_size := sl_size s1 + 1\<rparr>"
  have same: "slot_read s' = slot_read s1" "dep s' = dep s1" "cells s' = cells s1" "key_at s' = key_at s1" "item_at s' = item_at s1"
    by (auto simp: s'_def fun_eq_iff slot_read_def dep_def key_at_def item_at_def split: slot.split)
  have run: "skiplist_insert cmp rand u s k v = Some (s', [])"
    using st(1) s1(1) by (simp add: skiplist_insert_def s'_def d_def [symmetric] c_def [symmetric] s0_def [symmetric] Let_def)
  have dep1: "dep s' a = dep s a" if "a \<noteq> u" for a
    using that sl_frame_dep [OF s1(2)] by (simp add: same s0_def dep_def)
  have depu: "dep s' u = d"
    using sl_frame_dep [OF s1(2)] by (simp add: same s0_def dep_def c_def)
  have "distinct (xs @ u # ys)"
    using inv uin by (auto simp: sl_shape_def)
  then have lk: "sl_linked s' (xs @ u # ys)"
    using inv dep1 depu s1(3,4) by (intro linked_insert [of s xs ys u s' d]) (auto simp: same)
  have "sl_shape s0 (xs @ u # ys)"
    using inv uin wb_skip_depth_range [of rand] by (auto simp: sl_shape_def s0_def c_def d_def)
  then have sh: "sl_shape s1 (xs @ u # ys)" and dm: "set (xs @ u # ys) \<subseteq> dom (cells s0)"
    using sl_shape_frame [OF s1(2)] sl_shape_dom by blast+
  have "map (item_at s0) xs = map (item_at s) xs" "map (item_at s0) ys = map (item_at s) ys" "item_at s0 u = (k, v)"
    using uin by (auto simp: item_at_def s0_def c_def)
  then have it: "map (item_at s') (xs @ u # ys) = map (item_at s) xs @ (k, v) # map (item_at s) ys"
    using sl_frame_items [OF s1(2) dm] by (simp add: same)
  have keys: "map (key_at s') as = map fst (map (item_at s') as)" for as
    by (simp add: fst_item_at)
  have "sorted_wrt (<) (map (key_at s') (xs @ u # ys))"
    unfolding keys it using inv lt gt by (auto simp: sorted_wrt_append fst_item_at o_def intro: less_trans)
  then have "sl_inv s' (xs @ u # ys)"
    using lk sh inv s1(2) by (simp add: sl_inv_def sl_shape_def same s'_def sl_frame_def s0_def)
  then show ?thesis
    using run it rel(2) sl_frame_dom [OF s1(2)] by (auto simp: same s0_def)
qed

lemma remove_rel_hit:
  assumes rel: "sl_inv s (xs @ m # zs)" "finite (dom (cells s))"
    and lt: "\<forall>a \<in> set xs. key_at s a < k" and eq: "key_at s m = k" and gt: "\<forall>a \<in> set zs. k < key_at s a"
  shows "\<exists>s'. skiplist_remove cmp s k = Some (s', [item_at s m], if zs = [] then None else Some (hd zs))
    \<and> sl_inv s' (xs @ zs) \<and> finite (dom (cells s')) \<and> map (item_at s') (xs @ zs) = map (item_at s) (xs @ zs)"
proof -
  note inv = rel(1) [unfolded sl_inv_def]
  have dist: "distinct (xs @ m # zs)"
    using inv by (simp add: sl_shape_def)
  obtain st where st: "skip_remove_stack cmp s k SKIPLIST_MAXDEPTH (Entry 7) (replicate SKIPLIST_MAXDEPTH None) None = Some (Some m, st)"
    "filled s xs SKIPLIST_MAXDEPTH (replicate SKIPLIST_MAXDEPTH None) st"
    using remove_stack_hit [of s xs m zs k "[]" xs "Entry 7" SKIPLIST_MAXDEPTH "replicate SKIPLIST_MAXDEPTH None" None]
      inv lt eq gt pos_start [of s] by auto
  obtain c where c: "cells s m = Some c" "dep s m = it_depth c" "it_depth c \<le> SKIPLIST_MAXDEPTH"
    by (rule sl_shape_cell [of s "xs @ m # zs" m]) (use inv in auto)
  obtain s1 where s1: "skiplist_unlink s m st (dep s m) = Some s1" "sl_frame s s1"
    "\<And>q. slot_read s1 q = (case q of Entry i \<Rightarrow> if i < dep s m \<and> q = pred_slot s i xs then Some (first_at s i zs) else slot_read s q
        | Next a i \<Rightarrow> if i < dep s m \<and> q = pred_slot s i xs then Some (first_at s i zs) else slot_read s q)"
    using skiplist_unlink_reads [of s xs m zs st "dep s m"] inv dist c filled_full [OF st(2)] by auto
  define s' where "s' = s1\<lparr>cells := (cells s1)(m := None), sl_size := sl_size s1 - 1\<rparr>"
  have rd: "slot_read s' q = slot_read s1 q" if "\<forall>i. q \<noteq> Next m i" for q
    using that by (cases q) (auto simp: s'_def slot_read_def)
  have old: "slot_read s' (pred_slot s i as) =
      (if i < dep s m \<and> pred_slot s i as = pred_slot s i xs then Some (first_at s i zs) else slot_read s (pred_slot s i as))"
    if "m \<notin> set as" for as i
  proof -
    have "\<forall>j. pred_slot s i as \<noteq> Next m j"
      using pred_slot_in [of s i as m] that by auto
    then show ?thesis
      unfolding rd [OF \<open>\<forall>j. pred_slot s i as \<noteq> Next m j\<close>] s1(3)
      by (cases "pred_slot s i as") (auto dest: pred_slot_in simp: pred_slot_def split: option.splits)
  qed
  have dep: "dep s' a = dep s a" if "a \<noteq> m" for a
    using that sl_frame_dep [OF s1(2)] by (simp add: s'_def dep_def fun_eq_iff)
  have lk: "sl_linked s' (xs @ zs)"
    using inv dist dep old by (intro linked_remove [of s xs m zs s']) auto
  have "slot_read s (pred_slot s 0 xs) = Some (first_at s 0 (m # zs))"
    using inv by (intro sl_linked_read) simp_all
  have ret: "slot_read s' (pred_slot s 0 xs) = Some (if zs = [] then None else Some (hd zs))"
  proof -
    have "0 < dep s m" and "first_at s 0 zs = (if zs = [] then None else Some (hd zs))"
      using first_at_0 [of s "xs @ m # zs" zs, OF _ set_mp_suffix] first_at_0 [of s "xs @ m # zs" "[m]"] inv
      by (auto simp: first_at_Cons split: if_splits)
    then show ?thesis
      using old [of xs 0] dist by simp
  qed
  have run: "skiplist_remove cmp s k = Some (s', [item_at s m], if zs = [] then None else Some (hd zs))"
    using st(1) s1(1) c ret filled_full [OF st(2), of 0]
    by (simp add: skiplist_remove_def s'_def item_at_def Let_def)
  have at: "cells s' a = cells s1 a" if "a \<noteq> m" for a
    using that by (simp add: s'_def)
  have m: "m \<notin> set (xs @ zs)"
    using dist by simp
  have "sl_shape s1 (xs @ m # zs)"
    using inv s1(2) by (blast intro: sl_shape_frame)
  then have sh: "sl_shape s' (xs @ zs)"
    using m at by (auto simp: sl_shape_def s'_def)
  have "map (item_at s1) (xs @ zs) = map (item_at s) (xs @ zs) \<and> map (key_at s1) (xs @ zs) = map (key_at s) (xs @ zs)"
    using inv sl_shape_dom [of s "xs @ m # zs"] by (intro sl_frame_items [OF s1(2)]) auto
  moreover have "map (item_at s') (xs @ zs) = map (item_at s1) (xs @ zs)" "map (key_at s') (xs @ zs) = map (key_at s1) (xs @ zs)"
    using m by (auto simp: item_at_def key_at_def s'_def)
  ultimately have it: "map (item_at s') (xs @ zs) = map (item_at s) (xs @ zs)" "map (key_at s') (xs @ zs) = map (key_at s) (xs @ zs)"
    by simp_all
  have "sorted_wrt (<) (map (key_at s) (xs @ zs))"
    using inv by (simp add: sorted_wrt_append)
  moreover have "sl_size s' = length (xs @ zs)"
    using inv s1(2) by (simp add: s'_def sl_frame_def)
  ultimately have "sl_inv s' (xs @ zs)"
    using lk sh it(2) by (simp only: sl_inv_def)
  then show ?thesis
    using run it rel(2) sl_frame_dom [OF s1(2)] by (simp add: s'_def)
qed

subsection \<open>The operations refine the association list\<close>

lemma skiplist_insert_rel:
  assumes "sl_rel s kvs" and "u \<notin> dom (cells s)"
  shows "\<exists>s'. skiplist_insert cmp rand u s k v = Some (s', if k \<in> fst ` set kvs then [(k, v)] else [])
    \<and> sl_rel s' (sl_ins k v kvs)"
proof -
  obtain as where as: "sl_inv s as" "kvs = map (item_at s) as" and fin: "finite (dom (cells s))"
    using assms(1) by (auto simp: sl_rel_def)
  obtain xs ys where sp: "as = xs @ ys" "\<forall>a \<in> set xs. key_at s a < k" "\<forall>a \<in> set ys. k \<le> key_at s a"
      "\<forall>a \<in> set (tl ys). k < key_at s a"
    using key_split [of s as k] as(1) unfolding sl_inv_def by blast
  have lt: "\<forall>kv \<in> set (map (item_at s) xs). fst kv < k"
    using sp by (simp add: fst_item_at)
  show ?thesis
  proof (cases "ys \<noteq> [] \<and> key_at s (hd ys) = k")
    case True
    then obtain m zs where ys: "ys = m # zs" "key_at s m = k" by (cases ys) auto
    obtain st where "skiplist_insert_stack cmp s k SKIPLIST_MAXDEPTH (Entry 7) (replicate SKIPLIST_MAXDEPTH None) = Some (-1, st)"
      using insert_stack_hit [of s xs m zs k "[]" xs "Entry 7" SKIPLIST_MAXDEPTH "replicate SKIPLIST_MAXDEPTH None"]
        as(1) sp ys pos_start [of s] by (auto simp: sl_inv_def)
    then have "skiplist_insert cmp rand u s k v = Some (s, [(k, v)])"
      by (simp add: skiplist_insert_def)
    moreover have "sl_ins k v kvs = kvs"
      using sl_split_dup [OF lt, of "map (item_at s) ys" v] ys as(2) sp(1) by (simp add: fst_item_at)
    moreover have "k \<in> fst ` set kvs"
      using ys as(2) sp(1) by (auto simp: fst_item_at [symmetric] image_iff)
    ultimately show ?thesis using assms(1) by simp
  next
    case False
    then have gt: "\<forall>a \<in> set ys. k < key_at s a"
      using sp(3,4) by (cases ys) (auto simp: order.strict_iff_order)
    have "sl_sorted (map (item_at s) xs @ map (item_at s) ys)"
      using as(1) sp(1) by (simp add: sl_inv_def sl_sorted_def o_def fst_item_at flip: map_append)
    then have "sl_ins k v kvs = map (item_at s) xs @ (k, v) # map (item_at s) ys"
      using sl_split_ins [OF _ lt, of "map (item_at s) ys" v] gt as(2) sp(1)
      by (cases ys) (simp_all add: fst_item_at)
    moreover have "k \<notin> fst ` set kvs"
      using as(2) sp(1,2) gt by (auto simp: item_at_def key_at_def)
    ultimately show ?thesis
      using insert_rel_new [OF as(1) [unfolded sp(1)] fin assms(2) sp(2) gt, of rand v]
      unfolding sl_rel_def by fastforce
  qed
qed

lemma skiplist_remove_rel:
  assumes "sl_rel s kvs"
  shows "\<exists>s' ret. skiplist_remove cmp s k = Some (s', filter (\<lambda>kv. fst kv = k) kvs, ret)
    \<and> sl_rel s' (sl_del k kvs)"
proof -
  obtain as where as: "sl_inv s as" "kvs = map (item_at s) as" and fin: "finite (dom (cells s))"
    using assms by (auto simp: sl_rel_def)
  obtain xs ys where sp: "as = xs @ ys" "\<forall>a \<in> set xs. key_at s a < k" "\<forall>a \<in> set ys. k \<le> key_at s a"
      "\<forall>a \<in> set (tl ys). k < key_at s a"
    using key_split [of s as k] as(1) unfolding sl_inv_def by blast
  have none: "filter (\<lambda>kv. fst kv = k) (map (item_at s) bs) = []" "filter (\<lambda>kv. fst kv \<noteq> k) (map (item_at s) bs) = map (item_at s) bs"
    if "\<forall>a \<in> set bs. key_at s a \<noteq> k" for bs
    using that by (simp_all add: fst_item_at filter_map o_def filter_empty_conv)
  have xn: "\<forall>a \<in> set xs. key_at s a \<noteq> k"
    using sp(2) by auto
  show ?thesis
  proof (cases "ys \<noteq> [] \<and> key_at s (hd ys) = k")
    case True
    then obtain m zs where ys: "ys = m # zs" "key_at s m = k" by (cases ys) auto
    have zn: "\<forall>a \<in> set zs. k < key_at s a" "\<forall>a \<in> set zs. key_at s a \<noteq> k"
      using sp(4) ys by auto
    obtain s' where s': "skiplist_remove cmp s k = Some (s', [item_at s m], if zs = [] then None else Some (hd zs))"
      "sl_inv s' (xs @ zs)" "finite (dom (cells s'))" "map (item_at s') (xs @ zs) = map (item_at s) (xs @ zs)"
      using remove_rel_hit [of s xs m zs k] as(1) fin sp(1,2) ys zn by blast
    have "filter (\<lambda>kv. fst kv = k) kvs = [item_at s m]" and "sl_del k kvs = map (item_at s) (xs @ zs)"
      unfolding sl_del_def as(2) sp(1) ys using none [OF xn] none [OF zn(2)] ys(2) by (simp_all add: fst_item_at)
    then show ?thesis
      unfolding sl_rel_def using s' by metis
  next
    case False
    then have gt: "\<forall>a \<in> set ys. k < key_at s a"
      using sp(3,4) by (cases ys) (auto simp: order.strict_iff_order)
    then have yn: "\<forall>a \<in> set ys. key_at s a \<noteq> k" by auto
    obtain st where "skip_remove_stack cmp s k SKIPLIST_MAXDEPTH (Entry 7) (replicate SKIPLIST_MAXDEPTH None) None = Some (None, st)"
      using remove_stack_miss [of s xs ys k "[]" xs "Entry 7" SKIPLIST_MAXDEPTH "replicate SKIPLIST_MAXDEPTH None" None]
        as(1) sp gt pos_start [of s] by (auto simp: sl_inv_def)
    then have "skiplist_remove cmp s k = Some (s, [], None)"
      by (simp add: skiplist_remove_def)
    moreover have "filter (\<lambda>kv. fst kv = k) kvs = []" and "sl_del k kvs = kvs"
      unfolding sl_del_def as(2) sp(1) using none [OF xn] none [OF yn] by simp_all
    ultimately show ?thesis using assms by auto
  qed
qed

lemma skiplist_search_rel:
  assumes "sl_rel s kvs"
  shows "\<exists>r. skiplist_search cmp s k = Some r \<and> map_option (item_at s) r = map_option (\<lambda>v. (k, v)) (map_of kvs k)"
proof -
  obtain as where as: "sl_inv s as" "kvs = map (item_at s) as"
    using assms by (auto simp: sl_rel_def)
  obtain xs ys where sp: "as = xs @ ys" "\<forall>a \<in> set xs. key_at s a < k" "\<forall>a \<in> set ys. k \<le> key_at s a"
      "\<forall>a \<in> set (tl ys). k < key_at s a"
    using key_split [of s as k] as(1) unfolding sl_inv_def by blast
  have none: "map_of (map (item_at s) bs) k = None" if "\<forall>a \<in> set bs. key_at s a \<noteq> k" for bs
    using that by (auto simp: map_of_eq_None_iff item_at_def key_at_def)
  have xn: "map_of (map (item_at s) xs) k = None"
    using sp(2) by (intro none) auto
  have r: "skiplist_search cmp s k = Some (if ys \<noteq> [] \<and> key_at s (hd ys) = k then Some (hd ys) else None)"
    unfolding skiplist_search_def using search_iter_eq [of s xs ys k "[]" xs "Entry 7" SKIPLIST_MAXDEPTH] as(1) sp pos_start [of s]
    by (simp add: sl_inv_def)
  show ?thesis
  proof (cases "ys \<noteq> [] \<and> key_at s (hd ys) = k")
    case True
    then obtain m zs where ys: "ys = m # zs" "key_at s m = k" by (cases ys) auto
    then show ?thesis
      using r xn as(2) sp(1) by (auto simp: map_add_def item_at_def key_at_def)
  next
    case False
    then have "\<forall>a \<in> set ys. key_at s a \<noteq> k"
      using sp(3,4) by (cases ys) auto
    then show ?thesis
      using r False xn none as(2) sp(1) by (auto simp: map_add_def)
  qed
qed

end

subsection \<open>Clearing and creating\<close>

lemma clear_loop_eq:
  assumes "sl_shape s (xs @ ys)" and "sl_linked s (xs @ ys)"
    and "\<And>a. a \<in> set ys \<Longrightarrow> h a = cells s a"
  shows "skiplist_clear_loop h (if ys = [] then None else Some (hd ys)) freed
    = Some (h |` (- set ys), freed @ map (item_at s) ys)"
  using assms
proof (induction ys arbitrary: xs h freed)
  case Nil
  then show ?case by (simp add: skiplist_clear_loop.simps restrict_map_def)
next
  case (Cons a ys)
  obtain c where c: "cells s a = Some c" "dep s a = it_depth c" "1 \<le> it_depth c" "length (it_next c) = it_depth c"
    by (rule sl_shape_cell [OF Cons.prems(1), of a]) auto
  have "slot_read s (pred_slot s 0 (xs @ [a])) = Some (first_at s 0 ys)"
    using Cons.prems by (intro sl_linked_read) simp_all
  then have "slot_read s (Next a 0) = Some (first_at s 0 ys)"
    using c by (simp add: pred_slot_snoc)
  moreover have "first_at s 0 ys = (if ys = [] then None else Some (hd ys))"
    using first_at_0 [OF Cons.prems(1) set_mp_suffix] by simp
  ultimately have nx: "it_next c ! 0 = (if ys = [] then None else Some (hd ys))" "it_next c \<noteq> []"
    using c by (auto simp: slot_read_def split: if_splits)
  have "a \<notin> set ys"
    using Cons.prems by (simp add: sl_shape_def)
  then have "skiplist_clear_loop (h(a := None)) (it_next c ! 0) (freed @ [item_at s a])
      = Some ((h(a := None)) |` (- set ys), (freed @ [item_at s a]) @ map (item_at s) ys)"
    unfolding nx(1) using Cons.prems by (intro Cons.IH [of "xs @ [a]"]) auto
  moreover have "(h(a := None)) |` (- set ys) = h |` (- set (a # ys))"
    by (auto simp: restrict_map_def)
  moreover have "h a = Some c"
    using Cons.prems(3) [of a] c by simp
  ultimately show ?case
    using nx(2) c by (simp add: skiplist_clear_loop.simps [of h] item_at_def)
qed

lemma sl_rel_empty: "finite (dom h) \<Longrightarrow> sl_rel \<lparr>sl_size = 0, entries = replicate SKIPLIST_MAXDEPTH None, cells = h\<rparr> []"
  by (auto simp: sl_rel_def sl_inv_def sl_shape_def sl_linked_def slot_read_def intro!: exI [of _ "[]"])

lemma skiplist_create_rel: "sl_rel skiplist_create []"
  by (simp add: skiplist_create_def sl_rel_empty)

lemma skiplist_clear_rel:
  assumes "sl_rel s kvs"
  shows "\<exists>s'. skiplist_clear s = Some (s', kvs) \<and> sl_rel s' []"
proof -
  obtain as where as: "sl_inv s as" "kvs = map (item_at s) as" and fin: "finite (dom (cells s))"
    using assms by (auto simp: sl_rel_def)
  have sh: "sl_shape s ([] @ as)" and lk: "sl_linked s ([] @ as)"
    using as(1) by (simp_all add: sl_inv_def)
  have "slot_read s (Entry 0) = Some (if as = [] then None else Some (hd as))"
    using sl_linked_read [OF lk, of 0] first_at_0 [OF sh, of as] by simp
  then have "skiplist_clear s = Some (\<lparr>sl_size = 0, entries = replicate SKIPLIST_MAXDEPTH None,
      cells = cells s |` (- set as)\<rparr>, kvs)"
    using clear_loop_eq [OF sh lk, of "cells s" "[]"] by (simp add: skiplist_clear_def as(2))
  moreover have "finite (dom (cells s |` (- set as)))"
    using fin by (auto intro: finite_subset)
  ultimately show ?thesis
    using sl_rel_empty by blast
qed

interpretation idu64: key_order idu64_compare
  by unfold_locales (auto simp: idu64_compare_def)

interpretation idu32: key_order idu32_compare
  by unfold_locales (auto simp: idu32_compare_def)

interpretation idu16: key_order idu16_compare
  by unfold_locales (auto simp: idu16_compare_def)

interpretation idu8: key_order idu8_compare
  by unfold_locales (auto simp: idu8_compare_def)

interpretation id64: key_order id64_compare
  by unfold_locales (auto simp: id64_compare_def)

interpretation id32: key_order id32_compare
  by unfold_locales (auto simp: id32_compare_def)

interpretation id16: key_order id16_compare
  by unfold_locales (auto simp: id16_compare_def)

interpretation id8: key_order id8_compare
  by unfold_locales (auto simp: id8_compare_def)

subsection \<open>Runs of operations\<close>

datatype ('k, 'v) sl_op = Insert 'k 'v | Remove 'k | Search 'k | Clear

datatype ('k, 'v) sl_out = Freed "('k \<times> 'v) list" | Found "('k \<times> 'v) option"

fun sl_run :: "('k \<Rightarrow> 'k \<Rightarrow> int) \<Rightarrow> (nat \<Rightarrow> nat \<Rightarrow> int) \<Rightarrow> ((loc \<rightharpoonup> ('k, 'v) skiplist_iter) \<Rightarrow> loc)
    \<Rightarrow> ('k, 'v) skiplist \<Rightarrow> ('k, 'v) sl_op list \<Rightarrow> (('k, 'v) skiplist \<times> ('k, 'v) sl_out list) option" where
  "sl_run cmp rand malloc s [] = Some (s, [])"
| "sl_run cmp rand malloc s (op # ops) = do {
     (s, out) \<leftarrow> (case op of
         Insert k v \<Rightarrow> do { (s, fr) \<leftarrow> skiplist_insert cmp (rand (length ops)) (malloc (cells s)) s k v; Some (s, Freed fr) }
       | Remove k \<Rightarrow> do { (s, fr, _) \<leftarrow> skiplist_remove cmp s k; Some (s, Freed fr) }
       | Search k \<Rightarrow> do { r \<leftarrow> skiplist_search cmp s k; Some (s, Found (map_option (item_at s) r)) }
       | Clear \<Rightarrow> do { (s, fr) \<leftarrow> skiplist_clear s; Some (s, Freed fr) });
     (s, outs) \<leftarrow> sl_run cmp rand malloc s ops;
     Some (s, out # outs)
   }"

fun sl_spec :: "('k::linorder \<times> 'v) list \<Rightarrow> ('k, 'v) sl_op list \<Rightarrow> ('k \<times> 'v) list \<times> ('k, 'v) sl_out list" where
  "sl_spec m [] = (m, [])"
| "sl_spec m (Insert k v # ops) = (case sl_spec (sl_ins k v m) ops of (m', outs) \<Rightarrow>
     (m', Freed (if k \<in> fst ` set m then [(k, v)] else []) # outs))"
| "sl_spec m (Remove k # ops) = (case sl_spec (sl_del k m) ops of (m', outs) \<Rightarrow>
     (m', Freed (filter (\<lambda>kv. fst kv = k) m) # outs))"
| "sl_spec m (Search k # ops) = (case sl_spec m ops of (m', outs) \<Rightarrow>
     (m', Found (map_option (\<lambda>v. (k, v)) (map_of m k)) # outs))"
| "sl_spec m (Clear # ops) = (case sl_spec [] ops of (m', outs) \<Rightarrow> (m', Freed m # outs))"

context key_order begin

lemma sl_run_refines:
  assumes malloc: "\<And>h. finite (dom h) \<Longrightarrow> malloc h \<notin> dom h"
  shows "sl_rel s m \<Longrightarrow> \<exists>s'. sl_run cmp rand malloc s ops = Some (s', snd (sl_spec m ops))
    \<and> sl_rel s' (fst (sl_spec m ops))"
proof (induction ops arbitrary: s m)
  case Nil
  then show ?case by simp
next
  case (Cons op ops)
  have fr: "malloc (cells s) \<notin> dom (cells s)"
    using Cons.prems malloc by (simp add: sl_rel_def)
  show ?case
  proof (cases op)
    case (Insert k v)
    obtain s1 where s1: "skiplist_insert cmp (rand (length ops)) (malloc (cells s)) s k v
        = Some (s1, if k \<in> fst ` set m then [(k, v)] else [])" "sl_rel s1 (sl_ins k v m)"
      using skiplist_insert_rel [OF Cons.prems fr] by blast
    then show ?thesis
      using Cons.IH [OF s1(2)] by (auto simp: Insert split: prod.splits)
  next
    case (Remove k)
    obtain s1 ret where s1: "skiplist_remove cmp s k = Some (s1, filter (\<lambda>kv. fst kv = k) m, ret)" "sl_rel s1 (sl_del k m)"
      using skiplist_remove_rel [OF Cons.prems] by blast
    then show ?thesis
      using Cons.IH [OF s1(2)] by (auto simp: Remove split: prod.splits)
  next
    case (Search k)
    obtain r where "skiplist_search cmp s k = Some r" "map_option (item_at s) r = map_option (\<lambda>v. (k, v)) (map_of m k)"
      using skiplist_search_rel [OF Cons.prems] by blast
    then show ?thesis
      using Cons.IH [OF Cons.prems] by (auto simp: Search split: prod.splits)
  next
    case Clear
    obtain s1 where s1: "skiplist_clear s = Some (s1, m)" "sl_rel s1 []"
      using skiplist_clear_rel [OF Cons.prems] by blast
    then show ?thesis
      using Cons.IH [OF s1(2)] by (auto simp: Clear split: prod.splits)
  qed
qed

end

lemma sl_spec_sorted: "sl_sorted m \<Longrightarrow> sl_sorted (fst (sl_spec m ops))"
  by (induction m ops rule: sl_spec.induct) (auto simp: sl_sorted_ins sl_sorted_del split: prod.splits)

lemma Max_fresh_loc: "finite A \<Longrightarrow> Suc (Max (insert 0 A)) \<notin> A"
  by (metis Max_ge finite_insert insertI2 not_less_eq_eq order_refl)

lemma sl_rel_size: "sl_rel s m \<Longrightarrow> skiplist_size s = length m"
  by (auto simp: sl_rel_def sl_inv_def skiplist_size_def)

subsection \<open>Properties\<close>

text \<open>
  C33: the skip list is an ordered map. With the comparator of 64-bit keys, any random numbers and
  any allocator that returns unused addresses, every sequence of inserts, removes, searches and
  clears ends, dereferences nothing outside the live cells, and gives call by call what the
  association list sorted by key gives: an insert of a key that is present hands the new pair to
  the free callback and keeps the old one, a remove hands over the pair it removes, a search finds
  exactly the pair stored; the size is the number of keys and the contents stay sorted.
\<close>

theorem skiplist_is_map:
  assumes malloc: "\<And>h. finite (dom h) \<Longrightarrow> malloc h \<notin> dom h"
  shows "\<exists>s'. sl_run id64_compare rand malloc skiplist_create ops = Some (s', snd (sl_spec [] ops))
    \<and> skiplist_size s' = length (fst (sl_spec [] ops)) \<and> sl_sorted (fst (sl_spec [] ops))"
proof -
  obtain s' where "sl_run id64_compare rand malloc skiplist_create ops = Some (s', snd (sl_spec [] ops))"
    and "sl_rel s' (fst (sl_spec [] ops))"
    using id64.sl_run_refines [OF malloc skiplist_create_rel] by blast
  then show ?thesis
    using sl_rel_size sl_spec_sorted [of "[]" ops] by auto
qed

theorem skiplist_is_map_witness:
  "\<exists>s'. sl_run id64_compare (\<lambda>_ _. 0) (\<lambda>h. Suc (Max (insert 0 (dom h)))) skiplist_create
        [Insert (5 :: int) ''a'', Insert 3 ''b'', Insert 5 ''c'', Search 3, Remove 5, Clear]
      = Some (s', snd (sl_spec [] [Insert (5 :: int) ''a'', Insert 3 ''b'', Insert 5 ''c'', Search 3, Remove 5, Clear]))
    \<and> skiplist_size s' = length (fst (sl_spec [] [Insert (5 :: int) ''a'', Insert 3 ''b'', Insert 5 ''c'', Search 3, Remove 5, Clear]))
    \<and> sl_sorted (fst (sl_spec [] [Insert (5 :: int) ''a'', Insert 3 ''b'', Insert 5 ''c'', Search 3, Remove 5, Clear]))"
  by (rule skiplist_is_map) (rule Max_fresh_loc)

end
