(* ===== verification/Sender_History.thy ===== *)
theory Sender_History
  imports Estimator_Common Unwrapper Skiplist
begin

text \<open>
  \<^verbatim>\<open>estimator/sender_history.c\<close>: the packets sent and not yet acknowledged, keyed by their
  unwrapped sequence number. The skip list is the sorted association list that
  \<^verbatim>\<open>Skiplist\<close> proves it to be; \<open>now_ts\<close> is what \<open>GET_SYS_MS\<close> returns. \<open>None\<close> is the unwrapper's
  failed assertion.

  The lemmas: the invariant (16-bit unwrapper, last value not negative, keys sorted) is kept, the
  eviction removes exactly the leading run of expired packets, a packet added is found once.
\<close>

record sender_history =
  limited_ms :: u32
  h_wrapper :: cf_unwrapper
  last_ack_seq_num :: int
  h_l :: "(int \<times> packet_feedback) list"

definition sender_history_create :: "u32 \<Rightarrow> sender_history" where
  "sender_history_create ms = \<lparr>limited_ms = ms, h_wrapper = init_unwrapper16, last_ack_seq_num = 0, h_l = []\<rparr>"

text \<open>The packets that the skip list's free callback gets.\<close>

definition sender_history_destroy :: "sender_history \<Rightarrow> packet_feedback list" where
  "sender_history_destroy hist = map snd (h_l hist)"

function history_evict :: "u32 \<Rightarrow> int \<Rightarrow> (int \<times> packet_feedback) list \<Rightarrow> (int \<times> packet_feedback) list" where
  "history_evict ms now_ts [] = []"
| "history_evict ms now_ts ((k, p) # l) =
     (if create_ts p + uint ms < now_ts then history_evict ms now_ts (sl_del k ((k, p) # l)) else (k, p) # l)"
  by pat_completeness auto
termination
  by (relation "measure (\<lambda>(_, _, l). length l)") (auto simp: sl_del_def le_imp_less_Suc)

definition sender_history_add :: "int \<Rightarrow> sender_history \<Rightarrow> packet_feedback \<Rightarrow> sender_history option" where
  "sender_history_add now_ts hist packet =
     (let l = history_evict (limited_ms hist) now_ts (h_l hist) in
      case wrap_uint16 (h_wrapper hist) (sequence_number packet) of None \<Rightarrow> None
      | Some (w, key) \<Rightarrow> Some (hist\<lparr>h_wrapper := w, h_l := sl_ins key packet l\<rparr>))"

text \<open>The second result is \<open>None\<close> when the source returns -1, else the packet it copies out.\<close>

definition sender_history_get :: "sender_history \<Rightarrow> u16 \<Rightarrow> (sender_history \<times> packet_feedback option) option" where
  "sender_history_get hist seq =
     (case wrap_uint16 (h_wrapper hist) seq of None \<Rightarrow> None
      | Some (w, key) \<Rightarrow>
         (let hist = hist\<lparr>h_wrapper := w, last_ack_seq_num := su_max key (last_ack_seq_num hist)\<rparr>
          in case map_of (h_l hist) key of None \<Rightarrow> Some (hist, None)
             | Some p \<Rightarrow> Some (hist\<lparr>h_l := sl_del key (h_l hist)\<rparr>, Some p)))"

definition sender_history_outstanding_bytes :: "sender_history \<Rightarrow> nat" where
  "sender_history_outstanding_bytes hist =
     foldl (\<lambda>ret (k, p). if last_ack_seq_num hist < k then ret + payload_size p else ret) 0 (h_l hist)"

subsection \<open>Invariant\<close>

definition keys_nonneg :: "(int \<times> 'v) list \<Rightarrow> bool" where
  "keys_nonneg l \<longleftrightarrow> (\<forall>k \<in> fst ` set l. 0 \<le> k)"

lemma keys_nonneg_simps [simp]:
  "keys_nonneg []"
  "keys_nonneg (sl_ins k v l) \<longleftrightarrow> 0 \<le> k \<and> keys_nonneg l"
  "keys_nonneg l \<Longrightarrow> keys_nonneg (sl_del k l)"
  "keys_nonneg l \<Longrightarrow> keys_nonneg (dropWhile P l)"
  by (auto simp: keys_nonneg_def set_sl_ins sl_del_def dest: set_dropWhileD)

definition history_wf :: "sender_history \<Rightarrow> bool" where
  "history_wf hist \<longleftrightarrow> uw_size (h_wrapper hist) = 2 \<and> 0 \<le> last_value (h_wrapper hist)
     \<and> sl_sorted (h_l hist) \<and> 0 \<le> last_ack_seq_num hist \<and> keys_nonneg (h_l hist)"

lemma history_wf_uw: "history_wf hist \<Longrightarrow> uw16.wf (h_wrapper hist)"
  by (simp add: history_wf_def uw16.wf_def)

lemma sender_history_create_wf: "history_wf (sender_history_create ms)"
  by (simp add: history_wf_def sender_history_create_def init_unwrapper16_def)

lemma sl_del_hd: "sl_sorted ((k, p) # l) \<Longrightarrow> sl_del k ((k, p) # l) = l"
  by (auto simp: sl_del_def sl_sorted_Cons filter_id_conv)

lemma history_evict_dropWhile:
  "sl_sorted l \<Longrightarrow> history_evict ms now_ts l = dropWhile (\<lambda>(k, p). create_ts p + uint ms < now_ts) l"
proof (induction ms now_ts l rule: history_evict.induct)
  case (2 ms now_ts k p l)
  have "sl_sorted l"
    using 2(2) by (simp add: sl_sorted_Cons)
  then show ?case
    using 2 by (simp add: sl_del_hd)
qed simp

lemma sl_sorted_dropWhile: "sl_sorted l \<Longrightarrow> sl_sorted (dropWhile P l)"
  by (induction l) (auto simp: sl_sorted_Cons)

lemma sender_history_add_wf:
  assumes "history_wf hist"
  shows "\<exists>hist' key. sender_history_add now_ts hist packet = Some hist' \<and> history_wf hist'
    \<and> wrap_uint16 (h_wrapper hist) (sequence_number packet) = Some (h_wrapper hist', key) \<and> last_value (h_wrapper hist') = key
    \<and> h_l hist' = sl_ins key packet (dropWhile (\<lambda>(k, p). create_ts p + uint (limited_ms hist) < now_ts) (h_l hist))"
proof -
  have so: "sl_sorted (h_l hist)"
    using assms by (simp add: history_wf_def)
  obtain w key where w: "wrap_uint16 (h_wrapper hist) (sequence_number packet) = Some (w, key)"
    using uw16.wrap_total [OF history_wf_uw [OF assms]] by blast
  have "uw16.wf w \<and> 0 \<le> key \<and> last_value w = key"
    using uw16.wrap_wf [OF history_wf_uw [OF assms] w] by auto
  then show ?thesis
    using assms so w
    by (auto simp: sender_history_add_def history_evict_dropWhile history_wf_def uw16.wf_def Let_def
        intro!: sl_sorted_ins sl_sorted_dropWhile)
qed

lemma sender_history_get_wf:
  assumes "history_wf hist"
  shows "\<exists>hist' r key w. sender_history_get hist seq = Some (hist', r) \<and> history_wf hist'
    \<and> wrap_uint16 (h_wrapper hist) seq = Some (w, key) \<and> h_wrapper hist' = w
    \<and> r = map_of (h_l hist) key \<and> h_l hist' = sl_del key (h_l hist)
    \<and> last_ack_seq_num hist' = max key (last_ack_seq_num hist) \<and> limited_ms hist' = limited_ms hist"
proof -
  obtain w key where w: "wrap_uint16 (h_wrapper hist) seq = Some (w, key)"
    using uw16.wrap_total [OF history_wf_uw [OF assms]] by blast
  have wf: "uw16.wf w" "0 \<le> key"
    using uw16.wrap_wf [OF history_wf_uw [OF assms] w] by simp_all
  have none: "sl_del key (h_l hist) = h_l hist" if "map_of (h_l hist) key = None"
    using that by (auto simp: sl_del_def filter_id_conv map_of_eq_None_iff)
  show ?thesis
    using assms w wf none sl_sorted_del [of "h_l hist" key]
    by (cases "map_of (h_l hist) key")
      (auto simp: sender_history_get_def history_wf_def uw16.wf_def Let_def)
qed

lemma outstanding_sum:
  "sender_history_outstanding_bytes hist =
     sum_list (map (payload_size \<circ> snd) (filter (\<lambda>(k, _). last_ack_seq_num hist < k) (h_l hist)))"
proof -
  have "foldl (\<lambda>ret (k, p). if a < k then ret + payload_size p else ret) n l
      = n + sum_list (map (payload_size \<circ> snd) (filter (\<lambda>(k, _). a < k) l))"
    for a :: int and l :: "(int \<times> packet_feedback) list" and n
    by (induction l arbitrary: n) (auto split: prod.splits)
  then show ?thesis
    by (simp add: sender_history_outstanding_bytes_def)
qed

subsection \<open>Properties\<close>

text \<open>
  The send history hands a packet back exactly once. From any well-formed history, a packet
  with the true sequence number \<open>t\<close> (less than half the range from the last number seen, not yet
  in the history) is added; an acknowledgement of its 16 bits then returns this very packet and
  drops it, a second one finds nothing, and the packets that the addition did not evict as expired
  are still there.
\<close>

lemma history_get_once:
  assumes "history_wf hist" and "0 \<le> t" and "\<bar>t - last_value (h_wrapper hist)\<bar> < 32768"
    and "sequence_number packet = word_of_int t" and "t \<notin> fst ` set (h_l hist)"
  shows "\<exists>h1 h2 h3. sender_history_add now_ts hist packet = Some h1
    \<and> sender_history_get h1 (word_of_int t) = Some (h2, Some packet)
    \<and> sender_history_get h2 (word_of_int t) = Some (h3, None)
    \<and> h_l h3 = dropWhile (\<lambda>(k, p). create_ts p + uint (limited_ms hist) < now_ts) (h_l hist)
    \<and> t \<le> last_ack_seq_num h3"
proof -
  define kept where "kept = dropWhile (\<lambda>(k, p). create_ts p + uint (limited_ms hist) < now_ts) (h_l hist)"
  have kept: "sl_sorted kept" "t \<notin> fst ` set kept"
    using assms(1,5) sl_sorted_dropWhile by (auto simp: kept_def history_wf_def dest: set_dropWhileD)
  have wr: "wrap_uint16 (h_wrapper hist) (word_of_int t) = Some ((h_wrapper hist)\<lparr>last_value := t\<rparr>, t)"
    by (rule uw16.wrap_exact [OF history_wf_uw [OF assms(1)] assms(2,3)])
  obtain h1 where h1: "sender_history_add now_ts hist packet = Some h1" "history_wf h1"
      "last_value (h_wrapper h1) = t" "h_l h1 = sl_ins t packet kept"
    using sender_history_add_wf [OF assms(1), of now_ts packet] wr assms(4) by (auto simp: kept_def)
  have wr1: "wrap_uint16 (h_wrapper h) (word_of_int t) = Some ((h_wrapper h)\<lparr>last_value := t\<rparr>, t)"
    if "history_wf h" "last_value (h_wrapper h) = t" for h
    using that assms(2) by (intro uw16.wrap_exact history_wf_uw) auto
  have mo: "map_of (sl_ins t packet kept) t = Some packet" "sl_del t (sl_ins t packet kept) = kept"
  proof -
    show "map_of (sl_ins t packet kept) t = Some packet"
      using kept by (auto simp: sl_ins_map_of dom_map_of_conv_image_fst)
    have "t \<notin> fst ` set l \<Longrightarrow> sl_del t (sl_ins t packet l) = l" for l
      by (induction t packet l rule: sl_ins.induct) (auto simp: sl_del_def filter_id_conv)
    then show "sl_del t (sl_ins t packet kept) = kept"
      using kept by blast
  qed
  obtain h2 where h2: "sender_history_get h1 (word_of_int t) = Some (h2, Some packet)" "history_wf h2"
      "last_value (h_wrapper h2) = t" "h_l h2 = kept"
    using sender_history_get_wf [OF h1(2), of "word_of_int t"] wr1 [OF h1(2,3)] mo h1(4) by auto
  obtain h3 where h3: "sender_history_get h2 (word_of_int t) = Some (h3, map_of kept t)" "h_l h3 = sl_del t kept"
      "t \<le> last_ack_seq_num h3"
    using sender_history_get_wf [OF h2(2), of "word_of_int t"] wr1 [OF h2(2,3)] h2(4) by auto
  have "map_of kept t = None" "sl_del t kept = kept"
    using kept by (auto simp: map_of_eq_None_iff sl_del_def filter_id_conv)
  then show ?thesis
    using h1(1) h2(1) h3 by (auto simp: kept_def)
qed

lemma history_get_once_witness:
  "\<exists>h1 h2 h3. sender_history_add 1000 (sender_history_create 60000)
      \<lparr>create_ts = 1000, arrival_ts = -1, send_ts = 1000, sequence_number = word_of_int 7, payload_size = 1200\<rparr> = Some h1
    \<and> sender_history_get h1 (word_of_int 7) = Some (h2, Some
      \<lparr>create_ts = 1000, arrival_ts = -1, send_ts = 1000, sequence_number = word_of_int 7, payload_size = 1200\<rparr>)
    \<and> sender_history_get h2 (word_of_int 7) = Some (h3, None)
    \<and> h_l h3 = dropWhile (\<lambda>(k, p). create_ts p + uint (limited_ms (sender_history_create 60000)) < 1000)
        (h_l (sender_history_create 60000)) \<and> 7 \<le> last_ack_seq_num h3"
  by (rule history_get_once [OF sender_history_create_wf])
    (simp_all add: sender_history_create_def init_unwrapper16_def)

end
