(* ===== verification/Feedback_Adapter.thy ===== *)
theory Feedback_Adapter
  imports Sender_History "HOL-Library.Multiset"
begin

text \<open>
  \<^verbatim>\<open>estimator/feedback_adapter.c\<close>: on the sender, the packets sent are recorded and a feedback
  message is turned into the list of packets it acknowledges, in the order they arrived.

  \<open>packets\<close> is the fixed array of 128, of which the first \<open>num\<close> are valid; \<open>rtts\<close> a ring of 32.
  \<open>qsort\<close> is the library's, a parameter: the lemmas use that it permutes its array and leaves no
  element after a later one (\<open>qsort_ok\<close>), which is what it promises for the order of
  \<open>feedback_packet_comp\<close>. \<open>None\<close> is an access outside an array, the signed overflow of \<open>index\<close>,
  or the unwrapper's assertion.
\<close>

abbreviation FEEDBACK_RTT_WIN_SIZE :: nat where "FEEDBACK_RTT_WIN_SIZE \<equiv> 32"

record feedback_adapter =
  fa_hist :: sender_history
  min_feedback_rtt :: int
  fa_index :: int
  rtts :: "int list"
  fa_num :: nat
  packets :: "packet_feedback list"

definition feedback_adapter_init :: feedback_adapter where
  "feedback_adapter_init = \<lparr>fa_hist = sender_history_create 60000, min_feedback_rtt = 10, fa_index = 0,
     rtts = replicate FEEDBACK_RTT_WIN_SIZE (-1), fa_num = 0,
     packets = replicate MAX_FEELBACK_COUNT \<lparr>create_ts = 0, arrival_ts = 0, send_ts = 0, sequence_number = 0, payload_size = 0\<rparr>\<rparr>"

definition feedback_adapter_destroy :: "feedback_adapter \<Rightarrow> packet_feedback list" where
  "feedback_adapter_destroy a = sender_history_destroy (fa_hist a)"

definition feedback_add_packet :: "int \<Rightarrow> feedback_adapter \<Rightarrow> u16 \<Rightarrow> nat \<Rightarrow> feedback_adapter option" where
  "feedback_add_packet now_ts a seq n =
     (let packet = \<lparr>create_ts = now_ts, arrival_ts = -1, send_ts = now_ts, sequence_number = seq, payload_size = n\<rparr>
      in map_option (\<lambda>h. a\<lparr>fa_hist := h\<rparr>) (sender_history_add now_ts (fa_hist a) packet))"

definition feedback_packet_comp :: "packet_feedback \<Rightarrow> packet_feedback \<Rightarrow> int" where
  "feedback_packet_comp p1 p2 =
     (if arrival_ts p1 < arrival_ts p2 then -1
      else if arrival_ts p1 > arrival_ts p2 then 1
      else if send_ts p1 < send_ts p2 then -1 else 1)"

text \<open>One iteration of the loop over the samples.\<close>

definition feedback_sample_step :: "int \<Rightarrow> feedback_adapter \<times> int \<Rightarrow> feedback_sample \<Rightarrow> (feedback_adapter \<times> int) option" where
  "feedback_sample_step now_ts st x =
     (case st of (a, feedback_rtt) \<Rightarrow> do {
        (h, r) \<leftarrow> sender_history_get (fa_hist a) (fs_seq x);
        let a = a\<lparr>fa_hist := h\<rparr>;
        case r of None \<Rightarrow> Some (a, feedback_rtt)
        | Some p \<Rightarrow>
           if fa_num a < length (packets a)
           then do {
             (a, feedback_rtt) \<leftarrow>
               (if 0 < send_ts p
                then (let rtt = s32 (su_max (now_ts - send_ts p) feedback_rtt); i = fa_index a smod int FEEDBACK_RTT_WIN_SIZE in
                  if i < 0 \<or> fa_index a = 2147483647 then None
                  else Some (a\<lparr>rtts := (rtts a)[nat i := rtt], fa_index := fa_index a + 1\<rparr>, rtt))
                else Some (a, feedback_rtt));
             Some (a\<lparr>packets := (packets a)[fa_num a := p\<lparr>arrival_ts := fs_ts x\<rparr>], fa_num := fa_num a + 1\<rparr>, feedback_rtt)
           }
           else None
      })"

fun feedback_loop :: "int \<Rightarrow> feedback_msg \<Rightarrow> nat \<Rightarrow> nat \<Rightarrow> feedback_adapter \<times> int \<Rightarrow> (feedback_adapter \<times> int) option" where
  "feedback_loop now_ts msg i 0 st = Some st"
| "feedback_loop now_ts msg i (Suc n) st =
     (if i < length (samples msg)
      then do { st \<leftarrow> feedback_sample_step now_ts st (samples msg ! i); feedback_loop now_ts msg (i + 1) n st }
      else None)"

definition min_rtt_loop :: "int list \<Rightarrow> int" where
  "min_rtt_loop rs = foldl (\<lambda>m r. if r < m \<and> 0 < r then r else m) (rs ! 0) (drop 1 (take FEEDBACK_RTT_WIN_SIZE rs))"

definition feedback_on_feedback ::
  "((packet_feedback \<Rightarrow> packet_feedback \<Rightarrow> int) \<Rightarrow> packet_feedback list \<Rightarrow> packet_feedback list)
    \<Rightarrow> int \<Rightarrow> feedback_adapter \<Rightarrow> feedback_msg \<Rightarrow> (feedback_adapter \<times> nat) option" where
  "feedback_on_feedback qsort now_ts a msg = do {
     (a, feedback_rtt) \<leftarrow> feedback_loop now_ts msg 0 (unat (samples_num msg)) (a\<lparr>fa_num := 0\<rparr>, -1);
     let a = (if 0 < feedback_rtt then a\<lparr>min_feedback_rtt := min_rtt_loop (rtts a)\<rparr> else a);
     let a = a\<lparr>packets := qsort feedback_packet_comp (take (fa_num a) (packets a)) @ drop (fa_num a) (packets a)\<rparr>;
     Some (a, fa_num a)
   }"

subsection \<open>Invariant and the abstract result\<close>

definition adapter_wf :: "feedback_adapter \<Rightarrow> bool" where
  "adapter_wf a \<longleftrightarrow> history_wf (fa_hist a) \<and> length (rtts a) = FEEDBACK_RTT_WIN_SIZE
     \<and> length (packets a) = MAX_FEELBACK_COUNT \<and> 0 \<le> fa_index a"

lemma feedback_adapter_init_wf: "adapter_wf feedback_adapter_init"
  by (simp add: adapter_wf_def feedback_adapter_init_def sender_history_create_wf)

lemma feedback_add_packet_wf:
  "adapter_wf a \<Longrightarrow> \<exists>a'. feedback_add_packet now_ts a seq n = Some a' \<and> adapter_wf a'"
  using sender_history_add_wf [of "fa_hist a"] by (fastforce simp: feedback_add_packet_def adapter_wf_def Let_def)

definition qsort_ok :: "((packet_feedback \<Rightarrow> packet_feedback \<Rightarrow> int) \<Rightarrow> packet_feedback list \<Rightarrow> packet_feedback list) \<Rightarrow> bool" where
  "qsort_ok qsort \<longleftrightarrow> (\<forall>ps. mset (qsort feedback_packet_comp ps) = mset ps
     \<and> sorted_wrt (\<lambda>p q. 0 \<le> feedback_packet_comp q p) (qsort feedback_packet_comp ps))"

text \<open>What the samples acknowledge: each sample's packet is looked up in the history in turn.\<close>

fun ack_all :: "sender_history \<Rightarrow> feedback_sample list \<Rightarrow> (sender_history \<times> packet_feedback list) option" where
  "ack_all h [] = Some (h, [])"
| "ack_all h (x # xs) = do {
     (h, r) \<leftarrow> sender_history_get h (fs_seq x);
     (h, ps) \<leftarrow> ack_all h xs;
     Some (h, (case r of None \<Rightarrow> ps | Some p \<Rightarrow> p\<lparr>arrival_ts := fs_ts x\<rparr> # ps))
   }"

lemma ack_all_total: "history_wf h \<Longrightarrow> \<exists>h' ps. ack_all h xs = Some (h', ps) \<and> history_wf h' \<and> length ps \<le> length xs"
proof (induction xs arbitrary: h)
  case (Cons x xs)
  obtain h1 r where h1: "sender_history_get h (fs_seq x) = Some (h1, r)" "history_wf h1"
    using sender_history_get_wf [OF Cons.prems] by blast
  then show ?case
    using Cons.IH [OF h1(2)] by (fastforce split: option.splits)
qed simp

lemma smod_nonneg: "0 \<le> (x :: int) \<Longrightarrow> x smod 32 = x mod 32"
  by (cases "x = 0") (auto simp: signed_modulo_int_def)

lemma feedback_sample_step_ok:
  assumes wf: "adapter_wf a" and get: "sender_history_get (fa_hist a) (fs_seq x) = Some (h, r)" "history_wf h"
    and num: "fa_num a < MAX_FEELBACK_COUNT" and idx: "fa_index a < 2147483647"
  shows "\<exists>a' rtt'. feedback_sample_step now_ts (a, rtt) x = Some (a', rtt') \<and> adapter_wf a' \<and> fa_hist a' = h
    \<and> fa_index a' \<le> fa_index a + 1
    \<and> take (fa_num a') (packets a') = take (fa_num a) (packets a) @ (case r of None \<Rightarrow> [] | Some p \<Rightarrow> [p\<lparr>arrival_ts := fs_ts x\<rparr>])
    \<and> fa_num a' = fa_num a + (case r of None \<Rightarrow> 0 | Some p \<Rightarrow> 1)"
proof (cases r)
  case None
  then show ?thesis
    using wf get by (simp add: feedback_sample_step_def adapter_wf_def)
next
  case (Some p)
  have len: "fa_num a < length (packets a)"
    using wf num by (simp add: adapter_wf_def)
  then have tk: "take (Suc (fa_num a)) ((packets a)[fa_num a := q]) = take (fa_num a) (packets a) @ [q]" for q
    by (simp add: take_Suc_conv_app_nth)
  have "0 \<le> fa_index a smod 32"
    using wf by (simp add: smod_nonneg adapter_wf_def)
  then show ?thesis
    using wf get len tk idx Some
    by (cases "0 < send_ts p") (auto simp: feedback_sample_step_def adapter_wf_def Let_def)
qed

lemma feedback_loop_ok:
  "adapter_wf a \<Longrightarrow> i + n \<le> length (samples msg) \<Longrightarrow> fa_num a + n \<le> MAX_FEELBACK_COUNT \<Longrightarrow>
    fa_index a + int n \<le> 2147483647 \<Longrightarrow> ack_all (fa_hist a) (take n (drop i (samples msg))) = Some (h, ps) \<Longrightarrow>
    \<exists>a' rtt'. feedback_loop now_ts msg i n (a, rtt) = Some (a', rtt') \<and> adapter_wf a' \<and> fa_hist a' = h
      \<and> take (fa_num a') (packets a') = take (fa_num a) (packets a) @ ps \<and> fa_num a' = fa_num a + length ps \<and> fa_index a' \<le> fa_index a + int n"
proof (induction n arbitrary: i a rtt ps)
  case 0
  then show ?case by simp
next
  case (Suc n)
  define x where "x = samples msg ! i"
  have dr: "take (Suc n) (drop i (samples msg)) = x # take n (drop (Suc i) (samples msg))"
    using Suc.prems(2) by (simp add: x_def Cons_nth_drop_Suc [symmetric])
  obtain h1 r ps1 where g: "sender_history_get (fa_hist a) (fs_seq x) = Some (h1, r)"
      "ack_all h1 (take n (drop (Suc i) (samples msg))) = Some (h, ps1)"
      "ps = (case r of None \<Rightarrow> ps1 | Some p \<Rightarrow> p\<lparr>arrival_ts := fs_ts x\<rparr> # ps1)"
    using Suc.prems(5) by (auto simp: dr split: bind_splits)
  have "history_wf h1"
    using sender_history_get_wf [of "fa_hist a" "fs_seq x"] Suc.prems(1) g(1) by (auto simp: adapter_wf_def)
  then obtain a1 rtt1 where a1: "feedback_sample_step now_ts (a, rtt) x = Some (a1, rtt1)" "adapter_wf a1" "fa_hist a1 = h1"
    "fa_index a1 \<le> fa_index a + 1"
    "take (fa_num a1) (packets a1) = take (fa_num a) (packets a) @ (case r of None \<Rightarrow> [] | Some p \<Rightarrow> [p\<lparr>arrival_ts := fs_ts x\<rparr>])"
    "fa_num a1 = fa_num a + (case r of None \<Rightarrow> 0 | Some p \<Rightarrow> 1)"
    using feedback_sample_step_ok [OF Suc.prems(1) g(1), of now_ts rtt] Suc.prems(3,4) by auto
  have pre: "i + 1 + n \<le> length (samples msg)" "fa_num a1 + n \<le> MAX_FEELBACK_COUNT" "fa_index a1 + int n \<le> 2147483647"
    using Suc.prems a1 by (auto split: option.splits)
  obtain a2 rtt2 where a2: "feedback_loop now_ts msg (i + 1) n (a1, rtt1) = Some (a2, rtt2)" "adapter_wf a2" "fa_hist a2 = h"
      "take (fa_num a2) (packets a2) = take (fa_num a1) (packets a1) @ ps1" "fa_num a2 = fa_num a1 + length ps1"
      "fa_index a2 \<le> fa_index a1 + int n"
    using Suc.IH [OF a1(2) pre, of ps1 rtt1] g(2) a1(3) by auto
  have "feedback_loop now_ts msg i (Suc n) (a, rtt) = Some (a2, rtt2)"
    using a1(1) a2(1) Suc.prems(2) by (simp add: x_def)
  then show ?case
    using a1 a2 g(3) by (auto split: option.splits)
qed

abbreviation min_pos :: "int \<Rightarrow> int list \<Rightarrow> int" where
  "min_pos m rs \<equiv> foldl (\<lambda>m r. if r < m \<and> 0 < r then r else m) m rs"

lemma min_pos_spec:
  "0 < m \<Longrightarrow> 0 < min_pos m xs \<and> min_pos m xs \<in> insert m (set xs) \<and> min_pos m xs \<le> m
    \<and> (\<forall>r \<in> set xs. 0 < r \<longrightarrow> min_pos m xs \<le> r)"
proof (induction xs arbitrary: m)
  case (Cons x xs)
  show ?case
  proof (cases "x < m \<and> 0 < x")
    case True
    then show ?thesis using Cons.IH [of x] by auto
  next
    case False
    then have "min_pos m (x # xs) = min_pos m xs" by auto
    moreover have "0 < x \<Longrightarrow> m \<le> x" using False by auto
    ultimately show ?thesis using Cons.IH [OF Cons.prems] by fastforce
  qed
qed simp

lemma min_rtt_loop_spec:
  assumes "length rs = FEEDBACK_RTT_WIN_SIZE" and "0 < rs ! 0"
  shows "0 < min_rtt_loop rs \<and> min_rtt_loop rs \<in> set rs \<and> (\<forall>r \<in> set rs. 0 < r \<longrightarrow> min_rtt_loop rs \<le> r)"
proof -
  obtain r rest where rs: "rs = r # rest"
    using assms(1) by (cases rs) auto
  have "take FEEDBACK_RTT_WIN_SIZE rs = rs"
    by (rule take_all) (simp only: assms(1) le_refl)
  then have "min_rtt_loop rs = min_pos r rest"
    unfolding min_rtt_loop_def by (simp only: rs nth_Cons_0 drop_Suc_Cons drop0 One_nat_def)
  then show ?thesis
    using min_pos_spec [of r rest] assms(2) unfolding rs by auto
qed

lemma min_rtt_loop_head:
  assumes "length rs = FEEDBACK_RTT_WIN_SIZE" and "rs ! 0 \<le> 0"
  shows "min_rtt_loop rs = rs ! 0"
proof -
  have "m \<le> 0 \<Longrightarrow> foldl (\<lambda>m r. if r < m \<and> 0 < r then r else m) m xs = m" for m :: int and xs
    by (induction xs) auto
  then show ?thesis
    using assms by (simp add: min_rtt_loop_def)
qed

lemma feedback_on_feedback_ok:
  assumes wf: "adapter_wf a" and n: "unat (samples_num msg) \<le> MAX_FEELBACK_COUNT" "length (samples msg) = MAX_FEELBACK_COUNT"
    and idx: "fa_index a + int (unat (samples_num msg)) \<le> 2147483647" and qs: "qsort_ok qsort"
  shows "\<exists>a' k h ps. feedback_on_feedback qsort now_ts a msg = Some (a', k) \<and> adapter_wf a'
    \<and> ack_all (fa_hist a) (take (unat (samples_num msg)) (samples msg)) = Some (h, ps)
    \<and> fa_hist a' = h \<and> k = length ps \<and> mset (take k (packets a')) = mset ps
    \<and> sorted_wrt (\<lambda>p q. arrival_ts p \<le> arrival_ts q) (take k (packets a'))
    \<and> k = fa_num a' \<and> k \<le> MAX_FEELBACK_COUNT \<and> fa_index a' \<le> fa_index a + 128"
proof -
  define c where "c = unat (samples_num msg)"
  have c128: "int c \<le> 128" using n(1) unfolding c_def of_nat_le_iff [symmetric, where 'a = int] by simp
  obtain h ps where ack: "ack_all (fa_hist a) (take c (samples msg)) = Some (h, ps)" and lp: "length ps \<le> c"
    using ack_all_total [of "fa_hist a" "take c (samples msg)"] wf n by (auto simp: adapter_wf_def c_def)
  have pre: "adapter_wf (a\<lparr>fa_num := 0\<rparr>)" "0 + c \<le> length (samples msg)" "fa_num (a\<lparr>fa_num := 0\<rparr>) + c \<le> MAX_FEELBACK_COUNT"
    "fa_index (a\<lparr>fa_num := 0\<rparr>) + int c \<le> 2147483647"
    "ack_all (fa_hist (a\<lparr>fa_num := 0\<rparr>)) (take c (drop 0 (samples msg))) = Some (h, ps)"
    using wf n idx ack by (simp_all add: adapter_wf_def c_def)
  obtain a1 rtt where a1: "feedback_loop now_ts msg 0 c (a\<lparr>fa_num := 0\<rparr>, -1) = Some (a1, rtt)" "adapter_wf a1" "fa_hist a1 = h"
      and raw: "take (fa_num a1) (packets a1) = take (fa_num (a\<lparr>fa_num := 0\<rparr>)) (packets (a\<lparr>fa_num := 0\<rparr>)) @ ps"
        "fa_num a1 = fa_num (a\<lparr>fa_num := 0\<rparr>) + length ps"
        "fa_index a1 \<le> fa_index a + int c"
    using feedback_loop_ok [OF pre, of now_ts "-1"] by fastforce
  have pk: "take (fa_num a1) (packets a1) = ps" "fa_num a1 = length ps"
    using raw(1,2) by simp_all
  define sorted where "sorted = qsort feedback_packet_comp ps"
  have ms: "mset sorted = mset ps" and so: "sorted_wrt (\<lambda>p q. 0 \<le> feedback_packet_comp q p) sorted"
    using qs by (simp_all add: qsort_ok_def sorted_def)
  have ls: "length sorted = length ps"
    using ms by (metis size_mset)
  have "sorted_wrt (\<lambda>p q. arrival_ts p \<le> arrival_ts q) sorted"
    by (rule sorted_wrt_mono_rel [OF _ so]) (auto simp: feedback_packet_comp_def split: if_splits)
  moreover have len: "length ps \<le> MAX_FEELBACK_COUNT"
    using lp n by (simp add: c_def)
  moreover define a2 where "a2 = (if 0 < rtt then a1\<lparr>min_feedback_rtt := min_rtt_loop (rtts a1)\<rparr> else a1)"
  define a3 where "a3 = a2\<lparr>packets := sorted @ drop (length ps) (packets a1)\<rparr>"
  have fields: "fa_num a2 = length ps" "packets a2 = packets a1" "fa_hist a3 = h" "take (length ps) (packets a3) = sorted"
    "fa_num a3 = length ps" "fa_index a3 \<le> fa_index a + 128"
    using pk(2) a1(3) ls raw(3) c128 by (simp_all add: a2_def a3_def)
  have "feedback_on_feedback qsort now_ts a msg = Some (a3, length ps)"
    using a1(1) by (simp add: feedback_on_feedback_def c_def [symmetric] a2_def [symmetric] fields(1,2) pk(1) [unfolded pk(2)]
        sorted_def [symmetric] a3_def Let_def)
  moreover have "adapter_wf a3"
    using a1(2) ls calculation(2) by (simp add: adapter_wf_def a2_def a3_def)
  ultimately show ?thesis
    using ack ms fields unfolding c_def
    by (intro exI [of _ a3] exI [of _ "length ps"] exI [of _ h] exI [of _ ps] conjI) auto
qed

subsection \<open>Properties\<close>


definition example_qsort :: "(packet_feedback \<Rightarrow> packet_feedback \<Rightarrow> int) \<Rightarrow> packet_feedback list \<Rightarrow> packet_feedback list" where
  "example_qsort _ ps = sort_key arrival_ts (sort_key send_ts ps)"

lemma sorted_by_arrival_then_send:
  "sorted_wrt (\<lambda>p q. 0 \<le> feedback_packet_comp q p) (sort_key arrival_ts (sort_key send_ts ps))"
proof -
  have ins: "sorted_wrt (\<lambda>p q. arrival_ts p < arrival_ts q \<or> (arrival_ts p = arrival_ts q \<and> send_ts p \<le> send_ts q)) (insort_key arrival_ts x l)"
    if "sorted_wrt (\<lambda>p q. arrival_ts p < arrival_ts q \<or> (arrival_ts p = arrival_ts q \<and> send_ts p \<le> send_ts q)) l"
      "\<forall>y \<in> set l. send_ts x \<le> send_ts y" for x l
    using that by (induction l) (auto simp: set_insort_key)
  have "sorted_wrt (\<lambda>p q. arrival_ts p < arrival_ts q \<or> (arrival_ts p = arrival_ts q \<and> send_ts p \<le> send_ts q)) (sort_key arrival_ts l)"
    if "sorted_wrt (\<lambda>p q. send_ts p \<le> send_ts q) l" for l
    using that by (induction l) (auto intro!: ins)
  moreover have "sorted_wrt (\<lambda>p q. send_ts p \<le> send_ts q) (sort_key send_ts ps)"
    using sorted_sort_key [of send_ts ps] by (simp add: sorted_map)
  ultimately have "sorted_wrt (\<lambda>p q. arrival_ts p < arrival_ts q \<or> (arrival_ts p = arrival_ts q \<and> send_ts p \<le> send_ts q))
      (sort_key arrival_ts (sort_key send_ts ps))"
    by blast
  then show ?thesis
    by (rule sorted_wrt_mono_rel [rotated]) (auto simp: feedback_packet_comp_def)
qed

lemma example_qsort_ok: "qsort_ok example_qsort"
  by (simp add: qsort_ok_def example_qsort_def sorted_by_arrival_then_send)


end
