(* ===== verification/Crc.thy ===== *)
theory Crc
  imports Prelude
begin

text \<open>
  \<^verbatim>\<open>common/cf_crc32.c\<close>: the table-driven CRC that protects every simulated datagram
  (\<^verbatim>\<open>sim_transport/sim_proto.c\<close> appends and checks it). \<open>crc32_tab\<close> is the source's table, the loop
  over the buffer is \<^verbatim>\<open>crc32_loop\<close>.

  The lemmas: the table is the one of the reflected polynomial 0xEDB88320 (\<^verbatim>\<open>crc32_tab_poly\<close>,
  checked entry by entry), the byte step equals eight shift-and-xor steps of the bitwise CRC
  (\<^verbatim>\<open>crc_byte_table\<close>), and the byte step is injective in the running value, which gives the
  detection of every corruption that is confined to one byte.
\<close>

unbundle bit_operations_syntax

definition crc32_tab :: "u32 list" where
  "crc32_tab = [
   0x00000000, 0x77073096, 0xee0e612c, 0x990951ba, 0x076dc419, 0x706af48f,
   0xe963a535, 0x9e6495a3, 0x0edb8832, 0x79dcb8a4, 0xe0d5e91e, 0x97d2d988,
   0x09b64c2b, 0x7eb17cbd, 0xe7b82d07, 0x90bf1d91, 0x1db71064, 0x6ab020f2,
   0xf3b97148, 0x84be41de, 0x1adad47d, 0x6ddde4eb, 0xf4d4b551, 0x83d385c7,
   0x136c9856, 0x646ba8c0, 0xfd62f97a, 0x8a65c9ec, 0x14015c4f, 0x63066cd9,
   0xfa0f3d63, 0x8d080df5, 0x3b6e20c8, 0x4c69105e, 0xd56041e4, 0xa2677172,
   0x3c03e4d1, 0x4b04d447, 0xd20d85fd, 0xa50ab56b, 0x35b5a8fa, 0x42b2986c,
   0xdbbbc9d6, 0xacbcf940, 0x32d86ce3, 0x45df5c75, 0xdcd60dcf, 0xabd13d59,
   0x26d930ac, 0x51de003a, 0xc8d75180, 0xbfd06116, 0x21b4f4b5, 0x56b3c423,
   0xcfba9599, 0xb8bda50f, 0x2802b89e, 0x5f058808, 0xc60cd9b2, 0xb10be924,
   0x2f6f7c87, 0x58684c11, 0xc1611dab, 0xb6662d3d, 0x76dc4190, 0x01db7106,
   0x98d220bc, 0xefd5102a, 0x71b18589, 0x06b6b51f, 0x9fbfe4a5, 0xe8b8d433,
   0x7807c9a2, 0x0f00f934, 0x9609a88e, 0xe10e9818, 0x7f6a0dbb, 0x086d3d2d,
   0x91646c97, 0xe6635c01, 0x6b6b51f4, 0x1c6c6162, 0x856530d8, 0xf262004e,
   0x6c0695ed, 0x1b01a57b, 0x8208f4c1, 0xf50fc457, 0x65b0d9c6, 0x12b7e950,
   0x8bbeb8ea, 0xfcb9887c, 0x62dd1ddf, 0x15da2d49, 0x8cd37cf3, 0xfbd44c65,
   0x4db26158, 0x3ab551ce, 0xa3bc0074, 0xd4bb30e2, 0x4adfa541, 0x3dd895d7,
   0xa4d1c46d, 0xd3d6f4fb, 0x4369e96a, 0x346ed9fc, 0xad678846, 0xda60b8d0,
   0x44042d73, 0x33031de5, 0xaa0a4c5f, 0xdd0d7cc9, 0x5005713c, 0x270241aa,
   0xbe0b1010, 0xc90c2086, 0x5768b525, 0x206f85b3, 0xb966d409, 0xce61e49f,
   0x5edef90e, 0x29d9c998, 0xb0d09822, 0xc7d7a8b4, 0x59b33d17, 0x2eb40d81,
   0xb7bd5c3b, 0xc0ba6cad, 0xedb88320, 0x9abfb3b6, 0x03b6e20c, 0x74b1d29a,
   0xead54739, 0x9dd277af, 0x04db2615, 0x73dc1683, 0xe3630b12, 0x94643b84,
   0x0d6d6a3e, 0x7a6a5aa8, 0xe40ecf0b, 0x9309ff9d, 0x0a00ae27, 0x7d079eb1,
   0xf00f9344, 0x8708a3d2, 0x1e01f268, 0x6906c2fe, 0xf762575d, 0x806567cb,
   0x196c3671, 0x6e6b06e7, 0xfed41b76, 0x89d32be0, 0x10da7a5a, 0x67dd4acc,
   0xf9b9df6f, 0x8ebeeff9, 0x17b7be43, 0x60b08ed5, 0xd6d6a3e8, 0xa1d1937e,
   0x38d8c2c4, 0x4fdff252, 0xd1bb67f1, 0xa6bc5767, 0x3fb506dd, 0x48b2364b,
   0xd80d2bda, 0xaf0a1b4c, 0x36034af6, 0x41047a60, 0xdf60efc3, 0xa867df55,
   0x316e8eef, 0x4669be79, 0xcb61b38c, 0xbc66831a, 0x256fd2a0, 0x5268e236,
   0xcc0c7795, 0xbb0b4703, 0x220216b9, 0x5505262f, 0xc5ba3bbe, 0xb2bd0b28,
   0x2bb45a92, 0x5cb36a04, 0xc2d7ffa7, 0xb5d0cf31, 0x2cd99e8b, 0x5bdeae1d,
   0x9b64c2b0, 0xec63f226, 0x756aa39c, 0x026d930a, 0x9c0906a9, 0xeb0e363f,
   0x72076785, 0x05005713, 0x95bf4a82, 0xe2b87a14, 0x7bb12bae, 0x0cb61b38,
   0x92d28e9b, 0xe5d5be0d, 0x7cdcefb7, 0x0bdbdf21, 0x86d3d2d4, 0xf1d4e242,
   0x68ddb3f8, 0x1fda836e, 0x81be16cd, 0xf6b9265b, 0x6fb077e1, 0x18b74777,
   0x88085ae6, 0xff0f6a70, 0x66063bca, 0x11010b5c, 0x8f659eff, 0xf862ae69,
   0x616bffd3, 0x166ccf45, 0xa00ae278, 0xd70dd2ee, 0x4e048354, 0x3903b3c2,
   0xa7672661, 0xd06016f7, 0x4969474d, 0x3e6e77db, 0xaed16a4a, 0xd9d65adc,
   0x40df0b66, 0x37d83bf0, 0xa9bcae53, 0xdebb9ec5, 0x47b2cf7f, 0x30b5ffe9,
   0xbdbdf21c, 0xcabac28a, 0x53b39330, 0x24b4a3a6, 0xbad03605, 0xcdd70693,
   0x54de5729, 0x23d967bf, 0xb3667a2e, 0xc4614ab8, 0x5d681b02, 0x2a6f2b94,
   0xb40bbe37, 0xc30c8ea1, 0x5a05df1b, 0x2d02ef8d
  ]"

definition crc32_step :: "u32 \<Rightarrow> u8 \<Rightarrow> u32" where
  "crc32_step crc p =
     crc32_tab ! unat ((crc XOR ucast p) AND 0xFF) XOR drop_bit 8 crc"

fun crc32_loop :: "u32 \<Rightarrow> u8 list \<Rightarrow> u32" where
  "crc32_loop crc [] = crc"
| "crc32_loop crc (p # buf) = crc32_loop (crc32_step crc p) buf"

definition crc32 :: "u32 \<Rightarrow> u8 list \<Rightarrow> u32" where
  "crc32 crc buf = crc32_loop (crc XOR NOT 0) buf XOR NOT 0"

subsection \<open>The bitwise CRC\<close>

definition crc_bit :: "u32 \<Rightarrow> u32" where
  "crc_bit c = (if odd c then 0xEDB88320 XOR drop_bit 1 c else drop_bit 1 c)"

definition crc_byte :: "u32 \<Rightarrow> u32" where
  "crc_byte c = (crc_bit ^^ 8) c"

fun crc32_bitwise :: "u32 \<Rightarrow> u8 list \<Rightarrow> u32" where
  "crc32_bitwise crc [] = crc"
| "crc32_bitwise crc (p # buf) = crc32_bitwise (crc_byte (crc XOR ucast p)) buf"

lemma crc_bit_xor: "crc_bit (a XOR b) = crc_bit a XOR crc_bit b"
proof -
  have odd: "odd (a XOR b) \<longleftrightarrow> odd a \<noteq> odd b"
    by (simp add: bit_xor_iff flip: bit_0)
  show ?thesis
    by (simp add: crc_bit_def odd drop_bit_xor ac_simps xor.left_commute)
qed

lemma crc_bit_pow_xor: "(crc_bit ^^ n) (a XOR b) = (crc_bit ^^ n) a XOR (crc_bit ^^ n) b"
  by (induction n) (simp_all add: crc_bit_xor)

lemma crc_byte_xor: "crc_byte (a XOR b) = crc_byte a XOR crc_byte b"
  by (simp add: crc_byte_def crc_bit_pow_xor)

lemma crc_bit_shift:
  assumes "take_bit (Suc n) c = 0"
  shows "crc_bit c = drop_bit 1 c" and "take_bit n (drop_bit 1 c) = 0"
proof -
  have b: "\<not> bit c k" if "k < Suc n" for k
    using assms that by (metis bit_0_eq bit_take_bit_iff bot_apply bot_bool_def)
  then have "\<not> odd c"
    by (simp flip: bit_0)
  then show "crc_bit c = drop_bit 1 c"
    by (simp add: crc_bit_def)
  show "take_bit n (drop_bit 1 c) = 0"
    by (rule bit_eqI) (auto simp: bit_take_bit_iff bit_drop_bit_eq b)
qed

lemma crc_bit_pow_shift: "take_bit n c = 0 \<Longrightarrow> (crc_bit ^^ n) c = drop_bit n c"
proof (induction n arbitrary: c)
  case 0
  then show ?case by simp
next
  case (Suc n)
  have "(crc_bit ^^ Suc n) c = (crc_bit ^^ n) (drop_bit 1 c)"
    using crc_bit_shift(1) [OF Suc.prems] by (simp add: funpow_swap1)
  also have "\<dots> = drop_bit n (drop_bit 1 c)"
    using Suc.IH crc_bit_shift(2) [OF Suc.prems] by blast
  finally show ?case by (simp add: drop_bit_drop_bit)
qed

subsection \<open>The table is the one of the polynomial\<close>

text \<open>The table doubles: the entries \<open>2 ^ k + j\<close> are those of \<open>j\<close> with the entry of \<open>2 ^ k\<close> xored in.\<close>

definition tab_double :: "u32 list \<Rightarrow> u32 \<Rightarrow> u32 list" where
  "tab_double xs b = xs @ map (\<lambda>x. b XOR x) xs"

lemma crc32_tab_doubles:
  "crc32_tab = foldl tab_double [0] [0x77073096, 0xee0e612c, 0x076dc419, 0x0edb8832, 0x1db71064,
     0x3b6e20c8, 0x76dc4190, 0xedb88320]"
  by (simp add: crc32_tab_def tab_double_def)

lemma of_nat_add_pow2: "j < 2 ^ k \<Longrightarrow> (word_of_nat (2 ^ k + j) :: u32) = word_of_nat (2 ^ k) XOR word_of_nat j"
proof -
  assume j: "j < 2 ^ k"
  have "\<not> bit j k"
    using j by (simp add: bit_iff_odd)
  then have "(2 ^ k :: nat) AND j = 0"
    by (intro bit_eqI) (auto simp: bit_and_iff bit_exp_iff)
  then have "(2 ^ k + j :: nat) = 2 ^ k XOR j"
    by (rule disjunctive_add_eq_xor)
  then show ?thesis
    by (simp only: of_nat_xor_eq)
qed

definition tab_ok :: "nat \<Rightarrow> u32 list \<Rightarrow> bool" where
  "tab_ok k xs \<longleftrightarrow> length xs = 2 ^ k \<and> (\<forall>j < 2 ^ k. xs ! j = crc_byte (word_of_nat j))"

lemma tab_ok_double:
  assumes "tab_ok k xs" and "b = crc_byte (word_of_nat (2 ^ k))"
  shows "tab_ok (Suc k) (tab_double xs b)"
proof -
  have "tab_double xs b ! j = crc_byte (word_of_nat j)" if "j < 2 ^ Suc k" for j
  proof (cases "j < 2 ^ k")
    case True
    then show ?thesis using assms by (simp add: tab_double_def tab_ok_def nth_append)
  next
    case False
    then obtain i where "j = 2 ^ k + i"
      using le_Suc_ex [of "2 ^ k" j] by auto
    then have i: "j = 2 ^ k + i" "i < 2 ^ k"
      using that by simp_all
    have "crc_byte (word_of_nat j) = b XOR crc_byte (word_of_nat i)"
      unfolding i(1) of_nat_add_pow2 [OF i(2)] crc_byte_xor assms(2) ..
    then show ?thesis
      using assms(1) i by (simp add: tab_double_def tab_ok_def nth_append)
  qed
  then show ?thesis
    using assms by (simp add: tab_ok_def tab_double_def)
qed

lemma crc_byte_steps:
  "crc_byte c = crc_bit (crc_bit (crc_bit (crc_bit (crc_bit (crc_bit (crc_bit (crc_bit c)))))))"
  by (simp add: crc_byte_def eval_nat_numeral)

lemma crc_byte_pows:
  "crc_byte 0x01 = 0x77073096" "crc_byte 0x02 = 0xee0e612c" "crc_byte 0x04 = 0x076dc419"
  "crc_byte 0x08 = 0x0edb8832" "crc_byte 0x10 = 0x1db71064" "crc_byte 0x20 = 0x3b6e20c8"
  "crc_byte 0x40 = 0x76dc4190" "crc_byte 0x80 = 0xedb88320"
  by (simp_all add: crc_byte_steps crc_bit_def)

lemma crc32_tab_ok: "tab_ok 8 crc32_tab"
proof -
  have "tab_ok 0 [0]"
    by (simp add: tab_ok_def crc_byte_steps crc_bit_def)
  then have "tab_ok (Suc (Suc (Suc (Suc (Suc (Suc (Suc (Suc 0)))))))) crc32_tab"
    unfolding crc32_tab_doubles foldl.simps
    by (intro tab_ok_double) (simp_all add: crc_byte_pows)
  then show ?thesis
    by (simp only: eval_nat_numeral One_nat_def pred_numeral_simps arith_simps BitM.simps)
qed

lemma crc32_step_bitwise: "crc32_step crc p = crc_byte (crc XOR ucast p)"
proof -
  define c where "c = crc XOR ucast p"
  define lo hi where "lo = take_bit 8 c" and "hi = c AND NOT (mask 8)"
  have split: "c = lo XOR hi"
    by (rule bit_eqI) (auto simp: lo_def hi_def bit_xor_iff bit_take_bit_iff bit_and_iff bit_not_iff bit_mask_iff)
  have lt: "unat lo < 2 ^ 8"
    unfolding lo_def by (metis take_bit_nat_less_exp unsigned_take_bit_eq)
  have tab: "crc32_tab ! unat lo = crc_byte lo"
    using crc32_tab_ok lt by (simp add: tab_ok_def)
  have "take_bit 8 hi = 0"
    by (rule bit_eqI) (auto simp: hi_def bit_take_bit_iff bit_and_iff bit_not_iff bit_mask_iff)
  then have "crc_byte hi = drop_bit 8 hi"
    unfolding crc_byte_def by (rule crc_bit_pow_shift)
  moreover have "drop_bit 8 hi = drop_bit 8 crc"
    by (rule bit_eqI) (auto simp: hi_def c_def bit_and_iff bit_not_iff bit_mask_iff bit_drop_bit_eq
        bit_xor_iff bit_ucast_iff dest: bit_imp_le_length)
  moreover have "(crc XOR ucast p) AND 0xFF = lo"
    by (simp add: lo_def c_def take_bit_eq_mask mask_eq_exp_minus_1)
  ultimately show ?thesis
    using tab split by (simp add: crc32_step_def c_def [symmetric] crc_byte_xor)
qed

lemma crc32_loop_bitwise: "crc32_loop crc buf = crc32_bitwise crc buf"
  by (induction buf arbitrary: crc) (simp_all add: crc32_step_bitwise)

subsection \<open>Injectivity\<close>

lemma crc_bit_zero: "crc_bit c = 0 \<Longrightarrow> c = 0"
proof -
  assume z: "crc_bit c = 0"
  have top: "\<not> bit (drop_bit 1 c) 31"
    by (auto simp: bit_drop_bit_eq dest: bit_imp_le_length)
  have "bit (0xEDB88320 :: u32) 31"
    by simp
  then have even: "\<not> odd c"
    using z top by (metis bit_0_eq bit_xor_iff bot_apply bot_bool_def crc_bit_def)
  then have d: "drop_bit 1 c = 0"
    using z by (simp add: crc_bit_def)
  show "c = 0"
  proof (rule bit_eqI)
    fix n
    show "bit c n = bit 0 n"
      using even d bit_drop_bit_eq [of 1 c] by (cases n) (auto simp: bit_0 fun_eq_iff)
  qed
qed

lemma xor_zero_iff: "(a :: u32) XOR b = 0 \<longleftrightarrow> a = b"
  by (auto simp: bit_eq_iff bit_xor_iff)

lemma xor_cancel: "(a :: u32) XOR c = b XOR c \<longleftrightarrow> a = b" "c XOR a = c XOR b \<longleftrightarrow> a = b"
  by (auto simp: bit_eq_iff bit_xor_iff)

lemma crc_byte_inj: "crc_byte a = crc_byte b \<longleftrightarrow> a = b"
proof
  assume "crc_byte a = crc_byte b"
  then have z: "(crc_bit ^^ 8) (a XOR b) = 0"
    by (simp add: crc_byte_def crc_bit_pow_xor)
  have "(crc_bit ^^ n) c = 0 \<Longrightarrow> c = 0" for n c
    by (induction n) (auto dest: crc_bit_zero)
  from this [OF z] show "a = b"
    by (auto simp: xor_zero_iff)
qed simp

lemma uint_ucast_u8_u32: "uint (ucast (p :: u8) :: u32) = uint p"
  by (rule uint_up_ucast) (simp add: is_up)

lemma crc32_loop_append: "crc32_loop crc (a @ b) = crc32_loop (crc32_loop crc a) b"
  by (induction a arbitrary: crc) simp_all

lemma crc32_loop_inj: "crc32_loop a buf = crc32_loop b buf \<longleftrightarrow> a = b"
proof (induction buf arbitrary: a b)
  case (Cons p buf)
  have "crc32_step a p = crc32_step b p \<longleftrightarrow> a = b"
    by (simp add: crc32_step_bitwise crc_byte_inj xor_cancel)
  then show ?case by (simp add: Cons.IH)
qed simp

lemma crc32_step_byte_inj: "crc32_step crc p = crc32_step crc q \<longleftrightarrow> p = q"
proof
  assume "crc32_step crc p = crc32_step crc q"
  then have "(ucast p :: u32) = ucast q"
    by (simp add: crc32_step_bitwise crc_byte_inj xor_cancel)
  then show "p = q"
    by (simp add: word_uint_eq_iff uint_ucast_u8_u32)
qed simp

subsection \<open>Properties\<close>

text \<open>
  C40: the table-driven CRC is the reflected CRC of the polynomial 0xEDB88320: on every running
  value and every buffer it returns what the bit-by-bit computation (xor the byte into the low
  bits, then eight shift steps) returns.
\<close>

theorem crc32_is_bitwise:
  "crc32 crc buf = crc32_bitwise (crc XOR NOT 0) buf XOR NOT 0"
  by (simp add: crc32_def crc32_loop_bitwise)

text \<open>
  The checksum detects every corruption of one byte: for a fixed initial value, two buffers
  that differ in exactly one byte have different CRCs.
\<close>

lemma crc32_detects_byte:
  assumes "p \<noteq> q"
  shows "crc32 crc (a @ p # b) \<noteq> crc32 crc (a @ q # b)"
proof -
  have "crc32_loop c (a @ p # b) \<noteq> crc32_loop c (a @ q # b)" for c
    using assms by (simp add: crc32_loop_append crc32_loop_inj crc32_step_byte_inj)
  then show ?thesis
    unfolding crc32_def xor_cancel by blast
qed

lemma crc32_detects_byte_witness:
  "crc32 0 ([1, 2] @ 3 # [4]) \<noteq> crc32 0 ([1, 2] @ 7 # [4])"
  by (rule crc32_detects_byte) simp

end
