(* ===== verification/Hex.thy ===== *)
theory Hex
  imports Prelude "HOL-Library.Char_ord"
begin

text \<open>
  \<^verbatim>\<open>common/cf_hex.c\<close>: bytes to hexadecimal text and back, through the two tables of the source.
  The output buffer is a parameter and a result; a call that the guards refuse leaves it alone.

  The lemmas: writing a buffer front to back (\<^verbatim>\<open>put_all\<close>), the per-byte round trip by
  evaluation of the tables, and the round trip of whole buffers. The table entry 0xba of the source
  is \<open>"0a"\<close>, so the round trip holds for the buffers without that byte
  (\<^verbatim>\<open>hex_roundtrip\<close>) and that byte comes back as 0x0a (\<^verbatim>\<open>hex_ba_lost\<close>).
\<close>

unbundle bit_operations_syntax

definition asc_map :: "string list" where
  "asc_map = [
   ''00'', ''01'', ''02'', ''03'', ''04'', ''05'', ''06'', ''07'', ''08'', ''09'', ''0a'', ''0b'', ''0c'', ''0d'', ''0e'', ''0f'',
   ''10'', ''11'', ''12'', ''13'', ''14'', ''15'', ''16'', ''17'', ''18'', ''19'', ''1a'', ''1b'', ''1c'', ''1d'', ''1e'', ''1f'',
   ''20'', ''21'', ''22'', ''23'', ''24'', ''25'', ''26'', ''27'', ''28'', ''29'', ''2a'', ''2b'', ''2c'', ''2d'', ''2e'', ''2f'',
   ''30'', ''31'', ''32'', ''33'', ''34'', ''35'', ''36'', ''37'', ''38'', ''39'', ''3a'', ''3b'', ''3c'', ''3d'', ''3e'', ''3f'',
   ''40'', ''41'', ''42'', ''43'', ''44'', ''45'', ''46'', ''47'', ''48'', ''49'', ''4a'', ''4b'', ''4c'', ''4d'', ''4e'', ''4f'',
   ''50'', ''51'', ''52'', ''53'', ''54'', ''55'', ''56'', ''57'', ''58'', ''59'', ''5a'', ''5b'', ''5c'', ''5d'', ''5e'', ''5f'',
   ''60'', ''61'', ''62'', ''63'', ''64'', ''65'', ''66'', ''67'', ''68'', ''69'', ''6a'', ''6b'', ''6c'', ''6d'', ''6e'', ''6f'',
   ''70'', ''71'', ''72'', ''73'', ''74'', ''75'', ''76'', ''77'', ''78'', ''79'', ''7a'', ''7b'', ''7c'', ''7d'', ''7e'', ''7f'',
   ''80'', ''81'', ''82'', ''83'', ''84'', ''85'', ''86'', ''87'', ''88'', ''89'', ''8a'', ''8b'', ''8c'', ''8d'', ''8e'', ''8f'',
   ''90'', ''91'', ''92'', ''93'', ''94'', ''95'', ''96'', ''97'', ''98'', ''99'', ''9a'', ''9b'', ''9c'', ''9d'', ''9e'', ''9f'',
   ''a0'', ''a1'', ''a2'', ''a3'', ''a4'', ''a5'', ''a6'', ''a7'', ''a8'', ''a9'', ''aa'', ''ab'', ''ac'', ''ad'', ''ae'', ''af'',
   ''b0'', ''b1'', ''b2'', ''b3'', ''b4'', ''b5'', ''b6'', ''b7'', ''b8'', ''b9'', ''0a'', ''bb'', ''bc'', ''bd'', ''be'', ''bf'',
   ''c0'', ''c1'', ''c2'', ''c3'', ''c4'', ''c5'', ''c6'', ''c7'', ''c8'', ''c9'', ''ca'', ''cb'', ''cc'', ''cd'', ''ce'', ''cf'',
   ''d0'', ''d1'', ''d2'', ''d3'', ''d4'', ''d5'', ''d6'', ''d7'', ''d8'', ''d9'', ''da'', ''db'', ''dc'', ''dd'', ''de'', ''df'',
   ''e0'', ''e1'', ''e2'', ''e3'', ''e4'', ''e5'', ''e6'', ''e7'', ''e8'', ''e9'', ''ea'', ''eb'', ''ec'', ''ed'', ''ee'', ''ef'',
   ''f0'', ''f1'', ''f2'', ''f3'', ''f4'', ''f5'', ''f6'', ''f7'', ''f8'', ''f9'', ''fa'', ''fb'', ''fc'', ''fd'', ''fe'', ''ff''
  ]"

definition bin_map :: "u8 list" where
  "bin_map = [
   0xff, 0xff, 0xff, 0xff, 0xff, 0xff, 0xff, 0xff, 0xff, 0xff, 0xff, 0xff, 0xff, 0xff, 0xff, 0xff,
   0xff, 0xff, 0xff, 0xff, 0xff, 0xff, 0xff, 0xff, 0xff, 0xff, 0xff, 0xff, 0xff, 0xff, 0xff, 0xff,
   0xff, 0xff, 0xff, 0xff, 0xff, 0xff, 0xff, 0xff, 0xff, 0xff, 0xff, 0xff, 0xff, 0xff, 0xff, 0xff,
   0x00, 0x01, 0x02, 0x03, 0x04, 0x05, 0x06, 0x07, 0x08, 0x09, 0xff, 0xff, 0xff, 0xff, 0xff, 0xff,
   0xff, 0x0a, 0x0b, 0x0c, 0x0d, 0x0e, 0x0f, 0xff, 0xff, 0xff, 0xff, 0xff, 0xff, 0xff, 0xff, 0xff,
   0xff, 0xff, 0xff, 0xff, 0xff, 0xff, 0xff, 0xff, 0xff, 0xff, 0xff, 0xff, 0xff, 0xff, 0xff, 0xff,
   0xff, 0x0a, 0x0b, 0x0c, 0x0d, 0x0e, 0x0f, 0xff, 0xff, 0xff, 0xff, 0xff, 0xff, 0xff, 0xff, 0xff,
   0xff, 0xff, 0xff, 0xff, 0xff, 0xff, 0xff, 0xff, 0xff, 0xff, 0xff, 0xff, 0xff, 0xff, 0xff, 0xff,
   0xff, 0xff, 0xff, 0xff, 0xff, 0xff, 0xff, 0xff, 0xff, 0xff, 0xff, 0xff, 0xff, 0xff, 0xff, 0xff,
   0xff, 0xff, 0xff, 0xff, 0xff, 0xff, 0xff, 0xff, 0xff, 0xff, 0xff, 0xff, 0xff, 0xff, 0xff, 0xff,
   0xff, 0xff, 0xff, 0xff, 0xff, 0xff, 0xff, 0xff, 0xff, 0xff, 0xff, 0xff, 0xff, 0xff, 0xff, 0xff,
   0xff, 0xff, 0xff, 0xff, 0xff, 0xff, 0xff, 0xff, 0xff, 0xff, 0xff, 0xff, 0xff, 0xff, 0xff, 0xff,
   0xff, 0xff, 0xff, 0xff, 0xff, 0xff, 0xff, 0xff, 0xff, 0xff, 0xff, 0xff, 0xff, 0xff, 0xff, 0xff,
   0xff, 0xff, 0xff, 0xff, 0xff, 0xff, 0xff, 0xff, 0xff, 0xff, 0xff, 0xff, 0xff, 0xff, 0xff, 0xff,
   0xff, 0xff, 0xff, 0xff, 0xff, 0xff, 0xff, 0xff, 0xff, 0xff, 0xff, 0xff, 0xff, 0xff, 0xff, 0xff,
   0xff, 0xff, 0xff, 0xff, 0xff, 0xff, 0xff, 0xff, 0xff, 0xff, 0xff, 0xff, 0xff, 0xff, 0xff, 0xff
  ]"

fun bin2asc_loop :: "u8 list \<Rightarrow> nat \<Rightarrow> string \<Rightarrow> nat \<times> string" where
  "bin2asc_loop [] index out = (index, out)"
| "bin2asc_loop (b # bs) index out =
     bin2asc_loop bs (index + 2)
       (out[index := asc_map ! unat b ! 0, Suc index := asc_map ! unat b ! 1])"

definition wb_bin2asc :: "u8 list \<Rightarrow> string \<Rightarrow> string" where
  "wb_bin2asc inp out =
     (if length out < 2 * length inp + 1 then out
      else (case bin2asc_loop inp 0 out of (index, out') \<Rightarrow> out'[index := CHR 0x00]))"

definition asc_byte :: "char \<Rightarrow> char \<Rightarrow> u8" where
  "asc_byte hi lo = (push_bit 4 (bin_map ! of_char hi)) OR (bin_map ! of_char lo)"

fun asc2bin_loop :: "nat \<Rightarrow> nat \<Rightarrow> string \<Rightarrow> u8 list \<Rightarrow> u8 list" where
  "asc2bin_loop 0 i inp out = out"
| "asc2bin_loop (Suc n) i inp out =
     asc2bin_loop n (Suc i) inp (out[i := asc_byte (inp ! (2 * i)) (inp ! (2 * i + 1))])"

text \<open>\<open>in_size\<close> is an argument of its own: the text need not fill the buffer. The result is the
  output buffer and \<open>*out_length\<close>.\<close>

definition wb_asc2bin :: "string \<Rightarrow> int \<Rightarrow> u8 list \<Rightarrow> u8 list \<times> int" where
  "wb_asc2bin inp in_size out =
     (if in_size \<le> 0 \<or> odd in_size then (out, 0)
      else if int (length out) < in_size div 2 then (out, 0)
      else (asc2bin_loop (nat (in_size div 2)) 0 inp out, in_size div 2))"

subsection \<open>The tables\<close>

lemma length_asc_map [simp]: "length asc_map = 256"
  by (simp add: asc_map_def)

definition asc_back :: "string list \<Rightarrow> u8 list" where
  "asc_back m = map (\<lambda>s. asc_byte (s ! 0) (s ! 1)) m"

lemma asc_back_table: "asc_back asc_map = (map word_of_nat [0..<256])[0xba := 0x0a]"
  by code_simp

definition hex2 :: "u8 \<Rightarrow> string" where
  "hex2 b = [asc_map ! unat b ! 0, asc_map ! unat b ! 1]"

definition hex_back :: "u8 \<Rightarrow> u8" where
  "hex_back b = (if b = 0xba then 0x0a else b)"

lemma unat_u8_less [simp]: "unat (b :: u8) < 256"
  using unsigned_less [of b] by simp

lemma asc_byte_hex2: "asc_byte (hex2 b ! 0) (hex2 b ! 1) = hex_back b"
proof -
  have "asc_byte (hex2 b ! 0) (hex2 b ! 1) = asc_back asc_map ! unat b"
    by (simp add: asc_back_def hex2_def)
  moreover have "unat b = 0xba \<longleftrightarrow> b = 0xba"
    using word_unat_eq_iff [of b "0xba"] by simp
  ultimately show ?thesis
    by (simp add: asc_back_table nth_list_update hex_back_def)
qed

lemma length_hex2 [simp]: "length (concat (map hex2 bs)) = 2 * length bs"
  by (induction bs) (simp_all add: hex2_def)

subsection \<open>The loops write front to back\<close>

lemma bin2asc_loop_eq:
  "length mid = 2 * length bs \<Longrightarrow>
   bin2asc_loop bs (length pre) (pre @ mid @ post)
     = (length pre + 2 * length bs, pre @ concat (map hex2 bs) @ post)"
proof (induction bs arbitrary: pre mid)
  case Nil
  then show ?case by simp
next
  case (Cons b bs)
  then obtain x y mid' where mid: "mid = x # y # mid'" "length mid' = 2 * length bs"
    by (cases mid; cases "tl mid") auto
  have "bin2asc_loop (b # bs) (length pre) (pre @ mid @ post)
      = bin2asc_loop bs (length (pre @ hex2 b)) ((pre @ hex2 b) @ mid' @ post)"
    by (simp add: mid list_update_append hex2_def)
  also have "\<dots> = (length (pre @ hex2 b) + 2 * length bs, (pre @ hex2 b) @ concat (map hex2 bs) @ post)"
    by (rule Cons.IH [OF mid(2)])
  finally show ?case by (simp add: hex2_def [abs_def])
qed

lemma wb_bin2asc_eq:
  assumes "2 * length inp < length out"
  shows "wb_bin2asc inp out = concat (map hex2 inp) @ CHR 0x00 # drop (Suc (2 * length inp)) out"
proof -
  define n where "n = 2 * length inp"
  have out: "out = [] @ take n out @ out ! n # drop (Suc n) out"
    using assms by (simp add: n_def id_take_nth_drop)
  have "bin2asc_loop inp 0 out = (n, concat (map hex2 inp) @ out ! n # drop (Suc n) out)"
    using bin2asc_loop_eq [of "take n out" inp "[]" "out ! n # drop (Suc n) out"] assms out
    by (simp add: n_def)
  then show ?thesis
    using assms by (simp add: wb_bin2asc_def list_update_append n_def)
qed

lemma asc2bin_loop_eq:
  "length mid = length bs \<Longrightarrow>
   asc2bin_loop (length bs) (length pre) (concat (map hex2 pre') @ concat (map hex2 bs) @ post) (pre @ mid @ post')
     = pre @ map hex_back bs @ post'" if "length pre' = length pre"
  using that
proof (induction bs arbitrary: pre pre' mid)
  case Nil
  then show ?case by simp
next
  case (Cons b bs)
  then obtain x mid' where mid: "mid = x # mid'" "length mid' = length bs"
    by (cases mid) auto
  define inp where "inp = concat (map hex2 pre') @ concat (map hex2 (b # bs)) @ post"
  have inp': "inp = concat (map hex2 (pre' @ [b])) @ concat (map hex2 bs) @ post"
    by (simp add: inp_def)
  have "inp ! (2 * length pre) = hex2 b ! 0" and "inp ! (2 * length pre + 1) = hex2 b ! 1"
    using Cons.prems by (simp_all add: inp_def nth_append hex2_def)
  then have "asc2bin_loop (length (b # bs)) (length pre) inp (pre @ mid @ post')
      = asc2bin_loop (length bs) (length (pre @ [hex_back b])) inp ((pre @ [hex_back b]) @ mid' @ post')"
    using asc_byte_hex2 [of b] by (simp add: mid list_update_append)
  also have "\<dots> = (pre @ [hex_back b]) @ map hex_back bs @ post'"
    unfolding inp' using Cons.prems by (intro Cons.IH) (simp_all add: mid)
  finally show ?case by (simp add: inp_def)
qed

lemma asc2bin_bin2asc:
  assumes "2 * length inp < length buf" and "inp \<noteq> []" and "length inp \<le> length out"
  shows "wb_asc2bin (wb_bin2asc inp buf) (2 * int (length inp)) out
    = (map hex_back inp @ drop (length inp) out, int (length inp))"
proof -
  have out: "out = [] @ take (length inp) out @ drop (length inp) out"
    by simp
  show ?thesis
    using assms asc2bin_loop_eq [of "[]" "[]" "take (length inp) out" inp "CHR 0x00 # drop (Suc (2 * length inp)) buf"
        "drop (length inp) out"]
    by (simp add: wb_asc2bin_def wb_bin2asc_eq min_absorb2)
qed

subsection \<open>Properties\<close>

text \<open>
  Hexadecimal round trip. For every non-empty buffer without the byte 0xba, with output
  buffers of the sizes the guards ask for, decoding the text that \<open>wb_bin2asc\<close> writes returns the
  buffer, its length, and the rest of the output untouched.
\<close>

lemma hex_roundtrip:
  assumes "2 * length inp < length buf" and "inp \<noteq> []" and "length inp \<le> length out" and "0xba \<notin> set inp"
  shows "wb_asc2bin (wb_bin2asc inp buf) (2 * int (length inp)) out
    = (inp @ drop (length inp) out, int (length inp))"
proof -
  have "map hex_back inp = inp"
    using assms(4) by (induction inp) (auto simp: hex_back_def)
  then show ?thesis
    using asc2bin_bin2asc [OF assms(1-3)] by simp
qed

lemma hex_roundtrip_witness:
  "wb_asc2bin (wb_bin2asc [0x1f, 0xb9] ''......'') (2 * int (length [0x1f, 0xb9 :: u8])) [0, 0, 7]
    = ([0x1f, 0xb9] @ drop (length [0x1f, 0xb9 :: u8]) [0, 0, 7], int (length [0x1f, 0xb9 :: u8]))"
  by (rule hex_roundtrip) simp_all

text \<open>
  The byte 0xba is the only one that does not survive: the text of every buffer decodes to the
  buffer with each 0xba replaced by 0x0a, because the table's entry 0xba is the text "0a".
\<close>

lemma hex_ba_lost:
  assumes "2 * length inp < length buf" and "inp \<noteq> []" and "length inp \<le> length out"
  shows "fst (wb_asc2bin (wb_bin2asc inp buf) (2 * int (length inp)) out)
    = map (\<lambda>b. if b = 0xba then 0x0a else b) inp @ drop (length inp) out"
  using asc2bin_bin2asc [OF assms] by (simp add: hex_back_def [abs_def])

lemma hex_ba_lost_witness:
  "fst (wb_asc2bin (wb_bin2asc [0xba] ''...'') (2 * int (length [0xba :: u8])) [0])
    = map (\<lambda>b. if b = 0xba then 0x0a else b) [0xba] @ drop (length [0xba :: u8]) [0 :: u8]"
  by (rule hex_ba_lost) simp_all

end
