(* ===== verification/Cfloat.thy ===== *)
theory Cfloat
  imports Complex_Main Prelude "HOL-Library.Log_Nat" "HOL-Library.Numeral_Type"
begin

text \<open>
  C's \<open>float\<close> and \<open>double\<close> as IEEE 754 binary32 and binary64 values. A value is a real number, an
  infinity or a NaN; every arithmetic operation computes exactly and then rounds to the nearest
  value of the format, ties to even, gradual underflow included, and overflows to an infinity.
  The sign of zero is not kept: a division by zero takes its sign from the dividend.

  The format is a phantom parameter, the number of significant bits: \<open>53 fp\<close> is \<open>double\<close>
  and \<open>24 fp\<close> is \<open>float\<close>. The operations are class instances, so that a formula of the model reads
  like the C expression, each \<open>+\<close>, \<open>-\<close>, \<open>*\<close>, \<open>/\<close> rounding once.

  A conversion to an integer type is an \<open>option\<close>: \<open>None\<close> is the undefined behaviour of C when the
  value is a NaN, an infinity or outside the target type.

  The lemmas: rounding is monotone and keeps representable numbers, so a result is caught between
  representable bounds (\<^verbatim>\<open>fp_round_between\<close>), which is what the component proofs use.
\<close>

subsection \<open>The binary exponent of a positive real\<close>

definition ilog2 :: "real \<Rightarrow> int" where
  "ilog2 x = (if 1 \<le> x then int (floorlog 2 (nat \<lfloor>x\<rfloor>)) - 1
              else - int (floorlog 2 (nat (\<lceil>1 / x\<rceil> - 1))))"

lemma floorlog2_real_bounds:
  assumes "0 < n"
  shows "2 powi (int (floorlog 2 n) - 1) \<le> real n" and "real n + 1 \<le> 2 powi int (floorlog 2 n)"
    and "0 < floorlog 2 n"
proof -
  have b: "2 ^ (floorlog 2 n - 1) \<le> n \<and> n < 2 ^ floorlog 2 n"
    using floorlog_bounds [of n 2] assms by simp
  show pos: "0 < floorlog 2 n"
    using assms b by (cases "floorlog 2 n") auto
  have "real (2 ^ (floorlog 2 n - 1)) \<le> real n"
    using b by (simp only: of_nat_le_iff)
  moreover have "(2::real) powi (int (floorlog 2 n) - 1) = 2 ^ (floorlog 2 n - 1)"
    using pos by (simp add: power_int_def nat_diff_distrib)
  ultimately show "2 powi (int (floorlog 2 n) - 1) \<le> real n"
    by simp
  have "n + 1 \<le> 2 ^ floorlog 2 n"
    using b by linarith
  then have "real (n + 1) \<le> real (2 ^ floorlog 2 n)"
    by (simp only: of_nat_le_iff)
  then show "real n + 1 \<le> 2 powi int (floorlog 2 n)"
    by (simp add: add.commute)
qed

lemma ilog2_bounds:
  assumes "0 < x"
  shows "2 powi ilog2 x \<le> x" and "x < 2 powi (ilog2 x + 1)"
proof -
  have "2 powi ilog2 x \<le> x \<and> x < 2 powi (ilog2 x + 1)"
  proof (cases "1 \<le> x")
    case True
    define n where "n = nat \<lfloor>x\<rfloor>"
    have n: "0 < n" and le: "real n \<le> x" and lt: "x < real n + 1"
      using True unfolding n_def by linarith+
    show ?thesis
      using floorlog2_real_bounds [OF n] le lt True by (simp add: ilog2_def flip: n_def)
  next
    case False
    define m where "m = nat (\<lceil>1 / x\<rceil> - 1)"
    have y: "1 < 1 / x"
      using False assms by simp
    have m: "0 < m" and lt: "real m < 1 / x" and le: "1 / x \<le> real m + 1"
      using y unfolding m_def by linarith+
    note b = floorlog2_real_bounds [OF m]
    have il: "ilog2 x = - int (floorlog 2 m)"
      using False by (simp add: ilog2_def m_def)
    have "1 / x \<le> 2 powi int (floorlog 2 m)"
      using le b(2) by linarith
    then have "2 powi (- int (floorlog 2 m)) \<le> x"
      using assms by (simp add: power_int_minus field_simps)
    moreover have "2 powi (int (floorlog 2 m) - 1) < 1 / x"
      using lt b(1) by linarith
    then have "x < 2 powi (- (int (floorlog 2 m) - 1))"
      using assms by (simp only: power_int_minus) (simp add: field_simps)
    ultimately show ?thesis
      by (simp add: il algebra_simps)
  qed
  then show "2 powi ilog2 x \<le> x" and "x < 2 powi (ilog2 x + 1)"
    by auto
qed

lemma powi2_mono_iff: "(2::real) powi a \<le> 2 powi b \<longleftrightarrow> a \<le> b"
  by (meson less_eq_real_def linorder_not_less numeral_le_one_iff one_less_numeral_iff
      power_int_increasing power_int_strict_increasing semiring_norm(69) semiring_norm(76))

lemma powi2_less_iff: "(2::real) powi a < 2 powi b \<longleftrightarrow> a < b"
  using powi2_mono_iff [of b a] by linarith

lemma powi2_split: "u \<le> e \<Longrightarrow> (2::real) powi e = 2 ^ nat (e - u) * 2 powi u"
  using power_int_add [of "2::real" "e - u" u] by (simp add: power_int_def)

lemma ilog2_unique:
  assumes "2 powi e \<le> x" and "x < 2 powi (e + 1)"
  shows "ilog2 x = e"
proof -
  have x: "0 < x"
    using assms(1) zero_less_power_int [of "2::real" e] by linarith
  have "(2::real) powi e < 2 powi (ilog2 x + 1)" and "(2::real) powi ilog2 x < 2 powi (e + 1)"
    using ilog2_bounds [OF x] assms by linarith+
  then show ?thesis
    by (simp add: powi2_less_iff)
qed

lemma ilog2_mono:
  assumes "0 < x" and "x \<le> y"
  shows "ilog2 x \<le> ilog2 y"
proof -
  have "(2::real) powi ilog2 x < 2 powi (ilog2 y + 1)"
    using ilog2_bounds [of x] ilog2_bounds [of y] assms by linarith
  then show ?thesis by (simp add: powi2_less_iff)
qed


subsection \<open>Rounding to nearest, ties to even\<close>

definition rhe :: "real \<Rightarrow> int" where
  "rhe x = (let n = \<lfloor>x\<rfloor>; d = x - of_int n in
     if d < 1 / 2 then n else if 1 / 2 < d then n + 1 else if even n then n else n + 1)"

lemma rhe_of_int [simp]: "rhe (of_int n) = n"
  by (simp add: rhe_def)

lemma rhe_near: "\<bar>of_int (rhe x) - x\<bar> \<le> 1 / 2"
  unfolding rhe_def Let_def by (auto split: if_splits)

lemma rhe_cases: "rhe x = \<lfloor>x\<rfloor> \<or> rhe x = \<lfloor>x\<rfloor> + 1"
  by (auto simp: rhe_def Let_def)

lemma rhe_mono:
  assumes "x \<le> y"
  shows "rhe x \<le> rhe y"
proof (cases "\<lfloor>x\<rfloor> = \<lfloor>y\<rfloor>")
  case True
  then show ?thesis using assms by (auto simp: rhe_def Let_def)
next
  case False
  then have "\<lfloor>x\<rfloor> + 1 \<le> \<lfloor>y\<rfloor>"
    using floor_mono [OF assms] by linarith
  then show ?thesis
    using rhe_cases [of x] rhe_cases [of y] by linarith
qed

lemma rhe_nonneg: "0 \<le> x \<Longrightarrow> 0 \<le> rhe x"
  using rhe_mono [of 0 x] rhe_of_int [of 0] by simp

text \<open>
  The unit in the last place of a positive \<open>x\<close> with \<open>p\<close> significant bits and least exponent \<open>em\<close>,
  and the rounding of \<open>x\<close> to a multiple of it.
\<close>

definition ulp_exp :: "nat \<Rightarrow> int \<Rightarrow> real \<Rightarrow> int" where
  "ulp_exp p em x = max (ilog2 x - (int p - 1)) em"

definition round_pos :: "nat \<Rightarrow> int \<Rightarrow> real \<Rightarrow> real" where
  "round_pos p em x = of_int (rhe (x / 2 powi ulp_exp p em x)) * 2 powi ulp_exp p em x"

definition fround :: "nat \<Rightarrow> int \<Rightarrow> real \<Rightarrow> real" where
  "fround p em x = (if x = 0 then 0 else if 0 < x then round_pos p em x else - round_pos p em (- x))"

definition representable :: "nat \<Rightarrow> int \<Rightarrow> real \<Rightarrow> bool" where
  "representable p em x \<longleftrightarrow> fround p em x = x"

lemma fround_0 [simp]: "fround p em 0 = 0"
  by (simp add: fround_def)

lemma fround_minus: "fround p em (- x) = - fround p em x"
  by (simp add: fround_def)

lemma round_pos_nonneg: "0 < x \<Longrightarrow> 0 \<le> round_pos p em x"
  by (simp add: round_pos_def rhe_nonneg)

lemma round_pos_exact:
  assumes "0 < x" and "x = of_int m * 2 powi e" and "ulp_exp p em x \<le> e"
  shows "round_pos p em x = x"
proof -
  define u where "u = ulp_exp p em x"
  have "(2::real) powi e = 2 ^ nat (e - u) * 2 powi u"
    using powi2_split assms(3) by (simp add: u_def)
  then have "x / 2 powi u = of_int (m * 2 ^ nat (e - u))"
    using assms(2) by simp
  then have r: "rhe (x / 2 powi u) = m * 2 ^ nat (e - u)"
    and x: "of_int (m * 2 ^ nat (e - u)) * 2 powi u = x"
    by (simp only: rhe_of_int, simp add: field_simps)
  have "round_pos p em x = of_int (rhe (x / 2 powi u)) * 2 powi u"
    by (simp only: round_pos_def u_def)
  then show ?thesis
    by (simp only: r x)
qed

lemma round_pos_powi:
  assumes "em \<le> e" and "0 < p"
  shows "round_pos p em (2 powi e) = 2 powi e"
proof -
  have "ilog2 (2 powi e) = e"
    by (rule ilog2_unique) (simp_all add: powi2_less_iff)
  then show ?thesis
    using assms by (intro round_pos_exact [where m = 1 and e = e]) (auto simp: ulp_exp_def)
qed

lemma round_pos_le_multiple:
  assumes "x \<le> of_int k * 2 powi ulp_exp p em x"
  shows "round_pos p em x \<le> of_int k * 2 powi ulp_exp p em x"
proof -
  have "x / 2 powi ulp_exp p em x \<le> of_int k"
    using assms by (simp add: field_simps)
  then have "rhe (x / 2 powi ulp_exp p em x) \<le> k"
    using rhe_mono [of _ "of_int k"] by simp
  then show ?thesis
    by (simp add: round_pos_def)
qed

lemma round_pos_ge_multiple:
  assumes "of_int k * 2 powi ulp_exp p em x \<le> x"
  shows "of_int k * 2 powi ulp_exp p em x \<le> round_pos p em x"
proof -
  have "of_int k \<le> x / 2 powi ulp_exp p em x"
    using assms by (simp add: field_simps)
  then have "k \<le> rhe (x / 2 powi ulp_exp p em x)"
    using rhe_mono [of "of_int k"] by simp
  then show ?thesis
    by (simp add: round_pos_def)
qed

lemma round_pos_le_powi:
  assumes "ulp_exp p em x \<le> e" and "x \<le> 2 powi e"
  shows "round_pos p em x \<le> 2 powi e"
  using round_pos_le_multiple [of x "2 ^ nat (e - ulp_exp p em x)" p em] assms
  by (simp add: powi2_split [OF assms(1)])

lemma round_pos_ge_powi:
  assumes "ulp_exp p em x \<le> e" and "2 powi e \<le> x"
  shows "2 powi e \<le> round_pos p em x"
  using round_pos_ge_multiple [of "2 ^ nat (e - ulp_exp p em x)" p em x] assms
  by (simp add: powi2_split [OF assms(1)])

lemma round_pos_mono:
  assumes "0 < x" and "x \<le> y" and "0 < p"
  shows "round_pos p em x \<le> round_pos p em y"
proof (cases "ulp_exp p em x = ulp_exp p em y")
  case True
  have "x / 2 powi ulp_exp p em y \<le> y / 2 powi ulp_exp p em y"
    using assms(2) by (simp add: divide_right_mono)
  then show ?thesis
    by (simp add: round_pos_def True rhe_mono)
next
  case False
  note il = ilog2_mono [OF assms(1,2)]
  have ylog: "ulp_exp p em x < ulp_exp p em y" "ulp_exp p em y \<le> ilog2 y"
    and xlog: "ilog2 x < ilog2 y" "ulp_exp p em x \<le> max (ilog2 x + 1) (ulp_exp p em x)"
    using il False \<open>0 < p\<close> by (auto simp: ulp_exp_def max_def split: if_splits)
  have "x \<le> 2 powi max (ilog2 x + 1) (ulp_exp p em x)"
    using ilog2_bounds(2) [OF assms(1)] powi2_mono_iff [of "ilog2 x + 1" "max (ilog2 x + 1) (ulp_exp p em x)"]
    by simp
  then have "round_pos p em x \<le> 2 powi max (ilog2 x + 1) (ulp_exp p em x)"
    by (rule round_pos_le_powi [OF xlog(2)])
  also have "\<dots> \<le> 2 powi ilog2 y"
    unfolding powi2_mono_iff using xlog(1) ylog by simp
  also have "\<dots> \<le> round_pos p em y"
    using round_pos_ge_powi [OF ylog(2)] ilog2_bounds(1) [of y] assms by simp
  finally show ?thesis .
qed

lemma fround_mono:
  assumes "x \<le> y" and "0 < p"
  shows "fround p em x \<le> fround p em y"
proof -
  consider "0 < x" | "x \<le> 0" "0 \<le> y" | "y < 0" by linarith
  then show ?thesis
  proof cases
    case 1
    then show ?thesis using assms by (simp add: fround_def round_pos_mono)
  next
    case 2
    then show ?thesis
      using round_pos_nonneg [of "- x" p em] round_pos_nonneg [of y p em] by (auto simp: fround_def)
  next
    case 3
    then show ?thesis using assms round_pos_mono [of "- y" "- x" p em] by (simp add: fround_def)
  qed
qed

lemma representable_between:
  assumes "representable p em a" and "representable p em b" and "a \<le> x" and "x \<le> b" and "0 < p"
  shows "a \<le> fround p em x" and "fround p em x \<le> b"
  using fround_mono [OF assms(3,5), of em] fround_mono [OF assms(4,5), of em] assms(1,2)
  by (simp_all add: representable_def)

text \<open>Every \<open>m * 2^e\<close> with at most \<open>p\<close> significant bits is representable.\<close>

lemma representable_dyadic:
  assumes "\<bar>m\<bar> < 2 ^ p" and "em \<le> e" and "x = of_int m * 2 powi e"
  shows "representable p em x"
proof -
  have pos: "fround p em (of_int k * 2 powi e) = of_int k * 2 powi e"
    if k: "0 < k" "k < 2 ^ p" for k :: int
  proof -
    define z where "z = of_int k * (2::real) powi e"
    have z: "0 < z" using k by (simp add: z_def)
    have "of_int k < (of_int (2 ^ p) :: real)"
      using k by (simp only: of_int_less_iff)
    then have "z < 2 powi (int p + e)"
      by (simp add: z_def power_int_add)
    then have "(2::real) powi ilog2 z < 2 powi (int p + e)"
      using ilog2_bounds(1) [OF z] by linarith
    then have "ulp_exp p em z \<le> e"
      using assms(2) by (simp add: powi2_less_iff ulp_exp_def)
    from round_pos_exact [OF z z_def this] z show ?thesis
      by (simp add: fround_def flip: z_def)
  qed
  consider "m = 0" | "0 < m" | "m < 0" by linarith
  then show ?thesis
  proof cases
    case 1
    then show ?thesis using assms by (simp add: representable_def)
  next
    case 2
    then show ?thesis using assms pos [of m] by (simp add: representable_def)
  next
    case 3
    then show ?thesis
      using assms pos [of "- m"] fround_minus [of p em "of_int (- m) * 2 powi e"]
      by (simp add: representable_def)
  qed
qed

subsection \<open>Floating point values and their operations\<close>

datatype 'p fp = Fin real | PInf | NInf | NaN

type_synonym double = "53 fp"
type_synonym float = "24 fp"

definition emin_of :: "nat \<Rightarrow> int" where
  "emin_of p = (if p = 24 then - 149 else - 1074)"

definition emax_of :: "nat \<Rightarrow> int" where
  "emax_of p = (if p = 24 then 127 else 1023)"

definition fp_round :: "real \<Rightarrow> 'p::len fp" where
  "fp_round x = (let r = fround LENGTH('p) (emin_of LENGTH('p)) x in
     if 2 powi (emax_of LENGTH('p) + 1) \<le> r then PInf
     else if r \<le> - (2 powi (emax_of LENGTH('p) + 1)) then NInf
     else Fin r)"

fun fp_neg :: "'p fp \<Rightarrow> 'p fp" where
  "fp_neg (Fin x) = Fin (- x)"
| "fp_neg PInf = NInf"
| "fp_neg NInf = PInf"
| "fp_neg NaN = NaN"

fun fp_add :: "'p::len fp \<Rightarrow> 'p fp \<Rightarrow> 'p fp" where
  "fp_add (Fin x) (Fin y) = fp_round (x + y)"
| "fp_add NaN _ = NaN"
| "fp_add _ NaN = NaN"
| "fp_add PInf NInf = NaN"
| "fp_add NInf PInf = NaN"
| "fp_add PInf _ = PInf"
| "fp_add _ PInf = PInf"
| "fp_add NInf _ = NInf"
| "fp_add _ NInf = NInf"

definition fp_inf_times :: "bool \<Rightarrow> real \<Rightarrow> 'p fp" where
  "fp_inf_times pos x = (if x = 0 then NaN else if pos = (0 < x) then PInf else NInf)"

fun fp_mul :: "'p::len fp \<Rightarrow> 'p fp \<Rightarrow> 'p fp" where
  "fp_mul (Fin x) (Fin y) = fp_round (x * y)"
| "fp_mul NaN _ = NaN"
| "fp_mul _ NaN = NaN"
| "fp_mul PInf PInf = PInf"
| "fp_mul PInf NInf = NInf"
| "fp_mul NInf PInf = NInf"
| "fp_mul NInf NInf = PInf"
| "fp_mul PInf (Fin y) = fp_inf_times True y"
| "fp_mul NInf (Fin y) = fp_inf_times False y"
| "fp_mul (Fin x) PInf = fp_inf_times True x"
| "fp_mul (Fin x) NInf = fp_inf_times False x"

fun fp_div :: "'p::len fp \<Rightarrow> 'p fp \<Rightarrow> 'p fp" where
  "fp_div (Fin x) (Fin y) = (if y = 0 then fp_inf_times True x else fp_round (x / y))"
| "fp_div NaN _ = NaN"
| "fp_div _ NaN = NaN"
| "fp_div (Fin x) _ = Fin 0"
| "fp_div PInf (Fin y) = (if y < 0 then NInf else PInf)"
| "fp_div NInf (Fin y) = (if y < 0 then PInf else NInf)"
| "fp_div _ _ = NaN"

fun fp_less :: "'p fp \<Rightarrow> 'p fp \<Rightarrow> bool" where
  "fp_less (Fin x) (Fin y) = (x < y)"
| "fp_less NaN _ = False"
| "fp_less _ NaN = False"
| "fp_less NInf b = (b \<noteq> NInf)"
| "fp_less (Fin x) PInf = True"
| "fp_less _ _ = False"

text \<open>C's \<open>==\<close>: a NaN is not equal to itself, so \<open>x != y\<close> in the code is \<open>\<not> fp_eq x y\<close>.\<close>

definition fp_eq :: "'p fp \<Rightarrow> 'p fp \<Rightarrow> bool" where
  "fp_eq a b \<longleftrightarrow> a \<noteq> NaN \<and> a = b"

instantiation fp :: (len) "{plus, times, uminus, minus, divide, inverse, zero, ord}"
begin
definition plus_fp_def [simp]: "a + b = fp_add a (b :: 'a fp)"
definition times_fp_def [simp]: "a * b = fp_mul a (b :: 'a fp)"
definition uminus_fp_def [simp]: "- a = fp_neg (a :: 'a fp)"
definition minus_fp_def [simp]: "a - b = fp_add a (fp_neg (b :: 'a fp))"
definition divide_fp_def [simp]: "a div b = fp_div a (b :: 'a fp)"
definition inverse_fp_def [simp]: "inverse b = fp_div (Fin 1) (b :: 'a fp)"
definition zero_fp_def [simp]: "0 = (Fin 0 :: 'a fp)"
definition less_fp_def [simp]: "a < b \<longleftrightarrow> fp_less a (b :: 'a fp)"
definition less_eq_fp_def [simp]: "a \<le> b \<longleftrightarrow> fp_less a b \<or> fp_eq a (b :: 'a fp)"
instance ..
end

text \<open>Literals of the code, conversions between the formats, and from the integer types.\<close>

definition fp_lit :: "real \<Rightarrow> 'p::len fp" where
  "fp_lit x = fp_round x"

definition fp_of_int :: "int \<Rightarrow> 'p::len fp" where
  "fp_of_int i = fp_round (of_int i)"

fun fp_conv :: "'p fp \<Rightarrow> 'q::len fp" where
  "fp_conv (Fin x) = fp_round x"
| "fp_conv PInf = PInf"
| "fp_conv NInf = NInf"
| "fp_conv NaN = NaN"

text \<open>The functions of \<open>math.h\<close> the code calls; \<open>sqrt\<close> and \<open>pow\<close> are correctly rounded.\<close>

fun fp_fabs :: "'p fp \<Rightarrow> 'p fp" where
  "fp_fabs (Fin x) = Fin \<bar>x\<bar>"
| "fp_fabs NaN = NaN"
| "fp_fabs _ = PInf"

fun fp_sqrt :: "'p::len fp \<Rightarrow> 'p fp" where
  "fp_sqrt (Fin x) = (if x < 0 then NaN else fp_round (sqrt x))"
| "fp_sqrt PInf = PInf"
| "fp_sqrt _ = NaN"

fun fp_ceil :: "'p fp \<Rightarrow> 'p fp" where
  "fp_ceil (Fin x) = Fin (of_int \<lceil>x\<rceil>)"
| "fp_ceil a = a"

text \<open>\<open>pow (b, y)\<close> for a base \<open>0 < b\<close> and a finite exponent, the only ones the code passes.\<close>

fun fp_pow :: "'p::len fp \<Rightarrow> 'p fp \<Rightarrow> 'p fp" where
  "fp_pow (Fin b) (Fin y) = (if 0 < b then fp_round (b powr y) else NaN)"
| "fp_pow _ _ = NaN"

text \<open>Conversions to the integer types, by truncation; \<open>None\<close> is undefined behaviour.\<close>

definition trunc_real :: "real \<Rightarrow> int" where
  "trunc_real x = (if 0 \<le> x then \<lfloor>x\<rfloor> else \<lceil>x\<rceil>)"

fun fp_to_int_in :: "int \<Rightarrow> int \<Rightarrow> 'p fp \<Rightarrow> int option" where
  "fp_to_int_in lo hi (Fin x) = (let i = trunc_real x in if lo \<le> i \<and> i \<le> hi then Some i else None)"
| "fp_to_int_in lo hi _ = None"

definition fp_to_u32 :: "'p fp \<Rightarrow> u32 option" where
  "fp_to_u32 a = map_option word_of_int (fp_to_int_in 0 4294967295 a)"

definition fp_to_s32 :: "'p fp \<Rightarrow> int option" where
  "fp_to_s32 a = fp_to_int_in (- 2147483648) 2147483647 a"

definition fp_to_s64 :: "'p fp \<Rightarrow> int option" where
  "fp_to_s64 a = fp_to_int_in (- 9223372036854775808) 9223372036854775807 a"

subsection \<open>Catching a result between bounds\<close>

abbreviation fmt_rep :: "'p::len itself \<Rightarrow> real \<Rightarrow> bool" where
  "fmt_rep _ x \<equiv> representable LENGTH('p) (emin_of LENGTH('p)) x \<and> \<bar>x\<bar> < 2 powi (emax_of LENGTH('p) + 1)"

lemma fp_round_between:
  assumes "fmt_rep TYPE('p::len) a" and "fmt_rep TYPE('p) b" and "a \<le> x" and "x \<le> b"
  shows "\<exists>r. (fp_round x :: 'p fp) = Fin r \<and> a \<le> r \<and> r \<le> b"
proof -
  have "a \<le> fround LENGTH('p) (emin_of LENGTH('p)) x" and "fround LENGTH('p) (emin_of LENGTH('p)) x \<le> b"
    using representable_between [of _ _ a b x] assms by auto
  then show ?thesis
    using assms(1,2) by (auto simp: fp_round_def Let_def)
qed

lemma fp_round_exact:
  assumes "fmt_rep TYPE('p::len) x"
  shows "(fp_round x :: 'p fp) = Fin x"
  using fp_round_between [OF assms assms, of x] by auto

lemma fmt_rep_dyadic:
  assumes "\<bar>m\<bar> < 2 ^ LENGTH('p::len)" and "emin_of LENGTH('p) \<le> e" and "x = of_int m * 2 powi e"
    and "\<bar>x\<bar> < 2 powi (emax_of LENGTH('p) + 1)"
  shows "fmt_rep TYPE('p) x"
  using representable_dyadic [OF assms(1,2,3)] assms(4) by simp

lemma powi2_emax_ge:
  "(2::real) ^ 24 \<le> 2 powi (emax_of p + 1)"
  by (simp add: emax_of_def power_int_def nat_add_distrib)

lemma fmt_rep_of_int:
  assumes "\<bar>n\<bar> < 2 ^ 24" and "24 \<le> LENGTH('p::len)"
  shows "fmt_rep TYPE('p) (of_int n)"
proof (rule fmt_rep_dyadic [where m = n and e = 0])
  have "(2::int) ^ 24 \<le> 2 ^ LENGTH('p)"
    using assms(2) by (intro power_increasing) auto
  then show "\<bar>n\<bar> < 2 ^ LENGTH('p)" using assms(1) by linarith
  have "\<bar>of_int n\<bar> < (of_int (2 ^ 24) :: real)"
    using assms(1) by (simp only: of_int_less_iff flip: of_int_abs)
  then show "\<bar>real_of_int n\<bar> < 2 powi (emax_of LENGTH('p) + 1)"
    using powi2_emax_ge [of "LENGTH('p)"] by simp
qed (simp_all add: emin_of_def)

text \<open>Evaluation of a concrete rounding: the facts \<open>simp\<close> needs.\<close>

lemmas fp_eval = fp_round_def fround_def round_pos_def ulp_exp_def ilog2_def rhe_def Let_def
  emin_of_def emax_of_def compute_floorlog power_int_def trunc_real_def

end
