(* ===== verification/Rate_Stat.thy ===== *)
theory Rate_Stat
  imports Cfloat
begin

text \<open>
  \<^verbatim>\<open>estimator/rate_stat.c\<close>: a sliding window that sums the sizes reported in the last
  \<open>wnd_size\<close> milliseconds, one bucket per millisecond in a ring. \<open>None\<close> is an access outside the
  ring, a zero window or a conversion of a floating point value that does not fit an \<open>int\<close>.

  The lemmas: \<open>rs_rel\<close> relates a ring to the log of its updates (each bucket holds the log entries
  of one millisecond, and the two totals are those of the ring); erasing and updating keep it, so
  the totals are exactly those of the log entries inside the window.
\<close>

record rate_bucket =
  b_sum :: int
  b_sample :: int

record rate_stat =
  oldest_ts :: int
  oldest_index :: int
  buckets :: "rate_bucket list"
  rs_wnd_size :: int
  rs_scale :: float
  accumulated_count :: int
  sample_num :: int

abbreviation empty_bucket :: rate_bucket where
  "empty_bucket \<equiv> \<lparr>b_sum = 0, b_sample = 0\<rparr>"

definition rate_stat_init :: "int \<Rightarrow> float \<Rightarrow> rate_stat" where
  "rate_stat_init wnd scale = \<lparr>oldest_ts = -1, oldest_index = 0, buckets = replicate (nat wnd) empty_bucket,
     rs_wnd_size = wnd, rs_scale = scale, accumulated_count = 0, sample_num = 0\<rparr>"

definition rate_stat_destroy :: "rate_stat \<Rightarrow> rate_stat" where
  "rate_stat_destroy r = r\<lparr>buckets := []\<rparr>"

definition rate_stat_reset :: "rate_stat \<Rightarrow> rate_stat" where
  "rate_stat_reset r = r\<lparr>accumulated_count := 0, sample_num := 0, oldest_index := 0, oldest_ts := -1,
     buckets := map (\<lambda>_. empty_bucket) (take (nat (rs_wnd_size r)) (buckets r)) @ drop (nat (rs_wnd_size r)) (buckets r)\<rparr>"

definition erase_bucket :: "rate_stat \<Rightarrow> rate_stat" where
  "erase_bucket r =
     (let b = buckets r ! nat (oldest_index r);
          i = oldest_index r + 1
      in r\<lparr>sample_num := sample_num r - b_sample b, accumulated_count := s32 (accumulated_count r - b_sum b),
           buckets := (buckets r)[nat (oldest_index r) := empty_bucket],
           oldest_index := (if rs_wnd_size r \<le> i then 0 else i), oldest_ts := oldest_ts r + 1\<rparr>)"

function erase_loop :: "int \<Rightarrow> rate_stat \<Rightarrow> rate_stat option" where
  "erase_loop new_oldest_ts r =
     (if 0 < sample_num r \<and> oldest_ts r < new_oldest_ts
      then (if 0 \<le> oldest_index r \<and> nat (oldest_index r) < length (buckets r)
            then erase_loop new_oldest_ts (erase_bucket r) else None)
      else Some r)"
  by pat_completeness auto
termination
  by (relation "measure (\<lambda>(n, r). nat (n - oldest_ts r))") (auto simp: erase_bucket_def Let_def)

declare erase_loop.simps [simp del]

definition rate_stat_erase :: "rate_stat \<Rightarrow> int \<Rightarrow> rate_stat option" where
  "rate_stat_erase r now_ts =
     (if oldest_ts r = -1 then Some r
      else (let new_oldest_ts = s32 (now_ts - rs_wnd_size r + 1) in
        if new_oldest_ts \<le> oldest_ts r then Some r
        else map_option (\<lambda>r. r\<lparr>oldest_ts := new_oldest_ts\<rparr>) (erase_loop new_oldest_ts r)))"

definition rate_stat_update :: "rate_stat \<Rightarrow> nat \<Rightarrow> int \<Rightarrow> rate_stat option" where
  "rate_stat_update r count now_ts =
     (if now_ts < oldest_ts r then Some r
      else case rate_stat_erase r now_ts of None \<Rightarrow> None
      | Some r \<Rightarrow>
         (let r = (if oldest_ts r = -1 then r\<lparr>oldest_ts := now_ts\<rparr> else r);
              ts_offset = s32 (now_ts - oldest_ts r);
              index = (oldest_index r + ts_offset) smod rs_wnd_size r
          in if rs_wnd_size r = 0 \<or> index < 0 \<or> length (buckets r) \<le> nat index then None
             else (let b = buckets r ! nat index in
               Some (r\<lparr>buckets := (buckets r)[nat index := \<lparr>b_sum = s32 (b_sum b + int count), b_sample = b_sample b + 1\<rparr>],
                       sample_num := sample_num r + 1, accumulated_count := s32 (accumulated_count r + int count)\<rparr>))))"

definition rate_stat_rate :: "rate_stat \<Rightarrow> int \<Rightarrow> (rate_stat \<times> int) option" where
  "rate_stat_rate r now_ts =
     (case rate_stat_erase r now_ts of None \<Rightarrow> None
      | Some r \<Rightarrow>
         (let active_wnd_size = s32 (now_ts - oldest_ts r + 1) in
          if sample_num r = 0 \<or> active_wnd_size \<le> 1 \<or> (sample_num r = 1 \<and> active_wnd_size \<le> rs_wnd_size r)
          then Some (r, -1)
          else map_option (\<lambda>v. (r, v))
            (fp_to_s32 ((fp_conv (fp_of_int (accumulated_count r) * rs_scale r div fp_of_int active_wnd_size) :: double)
              + fp_lit 0.5))))"

lemma smod_nonneg_pos: "0 \<le> (x :: int) \<Longrightarrow> 0 < n \<Longrightarrow> x smod n = x mod n"
  by (cases "x = 0") (auto simp: signed_modulo_int_def)

subsection \<open>The log of updates behind a ring\<close>

type_synonym rate_log = "(int \<times> nat) list"

definition log_bucket :: "rate_log \<Rightarrow> int \<Rightarrow> rate_bucket" where
  "log_bucket lg t =
     \<lparr>b_sum = s32 (sum_list (map (\<lambda>(t', c). int c) (filter (\<lambda>(t', c). t' = t) lg))),
      b_sample = int (length (filter (\<lambda>(t', c). t' = t) lg))\<rparr>"

definition ring_ix :: "rate_stat \<Rightarrow> int \<Rightarrow> nat" where
  "ring_ix r j = nat ((oldest_index r + j) mod rs_wnd_size r)"

definition rs_wf :: "rate_stat \<Rightarrow> bool" where
  "rs_wf r \<longleftrightarrow> 0 < rs_wnd_size r \<and> rs_wnd_size r < 2147483648 \<and> length (buckets r) = nat (rs_wnd_size r)
     \<and> 0 \<le> oldest_index r \<and> oldest_index r < rs_wnd_size r
     \<and> sample_num r = sum_list (map b_sample (buckets r))
     \<and> accumulated_count r = s32 (sum_list (map b_sum (buckets r)))"

definition rs_rel :: "rate_stat \<Rightarrow> rate_log \<Rightarrow> bool" where
  "rs_rel r lg \<longleftrightarrow> rs_wf r \<and> (\<forall>(t, c) \<in> set lg. 0 \<le> t)
     \<and> (if oldest_ts r = -1 then lg = [] \<and> set (buckets r) = {empty_bucket}
        else 0 \<le> oldest_ts r \<and> (\<forall>(t, c) \<in> set lg. t < oldest_ts r + rs_wnd_size r)
          \<and> (\<forall>j. 0 \<le> j \<longrightarrow> j < rs_wnd_size r \<longrightarrow> buckets r ! ring_ix r j = log_bucket lg (oldest_ts r + j)))"

lemma ring_ix_oldest [simp]: "ring_ix (r\<lparr>oldest_ts := n\<rparr>) j = ring_ix r j"
  by (simp add: ring_ix_def)

lemma s32_cong: "x mod 4294967296 = y mod 4294967296 \<Longrightarrow> s32 x = s32 y"
proof -
  assume "x mod 4294967296 = y mod 4294967296"
  then have "(x + 2147483648) mod 4294967296 = (y + 2147483648) mod 4294967296"
    by (rule mod_add_cong) simp
  then show ?thesis by (simp add: s32_def)
qed

lemma s32_mod: "s32 x mod 4294967296 = x mod 4294967296"
  by (simp add: s32_def mod_simps)

lemma s32_add_s32: "s32 (s32 x + y) = s32 (x + y)" "s32 (y + s32 x) = s32 (y + x)" "s32 (s32 x - y) = s32 (x - y)"
    "s32 (y - s32 x) = s32 (y - x)"
  by (rule s32_cong, rule mod_add_cong mod_diff_cong; simp add: s32_mod)+

lemma ring_ix_less: "rs_wf r \<Longrightarrow> ring_ix r j < length (buckets r)"
  by (simp add: ring_ix_def rs_wf_def nat_less_iff)

lemma ring_ix_inj:
  assumes "rs_wf r" and "0 \<le> i" and "i < rs_wnd_size r" and "0 \<le> j" and "j < rs_wnd_size r" and "ring_ix r i = ring_ix r j"
  shows "i = j"
proof -
  have "(oldest_index r + i) mod rs_wnd_size r = (oldest_index r + j) mod rs_wnd_size r"
    using assms(1,6) by (simp add: ring_ix_def rs_wf_def eq_nat_nat_iff)
  then have "(oldest_index r + i - oldest_index r) mod rs_wnd_size r = (oldest_index r + j - oldest_index r) mod rs_wnd_size r"
    by (rule mod_diff_cong) simp
  then have "i mod rs_wnd_size r = j mod rs_wnd_size r"
    by simp
  then show ?thesis using assms by simp
qed

lemma ring_ix_surj:
  assumes "rs_wf r" and "k < length (buckets r)"
  obtains j where "0 \<le> j" and "j < rs_wnd_size r" and "ring_ix r j = k"
proof
  define j where "j = (int k - oldest_index r) mod rs_wnd_size r"
  show "0 \<le> j" and "j < rs_wnd_size r"
    using assms(1) by (simp_all add: j_def rs_wf_def)
  have "(oldest_index r + j) mod rs_wnd_size r = int k mod rs_wnd_size r"
    by (simp add: j_def mod_simps)
  then show "ring_ix r j = k"
    using assms by (simp add: ring_ix_def rs_wf_def)
qed

text \<open>A sum over the ring is a sum over the window.\<close>

lemma ring_sum:
  assumes "rs_wf r"
  shows "sum_list (map f (buckets r)) = (\<Sum>j = 0..<rs_wnd_size r. f (buckets r ! ring_ix r j) :: int)"
proof -
  have "sum_list (map f (buckets r)) = (\<Sum>k = 0..<length (buckets r). f (buckets r ! k))"
    by (simp add: sum_list_sum_nth)
  also have "\<dots> = (\<Sum>k \<in> ring_ix r ` {0..<rs_wnd_size r}. f (buckets r ! k))"
  proof (rule sum.cong)
    show "{0..<length (buckets r)} = ring_ix r ` {0..<rs_wnd_size r}"
    proof (rule set_eqI)
      fix k
      show "k \<in> {0..<length (buckets r)} \<longleftrightarrow> k \<in> ring_ix r ` {0..<rs_wnd_size r}"
        using ring_ix_surj [OF assms, of k] ring_ix_less [OF assms] by (auto simp: image_iff Bex_def)
    qed
  qed simp
  also have "\<dots> = (\<Sum>j = 0..<rs_wnd_size r. f (buckets r ! ring_ix r j))"
    using ring_ix_inj [OF assms] by (subst sum.reindex) (auto simp: inj_on_def)
  finally show ?thesis .
qed

lemma log_sum_window:
  fixes g :: "nat \<Rightarrow> int" and lg :: rate_log
  assumes "\<forall>(t, c) \<in> set lg. t < a + n"
  shows "(\<Sum>j = 0..<n. sum_list (map (\<lambda>(t', c). g c) (filter (\<lambda>(t', c). t' = a + j) lg)))
    = sum_list (map (\<lambda>(t, c). g c) (filter (\<lambda>(t, c). a \<le> t) lg))"
  using assms
proof (induction lg)
  case Nil
  then show ?case by simp
next
  case (Cons x lg)
  obtain t c where x: "x = (t, c)" by (cases x)
  have "(\<Sum>j = 0..<n. sum_list (map (\<lambda>(t', c). g c) (filter (\<lambda>(t', c). t' = a + j) (x # lg))))
      = (\<Sum>j = 0..<n. (if j = t - a then g c else 0) + sum_list (map (\<lambda>(t', c). g c) (filter (\<lambda>(t', c). t' = a + j) lg)))"
    by (rule sum.cong) (auto simp: x)
  also have "\<dots> = (\<Sum>j = 0..<n. if j = t - a then g c else 0) + sum_list (map (\<lambda>(t, c). g c) (filter (\<lambda>(t, c). a \<le> t) lg))"
    using Cons by (simp add: sum.distrib)
  also have "(\<Sum>j = 0..<n. if j = t - a then g c else 0) = (if a \<le> t then g c else 0)"
    using Cons.prems by (auto simp: x sum.delta)
  finally show ?case by (auto simp: x)
qed

lemma log_bucket_empty: "\<forall>(t', c) \<in> set lg. t' \<noteq> t \<Longrightarrow> log_bucket lg t = empty_bucket"
proof -
  assume "\<forall>(t', c) \<in> set lg. t' \<noteq> t"
  then have "filter (\<lambda>(t', c). t' = t) lg = []"
    by (auto simp: filter_empty_conv)
  then show ?thesis by (simp add: log_bucket_def s32_def)
qed

lemma log_bucket_sample: "b_sample (log_bucket lg t) = 0 \<longleftrightarrow> (\<forall>(t', c) \<in> set lg. t' \<noteq> t)"
  by (auto simp: log_bucket_def filter_empty_conv split: prod.splits)

lemma log_bucket_nonneg: "0 \<le> b_sample (log_bucket lg t)"
  by (simp add: log_bucket_def)

definition window_bytes :: "rate_log \<Rightarrow> int \<Rightarrow> int" where
  "window_bytes lg a = sum_list (map (\<lambda>(t, c). int c) (filter (\<lambda>(t, c). a \<le> t) lg))"

definition window_samples :: "rate_log \<Rightarrow> int \<Rightarrow> int" where
  "window_samples lg a = int (length (filter (\<lambda>(t, c). a \<le> t) lg))"

lemma s32_sum: "s32 (\<Sum>j \<in> A. s32 (f j)) = s32 (\<Sum>j \<in> A. f j)"
proof (induction A rule: infinite_finite_induct)
  case (insert x A)
  have "s32 (s32 (f x) + (\<Sum>j \<in> A. s32 (f j))) = s32 (f x + s32 (\<Sum>j \<in> A. s32 (f j)))"
    by (simp only: s32_add_s32)
  then show ?case
    using insert by (simp add: s32_add_s32)
qed (simp_all add: s32_def)

lemma rs_totals:
  assumes "rs_rel r lg" and "oldest_ts r \<noteq> -1"
  shows "sample_num r = window_samples lg (oldest_ts r)"
    and "accumulated_count r = s32 (window_bytes lg (oldest_ts r))"
proof -
  define n where "n = rs_wnd_size r"
  have wf: "rs_wf r" and bk: "\<And>j. 0 \<le> j \<Longrightarrow> j < n \<Longrightarrow> buckets r ! ring_ix r j = log_bucket lg (oldest_ts r + j)"
    and lt: "\<forall>(t, c) \<in> set lg. t < oldest_ts r + n"
    using assms by (auto simp: rs_rel_def n_def)
  have "sample_num r = (\<Sum>j = 0..<n. b_sample (buckets r ! ring_ix r j))"
    using wf ring_sum [OF wf, of b_sample] by (simp add: rs_wf_def n_def)
  also have "\<dots> = (\<Sum>j = 0..<n. sum_list (map (\<lambda>(t', c). 1) (filter (\<lambda>(t', c). t' = oldest_ts r + j) lg)))"
  proof (rule sum.cong)
    fix j assume "j \<in> {0..<n}"
    then show "b_sample (buckets r ! ring_ix r j) = sum_list (map (\<lambda>(t', c). 1) (filter (\<lambda>(t', c). t' = oldest_ts r + j) lg))"
      by (simp add: bk log_bucket_def case_prod_unfold sum_list_triv)
  qed simp
  also have "\<dots> = window_samples lg (oldest_ts r)"
    using log_sum_window [OF lt, of "\<lambda>_. 1"] by (simp add: window_samples_def case_prod_unfold sum_list_triv)
  finally show "sample_num r = window_samples lg (oldest_ts r)" .
  have "accumulated_count r = s32 (\<Sum>j = 0..<n. b_sum (buckets r ! ring_ix r j))"
    using wf ring_sum [OF wf, of b_sum] by (simp add: rs_wf_def n_def)
  also have "(\<Sum>j = 0..<n. b_sum (buckets r ! ring_ix r j))
      = (\<Sum>j = 0..<n. s32 (sum_list (map (\<lambda>(t', c). int c) (filter (\<lambda>(t', c). t' = oldest_ts r + j) lg))))"
    by (rule sum.cong) (simp_all add: bk log_bucket_def)
  finally show "accumulated_count r = s32 (window_bytes lg (oldest_ts r))"
    unfolding s32_sum using log_sum_window [OF lt, of int] by (simp add: window_bytes_def)
qed

subsection \<open>Erasing keeps the relation\<close>

lemma erase_bucket_rel:
  assumes "rs_rel r lg" and "oldest_ts r \<noteq> -1"
  shows "rs_rel (erase_bucket r) lg" and "oldest_ts (erase_bucket r) = oldest_ts r + 1"
proof -
  define n oi r' where "n = rs_wnd_size r" and "oi = oldest_index r" and "r' = erase_bucket r"
  have wf: "rs_wf r" and bk: "\<And>j. 0 \<le> j \<Longrightarrow> j < n \<Longrightarrow> buckets r ! ring_ix r j = log_bucket lg (oldest_ts r + j)"
    and lt: "\<forall>(t, c) \<in> set lg. t < oldest_ts r + n" and ge: "\<forall>(t, c) \<in> set lg. 0 \<le> t" and old: "0 \<le> oldest_ts r"
    using assms by (auto simp: rs_rel_def n_def)
  have n: "0 < n" "0 \<le> oi" "oi < n" "length (buckets r) = nat n"
    using wf by (auto simp: rs_wf_def n_def oi_def)
  have flds: "oldest_ts r' = oldest_ts r + 1" "rs_wnd_size r' = n" "oldest_index r' = (if n \<le> oi + 1 then 0 else oi + 1)"
    "buckets r' = (buckets r)[nat oi := empty_bucket]" "sample_num r' = sample_num r - b_sample (buckets r ! nat oi)"
    "accumulated_count r' = s32 (accumulated_count r - b_sum (buckets r ! nat oi))"
    by (simp_all add: r'_def erase_bucket_def Let_def n_def oi_def)
  have oi': "oldest_index r' = (oi + 1) mod n"
  proof (cases "n \<le> oi + 1")
    case True
    then have "oi + 1 = n" using n by simp
    then show ?thesis using flds(3) by simp
  next
    case False
    then show ?thesis using n flds(3) by simp
  qed
  have up: "sum_list (map f (buckets r')) = sum_list (map f (buckets r)) - f (buckets r ! nat oi) + f empty_bucket"
    for f :: "rate_bucket \<Rightarrow> int"
    using n by (simp add: flds(4) sum_list_map_update nat_less_iff)
  have "length (buckets r') = nat n"
    using n by (simp add: flds(4))
  then have wf': "rs_wf r'"
    using wf n flds(2,5,6) oi' up [of b_sample] up [of b_sum] by (auto simp: rs_wf_def n_def s32_add_s32)
  have ix: "ring_ix r' j = ring_ix r (j + 1)" for j
    unfolding ring_ix_def oi' flds(2) n_def [symmetric] oi_def [symmetric] by (simp add: mod_simps algebra_simps)
  have ix0: "ring_ix r 0 = nat oi"
    using n by (simp add: ring_ix_def oi_def n_def)
  have "buckets r' ! ring_ix r' j = log_bucket lg (oldest_ts r' + j)" if j: "0 \<le> j" "j < n" for j
  proof (cases "j = n - 1")
    case True
    have "ring_ix r' j = ring_ix r n"
      using ix [of j] True by simp
    then have "ring_ix r' j = nat oi"
      using n by (simp add: ring_ix_def [of r] n_def [symmetric] oi_def [symmetric])
    moreover have "log_bucket lg (oldest_ts r' + j) = empty_bucket"
      using lt True by (intro log_bucket_empty) (auto simp: flds)
    ultimately show ?thesis
      using n by (simp add: flds(4) nat_less_iff)
  next
    case False
    then have "ring_ix r (j + 1) \<noteq> ring_ix r 0"
      using ring_ix_inj [OF wf, of "j + 1" 0] j n by (auto simp: n_def)
    then show ?thesis
      using bk [of "j + 1"] j False by (simp add: ix ix0 flds algebra_simps)
  qed
  then show "rs_rel (erase_bucket r) lg"
    using wf' ge lt old by (auto simp: rs_rel_def flds r'_def [symmetric])
  show "oldest_ts (erase_bucket r) = oldest_ts r + 1"
    using flds(1) by (simp add: r'_def)
qed

lemma erase_bucket_same: "rs_wnd_size (erase_bucket r) = rs_wnd_size r" "rs_scale (erase_bucket r) = rs_scale r"
  by (simp_all add: erase_bucket_def Let_def)

lemma erase_loop_rel:
  "rs_rel r lg \<Longrightarrow> oldest_ts r \<noteq> -1 \<Longrightarrow> oldest_ts r \<le> n \<Longrightarrow> \<exists>r'. erase_loop n r = Some r' \<and> rs_rel r' lg \<and> oldest_ts r' \<noteq> -1
    \<and> oldest_ts r' \<le> n \<and> (sample_num r' \<le> 0 \<or> oldest_ts r' = n) \<and> rs_wnd_size r' = rs_wnd_size r \<and> rs_scale r' = rs_scale r"
proof (induction n r rule: erase_loop.induct)
  case (1 n r)
  have wf: "0 \<le> oldest_index r" "nat (oldest_index r) < length (buckets r)" "0 \<le> oldest_ts r"
    using 1(2,3) by (auto simp: rs_rel_def rs_wf_def)
  show ?case
  proof (cases "0 < sample_num r \<and> oldest_ts r < n")
    case True
    have e: "rs_rel (erase_bucket r) lg" "oldest_ts (erase_bucket r) = oldest_ts r + 1"
      using erase_bucket_rel [OF 1(2,3)] .
    have "oldest_ts (erase_bucket r) \<noteq> -1" "oldest_ts (erase_bucket r) \<le> n"
      using e(2) wf(3) True by simp_all
    then show ?thesis
      using 1(1) True wf e(1) by (simp add: erase_loop.simps [of n r] erase_bucket_same)
  next
    case False
    then show ?thesis
      using 1 by (auto simp: erase_loop.simps [of n r])
  qed
qed

lemma rate_stat_erase_rel:
  assumes rel: "rs_rel r lg" and now: "0 \<le> now_ts" "now_ts < 2147483647"
  shows "\<exists>r'. rate_stat_erase r now_ts = Some r' \<and> rs_rel r' lg \<and> rs_wnd_size r' = rs_wnd_size r \<and> rs_scale r' = rs_scale r
    \<and> oldest_ts r' = (if oldest_ts r = -1 then -1 else max (oldest_ts r) (now_ts - rs_wnd_size r + 1))"
proof (cases "oldest_ts r = -1")
  case True
  then show ?thesis using rel by (simp add: rate_stat_erase_def)
next
  case old: False
  define n where "n = now_ts - rs_wnd_size r + 1"
  have wnd: "0 < rs_wnd_size r" "rs_wnd_size r < 2147483648" "0 \<le> oldest_ts r"
    using rel old by (auto simp: rs_rel_def rs_wf_def)
  then have n: "s32 (now_ts - rs_wnd_size r + 1) = n"
    using now by (simp add: n_def s32_id)
  show ?thesis
  proof (cases "n \<le> oldest_ts r")
    case True
    then show ?thesis using rel old n by (auto simp: rate_stat_erase_def n_def Let_def)
  next
    case False
    obtain r' where r': "erase_loop n r = Some r'" "rs_rel r' lg" "oldest_ts r' \<noteq> -1" "oldest_ts r' \<le> n"
      "sample_num r' \<le> 0 \<or> oldest_ts r' = n" "rs_wnd_size r' = rs_wnd_size r" "rs_scale r' = rs_scale r"
      using erase_loop_rel [OF rel old, of n] False by auto
    define r'' where "r'' = r'\<lparr>oldest_ts := n\<rparr>"
    have "rs_rel r'' lg"
    proof (cases "oldest_ts r' = n")
      case True
      then have "r'' = r'" by (simp add: r''_def)
      then show ?thesis using r'(2) by simp
    next
      case ne: False
      then have "window_samples lg (oldest_ts r') \<le> 0"
        using rs_totals(1) [OF r'(2,3)] r'(5) by simp
      then have none: "\<forall>(t, c) \<in> set lg. t < oldest_ts r'"
        by (force simp: window_samples_def filter_empty_conv)
      have ix: "ring_ix r'' j = ring_ix r' j" for j
        by (simp add: ring_ix_def r''_def)
      have "buckets r' ! ring_ix r' j = log_bucket lg (n + j)" if "0 \<le> j" "j < rs_wnd_size r'" for j
      proof -
        have "log_bucket lg (oldest_ts r' + j) = empty_bucket" "log_bucket lg (n + j) = empty_bucket"
          using none that r'(4) by (auto intro!: log_bucket_empty)
        then show ?thesis
          using r'(2,3) that by (simp add: rs_rel_def)
      qed
      moreover have "0 \<le> n"
        using False wnd(3) by simp
      ultimately show ?thesis
        using r'(2,3,4) none by (auto simp: rs_rel_def rs_wf_def ix r''_def)
    qed
    then show ?thesis
      using old n False r' by (auto simp: rate_stat_erase_def r''_def n_def Let_def)
  qed
qed

subsection \<open>Updating extends the log\<close>

lemma log_bucket_snoc:
  "log_bucket (lg @ [(t, c)]) t' = (if t' = t
     then \<lparr>b_sum = s32 (b_sum (log_bucket lg t') + int c), b_sample = b_sample (log_bucket lg t') + 1\<rparr> else log_bucket lg t')"
  by (auto simp: log_bucket_def s32_add_s32)

lemma rate_stat_update_rel:
  assumes rel: "rs_rel r lg" and now: "0 \<le> now_ts" "now_ts < 2147483647" and old: "oldest_ts r \<le> now_ts"
  shows "\<exists>r'. rate_stat_update r c now_ts = Some r' \<and> rs_rel r' (lg @ [(now_ts, c)]) \<and> rs_wnd_size r' = rs_wnd_size r
    \<and> rs_scale r' = rs_scale r
    \<and> oldest_ts r' = (if oldest_ts r = -1 then now_ts else max (oldest_ts r) (now_ts - rs_wnd_size r + 1))"
proof -
  obtain r1 where r1: "rate_stat_erase r now_ts = Some r1" "rs_rel r1 lg" "rs_wnd_size r1 = rs_wnd_size r" "rs_scale r1 = rs_scale r"
    "oldest_ts r1 = (if oldest_ts r = -1 then -1 else max (oldest_ts r) (now_ts - rs_wnd_size r + 1))"
    using rate_stat_erase_rel [OF rel now] by blast
  define r2 n where "r2 = (if oldest_ts r1 = -1 then r1\<lparr>oldest_ts := now_ts\<rparr> else r1)" and "n = rs_wnd_size r1"
  have wf1: "rs_wf r1" and n: "0 < n" "n < 2147483648"
    using r1(2) by (auto simp: rs_rel_def rs_wf_def n_def)
  have neg: "oldest_ts r \<noteq> -1 \<Longrightarrow> 0 \<le> oldest_ts r"
    using rel by (auto simp: rs_rel_def)
  have o2: "oldest_ts r2 = (if oldest_ts r = -1 then now_ts else max (oldest_ts r) (now_ts - n + 1))"
    using r1(5) neg n r1(3) by (auto simp: r2_def n_def)
  have same: "rs_wnd_size r2 = n" "oldest_index r2 = oldest_index r1" "buckets r2 = buckets r1" "rs_wf r2" "rs_scale r2 = rs_scale r"
    "accumulated_count r2 = accumulated_count r1" "sample_num r2 = sample_num r1"
    using wf1 r1(4) by (auto simp: r2_def n_def rs_wf_def)
  have ix: "ring_ix r2 j = ring_ix r1 j" for j
    by (simp add: ring_ix_def same n_def)
  have rel2: "rs_rel r2 lg"
  proof (cases "oldest_ts r1 = -1")
    case True
    then have e: "lg = []" "set (buckets r1) = {empty_bucket}"
      using r1(2) by (simp_all add: rs_rel_def)
    have "buckets r1 ! ring_ix r2 j = empty_bucket" for j
      using e(2) ring_ix_less [OF wf1, of j] nth_mem by (force simp: ix)
    then show ?thesis
      using True e(1) now same by (simp add: rs_rel_def r2_def log_bucket_empty)
  next
    case False
    then show ?thesis using r1(2) by (simp add: r2_def)
  qed
  define d i b where "d = now_ts - oldest_ts r2" and "i = ring_ix r2 d" and "b = buckets r2 ! i"
  have d: "0 \<le> d" "d < n" and ge0: "0 \<le> oldest_ts r2"
    using o2 old n now neg by (auto simp: d_def)
  have oi: "0 \<le> oldest_index r2" "oldest_index r2 < n" "length (buckets r2) = nat n"
    using same(4) by (auto simp: rs_wf_def same)
  have sm: "(oldest_index r2 + d) smod n = int i"
    using oi d n by (simp add: i_def ring_ix_def same(1) smod_nonneg_pos)
  have il: "i < length (buckets r2)"
    using ring_ix_less [OF same(4)] by (simp add: i_def)
  define r' where "r' = r2\<lparr>buckets := (buckets r2)[i := \<lparr>b_sum = s32 (b_sum b + int c), b_sample = b_sample b + 1\<rparr>],
      sample_num := sample_num r2 + 1, accumulated_count := s32 (accumulated_count r2 + int c)\<rparr>"
  have "s32 d = d"
    using d n by (simp add: s32_id)
  then have run: "rate_stat_update r c now_ts = Some r'"
    using r1(1) old n il sm by (simp add: rate_stat_update_def r2_def [symmetric] d_def [symmetric] same Let_def r'_def b_def)
  have up: "sum_list (map f (buckets r')) = sum_list (map f (buckets r2)) - f b + f \<lparr>b_sum = s32 (b_sum b + int c), b_sample = b_sample b + 1\<rparr>"
    for f :: "rate_bucket \<Rightarrow> int"
    using il by (simp add: r'_def sum_list_map_update b_def)
  have acc: "s32 (sum_list (map b_sum (buckets r'))) = s32 (accumulated_count r2 + int c)"
    using same(4) unfolding up [of b_sum] by (simp add: s32_add_s32 rs_wf_def)
  have smp: "sum_list (map b_sample (buckets r')) = sample_num r2 + 1"
    using same(4) unfolding up [of b_sample] by (simp add: rs_wf_def)
  have "rs_wnd_size r' = rs_wnd_size r2" "oldest_index r' = oldest_index r2" "length (buckets r') = length (buckets r2)"
    "sample_num r' = sample_num r2 + 1" "accumulated_count r' = s32 (accumulated_count r2 + int c)"
    by (simp_all add: r'_def)
  then have "rs_wf r'"
    using same(4) acc smp by (simp add: rs_wf_def)
  moreover have "ring_ix r' j = ring_ix r2 j" for j
    by (simp add: ring_ix_def r'_def)
  moreover have "buckets r' ! ring_ix r2 j = log_bucket (lg @ [(now_ts, c)]) (oldest_ts r2 + j)" if j: "0 \<le> j" "j < n" for j
  proof -
    have bj: "buckets r2 ! ring_ix r2 j = log_bucket lg (oldest_ts r2 + j)"
      using rel2 ge0 j same(1) by (auto simp: rs_rel_def)
    have "ring_ix r2 j = i \<longleftrightarrow> j = d"
      using ring_ix_inj [OF same(4), of j d] j d by (auto simp: i_def same)
    then show ?thesis
      using bj il by (auto simp: r'_def log_bucket_snoc b_def d_def)
  qed
  moreover have "\<forall>(t, c) \<in> set lg. 0 \<le> t \<and> t < oldest_ts r2 + n"
    using rel2 ge0 same(1) by (auto simp: rs_rel_def)
  ultimately have "rs_rel r' (lg @ [(now_ts, c)])"
    using ge0 d now by (auto simp: rs_rel_def r'_def same d_def)
  then show ?thesis
    using run o2 r1(3) same(1,5) by (auto simp: r'_def n_def)
qed

fun rate_run :: "rate_stat \<Rightarrow> rate_log \<Rightarrow> rate_stat option" where
  "rate_run r [] = Some r"
| "rate_run r ((t, c) # lg) = (case rate_stat_update r c t of None \<Rightarrow> None | Some r \<Rightarrow> rate_run r lg)"

text \<open>No entry of the window ending at \<open>T\<close> has been dropped.\<close>

definition rs_covers :: "rate_stat \<Rightarrow> rate_log \<Rightarrow> int \<Rightarrow> bool" where
  "rs_covers r lg T \<longleftrightarrow> oldest_ts r \<le> T \<and> (\<forall>(t, c) \<in> set lg. T - rs_wnd_size r < t \<longrightarrow> oldest_ts r \<le> t)"

lemma rate_run_rel:
  "rs_rel r lg \<Longrightarrow> rs_covers r lg T \<Longrightarrow> sorted (T # map fst xs) \<Longrightarrow> -1 \<le> T \<Longrightarrow>
    \<forall>(t, c) \<in> set xs. 0 \<le> t \<and> t < 2147483647 \<Longrightarrow>
    \<exists>r'. rate_run r xs = Some r' \<and> rs_rel r' (lg @ xs) \<and> rs_covers r' (lg @ xs) (last (T # map fst xs))
      \<and> rs_wnd_size r' = rs_wnd_size r \<and> rs_scale r' = rs_scale r"
proof (induction xs arbitrary: r lg T)
  case Nil
  then show ?case by simp
next
  case (Cons x xs)
  obtain t c where x: "x = (t, c)" by (cases x)
  have t: "0 \<le> t" "t < 2147483647" "T \<le> t"
    using Cons.prems by (auto simp: x)
  have cov: "oldest_ts r \<le> T" "\<forall>(t, c) \<in> set lg. T - rs_wnd_size r < t \<longrightarrow> oldest_ts r \<le> t"
    using Cons.prems(2) by (auto simp: rs_covers_def)
  have ot: "oldest_ts r \<le> t"
    using cov(1) t(3) by simp
  obtain r1 where r1: "rate_stat_update r c t = Some r1" "rs_rel r1 (lg @ [(t, c)])" "rs_wnd_size r1 = rs_wnd_size r"
    "rs_scale r1 = rs_scale r"
    "oldest_ts r1 = (if oldest_ts r = -1 then t else max (oldest_ts r) (t - rs_wnd_size r + 1))"
    using rate_stat_update_rel [OF Cons.prems(1) t(1,2) ot] by blast
  have wnd: "0 < rs_wnd_size r"
    using Cons.prems(1) by (simp add: rs_rel_def rs_wf_def)
  have "lg = []" if "oldest_ts r = -1"
    using Cons.prems(1) that by (simp add: rs_rel_def)
  then have "rs_covers r1 (lg @ [(t, c)]) t"
    using r1(3,5) cov t wnd by (fastforce simp: rs_covers_def)
  then obtain r' where "rate_run r1 xs = Some r'" "rs_rel r' ((lg @ [(t, c)]) @ xs)"
    "rs_covers r' ((lg @ [(t, c)]) @ xs) (last (t # map fst xs))" "rs_wnd_size r' = rs_wnd_size r1" "rs_scale r' = rs_scale r1"
    using Cons.IH [OF r1(2), of t] Cons.prems t(1) by (fastforce simp: x)
  then show ?case
    using r1 by (simp add: x)
qed

lemma rate_stat_init_rel: "0 < wnd \<Longrightarrow> wnd < 2147483648 \<Longrightarrow> rs_rel (rate_stat_init wnd scale) []"
  by (simp add: rs_rel_def rs_wf_def rate_stat_init_def s32_def sum_list_replicate)

lemma window_eq:
  assumes "\<forall>(t, c) \<in> set lg. b \<le> t \<longrightarrow> a \<le> t" and "b \<le> a"
  shows "window_samples lg a = window_samples lg b" and "window_bytes lg a = window_bytes lg b"
proof -
  have "filter (\<lambda>(t, c). a \<le> t) lg = filter (\<lambda>(t, c). b \<le> t) lg"
    using assms by (intro filter_cong) auto
  then show "window_samples lg a = window_samples lg b" and "window_bytes lg a = window_bytes lg b"
    by (simp_all add: window_samples_def window_bytes_def)
qed

subsection \<open>Properties\<close>

text \<open>
  C30: the rate window is exact. After any sequence of updates at non-decreasing times of less than
  2^31 - 1 ms, a rate query no earlier than the last one finds in its two totals exactly the number
  and the total size (modulo 2^32) of the updates of the last \<open>wnd_size\<close> milliseconds, without an
  access outside the ring, and computes the rate from them: -1 when there is no sample, when the
  window is shorter than 2 ms, or when one sample is alone in a window not yet full.
\<close>

theorem rate_window_exact:
  assumes wnd: "0 < wnd" "wnd < 2147483648" and srt: "sorted (map fst lg @ [now])"
    and rng: "\<forall>(t, c) \<in> set lg. 0 \<le> t" and now: "0 \<le> now" "now < 2147483647"
  shows "\<exists>r r'. rate_run (rate_stat_init wnd scale) lg = Some r \<and> rate_stat_erase r now = Some r'
    \<and> sample_num r' = window_samples lg (now - wnd + 1)
    \<and> accumulated_count r' = s32 (window_bytes lg (now - wnd + 1))
    \<and> rate_stat_rate r now =
      (let act = s32 (now - oldest_ts r' + 1) in
       if window_samples lg (now - wnd + 1) = 0 \<or> act \<le> 1 \<or> (window_samples lg (now - wnd + 1) = 1 \<and> act \<le> wnd)
       then Some (r', -1)
       else map_option (\<lambda>v. (r', v)) (fp_to_s32 ((fp_conv (fp_of_int (s32 (window_bytes lg (now - wnd + 1))) * scale
              div fp_of_int act) :: double) + fp_lit 0.5)))"
proof -
  have le: "\<forall>(t, c) \<in> set lg. t \<le> now"
    using srt by (auto simp: sorted_append)
  have "rs_covers (rate_stat_init wnd scale) [] (-1)"
    by (simp add: rs_covers_def rate_stat_init_def)
  moreover have "sorted (-1 # map fst lg)"
    using srt rng by (auto simp: sorted_append)
  moreover have "\<forall>(t, c) \<in> set lg. 0 \<le> t \<and> t < 2147483647"
    using rng le now by auto
  ultimately obtain r where r: "rate_run (rate_stat_init wnd scale) lg = Some r" "rs_rel r lg"
      "rs_covers r lg (last (-1 # map fst lg))" "rs_wnd_size r = wnd" "rs_scale r = scale"
    using rate_run_rel [OF rate_stat_init_rel [OF wnd, of scale], of "-1" lg] by (auto simp: rate_stat_init_def)
  obtain r' where r': "rate_stat_erase r now = Some r'" "rs_rel r' lg" "rs_wnd_size r' = wnd" "rs_scale r' = scale"
      "oldest_ts r' = (if oldest_ts r = -1 then -1 else max (oldest_ts r) (now - wnd + 1))"
    using rate_stat_erase_rel [OF r(2) now] r(4,5) by auto
  have tot: "sample_num r' = window_samples lg (now - wnd + 1) \<and> accumulated_count r' = s32 (window_bytes lg (now - wnd + 1))"
  proof (cases "oldest_ts r = -1")
    case True
    then have "lg = []" "rs_wf r'" "set (buckets r') = {empty_bucket}"
      using r(2) r'(2,5) by (auto simp: rs_rel_def)
    moreover have "map b_sample (buckets r') = map (\<lambda>_. 0) (buckets r')" "map b_sum (buckets r') = map (\<lambda>_. 0) (buckets r')"
      using calculation(3) by (auto intro: map_cong)
    ultimately show ?thesis
      by (simp add: rs_wf_def window_samples_def window_bytes_def)
  next
    case False
    have T: "last (-1 # map fst lg) \<le> now"
      using le now by (cases lg rule: rev_cases) auto
    have "\<forall>(t, c) \<in> set lg. now - wnd + 1 \<le> t \<longrightarrow> oldest_ts r' \<le> t"
      using r(3) r(4) r'(5) False T by (fastforce simp: rs_covers_def)
    moreover have "now - wnd + 1 \<le> oldest_ts r'" and "oldest_ts r' \<noteq> -1"
      using r'(2,5) False r(2) by (auto simp: rs_rel_def)
    ultimately show ?thesis
      using rs_totals [OF r'(2)] window_eq [of lg "now - wnd + 1" "oldest_ts r'"] by simp
  qed
  have "rate_stat_rate r now =
      (let act = s32 (now - oldest_ts r' + 1) in
       if sample_num r' = 0 \<or> act \<le> 1 \<or> (sample_num r' = 1 \<and> act \<le> wnd)
       then Some (r', -1)
       else map_option (\<lambda>v. (r', v)) (fp_to_s32 ((fp_conv (fp_of_int (accumulated_count r') * scale
              div fp_of_int act) :: double) + fp_lit 0.5)))"
    using r'(1,3,4) by (simp add: rate_stat_rate_def Let_def)
  note rate_eq = this [unfolded conjunct1 [OF tot] conjunct2 [OF tot]]
  show ?thesis
    by (rule exI [of _ r], rule exI [of _ r']) (intro conjI r(1) r'(1) conjunct1 [OF tot] conjunct2 [OF tot] rate_eq)
qed

theorem rate_window_exact_witness:
  "\<exists>r r'. rate_run (rate_stat_init 500 (fp_lit 8000)) [(1000, 1200), (1200, 1200), (1600, 800)] = Some r
    \<and> rate_stat_erase r 1650 = Some r' \<and> sample_num r' = 2 \<and> accumulated_count r' = 2000"
  using rate_window_exact [of 500 "[(1000, 1200), (1200, 1200), (1600, 800)]" 1650 "fp_lit 8000"]
  by (auto simp: window_samples_def window_bytes_def s32_def)

end
