(* ===== verification/Loss_Stat.thy ===== *)
theory Loss_Stat
  imports Unwrapper
begin

text \<open>
  \<^verbatim>\<open>estimator/cc_loss_stat.c\<close>: the receiver's loss statistics. Each arrival is unwrapped and
  counted; a report compares the advance of the highest number since the last report with the
  count. \<open>None\<close> is the failed assertion of the unwrapper.

  The lemmas: \<open>ls_rel\<close> says what the state holds after the arrivals of a window
  (\<^verbatim>\<open>loss_incoming_all_rel\<close>), and a report reads the loss of the window off it.
\<close>

definition k_loss_statistics_window_ms :: int where
  "k_loss_statistics_window_ms = 500"

record cc_loss_statistics =
  ls_stat_ts :: int
  ls_prev_max_id :: int
  ls_max_id :: int
  ls_count :: int
  ls_wrapper :: cf_unwrapper

definition loss_statistics_init :: cc_loss_statistics where
  "loss_statistics_init = \<lparr>ls_stat_ts = -1, ls_prev_max_id = -1, ls_max_id = -1, ls_count = 0,
     ls_wrapper = init_unwrapper16\<rparr>"

text \<open>The results are the return value, \<open>*fraction_loss\<close> and \<open>*num\<close>.\<close>

definition loss_statistics_calculate :: "cc_loss_statistics \<Rightarrow> int \<Rightarrow> cc_loss_statistics \<times> int \<times> u8 \<times> int" where
  "loss_statistics_calculate s now_ts =
     (if ls_max_id s = -1 \<or> ls_prev_max_id s = -1
        \<or> now_ts < ls_stat_ts s + k_loss_statistics_window_ms \<or> ls_max_id s < ls_prev_max_id s + 20
      then (s, -1, 0, 0)
      else (let disance = s32 (ls_max_id s - ls_prev_max_id s) in
        if disance \<le> 0 then (s, -1, 0, 0)
        else (let fraction = (if disance \<le> ls_count s then 0
                else word_of_int (s32 ((disance - ls_count s) * 255) sdiv disance))
          in (s\<lparr>ls_prev_max_id := ls_max_id s, ls_count := 0, ls_stat_ts := now_ts\<rparr>, 0, fraction, disance))))"

definition loss_statistics_incoming :: "cc_loss_statistics \<Rightarrow> u16 \<Rightarrow> cc_loss_statistics option" where
  "loss_statistics_incoming s seq =
     (case wrap_uint16 (ls_wrapper s) seq of None \<Rightarrow> None
      | Some (w, n) \<Rightarrow>
         (let s = s\<lparr>ls_wrapper := w\<rparr>;
              s = (if ls_prev_max_id s = -1 \<and> 0 < n then s\<lparr>ls_prev_max_id := n - 1\<rparr> else s);
              s = (if ls_max_id s < n then s\<lparr>ls_max_id := n\<rparr> else s)
          in Some (s\<lparr>ls_count := ls_count s + 1\<rparr>)))"

fun loss_incoming_all :: "cc_loss_statistics \<Rightarrow> u16 list \<Rightarrow> cc_loss_statistics option" where
  "loss_incoming_all s [] = Some s"
| "loss_incoming_all s (q # qs) =
     (case loss_statistics_incoming s q of None \<Rightarrow> None | Some s \<Rightarrow> loss_incoming_all s qs)"

subsection \<open>The state after the arrivals of a window\<close>

definition ls_top :: "int \<Rightarrow> int list \<Rightarrow> int" where
  "ls_top prev ts = Max (set (prev # ts))"

lemma ls_top_simps: "ls_top prev [] = prev" "ls_top prev (ts @ [t]) = max (ls_top prev ts) t" "prev \<le> ls_top prev ts"
  "ls_top prev [t] = max prev t"
proof -
  have "Max (insert t (set (prev # ts))) = max t (Max (set (prev # ts)))"
    by (rule Max_insert) auto
  moreover have "set (prev # ts @ [t]) = insert t (set (prev # ts))"
    by auto
  ultimately show "ls_top prev (ts @ [t]) = max (ls_top prev ts) t"
    by (simp only: ls_top_def max.commute)
qed (simp_all add: ls_top_def)

definition ls_rel :: "cc_loss_statistics \<Rightarrow> int \<Rightarrow> int list \<Rightarrow> int \<Rightarrow> bool" where
  "ls_rel s prev ts l \<longleftrightarrow> uw16.wf (ls_wrapper s) \<and> last_value (ls_wrapper s) = l \<and> ls_prev_max_id s = prev
     \<and> ls_max_id s = ls_top prev ts \<and> ls_count s = int (length ts) \<and> 0 \<le> prev"

lemma loss_incoming_rel:
  assumes "ls_rel s prev ts l" and "0 \<le> t" and "\<bar>t - l\<bar> < 32768"
  shows "\<exists>s'. loss_statistics_incoming s (word_of_int t) = Some s' \<and> ls_rel s' prev (ts @ [t]) t
    \<and> ls_stat_ts s' = ls_stat_ts s"
proof -
  have "wrap_uint16 (ls_wrapper s) (word_of_int t) = Some ((ls_wrapper s)\<lparr>last_value := t\<rparr>, t)"
    using assms by (intro uw16.wrap_exact) (auto simp: ls_rel_def)
  then show ?thesis
    using assms by (auto simp: loss_statistics_incoming_def ls_rel_def Let_def uw16.wf_def ls_top_simps)
qed

lemma loss_incoming_all_rel:
  "ls_rel s prev ts l \<Longrightarrow> \<forall>t \<in> set us. 0 \<le> t \<Longrightarrow> successively (\<lambda>a b. \<bar>b - a\<bar> < 32768) (l # us) \<Longrightarrow>
    \<exists>s'. loss_incoming_all s (map word_of_int us) = Some s' \<and> ls_rel s' prev (ts @ us) (last (l # us))
      \<and> ls_stat_ts s' = ls_stat_ts s"
proof (induction us arbitrary: s ts l)
  case Nil
  then show ?case by simp
next
  case (Cons u us)
  then obtain s1 where s1: "loss_statistics_incoming s (word_of_int u) = Some s1" "ls_rel s1 prev (ts @ [u]) u"
      "ls_stat_ts s1 = ls_stat_ts s"
    using loss_incoming_rel [of s prev ts l u] by auto
  then show ?case
    using Cons.IH [OF s1(2)] Cons.prems by auto
qed

lemma loss_first_rel:
  assumes "0 < t" and "t < 32768"
  shows "\<exists>s. loss_statistics_incoming loss_statistics_init (word_of_int t) = Some s \<and> ls_rel s (t - 1) [t] t
    \<and> ls_stat_ts s = -1"
proof -
  have "wrap_uint16 init_unwrapper16 (word_of_int t) = Some (init_unwrapper16\<lparr>last_value := t\<rparr>, t)"
    using assms uw16.wrap_exact [OF init_unwrapper16_wf, of t] by (simp add: init_unwrapper16_def)
  then show ?thesis
    using assms by (simp add: loss_statistics_incoming_def loss_statistics_init_def ls_rel_def Let_def ls_top_simps(4)
      init_unwrapper16_def uw16.wf_def)
qed

text \<open>What a report computes from the window: the share of its numbers that did not arrive, of 255.\<close>

definition window_fraction :: "int \<Rightarrow> int \<Rightarrow> int" where
  "window_fraction n got = (if n \<le> got then 0 else (n - got) * 255 div n)"

lemma window_fraction_range: "0 \<le> got \<Longrightarrow> 0 \<le> n \<Longrightarrow> 0 \<le> window_fraction n got \<and> window_fraction n got \<le> 255"
proof (cases "got < n")
  case True
  moreover assume "0 \<le> got" "0 \<le> n"
  moreover have "(n - got) * 255 \<le> n * 255" using calculation by simp
  then have "(n - got) * 255 div n \<le> n * 255 div n"
    using calculation by (intro zdiv_mono1) auto
  ultimately show ?thesis
    by (simp add: window_fraction_def pos_imp_zdiv_nonneg_iff)
qed (simp add: window_fraction_def)

lemma loss_report_rel:
  assumes "ls_rel s prev ts l" and "ls_stat_ts s + 500 \<le> now" and "prev + 20 \<le> ls_top prev ts"
    and "ls_top prev ts < prev + 8421504"
  shows "loss_statistics_calculate s now =
    (s\<lparr>ls_prev_max_id := ls_top prev ts, ls_count := 0, ls_stat_ts := now\<rparr>, 0,
     word_of_int (window_fraction (ls_top prev ts - prev) (int (length ts))), ls_top prev ts - prev)"
    and "ls_rel (fst (loss_statistics_calculate s now)) (ls_top prev ts) [] l"
proof -
  define m where "m = ls_top prev ts"
  have f: "ls_max_id s = m" "ls_prev_max_id s = prev" "ls_count s = int (length ts)" "0 \<le> prev"
    using assms(1) by (auto simp: ls_rel_def m_def)
  have m: "prev + 20 \<le> m" "m < prev + 8421504"
    using assms(3,4) by (simp_all add: m_def)
  have d: "s32 (m - prev) = m - prev"
    using m by (intro s32_id) auto
  have "s32 ((m - prev - int (length ts)) * 255) sdiv (m - prev) = (m - prev - int (length ts)) * 255 div (m - prev)"
    if "int (length ts) < m - prev"
  proof -
    have "s32 ((m - prev - int (length ts)) * 255) = (m - prev - int (length ts)) * 255"
      using m that by (intro s32_id) auto
    then show ?thesis
      using m that by (simp add: signed_divide_int_def sgn_if)
  qed
  then have "loss_statistics_calculate s now = (s\<lparr>ls_prev_max_id := m, ls_count := 0, ls_stat_ts := now\<rparr>, 0,
     word_of_int (window_fraction (m - prev) (int (length ts))), m - prev)"
    using assms(2) m f(4) by (auto simp: loss_statistics_calculate_def Let_def f(1-3) d k_loss_statistics_window_ms_def window_fraction_def)
  then show "loss_statistics_calculate s now =
    (s\<lparr>ls_prev_max_id := ls_top prev ts, ls_count := 0, ls_stat_ts := now\<rparr>, 0,
     word_of_int (window_fraction (ls_top prev ts - prev) (int (length ts))), ls_top prev ts - prev)"
    and "ls_rel (fst (loss_statistics_calculate s now)) (ls_top prev ts) [] l"
    using assms(1) m f(4) by (auto simp: ls_rel_def m_def [symmetric] ls_top_simps)
qed

lemma card_missing:
  fixes ts :: "int list"
  assumes "distinct ts" and "set ts \<subseteq> {p <.. m}" and "p \<le> m"
  shows "int (card ({p <.. m} - set ts)) = m - p - int (length ts)"
proof -
  have "card (set ts) \<le> card {p <.. m}"
    using assms(2) by (intro card_mono) auto
  then show ?thesis
    using assms by (simp add: card_Diff_subset distinct_card)
qed

subsection \<open>Properties\<close>

text \<open>
  C32: a loss report is the loss of its window. From the initial state, after arrivals \<open>xs\<close> and a
  successful report, then arrivals \<open>ys\<close> that are new and distinct, where no arrival is half the
  sequence range away from the one before: a report at least 500 ms after the first, with the highest
  number advanced by 20 or more, gives as its number of packets the numbers sent in between, as
  its fraction 255 times the share of those that never arrived, rounded down, and starts a new
  window.
\<close>

theorem loss_report_exact:
  assumes first: "0 < x" and srt: "successively (\<lambda>a b. \<bar>b - a\<bar> < 32768) (0 # x # xs @ ys)"
    and nn: "\<forall>t \<in> set (xs @ ys). 0 \<le> t"
    and r1: "499 \<le> n1" "x + 19 \<le> Max (set (x # xs))" "Max (set (x # xs)) < x + 8000000"
    and new: "distinct ys" "\<forall>y \<in> set ys. Max (set (x # xs)) < y"
    and r2: "n1 + 500 \<le> n2" "ys \<noteq> []" "Max (set (x # xs)) + 20 \<le> Max (set ys)" "Max (set ys) < Max (set (x # xs)) + 8000000"
  shows "\<exists>s s'. loss_incoming_all loss_statistics_init (map word_of_int (x # xs)) = Some s
    \<and> loss_incoming_all (fst (loss_statistics_calculate s n1)) (map word_of_int ys) = Some s'
    \<and> (let lost = card ({Max (set (x # xs)) <.. Max (set ys)} - set ys); n = Max (set ys) - Max (set (x # xs)) in
       snd (loss_statistics_calculate s' n2) = (0, word_of_int (int lost * 255 div n), n) \<and> int lost * 255 div n \<le> 255
       \<and> ls_count (fst (loss_statistics_calculate s' n2)) = 0
       \<and> ls_prev_max_id (fst (loss_statistics_calculate s' n2)) = Max (set ys))"
proof -
  define m1 m2 where "m1 = Max (set (x # xs))" and "m2 = Max (set ys)"
  note r1 = r1 [folded m1_def] and r2 = r2 [folded m1_def m2_def] and new = new [folded m1_def]
  have app: "successively (\<lambda>a b. \<bar>b - a\<bar> < 32768) (x # xs)"
    "successively (\<lambda>a b. \<bar>b - a\<bar> < 32768) (last (x # xs) # ys)"
    using srt successively_append_iff [of "\<lambda>a b. \<bar>b - a\<bar> < 32768" "0 # x # xs" ys] by (cases ys; simp)+
  have "x < 32768" using srt by auto
  then obtain s0 where s0: "loss_statistics_incoming loss_statistics_init (word_of_int x) = Some s0"
      "ls_rel s0 (x - 1) [x] x" "ls_stat_ts s0 = -1"
    using loss_first_rel first by blast
  obtain s where s: "loss_incoming_all s0 (map word_of_int xs) = Some s" "ls_rel s (x - 1) (x # xs) (last (x # xs))"
      "ls_stat_ts s = -1"
    using loss_incoming_all_rel [OF s0(2), of xs] app nn s0(3) by auto
  have "max (x - 1) (Max (set (x # xs))) = Max (set (x # xs))"
    by (rule max_absorb2, rule order_trans [of _ x], simp, rule Max_ge) auto
  moreover have "Max (set ((x - 1) # x # xs)) = max (x - 1) (Max (set (x # xs)))"
    unfolding list.set(2) [of "x - 1"] by (rule Max_insert) auto
  ultimately have M: "ls_top (x - 1) (x # xs) = m1"
    by (simp only: ls_top_def m1_def)
  note rep1 = loss_report_rel [OF s(2), of n1, unfolded M s(3)]
  have s1: "ls_rel (fst (loss_statistics_calculate s n1)) m1 [] (last (x # xs))"
    "ls_stat_ts (fst (loss_statistics_calculate s n1)) = n1"
    using rep1 r1 by auto
  obtain s' where s': "loss_incoming_all (fst (loss_statistics_calculate s n1)) (map word_of_int ys) = Some s'"
      "ls_rel s' m1 ys (last (last (x # xs) # ys))" "ls_stat_ts s' = n1"
    using loss_incoming_all_rel [OF s1(1), of ys] app nn s1(2) by auto
  have M2: "ls_top m1 ys = m2"
    using r2(2,3) Max_insert [of "set ys" m1] by (simp add: ls_top_def m2_def)
  have sub: "set ys \<subseteq> {m1 <.. m2}"
    using new(2) by (auto simp: m2_def)
  define lost where "lost = card ({m1 <.. m2} - set ys)"
  have lost: "int lost = m2 - m1 - int (length ys)"
    unfolding lost_def using card_missing [OF new(1) sub] r2(3) by simp
  have "int (length ys) \<le> m2 - m1" "0 \<le> m2 - m1 - 20"
    using lost r2(3) by auto
  then have wf: "window_fraction (m2 - m1) (int (length ys)) = int lost * 255 div (m2 - m1)"
    "window_fraction (m2 - m1) (int (length ys)) \<le> 255"
    using window_fraction_range [of "int (length ys)" "m2 - m1"] by (auto simp: window_fraction_def lost)
  note rep2 = loss_report_rel [OF s'(2), of n2, unfolded M2 s'(3)]
  have "loss_statistics_calculate s' n2 = (s'\<lparr>ls_prev_max_id := m2, ls_count := 0, ls_stat_ts := n2\<rparr>, 0,
     word_of_int (int lost * 255 div (m2 - m1)), m2 - m1)"
    using rep2(1) r2 wf(1) by simp
  then show ?thesis
    using s0(1) s(1) s'(1) wf unfolding m1_def [symmetric] m2_def [symmetric] lost_def [symmetric]
    by (intro exI [of _ s] exI [of _ s']) simp
qed

theorem loss_report_exact_witness:
  "\<exists>s s'. loss_incoming_all loss_statistics_init (map word_of_int (10 # [30])) = Some s
    \<and> loss_incoming_all (fst (loss_statistics_calculate s 1000)) (map word_of_int [31, 41, 40, 51]) = Some s'
    \<and> snd (loss_statistics_calculate s' 1500) = (0, 206, 21)"
proof -
  have "{30 <.. 51} - set [31, 41, 40, 51] = {32..39} \<union> {42..50 :: int}"
    by auto
  then have "card ({30 <.. 51} - set [31, 41, 40, 51 :: int]) = 17"
    by (subst \<open>_ = _\<close>, subst card_Un_disjoint) auto
  then show ?thesis
    using loss_report_exact [of 10 "[30]" "[31, 41, 40, 51]" 1000 1500] by (auto simp: Let_def)
qed

end
