(* ===== verification/Fp_Bounds.thy ===== *)
theory Fp_Bounds
  imports Cfloat
begin

text \<open>
  Interval reasoning for floating point formulas: \<open>fin_in a b v\<close> says that \<open>v\<close> is a finite value
  between \<open>a\<close> and \<open>b\<close>. Each operation of \<^verbatim>\<open>Cfloat\<close> carries intervals with representable bounds to
  an interval with representable bounds, and a conversion to an integer type is defined on an
  interval inside the type. The component proofs bound the code's formulas with these rules.
\<close>

definition fin_in :: "real \<Rightarrow> real \<Rightarrow> 'p fp \<Rightarrow> bool" where
  "fin_in a b v \<longleftrightarrow> (\<exists>r. v = Fin r \<and> a \<le> r \<and> r \<le> b)"

lemma fin_inE: "fin_in a b v \<Longrightarrow> (\<And>r. v = Fin r \<Longrightarrow> a \<le> r \<Longrightarrow> r \<le> b \<Longrightarrow> P) \<Longrightarrow> P"
  by (auto simp: fin_in_def)

lemma fin_in_Fin [simp]: "fin_in a b (Fin r) \<longleftrightarrow> a \<le> r \<and> r \<le> b"
  by (simp add: fin_in_def)

lemma fin_in_weaken: "fin_in a b v \<Longrightarrow> c \<le> a \<Longrightarrow> b \<le> d \<Longrightarrow> fin_in c d v"
  by (auto simp: fin_in_def)

text \<open>The representable values of a format, and their literals.\<close>

definition frep :: "'p::len itself \<Rightarrow> real \<Rightarrow> bool" where
  "frep t x \<longleftrightarrow> fmt_rep TYPE('p) x"

lemma fp_round_not_NaN [simp]: "fp_round x \<noteq> NaN"
  by (simp add: fp_round_def Let_def)

lemma fin_in_round:
  assumes "frep TYPE('p::len) lo" and "frep TYPE('p) hi" and "lo \<le> x" and "x \<le> hi"
  shows "fin_in lo hi (fp_round x :: 'p fp)"
  using fp_round_between [OF assms [unfolded frep_def]] by (auto simp: fin_in_def)

lemmas fin_in_lit = fin_in_round [folded fp_lit_def]

lemma fin_in_of_int:
  assumes "frep TYPE('p::len) lo" and "frep TYPE('p) hi" and "lo \<le> of_int i" and "of_int i \<le> hi"
  shows "fin_in lo hi (fp_of_int i :: 'p fp)"
  unfolding fp_of_int_def by (rule fin_in_round [OF assms])

lemma fin_in_of_int_range:
  assumes "lo \<le> i" and "i \<le> hi" and "frep TYPE('p::len) (of_int lo)" and "frep TYPE('p) (of_int hi)"
  shows "fin_in (of_int lo) (of_int hi) (fp_of_int i :: 'p fp)"
  using assms by (intro fin_in_of_int) (simp_all only: of_int_le_iff)

lemma fin_in_conv:
  assumes "fin_in a b v" and "frep TYPE('p::len) lo" and "frep TYPE('p) hi" and "lo \<le> a" and "b \<le> hi"
  shows "fin_in lo hi (fp_conv v :: 'p fp)"
  using assms(1,4,5) by (auto elim!: fin_inE intro!: fin_in_round [OF assms(2,3)])

lemma fin_in_add:
  assumes "fin_in a b u" and "fin_in c d v"
    and "frep TYPE('p::len) lo" and "frep TYPE('p) hi" and "lo \<le> a + c" and "b + d \<le> hi"
  shows "fin_in lo hi (u + v :: 'p fp)"
  using assms(1,2,5,6) by (auto elim!: fin_inE intro!: fin_in_round [OF assms(3,4)])

lemma fin_in_sub:
  assumes "fin_in a b u" and "fin_in c d v"
    and "frep TYPE('p::len) lo" and "frep TYPE('p) hi" and "lo \<le> a - d" and "b - c \<le> hi"
  shows "fin_in lo hi (u - v :: 'p fp)"
  using assms(1,2,5,6) by (auto elim!: fin_inE intro!: fin_in_round [OF assms(3,4)])

lemma fin_in_mul:
  assumes "fin_in a b u" and "fin_in c d v" and "0 \<le> a" and "0 \<le> c"
    and "frep TYPE('p::len) lo" and "frep TYPE('p) hi" and "lo \<le> a * c" and "b * d \<le> hi"
  shows "fin_in lo hi (u * v :: 'p fp)"
proof -
  obtain x y where xy: "u = Fin x" "a \<le> x" "x \<le> b" "v = Fin y" "c \<le> y" "y \<le> d"
    using assms(1,2) by (auto elim!: fin_inE)
  have "a * c \<le> x * y" and "x * y \<le> b * d"
    using xy assms(3,4) by (auto intro!: mult_mono)
  then show ?thesis
    using xy assms(7,8) by (auto intro!: fin_in_round [OF assms(5,6)])
qed

lemma fin_in_div:
  assumes "fin_in a b u" and "fin_in c d v" and "0 \<le> a" and "0 < c"
    and "frep TYPE('p::len) lo" and "frep TYPE('p) hi" and "lo \<le> a / d" and "b / c \<le> hi"
  shows "fin_in lo hi (u div v :: 'p fp)"
proof -
  obtain x y where xy: "u = Fin x" "a \<le> x" "x \<le> b" "v = Fin y" "c \<le> y" "y \<le> d"
    using assms(1,2) by (auto elim!: fin_inE)
  have "a / d \<le> x / y" and "x / y \<le> b / c"
    using xy assms(3,4) by (auto intro!: frac_le)
  then show ?thesis
    using xy assms(4,7,8) by (auto intro!: fin_in_round [OF assms(5,6)])
qed

lemma fin_in_mul_abs:
  assumes "fin_in (- a) a u" and "fin_in (- b) b v" and "frep TYPE('p::len) (- c)" and "frep TYPE('p) c" and "a * b \<le> c"
  shows "fin_in (- c) c (u * v :: 'p fp)"
proof -
  obtain x y where xy: "u = Fin x" "\<bar>x\<bar> \<le> a" "v = Fin y" "\<bar>y\<bar> \<le> b"
    using assms(1,2) by (auto elim!: fin_inE)
  have "\<bar>x * y\<bar> \<le> a * b"
    unfolding abs_mult using xy by (intro mult_mono) auto
  then show ?thesis
    using xy assms(5) by (auto intro!: fin_in_round [OF assms(3,4)])
qed

lemma fin_in_su_max: "fin_in a b u \<Longrightarrow> fin_in a b v \<Longrightarrow> fin_in a b (su_max u (v :: 'p::len fp))"
  by (simp add: su_max_def)

lemma fin_in_ceil: "fin_in a b v \<Longrightarrow> fin_in (of_int \<lceil>a\<rceil>) (of_int \<lceil>b\<rceil>) (fp_ceil v)"
  by (auto elim!: fin_inE intro: ceiling_mono)

lemma fin_in_pow:
  assumes "fin_in 1 c u" and "fin_in 0 1 v" and "frep TYPE('p::len) 1" and "frep TYPE('p) c"
  shows "fin_in 1 c (fp_pow u v :: 'p fp)"
proof -
  obtain x y where xy: "u = Fin x" "1 \<le> x" "x \<le> c" "v = Fin y" "0 \<le> y" "y \<le> 1"
    using assms(1,2) by (auto elim!: fin_inE)
  have "1 \<le> x powr y"
    using xy by (intro ge_one_powr_ge_zero) simp_all
  moreover have "x powr y \<le> x powr 1"
    by (rule powr_mono) (use xy in simp_all)
  ultimately have "1 \<le> x powr y" "x powr y \<le> c"
    using xy by simp_all
  then show ?thesis
    using xy by (auto intro!: fin_in_round [OF assms(3,4)])
qed

lemma trunc_real_range: "0 \<le> a \<Longrightarrow> a \<le> x \<Longrightarrow> x \<le> b \<Longrightarrow> \<lfloor>a\<rfloor> \<le> trunc_real x \<and> trunc_real x \<le> \<lfloor>b\<rfloor>"
  by (simp add: trunc_real_def floor_mono)

lemma fin_in_to_int:
  assumes "fin_in a b v" and "0 \<le> a" and "lo \<le> 0" and "\<lfloor>b\<rfloor> \<le> hi"
  shows "\<exists>i. fp_to_int_in lo hi v = Some i \<and> \<lfloor>a\<rfloor> \<le> i \<and> i \<le> \<lfloor>b\<rfloor>"
proof -
  obtain x where x: "v = Fin x" "a \<le> x" "x \<le> b"
    using assms(1) by (auto elim!: fin_inE)
  have "\<lfloor>a\<rfloor> \<le> trunc_real x" "trunc_real x \<le> \<lfloor>b\<rfloor>" "0 \<le> \<lfloor>a\<rfloor>"
    using trunc_real_range [OF assms(2) x(2,3)] assms(2) by simp_all
  moreover from this have "lo \<le> trunc_real x" "trunc_real x \<le> hi"
    using assms(3,4) by linarith+
  ultimately show ?thesis
    using x(1) by (simp add: Let_def)
qed

lemma fin_in_to_s64:
  "fin_in a b v \<Longrightarrow> 0 \<le> a \<Longrightarrow> \<lfloor>b\<rfloor> \<le> 9223372036854775807 \<Longrightarrow> \<exists>i. fp_to_s64 v = Some i \<and> \<lfloor>a\<rfloor> \<le> i \<and> i \<le> \<lfloor>b\<rfloor>"
  unfolding fp_to_s64_def by (rule fin_in_to_int) auto

lemma fin_in_to_s32:
  "fin_in a b v \<Longrightarrow> 0 \<le> a \<Longrightarrow> \<lfloor>b\<rfloor> \<le> 2147483647 \<Longrightarrow> \<exists>i. fp_to_s32 v = Some i \<and> \<lfloor>a\<rfloor> \<le> i \<and> i \<le> \<lfloor>b\<rfloor>"
  unfolding fp_to_s32_def by (rule fin_in_to_int) auto

lemma fin_in_to_u32:
  assumes "fin_in a b v" and "0 \<le> a" and "\<lfloor>b\<rfloor> \<le> 4294967295"
  shows "\<exists>w. fp_to_u32 v = Some w \<and> \<lfloor>a\<rfloor> \<le> uint w \<and> uint w \<le> \<lfloor>b\<rfloor>"
proof -
  obtain i where i: "fp_to_int_in 0 4294967295 v = Some i" "\<lfloor>a\<rfloor> \<le> i" "i \<le> \<lfloor>b\<rfloor>"
    using fin_in_to_int [OF assms(1,2), of 0 4294967295] assms(3) by auto
  have "0 \<le> i" using assms(2) i(2) by (meson order_trans zero_le_floor)
  then have "uint (word_of_int i :: u32) = i"
    using order_trans [OF i(3) assms(3)] by (simp add: uint_of_int_u32)
  then show ?thesis
    using i by (auto simp: fp_to_u32_def)
qed

subsection \<open>Representable bounds\<close>

lemma double_rep: "\<bar>m\<bar> < 2 ^ 53 \<Longrightarrow> e \<le> 900 \<Longrightarrow> x = of_int m * 2 ^ e \<Longrightarrow> fmt_rep TYPE(53) x"
proof -
  assume a: "\<bar>m\<bar> < 2 ^ 53" "e \<le> 900" "x = of_int m * 2 ^ e"
  have "\<bar>of_int m\<bar> < (of_int (2 ^ 53) :: real)"
    using a(1) by (simp only: of_int_less_iff flip: of_int_abs)
  then have "\<bar>x\<bar> < of_int (2 ^ 53) * 2 ^ e"
    by (simp add: a(3) abs_mult)
  also have "of_int (2 ^ 53) * 2 ^ e \<le> (of_int (2 ^ 53) * 2 ^ 900 :: real)"
    using a(2) by (intro mult_left_mono power_increasing) auto
  also have "\<dots> < 2 powi (emax_of 53 + 1)"
    by (simp add: emax_of_def power_int_def)
  finally show ?thesis
    using a by (intro fmt_rep_dyadic [where m = m and e = "int e"]) (auto simp: emin_of_def)
qed

lemma double_rep_frac: "\<bar>m\<bar> < 2 ^ 53 \<Longrightarrow> e \<le> 1000 \<Longrightarrow> x = of_int m / 2 ^ e \<Longrightarrow> fmt_rep TYPE(53) x"
proof -
  assume a: "\<bar>m\<bar> < 2 ^ 53" "e \<le> 1000" "x = of_int m / 2 ^ e"
  have "\<bar>of_int m\<bar> < (of_int (2 ^ 53) :: real)"
    using a(1) by (simp only: of_int_less_iff flip: of_int_abs)
  moreover have "\<bar>x\<bar> \<le> \<bar>of_int m\<bar>"
    using mult_left_mono [of "1" "2 ^ e" "\<bar>real_of_int m\<bar>"] by (simp add: a(3) abs_divide divide_le_eq)
  ultimately have "\<bar>x\<bar> < of_int (2 ^ 53)" by linarith
  also have "(of_int (2 ^ 53) :: real) < 2 powi (emax_of 53 + 1)"
    by (simp add: emax_of_def power_int_def)
  finally show ?thesis
    using a by (intro fmt_rep_dyadic [where m = m and e = "- int e"]) (auto simp: emin_of_def power_int_minus divide_inverse)
qed

text \<open>Rounding a normal number to nearest loses less than half of it.\<close>

lemma fp_round_half:
  assumes "2 powi (- 1000) \<le> x" and "x \<le> 2 ^ 900"
  shows "\<exists>r. (fp_round x :: double) = Fin r \<and> x / 2 \<le> r"
proof -
  have "(0::real) < 2 powi (- 1000)" by (rule zero_less_power_int) simp
  then have x: "0 < x" using assms(1) by (rule less_le_trans)
  have "(2::real) powi (- 1000) < 2 powi (ilog2 x + 1)"
    using assms(1) ilog2_bounds(2) [OF x] by (rule le_less_trans)
  then have il: "- 1000 \<le> ilog2 x"
    unfolding powi2_less_iff by simp
  have "ulp_exp 53 (- 1074) x \<le> ilog2 x"
    using il by (simp add: ulp_exp_def)
  from round_pos_ge_powi [OF this ilog2_bounds(1) [OF x]]
  have "x / 2 \<le> round_pos 53 (- 1074) x"
    using ilog2_bounds(2) [OF x] by (simp add: power_int_add)
  moreover have "fin_in 0 (2 ^ 900) (fp_round x :: double)"
    using x assms(2) double_rep [of 1 900] double_rep [of 0 0] by (intro fin_in_round) (simp_all add: frep_def)
  ultimately show ?thesis
    using x by (auto simp: fin_in_def fp_round_def fround_def emin_of_def Let_def split: if_splits)
qed

corollary fp_round_half_mid:
  assumes "1 / 262144 \<le> x" and "x \<le> 4294967296"
  shows "\<exists>r. (fp_round x :: double) = Fin r \<and> x / 2 \<le> r"
proof (rule fp_round_half)
  have "(2::real) powi (- 1000) \<le> 2 powi (- 18)"
    unfolding powi2_mono_iff by simp
  moreover have "(2::real) powi (- 18) = 1 / 262144"
    by (simp add: power_int_minus)
  ultimately show "2 powi (- 1000) \<le> x"
    using assms(1) by (metis order_trans)
  have "(2::real) ^ 32 \<le> 2 ^ 900"
    by (rule power_increasing) simp_all
  moreover have "(2::real) ^ 32 = 4294967296" by simp
  ultimately show "x \<le> 2 ^ 900"
    using assms(2) by (metis order_trans)
qed

lemma float_rep: "\<bar>m\<bar> < 2 ^ 24 \<Longrightarrow> e \<le> 100 \<Longrightarrow> x = of_int m * 2 ^ e \<Longrightarrow> fmt_rep TYPE(24) x"
proof -
  assume a: "\<bar>m\<bar> < 2 ^ 24" "e \<le> 100" "x = of_int m * 2 ^ e"
  have "\<bar>of_int m\<bar> < (of_int (2 ^ 24) :: real)"
    using a(1) by (simp only: of_int_less_iff flip: of_int_abs)
  then have "\<bar>x\<bar> < of_int (2 ^ 24) * 2 ^ e"
    by (simp add: a(3) abs_mult)
  also have "of_int (2 ^ 24) * 2 ^ e \<le> (of_int (2 ^ 24) * 2 ^ 100 :: real)"
    using a(2) by (intro mult_left_mono power_increasing) auto
  also have "\<dots> < 2 powi (emax_of 24 + 1)"
    by (simp add: emax_of_def power_int_def)
  finally show ?thesis
    using a by (intro fmt_rep_dyadic [where m = m and e = "int e"]) (auto simp: emin_of_def)
qed

lemma float_rep_frac: "\<bar>m\<bar> < 2 ^ 24 \<Longrightarrow> e \<le> 100 \<Longrightarrow> x = of_int m / 2 ^ e \<Longrightarrow> fmt_rep TYPE(24) x"
proof -
  assume a: "\<bar>m\<bar> < 2 ^ 24" "e \<le> 100" "x = of_int m / 2 ^ e"
  have "\<bar>of_int m\<bar> < (of_int (2 ^ 24) :: real)"
    using a(1) by (simp only: of_int_less_iff flip: of_int_abs)
  moreover have "\<bar>x\<bar> \<le> \<bar>of_int m\<bar>"
    using mult_left_mono [of "1" "2 ^ e" "\<bar>real_of_int m\<bar>"] by (simp add: a(3) abs_divide divide_le_eq)
  ultimately have "\<bar>x\<bar> < of_int (2 ^ 24)" by linarith
  also have "(of_int (2 ^ 24) :: real) < 2 powi (emax_of 24 + 1)"
    by (simp add: emax_of_def power_int_def)
  finally show ?thesis
    using a by (intro fmt_rep_dyadic [where m = m and e = "- int e"]) (auto simp: emin_of_def power_int_minus divide_inverse)
qed

lemma frep_double_int: "\<bar>m\<bar> < 2 ^ 53 \<Longrightarrow> frep TYPE(53) (of_int m)"
  unfolding frep_def by (rule double_rep [of m 0]) simp_all

lemma frep_float_int: "\<bar>m\<bar> < 2 ^ 24 \<Longrightarrow> frep TYPE(24) (of_int m)"
  unfolding frep_def by (rule float_rep [of m 0]) simp_all

lemma frep_double [simp]: "frep TYPE(53) 0" "frep TYPE(53) 1" "(numeral w :: int) < 2 ^ 53 \<Longrightarrow> frep TYPE(53) (numeral w)"
  "(numeral w :: int) < 2 ^ 53 \<Longrightarrow> frep TYPE(53) (- numeral w)" "frep TYPE(53) (- 1)"
  using frep_double_int [of 0] frep_double_int [of 1] frep_double_int [of "numeral w"] frep_double_int [of "- numeral w"]
    frep_double_int [of "- 1"] by simp_all

lemma frep_float [simp]: "frep TYPE(24) 0" "frep TYPE(24) 1" "(numeral w :: int) < 2 ^ 24 \<Longrightarrow> frep TYPE(24) (numeral w)"
  "(numeral w :: int) < 2 ^ 24 \<Longrightarrow> frep TYPE(24) (- numeral w)" "frep TYPE(24) (- 1)"
  using frep_float_int [of 0] frep_float_int [of 1] frep_float_int [of "numeral w"] frep_float_int [of "- numeral w"]
    frep_float_int [of "- 1"] by simp_all

lemma frep_double_frac: "\<bar>m\<bar> < 2 ^ 53 \<Longrightarrow> e \<le> 1000 \<Longrightarrow> frep TYPE(53) (of_int m / 2 ^ e)"
  unfolding frep_def by (rule double_rep_frac) simp_all

lemma frep_double_pow2 [simp]: "e \<le> 900 \<Longrightarrow> frep TYPE(53) (2 ^ e)" "e \<le> 900 \<Longrightarrow> frep TYPE(53) (1 / 2 ^ e)"
  using double_rep [of 1 e] frep_double_frac [of 1 e] by (simp_all add: frep_def)

lemma frep_double_fracs [simp]:
  "frep TYPE(53) (1 / 2)" "frep TYPE(53) (1 / 4)" "frep TYPE(53) (1 / 8)" "frep TYPE(53) (1 / 16)" "frep TYPE(53) (1 / 32)"
  "frep TYPE(53) (1 / 64)" "frep TYPE(53) (1 / 128)" "frep TYPE(53) (1 / 256)" "frep TYPE(53) (1 / 512)"
  "frep TYPE(53) (1 / 1024)" "frep TYPE(53) (1 / 2048)" "frep TYPE(53) (1 / 4096)" "frep TYPE(53) (1 / 8192)" "frep TYPE(53) (1 / 16384)"
  using frep_double_frac [of 1 1] frep_double_frac [of 1 2] frep_double_frac [of 1 3] frep_double_frac [of 1 4] frep_double_frac [of 1 5] frep_double_frac [of 1 6] frep_double_frac [of 1 7] frep_double_frac [of 1 8] frep_double_frac [of 1 9] frep_double_frac [of 1 10] frep_double_frac [of 1 11] frep_double_frac [of 1 12] frep_double_frac [of 1 13] frep_double_frac [of 1 14] by simp_all

end
