(* ===== verification/Estimator_Proxy.thy ===== *)
theory Estimator_Proxy
  imports Fp_Bounds Estimator_Common Sender_History
begin

text \<open>
  \<^verbatim>\<open>estimator/remote_estimator_proxy.c\<close>: the receiver side of the transport-wide feedback. It keeps
  the arrival time of each packet by unwrapped sequence number and, on a heartbeat, writes the
  window that starts at \<open>wnd_start_seq\<close> into a feedback message. The skip list of arrival times is
  the sorted association list that \<^verbatim>\<open>Skiplist\<close> proves it to be. \<open>None\<close> is the unwrapper's
  failed assertion, a sample beyond the array, or an undefined conversion to \<open>int64_t\<close>.

  The lemmas: the invariant \<open>proxy_wf\<close> is kept; \<^verbatim>\<open>build_loop_spec\<close> gives the message that the loop
  over the skip list writes; the send interval lies in its range for every bitrate.
\<close>

record estimator_proxy =
  ep_header_size :: nat
  ep_hb_ts :: int
  ep_send_interval_ms :: int
  ep_ssrc :: u32
  ep_wnd_start_seq :: int
  ep_max_arrival_seq :: int
  ep_arrival_times :: "(int \<times> int) list"
  ep_unwrapper :: cf_unwrapper
  ep_feelback_sequence :: u32

abbreviation DEFAULT_PROXY_INTERVAL_TIME :: int where "DEFAULT_PROXY_INTERVAL_TIME \<equiv> 100"
abbreviation BACK_WINDOWS_MS :: int where "BACK_WINDOWS_MS \<equiv> 500"
abbreviation MAX_IDS_NUM :: nat where "MAX_IDS_NUM \<equiv> 100"
abbreviation kMaxSendIntervalMs :: int where "kMaxSendIntervalMs \<equiv> 250"
abbreviation kMinSendIntervalMs :: int where "kMinSendIntervalMs \<equiv> 100"

definition estimator_proxy_create :: "nat \<Rightarrow> u32 \<Rightarrow> estimator_proxy" where
  "estimator_proxy_create packet_size ssrc = \<lparr>ep_header_size = packet_size, ep_hb_ts = -1,
     ep_send_interval_ms = DEFAULT_PROXY_INTERVAL_TIME, ep_ssrc = ssrc, ep_wnd_start_seq = -1,
     ep_max_arrival_seq = -1, ep_arrival_times = [], ep_unwrapper = init_unwrapper16, ep_feelback_sequence = 0\<rparr>"

text \<open>The loop that fills \<open>ids\<close>, and the loop that removes them.\<close>

fun proxy_old_ids :: "int \<Rightarrow> int \<Rightarrow> int list \<Rightarrow> (int \<times> int) list \<Rightarrow> int list" where
  "proxy_old_ids sequence arr_ts ids [] = ids"
| "proxy_old_ids sequence arr_ts ids ((k, v) # l) =
     (if k < sequence \<and> v + BACK_WINDOWS_MS \<le> arr_ts \<and> length ids < MAX_IDS_NUM
      then proxy_old_ids sequence arr_ts (ids @ [k]) l
      else proxy_old_ids sequence arr_ts ids l)"

fun proxy_remove_ids :: "int list \<Rightarrow> (int \<times> int) list \<Rightarrow> (int \<times> int) list" where
  "proxy_remove_ids [] l = l"
| "proxy_remove_ids (k # ids) l = proxy_remove_ids ids (sl_del k l)"

definition estimator_proxy_incoming :: "estimator_proxy \<Rightarrow> int \<Rightarrow> u32 \<Rightarrow> u16 \<Rightarrow> estimator_proxy option" where
  "estimator_proxy_incoming proxy arr_ts ssrc seq =
     (if arr_ts < 0 then Some proxy
      else case wrap_uint16 (ep_unwrapper proxy) seq of None \<Rightarrow> None
      | Some (w, sequence) \<Rightarrow>
         (let proxy = proxy\<lparr>ep_ssrc := ssrc, ep_unwrapper := w\<rparr> in
          if ep_wnd_start_seq proxy + 32767 < sequence then Some proxy
          else (let
            proxy = (if ep_max_arrival_seq proxy \<le> ep_wnd_start_seq proxy
                     then proxy\<lparr>ep_arrival_times :=
                       proxy_remove_ids (proxy_old_ids sequence arr_ts [] (ep_arrival_times proxy)) (ep_arrival_times proxy)\<rparr>
                     else proxy);
            proxy = (if ep_wnd_start_seq proxy = -1 then proxy\<lparr>ep_wnd_start_seq := uint seq\<rparr>
                     else if sequence < ep_wnd_start_seq proxy then proxy\<lparr>ep_wnd_start_seq := sequence\<rparr>
                     else proxy);
            proxy = proxy\<lparr>ep_max_arrival_seq := su_max (ep_max_arrival_seq proxy) sequence\<rparr>
            in Some (proxy\<lparr>ep_arrival_times := sl_ins sequence arr_ts (ep_arrival_times proxy)\<rparr>))))"

text \<open>The loop of \<open>proxy_bulid_feelback_packet\<close>; \<open>nss\<close> is \<open>new_start_seq\<close>.\<close>

fun build_loop :: "int \<Rightarrow> (int \<times> int) list \<Rightarrow> feedback_msg \<Rightarrow> int \<Rightarrow> (feedback_msg \<times> int) option" where
  "build_loop wnd [] msg nss = Some (msg, nss)"
| "build_loop wnd ((k, v) # l) msg nss =
     (if wnd \<le> k
      then (let
        msg = (if min_ts msg = -1 \<or> v < min_ts msg then msg\<lparr>min_ts := v\<rparr> else msg);
        i = unat (samples_num msg)
        in if i < length (samples msg)
           then (let msg = msg\<lparr>samples := (samples msg)[i := \<lparr>fs_seq = word_of_int (and k 0xffff), fs_ts = v\<rparr>],
                               samples_num := samples_num msg + 1\<rparr>
             in if MAX_FEELBACK_COUNT \<le> unat (samples_num msg) then Some (msg, k + 1)
                else build_loop wnd l msg (k + 1))
           else None)
      else build_loop wnd l msg nss)"

definition proxy_bulid_feelback_packet :: "estimator_proxy \<Rightarrow> feedback_msg \<Rightarrow> (estimator_proxy \<times> feedback_msg \<times> int) option" where
  "proxy_bulid_feelback_packet proxy msg =
     (if ep_max_arrival_seq proxy \<le> ep_wnd_start_seq proxy \<and> 2 < length (ep_arrival_times proxy)
      then Some (proxy, msg, -1)
      else case build_loop (ep_wnd_start_seq proxy) (ep_arrival_times proxy)
                (msg\<lparr>min_ts := -1, samples_num := 0, base_seq := ep_wnd_start_seq proxy\<rparr>) (-1) of
        None \<Rightarrow> None
      | Some (msg, nss) \<Rightarrow>
          if 2 < unat (samples_num msg) then Some (proxy\<lparr>ep_wnd_start_seq := nss\<rparr>, msg, 0)
          else Some (proxy, msg, -1))"

definition estimator_proxy_heartbeat :: "estimator_proxy \<Rightarrow> int \<Rightarrow> feedback_msg \<Rightarrow> (estimator_proxy \<times> feedback_msg \<times> int) option" where
  "estimator_proxy_heartbeat proxy cur_ts msg =
     (if ep_hb_ts proxy + ep_send_interval_ms proxy \<le> cur_ts
      then proxy_bulid_feelback_packet (proxy\<lparr>ep_hb_ts := cur_ts\<rparr>) msg
      else Some (proxy, msg, -1))"

definition estimator_proxy_bitrate_changed :: "estimator_proxy \<Rightarrow> u32 \<Rightarrow> estimator_proxy option" where
  "estimator_proxy_bitrate_changed proxy bitrate =
     (let rate = fp_of_int (uint bitrate) * (fp_lit 0.05 :: double)
      in map_option (\<lambda>iv. proxy\<lparr>ep_send_interval_ms := su_max (su_min iv kMaxSendIntervalMs) kMinSendIntervalMs\<rparr>)
           (fp_to_s64 ((fp_of_int (int (ep_header_size proxy)) * fp_lit 8 * fp_lit 1000) div rate + fp_lit 0.5)))"

subsection \<open>Invariant\<close>

definition vals_nonneg :: "('k \<times> int) list \<Rightarrow> bool" where
  "vals_nonneg l \<longleftrightarrow> (\<forall>v \<in> snd ` set l. 0 \<le> v)"

lemma vals_nonneg_ins: "vals_nonneg l \<Longrightarrow> 0 \<le> v \<Longrightarrow> vals_nonneg (sl_ins k v l)"
  unfolding vals_nonneg_def by (induction k v l rule: sl_ins.induct) auto

lemma vals_nonneg_simps [simp]: "vals_nonneg []" "vals_nonneg ((k, v) # l) \<longleftrightarrow> 0 \<le> v \<and> vals_nonneg l"
  by (auto simp: vals_nonneg_def)

lemma vals_nonneg_del: "vals_nonneg l \<Longrightarrow> vals_nonneg (sl_del k l)"
  by (auto simp: vals_nonneg_def sl_del_def)

definition proxy_wf :: "estimator_proxy \<Rightarrow> bool" where
  "proxy_wf p \<longleftrightarrow> uw16.wf (ep_unwrapper p) \<and> sl_sorted (ep_arrival_times p) \<and> keys_nonneg (ep_arrival_times p)
     \<and> vals_nonneg (ep_arrival_times p) \<and> -1 \<le> ep_wnd_start_seq p \<and> -1 \<le> ep_max_arrival_seq p"

lemma estimator_proxy_create_wf: "proxy_wf (estimator_proxy_create sz ssrc)"
  by (simp add: proxy_wf_def estimator_proxy_create_def init_unwrapper16_wf)

lemma proxy_remove_ids_inv:
  "sl_sorted l \<and> keys_nonneg l \<and> vals_nonneg l \<Longrightarrow>
    sl_sorted (proxy_remove_ids ids l) \<and> keys_nonneg (proxy_remove_ids ids l) \<and> vals_nonneg (proxy_remove_ids ids l)"
  by (induction ids l rule: proxy_remove_ids.induct) (simp_all add: sl_sorted_del vals_nonneg_del)

lemma proxy_remove_ids_filter: "proxy_remove_ids ids l = filter (\<lambda>(k, v). k \<notin> set ids) l"
  by (induction ids l rule: proxy_remove_ids.induct) (auto simp: sl_del_def intro!: filter_cong)

lemma proxy_old_ids_sound:
  "k \<in> set (proxy_old_ids sq ts ids l) \<Longrightarrow> k \<in> set ids \<or> (\<exists>v. (k, v) \<in> set l \<and> k < sq \<and> v + 500 \<le> ts)"
  by (induction sq ts ids l rule: proxy_old_ids.induct) (auto split: if_splits)

text \<open>What an arrival does to a well-formed proxy.\<close>

lemma estimator_proxy_incoming_wf [inv_intros]:
  assumes "proxy_wf p" and "estimator_proxy_incoming p ts ssrc q = Some p'"
  shows "proxy_wf p'"
proof (cases "ts < 0")
  case True
  then show ?thesis using assms by (simp add: estimator_proxy_incoming_def)
next
  case False
  obtain w s where w: "wrap_uint16 (ep_unwrapper p) q = Some (w, s)"
    using assms(1) uw16.wrap_total [of "ep_unwrapper p" q] by (auto simp: proxy_wf_def)
  have "uw16.wf w" "0 \<le> s"
    using uw16.wrap_wf [OF _ w] assms(1) by (auto simp: proxy_wf_def)
  moreover have "-1 \<le> uint q"
    by (rule order_trans [of _ 0]) simp_all
  ultimately show ?thesis
    using assms False w proxy_remove_ids_inv [of "ep_arrival_times p" "proxy_old_ids s ts [] (ep_arrival_times p)"]
    by (auto simp: estimator_proxy_incoming_def proxy_wf_def Let_def sl_sorted_ins vals_nonneg_ins split: if_splits)
qed

lemma estimator_proxy_incoming_total: "proxy_wf p \<Longrightarrow> \<exists>p'. estimator_proxy_incoming p ts ssrc q = Some p'"
  using uw16.wrap_total [of "ep_unwrapper p" q] by (auto simp: estimator_proxy_incoming_def proxy_wf_def Let_def)

subsection \<open>The message that the loop writes\<close>

definition to_samples :: "(int \<times> int) list \<Rightarrow> feedback_sample list" where
  "to_samples l = map (\<lambda>(k, v). \<lparr>fs_seq = word_of_int k, fs_ts = v\<rparr>) l"

fun least_ts :: "int \<Rightarrow> (int \<times> int) list \<Rightarrow> int" where
  "least_ts m [] = m"
| "least_ts m ((k, v) # l) = least_ts (if m = -1 \<or> v < m then v else m) l"

lemma word_of_int_and_ffff: "(word_of_int (and k 0xffff) :: u16) = word_of_int k"
proof -
  have "and k 0xffff = take_bit 16 k"
    by (simp add: take_bit_eq_mask mask_eq_exp_minus_1)
  then show ?thesis
    by (simp add: word_of_int_eq_iff)
qed

text \<open>\<open>i\<close> samples are in the message; the rest of the window goes behind them, 128 at most.\<close>

lemma build_loop_spec:
  assumes "unat (samples_num msg) = i" and "i < 128" and "length (samples msg) = 128"
  shows "build_loop wnd l msg nss =
    (let xs = take (128 - i) (filter (\<lambda>(k, v). wnd \<le> k) l) in
     Some (msg\<lparr>min_ts := least_ts (min_ts msg) xs, samples_num := word_of_nat (i + length xs),
               samples := take i (samples msg) @ to_samples xs @ drop (i + length xs) (samples msg)\<rparr>,
           if xs = [] then nss else fst (last xs) + 1))"
  using assms
proof (induction l arbitrary: msg i nss)
  case Nil
  then show ?case by (auto simp: to_samples_def)
next
  case (Cons a l)
  obtain k v where a: "a = (k, v)" by (cases a)
  show ?case
  proof (cases "wnd \<le> k")
    case False
    then show ?thesis using Cons by (simp add: a)
  next
    case True
    define sm where "sm = \<lparr>fs_seq = word_of_int k :: u16, fs_ts = v\<rparr>"
    define msg' where "msg' = msg\<lparr>min_ts := (if min_ts msg = -1 \<or> v < min_ts msg then v else min_ts msg),
      samples := (samples msg)[i := sm], samples_num := samples_num msg + 1\<rparr>"
    have sn: "samples_num msg + 1 = word_of_nat (Suc i)"
      using Cons.prems(1) by auto
    have i': "unat (samples_num msg') = Suc i"
    proof -
      have "samples_num msg' = word_of_nat (Suc i)"
        by (simp only: sn [symmetric]) (simp add: msg'_def)
      moreover have "unat (word_of_nat (Suc i) :: u8) = Suc i"
        using Cons.prems(2) by (simp only: unat_of_nat) simp
      ultimately show ?thesis by simp
    qed
    have step: "build_loop wnd (a # l) msg nss =
        (if 128 \<le> Suc i then Some (msg', k + 1) else build_loop wnd l msg' (k + 1))"
      using True Cons.prems i' by (simp add: a msg'_def sm_def Let_def word_of_int_and_ffff)
    have xs: "take (128 - i) (filter (\<lambda>(k, v). wnd \<le> k) (a # l)) = (k, v) # take (128 - Suc i) (filter (\<lambda>(k, v). wnd \<le> k) l)"
      using True Cons.prems(2) by (simp add: a take_Cons')
    have upd: "take (Suc i) (samples msg') = take i (samples msg) @ [sm]"
      "drop (Suc i + n) (samples msg') = drop (Suc i + n) (samples msg)" for n
      using Cons.prems(2,3) by (simp_all add: msg'_def take_Suc_conv_app_nth take_update_swap list_update_append)
    show ?thesis
    proof (cases "128 \<le> Suc i")
      case last: True
      then have "i = 127" using Cons.prems(2) by simp
      then show ?thesis
        using upd(1) Cons.prems(3) sn unfolding step xs
        by (simp add: Let_def to_samples_def sm_def msg'_def take_Suc_conv_app_nth)
    next
      case False
      have "length (samples msg') = 128" using Cons.prems(3) by (simp add: msg'_def)
      then show ?thesis
        using Cons.IH [OF i', of "k + 1"] False upd unfolding step xs
        by (simp add: Let_def to_samples_def sm_def) (simp add: msg'_def)
    qed
  qed
qed

subsection \<open>Runs of arrivals\<close>

text \<open>A burst: the true sequence number and the arrival time of each packet.\<close>

type_synonym burst = "(int \<times> int) list"

fun proxy_run :: "estimator_proxy \<Rightarrow> u32 \<Rightarrow> burst \<Rightarrow> estimator_proxy option" where
  "proxy_run p ssrc [] = Some p"
| "proxy_run p ssrc ((k, v) # xs) =
     (case estimator_proxy_incoming p v ssrc (word_of_int k) of None \<Rightarrow> None | Some p \<Rightarrow> proxy_run p ssrc xs)"

definition burst_ok :: "burst \<Rightarrow> bool" where
  "burst_ok xs \<longleftrightarrow> distinct (map fst xs) \<and> (\<forall>a \<in> set xs. 0 \<le> fst a \<and> 0 \<le> snd a)
     \<and> (\<forall>a \<in> set xs. \<forall>b \<in> set xs. \<bar>fst a - fst b\<bar> < 32768 \<and> \<bar>snd a - snd b\<bar> < 500)"

definition proxy_rel :: "estimator_proxy \<Rightarrow> burst \<Rightarrow> bool" where
  "proxy_rel p xs \<longleftrightarrow> uw16.wf (ep_unwrapper p) \<and> sl_sorted (ep_arrival_times p) \<and> set (ep_arrival_times p) = set xs
     \<and> length (ep_arrival_times p) = length xs \<and> last_value (ep_unwrapper p) \<in> fst ` set xs
     \<and> ep_wnd_start_seq p \<in> fst ` set xs \<and> ep_max_arrival_seq p \<in> fst ` set xs
     \<and> (\<forall>a \<in> set xs. ep_wnd_start_seq p \<le> fst a \<and> fst a \<le> ep_max_arrival_seq p)"

lemma sl_ins_new: "k \<notin> fst ` set l \<Longrightarrow> set (sl_ins k v l) = insert (k, v) (set l) \<and> length (sl_ins k v l) = Suc (length l)"
  by (induction k v l rule: sl_ins.induct) auto

lemma proxy_old_ids_none: "\<forall>a \<in> set l. ts < snd a + 500 \<Longrightarrow> proxy_old_ids sq ts [] l = []"
proof -
  assume a: "\<forall>a \<in> set l. ts < snd a + 500"
  then have "k \<notin> set (proxy_old_ids sq ts [] l)" for k
    using proxy_old_ids_sound [of k sq ts "[]" l] by fastforce
  then show ?thesis
    by (metis list.set_intros(1) neq_Nil_conv)
qed

lemma proxy_first:
  assumes "0 \<le> k" and "k < 32767" and "0 \<le> v"
  shows "\<exists>p'. estimator_proxy_incoming (estimator_proxy_create sz ss) v ssrc (word_of_int k) = Some p'
    \<and> proxy_rel p' [(k, v)] \<and> ep_hb_ts p' = -1 \<and> ep_send_interval_ms p' = 100"
proof -
  have "wrap_uint16 init_unwrapper16 (word_of_int k) = Some (init_unwrapper16\<lparr>last_value := k\<rparr>, k)"
    using assms uw16.wrap_exact [OF init_unwrapper16_wf, of k] by (simp add: init_unwrapper16_def)
  moreover have "uint (word_of_int k :: u16) = k"
    using assms by (simp add: uint_of_int_u16)
  ultimately show ?thesis
    using assms by (simp add: estimator_proxy_incoming_def estimator_proxy_create_def proxy_rel_def Let_def
      uw16.wf_def init_unwrapper16_def sl_sorted_def)
qed

lemma proxy_next:
  assumes rel: "proxy_rel p xs" and ok: "burst_ok (xs @ [(k, v)])"
  shows "\<exists>p'. estimator_proxy_incoming p v ssrc (word_of_int k) = Some p' \<and> proxy_rel p' (xs @ [(k, v)])
    \<and> ep_hb_ts p' = ep_hb_ts p \<and> ep_send_interval_ms p' = ep_send_interval_ms p"
proof -
  have near: "\<bar>k - fst a\<bar> < 32768" "v < snd a + 500" "0 \<le> fst a" if "a \<in> set xs" for a
    using ok that unfolding burst_ok_def by (auto dest!: bspec [of _ _ a])
  have kv: "0 \<le> k" "0 \<le> v" "k \<notin> fst ` set xs"
    using ok by (auto simp: burst_ok_def)
  have lv: "\<bar>k - last_value (ep_unwrapper p)\<bar> < 32768"
    using rel near(1) by (auto simp: proxy_rel_def)
  then have w: "wrap_uint16 (ep_unwrapper p) (word_of_int k) = Some ((ep_unwrapper p)\<lparr>last_value := k\<rparr>, k)"
    using rel kv by (intro uw16.wrap_exact) (auto simp: proxy_rel_def)
  have wnd: "k \<le> ep_wnd_start_seq p + 32767" "0 \<le> ep_wnd_start_seq p"
    using rel near(1,3) by (fastforce simp: proxy_rel_def)+
  have old: "proxy_old_ids k v [] (ep_arrival_times p) = []"
    using rel near(2) by (intro proxy_old_ids_none) (auto simp: proxy_rel_def)
  have new: "set (sl_ins k v (ep_arrival_times p)) = insert (k, v) (set xs)"
    "length (sl_ins k v (ep_arrival_times p)) = Suc (length xs)"
    using sl_ins_new [of k "ep_arrival_times p" v] rel kv(3) by (auto simp: proxy_rel_def)
  have "\<exists>p'. estimator_proxy_incoming p v ssrc (word_of_int k) = Some p' \<and> ep_unwrapper p' = (ep_unwrapper p)\<lparr>last_value := k\<rparr>
    \<and> ep_arrival_times p' = sl_ins k v (ep_arrival_times p) \<and> ep_wnd_start_seq p' = min (ep_wnd_start_seq p) k
    \<and> ep_max_arrival_seq p' = max (ep_max_arrival_seq p) k \<and> ep_hb_ts p' = ep_hb_ts p
    \<and> ep_send_interval_ms p' = ep_send_interval_ms p"
    using kv(2) wnd by (auto simp: estimator_proxy_incoming_def w Let_def old)
  moreover have "proxy_rel p' (xs @ [(k, v)])" if "ep_unwrapper p' = (ep_unwrapper p)\<lparr>last_value := k\<rparr>"
    "ep_arrival_times p' = sl_ins k v (ep_arrival_times p)" "ep_wnd_start_seq p' = min (ep_wnd_start_seq p) k"
    "ep_max_arrival_seq p' = max (ep_max_arrival_seq p) k" for p'
    using rel kv(1) new sl_sorted_ins [of "ep_arrival_times p" k v]
    unfolding proxy_rel_def that by (auto simp: uw16.wf_def min_def max_def)
  ultimately show ?thesis
    by blast
qed

lemma burst_ok_append: "burst_ok (xs @ ys) \<Longrightarrow> burst_ok xs"
  by (auto simp: burst_ok_def)

lemma proxy_run_rel:
  "proxy_rel p xs \<Longrightarrow> burst_ok (xs @ ys) \<Longrightarrow> \<exists>p'. proxy_run p ssrc ys = Some p' \<and> proxy_rel p' (xs @ ys)
    \<and> ep_hb_ts p' = ep_hb_ts p \<and> ep_send_interval_ms p' = ep_send_interval_ms p"
proof (induction ys arbitrary: p xs)
  case Nil
  then show ?case by simp
next
  case (Cons y ys)
  obtain k v where y: "y = (k, v)" by (cases y)
  have "burst_ok (xs @ [(k, v)])"
    using Cons.prems(2) burst_ok_append [of "xs @ [(k, v)]" ys] by (simp add: y)
  then obtain p1 where p1: "estimator_proxy_incoming p v ssrc (word_of_int k) = Some p1" "proxy_rel p1 (xs @ [(k, v)])"
      "ep_hb_ts p1 = ep_hb_ts p" "ep_send_interval_ms p1 = ep_send_interval_ms p"
    using proxy_next [OF Cons.prems(1)] by blast
  then show ?case
    using Cons.IH [OF p1(2)] Cons.prems(2) by (simp add: y)
qed

lemma least_ts_Min:
  "0 \<le> m \<Longrightarrow> \<forall>a \<in> set l. 0 \<le> snd a \<Longrightarrow> least_ts m l = foldl min m (map snd l)"
  by (induction m l rule: least_ts.induct) (auto simp: min_def)

lemma foldl_min: "foldl min (m :: int) l = Min (insert m (set l))"
proof (induction l arbitrary: m)
  case (Cons a l)
  have "Min (insert m (insert a (set l))) = Min (insert (min m a) (set l))"
    by (cases "l = []") (auto simp: min.assoc)
  then show ?case using Cons by simp
qed simp

lemma least_ts_eq:
  assumes "l \<noteq> []" and "\<forall>a \<in> set l. 0 \<le> snd a"
  shows "least_ts (-1) l = Min (snd ` set l)"
proof (cases l)
  case (Cons a l')
  then show ?thesis
    using assms least_ts_Min [of "snd a" l'] by (cases a) (simp add: foldl_min)
qed (use assms in simp)

subsection \<open>Properties\<close>

text \<open>
  C31: a feedback message reports exactly what arrived. A fresh proxy gets between 3 and 128
  distinct packets, in any order, with sequence numbers within half the range of each other, the
  first below 32767, all within 500 ms: the next heartbeat due fills the message with
  exactly these packets and their arrival times in sequence order, the lowest sequence number as
  the base and the earliest arrival as the minimum time, and the window then starts behind the
  highest number reported, so that no packet is reported twice.
\<close>

theorem proxy_reports_arrivals:
  assumes ok: "burst_ok xs" and n: "3 \<le> length xs" "length xs \<le> 128" and first: "fst (hd xs) < 32767"
    and cur: "99 \<le> cur" and msg: "length (samples msg) = 128"
  shows "\<exists>p p' msg' ys. proxy_run (estimator_proxy_create sz ss) ssrc xs = Some p
    \<and> estimator_proxy_heartbeat p cur msg = Some (p', msg', 0)
    \<and> sl_sorted ys \<and> set ys = set xs \<and> unat (samples_num msg') = length xs
    \<and> take (unat (samples_num msg')) (samples msg') = map (\<lambda>(k, v). \<lparr>fs_seq = word_of_int k, fs_ts = v\<rparr>) ys
    \<and> base_seq msg' = Min (fst ` set xs) \<and> min_ts msg' = Min (snd ` set xs)
    \<and> ep_wnd_start_seq p' = Max (fst ` set xs) + 1 \<and> flag msg' = flag msg"
proof -
  obtain k v xs' where xs: "xs = (k, v) # xs'"
    using n(1) by (cases xs) auto
  have kv: "0 \<le> k" "k < 32767" "0 \<le> v"
    using ok first by (auto simp: xs burst_ok_def)
  obtain p0 where p0: "estimator_proxy_incoming (estimator_proxy_create sz ss) v ssrc (word_of_int k) = Some p0"
    "proxy_rel p0 [(k, v)]" "ep_hb_ts p0 = -1" "ep_send_interval_ms p0 = 100"
    using proxy_first [OF kv] by blast
  obtain p where p: "proxy_run p0 ssrc xs' = Some p" "proxy_rel p xs" "ep_hb_ts p = -1" "ep_send_interval_ms p = 100"
    using proxy_run_rel [OF p0(2), of xs'] ok p0(3,4) by (auto simp: xs)
  define ys where "ys = ep_arrival_times p"
  have ys: "sl_sorted ys" "set ys = set xs" "length ys = length xs"
    using p(2) by (auto simp: proxy_rel_def ys_def)
  have wnd: "ep_wnd_start_seq p = Min (fst ` set xs)" and mx: "ep_max_arrival_seq p = Max (fst ` set xs)"
    using p(2) by (auto simp: proxy_rel_def intro!: Min_eqI [symmetric] Max_eqI [symmetric])
  have all: "filter (\<lambda>(k, v). ep_wnd_start_seq p \<le> k) ys = ys"
    using p(2) ys(2) by (auto simp: proxy_rel_def filter_id_conv)
  have ne: "ys \<noteq> []" using n ys(3) by auto
  have "fst (last ys) = Max (fst ` set xs)"
  proof -
    have "\<forall>a \<in> set ys. fst a \<le> fst (last ys)"
      using ys(1) ne by (cases ys rule: rev_cases) (auto simp: sl_sorted_def sorted_wrt_append)
    then show ?thesis
      using ne ys(2) by (intro Max_eqI [symmetric]) auto
  qed
  moreover have "ep_wnd_start_seq p < ep_max_arrival_seq p"
  proof -
    have "fst (hd xs) \<noteq> fst (hd xs')" "xs' \<noteq> []"
      using ok n(1) by (cases xs'; auto simp: xs burst_ok_def)+
    then have "\<exists>a \<in> set xs. \<exists>b \<in> set xs. fst a \<noteq> fst b"
      by (intro bexI [of _ "hd xs"] bexI [of _ "hd xs'"]) (auto simp: xs)
    then show ?thesis
      using p(2) unfolding proxy_rel_def by (metis order_antisym_conv order_less_le order_trans)
  qed
  moreover have "least_ts (-1) ys = Min (snd ` set xs)"
    using least_ts_eq [OF ne] ok ys(2) by (auto simp: burst_ok_def)
  moreover have "unat (word_of_nat (length xs) :: u8) = length xs"
    using n(2) by (simp add: unat_of_nat)
  moreover define m0 where "m0 = msg\<lparr>min_ts := -1, samples_num := 0, base_seq := ep_wnd_start_seq p\<rparr>"
  moreover have "build_loop (ep_wnd_start_seq p) ys m0 (-1) = Some (m0\<lparr>min_ts := least_ts (-1) ys,
      samples_num := word_of_nat (length ys), samples := to_samples ys @ drop (length ys) (samples msg)\<rparr>, fst (last ys) + 1)"
    using build_loop_spec [of m0 0 "ep_wnd_start_seq p" ys "-1"] msg n ys(3) ne by (simp add: m0_def all Let_def)
  moreover define p' where "p' = p\<lparr>ep_hb_ts := cur, ep_wnd_start_seq := Max (fst ` set xs) + 1\<rparr>"
  moreover define msg' where "msg' = m0\<lparr>min_ts := Min (snd ` set xs), samples_num := word_of_nat (length xs),
        samples := to_samples ys @ drop (length ys) (samples msg)\<rparr>"
  ultimately have hb: "estimator_proxy_heartbeat p cur msg = Some (p', msg', 0)" and sn: "unat (samples_num msg') = length xs"
    using cur p(3,4) n ys(3)
    by (simp_all add: estimator_proxy_heartbeat_def proxy_bulid_feelback_packet_def ys_def [symmetric])
  have run: "proxy_run (estimator_proxy_create sz ss) ssrc xs = Some p"
    using p0(1) p(1) by (simp add: xs)
  have smp: "take (unat (samples_num msg')) (samples msg') = map (\<lambda>(k, v). \<lparr>fs_seq = word_of_int k, fs_ts = v\<rparr>) ys"
    unfolding sn using ys(3) by (simp add: msg'_def to_samples_def)
  have flds: "base_seq msg' = Min (fst ` set xs)" "min_ts msg' = Min (snd ` set xs)" "flag msg' = flag msg"
    "ep_wnd_start_seq p' = Max (fst ` set xs) + 1"
    by (simp_all add: msg'_def m0_def p'_def wnd)
  show ?thesis
    by (rule exI [of _ p], rule exI [of _ p'], rule exI [of _ msg'], rule exI [of _ ys])
      (intro conjI run hb ys(1,2) sn smp flds)
qed

theorem proxy_reports_arrivals_witness:
  "\<exists>p p' msg' ys. proxy_run (estimator_proxy_create 1000 0) 7 [(11, 1000), (10, 1005), (12, 1004)] = Some p
    \<and> estimator_proxy_heartbeat p 1100 \<lparr>flag = 4, remb = 0, fraction_loss = 0, packet_num = 0, base_seq = 0, min_ts = 0,
         samples_num = 0, samples = replicate 128 \<lparr>fs_seq = 0, fs_ts = 0\<rparr>\<rparr> = Some (p', msg', 0)
    \<and> sl_sorted ys \<and> set ys = {(10 :: int, 1005 :: int), (11, 1000), (12, 1004)} \<and> base_seq msg' = 10 \<and> min_ts msg' = 1000
    \<and> ep_wnd_start_seq p' = 13"
proof -
  have "burst_ok [(11, 1000), (10, 1005), (12, 1004)]"
    by (simp add: burst_ok_def)
  then show ?thesis
    using proxy_reports_arrivals [of "[(11, 1000), (10, 1005), (12, 1004)]" 1100
      "\<lparr>flag = 4, remb = 0, fraction_loss = 0, packet_num = 0, base_seq = 0, min_ts = 0,
         samples_num = 0, samples = replicate 128 \<lparr>fs_seq = 0, fs_ts = 0\<rparr>\<rparr>" 1000 0 7]
    by (auto simp: insert_commute)
qed

text \<open>
  The feedback interval stays between 100 and 250 ms. For every bitrate but 0, and a packet size
  below 2^20, setting the bitrate is defined and leaves an interval in that range.
\<close>

lemma proxy_interval_bounds:
  assumes "bitrate \<noteq> 0" and "ep_header_size p < 1048576"
  shows "\<exists>p'. estimator_proxy_bitrate_changed p bitrate = Some p' \<and> 100 \<le> ep_send_interval_ms p' \<and> ep_send_interval_ms p' \<le> 250"
proof -
  have "1 \<le> uint bitrate"
    using assms(1) uint_0_iff [of bitrate] uint_u32_range(2) [of bitrate] by linarith
  then have "1 \<le> real_of_int (uint bitrate)"
    by (simp only: of_int_1_le_iff)
  moreover have "real_of_int (uint bitrate) \<le> 4294967296"
    using uint_u32_range(1) [of bitrate] by linarith
  ultimately have b: "fin_in 1 4294967296 (fp_of_int (uint bitrate) :: double)"
    by (intro fin_in_of_int frep_double) simp_all
  have l: "fin_in (1/2^5) 1 (fp_lit 0.05 :: double)" "fin_in 8 8 (fp_lit 8 :: double)"
    "fin_in 1000 1000 (fp_lit 1000 :: double)" "fin_in 0 1 (fp_lit 0.5 :: double)"
    by (rule fin_in_lit; simp)+
  have rate: "fin_in (1/2^5) 4294967296 (fp_of_int (uint bitrate) * (fp_lit 0.05 :: double))"
    by (rule fin_in_mul [OF b l(1)]) simp_all
  have h: "fin_in 0 1048576 (fp_of_int (int (ep_header_size p)) :: double)"
    using assms(2) by (intro fin_in_of_int) auto
  have h8: "fin_in 0 8388608 (fp_of_int (int (ep_header_size p)) * fp_lit 8 :: double)"
    by (rule fin_in_mul [OF h l(2)]) simp_all
  have num: "fin_in 0 8388608000 (fp_of_int (int (ep_header_size p)) * fp_lit 8 * fp_lit 1000 :: double)"
    by (rule fin_in_mul [OF h8 l(3)]) simp_all
  have q: "fin_in 0 268435456000 (fp_of_int (int (ep_header_size p)) * fp_lit 8 * fp_lit 1000
      div (fp_of_int (uint bitrate) * fp_lit 0.05) :: double)"
    by (rule fin_in_div [OF num rate]) simp_all
  have "fin_in 0 268435456001 (fp_of_int (int (ep_header_size p)) * fp_lit 8 * fp_lit 1000
      div (fp_of_int (uint bitrate) * fp_lit 0.05) + fp_lit 0.5 :: double)"
    by (rule fin_in_add [OF q l(4)]) simp_all
  from fin_in_to_s64 [OF this] show ?thesis
    unfolding estimator_proxy_bitrate_changed_def Let_def by auto
qed

lemma proxy_interval_bounds_witness:
  "\<exists>p'. estimator_proxy_bitrate_changed (estimator_proxy_create 1000 0) 1000000 = Some p'
    \<and> 100 \<le> ep_send_interval_ms p' \<and> ep_send_interval_ms p' \<le> 250"
  by (rule proxy_interval_bounds) (simp_all add: estimator_proxy_create_def)

end
