(* ===== verification/Interval_Budget.thy ===== *)
theory Interval_Budget
  imports Prelude
begin

text \<open>
  \<^verbatim>\<open>pacing/interval_budget.c\<close>: the bytes that may still be sent in a window of 500 ms at a target
  rate. Every \<open>int\<close> operation of the code wraps at 32 bits here (\<^verbatim>\<open>s32\<close>); the properties state the
  ranges in which none does. \<open>None\<close> is the division by a budget of zero bytes.

  The lemmas: the bytes remaining stay between plus and minus the budget (\<open>budget_wf\<close>) under every
  operation, and a sender that only sends while bytes remain keeps to the target rate.
\<close>

record interval_budget =
  target_rate_kbps :: int
  max_bytes_in_budget :: int
  bytes_remaining :: int
  can_build_up_underuse :: int

abbreviation k_window_ms :: int where "k_window_ms \<equiv> 500"

definition set_target_rate_kbps :: "interval_budget \<Rightarrow> int \<Rightarrow> interval_budget" where
  "set_target_rate_kbps b rate =
     (let mx = s32 (k_window_ms * rate) sdiv 8
      in b\<lparr>target_rate_kbps := rate, max_bytes_in_budget := mx,
           bytes_remaining := su_min (su_max (- mx) (bytes_remaining b)) mx\<rparr>)"

text \<open>The fields that the function does not set before it calls the next are those of \<open>b\<close>.\<close>

definition init_interval_budget :: "interval_budget \<Rightarrow> int \<Rightarrow> int \<Rightarrow> interval_budget" where
  "init_interval_budget b initial_target_rate_kbps build_up =
     set_target_rate_kbps (b\<lparr>bytes_remaining := 0, can_build_up_underuse := build_up\<rparr>) initial_target_rate_kbps"

definition increase_budget :: "interval_budget \<Rightarrow> int \<Rightarrow> interval_budget" where
  "increase_budget b delta_ts =
     (let bytes = s32 (target_rate_kbps b * delta_ts) sdiv 8
      in if bytes_remaining b < 0 \<or> can_build_up_underuse b = 0
         then b\<lparr>bytes_remaining := su_min (s32 (bytes_remaining b + bytes)) (max_bytes_in_budget b)\<rparr>
         else b\<lparr>bytes_remaining := su_min bytes (max_bytes_in_budget b)\<rparr>)"

definition use_budget :: "interval_budget \<Rightarrow> int \<Rightarrow> interval_budget" where
  "use_budget b bytes =
     (let rem = s32 (bytes_remaining b - bytes)
      in b\<lparr>bytes_remaining := su_max (- max_bytes_in_budget b) rem\<rparr>)"

definition budget_remaining :: "interval_budget \<Rightarrow> nat" where
  "budget_remaining b = (if 0 < bytes_remaining b then nat (bytes_remaining b) else 0)"

definition budget_level_precent :: "interval_budget \<Rightarrow> int option" where
  "budget_level_precent b =
     (if max_bytes_in_budget b = 0 then None else Some (s32 (bytes_remaining b * 100) sdiv max_bytes_in_budget b))"

subsection \<open>Invariant\<close>

lemma sdiv_nonneg: "0 \<le> (x :: int) \<Longrightarrow> 0 < d \<Longrightarrow> x sdiv d = x div d"
  by (cases "x = 0") (auto simp: signed_divide_int_def sgn_if)

text \<open>A target of at most 4294967 kbps keeps the products of the code inside an \<open>int\<close>.\<close>

definition budget_wf :: "interval_budget \<Rightarrow> bool" where
  "budget_wf b \<longleftrightarrow> 0 \<le> target_rate_kbps b \<and> target_rate_kbps b \<le> 4294967
     \<and> max_bytes_in_budget b = 500 * target_rate_kbps b div 8
     \<and> - max_bytes_in_budget b \<le> bytes_remaining b \<and> bytes_remaining b \<le> max_bytes_in_budget b"

lemma set_target_rate_eq:
  assumes "0 \<le> rate" and "rate \<le> 4294967"
  shows "set_target_rate_kbps b rate = b\<lparr>target_rate_kbps := rate, max_bytes_in_budget := 500 * rate div 8,
    bytes_remaining := min (max (- (500 * rate div 8)) (bytes_remaining b)) (500 * rate div 8)\<rparr>"
proof -
  have "s32 (500 * rate) = 500 * rate" using assms by (intro s32_id) auto
  then show ?thesis
    using assms by (simp add: set_target_rate_kbps_def sdiv_nonneg Let_def)
qed

lemma set_target_rate_wf [inv_intros]: "0 \<le> rate \<Longrightarrow> rate \<le> 4294967 \<Longrightarrow> budget_wf (set_target_rate_kbps b rate)"
  by (simp add: set_target_rate_eq budget_wf_def)

lemma increase_budget_eq:
  assumes "budget_wf b" and "0 \<le> dt" and "dt \<le> 500"
  shows "increase_budget b dt = b\<lparr>bytes_remaining :=
    min ((if bytes_remaining b < 0 \<or> can_build_up_underuse b = 0 then bytes_remaining b else 0)
         + target_rate_kbps b * dt div 8) (max_bytes_in_budget b)\<rparr>"
proof -
  have r: "0 \<le> target_rate_kbps b * dt" "target_rate_kbps b * dt \<le> 4294967 * 500"
    using assms mult_mono [of "target_rate_kbps b" 4294967 dt 500] by (simp_all add: budget_wf_def)
  then have "s32 (target_rate_kbps b * dt) = target_rate_kbps b * dt"
    by (intro s32_id) auto
  moreover have "s32 (bytes_remaining b + target_rate_kbps b * dt div 8) = bytes_remaining b + target_rate_kbps b * dt div 8"
    using assms(1) r by (intro s32_id) (auto simp: budget_wf_def)
  ultimately show ?thesis
    using r(1) by (simp add: increase_budget_def sdiv_nonneg Let_def)
qed

lemma increase_budget_wf [inv_intros]:
  assumes "budget_wf b" and "0 \<le> dt" and "dt \<le> 500"
  shows "budget_wf (increase_budget b dt)"
proof -
  have "0 \<le> target_rate_kbps b * dt div 8"
    using assms by (simp add: budget_wf_def pos_imp_zdiv_nonneg_iff)
  then show ?thesis
    using assms by (simp add: increase_budget_eq) (auto simp: budget_wf_def)
qed

lemma use_budget_eq:
  assumes "budget_wf b" and "0 \<le> n" and "n \<le> 1800000000"
  shows "use_budget b n = b\<lparr>bytes_remaining := max (- max_bytes_in_budget b) (bytes_remaining b - n)\<rparr>"
proof -
  have "s32 (bytes_remaining b - n) = bytes_remaining b - n"
    using assms by (intro s32_id) (auto simp: budget_wf_def)
  then show ?thesis
    by (simp add: use_budget_def Let_def)
qed

lemma use_budget_wf [inv_intros]: "budget_wf b \<Longrightarrow> 0 \<le> n \<Longrightarrow> n \<le> 1800000000 \<Longrightarrow> budget_wf (use_budget b n)"
  by (simp add: use_budget_eq budget_wf_def)

lemma budget_level_range:
  assumes "budget_wf b" and "0 < max_bytes_in_budget b" and "max_bytes_in_budget b \<le> 21474836"
  shows "\<exists>v. budget_level_precent b = Some v \<and> -100 \<le> v \<and> v \<le> 100"
proof -
  define m r where "m = max_bytes_in_budget b" and "r = bytes_remaining b"
  have m: "0 < m" "m \<le> 21474836" "- m \<le> r" "r \<le> m"
    using assms by (auto simp: budget_wf_def m_def r_def)
  have "s32 (r * 100) = r * 100" using m by (intro s32_id) auto
  moreover have "-100 \<le> (r * 100) sdiv m \<and> (r * 100) sdiv m \<le> 100"
  proof -
    have "\<bar>r * 100\<bar> div m \<le> (100 * m) div m"
      using m by (intro zdiv_mono1) auto
    then have "0 \<le> \<bar>r * 100\<bar> div m" "\<bar>r * 100\<bar> div m \<le> 100"
      using m by (simp_all add: pos_imp_zdiv_nonneg_iff)
    then show ?thesis
      using m by (auto simp: signed_divide_int_def sgn_if)
  qed
  ultimately show ?thesis
    using m by (simp add: budget_level_precent_def m_def r_def)
qed

subsection \<open>A sender under the budget\<close>

text \<open>
  One tick adds the budget of \<open>dt\<close> milliseconds and sends packets from the queue while bytes remain;
  the total size sent comes with the new budget.
\<close>

fun budget_drain :: "interval_budget \<Rightarrow> int list \<Rightarrow> interval_budget \<times> int" where
  "budget_drain b [] = (b, 0)"
| "budget_drain b (x # xs) =
     (if budget_remaining b = 0 then (b, 0)
      else let (b', n) = budget_drain (use_budget b x) xs in (b', x + n))"

fun budget_ticks :: "interval_budget \<Rightarrow> (int \<times> int list) list \<Rightarrow> interval_budget \<times> int" where
  "budget_ticks b [] = (b, 0)"
| "budget_ticks b ((dt, xs) # ts) =
     (let (b', n) = budget_drain (increase_budget b dt) xs; (b'', k) = budget_ticks b' ts in (b'', n + k))"

lemma budget_drain_bound:
  assumes "budget_wf b" and "\<forall>x \<in> set xs. 0 \<le> x \<and> x \<le> M" and "M \<le> max_bytes_in_budget b" and "- M \<le> bytes_remaining b"
    and "budget_drain b xs = (b', n)"
  shows "budget_wf b' \<and> n + bytes_remaining b' = bytes_remaining b \<and> - M \<le> bytes_remaining b'
    \<and> target_rate_kbps b' = target_rate_kbps b"
  using assms
proof (induction b xs arbitrary: b' n rule: budget_drain.induct)
  case (2 b x xs)
  show ?case
  proof (cases "budget_remaining b = 0")
    case True
    then show ?thesis using 2 by simp
  next
    case False
    have b: "0 < bytes_remaining b" using False by (simp add: budget_remaining_def split: if_splits)
    have "max_bytes_in_budget b \<le> 268435437"
      using 2(2) by (auto simp: budget_wf_def)
    then have u: "use_budget b x = b\<lparr>bytes_remaining := bytes_remaining b - x\<rparr>" "budget_wf (use_budget b x)"
      using use_budget_eq [OF 2(2), of x] use_budget_wf [OF 2(2), of x] 2(3,4) b by auto
    obtain b1 n1 where d: "budget_drain (use_budget b x) xs = (b1, n1)" "b' = b1" "n = x + n1"
      using 2(6) False by (auto split: prod.splits)
    show ?thesis
      using 2(1) [OF False u(2) _ _ _ d(1)] 2(3,4) b d(2,3) by (auto simp: u(1))
  qed
qed simp

lemma budget_ticks_bound:
  assumes "budget_wf b" and "\<forall>(dt, xs) \<in> set ts. 0 \<le> dt \<and> dt \<le> 500 \<and> (\<forall>x \<in> set xs. 0 \<le> x \<and> x \<le> M)"
    and "0 \<le> M" and "M \<le> max_bytes_in_budget b" and "- M \<le> bytes_remaining b" and "budget_ticks b ts = (b', n)"
  shows "n + bytes_remaining b' \<le> bytes_remaining b + (\<Sum>(dt, xs)\<leftarrow>ts. target_rate_kbps b * dt div 8)
    \<and> - M \<le> bytes_remaining b'"
  using assms
proof (induction b ts arbitrary: b' n rule: budget_ticks.induct)
  case (2 b dt xs ts)
  define b1 where "b1 = increase_budget b dt"
  obtain b2 k2 where d: "budget_drain b1 xs = (b2, k2)" by (cases "budget_drain b1 xs")
  obtain b3 k3 where t: "budget_ticks b2 ts = (b3, k3)" by (cases "budget_ticks b2 ts")
  have res: "b' = b3" "n = k2 + k3"
    using 2(7) d t by (simp_all add: b1_def)
  have dt: "0 \<le> dt" "dt \<le> 500" using 2(3) by auto
  have add: "0 \<le> target_rate_kbps b * dt div 8"
    using 2(2) dt by (simp add: budget_wf_def pos_imp_zdiv_nonneg_iff)
  have b1: "budget_wf b1" "max_bytes_in_budget b1 = max_bytes_in_budget b" "target_rate_kbps b1 = target_rate_kbps b"
    using increase_budget_wf [OF 2(2) dt] increase_budget_eq [OF 2(2) dt] by (simp_all add: b1_def)
  have rem: "bytes_remaining b1 \<le> bytes_remaining b + target_rate_kbps b * dt div 8" "- M \<le> bytes_remaining b1"
    using add 2(4-6) by (auto simp: b1_def increase_budget_eq [OF 2(2) dt])
  have b2: "budget_wf b2" "k2 + bytes_remaining b2 = bytes_remaining b1" "- M \<le> bytes_remaining b2"
    "target_rate_kbps b2 = target_rate_kbps b"
    using budget_drain_bound [OF b1(1) _ _ rem(2) d] 2(3,5) b1(2,3) by auto
  have mx: "max_bytes_in_budget b2 = max_bytes_in_budget b"
    using 2(2) b2(1,4) by (simp add: budget_wf_def)
  have "k3 + bytes_remaining b3 \<le> bytes_remaining b2 + (\<Sum>(dt, xs)\<leftarrow>ts. target_rate_kbps b2 * dt div 8)
      \<and> - M \<le> bytes_remaining b3"
    using 2(1) [OF _ _ b2(1) _ 2(4) _ b2(3) t] 2(3,5) d mx by (auto simp: b1_def)
  then show ?case
    using b2 rem by (simp add: res)
qed simp

subsection \<open>Properties\<close>

text \<open>
  C37: the budget bounds the rate. However the ticks and the packets come, a sender that
  only sends while bytes remain, from a well-formed budget and with packets of at most \<open>M\<close> bytes,
  \<open>M\<close> within the budget, sends no more than what remained at the start, the target rate times the time
  that passed, and one packet.
\<close>

theorem budget_rate_bound:
  assumes "budget_wf b" and "\<forall>(dt, xs) \<in> set ts. 0 \<le> dt \<and> dt \<le> 500 \<and> (\<forall>x \<in> set xs. 0 \<le> x \<and> x \<le> M)"
    and "0 \<le> M" and "M \<le> max_bytes_in_budget b" and "- M \<le> bytes_remaining b"
  shows "snd (budget_ticks b ts) \<le> bytes_remaining b + target_rate_kbps b * (\<Sum>(dt, xs)\<leftarrow>ts. dt) div 8 + M"
proof -
  have "(\<Sum>(dt, xs)\<leftarrow>ts. target_rate_kbps b * dt div 8) \<le> target_rate_kbps b * (\<Sum>(dt, xs)\<leftarrow>ts. dt) div 8"
  proof (induction ts)
    case (Cons t ts)
    obtain dt xs where t: "t = (dt, xs)" by (cases t)
    have "target_rate_kbps b * dt div 8 + target_rate_kbps b * (\<Sum>(dt, xs)\<leftarrow>ts. dt) div 8
        \<le> (target_rate_kbps b * dt + target_rate_kbps b * (\<Sum>(dt, xs)\<leftarrow>ts. dt)) div 8"
      by linarith
    then show ?case using Cons by (simp add: t distrib_left)
  qed simp
  then show ?thesis
    using budget_ticks_bound [OF assms] by (cases "budget_ticks b ts") fastforce
qed

theorem budget_rate_bound_witness:
  "snd (budget_ticks \<lparr>target_rate_kbps = 800, max_bytes_in_budget = 50000, bytes_remaining = 0, can_build_up_underuse = -1\<rparr>
     [(5, [1000, 200]), (10, [1000, 1000])]) \<le> 3000"
  using budget_rate_bound [of "\<lparr>target_rate_kbps = 800, max_bytes_in_budget = 50000, bytes_remaining = 0, can_build_up_underuse = -1\<rparr>"
      "[(5, [1000, 200]), (10, [1000, 1000])]" 1500]
  by (simp add: budget_wf_def)

end
