(* ===== verification/Alr_Detector.thy ===== *)
theory Alr_Detector
  imports Interval_Budget
begin

text \<open>
  \<^verbatim>\<open>pacing/alr_detector.c\<close>: whether the application sends less than the link would carry. A budget
  at 60 percent of the bitrate is used by what is sent; when more than 80 percent of it is left over,
  the application limited period starts, when less than 50 percent is, it ends. \<open>sys_ts\<close> is what
  \<open>GET_SYS_MS\<close> returns; \<open>None\<close> is the division by a budget of zero bytes.

  The lemmas: the budget stays well formed, and the start time moves only over the two levels.
\<close>

abbreviation k_alr_start_buget_percent :: int where "k_alr_start_buget_percent \<equiv> 80"
abbreviation k_alr_stop_buget_percent :: int where "k_alr_stop_buget_percent \<equiv> 50"
abbreviation k_alr_banwidth_useage_percent :: int where "k_alr_banwidth_useage_percent \<equiv> 60"

record alr_detector =
  alr_budget :: interval_budget
  alr_started_ts :: int

definition zero_budget :: interval_budget where
  "zero_budget = \<lparr>target_rate_kbps = 0, max_bytes_in_budget = 0, bytes_remaining = 0, can_build_up_underuse = 0\<rparr>"

definition alr_detector_create :: alr_detector where
  "alr_detector_create = \<lparr>alr_budget = init_interval_budget zero_budget 0 0, alr_started_ts = -1\<rparr>"

definition alr_detector_bytes_sent :: "int \<Rightarrow> alr_detector \<Rightarrow> nat \<Rightarrow> int \<Rightarrow> alr_detector option" where
  "alr_detector_bytes_sent sys_ts alr bytes delta_ts =
     (let b = increase_budget (use_budget (alr_budget alr) (s32 (int bytes))) (s32 delta_ts);
          alr = alr\<lparr>alr_budget := b\<rparr>
      in case budget_level_precent b of None \<Rightarrow> None
      | Some percent \<Rightarrow>
          Some (if k_alr_start_buget_percent < percent \<and> alr_started_ts alr = -1 then alr\<lparr>alr_started_ts := sys_ts\<rparr>
                else if percent < k_alr_stop_buget_percent then alr\<lparr>alr_started_ts := -1\<rparr>
                else alr))"

definition alr_detector_set_bitrate :: "alr_detector \<Rightarrow> int \<Rightarrow> alr_detector" where
  "alr_detector_set_bitrate alr bitrate_bps =
     (let target_bitrate_kbps = s32 (bitrate_bps * k_alr_banwidth_useage_percent) sdiv (1000 * 100)
      in alr\<lparr>alr_budget := set_target_rate_kbps (alr_budget alr) target_bitrate_kbps\<rparr>)"

definition alr_get_app_limited_started_ts :: "alr_detector \<Rightarrow> int" where
  "alr_get_app_limited_started_ts alr = alr_started_ts alr"

subsection \<open>Invariant\<close>

definition alr_wf :: "alr_detector \<Rightarrow> bool" where
  "alr_wf alr \<longleftrightarrow> budget_wf (alr_budget alr) \<and> target_rate_kbps (alr_budget alr) \<le> 21474"

lemma alr_detector_create_wf: "alr_wf alr_detector_create"
  by (simp add: alr_wf_def alr_detector_create_def init_interval_budget_def set_target_rate_eq budget_wf_def zero_budget_def)

text \<open>Below 35791394 bit/s the product of the code stays inside an \<open>int\<close>.\<close>

lemma alr_set_bitrate_wf [inv_intros]:
  assumes "0 \<le> bps" and "bps \<le> 35791394"
  shows "alr_wf (alr_detector_set_bitrate alr bps)"
    and "target_rate_kbps (alr_budget (alr_detector_set_bitrate alr bps)) = bps * 60 div 100000"
proof -
  define q where "q = bps * 60 div 100000"
  have "s32 (bps * 60) = bps * 60" using assms by (intro s32_id) auto
  then have "s32 (bps * 60) sdiv 100000 = q"
    using assms by (simp add: sdiv_nonneg q_def)
  then have b: "alr_budget (alr_detector_set_bitrate alr bps) = set_target_rate_kbps (alr_budget alr) q"
    by (simp add: alr_detector_set_bitrate_def Let_def)
  have r: "0 \<le> q" "q \<le> 21474"
    using assms by (auto simp: q_def)
  show "target_rate_kbps (alr_budget (alr_detector_set_bitrate alr bps)) = bps * 60 div 100000"
    using r unfolding b q_def [symmetric] by (simp add: set_target_rate_eq)
  show "alr_wf (alr_detector_set_bitrate alr bps)"
    using r set_target_rate_wf [of q] by (simp add: alr_wf_def b set_target_rate_eq)
qed

lemma alr_bytes_sent_ok:
  assumes "alr_wf alr" and "0 < max_bytes_in_budget (alr_budget alr)" and "n \<le> 1800000000" and "0 \<le> dt" and "dt \<le> 500"
  shows "\<exists>alr' v. alr_detector_bytes_sent sys alr n dt = Some alr' \<and> alr_wf alr'
    \<and> max_bytes_in_budget (alr_budget alr') = max_bytes_in_budget (alr_budget alr)
    \<and> target_rate_kbps (alr_budget alr') = target_rate_kbps (alr_budget alr)
    \<and> budget_level_precent (alr_budget alr') = Some v
    \<and> bytes_remaining (alr_budget alr') = (let r = max (- max_bytes_in_budget (alr_budget alr)) (bytes_remaining (alr_budget alr) - int n) in
        min ((if r < 0 \<or> can_build_up_underuse (alr_budget alr) = 0 then r else 0)
          + target_rate_kbps (alr_budget alr) * dt div 8) (max_bytes_in_budget (alr_budget alr)))
    \<and> alr_started_ts alr' = (if 80 < v \<and> alr_started_ts alr = -1 then sys else if v < 50 then -1 else alr_started_ts alr)"
proof -
  define b where "b = alr_budget alr"
  have wf: "budget_wf b" "target_rate_kbps b \<le> 21474"
    using assms(1) by (auto simp: alr_wf_def b_def)
  have u: "budget_wf (use_budget b (int n))" "use_budget b (int n) = b\<lparr>bytes_remaining := max (- max_bytes_in_budget b) (bytes_remaining b - int n)\<rparr>"
    using use_budget_wf [OF wf(1)] use_budget_eq [OF wf(1)] assms(3) by auto
  define b' where "b' = increase_budget (use_budget b (int n)) dt"
  have s: "s32 (int n) = int n" "s32 dt = dt"
    using assms(3-5) by (auto intro!: s32_id)
  have b': "budget_wf b'" "max_bytes_in_budget b' = max_bytes_in_budget b" "target_rate_kbps b' = target_rate_kbps b"
    "bytes_remaining b' = (let r = max (- max_bytes_in_budget b) (bytes_remaining b - int n) in
        min ((if r < 0 \<or> can_build_up_underuse b = 0 then r else 0) + target_rate_kbps b * dt div 8) (max_bytes_in_budget b))"
    using increase_budget_wf [OF u(1) assms(4,5)] increase_budget_eq [OF u(1) assms(4,5)] by (simp_all add: b'_def u(2) Let_def)
  have "max_bytes_in_budget b' \<le> 21474836"
    using wf b'(2) by (auto simp: budget_wf_def)
  then obtain v where v: "budget_level_precent b' = Some v"
    using budget_level_range [OF b'(1)] b'(2) assms(2) by (auto simp: b_def)
  have "alr_detector_bytes_sent sys alr n dt = Some (if 80 < v \<and> alr_started_ts alr = -1 then alr\<lparr>alr_budget := b', alr_started_ts := sys\<rparr>
      else if v < 50 then alr\<lparr>alr_budget := b', alr_started_ts := -1\<rparr> else alr\<lparr>alr_budget := b'\<rparr>)"
    unfolding alr_detector_bytes_sent_def s Let_def b_def [symmetric] b'_def [symmetric] v by simp
  then show ?thesis
    using b' wf(2) v by (auto simp: alr_wf_def b_def [symmetric])
qed

subsection \<open>Properties\<close>

text \<open>
  An application limited period starts and ends as specified. With a bitrate between 10 kbit/s
  and 35.79 Mbit/s set, a report of bytes sent is defined; the period's start becomes
  the current time exactly when more than 80 percent of the budget is left and no period runs, is
  cleared when less than 50 percent is left, and otherwise stays; an idle time long enough to
  fill the budget starts a period whatever was sent before.
\<close>

lemma alr_period:
  assumes "alr_wf alr" and "1 \<le> target_rate_kbps (alr_budget alr)" and "n \<le> 1800000000" and "0 \<le> dt" and "dt \<le> 500"
  shows "\<exists>alr' v. alr_detector_bytes_sent sys alr n dt = Some alr' \<and> alr_wf alr'
    \<and> v = bytes_remaining (alr_budget alr') * 100 sdiv max_bytes_in_budget (alr_budget alr') \<and> -100 \<le> v \<and> v \<le> 100
    \<and> alr_get_app_limited_started_ts alr' =
        (if 80 < v \<and> alr_get_app_limited_started_ts alr = -1 then sys
         else if v < 50 then -1 else alr_get_app_limited_started_ts alr)
    \<and> (n = 0 \<and> can_build_up_underuse (alr_budget alr) = 0
        \<and> max_bytes_in_budget (alr_budget alr) \<le> bytes_remaining (alr_budget alr) + target_rate_kbps (alr_budget alr) * dt div 8
       \<longrightarrow> v = 100)"
proof -
  define mx where "mx = max_bytes_in_budget (alr_budget alr)"
  have mx: "0 < mx" "mx \<le> 21474836"
    using assms(1,2) by (auto simp: mx_def alr_wf_def budget_wf_def)
  obtain alr' v where r: "alr_detector_bytes_sent sys alr n dt = Some alr'" "alr_wf alr'"
    "max_bytes_in_budget (alr_budget alr') = mx" "budget_level_precent (alr_budget alr') = Some v"
    "bytes_remaining (alr_budget alr') = (let r = max (- mx) (bytes_remaining (alr_budget alr) - int n) in
        min ((if r < 0 \<or> can_build_up_underuse (alr_budget alr) = 0 then r else 0)
          + target_rate_kbps (alr_budget alr) * dt div 8) mx)"
    "alr_started_ts alr' = (if 80 < v \<and> alr_started_ts alr = -1 then sys else if v < 50 then -1 else alr_started_ts alr)"
    using alr_bytes_sent_ok [OF assms(1) mx(1) [unfolded mx_def] assms(3-5), of sys] unfolding mx_def by blast
  have rng: "- mx \<le> bytes_remaining (alr_budget alr')" "bytes_remaining (alr_budget alr') \<le> mx"
    using r(2,3) by (auto simp: alr_wf_def budget_wf_def)
  have "s32 (bytes_remaining (alr_budget alr') * 100) = bytes_remaining (alr_budget alr') * 100"
    using rng mx by (intro s32_id) auto
  then have v: "v = bytes_remaining (alr_budget alr') * 100 sdiv mx"
    using r(3,4) mx by (simp add: budget_level_precent_def)
  have vr: "-100 \<le> v" "v \<le> 100"
    using budget_level_range [of "alr_budget alr'"] r(2-4) mx by (auto simp: alr_wf_def)
  have full: "n = 0 \<and> can_build_up_underuse (alr_budget alr) = 0
      \<and> mx \<le> bytes_remaining (alr_budget alr) + target_rate_kbps (alr_budget alr) * dt div 8 \<longrightarrow> v = 100"
  proof
    assume that: "n = 0 \<and> can_build_up_underuse (alr_budget alr) = 0
      \<and> mx \<le> bytes_remaining (alr_budget alr) + target_rate_kbps (alr_budget alr) * dt div 8"
    have "- mx \<le> bytes_remaining (alr_budget alr)"
      using assms(1) by (auto simp: alr_wf_def budget_wf_def mx_def)
    then have "bytes_remaining (alr_budget alr') = mx"
      using that r(5) by (simp add: Let_def max_def)
    then show "v = 100"
      using v mx by (simp add: sdiv_nonneg)
  qed
  show ?thesis
    unfolding alr_get_app_limited_started_ts_def mx_def [symmetric]
    by (rule exI [of _ alr'], rule exI [of _ v])
      (intro conjI r(1,2,6) v [folded r(3)] vr full)
qed

lemma alr_period_witness:
  "\<exists>alr' v. alr_detector_bytes_sent 77 (alr_detector_set_bitrate alr_detector_create 1000000) 0 500 = Some alr' \<and> alr_wf alr'
    \<and> alr_get_app_limited_started_ts alr' = 77"
proof -
  define a where "a = alr_detector_set_bitrate alr_detector_create 1000000"
  have q: "s32 60000000 = 60000000" "(60000000 :: int) sdiv 100000 = 600"
    by (simp_all add: s32_def signed_divide_int_def)
  have "alr_budget a = set_target_rate_kbps (set_target_rate_kbps zero_budget 0) 600"
    using q by (simp add: a_def alr_detector_set_bitrate_def alr_detector_create_def init_interval_budget_def zero_budget_def Let_def)
  then have b: "alr_budget a = \<lparr>target_rate_kbps = 600, max_bytes_in_budget = 37500, bytes_remaining = 0, can_build_up_underuse = 0\<rparr>"
    by (simp add: set_target_rate_eq zero_budget_def)
  have s: "alr_started_ts a = -1"
    by (simp add: a_def alr_detector_set_bitrate_def alr_detector_create_def Let_def)
  have wf: "alr_wf a"
    unfolding a_def by (rule alr_set_bitrate_wf) simp_all
  show ?thesis
    unfolding a_def [symmetric]
    using alr_period [OF wf, of 0 500 77] by (auto simp: b s alr_get_app_limited_started_ts_def)
qed

end
