(* ===== verification/Pacer_Queue.thy ===== *)
theory Pacer_Queue
  imports Skiplist "HOL-Library.Multiset"
begin

text \<open>
  \<^verbatim>\<open>pacing/pacer_queue.c\<close>: the packets waiting to be sent, in a skip list by sequence number
  (\<open>cache\<close>) and in a FIFO by arrival (\<open>l\<close>). Both hold pointers to the same packets; a packet is
  reached through the key under which the skip list owns it, so the FIFO is a list of keys and a key
  that is not in the skip list is a dangling pointer (\<open>None\<close>). The skip list and the FIFO are the
  abstract containers that \<^verbatim>\<open>Skiplist\<close> and \<^verbatim>\<open>Cf_List\<close> prove the code to implement.

  The lemmas: \<open>pq_wf\<close> (both containers hold the same packets, the FIFO's head is not sent yet,
  \<open>total_size\<close> counts the packets not yet sent) is kept by every operation, and through
  \<open>unsent\<close> the queue is a priority queue of the packets not yet sent.
\<close>

abbreviation k_max_pace_queue_ms :: u32 where "k_max_pace_queue_ms \<equiv> 250"

record packet_event =
  pe_seq :: u32
  pe_retrans :: int
  pe_size :: nat
  pe_que_ts :: int
  pe_sent :: int

record pacer_queue =
  max_que_ms :: u32
  pq_total_size :: nat
  pq_oldest_ts :: int
  pq_cache :: "(u32 \<times> packet_event) list"
  pq_l :: "u32 list"

definition pacer_queue_init :: "u32 \<Rightarrow> pacer_queue" where
  "pacer_queue_init que_ms = \<lparr>max_que_ms = su_max que_ms k_max_pace_queue_ms, pq_total_size = 0,
     pq_oldest_ts = -1, pq_cache = [], pq_l = []\<rparr>"

text \<open>The packets that \<open>pacer_free_packet_event\<close> frees when the skip list is destroyed.\<close>

definition pacer_queue_destroy :: "pacer_queue \<Rightarrow> packet_event list" where
  "pacer_queue_destroy que = map snd (pq_cache que)"

definition pacer_queue_push :: "pacer_queue \<Rightarrow> packet_event \<Rightarrow> pacer_queue \<times> int" where
  "pacer_queue_push que ev =
     (let (que, ret) = (case map_of (pq_cache que) (pe_seq ev) of
            None \<Rightarrow> (que\<lparr>pq_cache := sl_ins (pe_seq ev) (ev\<lparr>pe_sent := 0\<rparr>) (pq_cache que), pq_l := pq_l que @ [pe_seq ev],
                       pq_total_size := pq_total_size que + pe_size ev\<rparr>, 0)
          | Some _ \<Rightarrow> (que, -1));
          que = (if pq_oldest_ts que = -1 \<or> pe_que_ts ev < pq_oldest_ts que then que\<lparr>pq_oldest_ts := pe_que_ts ev\<rparr> else que)
      in (que, ret))"

fun front_loop :: "packet_event option \<Rightarrow> (u32 \<times> packet_event) list \<Rightarrow> packet_event option" where
  "front_loop ret [] = ret"
| "front_loop ret ((k, p) # c) = (if pe_sent p = 0 then Some p else front_loop (Some p) c)"

definition pacer_queue_front :: "pacer_queue \<Rightarrow> packet_event option" where
  "pacer_queue_front que = (if length (pq_cache que) = 0 then None else front_loop None (pq_cache que))"

fun final_loop :: "(u32 \<times> packet_event) list \<Rightarrow> u32 list \<Rightarrow> ((u32 \<times> packet_event) list \<times> u32 list) option" where
  "final_loop c [] = Some (c, [])"
| "final_loop c (k # l) =
     (case map_of c k of None \<Rightarrow> None
      | Some p \<Rightarrow> if pe_sent p = 1 then final_loop (sl_del (pe_seq p) c) l else Some (c, k # l))"

definition pacer_queue_final :: "pacer_queue \<Rightarrow> pacer_queue option" where
  "pacer_queue_final que =
     (case final_loop (pq_cache que) (pq_l que) of None \<Rightarrow> None
      | Some (c, l) \<Rightarrow>
         (let que = que\<lparr>pq_cache := c, pq_l := l\<rparr> in
          if length l = 0 then Some (que\<lparr>pq_cache := [], pq_total_size := 0, pq_oldest_ts := -1\<rparr>)
          else case map_of c (hd l) of None \<Rightarrow> None | Some p \<Rightarrow> Some (que\<lparr>pq_oldest_ts := pe_que_ts p\<rparr>)))"

text \<open>\<open>packet->sent = 1\<close> through the pointer in the skip list.\<close>

definition mark_sent :: "u32 \<Rightarrow> (u32 \<times> packet_event) list \<Rightarrow> (u32 \<times> packet_event) list" where
  "mark_sent k c = map (\<lambda>(k', p). (k', if k' = k then p\<lparr>pe_sent := 1\<rparr> else p)) c"

definition pacer_queue_sent :: "pacer_queue \<Rightarrow> u32 \<Rightarrow> pacer_queue option" where
  "pacer_queue_sent que sq =
     (if length (pq_cache que) = 0 then Some que
      else case map_of (pq_cache que) sq of None \<Rightarrow> Some que
      | Some p \<Rightarrow> pacer_queue_final (que\<lparr>pq_cache := mark_sent sq (pq_cache que),
          pq_total_size := (if pe_size p \<le> pq_total_size que then pq_total_size que - pe_size p else 0)\<rparr>))"

definition pacer_queue_empty :: "pacer_queue \<Rightarrow> int" where
  "pacer_queue_empty que = (if length (pq_cache que) = 0 then 0 else -1)"

definition pacer_queue_bytes :: "pacer_queue \<Rightarrow> nat" where
  "pacer_queue_bytes que = pq_total_size que"

definition pacer_queue_oldest :: "int \<Rightarrow> pacer_queue \<Rightarrow> int" where
  "pacer_queue_oldest sys_ts que = (if pq_oldest_ts que = -1 then sys_ts else pq_oldest_ts que)"

text \<open>\<open>None\<close> is a division by zero.\<close>

definition pacer_queue_target_bitrate_kbps :: "pacer_queue \<Rightarrow> int \<Rightarrow> u32 option" where
  "pacer_queue_target_bitrate_kbps que now_ts =
     (let space = (if pq_oldest_ts que \<noteq> -1 \<and> pq_oldest_ts que < now_ts
                   then (let space = (word_of_int (now_ts - pq_oldest_ts que) :: u32) in
                     if max_que_ms que \<le> space then 1 else max_que_ms que - space)
                   else max_que_ms que - 1)
      in if 0 < length (pq_cache que) \<and> 0 < pq_total_size que
         then (if space = 0 then None else Some (word_of_nat (pq_total_size que * 8 div unat space)))
         else Some 0)"

subsection \<open>Invariant\<close>

definition unsent :: "pacer_queue \<Rightarrow> (u32 \<times> packet_event) list" where
  "unsent que = filter (\<lambda>(k, p). pe_sent p = 0) (pq_cache que)"

definition sizes :: "(u32 \<times> packet_event) list \<Rightarrow> nat" where
  "sizes c = sum_list (map (\<lambda>(k, p). pe_size p) c)"

text \<open>The invariant without the clause on the FIFO's head, which \<open>pacer_queue_final\<close> restores.\<close>

definition pq_core :: "(u32 \<times> packet_event) list \<Rightarrow> u32 list \<Rightarrow> bool" where
  "pq_core c l \<longleftrightarrow> sl_sorted c \<and> distinct l \<and> set l = fst ` set c
     \<and> (\<forall>kp \<in> set c. pe_seq (snd kp) = fst kp \<and> (pe_sent (snd kp) = 0 \<or> pe_sent (snd kp) = 1))"

definition pq_wf :: "pacer_queue \<Rightarrow> bool" where
  "pq_wf que \<longleftrightarrow> pq_core (pq_cache que) (pq_l que) \<and> pq_total_size que = sizes (unsent que) \<and> 250 \<le> max_que_ms que
     \<and> (pq_l que = [] \<longrightarrow> pq_oldest_ts que = -1)
     \<and> (pq_l que \<noteq> [] \<longrightarrow> (\<exists>p. map_of (pq_cache que) (hd (pq_l que)) = Some p \<and> pe_sent p = 0))"

lemma pacer_queue_init_wf: "pq_wf (pacer_queue_init ms)"
  by (auto simp: pq_wf_def pacer_queue_init_def pq_core_def unsent_def sizes_def max_def)

lemma sizes_sl_ins: "k \<notin> fst ` set c \<Longrightarrow> sizes (sl_ins k p c) = pe_size p + sizes c"
  by (induction k p c rule: sl_ins.induct) (auto simp: sizes_def)

lemma filter_sl_ins_in: "sl_sorted c \<Longrightarrow> k \<notin> fst ` set c \<Longrightarrow> P (k, v) \<Longrightarrow> filter P (sl_ins k v c) = sl_ins k v (filter P c)"
proof (induction k v c rule: sl_ins.induct)
  case (2 k v k' v' xs)
  have "sl_ins k v (filter P xs) = (k, v) # filter P xs" if "k < k'"
  proof -
    have "\<forall>a \<in> fst ` set xs. k < a"
      using 2(2) that by (auto simp: sl_sorted_Cons)
    then show ?thesis by (cases "filter P xs") (auto simp: filter_eq_Cons_iff)
  qed
  then show ?case using 2 by (auto simp: sl_sorted_Cons)
qed simp

lemma pq_core_map_of: "pq_core c l \<Longrightarrow> k \<in> set l \<Longrightarrow> \<exists>p. map_of c k = Some p \<and> pe_seq p = k \<and> (k, p) \<in> set c"
  by (cases "map_of c k") (auto simp: pq_core_def map_of_eq_None_iff dest!: map_of_SomeD bspec)

lemma sl_ins_mem: "kp \<in> set (sl_ins k v c) \<Longrightarrow> kp = (k, v) \<or> kp \<in> set c"
  by (induction k v c rule: sl_ins.induct) (auto split: if_splits)

lemma pq_core_ins:
  "pq_core c l \<Longrightarrow> k \<notin> fst ` set c \<Longrightarrow> pe_seq p = k \<Longrightarrow> pe_sent p = 0 \<Longrightarrow> pq_core (sl_ins k p c) (l @ [k])"
  by (auto simp: pq_core_def sl_sorted_ins set_sl_ins dest!: sl_ins_mem)

lemma pq_core_del: "pq_core c (k # l) \<Longrightarrow> pq_core (sl_del k c) l"
  using sl_sorted_del [of c k] by (auto simp: pq_core_def sl_del_def)

lemma mark_sent_keys: "fst ` set (mark_sent k c) = fst ` set c" "map fst (mark_sent k c) = map fst c"
  by (force simp: mark_sent_def, auto simp: mark_sent_def)

lemma pq_core_mark: "pq_core c l \<Longrightarrow> pq_core (mark_sent k c) l"
  unfolding pq_core_def mark_sent_keys sl_sorted_def by (fastforce simp: mark_sent_def)

lemma sizes_del:
  "distinct (map fst c) \<Longrightarrow> map_of c k = Some p \<Longrightarrow> sizes c = pe_size p + sizes (sl_del k c)"
proof (induction c)
  case (Cons a c)
  obtain k' p' where a: "a = (k', p')" by (cases a)
  have "sl_del k c = c" if "k' = k"
    using Cons.prems(1) that unfolding sl_del_def by (intro filter_id_conv [THEN iffD2]) (auto simp: a)
  then show ?case using Cons by (auto simp: a sizes_def sl_del_def split: if_splits)
qed simp

text \<open>Sent packets leave the caches from the front of the FIFO; the unsent ones stay.\<close>

lemma final_loop_spec:
  "pq_core c l \<Longrightarrow> \<exists>c' l'. final_loop c l = Some (c', l') \<and> pq_core c' l'
    \<and> filter (\<lambda>(k, p). pe_sent p = 0) c' = filter (\<lambda>(k, p). pe_sent p = 0) c
    \<and> (l' \<noteq> [] \<longrightarrow> (\<exists>p. map_of c' (hd l') = Some p \<and> pe_sent p = 0))"
proof (induction c l rule: final_loop.induct)
  case (1 c)
  then show ?case by simp
next
  case (2 c k l)
  obtain p where p: "map_of c k = Some p" "pe_seq p = k" "(k, p) \<in> set c"
    using pq_core_map_of [OF 2(2), of k] by auto
  show ?case
  proof (cases "pe_sent p = 1")
    case True
    have "filter (\<lambda>(k, p). pe_sent p = 0) (sl_del k c) = filter (\<lambda>(k, p). pe_sent p = 0) c"
    proof -
      have "map_of c k = Some q" if "(k, q) \<in> set c" for q
        using that 2(2) sl_sorted_distinct [of c] by (auto simp: pq_core_def)
      then show ?thesis
        unfolding sl_del_def filter_filter using True p(1) by (intro filter_cong) auto
    qed
    then show ?thesis
      using 2(1) [OF p(1) True] pq_core_del [OF 2(2)] p True by simp
  next
    case False
    then have "pe_sent p = 0"
      using 2(2) p(3) by (auto simp: pq_core_def dest!: bspec)
    then show ?thesis
      using p 2(2) by simp
  qed
qed

lemma filter_mark_sent: "filter (\<lambda>(k, p). pe_sent p = 0) (mark_sent sq c) = sl_del sq (filter (\<lambda>(k, p). pe_sent p = 0) c)"
  by (induction c) (auto simp: mark_sent_def sl_del_def)

lemma pacer_queue_sent_spec:
  assumes wf: "pq_wf que" and p: "map_of (unsent que) sq = Some p"
  shows "\<exists>que'. pacer_queue_sent que sq = Some que' \<and> pq_wf que' \<and> unsent que' = sl_del sq (unsent que)
    \<and> max_que_ms que' = max_que_ms que"
proof -
  have core: "pq_core (pq_cache que) (pq_l que)" and tot: "pq_total_size que = sizes (unsent que)"
    using wf by (auto simp: pq_wf_def)
  have "(sq, p) \<in> set (pq_cache que)"
    using map_of_SomeD [OF p] by (auto simp: unsent_def)
  then have mp: "map_of (pq_cache que) sq = Some p"
    using core sl_sorted_distinct [of "pq_cache que"] by (auto simp: pq_core_def)
  obtain c' l' where f: "final_loop (mark_sent sq (pq_cache que)) (pq_l que) = Some (c', l')" "pq_core c' l'"
    "filter (\<lambda>(k, p). pe_sent p = 0) c' = sl_del sq (unsent que)"
    "l' \<noteq> [] \<longrightarrow> (\<exists>p. map_of c' (hd l') = Some p \<and> pe_sent p = 0)"
    using final_loop_spec [OF pq_core_mark [OF core, of sq]] by (auto simp: filter_mark_sent unsent_def)
  have sz: "sizes (unsent que) = pe_size p + sizes (sl_del sq (unsent que))"
  proof -
    have "distinct (map fst (unsent que))"
      using core sl_sorted_distinct [of "pq_cache que"] by (auto simp: pq_core_def unsent_def distinct_map_filter)
    then show ?thesis
      using p by (rule sizes_del)
  qed
  define tot where "tot = (if pe_size p \<le> pq_total_size que then pq_total_size que - pe_size p else 0)"
  have tot': "tot = sizes (sl_del sq (unsent que))"
    using sz tot by (simp add: tot_def)
  have ne: "length (pq_cache que) \<noteq> 0"
    using mp by auto
  have step: "pacer_queue_sent que sq = pacer_queue_final (que\<lparr>pq_cache := mark_sent sq (pq_cache que), pq_total_size := tot\<rparr>)"
    using ne mp by (simp add: pacer_queue_sent_def tot_def)
  show ?thesis
  proof (cases "l' = []")
    case True
    then have "c' = []" using f(2) by (auto simp: pq_core_def)
    then have "unsent (que\<lparr>pq_cache := [], pq_l := [], pq_total_size := 0, pq_oldest_ts := -1\<rparr>) = sl_del sq (unsent que)"
      using f(3) by (simp add: unsent_def)
    then show ?thesis
      using True wf by (auto simp: step pacer_queue_final_def f(1) pq_wf_def pq_core_def unsent_def sizes_def Let_def)
  next
    case False
    then obtain q where q: "map_of c' (hd l') = Some q" "pe_sent q = 0"
      using f(4) by auto
    define que' where "que' = que\<lparr>pq_cache := c', pq_total_size := tot, pq_l := l', pq_oldest_ts := pe_que_ts q\<rparr>"
    have "pacer_queue_sent que sq = Some que'"
      using False q by (simp add: step pacer_queue_final_def f(1) Let_def que'_def)
    moreover have "unsent que' = sl_del sq (unsent que)"
      using f(3) by (simp add: unsent_def que'_def)
    moreover have "pq_wf que'"
      using wf f(2) q False tot' calculation(2) by (simp add: pq_wf_def) (simp add: que'_def)
    moreover have "max_que_ms que' = max_que_ms que"
      by (simp add: que'_def)
    ultimately show ?thesis by blast
  qed
qed

lemma pq_wf_unsent_sorted: "pq_wf que \<Longrightarrow> sl_sorted (unsent que)"
  by (auto simp: pq_wf_def pq_core_def unsent_def sl_sorted_def sorted_wrt_map intro: sorted_wrt_filter)

lemma pq_wf_empty: "pq_wf que \<Longrightarrow> pacer_queue_empty que = 0 \<longleftrightarrow> unsent que = []"
proof
  assume wf: "pq_wf que" and u: "unsent que = []"
  have "pq_l que = []"
  proof (rule ccontr)
    assume "pq_l que \<noteq> []"
    then obtain p where "map_of (pq_cache que) (hd (pq_l que)) = Some p" "pe_sent p = 0"
      using wf by (auto simp: pq_wf_def)
    then have "(hd (pq_l que), p) \<in> set (unsent que)"
      by (auto simp: unsent_def dest: map_of_SomeD)
    then show False using u by simp
  qed
  then have "pq_cache que = []"
    using wf by (auto simp: pq_wf_def pq_core_def)
  then show "pacer_queue_empty que = 0"
    by (simp add: pacer_queue_empty_def)
qed (simp add: pacer_queue_empty_def unsent_def split: if_splits)

lemma front_loop_hd: "filter (\<lambda>(k, p). pe_sent p = 0) c = (k, p) # xs \<Longrightarrow> front_loop r c = Some p"
  by (induction r c rule: front_loop.induct) (auto split: if_splits)

lemma pacer_queue_front_spec:
  assumes "pq_wf que" and "unsent que = (k, p) # xs"
  shows "pacer_queue_front que = Some p" and "pe_seq p = k" and "pe_sent p = 0"
proof -
  have "pq_cache que \<noteq> []"
    using assms(2) by (auto simp: unsent_def)
  then show "pacer_queue_front que = Some p"
    using front_loop_hd [of "pq_cache que" k p xs] assms(2) by (simp add: pacer_queue_front_def unsent_def)
  have "(k, p) \<in> set (unsent que)" using assms(2) by simp
  then show "pe_seq p = k" and "pe_sent p = 0"
    using assms(1) by (auto simp: unsent_def pq_wf_def pq_core_def)
qed

lemma pacer_queue_push_spec:
  assumes wf: "pq_wf que" and fresh: "pe_seq ev \<notin> fst ` set (pq_cache que)"
  shows "snd (pacer_queue_push que ev) = 0" and "pq_wf (fst (pacer_queue_push que ev))"
    and "unsent (fst (pacer_queue_push que ev)) = sl_ins (pe_seq ev) (ev\<lparr>pe_sent := 0\<rparr>) (unsent que)"
proof -
  define k v where "k = pe_seq ev" and "v = ev\<lparr>pe_sent := 0\<rparr>"
  define que' where "que' = fst (pacer_queue_push que ev)"
  have core: "pq_core (pq_cache que) (pq_l que)" using wf by (simp add: pq_wf_def)
  have none: "map_of (pq_cache que) k = None"
    using fresh by (simp add: map_of_eq_None_iff k_def)
  show "snd (pacer_queue_push que ev) = 0"
    using none by (simp add: pacer_queue_push_def k_def Let_def split: prod.splits)
  have q: "pq_cache que' = sl_ins k v (pq_cache que)" "pq_l que' = pq_l que @ [k]"
    "pq_total_size que' = pq_total_size que + pe_size ev" "max_que_ms que' = max_que_ms que"
    using none by (auto simp: que'_def pacer_queue_push_def k_def v_def Let_def)
  have u: "unsent que' = sl_ins k v (unsent que)"
    using core fresh by (simp add: unsent_def q filter_sl_ins_in pq_core_def k_def v_def)
  then show "unsent (fst (pacer_queue_push que ev)) = sl_ins (pe_seq ev) (ev\<lparr>pe_sent := 0\<rparr>) (unsent que)"
    by (simp add: que'_def k_def v_def)
  have "k \<notin> fst ` set (unsent que)"
    using fresh by (auto simp: unsent_def k_def)
  then have sz: "sizes (unsent que') = pe_size ev + sizes (unsent que)"
    by (simp add: u sizes_sl_ins v_def)
  have hd: "\<exists>p. map_of (sl_ins k v (pq_cache que)) (hd (pq_l que @ [k])) = Some p \<and> pe_sent p = 0"
  proof (cases "pq_l que = []")
    case True
    then have "pq_cache que = []" using core by (auto simp: pq_core_def)
    then show ?thesis using True by (simp add: v_def)
  next
    case False
    then obtain p where p: "map_of (pq_cache que) (hd (pq_l que)) = Some p" "pe_sent p = 0"
      using wf by (auto simp: pq_wf_def)
    moreover have "sl_sorted (pq_cache que)"
      using core by (simp add: pq_core_def)
    ultimately show ?thesis
      using False none sl_ins_map_of [of "pq_cache que" k v] by (auto simp: dom_def)
  qed
  have "pq_core (sl_ins k v (pq_cache que)) (pq_l que @ [k])"
    using pq_core_ins [OF core, of k v] fresh by (simp add: k_def v_def)
  then show "pq_wf (fst (pacer_queue_push que ev))"
    using wf hd sz unfolding que'_def [symmetric] pq_wf_def q by simp
qed

lemma pacer_queue_push_dup_wf:
  assumes wf: "pq_wf que" and dup: "pe_seq ev \<in> fst ` set (pq_cache que)"
  shows "snd (pacer_queue_push que ev) = -1" and "pq_wf (fst (pacer_queue_push que ev))"
    and "unsent (fst (pacer_queue_push que ev)) = unsent que"
proof -
  obtain p where p: "map_of (pq_cache que) (pe_seq ev) = Some p"
    using dup by (cases "map_of (pq_cache que) (pe_seq ev)") (auto simp: map_of_eq_None_iff)
  have "pq_l que \<noteq> []"
    using wf dup by (auto simp: pq_wf_def pq_core_def)
  then show "snd (pacer_queue_push que ev) = -1" and "pq_wf (fst (pacer_queue_push que ev))"
    and "unsent (fst (pacer_queue_push que ev)) = unsent que"
    using p wf by (auto simp: pacer_queue_push_def Let_def pq_wf_def unsent_def)
qed

text \<open>The pacing window is never zero, so the target rate is defined.\<close>

lemma pacer_queue_target_total: "pq_wf que \<Longrightarrow> \<exists>r. pacer_queue_target_bitrate_kbps que now = Some r"
proof -
  assume "pq_wf que"
  then have "250 \<le> uint (max_que_ms que)"
    by (simp add: pq_wf_def word_le_def)
  then have "max_que_ms que - s \<noteq> 0" if "s < max_que_ms que" for s
    using that by auto
  moreover have "1 < max_que_ms que"
    using \<open>250 \<le> uint (max_que_ms que)\<close> by (simp add: word_less_def)
  ultimately show ?thesis
    by (auto simp: pacer_queue_target_bitrate_kbps_def Let_def not_le)
qed

subsection \<open>Properties\<close>

text \<open>Taking the front packet and marking it sent, \<open>n\<close> times.\<close>

fun pq_drain :: "nat \<Rightarrow> pacer_queue \<Rightarrow> (packet_event list \<times> pacer_queue) option" where
  "pq_drain 0 que = Some ([], que)"
| "pq_drain (Suc n) que =
     (case pacer_queue_front que of None \<Rightarrow> None
      | Some p \<Rightarrow> (case pacer_queue_sent que (pe_seq p) of None \<Rightarrow> None
         | Some que \<Rightarrow> map_option (\<lambda>(ps, que). (p # ps, que)) (pq_drain n que)))"

lemma pq_drain_unsent:
  "pq_wf que \<Longrightarrow> \<exists>que'. pq_drain (length (unsent que)) que = Some (map snd (unsent que), que') \<and> pq_wf que' \<and> unsent que' = []"
proof (induction "length (unsent que)" arbitrary: que)
  case 0
  then show ?case by simp
next
  case (Suc n)
  obtain k p xs where u: "unsent que = (k, p) # xs"
    using Suc(2) by (cases "unsent que") auto
  note f = pacer_queue_front_spec [OF Suc(3) u]
  obtain que1 where q1: "pacer_queue_sent que k = Some que1" "pq_wf que1" "unsent que1 = sl_del k (unsent que)"
    using pacer_queue_sent_spec [OF Suc(3), of k p] u by auto
  have xs: "unsent que1 = xs"
    using q1(3) pq_wf_unsent_sorted [OF Suc(3)] unfolding u by (auto simp: sl_sorted_Cons sl_del_def filter_id_conv)
  then obtain que' where "pq_drain n que1 = Some (map snd xs, que')" "pq_wf que'" "unsent que' = []"
    using Suc(1) [of que1] Suc(2) q1(2) by (auto simp: u)
  then show ?case
    using f q1(1) Suc(2) by (simp add: u)
qed

fun push_all :: "pacer_queue \<Rightarrow> packet_event list \<Rightarrow> pacer_queue" where
  "push_all que [] = que"
| "push_all que (p # ps) = push_all (fst (pacer_queue_push que p)) ps"

lemma pq_cache_push_keys: "fst ` set (pq_cache (fst (pacer_queue_push que ev))) = insert (pe_seq ev) (fst ` set (pq_cache que))"
proof (cases "map_of (pq_cache que) (pe_seq ev)")
  case None
  then show ?thesis by (auto simp: pacer_queue_push_def Let_def set_sl_ins)
next
  case (Some p)
  then have "pe_seq ev \<in> fst ` set (pq_cache que)"
    by (metis map_of_eq_None_iff option.distinct(1))
  then show ?thesis using Some by (auto simp: pacer_queue_push_def Let_def)
qed

lemma push_all_spec:
  "pq_wf que \<Longrightarrow> distinct (map pe_seq ps) \<Longrightarrow> set (map pe_seq ps) \<inter> fst ` set (pq_cache que) = {} \<Longrightarrow>
    pq_wf (push_all que ps) \<and> unsent (push_all que ps) = foldl (\<lambda>c p. sl_ins (pe_seq p) (p\<lparr>pe_sent := 0\<rparr>) c) (unsent que) ps"
proof (induction ps arbitrary: que)
  case (Cons p ps)
  have "pe_seq p \<notin> fst ` set (pq_cache que)"
    using Cons.prems(3) by auto
  note sp = pacer_queue_push_spec [OF Cons.prems(1) this]
  have "set (map pe_seq ps) \<inter> fst ` set (pq_cache (fst (pacer_queue_push que p))) = {}"
    using Cons.prems unfolding pq_cache_push_keys by auto
  then show ?case
    using Cons.IH [OF sp(2)] Cons.prems(2) sp(3) by simp
qed simp

lemma mset_sl_ins: "k \<notin> fst ` set c \<Longrightarrow> mset (sl_ins k v c) = add_mset (k, v) (mset c)"
  by (induction k v c rule: sl_ins.induct) auto

lemma foldl_sl_ins:
  assumes "sl_sorted c" and "distinct (map f ps)" and "f ` set ps \<inter> fst ` set c = {}"
  shows "sl_sorted (foldl (\<lambda>c p. sl_ins (f p) (g p) c) c ps)
    \<and> mset (foldl (\<lambda>c p. sl_ins (f p) (g p) c) c ps) = mset c + mset (map (\<lambda>p. (f p, g p)) ps)"
  using assms
proof (induction ps arbitrary: c)
  case (Cons p ps)
  have "mset (sl_ins (f p) (g p) c) = add_mset (f p, g p) (mset c)"
    using Cons.prems(3) by (intro mset_sl_ins) auto
  moreover have "f ` set ps \<inter> fst ` set (sl_ins (f p) (g p) c) = {}"
    using Cons.prems(2,3) by (auto simp: set_sl_ins)
  ultimately show ?case
    using Cons.IH [of "sl_ins (f p) (g p) c"] Cons.prems by (simp add: sl_sorted_ins)
qed simp

text \<open>
  C29: the pacer queue sends every packet once and in sequence order. Packets with distinct sequence
  numbers, pushed in any order into a new queue, come out of the front as the same packets sorted by
  sequence number when each front packet is marked sent; the byte count is their total size before
  and zero after, when the queue is empty again.
\<close>

theorem pacer_queue_order:
  assumes "distinct (map pe_seq ps)"
  shows "\<exists>out que. pq_drain (length ps) (push_all (pacer_queue_init ms) ps) = Some (out, que)
    \<and> mset out = mset (map (\<lambda>p. p\<lparr>pe_sent := 0\<rparr>) ps) \<and> sorted (map pe_seq out)
    \<and> pacer_queue_bytes (push_all (pacer_queue_init ms) ps) = sum_list (map pe_size ps)
    \<and> pacer_queue_empty que = 0 \<and> pacer_queue_bytes que = 0 \<and> pq_oldest_ts que = -1"
proof -
  define q where "q = push_all (pacer_queue_init ms) ps"
  have i: "unsent (pacer_queue_init ms) = []" "pq_cache (pacer_queue_init ms) = []"
    by (simp_all add: pacer_queue_init_def unsent_def)
  have q: "pq_wf q" "unsent q = foldl (\<lambda>c p. sl_ins (pe_seq p) (p\<lparr>pe_sent := 0\<rparr>) c) [] ps"
    using push_all_spec [OF pacer_queue_init_wf [of ms] assms] by (simp_all add: q_def i)
  have u: "sl_sorted (unsent q)" "mset (unsent q) = mset (map (\<lambda>p. (pe_seq p, p\<lparr>pe_sent := 0\<rparr>)) ps)"
    using foldl_sl_ins [of "[]" pe_seq ps "\<lambda>p. p\<lparr>pe_sent := 0\<rparr>"] assms by (simp_all add: q(2))
  have len: "length (unsent q) = length ps"
    using mset_eq_length [OF u(2)] by simp
  obtain que where d: "pq_drain (length ps) q = Some (map snd (unsent q), que)" "pq_wf que" "unsent que = []"
    using pq_drain_unsent [OF q(1)] len by auto
  have m: "mset (map snd (unsent q)) = mset (map (\<lambda>p. p\<lparr>pe_sent := 0\<rparr>) ps)"
    using arg_cong [OF u(2), of "image_mset snd"] by (simp add: image_mset.compositionality o_def flip: mset_map)
  have keys: "map pe_seq (map snd (unsent q)) = map fst (unsent q)"
    using q(1) by (auto simp: pq_wf_def pq_core_def unsent_def)
  have bytes: "pacer_queue_bytes q = sum_list (map pe_size ps)"
  proof -
    have "sizes (unsent q) = sum_mset (image_mset pe_size (mset (map snd (unsent q))))"
      unfolding sizes_def case_prod_unfold by (simp add: sum_mset_sum_list o_def flip: mset_map)
    also have "\<dots> = sum_list (map pe_size ps)"
      unfolding m by (simp add: sum_mset_sum_list o_def flip: mset_map)
    finally show ?thesis
      using q(1) by (simp add: pacer_queue_bytes_def pq_wf_def)
  qed
  have e: "pacer_queue_empty que = 0"
    using pq_wf_empty [OF d(2)] d(3) by simp
  have "pq_l que = []"
    using d(2) e by (auto simp: pq_wf_def pq_core_def pacer_queue_empty_def split: if_splits)
  then have "pq_oldest_ts que = -1" "pacer_queue_bytes que = 0"
    using d(2,3) by (auto simp: pq_wf_def pacer_queue_bytes_def sizes_def)
  moreover have "sorted (map pe_seq (map snd (unsent q)))"
    unfolding keys using u(1) strict_sorted_imp_sorted by (auto simp: sl_sorted_def)
  ultimately show ?thesis
    unfolding q_def [symmetric] using d(1) m bytes e by blast
qed

theorem pacer_queue_order_witness:
  "\<exists>out que. pq_drain 3 (push_all (pacer_queue_init 300)
      [\<lparr>pe_seq = 9, pe_retrans = 0, pe_size = 1000, pe_que_ts = 5, pe_sent = 0\<rparr>,
       \<lparr>pe_seq = 4, pe_retrans = 1, pe_size = 700, pe_que_ts = 6, pe_sent = 0\<rparr>,
       \<lparr>pe_seq = 7, pe_retrans = 0, pe_size = 300, pe_que_ts = 6, pe_sent = 0\<rparr>]) = Some (out, que)
    \<and> sorted (map pe_seq out) \<and> pacer_queue_empty que = 0"
  using pacer_queue_order [of "[\<lparr>pe_seq = 9, pe_retrans = 0, pe_size = 1000, pe_que_ts = 5, pe_sent = 0\<rparr>,
       \<lparr>pe_seq = 4, pe_retrans = 1, pe_size = 700, pe_que_ts = 6, pe_sent = 0\<rparr>,
       \<lparr>pe_seq = 7, pe_retrans = 0, pe_size = 300, pe_que_ts = 6, pe_sent = 0\<rparr>]" 300]
  by (auto simp: numeral_3_eq_3)

end
