(* ===== verification/Pace_Sender.thy ===== *)
theory Pace_Sender
  imports Alr_Detector Pacer_Queue
begin

text \<open>
  \<^verbatim>\<open>pacing/pace_sender.c\<close>: the pacer. On a timer it gives its budget the time that passed and sends
  packets from the front of its queue while bytes remain. The send callback is outside the model: the
  operations return the calls made to it, in order (its argument \<open>handler\<close> is left out).
  \<open>sys_ts\<close> is what \<open>GET_SYS_MS\<close> returns. \<open>None\<close> is a dangling pointer, a division by zero or a loop
  that does not end.

  The lemmas: from a well-formed pacer the send loop ends and sends a prefix of the queue's unsent
  packets in sequence order (\<^verbatim>\<open>transmit_loop_spec\<close>).
\<close>

abbreviation k_min_packet_limit_ms :: int where "k_min_packet_limit_ms \<equiv> 5"
abbreviation k_max_interval_ms :: int where "k_max_interval_ms \<equiv> 30"

record pace_sender =
  min_sender_bitrate_kpbs :: u32
  estimated_bitrate :: u32
  pacing_bitrate_kpbs :: u32
  ps_last_update_ts :: int
  first_sent_ts :: int
  ps_alr :: alr_detector
  ps_que :: pacer_queue
  media_budget :: interval_budget
  has_send_cb :: bool

type_synonym send_call = "u32 \<times> int \<times> nat"

definition pace_create :: "int \<Rightarrow> bool \<Rightarrow> u32 \<Rightarrow> pace_sender" where
  "pace_create sys_ts has_cb que_ms = \<lparr>min_sender_bitrate_kpbs = 0, estimated_bitrate = 0, pacing_bitrate_kpbs = 0,
     ps_last_update_ts = sys_ts, first_sent_ts = -1, ps_alr = alr_detector_create, ps_que = pacer_queue_init que_ms,
     media_budget = increase_budget (init_interval_budget zero_budget 0 (-1)) k_min_packet_limit_ms, has_send_cb = has_cb\<rparr>"

text \<open>The packets that are freed with the queue.\<close>

definition pace_destroy :: "pace_sender \<Rightarrow> packet_event list" where
  "pace_destroy pace = pacer_queue_destroy (ps_que pace)"

definition pace_set_estimate_bitrate :: "pace_sender \<Rightarrow> u32 \<Rightarrow> pace_sender" where
  "pace_set_estimate_bitrate pace bitrate_bps =
     pace\<lparr>estimated_bitrate := bitrate_bps,
          pacing_bitrate_kpbs := su_max (bitrate_bps div 1000) (min_sender_bitrate_kpbs pace),
          ps_alr := alr_detector_set_bitrate (ps_alr pace) (s32 (uint bitrate_bps))\<rparr>"

definition pace_set_bitrate_limits :: "pace_sender \<Rightarrow> u32 \<Rightarrow> pace_sender" where
  "pace_set_bitrate_limits pace min_sent_bitrate =
     (let pace = pace\<lparr>min_sender_bitrate_kpbs := min_sent_bitrate div 1000\<rparr>
      in pace\<lparr>pacing_bitrate_kpbs := su_max (estimated_bitrate pace div 1000) (min_sender_bitrate_kpbs pace)\<rparr>)"

definition pace_insert_packet :: "pace_sender \<Rightarrow> u32 \<Rightarrow> int \<Rightarrow> nat \<Rightarrow> int \<Rightarrow> pace_sender \<times> int" where
  "pace_insert_packet pace sq retrans sz now_ts =
     (let (que, ret) = pacer_queue_push (ps_que pace)
            \<lparr>pe_seq = sq, pe_retrans = retrans, pe_size = sz, pe_que_ts = now_ts, pe_sent = 0\<rparr>
      in (pace\<lparr>ps_que := que\<rparr>, ret))"

definition pace_queue_ms :: "int \<Rightarrow> pace_sender \<Rightarrow> int" where
  "pace_queue_ms sys_ts pace = sys_ts - pacer_queue_oldest sys_ts (ps_que pace)"

definition pace_queue_size :: "pace_sender \<Rightarrow> nat" where
  "pace_queue_size pace = pacer_queue_bytes (ps_que pace)"

definition pace_expected_queue_ms :: "pace_sender \<Rightarrow> int" where
  "pace_expected_queue_ms pace =
     (if 0 < pacing_bitrate_kpbs pace then int (pacer_queue_bytes (ps_que pace) * 8 div unat (pacing_bitrate_kpbs pace)) else 0)"

definition pace_get_limited_start_time :: "pace_sender \<Rightarrow> int" where
  "pace_get_limited_start_time pace = alr_get_app_limited_started_ts (ps_alr pace)"

definition pace_send :: "pace_sender \<Rightarrow> packet_event \<Rightarrow> pace_sender \<times> send_call list \<times> int" where
  "pace_send pace ev =
     (if budget_remaining (media_budget pace) = 0 then (pace, [], -1)
      else (pace\<lparr>media_budget := use_budget (media_budget pace) (s32 (int (pe_size ev)))\<rparr>,
            if has_send_cb pace then [(pe_seq ev, pe_retrans ev, pe_size ev)] else [], 0))"

text \<open>The loop of \<open>pace_try_transmit\<close>; its results are the pacer, \<open>sent_bytes\<close> and the calls made.\<close>

partial_function (option) transmit_loop ::
  "int \<Rightarrow> pace_sender \<Rightarrow> int \<Rightarrow> send_call list \<Rightarrow> (pace_sender \<times> int \<times> send_call list) option" where
  "transmit_loop now_ts pace sent_bytes calls =
     (if pacer_queue_empty (ps_que pace) \<noteq> 0
      then (case pacer_queue_front (ps_que pace) of None \<Rightarrow> None
        | Some ev \<Rightarrow>
           (case pace_send pace ev of (pace, out, ret) \<Rightarrow>
             if ret = 0
             then (case pacer_queue_sent (ps_que pace) (pe_seq ev) of None \<Rightarrow> None
               | Some que \<Rightarrow>
                   transmit_loop now_ts
                     (pace\<lparr>first_sent_ts := (if first_sent_ts pace = -1 then now_ts else first_sent_ts pace), ps_que := que\<rparr>)
                     (s32 (sent_bytes + int (pe_size ev))) (calls @ out))
             else Some (pace, sent_bytes, calls)))
      else Some (pace, sent_bytes, calls))"

definition pace_target :: "pace_sender \<Rightarrow> int \<Rightarrow> u32 option" where
  "pace_target pace now_ts =
     (if 0 < pacer_queue_bytes (ps_que pace)
      then map_option (\<lambda>t. su_max (pacing_bitrate_kpbs pace) t) (pacer_queue_target_bitrate_kbps (ps_que pace) now_ts)
      else Some (pacing_bitrate_kpbs pace))"

definition pace_try_transmit :: "int \<Rightarrow> pace_sender \<Rightarrow> int \<Rightarrow> (pace_sender \<times> send_call list) option" where
  "pace_try_transmit sys_ts pace now_ts =
     (let elapsed_ms = s32 (now_ts - ps_last_update_ts pace) in
      if elapsed_ms < k_min_packet_limit_ms then Some (pace, [])
      else (let elapsed_ms = su_min elapsed_ms k_max_interval_ms in
        case pace_target pace now_ts of None \<Rightarrow> None
        | Some target \<Rightarrow>
           (let b = increase_budget (set_target_rate_kbps (media_budget pace) (s32 (uint target))) elapsed_ms in
            case transmit_loop now_ts (pace\<lparr>media_budget := b\<rparr>) 0 [] of None \<Rightarrow> None
            | Some (pace, sent_bytes, calls) \<Rightarrow>
                (let pace = pace\<lparr>ps_last_update_ts := now_ts\<rparr> in
                 case alr_detector_bytes_sent sys_ts (ps_alr pace) (nat (sent_bytes mod 18446744073709551616)) elapsed_ms of
                   None \<Rightarrow> None
                 | Some alr \<Rightarrow> Some (pace\<lparr>ps_alr := alr\<rparr>, calls)))))"

subsection \<open>The send loop\<close>

definition call_of :: "u32 \<times> packet_event \<Rightarrow> send_call" where
  "call_of kp = (pe_seq (snd kp), pe_retrans (snd kp), pe_size (snd kp))"

definition pace_wf :: "pace_sender \<Rightarrow> bool" where
  "pace_wf pace \<longleftrightarrow> pq_wf (ps_que pace) \<and> budget_wf (media_budget pace) \<and> alr_wf (ps_alr pace) \<and> has_send_cb pace"

text \<open>The rates, which sending leaves as they are.\<close>

definition rates_frame :: "pace_sender \<Rightarrow> u32 \<times> u32 \<times> u32" where
  "rates_frame pace = (min_sender_bitrate_kpbs pace, estimated_bitrate pace, pacing_bitrate_kpbs pace)"

lemma transmit_loop_spec:
  assumes "pq_wf (ps_que pace)" and "budget_wf (media_budget pace)" and "has_send_cb pace"
    and "0 \<le> sent" and "sent + int (sizes (unsent (ps_que pace))) \<le> 1800000000"
  shows "\<exists>p' k. transmit_loop now pace sent cs =
      Some (p', sent + int (sizes (take k (unsent (ps_que pace)))), cs @ map call_of (take k (unsent (ps_que pace))))
    \<and> k \<le> length (unsent (ps_que pace)) \<and> unsent (ps_que p') = drop k (unsent (ps_que pace))
    \<and> pq_wf (ps_que p') \<and> budget_wf (media_budget p') \<and> has_send_cb p' \<and> ps_alr p' = ps_alr pace
    \<and> (k = length (unsent (ps_que pace)) \<or> bytes_remaining (media_budget p') \<le> 0)
    \<and> (0 < k \<longrightarrow> int (sizes (take (k - 1) (unsent (ps_que pace)))) < bytes_remaining (media_budget pace))
    \<and> first_sent_ts p' = (if 0 < k \<and> first_sent_ts pace = -1 then now else first_sent_ts pace) \<and> rates_frame p' = rates_frame pace"
  using assms
proof (induction "length (unsent (ps_que pace))" arbitrary: pace sent cs)
  case 0
  then have "transmit_loop now pace sent cs = Some (pace, sent, cs)"
    using pq_wf_empty [OF 0(2)] by (simp add: transmit_loop.simps [of now pace])
  then show ?case
    using 0 by (intro exI [of _ pace] exI [of _ 0]) (simp add: sizes_def)
next
  case (Suc n)
  define u where "u = unsent (ps_que pace)"
  obtain k p xs where u: "unsent (ps_que pace) = (k, p) # xs"
    using Suc(2) by (cases "unsent (ps_que pace)") auto
  note f = pacer_queue_front_spec [OF Suc(3) u]
  have ne: "pacer_queue_empty (ps_que pace) \<noteq> 0"
    using pq_wf_empty [OF Suc(3)] u by simp
  show ?case
  proof (cases "0 < bytes_remaining (media_budget pace)")
    case False
    then have "transmit_loop now pace sent cs = Some (pace, sent, cs)"
      using ne f(1) by (simp add: transmit_loop.simps [of now pace] pace_send_def budget_remaining_def)
    then show ?thesis
      using Suc False by (intro exI [of _ pace] exI [of _ 0]) (simp add: sizes_def)
  next
    case True
    have sz: "int (pe_size p) + int (sizes xs) \<le> 1800000000 - sent"
      using Suc(7) by (simp add: u sizes_def)
    then have s: "s32 (int (pe_size p)) = int (pe_size p)" "s32 (sent + int (pe_size p)) = sent + int (pe_size p)"
      using Suc(6) by (auto intro!: s32_id)
    obtain q where q: "pacer_queue_sent (ps_que pace) k = Some q" "pq_wf q" "unsent q = sl_del k (unsent (ps_que pace))"
      using pacer_queue_sent_spec [OF Suc(3), of k p] u by auto
    have xs: "unsent q = xs"
      using q(3) pq_wf_unsent_sorted [OF Suc(3)] unfolding u by (auto simp: sl_sorted_Cons sl_del_def filter_id_conv)
    define b where "b = use_budget (media_budget pace) (int (pe_size p))"
    have b: "budget_wf b" "bytes_remaining b = max (- max_bytes_in_budget (media_budget pace)) (bytes_remaining (media_budget pace) - int (pe_size p))"
      using use_budget_wf [OF Suc(4), of "int (pe_size p)"] use_budget_eq [OF Suc(4), of "int (pe_size p)"] sz Suc(6)
      by (simp_all add: b_def)
    define p1 where "p1 = pace\<lparr>media_budget := b, first_sent_ts := (if first_sent_ts pace = -1 then now else first_sent_ts pace), ps_que := q\<rparr>"
    have step: "transmit_loop now pace sent cs = transmit_loop now p1 (sent + int (pe_size p)) (cs @ [call_of (k, p)])"
      using ne f q(1) True Suc(5)
      by (simp add: transmit_loop.simps [of now pace] pace_send_def budget_remaining_def s b_def p1_def call_of_def cong: if_cong)
    have p1: "ps_que p1 = q" "media_budget p1 = b" "has_send_cb p1" "ps_alr p1 = ps_alr pace" "n = length (unsent (ps_que p1))"
      "first_sent_ts p1 = (if first_sent_ts pace = -1 then now else first_sent_ts pace)" "rates_frame p1 = rates_frame pace"
      using Suc(2,5) xs u by (simp_all add: p1_def rates_frame_def)
    obtain p' j where r: "transmit_loop now p1 (sent + int (pe_size p)) (cs @ [call_of (k, p)]) =
        Some (p', sent + int (pe_size p) + int (sizes (take j xs)), (cs @ [call_of (k, p)]) @ map call_of (take j xs))"
      "j \<le> length xs" "unsent (ps_que p') = drop j xs" "pq_wf (ps_que p')" "budget_wf (media_budget p')" "has_send_cb p'"
      "ps_alr p' = ps_alr pace" "j = length xs \<or> bytes_remaining (media_budget p') \<le> 0"
      "0 < j \<longrightarrow> int (sizes (take (j - 1) xs)) < bytes_remaining b"
      "first_sent_ts p' = (if 0 < j \<and> first_sent_ts p1 = -1 then now else first_sent_ts p1)" "rates_frame p' = rates_frame p1"
      using Suc(1) [OF p1(5), of "sent + int (pe_size p)" "cs @ [call_of (k, p)]"] q(2) b(1) p1(1-4) xs sz Suc(6)
      by (auto simp: p1(1,2,4) simp del: map_append)
    have tk: "sizes (take (Suc j) ((k, p) # xs)) = pe_size p + sizes (take j xs)"
      by (simp add: sizes_def)
    have low: "int (sizes (take (Suc j - 1) ((k, p) # xs))) < bytes_remaining (media_budget pace)"
    proof (cases j)
      case 0
      then show ?thesis using True by (simp add: sizes_def)
    next
      case (Suc i)
      have "0 \<le> max_bytes_in_budget (media_budget pace)"
        using \<open>budget_wf (media_budget pace)\<close> by (auto simp: budget_wf_def)
      moreover have "0 \<le> int (sizes (take i xs))" "int (sizes (take i xs)) < bytes_remaining b"
        using r(9) Suc by simp_all
      ultimately have "int (pe_size p) + int (sizes (take i xs)) < bytes_remaining (media_budget pace)"
        unfolding b(2) by linarith
      then show ?thesis using Suc by (simp add: sizes_def)
    qed
    have first: "first_sent_ts p' = (if first_sent_ts pace = -1 then now else first_sent_ts pace)"
      using r(10) p1(6) by auto
    show ?thesis
      unfolding step u
      by (rule exI [of _ p'], rule exI [of _ "Suc j"])
        (use r low tk first p1(7) in \<open>simp add: add.assoc call_of_def\<close>)
  qed
qed

lemma set_rate_pacing:
  assumes "budget_wf b" and "uint t \<le> 4294967" and "0 \<le> dt" and "dt \<le> 500"
  shows "budget_wf (increase_budget (set_target_rate_kbps b (s32 (uint (t :: u32)))) dt)"
proof -
  have "s32 (uint t) = uint t"
    using assms(2) by (intro s32_uint) simp
  then show ?thesis
    using assms by (intro increase_budget_wf) (auto intro!: set_target_rate_wf)
qed

lemma uint_word_of_nat32: "m \<le> 4000000 \<Longrightarrow> uint (word_of_nat m :: u32) = int m"
  by (simp add: unsigned_of_nat take_bit_nat_eq_self)

lemma pace_target_bound:
  assumes "pq_wf (ps_que pace)" and "sizes (unsent (ps_que pace)) \<le> 500000" and "uint (pacing_bitrate_kpbs pace) \<le> 4294967"
  shows "\<exists>t. pace_target pace now = Some t \<and> uint t \<le> 4294967"
proof -
  obtain r where r: "pacer_queue_target_bitrate_kbps (ps_que pace) now = Some r"
    using pacer_queue_target_total [OF assms(1)] by blast
  have "pq_total_size (ps_que pace) \<le> 500000"
    using assms(1,2) by (simp add: pq_wf_def)
  then have "pq_total_size (ps_que pace) * 8 div s \<le> 4000000" for s
    using div_le_dividend [of "pq_total_size (ps_que pace) * 8" s] by linarith
  then have "uint (word_of_nat (pq_total_size (ps_que pace) * 8 div s) :: u32) \<le> 4294967" for s
    using uint_word_of_nat32 [of "pq_total_size (ps_que pace) * 8 div s"] order_trans [of "pq_total_size (ps_que pace) * 8 div s" 4000000 4294967]
    by simp
  moreover have "\<exists>space :: u32. pacer_queue_target_bitrate_kbps (ps_que pace) now =
      (if 0 < length (pq_cache (ps_que pace)) \<and> 0 < pq_total_size (ps_que pace)
       then (if space = 0 then None else Some (word_of_nat (pq_total_size (ps_que pace) * 8 div unat space))) else Some 0)"
    by (rule exI, rule pacer_queue_target_bitrate_kbps_def [unfolded Let_def])
  ultimately have "uint r \<le> 4294967"
    using r by (auto simp del: word_of_nat_eq_0_iff split: if_splits)
  then show ?thesis
    using assms(3) r by (auto simp: pace_target_def max_def)
qed

lemma pace_transmit_ok:
  assumes wf: "pace_wf pace" and el: "5 \<le> now - ps_last_update_ts pace" "now - ps_last_update_ts pace < 2147483648"
    and sz: "sizes (unsent (ps_que pace)) \<le> 500000"
    and rates: "uint (pacing_bitrate_kpbs pace) \<le> 4294967" "1 \<le> target_rate_kbps (alr_budget (ps_alr pace))"
  shows "\<exists>p' calls k t. pace_try_transmit sys pace now = Some (p', calls) \<and> pace_wf p' \<and> pace_target pace now = Some t
    \<and> k \<le> length (unsent (ps_que pace))
    \<and> calls = map call_of (take k (unsent (ps_que pace))) \<and> unsent (ps_que p') = drop k (unsent (ps_que pace))
    \<and> (k = length (unsent (ps_que pace)) \<or> budget_remaining (media_budget p') = 0)
    \<and> (0 < k \<longrightarrow> sizes (take (k - 1) (unsent (ps_que pace)))
        < budget_remaining (increase_budget (set_target_rate_kbps (media_budget pace) (uint t)) (min (now - ps_last_update_ts pace) 30)))
    \<and> rates_frame p' = rates_frame pace \<and> ps_last_update_ts p' = now \<and> target_rate_kbps (alr_budget (ps_alr p')) = target_rate_kbps (alr_budget (ps_alr pace))"
proof -
  define el where "el = min (now - ps_last_update_ts pace) 30"
  have el': "s32 (now - ps_last_update_ts pace) = now - ps_last_update_ts pace" "0 \<le> el" "el \<le> 500"
    using assms(2,3) by (auto simp: el_def intro: s32_id)
  have wf': "pq_wf (ps_que pace)" "budget_wf (media_budget pace)" "alr_wf (ps_alr pace)" "has_send_cb pace"
    using wf by (auto simp: pace_wf_def)
  obtain t where t: "pace_target pace now = Some t" "uint t \<le> 4294967"
    using pace_target_bound [OF wf'(1) sz rates(1)] by blast
  have st: "s32 (uint t) = uint t"
    using t(2) by (intro s32_uint) simp
  define b where "b = increase_budget (set_target_rate_kbps (media_budget pace) (uint t)) el"
  have b: "budget_wf b"
    using set_rate_pacing [OF wf'(2) t(2) el'(2,3)] by (simp add: b_def st)
  define u where "u = unsent (ps_que pace)"
  obtain p1 k where l: "transmit_loop now (pace\<lparr>media_budget := b\<rparr>) 0 [] =
      Some (p1, int (sizes (take k u)), map call_of (take k u))"
    "k \<le> length u" "unsent (ps_que p1) = drop k u" "pq_wf (ps_que p1)" "budget_wf (media_budget p1)" "has_send_cb p1"
    "ps_alr p1 = ps_alr pace" "k = length u \<or> bytes_remaining (media_budget p1) \<le> 0"
    "0 < k \<longrightarrow> int (sizes (take (k - 1) u)) < bytes_remaining b" "rates_frame p1 = rates_frame pace"
    using transmit_loop_spec [of "pace\<lparr>media_budget := b\<rparr>" 0 now "[]"] wf' b sz by (auto simp: u_def rates_frame_def)
  have "sizes (take k u) + sizes (drop k u) = sizes u"
    by (simp add: sizes_def flip: sum_list_append map_append)
  then have n: "sizes (take k u) \<le> 500000"
    using sz by (simp add: u_def)
  then have nn: "nat (int (sizes (take k u)) mod 18446744073709551616) = sizes (take k u)"
    by simp
  have "0 < max_bytes_in_budget (alr_budget (ps_alr pace))"
    using wf'(3) rates(2) by (auto simp: alr_wf_def budget_wf_def)
  then obtain alr' where alr': "alr_detector_bytes_sent sys (ps_alr pace) (sizes (take k u)) el = Some alr'" "alr_wf alr'"
    "target_rate_kbps (alr_budget alr') = target_rate_kbps (alr_budget (ps_alr pace))"
    using alr_bytes_sent_ok [OF wf'(3) _ _ el'(2,3), of "sizes (take k u)" sys] n by auto
  define p' where "p' = p1\<lparr>ps_last_update_ts := now, ps_alr := alr'\<rparr>"
  have tr: "pace_try_transmit sys pace now = Some (p', map call_of (take k u))"
    using assms(2) alr'(1)
    by (simp add: pace_try_transmit_def el' t(1) st l(1,7) nn Let_def p'_def flip: el_def b_def)
  have rem: "k = length u \<or> budget_remaining (media_budget p') = 0"
    "0 < k \<longrightarrow> sizes (take (k - 1) u) < budget_remaining b"
    using l(8,9) by (auto simp: budget_remaining_def p'_def)
  have "pace_wf p'" "unsent (ps_que p') = drop k u" "rates_frame p' = rates_frame pace" "ps_last_update_ts p' = now"
    "target_rate_kbps (alr_budget (ps_alr p')) = target_rate_kbps (alr_budget (ps_alr pace))"
    using l alr'(2,3) by (simp_all add: pace_wf_def p'_def rates_frame_def)
  then show ?thesis
    unfolding u_def [symmetric] el_def [symmetric]
    by (intro exI [of _ p'] exI [of _ "map call_of (take k u)"] exI [of _ k] exI [of _ t])
      (use tr t(1) l(2) rem in \<open>simp flip: b_def\<close>)
qed

subsection \<open>Properties\<close>

text \<open>
  C28: the pacer sends the oldest sequence numbers first and stops when its budget is used up. A
  timer call at least 5 ms after the last one on a well-formed pacer (at most 500000 bytes queued, rates
  below 4.29 Gbit/s, the detector's bitrate set) is defined and ends. The calls it makes to the send
  callback are a prefix of the unsent packets in sequence order; it stops only when the queue is empty
  or the budget is used up, and all packets but the last fit into the budget
  of the tick. What is left in the queue is the rest, and the pacer stays well formed.
\<close>

theorem pace_transmit_prefix:
  assumes wf: "pace_wf pace" and el: "5 \<le> now - ps_last_update_ts pace" "now - ps_last_update_ts pace < 2147483648"
    and sz: "sizes (unsent (ps_que pace)) \<le> 500000"
    and rates: "uint (pacing_bitrate_kpbs pace) \<le> 4294967" "1 \<le> target_rate_kbps (alr_budget (ps_alr pace))"
  shows "\<exists>p' calls k t. pace_try_transmit sys pace now = Some (p', calls) \<and> pace_wf p' \<and> pace_target pace now = Some t
    \<and> k \<le> length (unsent (ps_que pace))
    \<and> calls = map call_of (take k (unsent (ps_que pace))) \<and> unsent (ps_que p') = drop k (unsent (ps_que pace))
    \<and> (k = length (unsent (ps_que pace)) \<or> budget_remaining (media_budget p') = 0)
    \<and> (0 < k \<longrightarrow> sizes (take (k - 1) (unsent (ps_que pace)))
        < budget_remaining (increase_budget (set_target_rate_kbps (media_budget pace) (uint t)) (min (now - ps_last_update_ts pace) 30)))"
  using pace_transmit_ok [OF assms] by blast

text \<open>A pacer of 800 kbit/s with three packets waiting.\<close>

definition example_pace :: pace_sender where
  "example_pace = pace_set_estimate_bitrate (fst (pace_insert_packet (fst (pace_insert_packet (fst (pace_insert_packet
     (pace_create 1000 True 300) 3 0 1000 1000)) 1 0 1000 1001)) 2 0 1000 1002)) 800000"

lemma example_pace_unsent: "pq_wf (ps_que example_pace)" "map fst (unsent (ps_que example_pace)) = [1, 2, 3]"
  "sizes (unsent (ps_que example_pace)) = 3000"
proof -
  define ev :: "u32 \<Rightarrow> int \<Rightarrow> packet_event" where
    "ev k t = \<lparr>pe_seq = k, pe_retrans = 0, pe_size = 1000, pe_que_ts = t, pe_sent = 0\<rparr>" for k t
  have q: "ps_que example_pace = push_all (pacer_queue_init 300) [ev 3 1000, ev 1 1001, ev 2 1002]"
    by (simp add: example_pace_def pace_insert_packet_def pace_create_def pace_set_estimate_bitrate_def ev_def Let_def
        case_prod_unfold)
  have "pq_wf (ps_que example_pace) \<and> unsent (ps_que example_pace) =
      foldl (\<lambda>c p. sl_ins (pe_seq p) (p\<lparr>pe_sent := 0\<rparr>) c) (unsent (pacer_queue_init 300)) [ev 3 1000, ev 1 1001, ev 2 1002]"
    unfolding q by (rule push_all_spec [OF pacer_queue_init_wf]) (simp_all add: ev_def pacer_queue_init_def)
  then show "pq_wf (ps_que example_pace)" "map fst (unsent (ps_que example_pace)) = [1, 2, 3]"
    "sizes (unsent (ps_que example_pace)) = 3000"
    by (simp_all add: ev_def pacer_queue_init_def unsent_def sizes_def)
qed

theorem pace_transmit_prefix_witness:
  "\<exists>p' calls k. pace_try_transmit 1030 example_pace 1030 = Some (p', calls) \<and> pace_wf p'
    \<and> map fst calls = take k [1, 2, 3] \<and> (k = 3 \<or> budget_remaining (media_budget p') = 0)"
proof -
  have alr: "ps_alr example_pace = alr_detector_set_bitrate alr_detector_create 800000"
    and pb: "pacing_bitrate_kpbs example_pace = 800" and lu: "ps_last_update_ts example_pace = 1000" and cb: "has_send_cb example_pace"
    and mb: "media_budget example_pace = increase_budget (init_interval_budget zero_budget 0 (-1)) 5"
    by (simp_all add: example_pace_def pace_insert_packet_def pace_create_def pace_set_estimate_bitrate_def s32_id Let_def
        case_prod_unfold)
  have "budget_wf (media_budget example_pace)"
    unfolding mb init_interval_budget_def by (intro increase_budget_wf set_target_rate_wf) simp_all
  moreover have "alr_wf (ps_alr example_pace)" "target_rate_kbps (alr_budget (ps_alr example_pace)) = 480"
    unfolding alr using alr_set_bitrate_wf [of 800000 alr_detector_create] by simp_all
  ultimately have "pace_wf example_pace"
    using example_pace_unsent(1) cb by (simp add: pace_wf_def)
  then obtain p' calls k where r: "pace_try_transmit 1030 example_pace 1030 = Some (p', calls)" "pace_wf p'"
    "calls = map call_of (take k (unsent (ps_que example_pace)))" "k \<le> length (unsent (ps_que example_pace))"
    "k = length (unsent (ps_que example_pace)) \<or> budget_remaining (media_budget p') = 0"
    using pace_transmit_prefix [of example_pace 1030 1030] example_pace_unsent(3) lu pb
      \<open>target_rate_kbps (alr_budget (ps_alr example_pace)) = 480\<close> by auto
  have "map fst calls = take k (map (\<lambda>kp. pe_seq (snd kp)) (unsent (ps_que example_pace)))"
    by (simp add: r(3) call_of_def o_def take_map)
  also have "map (\<lambda>kp. pe_seq (snd kp)) (unsent (ps_que example_pace)) = map fst (unsent (ps_que example_pace))"
    using example_pace_unsent(1) by (auto simp: pq_wf_def pq_core_def unsent_def)
  finally have "map fst calls = take k [1, 2, 3]"
    by (simp add: example_pace_unsent(2))
  moreover have "length (unsent (ps_que example_pace)) = 3"
    using arg_cong [OF example_pace_unsent(2), of length] by simp
  ultimately show ?thesis
    using r(1,2,5) by auto
qed

end
