(* ===== verification/Kalman_Filter.thy ===== *)
theory Kalman_Filter
  imports Cfloat Estimator_Common
begin

text \<open>
  \<^verbatim>\<open>estimator/kalman_filter.c\<close>: the Kalman filter that estimates the queueing delay offset, in
  \<open>double\<close> arithmetic as the source writes it, operation by operation. The covariance is the four
  values \<open>E00\<close> to \<open>E11\<close>; the message that the source prints on a covariance that is not
  semi-definite is left out (it changes no state).

  The lemmas: the ring of send time deltas holds the last 60 of them, so the shortest period that
  scales the noise is their minimum; the noise variance never falls below 1.
\<close>

abbreviation HISTORY_FRAME_SIZE :: nat where "HISTORY_FRAME_SIZE \<equiv> 60"
abbreviation DELTA_COUNTER_MAX :: u16 where "DELTA_COUNTER_MAX \<equiv> 1000"

record kalman_filter =
  kf_num_of_deltas :: u16
  kf_slope :: double
  kf_offset :: double
  kf_prev_offset :: double
  E00 :: double
  E01 :: double
  E10 :: double
  E11 :: double
  process_noise0 :: double
  process_noise1 :: double
  avg_noise :: double
  var_noise :: double
  kf_index :: u32
  kf_history :: "double list"

definition kalman_filter_create :: kalman_filter where
  "kalman_filter_create = \<lparr>kf_num_of_deltas = 0, kf_slope = fp_lit 8 div fp_lit 512, kf_offset = fp_lit 0, kf_prev_offset = fp_lit 0,
     E00 = fp_of_int 100, E01 = fp_of_int 0, E10 = fp_of_int 0, E11 = fp_lit (1 / 10),
     process_noise0 = fp_lit (1 / 10 ^ 13), process_noise1 = fp_lit (1 / 10 ^ 3),
     avg_noise = fp_lit 0, var_noise = fp_lit 50, kf_index = 0, kf_history = replicate HISTORY_FRAME_SIZE (fp_lit 0)\<rparr>"

text \<open>\<open>n\<close> iterations from \<open>i\<close> on.\<close>

fun min_period_loop :: "double list \<Rightarrow> nat \<Rightarrow> nat \<Rightarrow> double \<Rightarrow> double" where
  "min_period_loop h i 0 m = m"
| "min_period_loop h i (Suc n) m = min_period_loop h (Suc i) n (if h ! i < m then h ! i else m)"

definition kalman_filter_update_min_period :: "kalman_filter \<Rightarrow> double \<Rightarrow> kalman_filter \<times> double" where
  "kalman_filter_update_min_period kalman ts_delta =
     (let kalman = kalman\<lparr>kf_history := (kf_history kalman)[unat (kf_index kalman) mod HISTORY_FRAME_SIZE := ts_delta],
                          kf_index := kf_index kalman + 1\<rparr>;
          size = su_min (unat (kf_index kalman)) HISTORY_FRAME_SIZE
      in (kalman, min_period_loop (kf_history kalman) 0 size ts_delta))"

definition kalman_filter_update_noise :: "kalman_filter \<Rightarrow> double \<Rightarrow> double \<Rightarrow> int \<Rightarrow> kalman_filter" where
  "kalman_filter_update_noise kalman residual ts_delta stable_state =
     (if stable_state \<noteq> 0 then kalman
      else (let
        alpha = (if 10 * 30 < uint (kf_num_of_deltas kalman) then fp_lit 0.002 else fp_lit 0.01);
        beta = fp_pow (fp_of_int 1 - alpha) (ts_delta * fp_lit 30 div fp_lit 1000);
        kalman = kalman\<lparr>avg_noise := beta * avg_noise kalman + (fp_of_int 1 - beta) * residual\<rparr>;
        kalman = kalman\<lparr>var_noise := beta * var_noise kalman
          + (fp_of_int 1 - beta) * (avg_noise kalman - residual) * (avg_noise kalman - residual)\<rparr>
        in if var_noise kalman < fp_of_int 1 then kalman\<lparr>var_noise := fp_of_int 1\<rparr> else kalman))"

definition kalman_filter_update ::
  "kalman_filter \<Rightarrow> int \<Rightarrow> double \<Rightarrow> int \<Rightarrow> bandwidth_usage \<Rightarrow> int \<Rightarrow> kalman_filter" where
  "kalman_filter_update kalman arrival_ts_delta ts_delta size_delta state now_ms =
     (let
        (kalman, min_frame_period) = kalman_filter_update_min_period kalman ts_delta;
        t_ts_delta = fp_of_int arrival_ts_delta - ts_delta;
        fs_delta = fp_of_int size_delta;
        kalman = kalman\<lparr>kf_num_of_deltas := kf_num_of_deltas kalman + 1\<rparr>;
        kalman = (if DELTA_COUNTER_MAX < kf_num_of_deltas kalman then kalman\<lparr>kf_num_of_deltas := DELTA_COUNTER_MAX\<rparr> else kalman);
        kalman = kalman\<lparr>E00 := E00 kalman + process_noise0 kalman, E11 := E11 kalman + process_noise1 kalman\<rparr>;
        kalman = (if (state = kBwOverusing \<and> kf_offset kalman < kf_prev_offset kalman)
                     \<or> (state = kBwUnderusing \<and> kf_prev_offset kalman < kf_offset kalman)
                  then kalman\<lparr>E11 := E11 kalman + fp_of_int 10 * process_noise1 kalman\<rparr> else kalman);
        h0 = fs_delta; h1 = fp_lit 1;
        Eh0 = E00 kalman * h0 + E01 kalman * h1;
        Eh1 = E10 kalman * h0 + E11 kalman * h1;
        residual = t_ts_delta - kf_slope kalman * h0 - kf_offset kalman;
        in_stable_state = (if state = kBwNormal then 0 else -1);
        max_residual = fp_lit 3 * fp_sqrt (var_noise kalman);
        kalman = (if fp_fabs residual < max_residual
                  then kalman_filter_update_noise kalman residual min_frame_period in_stable_state
                  else kalman_filter_update_noise kalman (if residual < fp_of_int 0 then - max_residual else max_residual)
                         min_frame_period in_stable_state);
        denom = var_noise kalman + h0 * Eh0 + h1 * Eh1;
        K0 = Eh0 div denom; K1 = Eh1 div denom;
        IKh00 = fp_lit 1 - K0 * h0; IKh01 = - K0 * h1;
        IKh10 = - K1 * h0; IKh11 = fp_lit 1 - K1 * h1;
        e00 = E00 kalman; e01 = E01 kalman;
        kalman = kalman\<lparr>E00 := e00 * IKh00 + E10 kalman * IKh01\<rparr>;
        kalman = kalman\<lparr>E01 := e01 * IKh00 + E11 kalman * IKh01\<rparr>;
        kalman = kalman\<lparr>E10 := e00 * IKh10 + E10 kalman * IKh11\<rparr>;
        kalman = kalman\<lparr>E11 := e01 * IKh10 + E11 kalman * IKh11\<rparr>;
        kalman = kalman\<lparr>kf_slope := kf_slope kalman + K0 * residual\<rparr>;
        kalman = kalman\<lparr>kf_prev_offset := kf_offset kalman\<rparr>
      in kalman\<lparr>kf_offset := kf_offset kalman + K1 * residual\<rparr>)"

subsection \<open>What an update keeps\<close>

lemma fp_of_int_1 [simp]: "(fp_of_int 1 :: double) = Fin 1"
proof -
  have "fmt_rep TYPE(53) 1"
    using fmt_rep_of_int [of 1, where 'p = 53] by simp
  then show ?thesis
    using fp_round_exact [of 1, where 'p = 53] by (simp add: fp_of_int_def)
qed

lemmas fp_ops = plus_fp_def times_fp_def uminus_fp_def minus_fp_def divide_fp_def less_fp_def

lemma not_one_less_one: "\<not> (Fin 1 :: double) < Fin 1"
  by simp

lemma kalman_noise_keeps:
  assumes "\<not> var_noise k < Fin 1"
  shows "\<not> var_noise (kalman_filter_update_noise k r t s) < Fin 1"
    and "kf_history (kalman_filter_update_noise k r t s) = kf_history k"
    and "kf_index (kalman_filter_update_noise k r t s) = kf_index k"
    and "kf_num_of_deltas (kalman_filter_update_noise k r t s) = kf_num_of_deltas k"
  using assms by (simp_all add: kalman_filter_update_noise_def Let_def not_one_less_one del: fp_ops)

lemma kalman_update_keeps:
  assumes "\<not> var_noise k < Fin 1"
  shows "\<not> var_noise (kalman_filter_update k a t sz st now) < Fin 1"
    and "kf_history (kalman_filter_update k a t sz st now) = (kf_history k)[unat (kf_index k) mod 60 := t]"
    and "kf_index (kalman_filter_update k a t sz st now) = kf_index k + 1"
    and "kf_num_of_deltas (kalman_filter_update k a t sz st now) =
      (if 1000 < kf_num_of_deltas k + 1 then 1000 else kf_num_of_deltas k + 1)"
  using assms
  by (simp_all add: kalman_filter_update_def kalman_filter_update_min_period_def Let_def kalman_noise_keeps del: fp_ops)

lemma min_period_loop_Fin:
  "\<forall>j < n. h ! (i + j) = Fin (f (i + j)) \<Longrightarrow> min_period_loop h i n (Fin m) = Fin (Min (insert m (f ` {i..<i + n})))"
proof (induction n arbitrary: i m)
  case (Suc n)
  have h: "h ! i = Fin (f i)" "\<forall>j < n. h ! (Suc i + j) = Fin (f (Suc i + j))"
    using Suc.prems by (auto dest: spec [of _ 0] spec [of _ "Suc _"])
  have "{i..<i + Suc n} = insert i {Suc i..<Suc i + n}"
    by auto
  then have "Min (insert m (f ` {i..<i + Suc n})) = Min (insert (min m (f i)) (f ` {Suc i..<Suc i + n}))"
    by (cases "n = 0") (auto simp: min.assoc)
  moreover have "(if h ! i < Fin m then h ! i else Fin m) = Fin (min m (f i))"
    by (simp add: h(1) min_def)
  ultimately show ?case
    using Suc.IH [OF h(2), of "min m (f i)"] by (simp only: min_period_loop.simps add_Suc_right)
qed simp

text \<open>One call of the filter: the deltas, the detector's state and the time.\<close>

type_synonym kalman_call = "int \<times> real \<times> int \<times> bandwidth_usage \<times> int"

fun kalman_run :: "kalman_filter \<Rightarrow> kalman_call list \<Rightarrow> kalman_filter" where
  "kalman_run k [] = k"
| "kalman_run k ((a, t, sz, st, now) # cs) = kalman_run (kalman_filter_update k a (Fin t) sz st now) cs"

definition call_period :: "kalman_call \<Rightarrow> real" where
  "call_period c = fst (snd c)"

definition kalman_rel :: "kalman_filter \<Rightarrow> real list \<Rightarrow> bool" where
  "kalman_rel k ds \<longleftrightarrow> ring_holds (kf_history k) 60 (map Fin ds) \<and> uint (kf_index k) = int (length ds)
     \<and> \<not> var_noise k < Fin 1 \<and> uint (kf_num_of_deltas k) = min (int (length ds)) 1000"

lemma kalman_create_rel: "kalman_rel kalman_filter_create []"
proof -
  have "fmt_rep TYPE(53) 50"
    using fmt_rep_of_int [of 50, where 'p = 53] by simp
  then show ?thesis
    using fp_round_exact [of 50, where 'p = 53]
    by (simp add: kalman_rel_def kalman_filter_create_def ring_holds_Nil fp_lit_def)
qed

lemma kalman_update_rel:
  assumes "kalman_rel k ds" and "length ds < 4294967295"
  shows "kalman_rel (kalman_filter_update k a (Fin t) sz st now) (ds @ [t])"
proof -
  note r = assms(1) [unfolded kalman_rel_def]
  have ix: "unat (kf_index k) = length ds"
    using r by (simp add: unat_eq_nat_uint)
  have "uint (kf_index k + 1) = int (length ds) + 1"
    using r assms(2) by (simp add: uint_add_u32)
  moreover have "uint (if 1000 < kf_num_of_deltas k + 1 then 1000 else kf_num_of_deltas k + 1) = min (int (length ds) + 1) 1000"
  proof -
    have "uint (kf_num_of_deltas k + 1) = min (int (length ds)) 1000 + 1"
      using r by (simp add: uint_word_ariths take_bit_eq_mod)
    then show ?thesis
      by (auto simp: word_less_def)
  qed
  moreover have "int (length (ds @ [t])) = int (length ds) + 1"
    by simp
  moreover have vn: "\<not> var_noise k < Fin 1"
    using r by blast
  ultimately show ?thesis
    using r ring_holds_snoc [of "kf_history k" 60 "map Fin ds" "Fin t"]
    unfolding kalman_rel_def kalman_update_keeps(2-4) [OF vn] ix using kalman_update_keeps(1) [OF vn] by simp
qed

lemma kalman_run_rel:
  "kalman_rel k ds \<Longrightarrow> length ds + length cs < 4294967295 \<Longrightarrow> kalman_rel (kalman_run k cs) (ds @ map call_period cs)"
proof (induction k cs arbitrary: ds rule: kalman_run.induct)
  case (2 k a t sz st now cs)
  have "kalman_rel (kalman_filter_update k a (Fin t) sz st now) (ds @ [t])"
    using 2(2,3) by (intro kalman_update_rel) auto
  from 2(1) [OF this] 2(3) show ?case
    by (simp add: call_period_def)
qed simp

subsection \<open>Properties\<close>

text \<open>
  The noise of the filter is scaled by the shortest of the last 60 send periods. After any
  run of updates (finite periods, any deltas and detector states), the period that the next update uses is
  the minimum of its own and the 59 before, from inside the history array; the count of deltas is the
  number of updates up to 1000, and the noise variance is not below 1.
\<close>

lemma kalman_min_period:
  assumes "length cs < 4294967294"
  shows "snd (kalman_filter_update_min_period (kalman_run kalman_filter_create cs) (Fin t))
      = Fin (Min (set (drop (length cs + 1 - 60) (map call_period cs @ [t]))))
    \<and> uint (kf_num_of_deltas (kalman_run kalman_filter_create cs)) = min (int (length cs)) 1000
    \<and> \<not> var_noise (kalman_run kalman_filter_create cs) < Fin 1"
proof -
  define k ds where "k = kalman_run kalman_filter_create cs" and "ds = map call_period cs"
  have r: "kalman_rel k ds" and len: "length ds < 4294967294"
    using kalman_run_rel [OF kalman_create_rel, of cs] assms by (simp_all add: k_def ds_def)
  define h where "h = (kf_history k)[length ds mod 60 := Fin t]"
  have h: "ring_holds h 60 (map Fin (ds @ [t]))"
    using r ring_holds_snoc [of "kf_history k" 60 "map Fin ds" "Fin t"] by (simp add: kalman_rel_def h_def)
  define n where "n = min (length ds + 1) 60"
  have ix: "unat (kf_index k) = length ds" "unat (kf_index k + 1) = length ds + 1"
    using r len by (simp_all add: unat_eq_nat_uint kalman_rel_def uint_add_u32)
  have set: "set (take n h) = Fin ` set (drop (length ds + 1 - 60) (ds @ [t]))"
    using ring_holds_set [OF h] by (simp only: n_def set_map length_map length_append list.size drop_map add_0 One_nat_def [symmetric] flip: map_append)
  have hl: "length h = 60"
    using h by (simp add: ring_holds_def)
  have "\<exists>x. h ! j = Fin x" if "j < n" for j
    using that hl set nth_mem [of j "take n h"] by (auto simp: n_def)
  then obtain f where f: "\<forall>j < n. h ! j = Fin (f j)" by metis
  have "f ` {0..<n} = set (drop (length ds + 1 - 60) (ds @ [t]))"
  proof -
    have "(Fin :: real \<Rightarrow> double) ` f ` {0..<n} = (!) h ` {0..<n}"
      unfolding image_image using f by (intro image_cong) auto
    also have "\<dots> = set (take n h)"
      using hl by (intro nth_image) (simp add: n_def)
    finally have "(Fin :: real \<Rightarrow> double) ` f ` {0..<n} = set (take n h)" .
    then have "(Fin :: real \<Rightarrow> double) ` (f ` {0..<n}) = Fin ` set (drop (length ds + 1 - 60) (ds @ [t]))"
      by (simp only: set)
    moreover have "inj (Fin :: real \<Rightarrow> double)"
      by (simp add: inj_def)
    ultimately show ?thesis
      by (simp only: inj_image_eq_iff)
  qed
  moreover have "t \<in> set (drop (length ds + 1 - 60) (ds @ [t]))"
    by simp
  moreover have "min_period_loop h 0 n (Fin t) = Fin (Min (insert t (f ` {0..<n})))"
    using min_period_loop_Fin [of n h 0 f t] f by simp
  ultimately have "min_period_loop h 0 n (Fin t) = Fin (Min (set (drop (length ds + 1 - 60) (ds @ [t]))))"
    by (simp only: insert_absorb)
  then show ?thesis
    using r unfolding k_def [symmetric] ds_def [symmetric]
    by (simp add: kalman_filter_update_min_period_def Let_def ix h_def n_def kalman_rel_def) (simp add: ds_def)
qed

lemma kalman_min_period_witness:
  "snd (kalman_filter_update_min_period (kalman_run kalman_filter_create
     [(12, 10, 300, kBwNormal, 1000), (9, 7, -200, kBwOverusing, 1010)]) (Fin 11)) = Fin 7"
  using kalman_min_period [of "[(12, 10, 300, kBwNormal, 1000), (9, 7, -200, kBwOverusing, 1010)]" 11]
  by (simp add: call_period_def del: kalman_run.simps)

end
