(* ===== verification/Trendline.thy ===== *)
theory Trendline
  imports Cfloat
begin

text \<open>
  \<^verbatim>\<open>estimator/trendline.c\<close>: the slope of the smoothed queueing delay over the last \<open>window_size\<close>
  packet groups, by least squares in \<open>double\<close> arithmetic. \<open>None\<close> is a window of no entries or an
  index that left the array. The contents of the array that \<open>malloc\<close> returns are an argument.

  The lemmas: the array is a ring of the last samples (\<^verbatim>\<open>trendline_rel\<close>), the slope is not
  touched before the window is full, and it is the fit of the window's samples afterwards.
\<close>

abbreviation TRENDLINE_MAX_COUNT :: u32 where "TRENDLINE_MAX_COUNT \<equiv> 1000"

record delay_hist =
  dh_arrival_delta :: double
  dh_smoothed_delay :: double

record trendline_estimator =
  window_size :: nat
  smoothing_coef :: double
  threshold_gain :: double
  tl_num_of_deltas :: u32
  first_arrival_ts :: int
  acc_delay :: double
  smoothed_delay :: double
  tl_trendline :: double
  tl_index :: int
  tl_que :: "delay_hist list"

text \<open>The two loops of \<open>linear_fit_slope\<close>, on the samples still to visit.\<close>

fun sums_loop :: "delay_hist list \<Rightarrow> double \<Rightarrow> double \<Rightarrow> double \<times> double" where
  "sums_loop [] sx sy = (sx, sy)"
| "sums_loop (h # hs) sx sy = sums_loop hs (sx + dh_arrival_delta h) (sy + dh_smoothed_delay h)"

fun fit_loop :: "double \<Rightarrow> double \<Rightarrow> delay_hist list \<Rightarrow> double \<Rightarrow> double \<Rightarrow> double \<times> double" where
  "fit_loop ax ay [] nu de = (nu, de)"
| "fit_loop ax ay (h # hs) nu de =
     fit_loop ax ay hs (nu + (dh_arrival_delta h - ax) * (dh_smoothed_delay h - ay))
                       (de + (dh_arrival_delta h - ax) * (dh_arrival_delta h - ax))"

definition linear_fit_slope :: "delay_hist list \<Rightarrow> nat \<Rightarrow> double" where
  "linear_fit_slope que que_size =
     (let (sum_x, sum_y) = sums_loop (take que_size que) (fp_of_int 0) (fp_of_int 0);
          avg_x = sum_x div fp_of_int (int que_size);
          avg_y = sum_y div fp_of_int (int que_size);
          (numerator, denominator) = fit_loop avg_x avg_y (take que_size que) (fp_of_int 0) (fp_of_int 0)
      in if \<not> fp_eq denominator (fp_of_int 0) then numerator div denominator else fp_of_int 0)"

definition trendline_create :: "nat \<Rightarrow> double \<Rightarrow> double \<Rightarrow> delay_hist list \<Rightarrow> trendline_estimator" where
  "trendline_create wnd coef gain fresh = \<lparr>window_size = wnd, smoothing_coef = coef, threshold_gain = gain,
     tl_num_of_deltas = 0, first_arrival_ts = -1, acc_delay = fp_lit 0, smoothed_delay = fp_lit 0, tl_trendline = fp_lit 0,
     tl_index = 0, tl_que = fresh\<rparr>"

text \<open>The statements up to the smoothed delay.\<close>

definition trendline_smooth :: "trendline_estimator \<Rightarrow> double \<Rightarrow> double \<Rightarrow> int \<Rightarrow> trendline_estimator" where
  "trendline_smooth est recv_delta_ms send_delta_ms arr_at =
     (let delta_ms = recv_delta_ms - send_delta_ms;
          est = est\<lparr>tl_num_of_deltas := tl_num_of_deltas est + 1\<rparr>;
          est = (if TRENDLINE_MAX_COUNT < tl_num_of_deltas est then est\<lparr>tl_num_of_deltas := tl_num_of_deltas est\<rparr> else est);
          est = (if first_arrival_ts est = -1 then est\<lparr>first_arrival_ts := arr_at\<rparr> else est);
          est = est\<lparr>acc_delay := acc_delay est + delta_ms\<rparr>
      in est\<lparr>smoothed_delay := smoothing_coef est * smoothed_delay est + (fp_of_int 1 - smoothing_coef est) * acc_delay est\<rparr>)"

text \<open>
  \<open>est->index++\<close> is an \<open>int\<close>; \<open>%\<close> and \<open>>=\<close> with the \<open>size_t\<close> window convert it to 64 unsigned bits.
\<close>

definition trendline_update :: "trendline_estimator \<Rightarrow> double \<Rightarrow> double \<Rightarrow> int \<Rightarrow> trendline_estimator option" where
  "trendline_update est recv_delta_ms send_delta_ms arr_at =
     (let est = trendline_smooth est recv_delta_ms send_delta_ms arr_at;
          i = nat (tl_index est mod 18446744073709551616) mod window_size est;
          est = est\<lparr>tl_index := s32 (tl_index est + 1)\<rparr>
      in if window_size est = 0 \<or> length (tl_que est) \<le> i then None
         else (let est = est\<lparr>tl_que := (tl_que est)[i := \<lparr>dh_arrival_delta = fp_of_int (arr_at - first_arrival_ts est),
                                                       dh_smoothed_delay = smoothed_delay est\<rparr>]\<rparr>
           in Some (if int (window_size est) \<le> tl_index est mod 18446744073709551616
                    then est\<lparr>tl_trendline := linear_fit_slope (tl_que est) (window_size est)\<rparr> else est)))"

definition trendline_slope :: "trendline_estimator \<Rightarrow> double" where
  "trendline_slope est = threshold_gain est * tl_trendline est"

subsection \<open>The samples behind the array\<close>

text \<open>The samples that a run of calls produces, by the recurrence of the smoothing filter alone.\<close>

type_synonym trend_call = "double \<times> double \<times> int"

fun trend_samples :: "double \<Rightarrow> int \<Rightarrow> double \<Rightarrow> double \<Rightarrow> trend_call list \<Rightarrow> delay_hist list" where
  "trend_samples coef t0 acc sm [] = []"
| "trend_samples coef t0 acc sm ((rd, sd, arr_at) # cs) =
     (let acc = acc + (rd - sd); sm = coef * sm + (fp_of_int 1 - coef) * acc
      in \<lparr>dh_arrival_delta = fp_of_int (arr_at - t0), dh_smoothed_delay = sm\<rparr> # trend_samples coef t0 acc sm cs)"

fun trend_run :: "trendline_estimator \<Rightarrow> trend_call list \<Rightarrow> trendline_estimator option" where
  "trend_run est [] = Some est"
| "trend_run est ((rd, sd, arr_at) # cs) =
     (case trendline_update est rd sd arr_at of None \<Rightarrow> None | Some est \<Rightarrow> trend_run est cs)"

definition trendline_rel :: "trendline_estimator \<Rightarrow> delay_hist list \<Rightarrow> bool" where
  "trendline_rel est xs \<longleftrightarrow> 0 < window_size est \<and> ring_holds (tl_que est) (window_size est) xs
     \<and> tl_index est = int (length xs)
     \<and> tl_trendline est = (if xs = [] \<or> length xs < window_size est then fp_lit 0
                        else linear_fit_slope (tl_que est) (window_size est))"

lemmas fp_arith_ops = plus_fp_def times_fp_def uminus_fp_def minus_fp_def divide_fp_def

lemma trendline_update_rel:
  assumes rel: "trendline_rel est xs" and t0: "first_arrival_ts est = t0 \<or> (first_arrival_ts est = -1 \<and> t0 = arr_at)" "t0 \<noteq> -1"
    and len: "length xs < 2147483647"
  shows "\<exists>est'. trendline_update est rd sd arr_at = Some est'
    \<and> trendline_rel est' (xs @ [\<lparr>dh_arrival_delta = fp_of_int (arr_at - t0), dh_smoothed_delay = smoothed_delay est'\<rparr>])
    \<and> first_arrival_ts est' = t0 \<and> acc_delay est' = acc_delay est + (rd - sd)
    \<and> smoothed_delay est' = smoothing_coef est * smoothed_delay est + (fp_of_int 1 - smoothing_coef est) * acc_delay est'
    \<and> smoothing_coef est' = smoothing_coef est \<and> window_size est' = window_size est \<and> threshold_gain est' = threshold_gain est"
proof -
  define w x where "w = window_size est"
    and "x = \<lparr>dh_arrival_delta = fp_of_int (arr_at - t0) :: double,
       dh_smoothed_delay = smoothing_coef est * smoothed_delay est + (fp_of_int 1 - smoothing_coef est) * (acc_delay est + (rd - sd))\<rparr>"
  have w: "0 < w" "ring_holds (tl_que est) w xs" "tl_index est = int (length xs)" "length (tl_que est) = w"
    using rel by (auto simp: trendline_rel_def w_def ring_holds_def)
  have i: "nat (tl_index est mod 18446744073709551616) = length xs"
    using w(3) len by simp
  have j: "s32 (tl_index est + 1) = int (length xs) + 1"
    using w(3) len by (simp add: s32_id)
  have lt: "length xs mod w < w" using w(1) by simp
  have nl: "\<not> window_size est \<le> length xs mod window_size est"
    using lt by (simp add: w_def)
  have fa: "first_arrival_ts est = -1 \<longrightarrow> arr_at = t0" "first_arrival_ts est \<noteq> -1 \<longrightarrow> first_arrival_ts est = t0"
    using t0 by auto
  have snoc: "ring_holds ((tl_que est)[length xs mod w := x]) w (xs @ [x])"
    by (rule ring_holds_snoc [OF w(2,1)])
  have k: "(int (length xs) + 1) mod 18446744073709551616 = int (length xs) + 1"
    using len by simp
  define e where "e = trendline_smooth est rd sd arr_at"
  have e: "tl_index e = tl_index est" "window_size e = w" "tl_que e = tl_que est" "tl_trendline e = tl_trendline est"
    "smoothing_coef e = smoothing_coef est" "threshold_gain e = threshold_gain est" "first_arrival_ts e = t0"
    "acc_delay e = acc_delay est + (rd - sd)" "smoothed_delay e = dh_smoothed_delay x"
    unfolding e_def trendline_smooth_def Let_def using fa by (simp_all add: w_def x_def del: fp_arith_ops)
  define que where "que = (tl_que est)[length xs mod w := x]"
  define est' where "est' = e\<lparr>tl_index := int (length xs) + 1, tl_que := que,
    tl_trendline := (if int w \<le> int (length xs) + 1 then linear_fit_slope que w else tl_trendline est)\<rparr>"
  have x: "\<lparr>dh_arrival_delta = fp_of_int (arr_at - t0), dh_smoothed_delay = dh_smoothed_delay x\<rparr> = x"
    by (simp add: x_def)
  have "trendline_update est rd sd arr_at = (if w = 0 \<or> w \<le> length xs mod w then None else Some est')"
    unfolding trendline_update_def e_def [symmetric] by (simp add: Let_def e i j k x w(4) est'_def que_def)
  then have "trendline_update est rd sd arr_at = Some est'"
    using w(1) lt by simp
  moreover have "trendline_rel est' (xs @ [x])"
    using snoc w(1) rel by (auto simp: trendline_rel_def est'_def que_def e w_def)
  moreover have "smoothed_delay est' = dh_smoothed_delay x"
    by (simp add: est'_def e)
  ultimately show ?thesis
    by (simp add: x del: fp_arith_ops) (simp add: est'_def e x_def w_def del: fp_arith_ops)
qed

lemma trend_run_rel:
  "trendline_rel est xs \<Longrightarrow> cs \<noteq> [] \<longrightarrow> first_arrival_ts est = t0 \<or> (first_arrival_ts est = -1 \<and> t0 = snd (snd (hd cs))) \<Longrightarrow>
    t0 \<noteq> -1 \<Longrightarrow> length xs + length cs < 2147483647 \<Longrightarrow>
    \<exists>est'. trend_run est cs = Some est' \<and> window_size est' = window_size est \<and> threshold_gain est' = threshold_gain est
      \<and> trendline_rel est' (xs @ trend_samples (smoothing_coef est) t0 (acc_delay est) (smoothed_delay est) cs)"
proof (induction cs arbitrary: est xs)
  case Nil
  then show ?case by simp
next
  case (Cons c cs)
  obtain rd sd arr_at where c: "c = (rd, sd, arr_at)" by (cases c)
  obtain est1 where e: "trendline_update est rd sd arr_at = Some est1"
    "trendline_rel est1 (xs @ [\<lparr>dh_arrival_delta = fp_of_int (arr_at - t0), dh_smoothed_delay = smoothed_delay est1\<rparr>])"
    "first_arrival_ts est1 = t0" "acc_delay est1 = acc_delay est + (rd - sd)"
    "smoothed_delay est1 = smoothing_coef est * smoothed_delay est + (fp_of_int 1 - smoothing_coef est) * acc_delay est1"
    "smoothing_coef est1 = smoothing_coef est" "window_size est1 = window_size est" "threshold_gain est1 = threshold_gain est"
    using trendline_update_rel [OF Cons.prems(1) _ Cons.prems(3), of arr_at rd sd] Cons.prems(2,4)
    unfolding c list.sel snd_conv list.size by fastforce
  obtain est' where e': "trend_run est1 cs = Some est'" "window_size est' = window_size est1" "threshold_gain est' = threshold_gain est1"
    "trendline_rel est' ((xs @ [\<lparr>dh_arrival_delta = fp_of_int (arr_at - t0), dh_smoothed_delay = smoothed_delay est1\<rparr>])
        @ trend_samples (smoothing_coef est1) t0 (acc_delay est1) (smoothed_delay est1) cs)"
    using Cons.IH [OF e(2)] e(3) Cons.prems(3,4) by auto
  have "trend_samples (smoothing_coef est) t0 (acc_delay est) (smoothed_delay est) (c # cs) =
      \<lparr>dh_arrival_delta = fp_of_int (arr_at - t0), dh_smoothed_delay = smoothed_delay est1\<rparr>
        # trend_samples (smoothing_coef est1) t0 (acc_delay est1) (smoothed_delay est1) cs"
    unfolding c trend_samples.simps Let_def e(6) e(4) [symmetric] e(5) ..
  then show ?case
    using e(1,7,8) e' by (simp add: c)
qed

lemma trend_samples_length: "length (trend_samples coef t0 acc sm cs) = length cs"
  by (induction coef t0 acc sm cs rule: trend_samples.induct) (simp_all add: Let_def del: fp_arith_ops)

subsection \<open>Properties\<close>

text \<open>
  C36: the trendline is the fit of the last window. From a new estimator with a window of at least
  one entry, any run of fewer than 2^31 - 1 updates stays inside the array; the array then
  holds the last \<open>window_size\<close> samples (arrival time since the first call, and delay sums
  smoothed by the filter's recurrence) at their index modulo the window; the slope is the gain times
  zero until the window is full and the gain times the least squares slope of the array from then on.
\<close>

theorem trendline_window:
  assumes "0 < w" and "length fresh = w" and "cs \<noteq> []" and "snd (snd (hd cs)) \<noteq> -1" and "length cs < 2147483647"
  shows "\<exists>est. trend_run (trendline_create w coef gain fresh) cs = Some est
    \<and> ring_holds (tl_que est) w (trend_samples coef (snd (snd (hd cs))) (fp_lit 0) (fp_lit 0) cs)
    \<and> trendline_slope est = gain * (if length cs < w then fp_lit 0 else linear_fit_slope (tl_que est) w)"
proof -
  have "trendline_rel (trendline_create w coef gain fresh) []"
    using assms(1,2) by (simp add: trendline_rel_def trendline_create_def ring_holds_Nil)
  from trend_run_rel [OF this, of cs "snd (snd (hd cs))"] assms(4,5)
  obtain est where "trend_run (trendline_create w coef gain fresh) cs = Some est" "window_size est = w" "threshold_gain est = gain"
    "trendline_rel est (trend_samples coef (snd (snd (hd cs))) (fp_lit 0) (fp_lit 0) cs)"
    by (auto simp: trendline_create_def)
  then show ?thesis
    using assms(3) trend_samples_length [of coef "snd (snd (hd cs))" "fp_lit 0" "fp_lit 0" cs]
    by (auto simp: trendline_rel_def trendline_slope_def simp del: fp_arith_ops)
qed

theorem trendline_window_witness:
  "\<exists>est. trend_run (trendline_create 3 (fp_lit 0.9) (fp_lit 4) (replicate 3 \<lparr>dh_arrival_delta = fp_lit 7, dh_smoothed_delay = fp_lit 7\<rparr>))
      [(fp_lit 12, fp_lit 10, 1000), (fp_lit 11, fp_lit 10, 1011)] = Some est
    \<and> trendline_slope est = fp_lit 4 * fp_lit 0"
  using trendline_window [of 3 "replicate 3 \<lparr>dh_arrival_delta = fp_lit 7, dh_smoothed_delay = fp_lit 7\<rparr>"
      "[(fp_lit 12, fp_lit 10, 1000), (fp_lit 11, fp_lit 10, 1011)]" "fp_lit 0.9" "fp_lit 4"]
  by (auto simp del: trend_run.simps fp_arith_ops)

end
