(* ===== verification/Overuse_Detector.thy ===== *)
theory Overuse_Detector
  imports Fp_Bounds Estimator_Common
begin

text \<open>
  \<^verbatim>\<open>estimator/overuse_detector.c\<close>: the detector that turns the estimated delay offset into the
  state of the link, against a threshold that adapts to the offset. The literals with the suffix
  \<open>f\<close> are \<open>float\<close> values converted to \<open>double\<close>, as in the source.

  The lemmas: the adaptation of the threshold stays finite (\<^verbatim>\<open>threshold_step\<close>), so the two
  macros clamp it; which link state a call leaves.
\<close>

abbreviation kMaxAdaptOffsetMs :: double where "kMaxAdaptOffsetMs \<equiv> fp_lit 15"
abbreviation kOverUsingTimeThreshold :: double where "kOverUsingTimeThreshold \<equiv> fp_of_int 20"
abbreviation kMinNumDeltas :: int where "kMinNumDeltas \<equiv> 60"
abbreviation kMaxTimeDeltaMs :: int where "kMaxTimeDeltaMs \<equiv> 100"

record overuse_detector =
  k_up :: double
  k_down :: double
  ouveusing_time_threshold :: double
  od_threshold :: double
  time_over_using :: double
  od_prev_offset :: double
  od_update_ts :: int
  overuse_counter :: int
  od_state :: bandwidth_usage

definition overuse_create :: overuse_detector where
  "overuse_create = \<lparr>k_up = fp_lit 0.0187, k_down = fp_lit 0.039, ouveusing_time_threshold = kOverUsingTimeThreshold,
     od_threshold = fp_lit 12.5, time_over_using = fp_of_int (-1), od_prev_offset = fp_of_int 0, od_update_ts = -1,
     overuse_counter = 0, od_state = kBwNormal\<rparr>"

definition overuse_update_threshold :: "overuse_detector \<Rightarrow> double \<Rightarrow> int \<Rightarrow> overuse_detector" where
  "overuse_update_threshold d modified_offset cur_ts =
     (let d = (if od_update_ts d = -1 then d\<lparr>od_update_ts := cur_ts\<rparr> else d) in
      if od_threshold d + kMaxAdaptOffsetMs < fp_fabs modified_offset then d\<lparr>od_update_ts := cur_ts\<rparr>
      else (let k = (if fp_fabs modified_offset < od_threshold d then k_down d else k_up d);
                time_delta = su_min (cur_ts - od_update_ts d) kMaxTimeDeltaMs;
                t = od_threshold d + k * (fp_fabs modified_offset - od_threshold d) * fp_of_int time_delta
            in d\<lparr>od_threshold := su_max (fp_conv (fp_lit 6 :: float)) (su_min (fp_conv (fp_lit 600 :: float)) t),
                 od_update_ts := cur_ts\<rparr>))"

text \<open>The branch of \<open>overuse_detect\<close> in which the offset is over the threshold.\<close>

definition overuse_over :: "overuse_detector \<Rightarrow> double \<Rightarrow> double \<Rightarrow> overuse_detector" where
  "overuse_over d offset ts_delta =
     (let d = d\<lparr>time_over_using := (if fp_eq (time_over_using d) (fp_of_int (-1)) then ts_delta div fp_of_int 2
                                    else time_over_using d + ts_delta)\<rparr>;
          d = d\<lparr>overuse_counter := s32 (overuse_counter d + 1)\<rparr>
      in if ouveusing_time_threshold d < time_over_using d \<and> 1 < overuse_counter d \<and> od_prev_offset d \<le> offset
         then d\<lparr>time_over_using := fp_of_int 0, overuse_counter := 0, od_state := kBwOverusing\<rparr>
         else d)"

definition overuse_detect :: "overuse_detector \<Rightarrow> double \<Rightarrow> double \<Rightarrow> int \<Rightarrow> int \<Rightarrow> overuse_detector \<times> bandwidth_usage" where
  "overuse_detect d offset ts_delta num_of_deltas cur_ts =
     (if num_of_deltas < 2 then (d, kBwNormal)
      else (let T = fp_of_int (su_min num_of_deltas kMinNumDeltas) * offset;
                d = (if od_threshold d < T then overuse_over d offset ts_delta
                     else if T < - od_threshold d
                     then d\<lparr>time_over_using := fp_of_int (-1), overuse_counter := 0, od_state := kBwUnderusing\<rparr>
                     else d\<lparr>time_over_using := fp_of_int (-1), overuse_counter := 0, od_state := kBwNormal\<rparr>);
                d = overuse_update_threshold (d\<lparr>od_prev_offset := offset\<rparr>) T cur_ts
            in (d, od_state d)))"

subsection \<open>The adaptive threshold\<close>

definition od_wf :: "overuse_detector \<Rightarrow> bool" where
  "od_wf d \<longleftrightarrow> fin_in 6 600 (od_threshold d) \<and> fin_in 0 1 (k_up d) \<and> fin_in 0 1 (k_down d)
     \<and> -1 \<le> od_update_ts d \<and> od_update_ts d < 4611686018427387904"

lemma float_6_600: "(fp_conv (fp_lit 6 :: float) :: double) = Fin 6" "(fp_conv (fp_lit 600 :: float) :: double) = Fin 600"
  using fp_round_exact [of 6, where 'p = 24] fp_round_exact [of 6, where 'p = 53]
    fp_round_exact [of 600, where 'p = 24] fp_round_exact [of 600, where 'p = 53] frep_float(3) frep_double(3)
  by (simp_all add: fp_lit_def frep_def)

lemma fp_of_int_big: "-4611686018427387905 \<le> i \<Longrightarrow> i \<le> 100 \<Longrightarrow> fin_in (- (2 ^ 63)) (2 ^ 63) (fp_of_int i :: double)"
proof -
  assume i: "-4611686018427387905 \<le> i" "i \<le> 100"
  have r: "frep TYPE(53) (2 ^ 63)" "frep TYPE(53) (- (2 ^ 63))"
    using double_rep [of 1 63] double_rep [of "-1" 63] unfolding frep_def by simp_all
  have "real_of_int (-4611686018427387905) \<le> real_of_int i" "real_of_int i \<le> real_of_int 100"
    using i by (simp_all only: of_int_le_iff)
  then show ?thesis
    using r by (intro fin_in_of_int) simp_all
qed

lemma not_NaN_clamp: "v \<noteq> NaN \<Longrightarrow> fin_in 6 600 (su_max (Fin 6) (su_min (Fin 600) (v :: double)))"
  by (cases v) (auto simp: su_max_def su_min_def)

lemma fin_add_not_NaN: "fin_in a b u \<Longrightarrow> fin_in c d v \<Longrightarrow> u + v \<noteq> (NaN :: double)"
  by (auto elim!: fin_inE)

lemma threshold_step:
  assumes t: "fin_in 6 600 t" and k: "fin_in 0 1 k" and o: "mo \<noteq> NaN" "\<not> t + fp_lit 15 < fp_fabs mo"
    and dt: "-4611686018427387905 \<le> dt" "dt \<le> 100"
  shows "t + k * (fp_fabs mo - t) * fp_of_int dt \<noteq> (NaN :: double)"
proof -
  have "fin_in 15 15 (fp_lit 15 :: double)"
    by (rule fin_in_lit) simp_all
  then have s: "fin_in 21 615 (t + fp_lit 15 :: double)"
    by (rule fin_in_add [OF t]) simp_all
  have m: "fin_in 0 615 (fp_fabs mo)"
    using s o by (cases mo) (auto elim!: fin_inE)
  have "fin_in (- 600) 609 (fp_fabs mo - t)"
    by (rule fin_in_sub [OF m t]) simp_all
  then have d: "fin_in (- 1024) 1024 (fp_fabs mo - t)"
    by (rule fin_in_weaken) simp_all
  have "fin_in (- 1) 1 k"
    using k by (rule fin_in_weaken) simp_all
  then have p: "fin_in (- 1024) 1024 (k * (fp_fabs mo - t))"
    by (rule fin_in_mul_abs [OF _ d]) simp_all
  have r: "frep TYPE(53) (2 ^ 73)" "frep TYPE(53) (- (2 ^ 73))"
    using double_rep [of 1 73] double_rep [of "-1" 73] unfolding frep_def by simp_all
  have "fin_in (- (2 ^ 73)) (2 ^ 73) (k * (fp_fabs mo - t) * fp_of_int dt)"
    using r by (intro fin_in_mul_abs [OF p fp_of_int_big [OF dt]]) simp_all
  then show ?thesis
    by (rule fin_add_not_NaN [OF t])
qed

lemma overuse_update_threshold_wf:
  assumes wf: "od_wf d" and o: "mo \<noteq> NaN" and cur: "0 \<le> cur" "cur < 4611686018427387904"
  shows "od_wf (overuse_update_threshold d mo cur)" and "od_state (overuse_update_threshold d mo cur) = od_state d"
proof -
  define u where "u = (if od_update_ts d = -1 then cur else od_update_ts d)"
  have u: "-1 \<le> u" "u < 4611686018427387904"
    using wf cur by (auto simp: u_def od_wf_def)
  define k where "k = (if fp_fabs mo < od_threshold d then k_down d else k_up d)"
  define t where "t = od_threshold d + k * (fp_fabs mo - od_threshold d) * fp_of_int (min (cur - u) 100)"
  have e: "overuse_update_threshold d mo cur =
      (if od_threshold d + fp_lit 15 < fp_fabs mo then d\<lparr>od_update_ts := cur\<rparr>
       else d\<lparr>od_threshold := su_max (Fin 6) (su_min (Fin 600) t), od_update_ts := cur\<rparr>)"
    by (cases "od_update_ts d = -1")
      (simp_all add: overuse_update_threshold_def Let_def float_6_600 t_def k_def u_def
        del: plus_fp_def times_fp_def minus_fp_def less_fp_def)
  have "fin_in 6 600 (su_max (Fin 6) (su_min (Fin 600) t))" if "\<not> od_threshold d + fp_lit 15 < fp_fabs mo"
    unfolding t_def using wf o that u cur by (intro not_NaN_clamp threshold_step) (auto simp: od_wf_def k_def)
  then show "od_wf (overuse_update_threshold d mo cur)" and "od_state (overuse_update_threshold d mo cur) = od_state d"
    using wf cur unfolding e by (auto simp: od_wf_def)
qed

lemma overuse_over_wf: "od_wf (overuse_over d off td) = od_wf d"
  by (simp add: overuse_over_def Let_def od_wf_def del: plus_fp_def divide_fp_def less_fp_def less_eq_fp_def)

lemma od_wf_updates [simp]:
  "od_wf (d\<lparr>time_over_using := a, overuse_counter := b, od_state := c\<rparr>) = od_wf d" "od_wf (d\<lparr>od_prev_offset := o'\<rparr>) = od_wf d"
  by (simp_all add: od_wf_def)

lemma fp_of_int_mul_not_NaN:
  assumes "2 \<le> n" and "n \<le> 60" and "off \<noteq> NaN"
  shows "fp_of_int n * off \<noteq> (NaN :: double)"
proof -
  have "frep TYPE(53) (of_int n)"
    using frep_double_int [of n] assms by simp
  then have "fp_of_int n = (Fin (of_int n) :: double)"
    by (simp add: fp_of_int_def fp_round_exact frep_def)
  then show ?thesis
    using assms by (cases off) (auto simp: fp_inf_times_def fp_round_def Let_def)
qed

lemma overuse_detect_wf:
  assumes "od_wf d" and "off \<noteq> NaN" and "0 \<le> cur" and "cur < 4611686018427387904"
  shows "od_wf (fst (overuse_detect d off td n cur))"
proof (cases "n < 2")
  case False
  then have "fp_of_int (min n 60) * off \<noteq> (NaN :: double)"
    using fp_of_int_mul_not_NaN [of "min n 60" off] assms(2) by simp
  then show ?thesis
    using assms False
    by (simp add: overuse_detect_def Let_def overuse_over_wf overuse_update_threshold_wf
      del: plus_fp_def times_fp_def uminus_fp_def less_fp_def)
qed (use assms in \<open>simp add: overuse_detect_def\<close>)

lemma overuse_create_wf: "od_wf overuse_create"
proof -
  have "fin_in 6 600 (fp_lit 12.5 :: double)" "fin_in 0 1 (fp_lit 0.0187 :: double)" "fin_in 0 1 (fp_lit 0.039 :: double)"
    by (rule fin_in_lit; simp)+
  then show ?thesis
    by (simp add: od_wf_def overuse_create_def)
qed

subsection \<open>Properties\<close>

type_synonym overuse_call = "double \<times> double \<times> int \<times> int"

fun overuse_run :: "overuse_detector \<Rightarrow> overuse_call list \<Rightarrow> overuse_detector" where
  "overuse_run d [] = d"
| "overuse_run d ((off, td, n, cur) # cs) = overuse_run (fst (overuse_detect d off td n cur)) cs"

definition call_ok :: "overuse_call \<Rightarrow> bool" where
  "call_ok c \<longleftrightarrow> (case c of (off, td, n, cur) \<Rightarrow> off \<noteq> NaN \<and> 0 \<le> cur \<and> cur < 4611686018427387904)"

lemma overuse_run_wf: "od_wf d \<Longrightarrow> \<forall>c \<in> set cs. call_ok c \<Longrightarrow> od_wf (overuse_run d cs)"
  by (induction d cs rule: overuse_run.induct) (auto simp: call_ok_def overuse_detect_wf)

text \<open>
  The detector's threshold stays between 6 and 600 ms. Whatever offsets come in, infinities
  included and only a NaN excepted, with any time steps, also backwards, the threshold after any run
  of calls from the initial state is a finite value in that range.
\<close>

lemma overuse_threshold_range:
  assumes "\<forall>c \<in> set cs. call_ok c"
  shows "\<exists>t. od_threshold (overuse_run overuse_create cs) = Fin t \<and> 6 \<le> t \<and> t \<le> 600"
  using overuse_run_wf [OF overuse_create_wf assms] by (auto simp: od_wf_def elim!: fin_inE)

lemma overuse_threshold_range_witness:
  "\<exists>t. od_threshold (overuse_run overuse_create [(fp_lit 0.4, fp_lit 20, 60, 1000), (PInf, fp_lit 20, 60, 1020)]) = Fin t
    \<and> 6 \<le> t \<and> t \<le> 600"
proof -
  have "(fp_lit 0.4 :: double) \<noteq> NaN"
    by (simp add: fp_lit_def fp_round_def Let_def)
  then show ?thesis
    by (intro overuse_threshold_range) (simp add: call_ok_def)
qed

end
