(* ===== verification/Cf_List.thy ===== *)
theory Cf_List
  imports Prelude
begin

text \<open>
  \<^verbatim>\<open>common/cf_list.c\<close>: the singly linked FIFO list with a tail pointer that the pacer queue keeps
  its unsent packets in. The store of list units is explicit: \<open>heap\<close> maps the address of a
  \<open>base_list_unit_t\<close> to its two fields, \<open>malloc\<close> is the address that the caller supplies (the
  lemmas ask that it is not in use) and \<open>free\<close> removes the cell. An access through a pointer that
  is not in the store makes the operation \<open>None\<close>; a \<open>NULL\<close> result is \<open>None\<close> in the second component.

  The lemmas: \<open>chain\<close> says which addresses a list occupies and in what order; \<open>list_wf\<close> adds the
  tail pointer and the size. Push, pop and front are a FIFO queue on the abstract sequence, no
  operation touches another list's cells, and destroying the list frees exactly its own units.
  The contract is the locale \<open>fifo\<close>, interpreted on the code's operations.
\<close>

type_synonym loc = nat

record 'd base_list_unit =
  unit_next :: "loc option"
  pdata :: 'd

type_synonym 'd heap = "loc \<rightharpoonup> 'd base_list_unit"

record base_list =
  head :: "loc option"
  tailer :: "loc option"
  lsize :: nat

type_synonym 'd list_state = "'d heap \<times> base_list"

definition create_list :: base_list where
  "create_list = \<lparr>head = None, tailer = None, lsize = 0\<rparr>"

partial_function (option) destroy_loop :: "'d heap \<Rightarrow> loc option \<Rightarrow> 'd heap option" where
  "destroy_loop h pos =
     (case pos of None \<Rightarrow> Some h
      | Some a \<Rightarrow> (case h a of None \<Rightarrow> None
          | Some u \<Rightarrow> destroy_loop (h(a := None)) (unit_next u)))"

definition destroy_list :: "'d list_state \<Rightarrow> 'd heap option" where
  "destroy_list s = (case s of (h, l) \<Rightarrow> destroy_loop h (head l))"

definition list_push :: "loc \<Rightarrow> 'd \<Rightarrow> 'd list_state \<Rightarrow> 'd list_state option" where
  "list_push u d s = (case s of (h, l) \<Rightarrow>
     (let h = h(u \<mapsto> \<lparr>unit_next = None, pdata = d\<rparr>);
          l = (if head l = None then l\<lparr>head := Some u\<rparr> else l)
      in case tailer l of
           None \<Rightarrow> Some (h, l\<lparr>tailer := Some u, lsize := lsize l + 1\<rparr>)
         | Some t \<Rightarrow> (case h t of None \<Rightarrow> None
             | Some c \<Rightarrow> Some (h(t \<mapsto> c\<lparr>unit_next := Some u\<rparr>),
                              l\<lparr>tailer := Some u, lsize := lsize l + 1\<rparr>))))"

definition list_pop :: "'d list_state \<Rightarrow> ('d list_state \<times> 'd option) option" where
  "list_pop s = (case s of (h, l) \<Rightarrow>
     (if lsize l = 0 then Some (s, None)
      else case head l of None \<Rightarrow> Some (s, None)
      | Some u \<Rightarrow> (case h u of None \<Rightarrow> None
          | Some c \<Rightarrow>
             (let l = (if tailer l = head l then l\<lparr>tailer := unit_next c\<rparr> else l);
                  l = l\<lparr>head := unit_next c, lsize := lsize l - 1\<rparr>
              in Some ((h(u := None), l), Some (pdata c))))))"

definition list_front :: "'d list_state \<Rightarrow> 'd option option" where
  "list_front s = (case s of (h, l) \<Rightarrow>
     (if lsize l = 0 then Some None
      else case head l of None \<Rightarrow> Some None
      | Some u \<Rightarrow> (case h u of None \<Rightarrow> None | Some c \<Rightarrow> Some (Some (pdata c)))))"

definition list_size :: "'d list_state \<Rightarrow> nat" where
  "list_size s = lsize (snd s)"

subsection \<open>The shape of a list in the store\<close>

fun chain :: "'d heap \<Rightarrow> loc option \<Rightarrow> loc list \<Rightarrow> 'd list \<Rightarrow> bool" where
  "chain h p [] ds = (p = None \<and> ds = [])"
| "chain h p (a # as) ds =
     (p = Some a \<and> (\<exists>u. h a = Some u \<and> ds \<noteq> [] \<and> pdata u = hd ds \<and> chain h (unit_next u) as (tl ds)))"

definition list_at :: "loc list \<Rightarrow> 'd list_state \<Rightarrow> 'd list \<Rightarrow> bool" where
  "list_at as s ds \<longleftrightarrow> distinct as \<and> chain (fst s) (head (snd s)) as ds
     \<and> tailer (snd s) = (if as = [] then None else Some (last as)) \<and> lsize (snd s) = length ds"

definition list_wf :: "'d list_state \<Rightarrow> 'd list \<Rightarrow> bool" where
  "list_wf s ds \<longleftrightarrow> (\<exists>as. list_at as s ds)"

lemma chain_length: "chain h p as ds \<Longrightarrow> length as = length ds"
proof (induction as arbitrary: p ds)
  case (Cons a as)
  then obtain d ds' where "ds = d # ds'" by (cases ds) auto
  with Cons show ?case by auto
qed simp

lemma chain_dom: "chain h p as ds \<Longrightarrow> set as \<subseteq> dom h"
  by (induction as arbitrary: p ds) auto

lemma chain_frame: "a \<notin> set as \<Longrightarrow> chain (h(a := x)) p as ds \<longleftrightarrow> chain h p as ds"
  by (induction as arbitrary: p ds) auto

lemma chain_snoc:
  assumes "chain h p (as @ [t]) ds" and "distinct (as @ [t])" and "u \<notin> set (as @ [t])"
    and "h u = Some \<lparr>unit_next = None, pdata = d\<rparr>" and "h t = Some c"
  shows "chain (h(t \<mapsto> c\<lparr>unit_next := Some u\<rparr>)) p (as @ [t, u]) (ds @ [d])"
  using assms
proof (induction as arbitrary: p ds)
  case Nil
  then show ?case by (cases ds) auto
next
  case (Cons a as)
  then obtain e ds' where ds: "ds = e # ds'" by (cases ds) auto
  from Cons.prems(1) obtain v where v: "h a = Some v" "p = Some a" "pdata v = e" "chain h (unit_next v) (as @ [t]) ds'"
    by (auto simp: ds)
  have "chain (h(t \<mapsto> c\<lparr>unit_next := Some u\<rparr>)) (unit_next v) (as @ [t, u]) (ds' @ [d])"
    using Cons.prems v by (intro Cons.IH) auto
  moreover have "(h(t \<mapsto> c\<lparr>unit_next := Some u\<rparr>)) a = Some v"
    using v Cons.prems(2) by simp
  ultimately show ?case
    using v by (simp add: ds del: fun_upd_apply)
qed

lemma list_at_push:
  assumes "list_at as s ds" and "u \<notin> dom (fst s)"
  shows "\<exists>s'. list_push u d s = Some s' \<and> list_at (as @ [u]) s' (ds @ [d])
    \<and> (\<forall>a. a \<notin> set as \<and> a \<noteq> u \<longrightarrow> fst s' a = fst s a)"
proof (cases as rule: rev_cases)
  case Nil
  then show ?thesis
    using assms by (cases s) (auto simp: list_at_def list_push_def)
next
  case (snoc bs t)
  obtain h l where s: "s = (h, l)" by (cases s)
  define h1 where "h1 = h(u \<mapsto> \<lparr>unit_next = None, pdata = d\<rparr>)"
  from assms have ch: "chain h (head l) (bs @ [t]) ds" and tl: "tailer l = Some t"
    and len: "lsize l = length ds" and dis: "distinct (bs @ [t])" and fr: "u \<notin> dom h"
    by (auto simp: list_at_def snoc s)
  have u: "u \<notin> set (bs @ [t])"
    using chain_dom [OF ch] fr by auto
  have hd: "head l \<noteq> None"
    using ch by (cases bs) auto
  obtain c where c: "h1 t = Some c"
    using chain_dom [OF ch] by (cases "t = u") (auto simp: h1_def)
  have ch1: "chain h1 (head l) (bs @ [t]) ds"
    using ch u by (simp only: h1_def chain_frame not_False_eq_True)
  have push: "list_push u d s = Some (h1(t \<mapsto> c\<lparr>unit_next := Some u\<rparr>), l\<lparr>tailer := Some u, lsize := lsize l + 1\<rparr>)"
    using hd tl c by (auto simp: list_push_def s Let_def simp flip: h1_def)
  have "chain (h1(t \<mapsto> c\<lparr>unit_next := Some u\<rparr>)) (head l) (bs @ [t, u]) (ds @ [d])"
    using ch1 dis u c by (intro chain_snoc) (auto simp: h1_def)
  then have "list_at (as @ [u]) (h1(t \<mapsto> c\<lparr>unit_next := Some u\<rparr>), l\<lparr>tailer := Some u, lsize := lsize l + 1\<rparr>) (ds @ [d])"
    using dis u len by (simp add: list_at_def snoc)
  moreover have "list_push u d s = Some (h1(t \<mapsto> c\<lparr>unit_next := Some u\<rparr>), l\<lparr>tailer := Some u, lsize := lsize l + 1\<rparr>)"
    by (rule push)
  moreover have "\<forall>a. a \<notin> set as \<and> a \<noteq> u \<longrightarrow> (h1(t \<mapsto> c\<lparr>unit_next := Some u\<rparr>)) a = fst s a"
    by (simp add: snoc s h1_def)
  ultimately show ?thesis
    by (intro exI conjI) (assumption, assumption, simp only: fst_conv)
qed

lemma list_at_pop_Nil: "list_at as s [] \<Longrightarrow> list_pop s = Some (s, None) \<and> list_front s = Some None"
  by (cases s) (simp add: list_at_def list_pop_def list_front_def)

lemma list_at_pop_Cons:
  assumes "list_at as s (d # ds)"
  shows "\<exists>s' a as'. as = a # as' \<and> list_pop s = Some (s', Some d) \<and> list_at as' s' ds
    \<and> fst s' = (fst s)(a := None) \<and> list_front s = Some (Some d)"
proof -
  obtain h l where s: "s = (h, l)" by (cases s)
  from assms obtain a as' where as: "as = a # as'"
    by (cases as) (auto simp: list_at_def)
  from assms obtain u where u: "h a = Some u" "head l = Some a" "pdata u = d"
      "chain h (unit_next u) as' ds" and dis: "a \<notin> set as'" "distinct as'"
    and tl: "tailer l = Some (last as)" and len: "lsize l = Suc (length ds)"
    by (auto simp: list_at_def as s)
  define l' where "l' = (if tailer l = head l then l\<lparr>tailer := unit_next u\<rparr> else l)\<lparr>head := unit_next u, lsize := length ds\<rparr>"
  have pop: "list_pop s = Some ((h(a := None), l'), Some d)"
    using u len by (simp add: list_pop_def s l'_def Let_def)
  have "tailer l' = (if as' = [] then None else Some (last as'))"
    using tl u dis by (cases as') (auto simp: l'_def as split: if_splits)
  then have "list_at as' (h(a := None), l') ds"
    using u dis by (simp add: list_at_def chain_frame l'_def)
  moreover have "list_front s = Some (Some d)"
    using u len by (simp add: list_front_def s)
  ultimately show ?thesis
    using pop by (auto simp: as s)
qed

lemma destroy_loop_frees:
  "chain h p as ds \<Longrightarrow> distinct as \<Longrightarrow> destroy_loop h p = Some (h |` (- set as))"
proof (induction as arbitrary: h p ds)
  case Nil
  then show ?case by (simp add: destroy_loop.simps restrict_map_def)
next
  case (Cons a as)
  then obtain u where u: "p = Some a" "h a = Some u" "chain h (unit_next u) as (tl ds)"
    by auto
  have "destroy_loop (h(a := None)) (unit_next u) = Some ((h(a := None)) |` (- set as))"
    using u Cons.prems(2) by (intro Cons.IH [where ds = "tl ds"]) (simp_all add: chain_frame del: fun_upd_apply)
  moreover have "(h(a := None)) |` (- set as) = h |` (- set (a # as))"
    by (auto simp: restrict_map_def)
  ultimately show ?case
    using u by (simp add: destroy_loop.simps [of h])
qed

subsection \<open>The FIFO contract\<close>

text \<open>
  What a client of the list may rely on: with \<open>R s ds\<close> saying that the state holds the sequence
  \<open>ds\<close>, and \<open>used s\<close> the addresses in use, a push at an unused address appends, a pop removes the
  head, and neither fails. The runs take the allocator as a parameter.
\<close>

datatype 'd fifo_op = Push 'd | Pop | Front

fun fifo_run :: "('s \<Rightarrow> loc) \<Rightarrow> (loc \<Rightarrow> 'd \<Rightarrow> 's \<Rightarrow> 's option) \<Rightarrow> ('s \<Rightarrow> ('s \<times> 'd option) option)
    \<Rightarrow> ('s \<Rightarrow> 'd option option) \<Rightarrow> 's \<Rightarrow> 'd fifo_op list \<Rightarrow> ('s \<times> 'd option list) option" where
  "fifo_run malloc push pop front s [] = Some (s, [])"
| "fifo_run malloc push pop front s (Push d # ops) =
     (case push (malloc s) d s of None \<Rightarrow> None | Some s' \<Rightarrow> fifo_run malloc push pop front s' ops)"
| "fifo_run malloc push pop front s (Pop # ops) = (case pop s of None \<Rightarrow> None
     | Some (s', x) \<Rightarrow> map_option (\<lambda>(t, xs). (t, x # xs)) (fifo_run malloc push pop front s' ops))"
| "fifo_run malloc push pop front s (Front # ops) = (case front s of None \<Rightarrow> None
     | Some x \<Rightarrow> map_option (\<lambda>(t, xs). (t, x # xs)) (fifo_run malloc push pop front s ops))"

fun fifo_spec :: "'d list \<Rightarrow> 'd fifo_op list \<Rightarrow> 'd list \<times> 'd option list" where
  "fifo_spec ds [] = (ds, [])"
| "fifo_spec ds (Push d # ops) = fifo_spec (ds @ [d]) ops"
| "fifo_spec ds (Pop # ops) =
     (case fifo_spec (tl ds) ops of (t, xs) \<Rightarrow> (t, (if ds = [] then None else Some (hd ds)) # xs))"
| "fifo_spec ds (Front # ops) =
     (case fifo_spec ds ops of (t, xs) \<Rightarrow> (t, (if ds = [] then None else Some (hd ds)) # xs))"

locale fifo =
  fixes R :: "'s \<Rightarrow> 'd list \<Rightarrow> bool"
    and used :: "'s \<Rightarrow> loc set"
    and push :: "loc \<Rightarrow> 'd \<Rightarrow> 's \<Rightarrow> 's option"
    and pop :: "'s \<Rightarrow> ('s \<times> 'd option) option"
    and front :: "'s \<Rightarrow> 'd option option"
  assumes used_finite: "R s ds \<Longrightarrow> finite (used s)"
    and push_R: "R s ds \<Longrightarrow> u \<notin> used s \<Longrightarrow> \<exists>s'. push u d s = Some s' \<and> R s' (ds @ [d])"
    and pop_R: "R s ds \<Longrightarrow> \<exists>s'. pop s = Some (s', if ds = [] then None else Some (hd ds)) \<and> R s' (tl ds)"
    and front_R: "R s ds \<Longrightarrow> front s = Some (if ds = [] then None else Some (hd ds))"
begin

lemma run_refines:
  assumes malloc: "\<And>s. finite (used s) \<Longrightarrow> malloc s \<notin> used s"
  shows "R s ds \<Longrightarrow> \<exists>s'. fifo_run malloc push pop front s ops = Some (s', snd (fifo_spec ds ops))
    \<and> R s' (fst (fifo_spec ds ops))"
proof (induction ops arbitrary: s ds)
  case Nil
  then show ?case by simp
next
  case (Cons op ops)
  show ?case
  proof (cases op)
    case (Push d)
    have "malloc s \<notin> used s"
      by (rule malloc [OF used_finite [OF Cons.prems]])
    then show ?thesis
      using push_R [OF Cons.prems, of "malloc s" d] Cons.IH by (fastforce simp: Push)
  next
    case Pop
    then obtain s' where s': "pop s = Some (s', if ds = [] then None else Some (hd ds))" "R s' (tl ds)"
      using pop_R [OF Cons.prems] by blast
    from Cons.IH [OF s'(2)] show ?thesis
      by (auto simp: Pop s'(1) split: prod.splits)
  next
    case Front
    from Cons.IH [OF Cons.prems] show ?thesis
      by (auto simp: Front front_R [OF Cons.prems] split: prod.splits)
  qed
qed

end

subsection \<open>The code's list satisfies it\<close>

definition list_rel :: "'d list_state \<Rightarrow> 'd list \<Rightarrow> bool" where
  "list_rel s ds \<longleftrightarrow> finite (dom (fst s)) \<and> list_wf s ds"

lemma list_push_dom: "list_push u d s = Some s' \<Longrightarrow> dom (fst s') \<subseteq> insert u (dom (fst s))"
  by (auto simp: list_push_def Let_def split: prod.splits option.splits if_splits)

lemma list_rel_push:
  assumes "list_rel s ds" and "u \<notin> dom (fst s)"
  shows "\<exists>s'. list_push u d s = Some s' \<and> list_rel s' (ds @ [d])"
proof -
  from assms obtain as where "list_at as s ds" and fin: "finite (dom (fst s))"
    by (auto simp: list_rel_def list_wf_def)
  then obtain s' where s': "list_push u d s = Some s'" "list_at (as @ [u]) s' (ds @ [d])"
    using list_at_push [of as s ds u d] assms(2) by blast
  then show ?thesis
    using fin list_push_dom [OF s'(1)] by (auto simp: list_rel_def list_wf_def intro: finite_subset)
qed

lemma list_rel_pop:
  assumes "list_rel s ds"
  shows "\<exists>s'. list_pop s = Some (s', if ds = [] then None else Some (hd ds)) \<and> list_rel s' (tl ds)"
    and "list_front s = Some (if ds = [] then None else Some (hd ds))"
proof -
  from assms obtain as where at: "list_at as s ds" and fin: "finite (dom (fst s))"
    by (auto simp: list_rel_def list_wf_def)
  have "(\<exists>s'. list_pop s = Some (s', if ds = [] then None else Some (hd ds)) \<and> list_rel s' (tl ds))
      \<and> list_front s = Some (if ds = [] then None else Some (hd ds))"
  proof (cases ds)
    case Nil
    then show ?thesis using list_at_pop_Nil [of as s] at assms by simp
  next
    case (Cons d ds')
    from list_at_pop_Cons [OF at [unfolded Cons]] show ?thesis
      using fin by (auto simp: Cons list_rel_def list_wf_def)
  qed
  then show "\<exists>s'. list_pop s = Some (s', if ds = [] then None else Some (hd ds)) \<and> list_rel s' (tl ds)"
    and "list_front s = Some (if ds = [] then None else Some (hd ds))"
    by blast+
qed

interpretation cl: fifo list_rel "\<lambda>s. dom (fst s)" list_push list_pop list_front
proof unfold_locales
  show "list_rel s ds \<Longrightarrow> finite (dom (fst s))" for s :: "'a list_state" and ds
    by (simp add: list_rel_def)
qed (blast intro: list_rel_push | erule list_rel_pop)+

lemma create_list_rel: "finite (dom h) \<Longrightarrow> list_rel (h, create_list) []"
  by (auto simp: list_rel_def list_wf_def list_at_def create_list_def intro: exI [of _ "[]"])

subsection \<open>Properties\<close>

text \<open>
  The linked list is a FIFO queue. For every allocator that returns unused addresses, every
  sequence of pushes, pops and fronts on a list just created in any store follows no dangling
  pointer and returns, call by call, what the queue of the abstract sequence returns; the size
  field is the length of that sequence.
\<close>

lemma list_is_fifo:
  assumes malloc: "\<And>h. finite (dom h) \<Longrightarrow> malloc h \<notin> dom h" and "finite (dom h)"
  shows "\<exists>s'. fifo_run (\<lambda>s. malloc (fst s)) list_push list_pop list_front (h, create_list) ops
      = Some (s', snd (fifo_spec [] ops)) \<and> list_size s' = length (fst (fifo_spec [] ops))"
proof -
  obtain s' where s': "fifo_run (\<lambda>s. malloc (fst s)) list_push list_pop list_front (h, create_list) ops
      = Some (s', snd (fifo_spec [] ops))" "list_rel s' (fst (fifo_spec [] ops))"
    using cl.run_refines [OF malloc create_list_rel [OF assms(2)], of ops] by blast
  then show ?thesis
    by (auto simp: list_rel_def list_wf_def list_at_def list_size_def)
qed

lemma Max_fresh: "finite A \<Longrightarrow> Suc (Max (insert 0 A)) \<notin> A"
  by (metis Max_ge finite_insert insertI2 not_less_eq_eq order_refl)

lemma list_is_fifo_witness:
  "\<exists>s'. fifo_run (\<lambda>s. Suc (Max (insert 0 (dom (fst s))))) list_push list_pop list_front (Map.empty, create_list)
      [Push ''a'', Push ''b'', Pop, Front, Pop, Pop]
      = Some (s', snd (fifo_spec [] [Push ''a'', Push ''b'', Pop, Front, Pop, Pop]))
    \<and> list_size s' = length (fst (fifo_spec [] [Push ''a'', Push ''b'', Pop, Front, Pop, Pop]))"
  by (rule list_is_fifo [where malloc = "\<lambda>h. Suc (Max (insert 0 (dom h)))"]) (simp_all add: Max_fresh)

text \<open>
  Destroying a list frees exactly its own units. From any list in any store the loop ends,
  dereferences no freed or foreign cell, and leaves the other cells of the store as they were.
\<close>

lemma destroy_list_frees:
  assumes "list_at as (h, l) ds"
  shows "destroy_list (h, l) = Some (h |` (- set as))"
  using assms by (auto simp: destroy_list_def list_at_def intro: destroy_loop_frees)

lemma destroy_list_frees_witness:
  "destroy_list ([5 \<mapsto> \<lparr>unit_next = Some 9, pdata = ''x''\<rparr>, 9 \<mapsto> \<lparr>unit_next = None, pdata = ''y''\<rparr>,
       7 \<mapsto> \<lparr>unit_next = Some 5, pdata = ''z''\<rparr>], \<lparr>head = Some 5, tailer = Some 9, lsize = 2\<rparr>)
   = Some ([5 \<mapsto> \<lparr>unit_next = Some 9, pdata = ''x''\<rparr>, 9 \<mapsto> \<lparr>unit_next = None, pdata = ''y''\<rparr>,
       7 \<mapsto> \<lparr>unit_next = Some 5, pdata = ''z''\<rparr>] |` (- set [5, 9]))"
  by (rule destroy_list_frees [where ds = "[''x'', ''y'']"]) (simp add: list_at_def)

end
