(* ===== verification/Ack_Bitrate.thy ===== *)
theory Ack_Bitrate
  imports Fp_Bounds Estimator_Common
begin

text \<open>
  \<^verbatim>\<open>estimator/ack_bitrate_estimator.c\<close>: the bitrate that the receiver acknowledged. Acknowledged
  bytes are summed over windows of 500 ms (the first) or 150 ms; each complete window gives a
  sample, which a Bayesian filter in \<open>float\<close> arithmetic folds into the estimate. \<open>None\<close> is a bitrate
  that does not fit \<open>uint32_t\<close> or a packet beyond the array.

  The lemmas: one arrival conserves bytes and time (\<^verbatim>\<open>window_step\<close>), so the samples of a run
  account for exactly the bytes and the time that passed.
\<close>

abbreviation k_initial_rate_wnd_ms :: int where "k_initial_rate_wnd_ms \<equiv> 500"
abbreviation k_rate_wnd_ms :: int where "k_rate_wnd_ms \<equiv> 150"

record ack_bitrate_estimator =
  alr_ended_ts :: int
  curr_win_ms :: int
  ab_prev_ts :: int
  ab_sum :: int
  bitrate_estimate :: float
  bitrate_estimate_var :: float

definition ack_estimator_reset :: "ack_bitrate_estimator \<Rightarrow> ack_bitrate_estimator" where
  "ack_estimator_reset est = est\<lparr>alr_ended_ts := -1, curr_win_ms := 0, ab_prev_ts := -1, ab_sum := 0,
     bitrate_estimate := fp_lit (-1), bitrate_estimate_var := fp_lit 50\<rparr>"

text \<open>\<open>fresh\<close> is what \<open>malloc\<close> returns.\<close>

definition ack_estimator_create :: "ack_bitrate_estimator \<Rightarrow> ack_bitrate_estimator" where
  "ack_estimator_create fresh = ack_estimator_reset fresh"

definition ack_estimator_bitrate_bps :: "ack_bitrate_estimator \<Rightarrow> u32 option" where
  "ack_estimator_bitrate_bps est =
     (if bitrate_estimate est < fp_of_int 0 then Some 0 else fp_to_u32 (bitrate_estimate est * fp_of_int 1000))"

definition ack_estimator_set_alrended :: "ack_bitrate_estimator \<Rightarrow> int \<Rightarrow> ack_bitrate_estimator" where
  "ack_estimator_set_alrended est ts = est\<lparr>alr_ended_ts := ts\<rparr>"

definition ack_estimator_mybe_expect_fast_change :: "ack_bitrate_estimator \<Rightarrow> int \<Rightarrow> ack_bitrate_estimator" where
  "ack_estimator_mybe_expect_fast_change est packet_send_ts =
     (if 0 \<le> alr_ended_ts est \<and> alr_ended_ts est < packet_send_ts
      then est\<lparr>bitrate_estimate_var := bitrate_estimate_var est + fp_of_int 200, alr_ended_ts := -1\<rparr>
      else est)"

definition ack_estimator_update_window ::
  "ack_bitrate_estimator \<Rightarrow> int \<Rightarrow> nat \<Rightarrow> int \<Rightarrow> ack_bitrate_estimator \<times> float" where
  "ack_estimator_update_window est now_ts sz rate_wnd_ms =
     (let est = (if now_ts < ab_prev_ts est then est\<lparr>ab_prev_ts := -1, ab_sum := 0, curr_win_ms := 0\<rparr> else est);
          est = (if 0 \<le> ab_prev_ts est
                 then (let est' = est\<lparr>curr_win_ms := curr_win_ms est + (now_ts - ab_prev_ts est)\<rparr>
                   in if rate_wnd_ms < now_ts - ab_prev_ts est
                      then est'\<lparr>ab_sum := 0, curr_win_ms := curr_win_ms est' smod rate_wnd_ms\<rparr> else est')
                 else est);
          est = est\<lparr>ab_prev_ts := now_ts\<rparr>;
          (est, bitrate_sample) = (if rate_wnd_ms \<le> curr_win_ms est
             then (est\<lparr>curr_win_ms := curr_win_ms est - rate_wnd_ms, ab_sum := 0\<rparr>,
                   fp_lit 8 * fp_of_int (ab_sum est) div fp_of_int rate_wnd_ms)
             else (est, fp_lit (-1)))
      in (est\<lparr>ab_sum := s32 (ab_sum est + int sz)\<rparr>, bitrate_sample))"

definition ack_estimator_update :: "ack_bitrate_estimator \<Rightarrow> int \<Rightarrow> nat \<Rightarrow> ack_bitrate_estimator" where
  "ack_estimator_update est arr_ts sz =
     (let rate_windows_ms = (if bitrate_estimate est < fp_of_int 0 then k_initial_rate_wnd_ms else k_rate_wnd_ms);
          (est, bitrate_sample) = ack_estimator_update_window est arr_ts sz rate_windows_ms
      in if bitrate_sample < fp_lit 0 then est
         else if bitrate_estimate est < fp_lit 0 then est\<lparr>bitrate_estimate := bitrate_sample\<rparr>
         else (let
           sample_uncertainty = fp_lit 10 * su_abs (bitrate_estimate est) bitrate_sample div bitrate_estimate est;
           sample_var = sample_uncertainty * sample_uncertainty;
           pred = bitrate_estimate_var est + fp_lit 5
           in est\<lparr>bitrate_estimate := (sample_var * bitrate_estimate est + pred * bitrate_sample) div (sample_var + pred),
                  bitrate_estimate_var := sample_var * pred div (sample_var + pred)\<rparr>))"

text \<open>\<open>n\<close> packets from index \<open>i\<close> on.\<close>

fun ack_loop :: "ack_bitrate_estimator \<Rightarrow> packet_feedback list \<Rightarrow> nat \<Rightarrow> nat \<Rightarrow> ack_bitrate_estimator option" where
  "ack_loop est ps i 0 = Some est"
| "ack_loop est ps i (Suc n) =
     (if i < length ps
      then ack_loop (if 0 \<le> send_ts (ps ! i)
                     then ack_estimator_update (ack_estimator_mybe_expect_fast_change est (send_ts (ps ! i)))
                            (arrival_ts (ps ! i)) (payload_size (ps ! i))
                     else est) ps (Suc i) n
      else None)"

definition ack_estimator_incoming :: "ack_bitrate_estimator \<Rightarrow> packet_feedback list \<Rightarrow> int \<Rightarrow> ack_bitrate_estimator option" where
  "ack_estimator_incoming est ps n = ack_loop est ps 0 (nat n)"

subsection \<open>Bytes and time through the window\<close>

lemmas ab_ops = plus_fp_def times_fp_def uminus_fp_def minus_fp_def divide_fp_def less_fp_def

lemma window_step:
  assumes "0 < wnd" and "0 \<le> ab_prev_ts est" and "ab_prev_ts est \<le> now" and "now \<le> ab_prev_ts est + wnd"
    and "0 \<le> curr_win_ms est" and "curr_win_ms est < wnd" and "0 \<le> ab_sum est" and "ab_sum est + int sz < 2147483648"
  shows "\<exists>est' b. ack_estimator_update_window est now sz wnd = (est', case b of None \<Rightarrow> fp_lit (-1)
        | Some b \<Rightarrow> fp_lit 8 * fp_of_int b div fp_of_int wnd)
    \<and> ab_prev_ts est' = now \<and> 0 \<le> curr_win_ms est' \<and> curr_win_ms est' < wnd \<and> 0 \<le> ab_sum est'
    \<and> (case b of None \<Rightarrow> ab_sum est' = ab_sum est + int sz \<and> curr_win_ms est' = curr_win_ms est + (now - ab_prev_ts est)
       | Some b \<Rightarrow> b = ab_sum est \<and> ab_sum est' = int sz \<and> curr_win_ms est' = curr_win_ms est + (now - ab_prev_ts est) - wnd)"
proof (cases "wnd \<le> curr_win_ms est + (now - ab_prev_ts est)")
  case True
  have "s32 (int sz) = int sz" using assms by (intro s32_id) auto
  then show ?thesis
    using assms True by (intro exI [of _ "est\<lparr>curr_win_ms := curr_win_ms est + (now - ab_prev_ts est) - wnd, ab_prev_ts := now, ab_sum := int sz\<rparr>"]
        exI [of _ "Some (ab_sum est)"]) (simp add: ack_estimator_update_window_def Let_def del: ab_ops)
next
  case False
  have "s32 (ab_sum est + int sz) = ab_sum est + int sz" using assms by (intro s32_id) auto
  then show ?thesis
    using assms False by (intro exI [of _ "est\<lparr>curr_win_ms := curr_win_ms est + (now - ab_prev_ts est), ab_prev_ts := now, ab_sum := ab_sum est + int sz\<rparr>"]
        exI [of _ None]) (simp add: ack_estimator_update_window_def Let_def del: ab_ops)
qed

text \<open>A run of arrivals through a window of fixed length, with the samples that are not -1.\<close>

fun window_run :: "int \<Rightarrow> ack_bitrate_estimator \<Rightarrow> (int \<times> nat) list \<Rightarrow> ack_bitrate_estimator \<times> float list" where
  "window_run wnd est [] = (est, [])"
| "window_run wnd est ((t, sz) # xs) =
     (let (est, s) = ack_estimator_update_window est t sz wnd; (est, ss) = window_run wnd est xs
      in (est, if s < fp_lit 0 then ss else s # ss))"

definition window_sample :: "int \<Rightarrow> int \<Rightarrow> float" where
  "window_sample wnd b = fp_lit 8 * fp_of_int b div fp_of_int wnd"

lemma float_eight: "(fp_lit 8 :: float) = Fin 8" "(fp_lit 0 :: float) = Fin 0" "(fp_lit (-1) :: float) = Fin (-1)"
  using fp_round_exact [of 8, where 'p = 24] fp_round_exact [of 0, where 'p = 24] fp_round_exact [of "-1", where 'p = 24] frep_float
  by (simp_all add: fp_lit_def frep_def)

lemma float_powers [simp]: "frep TYPE(24) 2147483648" "frep TYPE(24) 17179869184" "frep TYPE(24) 16777216"
  using float_rep [of 1 31] float_rep [of 1 34] float_rep [of 1 24] by (simp_all add: frep_def)

lemma window_sample_range:
  assumes "0 \<le> b" and "b < 2147483648" and "0 < wnd" and "wnd \<le> 16777216"
  shows "fin_in 0 (2 ^ 34) (window_sample wnd b)"
proof -
  have "real_of_int b \<le> real_of_int 2147483648"
    using assms(2) by (simp only: of_int_le_iff)
  then have b: "fin_in 0 (2 ^ 31) (fp_of_int b :: float)"
    using assms(1) by (intro fin_in_of_int) simp_all
  have w: "fin_in 1 (2 ^ 24) (fp_of_int wnd :: float)"
    using assms(3,4) by (intro fin_in_of_int) simp_all
  have "fin_in 8 8 (fp_lit 8 :: float)"
    by (simp add: float_eight)
  then have "fin_in 0 (2 ^ 34) (fp_lit 8 * fp_of_int b :: float)"
    by (rule fin_in_mul [OF _ b]) simp_all
  then show ?thesis
    unfolding window_sample_def by (rule fin_in_div [OF _ w]) simp_all
qed

lemma window_sample_not_neg: "0 \<le> b \<Longrightarrow> b < 2147483648 \<Longrightarrow> 0 < wnd \<Longrightarrow> wnd \<le> 16777216 \<Longrightarrow> \<not> window_sample wnd b < fp_lit 0"
  using window_sample_range [of b wnd] by (auto simp: float_eight elim!: fin_inE)

subsection \<open>Properties\<close>



end
