(* ===== verification/Aimd.thy ===== *)
theory Aimd
  imports Fp_Bounds Estimator_Common
begin

text \<open>
  \<^verbatim>\<open>estimator/aimd_rate_control.c\<close>: additive increase, multiplicative decrease of the estimated
  rate. The state machine (hold, increase, decrease) is driven by the detector's link state. \<open>None\<close> is a
  floating point value that does not fit the integer type it is converted to, or a division by zero.
  The log lines of the source change no state and are left out.

  The lemmas: intervals for each formula (\<^verbatim>\<open>multiplicative_bound\<close>, \<^verbatim>\<open>near_max_bound\<close>,
  \<^verbatim>\<open>additive_bound\<close>), the invariant \<open>aimd_wf\<close> (a region other than \<open>kRcMaxUnknown\<close> has an average
  maximum, the state is never left in \<open>kRcDecrease\<close>) and that an update keeps it.
\<close>

abbreviation DEFAULT_RTT :: u32 where "DEFAULT_RTT \<equiv> 200"
abbreviation DEFAULT_FEELBACK_SIZE :: int where "DEFAULT_FEELBACK_SIZE \<equiv> 64"
abbreviation MAX_FEELBACK_INTERVAL :: int where "MAX_FEELBACK_INTERVAL \<equiv> 1000"
abbreviation MIN_FELLBACK_INTERVAL :: int where "MIN_FELLBACK_INTERVAL \<equiv> 200"
abbreviation k_initialization_ts :: int where "k_initialization_ts \<equiv> 5000"

record rate_control_input =
  in_state :: bandwidth_usage
  incoming_bitrate :: u32
  noise_var :: double

record aimd_rate_controller =
  min_rate :: u32
  max_rate :: u32
  curr_rate :: u32
  avg_max_bitrate_kbps :: float
  var_max_bitrate_kbps :: float
  ai_state :: rate_control_state
  region :: rate_control_region
  time_last_bitrate_change :: int
  time_first_incoming_estimate :: int
  ai_rtt :: u32
  inited :: int
  in_experiment :: int
  beta :: float
  last_decrease :: int

definition aimd_create :: "u32 \<Rightarrow> u32 \<Rightarrow> aimd_rate_controller" where
  "aimd_create mx mn = \<lparr>min_rate = mn, max_rate = mx, curr_rate = 0, avg_max_bitrate_kbps = fp_lit (-1),
     var_max_bitrate_kbps = fp_lit 0.4, ai_state = kRcHold, region = kRcMaxUnknown, time_last_bitrate_change = -1,
     time_first_incoming_estimate = -1, ai_rtt = DEFAULT_RTT, inited = -1, in_experiment = 0, beta = fp_lit 0.85, last_decrease = 0\<rparr>"

definition aimd_set_start_bitrate :: "aimd_rate_controller \<Rightarrow> u32 \<Rightarrow> aimd_rate_controller" where
  "aimd_set_start_bitrate aimd bitrate = aimd\<lparr>curr_rate := bitrate, inited := 0\<rparr>"

definition aimd_get_feelback_interval :: "aimd_rate_controller \<Rightarrow> int option" where
  "aimd_get_feelback_interval aimd =
     map_option (\<lambda>interval. su_max (su_min MAX_FEELBACK_INTERVAL interval) MIN_FELLBACK_INTERVAL)
       (fp_to_s64 (fp_of_int (DEFAULT_FEELBACK_SIZE * 8 * 1000) div
          ((fp_lit 0.05 * fp_of_int (uint (curr_rate aimd))) + fp_lit 0.5 :: double)))"

definition aimd_time_reduce_further :: "aimd_rate_controller \<Rightarrow> int \<Rightarrow> u32 \<Rightarrow> int" where
  "aimd_time_reduce_further aimd cur_ts incoming_rate =
     (let reduce_interval = uint (su_max (su_min 200 (ai_rtt aimd)) 10) in
      if reduce_interval \<le> cur_ts - time_last_bitrate_change aimd then 0
      else if inited aimd = 0 \<and> incoming_rate < curr_rate aimd div 2 then 0
      else -1)"

definition aimd_set_rtt :: "aimd_rate_controller \<Rightarrow> u32 \<Rightarrow> aimd_rate_controller" where
  "aimd_set_rtt aimd rtt = aimd\<lparr>ai_rtt := rtt\<rparr>"

definition aimd_set_min_bitrate :: "aimd_rate_controller \<Rightarrow> u32 \<Rightarrow> aimd_rate_controller" where
  "aimd_set_min_bitrate aimd bitrate =
     (let aimd = aimd\<lparr>min_rate := bitrate\<rparr> in aimd\<lparr>curr_rate := su_max (min_rate aimd) (curr_rate aimd)\<rparr>)"

definition aimd_set_max_bitrate :: "aimd_rate_controller \<Rightarrow> u32 \<Rightarrow> aimd_rate_controller" where
  "aimd_set_max_bitrate aimd bitrate =
     (let aimd = aimd\<lparr>max_rate := bitrate\<rparr> in aimd\<lparr>curr_rate := su_min (max_rate aimd) (curr_rate aimd)\<rparr>)"

definition clamp_bitrate :: "aimd_rate_controller \<Rightarrow> u32 \<Rightarrow> u32 \<Rightarrow> u32" where
  "clamp_bitrate aimd new_bitrate coming_rate =
     (let max_bitrate_bps = 3 * coming_rate div 2 + 10000;
          new_bitrate = (if curr_rate aimd < new_bitrate \<and> max_bitrate_bps < new_bitrate
                         then su_max (curr_rate aimd) max_bitrate_bps else new_bitrate)
      in su_min (su_max new_bitrate (min_rate aimd)) (max_rate aimd))"

definition multiplicative_rate_increase :: "int \<Rightarrow> int \<Rightarrow> u32 \<Rightarrow> u32 option" where
  "multiplicative_rate_increase cur_ts last_ts curr_bitrate =
     (let alpha = (if -1 < last_ts
                   then (let ts_since = su_min (word_of_int (cur_ts - last_ts) :: u32) 1000
                     in fp_pow (fp_lit 1.08) (fp_of_int (uint ts_since) div fp_lit 1000))
                   else fp_lit 1.08 :: double)
      in fp_to_u32 (su_max (fp_of_int (uint curr_bitrate) * (alpha - fp_lit 1)) (fp_lit 1000)))"

definition aimd_get_near_max_inc_rate :: "aimd_rate_controller \<Rightarrow> int option" where
  "aimd_get_near_max_inc_rate aimd =
     (let bits_per_frame = fp_of_int (uint (curr_rate aimd)) div (fp_lit 30 :: double);
          packets_per_frame = fp_ceil (bits_per_frame div (fp_lit 8 * fp_lit 1000));
          avg_packet_size_bits = bits_per_frame div packets_per_frame;
          response_time = (ai_rtt aimd + 100) * 2
      in fp_to_s32 (su_max (fp_of_int 4000) ((avg_packet_size_bits * fp_of_int 1000) div fp_of_int (uint response_time))))"

definition additive_rate_increase :: "aimd_rate_controller \<Rightarrow> int \<Rightarrow> int \<Rightarrow> u32 option" where
  "additive_rate_increase aimd cur_ts last_ts =
     (case aimd_get_near_max_inc_rate aimd of None \<Rightarrow> None
      | Some inc \<Rightarrow> fp_to_u32 (fp_of_int ((cur_ts - last_ts) * inc) div (fp_lit 1000 :: double)))"

definition update_max_bitrate_estimate :: "aimd_rate_controller \<Rightarrow> float \<Rightarrow> aimd_rate_controller" where
  "update_max_bitrate_estimate aimd kbps =
     (let alpha = fp_lit 0.05;
          aimd = (if fp_eq (avg_max_bitrate_kbps aimd) (fp_lit (-1)) then aimd\<lparr>avg_max_bitrate_kbps := kbps\<rparr>
                  else aimd\<lparr>avg_max_bitrate_kbps := (fp_of_int 1 - alpha) * avg_max_bitrate_kbps aimd + alpha * kbps\<rparr>);
          norm = su_max (avg_max_bitrate_kbps aimd) (fp_lit 1);
          v = (fp_of_int 1 - alpha) * var_max_bitrate_kbps aimd
              + alpha * (avg_max_bitrate_kbps aimd - kbps) * (avg_max_bitrate_kbps aimd - kbps) div norm;
          v = (if v < fp_lit 0.4 then fp_lit 0.4 else v);
          v = (if fp_lit 2.5 < v then fp_lit 2.5 else v)
      in aimd\<lparr>var_max_bitrate_kbps := v\<rparr>)"

definition aimd_change_region :: "aimd_rate_controller \<Rightarrow> rate_control_region \<Rightarrow> aimd_rate_controller" where
  "aimd_change_region aimd reg = aimd\<lparr>region := reg\<rparr>"

definition aimd_change_state :: "aimd_rate_controller \<Rightarrow> rate_control_input \<Rightarrow> int \<Rightarrow> aimd_rate_controller" where
  "aimd_change_state aimd input cur_ts =
     (case in_state input of
        kBwNormal \<Rightarrow> if ai_state aimd = kRcHold then aimd\<lparr>time_last_bitrate_change := cur_ts, ai_state := kRcIncrease\<rparr> else aimd
      | kBwOverusing \<Rightarrow> if ai_state aimd \<noteq> kRcDecrease then aimd\<lparr>ai_state := kRcDecrease\<rparr> else aimd
      | kBwUnderusing \<Rightarrow> aimd\<lparr>ai_state := kRcHold\<rparr>)"

text \<open>The case \<open>kRcIncrease\<close> of \<open>aimd_change_bitrate\<close>; \<open>kb\<close> is \<open>incoming_kbitrate\<close>, \<open>mk\<close> is \<open>max_kbitrate\<close>.\<close>

definition aimd_increase :: "aimd_rate_controller \<Rightarrow> u32 \<Rightarrow> float \<Rightarrow> float \<Rightarrow> int \<Rightarrow> (aimd_rate_controller \<times> u32) option" where
  "aimd_increase aimd new_bitrate kb mk cur_ts =
     (let aimd = (if fp_of_int 0 \<le> avg_max_bitrate_kbps aimd \<and> avg_max_bitrate_kbps aimd + fp_of_int 3 * mk < kb
                  then (aimd_change_region aimd kRcMaxUnknown)\<lparr>avg_max_bitrate_kbps := fp_lit (-1)\<rparr> else aimd)
      in map_option (\<lambda>inc. (aimd\<lparr>time_last_bitrate_change := cur_ts\<rparr>, new_bitrate + inc))
           (if region aimd = kRcNearMax then additive_rate_increase aimd cur_ts (time_last_bitrate_change aimd)
            else multiplicative_rate_increase cur_ts (time_last_bitrate_change aimd) new_bitrate))"

text \<open>The new rate of the case \<open>kRcDecrease\<close>, and that case.\<close>

definition decrease_rate :: "aimd_rate_controller \<Rightarrow> u32 \<Rightarrow> u32 option" where
  "decrease_rate aimd incoming =
     (case fp_to_u32 (fp_conv (beta aimd * fp_of_int (uint incoming)) + (fp_lit 0.5 :: double)) of None \<Rightarrow> None
      | Some new_bitrate \<Rightarrow>
          if curr_rate aimd < new_bitrate
          then map_option (\<lambda>n. su_min n (curr_rate aimd))
                 (if region aimd \<noteq> kRcMaxUnknown
                  then fp_to_u32 (avg_max_bitrate_kbps aimd * fp_of_int 1000 * beta aimd + fp_lit 0.5)
                  else Some new_bitrate)
          else Some new_bitrate)"

definition aimd_decrease :: "aimd_rate_controller \<Rightarrow> u32 \<Rightarrow> float \<Rightarrow> float \<Rightarrow> int \<Rightarrow> (aimd_rate_controller \<times> u32) option" where
  "aimd_decrease aimd incoming kb mk cur_ts =
     (case decrease_rate aimd incoming of None \<Rightarrow> None
      | Some new_bitrate \<Rightarrow>
         (let aimd = aimd_change_region aimd kRcNearMax;
              aimd = (if inited aimd = 0 \<and> incoming < curr_rate aimd
                      then aimd\<lparr>last_decrease := s32 (uint (curr_rate aimd - new_bitrate))\<rparr> else aimd);
              aimd = (if kb < avg_max_bitrate_kbps aimd - fp_of_int 3 * mk then aimd\<lparr>avg_max_bitrate_kbps := fp_lit (-1)\<rparr> else aimd);
              aimd = update_max_bitrate_estimate (aimd\<lparr>inited := 0\<rparr>) kb
          in Some (aimd\<lparr>ai_state := kRcHold, time_last_bitrate_change := cur_ts\<rparr>, new_bitrate)))"

definition aimd_change_bitrate ::
  "aimd_rate_controller \<Rightarrow> u32 \<Rightarrow> rate_control_input \<Rightarrow> int \<Rightarrow> (aimd_rate_controller \<times> rate_control_input \<times> u32) option" where
  "aimd_change_bitrate aimd new_bitrate input cur_ts =
     (let input = (if incoming_bitrate input = 0 then input\<lparr>incoming_bitrate := curr_rate aimd\<rparr> else input) in
      if inited aimd = -1 \<and> in_state input = kBwOverusing then Some (aimd, input, curr_rate aimd)
      else (let
        aimd = aimd_change_state aimd input cur_ts;
        kb = fp_of_int (uint (incoming_bitrate input)) div (fp_lit 1000 :: float);
        mk = fp_conv (fp_sqrt (fp_conv (avg_max_bitrate_kbps aimd * var_max_bitrate_kbps aimd) :: double))
        in map_option (\<lambda>(aimd, n). (aimd, input, clamp_bitrate aimd n (incoming_bitrate input)))
          (case ai_state aimd of
             kRcHold \<Rightarrow> Some (aimd, new_bitrate)
           | kRcIncrease \<Rightarrow> aimd_increase aimd new_bitrate kb mk cur_ts
           | kRcDecrease \<Rightarrow> aimd_decrease aimd (incoming_bitrate input) kb mk cur_ts)))"

definition aimd_start :: "aimd_rate_controller \<Rightarrow> rate_control_input \<Rightarrow> int \<Rightarrow> aimd_rate_controller" where
  "aimd_start aimd input cur_ts =
     (if inited aimd = -1
      then (if time_first_incoming_estimate aimd < 0
            then (if 0 < incoming_bitrate input then aimd\<lparr>time_first_incoming_estimate := cur_ts\<rparr> else aimd)
            else if k_initialization_ts < cur_ts - time_first_incoming_estimate aimd \<and> 0 < incoming_bitrate input
            then aimd\<lparr>curr_rate := incoming_bitrate input, inited := 0\<rparr> else aimd)
      else aimd)"

definition aimd_update :: "aimd_rate_controller \<Rightarrow> rate_control_input \<Rightarrow> int \<Rightarrow> (aimd_rate_controller \<times> rate_control_input \<times> u32) option" where
  "aimd_update aimd input cur_ts =
     (let aimd = aimd_start aimd input cur_ts
      in map_option (\<lambda>(aimd, input, r). (aimd\<lparr>curr_rate := r\<rparr>, input, r))
           (aimd_change_bitrate aimd (curr_rate aimd) input cur_ts))"

definition aimd_set_estimate :: "aimd_rate_controller \<Rightarrow> int \<Rightarrow> int \<Rightarrow> aimd_rate_controller" where
  "aimd_set_estimate aimd bitrate cur_ts =
     (let aimd = aimd\<lparr>inited := 0\<rparr>
      in aimd\<lparr>curr_rate := clamp_bitrate aimd (word_of_int bitrate) (word_of_int bitrate), time_last_bitrate_change := cur_ts\<rparr>)"

definition aimd_get_expected_bandwidth_period :: "aimd_rate_controller \<Rightarrow> int option" where
  "aimd_get_expected_bandwidth_period aimd =
     (case aimd_get_near_max_inc_rate aimd of None \<Rightarrow> None
      | Some increase_rate \<Rightarrow>
          if last_decrease aimd = 0 then Some 3000
          else if increase_rate = 0 then None
          else Some (s32 (su_min 50000 (su_max ((1000 * last_decrease aimd) sdiv increase_rate) 2000))))"

subsection \<open>The formulas stay in range\<close>

lemmas ai_ops = plus_fp_def times_fp_def uminus_fp_def minus_fp_def divide_fp_def less_fp_def less_eq_fp_def

lemma u32_in: "fin_in 0 4294967295 (fp_of_int (uint (w :: u32)) :: double)"
proof -
  have "uint w \<le> 4294967295" using uint_u32_range(1) [of w] by linarith
  from fin_in_of_int_range [OF uint_u32_range(2) this, where 'p = 53] show ?thesis by simp
qed

lemma u32_pos_in: "w \<noteq> 0 \<Longrightarrow> fin_in 1 4294967295 (fp_of_int (uint (w :: u32)) :: double)"
proof -
  assume "w \<noteq> 0"
  then have "1 \<le> uint w"
    using uint_0_iff [of w] uint_u32_range(2) [of w] by linarith
  moreover have "uint w \<le> 4294967295" using uint_u32_range(1) [of w] by linarith
  ultimately show ?thesis
    using fin_in_of_int_range [of 1 "uint w" 4294967295, where 'p = 53] by simp
qed

lemma multiplicative_bound: "\<exists>w. multiplicative_rate_increase cur lst c = Some w"
proof -
  define t where "t = (su_min (word_of_int (cur - lst) :: u32) 1000)"
  have "uint t \<le> uint (1000 :: u32)"
    unfolding word_le_def [symmetric] t_def by simp
  then have ts: "fin_in 0 1000 (fp_of_int (uint t) :: double)"
    using fin_in_of_int_range [of 0 "uint t" 1000, where 'p = 53] by simp
  have l: "fin_in 1000 1000 (fp_lit 1000 :: double)" "fin_in 1 2 (fp_lit 1.08 :: double)" "fin_in 1 1 (fp_lit 1 :: double)"
    by (rule fin_in_lit; simp)+
  have y: "fin_in 0 1 (fp_of_int (uint t) div fp_lit 1000 :: double)"
    by (rule fin_in_div [OF ts l(1)]) simp_all
  have "fin_in 1 2 (fp_pow (fp_lit 1.08) (fp_of_int (uint t) div fp_lit 1000) :: double)"
    by (rule fin_in_pow [OF l(2) y]) simp_all
  then have a: "fin_in 1 2 (if -1 < lst then fp_pow (fp_lit 1.08) (fp_of_int (uint t) div fp_lit 1000) else fp_lit 1.08 :: double)"
    using l(2) by simp
  define alpha where "alpha = (if -1 < lst then fp_pow (fp_lit 1.08) (fp_of_int (uint t) div fp_lit 1000) else fp_lit 1.08 :: double)"
  have "fin_in 0 1 (alpha - fp_lit 1)"
    by (rule fin_in_sub [OF a [folded alpha_def] l(3)]) simp_all
  then have "fin_in 0 4294967295 (fp_of_int (uint c) * (alpha - fp_lit 1))"
    by (rule fin_in_mul [OF u32_in]) simp_all
  moreover have "fin_in 0 4294967295 (fp_lit 1000 :: double)"
    using l(1) by (rule fin_in_weaken) simp_all
  ultimately have "fin_in 0 4294967295 (su_max (fp_of_int (uint c) * (alpha - fp_lit 1)) (fp_lit 1000))"
    by (rule fin_in_su_max)
  from fin_in_to_u32 [OF this] show ?thesis
    unfolding multiplicative_rate_increase_def Let_def t_def [symmetric] alpha_def [symmetric] by auto
qed

text \<open>Packets of 8000 bits: the average packet size stays below 16000 bits whatever the rate.\<close>

lemma near_max_bound:
  assumes "curr_rate a \<noteq> 0" and "ai_rtt a \<le> 1000000"
  shows "\<exists>i. aimd_get_near_max_inc_rate a = Some i \<and> 4000 \<le> i \<and> i \<le> 80000"
proof -
  have l: "fin_in 30 30 (fp_lit 30 :: double)" "fin_in 8 8 (fp_lit 8 :: double)" "fin_in 1000 1000 (fp_lit 1000 :: double)"
    by (rule fin_in_lit; simp)+
  have "fin_in (1 / 32) 4294967295 (fp_of_int (uint (curr_rate a)) div (fp_lit 30 :: double))"
    by (rule fin_in_div [OF u32_pos_in [OF assms(1)] l(1)]) simp_all
  then obtain B where B: "fp_of_int (uint (curr_rate a)) div (fp_lit 30 :: double) = Fin B" "1 / 32 \<le> B" "B \<le> 4294967295"
    by (auto elim!: fin_inE)
  have "fin_in 8000 8000 (fp_lit 8 * fp_lit 1000 :: double)"
    by (rule fin_in_mul [OF l(2,3)]) simp_all
  then have k: "fp_lit 8 * fp_lit 1000 = (Fin 8000 :: double)"
    by (auto elim!: fin_inE)
  obtain q where q: "(fp_round (B / 8000) :: double) = Fin q" "B / 8000 / 2 \<le> q"
    using fp_round_half_mid [of "B / 8000"] B(2,3) by auto
  have qpos: "0 < q" using q(2) B(2) by linarith
  define p where "p = real_of_int \<lceil>q\<rceil>"
  have p: "q \<le> p" "1 \<le> p"
    using qpos by (simp_all add: p_def)
  have pk: "fp_ceil (Fin B div (fp_lit 8 * fp_lit 1000)) = (Fin p :: double)"
    unfolding k using q(1) by (simp add: p_def)
  have "B / p \<le> 16000"
  proof -
    have "B \<le> 16000 * q" using q(2) by linarith
    also have "\<dots> \<le> 16000 * p" using p(1) by simp
    finally show ?thesis using p(2) by (simp add: divide_le_eq)
  qed
  moreover have "0 \<le> B / p" using B(2) p(2) by simp
  ultimately have "fin_in 0 16000 (Fin B div Fin p :: double)"
    using p(2) by (simp add: fin_in_round)
  moreover have "fin_in 1000 1000 (fp_of_int 1000 :: double)" by (rule fin_in_of_int) simp_all
  ultimately have n: "fin_in 0 16000000 (Fin B div Fin p * fp_of_int 1000 :: double)"
    by (rule fin_in_mul) simp_all
  have r: "uint ((ai_rtt a + 100) * 2) = (uint (ai_rtt a) + 100) * 2"
  proof -
    have "uint (ai_rtt a) \<le> 1000000" using assms(2) by (simp add: word_le_def)
    then show ?thesis by (simp add: uint_word_ariths take_bit_eq_mod)
  qed
  have "uint (ai_rtt a) \<le> 1000000" using assms(2) by (simp add: word_le_def)
  then have "200 \<le> (uint (ai_rtt a) + 100) * 2" "(uint (ai_rtt a) + 100) * 2 \<le> 2000200"
    using uint_u32_range(2) [of "ai_rtt a"] by (simp_all add: distrib_right)
  then have "fin_in 200 2000200 (fp_of_int (uint ((ai_rtt a + 100) * 2)) :: double)"
    unfolding r using fin_in_of_int_range [of 200 "(uint (ai_rtt a) + 100) * 2" 2000200, where 'p = 53] by simp
  then have x: "fin_in 0 80000 (Fin B div Fin p * fp_of_int 1000 div fp_of_int (uint ((ai_rtt a + 100) * 2)) :: double)"
    by (rule fin_in_div [OF n]) simp_all
  have "fin_in 4000 4000 (fp_of_int 4000 :: double)" by (rule fin_in_of_int) simp_all
  then have "fin_in 4000 80000 (su_max (fp_of_int 4000) (Fin B div Fin p * fp_of_int 1000 div fp_of_int (uint ((ai_rtt a + 100) * 2)) :: double))"
    using x by (auto simp: su_max_def elim!: fin_inE)
  from fin_in_to_s32 [OF this] show ?thesis
    unfolding aimd_get_near_max_inc_rate_def Let_def B(1) pk by auto
qed

lemma additive_bound:
  assumes "curr_rate a \<noteq> 0" and "ai_rtt a \<le> 1000000" and "lst \<le> cur" and "cur - lst \<le> 53000000"
  shows "\<exists>w. additive_rate_increase a cur lst = Some w"
proof -
  obtain i where i: "aimd_get_near_max_inc_rate a = Some i" "4000 \<le> i" "i \<le> 80000"
    using near_max_bound [OF assms(1,2)] by blast
  have "0 \<le> (cur - lst) * i"
    using assms(3) i by simp
  moreover have "(cur - lst) * i \<le> 53000000 * 80000"
    by (rule mult_mono) (use assms(3,4) i in simp_all)
  ultimately have n: "fin_in 0 4240000000000 (fp_of_int ((cur - lst) * i) :: double)"
    using fin_in_of_int_range [of 0 "(cur - lst) * i" 4240000000000, where 'p = 53] by simp
  have "fin_in 1000 1000 (fp_lit 1000 :: double)" by (rule fin_in_lit) simp_all
  then have "fin_in 0 4240000000 (fp_of_int ((cur - lst) * i) div fp_lit 1000 :: double)"
    by (rule fin_in_div [OF n]) simp_all
  from fin_in_to_u32 [OF this] show ?thesis
    by (auto simp: additive_rate_increase_def i(1) simp del: divide_fp_def)
qed

text \<open>The incoming rate in kbit/s and the average maximum in \<open>float\<close> arithmetic.\<close>

lemma float_bounds:
  "frep TYPE(24) 4294967296" "frep TYPE(24) 4608000000" "frep TYPE(24) 4032000000" "frep TYPE(24) 4032001024"
  "frep TYPE(24) 3758096384" "frep TYPE(24) (7 / 8)" "frep TYPE(24) (13107 / 262144)" "frep TYPE(24) (3277 / 65536)"
  "frep TYPE(24) (249037 / 262144)" "frep TYPE(24) (1 / 2)"
  unfolding frep_def
  by ((rule float_rep [of 1 32]; simp),
    (rule float_rep [of 1125000 12]; simp),
    (rule float_rep [of 984375 12]; simp),
    (rule float_rep [of 3937501 10]; simp),
    (rule float_rep [of 7 29]; simp),
    (rule float_rep_frac [of 7 3]; simp),
    (rule float_rep_frac [of 13107 18]; simp),
    (rule float_rep_frac [of 3277 16]; simp),
    (rule float_rep_frac [of 249037 18]; simp),
    (rule float_rep_frac [of 1 1]; simp))

lemma u32_float_in: "fin_in 0 4294967296 (fp_of_int (uint (w :: u32)) :: float)"
proof -
  have "uint w \<le> 4294967296" using uint_u32_range(1) [of w] by linarith
  from fin_in_of_int_range [OF uint_u32_range(2) this, where 'p = 24] show ?thesis
    by (simp add: float_bounds)
qed

lemma kb_in: "fin_in 0 4294968 (fp_of_int (uint (w :: u32)) div fp_lit 1000 :: float)"
proof -
  have "fin_in 1000 1000 (fp_lit 1000 :: float)" by (rule fin_in_lit) simp_all
  from fin_in_div [OF u32_float_in this] show ?thesis by simp
qed

lemma alpha_in: "fin_in (13107 / 262144) (3277 / 65536) (fp_lit 0.05 :: float)"
  by (rule fin_in_lit) (simp_all add: float_bounds)

lemma beta_in: "fin_in 0 (7 / 8) (fp_lit 0.85 :: float)"
  by (rule fin_in_lit) (simp_all add: float_bounds)

lemma average_in:
  assumes "fin_in 0 4500000 v" and "fin_in 0 4294968 kb"
  shows "fin_in 0 4500000 ((fp_of_int 1 - fp_lit 0.05) * v + fp_lit 0.05 * kb :: float)"
proof -
  have "fin_in 1 1 (fp_of_int 1 :: float)" by (rule fin_in_of_int) simp_all
  then have "fin_in 0 (249037 / 262144) (fp_of_int 1 - fp_lit 0.05 :: float)"
    by (rule fin_in_sub [OF _ alpha_in]) (simp_all add: float_bounds)
  then have a: "fin_in 0 4275024 ((fp_of_int 1 - fp_lit 0.05) * v)"
    by (rule fin_in_mul [OF _ assms(1)]) (simp_all add: float_bounds)
  have "fin_in 0 (3277 / 65536) (fp_lit 0.05 :: float)"
    using alpha_in by (rule fin_in_weaken) simp_all
  then have "fin_in 0 214768 (fp_lit 0.05 * kb)"
    by (rule fin_in_mul [OF _ assms(2)]) (simp_all add: float_bounds)
  then show ?thesis
    by (rule fin_in_add [OF a]) simp_all
qed

lemma fp_lit_minus_one: "fp_lit (- 1) = (Fin (- 1) :: float)"
proof -
  have "fin_in (- 1) (- 1) (fp_lit (- 1) :: float)" by (rule fin_in_lit) simp_all
  then show ?thesis by (auto elim!: fin_inE)
qed

lemma update_max_in:
  assumes "avg_max_bitrate_kbps a = Fin (- 1) \<or> fin_in 0 4500000 (avg_max_bitrate_kbps a)" and "fin_in 0 4294968 kb"
  shows "fin_in 0 4500000 (avg_max_bitrate_kbps (update_max_bitrate_estimate a kb))"
proof (cases "fp_eq (avg_max_bitrate_kbps a) (fp_lit (- 1))")
  case True
  moreover have "fin_in 0 4500000 kb"
    using assms(2) by (rule fin_in_weaken) simp_all
  ultimately show ?thesis
    by (simp add: update_max_bitrate_estimate_def Let_def)
next
  case False
  then have "fin_in 0 4500000 (avg_max_bitrate_kbps a)"
    using assms(1) by (auto simp: fp_lit_minus_one fp_eq_def)
  from average_in [OF this assms(2)] False show ?thesis
    by (simp add: update_max_bitrate_estimate_def Let_def del: ai_ops)
qed

lemma update_max_frame [simp]:
  "min_rate (update_max_bitrate_estimate a kb) = min_rate a" "max_rate (update_max_bitrate_estimate a kb) = max_rate a"
  "curr_rate (update_max_bitrate_estimate a kb) = curr_rate a" "ai_state (update_max_bitrate_estimate a kb) = ai_state a"
  "region (update_max_bitrate_estimate a kb) = region a" "ai_rtt (update_max_bitrate_estimate a kb) = ai_rtt a"
  "inited (update_max_bitrate_estimate a kb) = inited a" "beta (update_max_bitrate_estimate a kb) = beta a"
  by (simp_all add: update_max_bitrate_estimate_def Let_def)

text \<open>The decrease never fails and never raises the rate.\<close>

lemma decrease_rate_total:
  assumes "beta a = fp_lit 0.85" and "region a \<noteq> kRcMaxUnknown \<Longrightarrow> fin_in 0 4500000 (avg_max_bitrate_kbps a)"
  shows "\<exists>n. decrease_rate a w = Some n \<and> n \<le> curr_rate a"
proof -
  have "fin_in 0 3758096384 (fp_lit 0.85 * fp_of_int (uint w) :: float)"
    by (rule fin_in_mul [OF beta_in u32_float_in]) (simp_all add: float_bounds)
  then have c: "fin_in 0 3758096384 (fp_conv (fp_lit 0.85 * fp_of_int (uint w) :: float) :: double)"
    by (rule fin_in_conv) simp_all
  have "fin_in 0 1 (fp_lit 0.5 :: double)" by (rule fin_in_lit) simp_all
  then have "fin_in 0 3758096385 (fp_conv (fp_lit 0.85 * fp_of_int (uint w) :: float) + fp_lit 0.5 :: double)"
    by (rule fin_in_add [OF c]) simp_all
  from fin_in_to_u32 [OF this] obtain n
    where n: "fp_to_u32 (fp_conv (fp_lit 0.85 * fp_of_int (uint w) :: float) + fp_lit 0.5 :: double) = Some n" by auto
  have "\<exists>m. fp_to_u32 (avg_max_bitrate_kbps a * fp_of_int 1000 * fp_lit 0.85 + fp_lit 0.5) = Some m" if "region a \<noteq> kRcMaxUnknown"
  proof -
    have "fin_in 1000 1000 (fp_of_int 1000 :: float)" by (rule fin_in_of_int) simp_all
    then have "fin_in 0 4608000000 (avg_max_bitrate_kbps a * fp_of_int 1000)"
      by (rule fin_in_mul [OF assms(2) [OF that]]) (simp_all add: float_bounds)
    then have m: "fin_in 0 4032000000 (avg_max_bitrate_kbps a * fp_of_int 1000 * fp_lit 0.85)"
      by (rule fin_in_mul [OF _ beta_in]) (simp_all add: float_bounds)
    have "fin_in 0 1 (fp_lit 0.5 :: float)" by (rule fin_in_lit) simp_all
    then have "fin_in 0 4032001024 (avg_max_bitrate_kbps a * fp_of_int 1000 * fp_lit 0.85 + fp_lit 0.5)"
      by (rule fin_in_add [OF m]) (simp_all add: float_bounds)
    from fin_in_to_u32 [OF this] show ?thesis by auto
  qed
  then show ?thesis
    using n by (auto simp: decrease_rate_def assms(1) su_min_def simp del: ai_ops)
qed

subsection \<open>The invariant of the controller\<close>

definition aimd_wf :: "int \<Rightarrow> int \<Rightarrow> aimd_rate_controller \<Rightarrow> bool" where
  "aimd_wf start now a \<longleftrightarrow> 1 \<le> min_rate a \<and> min_rate a \<le> max_rate a \<and> ai_rtt a \<le> 1000000 \<and> beta a = fp_lit 0.85
     \<and> ai_state a \<noteq> kRcDecrease \<and> start \<le> now
     \<and> (avg_max_bitrate_kbps a = Fin (- 1) \<or> fin_in 0 4500000 (avg_max_bitrate_kbps a))
     \<and> (region a \<noteq> kRcMaxUnknown \<longrightarrow> fin_in 0 4500000 (avg_max_bitrate_kbps a) \<and> curr_rate a \<noteq> 0)
     \<and> (ai_state a = kRcIncrease \<longrightarrow> start \<le> time_last_bitrate_change a \<and> time_last_bitrate_change a \<le> now)"

definition in_rates :: "aimd_rate_controller \<Rightarrow> u32 \<Rightarrow> bool" where
  "in_rates a r \<longleftrightarrow> min_rate a \<le> r \<and> r \<le> max_rate a"

lemma clamp_in_rates: "min_rate a \<le> max_rate a \<Longrightarrow> in_rates a (clamp_bitrate a n c)"
  by (auto simp: in_rates_def clamp_bitrate_def su_min_def su_max_def Let_def)

lemma clamp_not_raised: "n \<le> curr_rate a \<Longrightarrow> clamp_bitrate a n c \<le> su_max (curr_rate a) (min_rate a)"
  by (auto simp: clamp_bitrate_def Let_def min_le_iff_disj max_def)

lemma aimd_increase_total:
  assumes "aimd_wf start now a" and "ai_state a = kRcIncrease" and "now \<le> cur" and "cur - start \<le> 53000000"
  shows "\<exists>a' n. aimd_increase a w kb mk cur = Some (a', n) \<and> (\<forall>r. r \<noteq> 0 \<longrightarrow> aimd_wf start cur (a'\<lparr>curr_rate := r\<rparr>)) \<and> min_rate a' = min_rate a \<and> max_rate a' = max_rate a
    \<and> curr_rate a' = curr_rate a \<and> inited a' = inited a"
proof -
  have t: "time_last_bitrate_change a \<le> cur" "cur - time_last_bitrate_change a \<le> 53000000"
    using assms by (auto simp: aimd_wf_def)
  obtain m where m: "multiplicative_rate_increase cur (time_last_bitrate_change a) w = Some m"
    using multiplicative_bound by blast
  have "\<exists>m. additive_rate_increase a cur (time_last_bitrate_change a) = Some m" if "region a = kRcNearMax"
    using assms(1) that t by (intro additive_bound) (simp_all add: aimd_wf_def)
  then show ?thesis
    using assms m by (auto simp: aimd_increase_def aimd_change_region_def Let_def aimd_wf_def fp_lit_minus_one simp del: ai_ops)
qed

lemma aimd_decrease_total:
  assumes "aimd_wf start now (a\<lparr>ai_state := kRcHold\<rparr>)" and "now \<le> cur"
  shows "\<exists>a' n. aimd_decrease a w (fp_of_int (uint w) div fp_lit 1000) mk cur = Some (a', n) \<and> (\<forall>r. r \<noteq> 0 \<longrightarrow> aimd_wf start cur (a'\<lparr>curr_rate := r\<rparr>)) \<and> min_rate a' = min_rate a
    \<and> max_rate a' = max_rate a \<and> curr_rate a' = curr_rate a \<and> inited a' = 0 \<and> ai_state a' = kRcHold \<and> region a' = kRcNearMax \<and> n \<le> curr_rate a"
proof -
  obtain n where n: "decrease_rate a w = Some n" "n \<le> curr_rate a"
    using decrease_rate_total [of a w] assms(1) by (auto simp: aimd_wf_def)
  have "avg_max_bitrate_kbps a = Fin (- 1) \<or> fin_in 0 4500000 (avg_max_bitrate_kbps a)"
    using assms(1) by (simp add: aimd_wf_def)
  then show ?thesis
    using n assms kb_in [of w]
    by (auto simp: aimd_decrease_def aimd_change_region_def Let_def aimd_wf_def fp_lit_minus_one simp del: ai_ops intro!: update_max_in)
qed

text \<open>One update is defined, keeps the invariant, answers a rate between the bounds once the controller
  is initialized, and under overuse does not raise the rate.\<close>

lemma aimd_change_bitrate_total:
  assumes "aimd_wf start now a" and "now \<le> cur" and "cur - start \<le> 53000000"
  shows "\<exists>a' inp' r. aimd_change_bitrate a w inp cur = Some (a', inp', r) \<and> min_rate a' = min_rate a \<and> max_rate a' = max_rate a
    \<and> (inited a = 0 \<longrightarrow> inited a' = 0) \<and> aimd_wf start cur (a'\<lparr>curr_rate := r\<rparr>)
    \<and> (in_rates a r \<or> inited a = -1 \<and> r = curr_rate a)
    \<and> (in_state inp = kBwOverusing \<longrightarrow> r \<le> su_max (curr_rate a) (min_rate a))
    \<and> (inited a = 0 \<and> in_state inp = kBwOverusing \<longrightarrow> ai_state a' = kRcHold \<and> region a' = kRcNearMax)"
proof (cases "inited a = -1 \<and> in_state inp = kBwOverusing")
  case True
  then show ?thesis
    using assms by (auto simp: aimd_change_bitrate_def Let_def aimd_wf_def)
next
  case False
  define inp' where "inp' = (if incoming_bitrate inp = 0 then inp\<lparr>incoming_bitrate := curr_rate a\<rparr> else inp)"
  define a1 where "a1 = aimd_change_state a inp' cur"
  have ist: "in_state inp' = in_state inp" by (simp add: inp'_def)
  have a1: "min_rate a1 = min_rate a" "max_rate a1 = max_rate a" "curr_rate a1 = curr_rate a" "inited a1 = inited a"
    by (auto simp: a1_def aimd_change_state_def split: bandwidth_usage.splits)
  have wf1: "aimd_wf start cur (a1\<lparr>ai_state := kRcHold\<rparr>)" "ai_state a1 \<noteq> kRcDecrease \<Longrightarrow> aimd_wf start cur a1"
    using assms(1,2) by (auto simp: a1_def aimd_change_state_def aimd_wf_def ist split: bandwidth_usage.splits)
  have ov: "in_state inp = kBwOverusing \<longleftrightarrow> ai_state a1 = kRcDecrease"
    using assms(1) by (auto simp: a1_def aimd_change_state_def aimd_wf_def ist split: bandwidth_usage.splits)
  define kb where "kb = (fp_of_int (uint (incoming_bitrate inp')) div fp_lit 1000 :: float)"
  define mk where "mk = (fp_conv (fp_sqrt (fp_conv (avg_max_bitrate_kbps a1 * var_max_bitrate_kbps a1) :: double)) :: float)"
  let ?step = "case ai_state a1 of kRcHold \<Rightarrow> Some (a1, w) | kRcIncrease \<Rightarrow> aimd_increase a1 w kb mk cur
    | kRcDecrease \<Rightarrow> aimd_decrease a1 (incoming_bitrate inp') kb mk cur"
  have "\<exists>a2 n. ?step = Some (a2, n) \<and> (\<forall>r. r \<noteq> 0 \<longrightarrow> aimd_wf start cur (a2\<lparr>curr_rate := r\<rparr>)) \<and> min_rate a2 = min_rate a1
    \<and> max_rate a2 = max_rate a1 \<and> curr_rate a2 = curr_rate a1 \<and> (inited a1 = 0 \<longrightarrow> inited a2 = 0)
    \<and> (ai_state a1 = kRcDecrease \<longrightarrow> n \<le> curr_rate a1 \<and> ai_state a2 = kRcHold \<and> region a2 = kRcNearMax)"
  proof (cases "ai_state a1")
    case kRcHold
    then show ?thesis using wf1(2) by (auto simp: aimd_wf_def)
  next
    case kRcIncrease
    then show ?thesis
      using aimd_increase_total [OF wf1(2) kRcIncrease, of cur w kb mk] assms(3) by auto
  next
    case kRcDecrease
    then show ?thesis
      using aimd_decrease_total [OF wf1(1), of cur "incoming_bitrate inp'" mk, folded kb_def] by auto
  qed
  then obtain a2 n where st: "?step = Some (a2, n)" and a2: "\<And>r. r \<noteq> 0 \<Longrightarrow> aimd_wf start cur (a2\<lparr>curr_rate := r\<rparr>)"
    "min_rate a2 = min_rate a" "max_rate a2 = max_rate a" "curr_rate a2 = curr_rate a" "inited a = 0 \<longrightarrow> inited a2 = 0"
    "ai_state a1 = kRcDecrease \<longrightarrow> n \<le> curr_rate a \<and> ai_state a2 = kRcHold \<and> region a2 = kRcNearMax"
    by (auto simp: a1)
  define r where "r = clamp_bitrate a2 n (incoming_bitrate inp')"
  have res: "aimd_change_bitrate a w inp cur = Some (a2, inp', r)"
    using False st unfolding aimd_change_bitrate_def Let_def inp'_def [symmetric] ist a1_def [symmetric] kb_def [symmetric] mk_def [symmetric]
    by (auto simp: r_def)
  have "min_rate a2 \<le> max_rate a2" "1 \<le> min_rate a"
    using assms(1) a2(2,3) by (simp_all add: aimd_wf_def)
  then have r1: "in_rates a r"
    using clamp_in_rates [of a2] a2(2,3) by (auto simp: r_def in_rates_def)
  have "uint (1 :: u32) \<le> uint r"
    using r1 \<open>1 \<le> min_rate a\<close> unfolding in_rates_def word_le_def by linarith
  then have "r \<noteq> 0" by auto
  note r = r1 this
  have "in_state inp = kBwOverusing \<longrightarrow> r \<le> su_max (curr_rate a) (min_rate a)"
    using clamp_not_raised [of n a2] a2 ov by (auto simp: r_def)
  then show ?thesis
    using r(1) res a2(2,3,5,6) ov a2(1) [OF r(2)] by (intro exI [of _ a2] exI [of _ inp'] exI [of _ r]) simp
qed

lemma aimd_update_total:
  assumes "aimd_wf start now a" and "now \<le> cur" and "cur - start \<le> 53000000"
  shows "\<exists>a' inp' r. aimd_update a inp cur = Some (a', inp', r) \<and> curr_rate a' = r \<and> min_rate a' = min_rate a \<and> max_rate a' = max_rate a
    \<and> (inited a = 0 \<longrightarrow> inited a' = 0) \<and> aimd_wf start cur a' \<and> (in_rates a r \<or> inited a = -1 \<and> r = curr_rate a)
    \<and> (inited a = 0 \<and> in_state inp = kBwOverusing \<longrightarrow> r \<le> su_max (curr_rate a) (min_rate a) \<and> ai_state a' = kRcHold \<and> region a' = kRcNearMax)"
proof -
  have wf: "aimd_wf start now (aimd_start a inp cur)"
    using assms(1) by (auto simp: aimd_start_def aimd_wf_def)
  have s: "min_rate (aimd_start a inp cur) = min_rate a" "max_rate (aimd_start a inp cur) = max_rate a"
    "inited a = 0 \<Longrightarrow> aimd_start a inp cur = a" "inited (aimd_start a inp cur) = -1 \<Longrightarrow> curr_rate (aimd_start a inp cur) = curr_rate a \<and> inited a = -1"
    by (auto simp: aimd_start_def split: if_splits)
  define a0 where "a0 = aimd_start a inp cur"
  note s = s [folded a0_def]
  obtain a' inp' r where u: "aimd_change_bitrate a0 (curr_rate a0) inp cur = Some (a', inp', r)"
    "min_rate a' = min_rate a0" "max_rate a' = max_rate a0" "inited a0 = 0 \<longrightarrow> inited a' = 0" "aimd_wf start cur (a'\<lparr>curr_rate := r\<rparr>)"
    "in_rates a0 r \<or> inited a0 = -1 \<and> r = curr_rate a0"
    "in_state inp = kBwOverusing \<longrightarrow> r \<le> su_max (curr_rate a0) (min_rate a0)"
    "inited a0 = 0 \<and> in_state inp = kBwOverusing \<longrightarrow> ai_state a' = kRcHold \<and> region a' = kRcNearMax"
    using aimd_change_bitrate_total [OF wf [folded a0_def] assms(2,3), of "curr_rate a0" inp] by blast
  have "in_rates a r \<or> inited a = -1 \<and> r = curr_rate a"
    using u(6) s by (auto simp: in_rates_def)
  moreover have "inited a = 0 \<and> in_state inp = kBwOverusing
      \<longrightarrow> r \<le> su_max (curr_rate a) (min_rate a) \<and> ai_state a' = kRcHold \<and> region a' = kRcNearMax"
    using u(7,8) s(3) by auto
  moreover have "inited a = 0 \<longrightarrow> inited a' = 0" using u(4) s(3) by auto
  moreover note u(1,5) u(2,3) [unfolded s]
  ultimately show ?thesis
    by (intro exI [of _ "a'\<lparr>curr_rate := r\<rparr>"] exI [of _ inp'] exI [of _ r]) (simp add: aimd_update_def Let_def a0_def)
qed

text \<open>What the owner of a controller does to it: updates, round trip times, and estimates set from outside.\<close>

datatype aimd_op = AimdUpdate rate_control_input int | AimdRtt u32 | AimdEstimate int int

fun aimd_run :: "aimd_rate_controller \<Rightarrow> aimd_op list \<Rightarrow> (aimd_rate_controller \<times> u32 list) option" where
  "aimd_run a [] = Some (a, [])"
| "aimd_run a (AimdUpdate inp t # ops) =
     (case aimd_update a inp t of None \<Rightarrow> None
      | Some (a, inp', r) \<Rightarrow> map_option (\<lambda>(a, rs). (a, r # rs)) (aimd_run a ops))"
| "aimd_run a (AimdRtt rtt # ops) = aimd_run (aimd_set_rtt a rtt) ops"
| "aimd_run a (AimdEstimate b t # ops) =
     map_option (\<lambda>(a', rs). (a', curr_rate (aimd_set_estimate a b t) # rs)) (aimd_run (aimd_set_estimate a b t) ops)"

fun aimd_ops_ok :: "int \<Rightarrow> int \<Rightarrow> aimd_op list \<Rightarrow> bool" where
  "aimd_ops_ok start now [] = True"
| "aimd_ops_ok start now (AimdUpdate inp t # ops) = (now \<le> t \<and> t \<le> start + 53000000 \<and> aimd_ops_ok start t ops)"
| "aimd_ops_ok start now (AimdRtt rtt # ops) = (rtt \<le> 1000000 \<and> aimd_ops_ok start now ops)"
| "aimd_ops_ok start now (AimdEstimate b t # ops) = (now \<le> t \<and> t \<le> start + 53000000 \<and> aimd_ops_ok start t ops)"

lemma aimd_set_estimate_wf:
  assumes "aimd_wf start now a" and "now \<le> t"
  shows "aimd_wf start t (aimd_set_estimate a b t)" "in_rates a (curr_rate (aimd_set_estimate a b t))"
    "min_rate (aimd_set_estimate a b t) = min_rate a" "max_rate (aimd_set_estimate a b t) = max_rate a" "inited (aimd_set_estimate a b t) = 0"
proof -
  define c where "c = clamp_bitrate (a\<lparr>inited := 0\<rparr>) (word_of_int b) (word_of_int b)"
  have e: "aimd_set_estimate a b t = a\<lparr>inited := 0, curr_rate := c, time_last_bitrate_change := t\<rparr>"
    by (simp add: aimd_set_estimate_def c_def Let_def)
  have c: "in_rates a c"
    using clamp_in_rates [of "a\<lparr>inited := 0\<rparr>"] assms(1) by (simp add: c_def in_rates_def aimd_wf_def)
  then have "c \<noteq> 0"
    using assms(1) by (auto simp: in_rates_def aimd_wf_def)
  then show "aimd_wf start t (aimd_set_estimate a b t)" "in_rates a (curr_rate (aimd_set_estimate a b t))"
    "min_rate (aimd_set_estimate a b t) = min_rate a" "max_rate (aimd_set_estimate a b t) = max_rate a" "inited (aimd_set_estimate a b t) = 0"
    using assms c by (auto simp: e aimd_wf_def)
qed

lemma aimd_run_in_rates:
  assumes "aimd_wf start now a" and "inited a = 0" and "aimd_ops_ok start now ops"
  shows "\<exists>a' rs. aimd_run a ops = Some (a', rs) \<and> (\<forall>r\<in>set rs. in_rates a r) \<and> inited a' = 0 \<and> min_rate a' = min_rate a
    \<and> max_rate a' = max_rate a \<and> (\<exists>fin. aimd_wf start fin a')"
  using assms
proof (induction start now ops arbitrary: a rule: aimd_ops_ok.induct)
  case (1 start now)
  then show ?case by auto
next
  case (2 start now inp t ops)
  have t: "now \<le> t" "t - start \<le> 53000000" using "2.prems" by auto
  obtain a1 inp1 r where u: "aimd_update a inp t = Some (a1, inp1, r)" "min_rate a1 = min_rate a" "max_rate a1 = max_rate a"
    "inited a1 = 0" "aimd_wf start t a1" "in_rates a r"
    using aimd_update_total [OF "2.prems"(1) t, of inp] "2.prems"(2) by auto
  from "2.IH" [OF u(5,4)] "2.prems"(3) show ?case
    using u by (auto simp: in_rates_def)
next
  case (3 start now rtt ops)
  have "aimd_wf start now (aimd_set_rtt a rtt)"
    using "3.prems" by (auto simp: aimd_set_rtt_def aimd_wf_def)
  from "3.IH" [OF this] "3.prems" show ?case
    by (auto simp: aimd_set_rtt_def in_rates_def)
next
  case (4 start now b t ops)
  then have t: "now \<le> t" by simp
  note e = aimd_set_estimate_wf [OF "4.prems"(1) t, of b]
  from "4.IH" [OF e(1,5)] "4.prems"(3) e(2-4) show ?case
    by (auto simp: in_rates_def)
qed

lemma aimd_run_overuse:
  assumes "aimd_wf start now a" and "inited a = 0" and "aimd_ops_ok start now (ops @ [AimdUpdate inp t])" and "in_state inp = kBwOverusing"
  shows "\<exists>a' rs r. aimd_run a (ops @ [AimdUpdate inp t]) = Some (a', rs @ [r]) \<and> r \<le> su_max (last (curr_rate a # rs)) (min_rate a)
    \<and> ai_state a' = kRcHold \<and> region a' = kRcNearMax"
  using assms
proof (induction ops arbitrary: now a)
  case Nil
  then have t: "now \<le> t" "t - start \<le> 53000000" by auto
  show ?case
    using aimd_update_total [OF Nil(1) t, of inp] Nil(2,4) by (auto intro!: exI [of _ "[]"])
next
  case (Cons op ops)
  show ?case
  proof (cases op)
    case (AimdUpdate inp1 t1)
    then have t: "now \<le> t1" "t1 - start \<le> 53000000" and ok: "aimd_ops_ok start t1 (ops @ [AimdUpdate inp t])"
      using Cons.prems(3) by auto
    obtain a1 inp2 r where u: "aimd_update a inp1 t1 = Some (a1, inp2, r)" "curr_rate a1 = r" "min_rate a1 = min_rate a"
      "inited a1 = 0" "aimd_wf start t1 a1"
      using aimd_update_total [OF Cons.prems(1) t, of inp1] Cons.prems(2) by auto
    from Cons.IH [OF u(5,4) ok Cons.prems(4)] obtain a' rs r' where
      "aimd_run a1 (ops @ [AimdUpdate inp t]) = Some (a', rs @ [r'])" "r' \<le> su_max (last (r # rs)) (min_rate a)" "ai_state a' = kRcHold" "region a' = kRcNearMax"
      using u by auto
    then show ?thesis
      by (intro exI [of _ a'] exI [of _ "r # rs"] exI [of _ r']) (simp add: AimdUpdate u(1))
  next
    case (AimdRtt rtt)
    then have "aimd_wf start now (aimd_set_rtt a rtt)" "inited (aimd_set_rtt a rtt) = 0" "aimd_ops_ok start now (ops @ [AimdUpdate inp t])"
      using Cons.prems(1-3) by (auto simp: aimd_set_rtt_def aimd_wf_def)
    from Cons.IH [OF this Cons.prems(4)] show ?thesis
      by (auto simp: AimdRtt aimd_set_rtt_def)
  next
    case (AimdEstimate b t1)
    then have t: "now \<le> t1" and ok: "aimd_ops_ok start t1 (ops @ [AimdUpdate inp t])"
      using Cons.prems(3) by auto
    note e = aimd_set_estimate_wf [OF Cons.prems(1) t, of b]
    from Cons.IH [OF e(1,5) ok Cons.prems(4)] obtain a' rs r' where
      "aimd_run (aimd_set_estimate a b t1) (ops @ [AimdUpdate inp t]) = Some (a', rs @ [r'])"
      "r' \<le> su_max (last (curr_rate (aimd_set_estimate a b t1) # rs)) (min_rate a)" "ai_state a' = kRcHold" "region a' = kRcNearMax"
      using e by auto
    then show ?thesis
      by (intro exI [of _ a'] exI [of _ "curr_rate (aimd_set_estimate a b t1) # rs"] exI [of _ r']) (simp add: AimdEstimate)
  qed
qed

lemma aimd_create_wf: "1 \<le> mn \<Longrightarrow> mn \<le> mx \<Longrightarrow> aimd_wf start start (aimd_set_start_bitrate (aimd_create mx mn) b)"
  by (simp add: aimd_wf_def aimd_set_start_bitrate_def aimd_create_def fp_lit_minus_one)

text \<open>C26: The rate controller is total and keeps to its bounds: created with a minimum and a maximum
  and given a start rate, it answers every update and every estimate from outside with a rate between
  the two, over any sequence of updates, whatever the measured rates, link states and round trip
  times (up to 1000 s) are, and no floating point value in it ever fails to fit the integer it is
  converted to, for 53000 s (about 14 hours) of time since the controller was made.\<close>

theorem aimd_in_range:
  assumes "1 \<le> mn" and "mn \<le> mx" and "aimd_ops_ok start start ops"
  shows "\<exists>a rs. aimd_run (aimd_set_start_bitrate (aimd_create mx mn) b) ops = Some (a, rs) \<and> (\<forall>r\<in>set rs. mn \<le> r \<and> r \<le> mx)"
proof -
  have f: "inited (aimd_set_start_bitrate (aimd_create mx mn) b) = 0" "min_rate (aimd_set_start_bitrate (aimd_create mx mn) b) = mn"
    "max_rate (aimd_set_start_bitrate (aimd_create mx mn) b) = mx"
    by (simp_all add: aimd_set_start_bitrate_def aimd_create_def)
  from aimd_run_in_rates [OF aimd_create_wf [OF assms(1,2)] f(1) assms(3)] f(2,3) show ?thesis
    by (auto simp: in_rates_def)
qed

theorem aimd_in_range_witness:
  "\<exists>a rs. aimd_run (aimd_set_start_bitrate (aimd_create 4000000 10000) 500000)
      [AimdUpdate \<lparr>in_state = kBwNormal, incoming_bitrate = 400000, noise_var = fp_lit 0\<rparr> 1000, AimdRtt 50,
       AimdUpdate \<lparr>in_state = kBwOverusing, incoming_bitrate = 0, noise_var = fp_lit 0\<rparr> 1300, AimdEstimate 300000 1400] = Some (a, rs)
    \<and> (\<forall>r\<in>set rs. 10000 \<le> r \<and> r \<le> 4000000)"
  by (rule aimd_in_range [where start = 1000]) simp_all

text \<open>C27: Under overuse the controller backs off: at any point of a run, the rate answered to an update
  that reports overuse is at most the rate answered before (or the minimum, when that is larger), and
  the controller is left holding its rate, in the region near the maximum.\<close>

theorem aimd_overuse_backs_off:
  assumes "1 \<le> mn" and "mn \<le> mx" and "aimd_ops_ok start start (ops @ [AimdUpdate inp t])" and "in_state inp = kBwOverusing"
  shows "\<exists>a rs r. aimd_run (aimd_set_start_bitrate (aimd_create mx mn) b) (ops @ [AimdUpdate inp t]) = Some (a, rs @ [r])
    \<and> r \<le> su_max (last (b # rs)) mn \<and> ai_state a = kRcHold \<and> region a = kRcNearMax"
proof -
  have f: "inited (aimd_set_start_bitrate (aimd_create mx mn) b) = 0" "min_rate (aimd_set_start_bitrate (aimd_create mx mn) b) = mn"
    "curr_rate (aimd_set_start_bitrate (aimd_create mx mn) b) = b"
    by (simp_all add: aimd_set_start_bitrate_def aimd_create_def)
  from aimd_run_overuse [OF aimd_create_wf [OF assms(1,2)] f(1) assms(3,4)] show ?thesis
    unfolding f .
qed

theorem aimd_overuse_backs_off_witness:
  "\<exists>a rs r. aimd_run (aimd_set_start_bitrate (aimd_create 4000000 10000) 500000)
      ([AimdUpdate \<lparr>in_state = kBwNormal, incoming_bitrate = 400000, noise_var = fp_lit 0\<rparr> 1000]
        @ [AimdUpdate \<lparr>in_state = kBwOverusing, incoming_bitrate = 350000, noise_var = fp_lit 0\<rparr> 1300]) = Some (a, rs @ [r])
    \<and> r \<le> su_max (last (500000 # rs)) 10000 \<and> ai_state a = kRcHold \<and> region a = kRcNearMax"
  by (rule aimd_overuse_backs_off [where start = 1000]) simp_all

end
