(* ===== verification/Sender_Bandwidth.thy ===== *)
theory Sender_Bandwidth
  imports Fp_Bounds Prelude "HOL-Library.Sublist"
begin

text \<open>
  \<^verbatim>\<open>estimator/sender_bandwidth_estimator.c\<close>: the loss based rate of the sender, capped by the
  receiver's estimate, the delay based estimate and the configured bounds. The minimum of the rate over the
  last second is kept as a double ended queue in a ring of 128 records. \<open>begin_index\<close> and \<open>end_index\<close>
  are \<^verbatim>\<open>uint32_t\<close>, written as natural numbers modulo \<open>2 ^ 32\<close>. \<open>None\<close> is a rate that does not fit
  \<^verbatim>\<open>uint32_t\<close>. Log lines are left out.

  The lemmas: the ring refines a list (\<^verbatim>\<open>history_refines\<close>) whose head is the minimum of the window
  (\<^verbatim>\<open>dq_min\<close>); every operation keeps the rate between the bounds.
\<close>

abbreviation MIN_HISTORY_ARR_SIZE :: nat where "MIN_HISTORY_ARR_SIZE \<equiv> 128"
abbreviation k_bwe_increase_interval_ms :: int where "k_bwe_increase_interval_ms \<equiv> 1000"
abbreviation k_max_bitrate_bps :: u32 where "k_max_bitrate_bps \<equiv> 1000000000"
abbreviation k_limit_num_packets :: int where "k_limit_num_packets \<equiv> 20"
abbreviation k_start_phase_ms :: int where "k_start_phase_ms \<equiv> 2000"
abbreviation k_feelback_interval_ms :: int where "k_feelback_interval_ms \<equiv> 5000"
abbreviation k_feelback_timeout_intervals :: int where "k_feelback_timeout_intervals \<equiv> 3"
abbreviation k_timeout_interval_ms :: int where "k_timeout_interval_ms \<equiv> 1000"
abbreviation k_bwe_decrease_interval_ms :: int where "k_bwe_decrease_interval_ms \<equiv> 300"

record min_bitrate =
  mb_ts :: int
  mb_bitrate :: u32

record sender_estimation =
  curr_bitrate :: u32
  min_conf_bitrate :: u32
  max_conf_bitrate :: u32
  last_feelback_ts :: int
  last_packet_report_ts :: int
  last_timeout_ts :: int
  last_rtt :: u32
  last_fraction_loss :: u8
  has_decreased_since_last_fraction_loss :: int
  bwe_incoming :: u32
  delay_base_bitrate :: u32
  last_decrease_ts :: int
  first_report_ts :: int
  initially_lost_packets :: int
  bitrate_2_seconds_kbps :: int
  lost_packets_Q8 :: int
  expected_packets :: int
  low_loss_threshold :: float
  high_loss_threshold :: float
  bitrate_threshold :: u32
  begin_index :: nat
  end_index :: nat
  min_bitrates :: "min_bitrate list"

definition sender_estimation_create :: "u32 \<Rightarrow> u32 \<Rightarrow> sender_estimation" where
  "sender_estimation_create min_bitrate max_bitrate = \<lparr>curr_bitrate = 0, min_conf_bitrate = min_bitrate, max_conf_bitrate = max_bitrate,
     last_feelback_ts = -1, last_packet_report_ts = -1, last_timeout_ts = -1, last_rtt = 0, last_fraction_loss = 0,
     has_decreased_since_last_fraction_loss = -1, bwe_incoming = 0, delay_base_bitrate = 0, last_decrease_ts = 0, first_report_ts = -1,
     initially_lost_packets = 0, bitrate_2_seconds_kbps = 0, lost_packets_Q8 = 0, expected_packets = 0,
     low_loss_threshold = fp_lit 0.02, high_loss_threshold = fp_lit 0.1, bitrate_threshold = 0, begin_index = 0, end_index = 0,
     min_bitrates = replicate MIN_HISTORY_ARR_SIZE \<lparr>mb_ts = 0, mb_bitrate = 0\<rparr>\<rparr>"

definition sender_estimation_get_min_bitrate :: "sender_estimation \<Rightarrow> u32" where
  "sender_estimation_get_min_bitrate est = max_conf_bitrate est"

definition sender_estimation_set_minmax_bitrate :: "sender_estimation \<Rightarrow> u32 \<Rightarrow> u32 \<Rightarrow> sender_estimation" where
  "sender_estimation_set_minmax_bitrate est min_bitrate max_bitrate =
     (let est = est\<lparr>min_conf_bitrate := su_max (min_conf_bitrate est) min_bitrate\<rparr>
      in if 0 < max_bitrate then est\<lparr>max_conf_bitrate := su_max (min_conf_bitrate est) max_bitrate\<rparr>
         else est\<lparr>max_conf_bitrate := k_max_bitrate_bps\<rparr>)"

definition cap_bitrate_to_threshold :: "sender_estimation \<Rightarrow> int \<Rightarrow> u32 \<Rightarrow> sender_estimation" where
  "cap_bitrate_to_threshold est cur_ts bitrate =
     (let bitrate = (if 0 < bwe_incoming est \<and> bwe_incoming est < bitrate then bwe_incoming est else bitrate);
          bitrate = (if 0 < delay_base_bitrate est \<and> delay_base_bitrate est < bitrate then delay_base_bitrate est else bitrate);
          bitrate = (if max_conf_bitrate est < bitrate then max_conf_bitrate est else bitrate);
          bitrate = (if bitrate < min_conf_bitrate est then min_conf_bitrate est else bitrate)
      in est\<lparr>curr_bitrate := bitrate\<rparr>)"

definition sender_estimation_set_send_bitrate :: "sender_estimation \<Rightarrow> int \<Rightarrow> u32 \<Rightarrow> sender_estimation" where
  "sender_estimation_set_send_bitrate est sys_ts send_bitrate =
     (cap_bitrate_to_threshold est sys_ts send_bitrate)\<lparr>end_index := 0, begin_index := 0\<rparr>"

definition sender_estimation_set_bitrates :: "sender_estimation \<Rightarrow> int \<Rightarrow> u32 \<Rightarrow> u32 \<Rightarrow> u32 \<Rightarrow> sender_estimation" where
  "sender_estimation_set_bitrates est sys_ts send_bitrate min_bitrate max_bitrate =
     sender_estimation_set_send_bitrate (sender_estimation_set_minmax_bitrate est min_bitrate max_bitrate) sys_ts send_bitrate"

definition sender_estimation_update_remb :: "sender_estimation \<Rightarrow> int \<Rightarrow> u32 \<Rightarrow> sender_estimation" where
  "sender_estimation_update_remb est cur_ts bitrate =
     cap_bitrate_to_threshold (est\<lparr>bwe_incoming := bitrate\<rparr>) cur_ts (curr_bitrate est)"

definition sender_estimation_update_delay_base :: "sender_estimation \<Rightarrow> int \<Rightarrow> u32 \<Rightarrow> sender_estimation" where
  "sender_estimation_update_delay_base est cur_ts bitrate =
     cap_bitrate_to_threshold (est\<lparr>delay_base_bitrate := bitrate\<rparr>) cur_ts (curr_bitrate est)"

definition sender_estimation_is_start_phare :: "sender_estimation \<Rightarrow> int \<Rightarrow> int" where
  "sender_estimation_is_start_phare est cur_ts =
     (if first_report_ts est = -1 \<or> cur_ts < first_report_ts est + k_start_phase_ms then 0 else -1)"

subsection \<open>The history of minima\<close>

abbreviation zero_min :: min_bitrate where "zero_min \<equiv> \<lparr>mb_ts = 0, mb_bitrate = 0\<rparr>"

function expire_loop :: "sender_estimation \<Rightarrow> int \<Rightarrow> nat \<Rightarrow> sender_estimation" where
  "expire_loop est cur_ts i =
     (if i < end_index est then
        (let pos = i mod MIN_HISTORY_ARR_SIZE in
         if mb_ts (min_bitrates est ! pos) + k_bwe_increase_interval_ms < cur_ts
         then expire_loop (est\<lparr>begin_index := i + 1, min_bitrates := (min_bitrates est)[pos := zero_min]\<rparr>) cur_ts (i + 1)
         else est)
      else est)"
  by auto
termination by (relation "measure (\<lambda>(est, cur_ts, i). end_index est - i)") auto

text \<open>\<open>(end_index - 1) % MIN_HISTORY_ARR_SIZE\<close>, which wraps for an empty history.\<close>

abbreviation last_pos :: "sender_estimation \<Rightarrow> nat" where
  "last_pos est \<equiv> ((end_index est + (2 ^ 32 - 1)) mod 2 ^ 32) mod MIN_HISTORY_ARR_SIZE"

function larger_loop :: "sender_estimation \<Rightarrow> sender_estimation" where
  "larger_loop est =
     (if begin_index est < end_index est \<and> curr_bitrate est \<le> mb_bitrate (min_bitrates est ! last_pos est)
      then larger_loop (est\<lparr>min_bitrates := (min_bitrates est)[last_pos est := zero_min], end_index := end_index est - 1\<rparr>)
      else est)"
  by auto
termination by (relation "measure end_index") auto

definition sender_estimation_update_history :: "sender_estimation \<Rightarrow> int \<Rightarrow> sender_estimation" where
  "sender_estimation_update_history est cur_ts =
     (let est = larger_loop (expire_loop est cur_ts (begin_index est));
          est = (if end_index est = begin_index est then est\<lparr>end_index := 0, begin_index := 0\<rparr> else est);
          pos = end_index est mod MIN_HISTORY_ARR_SIZE;
          est = (if end_index est = (begin_index est + MIN_HISTORY_ARR_SIZE) mod 2 ^ 32
                 then est\<lparr>begin_index := (begin_index est + 1) mod 2 ^ 32\<rparr> else est);
          est = est\<lparr>end_index := (end_index est + 1) mod 2 ^ 32\<rparr>
      in est\<lparr>min_bitrates := (min_bitrates est)[pos := \<lparr>mb_ts = cur_ts, mb_bitrate = curr_bitrate est\<rparr>]\<rparr>)"

declare expire_loop.simps [simp del] larger_loop.simps [simp del]

subsection \<open>The update\<close>

text \<open>The rate for a report younger than the feedback interval, the third part of \<open>sender_estimation_update\<close>.\<close>

definition loss_control :: "sender_estimation \<Rightarrow> int \<Rightarrow> u32 \<Rightarrow> (sender_estimation \<times> u32) option" where
  "loss_control est cur_ts new_bitrate =
     (let loss = fp_of_int (uint (last_fraction_loss est)) div (fp_lit 256 :: double) in
      if curr_bitrate est < bitrate_threshold est \<or> loss < fp_conv (low_loss_threshold est)
      then (let pos = begin_index est mod MIN_HISTORY_ARR_SIZE in
            map_option (Pair est)
              (fp_to_u32 (fp_of_int (uint (mb_bitrate (min_bitrates est ! pos))) * (fp_lit 1.08 :: double) + fp_lit 0.5 + fp_of_int 1000)))
      else if bitrate_threshold est < curr_bitrate est \<and> \<not> loss < fp_conv (high_loss_threshold est)
              \<and> has_decreased_since_last_fraction_loss est = -1
              \<and> last_decrease_ts est + k_bwe_decrease_interval_ms + uint (last_rtt est) \<le> cur_ts
      then map_option (Pair (est\<lparr>last_decrease_ts := cur_ts, has_decreased_since_last_fraction_loss := 0\<rparr>))
             (fp_to_u32 (fp_of_int (uint (curr_bitrate est * (512 - ucast (last_fraction_loss est)))) div (fp_lit 512 :: float)))
      else Some (est, new_bitrate))"

definition sender_estimation_update :: "sender_estimation \<Rightarrow> int \<Rightarrow> sender_estimation option" where
  "sender_estimation_update est cur_ts =
     (let new_bitrate = curr_bitrate est;
          start = last_fraction_loss est = 0 \<and> sender_estimation_is_start_phare est cur_ts = 0;
          new_bitrate = (if start then su_max (delay_base_bitrate est) (su_max (bwe_incoming est) new_bitrate) else new_bitrate)
      in if start \<and> new_bitrate \<noteq> curr_bitrate est
      then Some (cap_bitrate_to_threshold (est\<lparr>begin_index := 0, end_index := 1,
             min_bitrates := (min_bitrates est)[0 := \<lparr>mb_ts = cur_ts, mb_bitrate = curr_bitrate est\<rparr>]\<rparr>) cur_ts new_bitrate)
      else (let est = sender_estimation_update_history est cur_ts in
        if last_packet_report_ts est = -1 then Some (cap_bitrate_to_threshold est cur_ts (curr_bitrate est))
        else (let time_since_packet_report_ms = cur_ts - last_packet_report_ts est;
                  time_since_feedback_ms = cur_ts - last_feelback_ts est
              in map_option (\<lambda>(est, new_bitrate). cap_bitrate_to_threshold est cur_ts new_bitrate)
          (if fp_of_int time_since_packet_report_ms * (fp_lit 1.2 :: double) < fp_of_int k_feelback_interval_ms
           then loss_control est cur_ts new_bitrate
           else if k_feelback_timeout_intervals * k_feelback_interval_ms < time_since_feedback_ms
                   \<and> (last_timeout_ts est = -1 \<or> last_timeout_ts est + k_timeout_interval_ms < cur_ts)
           then Some (est\<lparr>lost_packets_Q8 := 0, expected_packets := 0, last_timeout_ts := cur_ts\<rparr>, new_bitrate * 4 div 5)
           else Some (est, new_bitrate)))))"

definition sender_estimation_update_block ::
  "sender_estimation \<Rightarrow> u8 \<Rightarrow> u32 \<Rightarrow> int \<Rightarrow> int \<Rightarrow> sender_estimation option" where
  "sender_estimation_update_block est fraction_loss rtt number_of_packets cur_ts =
     (let est = est\<lparr>last_feelback_ts := cur_ts\<rparr>;
          est = (if first_report_ts est = -1 then est\<lparr>first_report_ts := cur_ts\<rparr> else est);
          est = (if 0 < rtt then est\<lparr>last_rtt := rtt\<rparr> else est)
      in if 0 < number_of_packets
      then (let est = est\<lparr>lost_packets_Q8 := s32 (lost_packets_Q8 est + s32 (uint fraction_loss * number_of_packets)),
                          expected_packets := s32 (expected_packets est + number_of_packets)\<rparr>
        in if expected_packets est < k_limit_num_packets then Some est
           else sender_estimation_update (est\<lparr>has_decreased_since_last_fraction_loss := -1,
                  last_fraction_loss := word_of_int (lost_packets_Q8 est sdiv expected_packets est),
                  lost_packets_Q8 := 0, expected_packets := 0, last_packet_report_ts := cur_ts\<rparr>) cur_ts)
      else Some est)"

subsection \<open>The ring holds a list\<close>

definition ring_list :: "min_bitrate list \<Rightarrow> nat \<Rightarrow> nat \<Rightarrow> min_bitrate list" where
  "ring_list r b e = map (\<lambda>i. r ! (i mod MIN_HISTORY_ARR_SIZE)) [b..<e]"

abbreviation live :: "sender_estimation \<Rightarrow> min_bitrate list" where
  "live est \<equiv> ring_list (min_bitrates est) (begin_index est) (end_index est)"

lemma slots_differ: "j < k \<Longrightarrow> k < j + 128 \<Longrightarrow> j mod 128 \<noteq> k mod (128 :: nat)"
  by (metis add_diff_inverse_nat dvd_imp_le mod_eq_dvd_iff_nat nat_add_left_cancel_less not_le less_imp_le zero_less_diff less_asym)

lemma ring_list_Nil [simp]: "e \<le> b \<Longrightarrow> ring_list r b e = []"
  by (simp add: ring_list_def)

lemma ring_list_Cons: "b < e \<Longrightarrow> ring_list r b e = r ! (b mod 128) # ring_list r (Suc b) e"
  by (simp add: ring_list_def upt_conv_Cons)

lemma tl_ring_list: "tl (ring_list r b e) = ring_list r (Suc b) e"
  by (simp add: ring_list_def tl_upt flip: map_tl)

lemma ring_list_snoc: "b \<le> e \<Longrightarrow> ring_list r b (Suc e) = ring_list r b e @ [r ! (e mod 128)]"
  by (simp add: ring_list_def)

lemma length_ring_list [simp]: "length (ring_list r b e) = e - b"
  by (simp add: ring_list_def)

lemma ring_list_update: "(\<And>j. b \<le> j \<Longrightarrow> j < e \<Longrightarrow> j mod 128 \<noteq> k) \<Longrightarrow> ring_list (r[k := x]) b e = ring_list r b e"
  unfolding ring_list_def by (intro map_cong refl nth_list_update_neq) auto

lemma expire_loop_list:
  assumes "length (min_bitrates est) = 128" and "begin_index est \<le> end_index est" and "end_index est \<le> begin_index est + 128"
  shows "\<exists>b r. expire_loop est t (begin_index est) = est\<lparr>begin_index := b, min_bitrates := r\<rparr> \<and> length r = 128 \<and> begin_index est \<le> b
    \<and> b \<le> end_index est \<and> ring_list r b (end_index est) = dropWhile (\<lambda>m. mb_ts m + 1000 < t) (live est)"
  using assms
proof (induction "end_index est - begin_index est" arbitrary: est rule: less_induct)
  case less
  let ?m = "min_bitrates est ! (begin_index est mod 128)"
  show ?case
  proof (cases "begin_index est < end_index est \<and> mb_ts ?m + 1000 < t")
    case True
    define est' where "est' = est\<lparr>begin_index := begin_index est + 1, min_bitrates := (min_bitrates est)[begin_index est mod 128 := zero_min]\<rparr>"
    have f: "begin_index est' = begin_index est + 1" "end_index est' = end_index est"
      "min_bitrates est' = (min_bitrates est)[begin_index est mod 128 := zero_min]"
      by (simp_all add: est'_def)
    have l: "live est' = ring_list (min_bitrates est) (begin_index est + 1) (end_index est)"
      unfolding f using less.prems(3) by (intro ring_list_update slots_differ [THEN not_sym]) simp_all
    have e: "expire_loop est t (begin_index est) = expire_loop est' t (begin_index est')"
      using True by (subst expire_loop.simps) (simp add: est'_def)
    have "end_index est' - begin_index est' < end_index est - begin_index est"
      using True unfolding f by linarith
    moreover have "begin_index est' \<le> end_index est'" "end_index est' \<le> begin_index est' + 128"
      using True less.prems(3) unfolding f by linarith+
    ultimately obtain b r where
      r: "expire_loop est' t (begin_index est') = est'\<lparr>begin_index := b, min_bitrates := r\<rparr>" "length r = 128" "begin_index est + 1 \<le> b"
        "b \<le> end_index est" "ring_list r b (end_index est) = dropWhile (\<lambda>m. mb_ts m + 1000 < t) (live est')"
      using less.hyps [of est'] less.prems(1) f by auto
    show ?thesis
      using r(1-4) r(5) [unfolded l] True by (intro exI [of _ b] exI [of _ r]) (simp add: e ring_list_Cons est'_def)
  next
    case False
    then have "expire_loop est t (begin_index est) = est"
      by (subst expire_loop.simps) auto
    moreover have "dropWhile (\<lambda>m. mb_ts m + 1000 < t) (live est) = live est"
      using False less.prems(2) by (cases "begin_index est < end_index est") (auto simp: ring_list_Cons)
    ultimately show ?thesis
      using less.prems by (intro exI [of _ "begin_index est"] exI [of _ "min_bitrates est"]) simp
  qed
qed

lemma last_pos_eq: "0 < e \<Longrightarrow> e < 2 ^ 32 \<Longrightarrow> ((e + (2 ^ 32 - 1)) mod 2 ^ 32) mod 128 = (e - 1) mod (128 :: nat)"
  using mod_less [of "e - 1" "2 ^ 32"] mod_add_self2 [of "e - 1" "2 ^ 32"] by (simp add: add.commute)

lemma larger_loop_list:
  assumes "length (min_bitrates est) = 128" and "begin_index est \<le> end_index est" and "end_index est \<le> begin_index est + 128"
    and "end_index est < 2 ^ 32"
  shows "\<exists>e r. larger_loop est = est\<lparr>end_index := e, min_bitrates := r\<rparr> \<and> length r = 128 \<and> begin_index est \<le> e
    \<and> e \<le> end_index est \<and> ring_list r (begin_index est) e = rev (dropWhile (\<lambda>m. curr_bitrate est \<le> mb_bitrate m) (rev (live est)))"
  using assms
proof (induction "end_index est - begin_index est" arbitrary: est rule: less_induct)
  case less
  let ?p = "(end_index est - 1) mod 128"
  have ls: "live est = ring_list (min_bitrates est) (begin_index est) (end_index est - 1) @ [min_bitrates est ! ?p]" if "begin_index est < end_index est"
    using ring_list_snoc [of "begin_index est" "end_index est - 1" "min_bitrates est"] that by simp
  have lp: "last_pos est = ?p" if "begin_index est < end_index est"
    using that less.prems(4) by (intro last_pos_eq) simp_all
  show ?case
  proof (cases "begin_index est < end_index est \<and> curr_bitrate est \<le> mb_bitrate (min_bitrates est ! ?p)")
    case True
    define est' where "est' = est\<lparr>min_bitrates := (min_bitrates est)[?p := zero_min], end_index := end_index est - 1\<rparr>"
    have f: "begin_index est' = begin_index est" "end_index est' = end_index est - 1" "curr_bitrate est' = curr_bitrate est"
      "min_bitrates est' = (min_bitrates est)[?p := zero_min]"
      by (simp_all add: est'_def)
    have "j mod 128 \<noteq> ?p" if "begin_index est \<le> j" "j < end_index est - 1" for j
      using slots_differ [of j "end_index est - 1"] that less.prems(3) by linarith
    then have l: "live est' = ring_list (min_bitrates est) (begin_index est) (end_index est - 1)"
      unfolding f by (rule ring_list_update)
    have e: "larger_loop est = larger_loop est'"
      using True lp by (subst larger_loop.simps) (simp add: est'_def del: One_nat_def)
    have "end_index est' - begin_index est' < end_index est - begin_index est"
      using True unfolding f by linarith
    moreover have "begin_index est' \<le> end_index est'" "end_index est' \<le> begin_index est' + 128" "end_index est' < 2 ^ 32"
      using True less.prems(3,4) unfolding f by linarith+
    ultimately obtain e r where
      r: "larger_loop est' = est'\<lparr>end_index := e, min_bitrates := r\<rparr>" "length r = 128" "begin_index est \<le> e"
        "e \<le> end_index est - 1" "ring_list r (begin_index est) e = rev (dropWhile (\<lambda>m. curr_bitrate est \<le> mb_bitrate m) (rev (live est')))"
      using less.hyps [of est'] less.prems(1) f by auto
    show ?thesis
      using r(1-4) r(5) [unfolded l] True by (intro exI [of _ e] exI [of _ r]) (auto simp: e ls est'_def)
  next
    case False
    then have "larger_loop est = est"
      using lp by (subst larger_loop.simps) auto
    moreover have "rev (dropWhile (\<lambda>m. curr_bitrate est \<le> mb_bitrate m) (rev (live est))) = live est"
      using False less.prems(2) ls by (cases "begin_index est < end_index est") auto
    ultimately show ?thesis
      using less.prems by (intro exI [of _ "end_index est"] exI [of _ "min_bitrates est"]) simp
  qed
qed

definition hist_ok :: "nat \<Rightarrow> sender_estimation \<Rightarrow> bool" where
  "hist_ok n est \<longleftrightarrow> length (min_bitrates est) = 128 \<and> begin_index est \<le> end_index est \<and> end_index est \<le> begin_index est + 128
     \<and> end_index est \<le> n"

text \<open>The history as a list: drop what is older than a second, drop from the back what is not smaller
  than the current rate, drop the first of a full history, append.\<close>

definition dq_step :: "min_bitrate list \<Rightarrow> int \<Rightarrow> u32 \<Rightarrow> min_bitrate list" where
  "dq_step h t c =
     (let h = rev (dropWhile (\<lambda>m. c \<le> mb_bitrate m) (rev (dropWhile (\<lambda>m. mb_ts m + 1000 < t) h)))
      in (if length h = 128 then tl h else h) @ [\<lparr>mb_ts = t, mb_bitrate = c\<rparr>])"

lemma ring_list_append:
  assumes "b \<le> e" and "e < b + 128" and "length r = 128"
  shows "ring_list (r[e mod 128 := x]) b (Suc e) = ring_list r b e @ [x]"
proof -
  have "ring_list (r[e mod 128 := x]) b e = ring_list r b e"
    using assms(2) by (intro ring_list_update slots_differ) simp_all
  then show ?thesis
    using assms(1,3) by (simp add: ring_list_snoc)
qed

lemma history_refines:
  assumes "hist_ok n est" and "n + 128 < 2 ^ 32"
  shows "\<exists>b e r. sender_estimation_update_history est t = est\<lparr>begin_index := b, end_index := e, min_bitrates := r\<rparr>
    \<and> hist_ok (Suc n) (est\<lparr>begin_index := b, end_index := e, min_bitrates := r\<rparr>) \<and> b < e
    \<and> ring_list r b e = dq_step (live est) t (curr_bitrate est)"
proof -
  have ok: "length (min_bitrates est) = 128" "begin_index est \<le> end_index est" "end_index est \<le> begin_index est + 128" "end_index est \<le> n"
    using assms(1) by (simp_all add: hist_ok_def)
  obtain b1 r1 where 1: "expire_loop est t (begin_index est) = est\<lparr>begin_index := b1, min_bitrates := r1\<rparr>" "length r1 = 128"
    "begin_index est \<le> b1" "b1 \<le> end_index est" "ring_list r1 b1 (end_index est) = dropWhile (\<lambda>m. mb_ts m + 1000 < t) (live est)"
    using expire_loop_list [OF ok(1-3)] by blast
  let ?e1 = "est\<lparr>begin_index := b1, min_bitrates := r1\<rparr>"
  have "length (min_bitrates ?e1) = 128" "begin_index ?e1 \<le> end_index ?e1" "end_index ?e1 \<le> begin_index ?e1 + 128" "end_index ?e1 < 2 ^ 32"
    using 1(2-4) ok assms(2) by simp_all
  from larger_loop_list [OF this] obtain e2 r2 where 2: "larger_loop ?e1 = ?e1\<lparr>end_index := e2, min_bitrates := r2\<rparr>" "length r2 = 128"
    "b1 \<le> e2" "e2 \<le> end_index est"
    "ring_list r2 b1 e2 = rev (dropWhile (\<lambda>m. curr_bitrate est \<le> mb_bitrate m) (rev (dropWhile (\<lambda>m. mb_ts m + 1000 < t) (live est))))"
    by (auto simp: 1(5))
  define h where "h = ring_list r2 b1 e2"
  let ?x = "\<lparr>mb_ts = t, mb_bitrate = curr_bitrate est\<rparr>"
  have le: "e2 \<le> b1 + 128" using ok 1 2 by linarith
  have step: "dq_step (live est) t (curr_bitrate est) = (if length h = 128 then tl h else h) @ [?x]"
    unfolding dq_step_def Let_def h_def 2(5) ..
  have lh: "length h = e2 - b1" by (simp add: h_def)
  have nw: "(b1 + 128) mod 2 ^ 32 = b1 + 128" "(b1 + 1) mod 2 ^ 32 = b1 + 1" "(e2 + 1) mod 2 ^ 32 = e2 + 1"
    using 1(4) 2(4) ok(4) assms(2) by (intro mod_less; linarith)+
  have loops: "larger_loop (expire_loop est t (begin_index est)) = est\<lparr>begin_index := b1, end_index := e2, min_bitrates := r2\<rparr>"
    unfolding 1(1) 2(1) by simp
  consider "e2 = b1" | "b1 < e2" "e2 = b1 + 128" | "b1 < e2" "e2 < b1 + 128"
    using 2(3) le by linarith
  then show ?thesis
  proof cases
    case 1
    then have "sender_estimation_update_history est t = est\<lparr>begin_index := 0, end_index := 1, min_bitrates := r2[0 := ?x]\<rparr>"
      by (simp add: sender_estimation_update_history_def loops Let_def)
    moreover have "ring_list (r2[0 := ?x]) 0 1 = dq_step (live est) t (curr_bitrate est)"
      unfolding step using 1 2(2) by (simp add: h_def ring_list_Cons)
    ultimately show ?thesis
      using 2(2) by (intro exI [of _ 0] exI [of _ 1] exI [of _ "r2[0 := ?x]"]) (simp add: hist_ok_def)
  next
    case 2
    then have "sender_estimation_update_history est t
        = est\<lparr>begin_index := b1 + 1, end_index := e2 + 1, min_bitrates := r2[e2 mod 128 := ?x]\<rparr>"
      using nw by (simp add: sender_estimation_update_history_def loops Let_def)
    moreover have "ring_list (r2[e2 mod 128 := ?x]) (b1 + 1) (e2 + 1) = dq_step (live est) t (curr_bitrate est)"
      using ring_list_append [of "b1 + 1" e2 r2 ?x] 2 \<open>length r2 = 128\<close> by (simp add: step lh h_def tl_ring_list)
    moreover have "hist_ok (Suc n) (est\<lparr>begin_index := b1 + 1, end_index := e2 + 1, min_bitrates := r2[e2 mod 128 := ?x]\<rparr>)"
      unfolding hist_ok_def using le \<open>b1 < e2\<close> \<open>length r2 = 128\<close> \<open>e2 \<le> end_index est\<close> ok(4) by simp
    moreover have "b1 + 1 < e2 + 1" using \<open>b1 < e2\<close> by simp
    ultimately show ?thesis by blast
  next
    case 3
    then have "sender_estimation_update_history est t
        = est\<lparr>begin_index := b1, end_index := e2 + 1, min_bitrates := r2[e2 mod 128 := ?x]\<rparr>"
      using nw by (simp add: sender_estimation_update_history_def loops Let_def)
    moreover have "ring_list (r2[e2 mod 128 := ?x]) b1 (e2 + 1) = dq_step (live est) t (curr_bitrate est)"
      using ring_list_append [of b1 e2 r2 ?x] 3 \<open>length r2 = 128\<close> by (simp add: step lh h_def)
    moreover have "hist_ok (Suc n) (est\<lparr>begin_index := b1, end_index := e2 + 1, min_bitrates := r2[e2 mod 128 := ?x]\<rparr>)"
      unfolding hist_ok_def using 3 \<open>length r2 = 128\<close> \<open>e2 \<le> end_index est\<close> ok(4) by simp
    moreover have "b1 < e2 + 1" using \<open>b1 < e2\<close> by simp
    ultimately show ?thesis by blast
  qed
qed

subsection \<open>The head of the list is the minimum of the window\<close>

definition dq_inv :: "(int \<times> u32) list \<Rightarrow> min_bitrate list \<Rightarrow> bool" where
  "dq_inv xs h \<longleftrightarrow> sorted_wrt (\<lambda>a b. mb_ts a \<le> mb_ts b \<and> mb_bitrate a < mb_bitrate b) h \<and> subseq (map (\<lambda>m. (mb_ts m, mb_bitrate m)) h) xs
     \<and> (\<forall>x\<in>set xs. fst (last xs) \<le> fst x + 1000 \<longrightarrow> (\<exists>m\<in>set h. fst x \<le> mb_ts m \<and> mb_bitrate m \<le> snd x))
     \<and> (\<forall>m\<in>set h. fst (last xs) \<le> mb_ts m + 1000)"

lemma dropWhile_sorted:
  "sorted_wrt (\<lambda>a b. P b \<longrightarrow> P a) h \<Longrightarrow> dropWhile P h = filter (\<lambda>x. \<not> P x) h"
proof (induction h)
  case (Cons a h)
  show ?case
  proof (cases "P a")
    case False
    then have "\<forall>x\<in>set h. \<not> P x" using Cons.prems by auto
    then show ?thesis using False by (simp add: filter_id_conv)
  qed (use Cons in simp)
qed simp

lemma subseq_set: "subseq xs ys \<Longrightarrow> set xs \<subseteq> set ys"
  by (induction rule: list_emb.induct) auto

lemma dq_step_inv:
  assumes "dq_inv xs h" and "\<forall>x\<in>set xs. fst x \<le> t" and "length (filter (\<lambda>x. t \<le> fst x + 1000) xs) < 128"
  shows "dq_inv (xs @ [(t, c)]) (dq_step h t c)"
proof -
  let ?p = "\<lambda>m. (mb_ts m, mb_bitrate m)"
  have srt: "sorted_wrt (\<lambda>a b. mb_ts a \<le> mb_ts b \<and> mb_bitrate a < mb_bitrate b) h" and sub: "subseq (map ?p h) xs"
    and cov: "\<And>x. x \<in> set xs \<Longrightarrow> fst (last xs) \<le> fst x + 1000 \<Longrightarrow> \<exists>m\<in>set h. fst x \<le> mb_ts m \<and> mb_bitrate m \<le> snd x"
    using assms(1) by (auto simp: dq_inv_def)
  have mem: "?p m \<in> set xs" if "m \<in> set h" for m
    using that subseq_set [OF sub] by auto
  define h1 where "h1 = dropWhile (\<lambda>m. mb_ts m + 1000 < t) h"
  have h1: "h1 = filter (\<lambda>m. t \<le> mb_ts m + 1000) h"
  proof -
    have "sorted_wrt (\<lambda>a b. mb_ts b + 1000 < t \<longrightarrow> mb_ts a + 1000 < t) h"
      by (rule sorted_wrt_mono_rel [OF _ srt]) auto
    from dropWhile_sorted [OF this] show ?thesis
      by (simp add: h1_def not_less)
  qed
  have "sorted_wrt (\<lambda>a b. c \<le> mb_bitrate a \<longrightarrow> c \<le> mb_bitrate b) h"
    by (rule sorted_wrt_mono_rel [OF _ srt]) auto
  then have "sorted_wrt (\<lambda>a b. c \<le> mb_bitrate b \<longrightarrow> c \<le> mb_bitrate a) (rev h1)"
    unfolding sorted_wrt_rev h1 by (rule sorted_wrt_filter)
  then have h2: "rev (dropWhile (\<lambda>m. c \<le> mb_bitrate m) (rev h1)) = filter (\<lambda>m. t \<le> mb_ts m + 1000 \<and> mb_bitrate m < c) h"
    by (simp add: dropWhile_sorted rev_filter h1 not_le conj_commute)
  define h2 where "h2 = filter (\<lambda>m. t \<le> mb_ts m + 1000 \<and> mb_bitrate m < c) h"
  have sub2: "subseq (map ?p h2) xs"
    using sub by (rule subseq_order.trans [rotated]) (simp add: h2_def subseq_map)
  have "subseq (filter (\<lambda>x. t \<le> fst x + 1000) (map ?p h2)) (filter (\<lambda>x. t \<le> fst x + 1000) xs)"
    using sub2 by (rule subseq_filter)
  moreover have "filter (\<lambda>x. t \<le> fst x + 1000) (map ?p h2) = map ?p h2"
    by (simp add: filter_id_conv h2_def)
  ultimately have "length h2 < 128"
    using assms(3) list_emb_length by fastforce
  then have st: "dq_step h t c = h2 @ [\<lparr>mb_ts = t, mb_bitrate = c\<rparr>]"
    unfolding dq_step_def Let_def h1_def [symmetric] h2 h2_def [symmetric] by simp
  have "sorted_wrt (\<lambda>a b. mb_ts a \<le> mb_ts b \<and> mb_bitrate a < mb_bitrate b) (dq_step h t c)"
    unfolding st sorted_wrt_append using mem assms(2) sorted_wrt_filter [OF srt] by (fastforce simp: h2_def)
  moreover have "subseq (map ?p (dq_step h t c)) (xs @ [(t, c)])"
    using sub2 by (simp add: st list_emb_append_mono)
  moreover have "\<exists>m\<in>set (dq_step h t c). fst x \<le> mb_ts m \<and> mb_bitrate m \<le> snd x"
    if "x \<in> set (xs @ [(t, c)])" "t \<le> fst x + 1000" for x
  proof (cases "x \<in> set xs")
    case True
    then have "fst (last xs) \<le> t" using assms(2) by (cases xs) auto
    with cov [OF True] that(2) obtain m where m: "m \<in> set h" "fst x \<le> mb_ts m" "mb_bitrate m \<le> snd x" by auto
    show ?thesis
    proof (cases "mb_bitrate m < c")
      case True
      then show ?thesis using m that(2) by (auto simp: st h2_def)
    next
      case False
      then show ?thesis using m \<open>x \<in> set xs\<close> assms(2) by (auto simp: st)
    qed
  qed (use that in \<open>simp add: st\<close>)
  ultimately show ?thesis
    by (simp add: dq_inv_def) (auto simp: st h2_def)
qed

lemma dq_min:
  assumes "dq_inv xs h" and "xs \<noteq> []"
  shows "h \<noteq> [] \<and> mb_bitrate (hd h) = Min (snd ` {x \<in> set xs. fst (last xs) \<le> fst x + 1000})"
proof -
  let ?W = "{x \<in> set xs. fst (last xs) \<le> fst x + 1000}"
  have cov: "\<exists>m\<in>set h. mb_bitrate m \<le> snd x" if "x \<in> ?W" for x
    using assms(1) that by (auto simp: dq_inv_def)
  have "last xs \<in> ?W" using assms(2) by simp
  with cov have ne: "h \<noteq> []" by fastforce
  then obtain m h' where h: "h = m # h'" by (cases h) auto
  have "sorted_wrt (\<lambda>a b. mb_ts a \<le> mb_ts b \<and> mb_bitrate a < mb_bitrate b) h"
    using assms(1) by (simp add: dq_inv_def)
  then have least: "mb_bitrate m \<le> mb_bitrate x" if "x \<in> set h" for x
    using that h by fastforce
  have "set (map (\<lambda>m. (mb_ts m, mb_bitrate m)) h) \<subseteq> set xs"
    using assms(1) by (intro subseq_set) (simp add: dq_inv_def)
  then have "(mb_ts m, mb_bitrate m) \<in> ?W"
    using assms(1) by (auto simp: dq_inv_def h)
  then have "mb_bitrate m \<in> snd ` ?W" by force
  moreover have "mb_bitrate m \<le> y" if "y \<in> snd ` ?W" for y
  proof -
    from that have "\<exists>m'\<in>set h. mb_bitrate m' \<le> y" using cov by fastforce
    with least show ?thesis by (meson order_trans)
  qed
  ultimately have "Min (snd ` ?W) = mb_bitrate m"
    by (intro Min_eqI) simp_all
  then show ?thesis by (simp add: h)
qed

definition history_run :: "sender_estimation \<Rightarrow> (int \<times> u32) list \<Rightarrow> sender_estimation" where
  "history_run est xs = foldl (\<lambda>est (t, c). sender_estimation_update_history (est\<lparr>curr_bitrate := c\<rparr>) t) est xs"

definition window_fits :: "(int \<times> u32) list \<Rightarrow> bool" where
  "window_fits xs \<longleftrightarrow> (\<forall>k<length xs. length (filter (\<lambda>x. fst (xs ! k) \<le> fst x + 1000) (take k xs)) < 128)"

lemma window_fits_snoc: "window_fits (xs @ [x]) \<longleftrightarrow> window_fits xs \<and> length (filter (\<lambda>y. fst x \<le> fst y + 1000) xs) < 128"
  unfolding window_fits_def length_append_singleton All_less_Suc by (auto simp: nth_append)

lemma history_run_inv:
  assumes "begin_index est = 0" and "end_index est = 0" and "length (min_bitrates est) = 128"
    and "sorted (map fst xs)" and "window_fits xs" and "length xs + 128 < 2 ^ 32"
  shows "hist_ok (length xs) (history_run est xs) \<and> dq_inv xs (live (history_run est xs))
    \<and> (xs \<noteq> [] \<longrightarrow> begin_index (history_run est xs) < end_index (history_run est xs))"
  using assms(4-6)
proof (induction xs rule: rev_induct)
  case Nil
  then show ?case using assms(1-3) by (simp add: history_run_def hist_ok_def dq_inv_def)
next
  case (snoc x xs)
  obtain t c where x: "x = (t, c)" by (cases x)
  define e0 where "e0 = (history_run est xs)\<lparr>curr_bitrate := c\<rparr>"
  have IH: "hist_ok (length xs) e0" "dq_inv xs (live e0)"
    using snoc by (simp_all add: e0_def window_fits_snoc hist_ok_def sorted_append)
  have len: "length xs + 128 < 2 ^ 32" using snoc.prems(3) by simp
  have run: "history_run est (xs @ [x]) = sender_estimation_update_history e0 t"
    by (simp add: history_run_def x e0_def)
  from history_refines [OF IH(1) len, of t] obtain b e r where
    u: "sender_estimation_update_history e0 t = e0\<lparr>begin_index := b, end_index := e, min_bitrates := r\<rparr>"
      "hist_ok (Suc (length xs)) (e0\<lparr>begin_index := b, end_index := e, min_bitrates := r\<rparr>)" "b < e"
      "ring_list r b e = dq_step (live e0) t (curr_bitrate e0)" by blast
  have "dq_inv (xs @ [(t, c)]) (dq_step (live e0) t c)"
    using snoc.prems(1,2) by (intro dq_step_inv [OF IH(2)]) (auto simp: window_fits_snoc x sorted_append)
  then show ?case
    unfolding run u(1) using u(2-4) by (simp add: x e0_def)
qed

text \<open>C25: The ring of 128 records gives the sliding window minimum: after any run of history updates in
  time order, of which fewer than 128 fall into the second before each, the record at
  \<open>begin_index\<close>, from which the estimator increases the rate, holds the least rate recorded in
  the last second.\<close>

theorem min_history_window:
  assumes "begin_index est = 0" and "end_index est = 0" and "length (min_bitrates est) = 128"
    and "sorted (map fst xs)" and "window_fits xs" and "length xs + 128 < 2 ^ 32" and "xs \<noteq> []"
  shows "mb_bitrate (min_bitrates (history_run est xs) ! (begin_index (history_run est xs) mod MIN_HISTORY_ARR_SIZE))
    = Min (snd ` {x \<in> set xs. fst (last xs) \<le> fst x + 1000})"
proof -
  from history_run_inv [OF assms(1-6)] assms(7)
  have i: "dq_inv xs (live (history_run est xs))" "begin_index (history_run est xs) < end_index (history_run est xs)"
    by simp_all
  from dq_min [OF i(1) assms(7)] ring_list_Cons [OF i(2)] show ?thesis by simp
qed

theorem min_history_window_witness:
  "mb_bitrate (min_bitrates (history_run (sender_estimation_create 0 1000000) [(100, 500), (600, 400), (900, 450), (1300, 460), (1650, 470)])
      ! (begin_index (history_run (sender_estimation_create 0 1000000) [(100, 500), (600, 400), (900, 450), (1300, 460), (1650, 470)]) mod 128)) = 450"
proof -
  have "window_fits [(100, 500), (600, 400), (900, 450), (1300, 460), (1650, 470)]"
    by (simp add: window_fits_def less_Suc_eq_le le_Suc_eq)
  then have "mb_bitrate (min_bitrates (history_run (sender_estimation_create 0 1000000) [(100, 500), (600, 400), (900, 450), (1300, 460), (1650, 470)])
      ! (begin_index (history_run (sender_estimation_create 0 1000000) [(100, 500), (600, 400), (900, 450), (1300, 460), (1650, 470)]) mod 128))
    = Min (snd ` {x \<in> set [(100 :: int, 500 :: u32), (600, 400), (900, 450), (1300, 460), (1650, 470)]. fst (last [(100 :: int, 500 :: u32), (600, 400), (900, 450), (1300, 460), (1650, 470)]) \<le> fst x + 1000})"
    by (intro min_history_window) (simp_all add: sender_estimation_create_def)
  also have "{x \<in> set [(100 :: int, 500 :: u32), (600, 400), (900, 450), (1300, 460), (1650, 470)]. fst (last [(100 :: int, 500 :: u32), (600, 400), (900, 450), (1300, 460), (1650, 470)]) \<le> fst x + 1000}
      = {(900, 450), (1300, 460), (1650, 470)}" by auto
  finally show ?thesis by (simp add: min_def)
qed

subsection \<open>The rate stays between the bounds\<close>

text \<open>Below \<open>rate_cap\<close> the increase by 8 percent fits \<^verbatim>\<open>uint32_t\<close>.\<close>

abbreviation rate_cap :: u32 where "rate_cap \<equiv> 3900000000"

definition sender_inv :: "sender_estimation \<Rightarrow> bool" where
  "sender_inv est \<longleftrightarrow> min_conf_bitrate est \<le> curr_bitrate est \<and> curr_bitrate est \<le> max_conf_bitrate est \<and> max_conf_bitrate est \<le> rate_cap
     \<and> length (min_bitrates est) = 128 \<and> (\<forall>m\<in>set (min_bitrates est). mb_bitrate m \<le> rate_cap)"

lemma expire_loop_frame:
  "\<exists>b r. expire_loop est t i = est\<lparr>begin_index := b, min_bitrates := r\<rparr> \<and> length r = length (min_bitrates est)
    \<and> set r \<subseteq> insert zero_min (set (min_bitrates est))"
proof (induction est t i rule: expire_loop.induct)
  case (1 est t i)
  show ?case
  proof (cases "i < end_index est \<and> mb_ts (min_bitrates est ! (i mod 128)) + 1000 < t")
    case True
    from "1.IH" True obtain b r where
      r: "expire_loop (est\<lparr>begin_index := i + 1, min_bitrates := (min_bitrates est)[i mod 128 := zero_min]\<rparr>) t (i + 1)
          = est\<lparr>begin_index := b, min_bitrates := r\<rparr>" "length r = length (min_bitrates est)"
        "set r \<subseteq> insert zero_min (set ((min_bitrates est)[i mod 128 := zero_min]))"
      by auto
    then have "set r \<subseteq> insert zero_min (set (min_bitrates est))"
      using set_update_subset_insert [of "min_bitrates est" "i mod 128" zero_min] by blast
    with r(1,2) True show ?thesis
      by (subst expire_loop.simps) auto
  next
    case False
    then show ?thesis
      by (subst expire_loop.simps) (auto intro!: exI [of _ "begin_index est"] exI [of _ "min_bitrates est"])
  qed
qed

lemma larger_loop_frame:
  "\<exists>e r. larger_loop est = est\<lparr>end_index := e, min_bitrates := r\<rparr> \<and> length r = length (min_bitrates est)
    \<and> set r \<subseteq> insert zero_min (set (min_bitrates est))"
proof (induction est rule: larger_loop.induct)
  case (1 est)
  show ?case
  proof (cases "begin_index est < end_index est \<and> curr_bitrate est \<le> mb_bitrate (min_bitrates est ! last_pos est)")
    case True
    define p where "p = last_pos est"
    from "1.IH" [OF True] obtain e r where
      r: "larger_loop (est\<lparr>min_bitrates := (min_bitrates est)[p := zero_min], end_index := end_index est - 1\<rparr>)
          = est\<lparr>end_index := e, min_bitrates := r\<rparr>" "length r = length (min_bitrates est)"
        "set r \<subseteq> insert zero_min (set ((min_bitrates est)[p := zero_min]))"
      unfolding p_def [symmetric] by auto
    then have "set r \<subseteq> insert zero_min (set (min_bitrates est))"
      using set_update_subset_insert [of "min_bitrates est" p zero_min] by blast
    moreover have "larger_loop est = larger_loop (est\<lparr>min_bitrates := (min_bitrates est)[p := zero_min], end_index := end_index est - 1\<rparr>)"
      unfolding p_def using True by (subst larger_loop.simps) (simp only: simp_thms if_True)
    ultimately show ?thesis
      using r(1,2) by metis
  next
    case False
    then have "larger_loop est = est" by (subst larger_loop.simps) (simp only: if_False)
    then show ?thesis
      by (intro exI [of _ "end_index est"] exI [of _ "min_bitrates est"]) auto
  qed
qed

lemma history_frame:
  "\<exists>b e r. sender_estimation_update_history est t = est\<lparr>begin_index := b, end_index := e, min_bitrates := r\<rparr>
    \<and> length r = length (min_bitrates est)
    \<and> set r \<subseteq> {zero_min, \<lparr>mb_ts = t, mb_bitrate = curr_bitrate est\<rparr>} \<union> set (min_bitrates est)"
proof -
  obtain b1 r1 where 1: "expire_loop est t (begin_index est) = est\<lparr>begin_index := b1, min_bitrates := r1\<rparr>"
    "length r1 = length (min_bitrates est)" "set r1 \<subseteq> insert zero_min (set (min_bitrates est))"
    using expire_loop_frame by blast
  obtain e2 r2 where 2: "larger_loop (est\<lparr>begin_index := b1, min_bitrates := r1\<rparr>) = est\<lparr>begin_index := b1, end_index := e2, min_bitrates := r2\<rparr>"
    "length r2 = length (min_bitrates est)" "set r2 \<subseteq> insert zero_min (set (min_bitrates est))"
    using larger_loop_frame [of "est\<lparr>begin_index := b1, min_bitrates := r1\<rparr>"] 1(2,3) by auto
  let ?x = "\<lparr>mb_ts = t, mb_bitrate = curr_bitrate est\<rparr>"
  have s: "set (r2[k := ?x]) \<subseteq> {zero_min, ?x} \<union> set (min_bitrates est)" for k
    using set_update_subset_insert [of r2 k ?x] 2(3) by blast
  define e0 where "e0 = (if e2 = b1 then 0 else e2)"
  define b0 where "b0 = (if e2 = b1 then 0 else b1)"
  have "sender_estimation_update_history est t = est\<lparr>begin_index := (if e0 = (b0 + 128) mod 2 ^ 32 then (b0 + 1) mod 2 ^ 32 else b0),
      end_index := (e0 + 1) mod 2 ^ 32, min_bitrates := r2[e0 mod 128 := ?x]\<rparr>"
    unfolding sender_estimation_update_history_def 1(1) 2(1) Let_def e0_def b0_def by (cases "e2 = b1") simp_all
  then show ?thesis
    using s [of "e0 mod 128"] 2(2) length_list_update [of r2 "e0 mod 128" ?x] by metis
qed

lemma history_inv: "sender_inv est \<Longrightarrow> sender_inv (sender_estimation_update_history est t)
    \<and> min_conf_bitrate (sender_estimation_update_history est t) = min_conf_bitrate est
    \<and> max_conf_bitrate (sender_estimation_update_history est t) = max_conf_bitrate est"
  using history_frame [of est t] unfolding sender_inv_def by fastforce

lemma cap_inv:
  assumes "min_conf_bitrate est \<le> max_conf_bitrate est" and "max_conf_bitrate est \<le> rate_cap"
    and "length (min_bitrates est) = 128" and "\<forall>m\<in>set (min_bitrates est). mb_bitrate m \<le> rate_cap"
  shows "sender_inv (cap_bitrate_to_threshold est t b) \<and> min_conf_bitrate (cap_bitrate_to_threshold est t b) = min_conf_bitrate est
    \<and> max_conf_bitrate (cap_bitrate_to_threshold est t b) = max_conf_bitrate est"
  using assms by (auto simp: cap_bitrate_to_threshold_def sender_inv_def Let_def)

lemma cap_keeps:
  assumes "sender_inv est"
  shows "sender_inv (cap_bitrate_to_threshold est t b) \<and> min_conf_bitrate (cap_bitrate_to_threshold est t b) = min_conf_bitrate est
    \<and> max_conf_bitrate (cap_bitrate_to_threshold est t b) = max_conf_bitrate est"
  using assms by (intro cap_inv) (auto simp: sender_inv_def)

lemma sender_inv_index [simp]: "sender_inv (est\<lparr>end_index := e, begin_index := b\<rparr>) = sender_inv est"
  by (simp add: sender_inv_def)

lemma increase_total:
  assumes "b \<le> rate_cap"
  shows "\<exists>w. fp_to_u32 (fp_of_int (uint b) * (fp_lit 1.08 :: double) + fp_lit 0.5 + fp_of_int 1000) = Some w"
proof -
  have "uint b \<le> 3900000000" using assms by (simp add: word_le_def)
  from fin_in_of_int_range [OF uint_u32_range(2) this, where 'p = 53]
  have b: "fin_in 0 3900000000 (fp_of_int (uint b) :: double)" by simp
  have "frep TYPE(53) (35 / 32)" using frep_double_frac [of 35 5] by simp
  then have "fin_in 0 (35 / 32) (fp_lit 1.08 :: double)" by (intro fin_in_lit) simp_all
  then have m: "fin_in 0 4265625000 (fp_of_int (uint b) * (fp_lit 1.08 :: double))"
    by (rule fin_in_mul [OF b]) simp_all
  have "fin_in 0 1 (fp_lit 0.5 :: double)" by (rule fin_in_lit) simp_all
  then have a: "fin_in 0 4265625001 (fp_of_int (uint b) * (fp_lit 1.08 :: double) + fp_lit 0.5)"
    by (rule fin_in_add [OF m]) simp_all
  have "fin_in 1000 1000 (fp_of_int 1000 :: double)" by (rule fin_in_of_int) simp_all
  then have "fin_in 0 4265626001 (fp_of_int (uint b) * (fp_lit 1.08 :: double) + fp_lit 0.5 + fp_of_int 1000)"
    by (rule fin_in_add [OF a]) simp_all
  from fin_in_to_u32 [OF this] show ?thesis by auto
qed

lemma float_bounds_2: "frep TYPE(24) 4294967296" "frep TYPE(24) (2207159 / 2)" "frep TYPE(24) 565032704"
  unfolding frep_def by ((rule float_rep [of 1 32]; simp), (rule float_rep_frac [of 2207159 1]; simp), (rule float_rep [of 2207159 8]; simp))

lemma loss_rate_total: "\<exists>w. fp_to_u32 (fp_of_int (uint (c :: u32)) div (fp_lit 512 :: float)) = Some w"
proof -
  have "uint c \<le> 4294967296" using uint_u32_range(1) [of c] by linarith
  from fin_in_of_int_range [OF uint_u32_range(2) this, where 'p = 24]
  have c: "fin_in 0 4294967296 (fp_of_int (uint c) :: float)" by (simp add: float_bounds_2)
  have "fin_in 512 512 (fp_lit 512 :: float)" by (rule fin_in_lit) simp_all
  then have "fin_in 0 8388608 (fp_of_int (uint c) div (fp_lit 512 :: float))"
    by (rule fin_in_div [OF c]) simp_all
  from fin_in_to_u32 [OF this] show ?thesis by auto
qed

lemma loss_control_total:
  assumes "sender_inv est"
  shows "\<exists>est' w. loss_control est t n = Some (est', w) \<and> sender_inv est' \<and> min_conf_bitrate est' = min_conf_bitrate est
    \<and> max_conf_bitrate est' = max_conf_bitrate est"
proof -
  have "begin_index est mod 128 < length (min_bitrates est)" using assms by (simp add: sender_inv_def)
  then have "mb_bitrate (min_bitrates est ! (begin_index est mod 128)) \<le> rate_cap"
    using assms nth_mem unfolding sender_inv_def by blast
  from increase_total [OF this] loss_rate_total [of "curr_bitrate est * (512 - ucast (last_fraction_loss est))"] assms
  show ?thesis
    by (auto simp: loss_control_def Let_def sender_inv_def simp del: plus_fp_def times_fp_def divide_fp_def)
qed

lemma sender_update_total:
  assumes "sender_inv est"
  shows "\<exists>est'. sender_estimation_update est t = Some est' \<and> sender_inv est' \<and> min_conf_bitrate est' = min_conf_bitrate est
    \<and> max_conf_bitrate est' = max_conf_bitrate est"
proof -
  define e1 where "e1 = sender_estimation_update_history est t"
  have e1: "sender_inv e1" "min_conf_bitrate e1 = min_conf_bitrate est" "max_conf_bitrate e1 = max_conf_bitrate est"
    using history_inv [OF assms] by (simp_all add: e1_def)
  have cap: "sender_inv (cap_bitrate_to_threshold e t w) \<and> min_conf_bitrate (cap_bitrate_to_threshold e t w) = min_conf_bitrate est
      \<and> max_conf_bitrate (cap_bitrate_to_threshold e t w) = max_conf_bitrate est"
    if "sender_inv e" "min_conf_bitrate e = min_conf_bitrate est" "max_conf_bitrate e = max_conf_bitrate est" for e w
    using cap_keeps [OF that(1)] that(2,3) by simp
  define x where "x = est\<lparr>begin_index := 0, end_index := 1, min_bitrates := (min_bitrates est)[0 := \<lparr>mb_ts = t, mb_bitrate = curr_bitrate est\<rparr>]\<rparr>"
  have "set (min_bitrates x) \<subseteq> insert \<lparr>mb_ts = t, mb_bitrate = curr_bitrate est\<rparr> (set (min_bitrates est))"
    by (simp add: x_def set_update_subset_insert)
  then have start: "sender_inv x" "min_conf_bitrate x = min_conf_bitrate est" "max_conf_bitrate x = max_conf_bitrate est"
    using assms by (fastforce simp: sender_inv_def x_def)+
  have to: "sender_inv (e1\<lparr>lost_packets_Q8 := 0, expected_packets := 0, last_timeout_ts := t\<rparr>)"
    using e1(1) by (simp add: sender_inv_def)
  obtain e2 w where lc: "loss_control e1 t (curr_bitrate est) = Some (e2, w)" "sender_inv e2" "min_conf_bitrate e2 = min_conf_bitrate est"
      "max_conf_bitrate e2 = max_conf_bitrate est"
    using loss_control_total [OF e1(1)] e1(2,3) by metis
  show ?thesis
    unfolding sender_estimation_update_def Let_def e1_def [symmetric] x_def [symmetric]
    using cap [OF start] cap [OF e1] cap [OF lc(2-4)] cap [OF to] lc(1) e1(2,3)
    by (simp del: plus_fp_def times_fp_def divide_fp_def less_fp_def)
qed

text \<open>What the congestion controller calls on a sender estimate.\<close>

datatype sender_op = SUpdate int | SRemb int u32 | SDelayBase int u32 | SBlock u8 u32 int int | SSend int u32

fun sender_step :: "sender_estimation \<Rightarrow> sender_op \<Rightarrow> sender_estimation option" where
  "sender_step est (SUpdate t) = sender_estimation_update est t"
| "sender_step est (SRemb t b) = Some (sender_estimation_update_remb est t b)"
| "sender_step est (SDelayBase t b) = Some (sender_estimation_update_delay_base est t b)"
| "sender_step est (SBlock l rtt n t) = sender_estimation_update_block est l rtt n t"
| "sender_step est (SSend t b) = Some (sender_estimation_set_send_bitrate est t b)"

fun sender_run :: "sender_estimation \<Rightarrow> sender_op list \<Rightarrow> u32 list option" where
  "sender_run est [] = Some [curr_bitrate est]"
| "sender_run est (op # ops) = (case sender_step est op of None \<Rightarrow> None
     | Some est' \<Rightarrow> map_option ((#) (curr_bitrate est)) (sender_run est' ops))"

lemma sender_step_total:
  assumes "sender_inv est"
  shows "\<exists>est'. sender_step est op = Some est' \<and> sender_inv est' \<and> min_conf_bitrate est' = min_conf_bitrate est
    \<and> max_conf_bitrate est' = max_conf_bitrate est"
proof (cases op)
  case (SUpdate t)
  then show ?thesis using sender_update_total [OF assms] by simp
next
  case (SRemb t b)
  have "sender_inv (est\<lparr>bwe_incoming := b\<rparr>)" using assms by (simp add: sender_inv_def)
  from cap_keeps [OF this] show ?thesis
    by (simp add: SRemb sender_estimation_update_remb_def)
next
  case (SDelayBase t b)
  have "sender_inv (est\<lparr>delay_base_bitrate := b\<rparr>)" using assms by (simp add: sender_inv_def)
  from cap_keeps [OF this] show ?thesis
    by (simp add: SDelayBase sender_estimation_update_delay_base_def)
next
  case (SSend t b)
  then show ?thesis
    using cap_keeps [OF assms, of t b] by (simp add: sender_estimation_set_send_bitrate_def)
next
  case (SBlock l rtt n t)
  define e1 where "e1 = est\<lparr>last_feelback_ts := t, first_report_ts := (if first_report_ts est = -1 then t else first_report_ts est),
     last_rtt := (if 0 < rtt then rtt else last_rtt est)\<rparr>"
  define e2 where "e2 = e1\<lparr>lost_packets_Q8 := s32 (lost_packets_Q8 e1 + s32 (uint l * n)), expected_packets := s32 (expected_packets e1 + n)\<rparr>"
  define e3 where "e3 = e2\<lparr>has_decreased_since_last_fraction_loss := -1,
     last_fraction_loss := word_of_int (lost_packets_Q8 e2 sdiv expected_packets e2), lost_packets_Q8 := 0, expected_packets := 0, last_packet_report_ts := t\<rparr>"
  have i: "sender_inv e1" "sender_inv e2" "sender_inv e3" and m: "min_conf_bitrate e1 = min_conf_bitrate est" "max_conf_bitrate e1 = max_conf_bitrate est"
    "min_conf_bitrate e2 = min_conf_bitrate est" "max_conf_bitrate e2 = max_conf_bitrate est"
    "min_conf_bitrate e3 = min_conf_bitrate est" "max_conf_bitrate e3 = max_conf_bitrate est"
    using assms by (simp_all add: e1_def e2_def e3_def sender_inv_def)
  have "(let est = est\<lparr>last_feelback_ts := t\<rparr>; est = if first_report_ts est = -1 then est\<lparr>first_report_ts := t\<rparr> else est
      in if 0 < rtt then est\<lparr>last_rtt := rtt\<rparr> else est) = e1"
    by (simp add: e1_def)
  then have "sender_estimation_update_block est l rtt n t =
      (if 0 < n then if expected_packets e2 < 20 then Some e2 else sender_estimation_update e3 t else Some e1)"
    unfolding sender_estimation_update_block_def Let_def by (simp only: e2_def e3_def)
  then show ?thesis
    using i m sender_update_total [OF i(3), of t] by (simp add: SBlock)
qed

lemma sender_run_bounds:
  "sender_inv est \<Longrightarrow> \<exists>rs. sender_run est ops = Some rs \<and> length rs = Suc (length ops)
    \<and> (\<forall>r\<in>set rs. min_conf_bitrate est \<le> r \<and> r \<le> max_conf_bitrate est)"
proof (induction ops arbitrary: est)
  case Nil
  then show ?case by (simp add: sender_inv_def)
next
  case (Cons op ops)
  obtain est' where s: "sender_step est op = Some est'" "sender_inv est'" "min_conf_bitrate est' = min_conf_bitrate est"
    "max_conf_bitrate est' = max_conf_bitrate est"
    using sender_step_total [OF Cons.prems] by blast
  from Cons.IH [OF s(2)] s Cons.prems show ?case by (auto simp: sender_inv_def)
qed

text \<open>C24: The sender's rate stays between the configured bounds: after the bounds are set (the minimum is
  the larger of the two minima, the maximum at most 3.9 Gbit/s) every sequence of loss reports, receiver
  and delay based estimates, forced rates and timer updates is defined and every rate is within them.\<close>

theorem sender_rate_in_bounds:
  assumes "mn0 \<le> 3900000000" and "mn \<le> 3900000000" and "0 < mx" and "mx \<le> 3900000000"
  shows "\<exists>rs. sender_run (sender_estimation_set_bitrates (sender_estimation_create mn0 mx0) t rate mn mx) ops = Some rs
    \<and> length rs = Suc (length ops) \<and> (\<forall>r\<in>set rs. su_max mn0 mn \<le> r \<and> r \<le> su_max (su_max mn0 mn) mx)"
proof -
  define e where "e = sender_estimation_set_minmax_bitrate (sender_estimation_create mn0 mx0) mn mx"
  have e: "min_conf_bitrate e = su_max mn0 mn" "max_conf_bitrate e = su_max (su_max mn0 mn) mx"
    "min_bitrates e = replicate 128 zero_min"
    using assms(3) by (simp_all add: e_def sender_estimation_set_minmax_bitrate_def sender_estimation_create_def Let_def)
  have "sender_inv (cap_bitrate_to_threshold e t rate) \<and> min_conf_bitrate (cap_bitrate_to_threshold e t rate) = min_conf_bitrate e
    \<and> max_conf_bitrate (cap_bitrate_to_threshold e t rate) = max_conf_bitrate e"
    using assms(1,2,4) by (intro cap_inv) (simp_all add: e)
  then have "sender_inv (sender_estimation_set_bitrates (sender_estimation_create mn0 mx0) t rate mn mx)"
    "min_conf_bitrate (sender_estimation_set_bitrates (sender_estimation_create mn0 mx0) t rate mn mx) = su_max mn0 mn"
    "max_conf_bitrate (sender_estimation_set_bitrates (sender_estimation_create mn0 mx0) t rate mn mx) = su_max (su_max mn0 mn) mx"
    by (simp_all add: sender_estimation_set_bitrates_def sender_estimation_set_send_bitrate_def e_def [symmetric] e)
  with sender_run_bounds [of "sender_estimation_set_bitrates (sender_estimation_create mn0 mx0) t rate mn mx" ops] show ?thesis by simp
qed

theorem sender_rate_in_bounds_witness:
  "\<exists>rs. sender_run (sender_estimation_set_bitrates (sender_estimation_create 10000 0) 0 500000 64000 2000000)
      [SUpdate 100, SBlock 60 50 30 200, SDelayBase 300 400000, SUpdate 20000, SRemb 20100 1000] = Some rs
    \<and> length rs = Suc (Suc (Suc (Suc (Suc (Suc 0))))) \<and> (\<forall>r\<in>set rs. 64000 \<le> r \<and> r \<le> 2000000)"
  using sender_rate_in_bounds [of 10000 64000 2000000 0 0 500000 "[SUpdate 100, SBlock 60 50 30 200, SDelayBase 300 400000, SUpdate 20000, SRemb 20100 1000]"]
  by (simp del: sender_run.simps)

text \<open>The decrease of the rate on high loss wraps: the product with \<open>512 - loss\<close> is taken in
  \<^verbatim>\<open>uint32_t\<close>. At 10 Mbit/s and a loss of 26/256, which should give 9492187 bit/s, the new rate is 1103579.\<close>

lemma loss_decrease_wraps:
  "loss_control ((sender_estimation_create 0 100000000)\<lparr>curr_bitrate := 10000000, last_fraction_loss := 26, last_decrease_ts := 0, last_rtt := 50\<rparr>)
     1000 10000000
   = Some ((sender_estimation_create 0 100000000)\<lparr>curr_bitrate := 10000000, last_fraction_loss := 26, last_decrease_ts := 1000, last_rtt := 50,
       has_decreased_since_last_fraction_loss := 0\<rparr>, 1103579)"
proof -
  have r: "frep TYPE(24) (3 / 32)" "frep TYPE(24) (13 / 128)" "frep TYPE(53) (3 / 32)" "frep TYPE(53) (13 / 128)"
    using float_rep_frac [of 3 5 "3 / 32"] float_rep_frac [of 13 7 "13 / 128"] frep_double_frac [of 3 5] frep_double_frac [of 13 7]
    by (simp_all add: frep_def)
  have "fin_in 0 (3 / 32) (fp_lit 0.02 :: float)" by (rule fin_in_lit) (simp_all add: r)
  then have "fin_in 0 (3 / 32) (fp_conv (fp_lit 0.02 :: float) :: double)" by (rule fin_in_conv) (simp_all add: r)
  then obtain lo where lo: "fp_conv (fp_lit 0.02 :: float) = (Fin lo :: double)" "lo \<le> 3 / 32" by (auto elim!: fin_inE)
  have "fin_in 0 (13 / 128) (fp_lit 0.1 :: float)" by (rule fin_in_lit) (simp_all add: r)
  then have "fin_in 0 (13 / 128) (fp_conv (fp_lit 0.1 :: float) :: double)" by (rule fin_in_conv) (simp_all add: r)
  then obtain hi where hi: "fp_conv (fp_lit 0.1 :: float) = (Fin hi :: double)" "hi \<le> 13 / 128" by (auto elim!: fin_inE)
  have "fin_in 26 26 (fp_of_int 26 :: double)" by (rule fin_in_of_int) simp_all
  moreover have "fin_in 256 256 (fp_lit 256 :: double)" by (rule fin_in_lit) simp_all
  ultimately have "fin_in (13 / 128) (13 / 128) (fp_of_int 26 div fp_lit 256 :: double)"
    by (rule fin_in_div) (simp_all add: r)
  then have loss: "fp_of_int 26 div fp_lit 256 = (Fin (13 / 128) :: double)" by (auto elim!: fin_inE)
  have u26: "uint (26 :: u8) = 26" by simp
  have c: "uint (10000000 * (512 - ucast (26 :: u8)) :: u32) = 565032704" by simp
  have "fin_in 565032704 565032704 (fp_of_int 565032704 :: float)"
    by (rule fin_in_of_int) (simp_all add: float_bounds_2)
  moreover have "fin_in 512 512 (fp_lit 512 :: float)" by (rule fin_in_lit) simp_all
  ultimately have "fin_in (2207159 / 2) (2207159 / 2) (fp_of_int 565032704 div fp_lit 512 :: float)"
    by (rule fin_in_div) (simp_all add: float_bounds_2)
  then have "fp_of_int 565032704 div fp_lit 512 = (Fin (2207159 / 2) :: float)" by (auto elim!: fin_inE)
  then have rate: "fp_to_u32 (fp_of_int (uint (10000000 * (512 - ucast (26 :: u8)) :: u32)) div fp_lit 512 :: float) = Some 1103579"
    unfolding c by (simp add: fp_to_u32_def trunc_real_def del: divide_fp_def)
  define e where "e = (sender_estimation_create 0 100000000)\<lparr>curr_bitrate := 10000000, last_fraction_loss := 26, last_decrease_ts := 0, last_rtt := 50\<rparr>"
  have e: "curr_bitrate e = 10000000" "last_fraction_loss e = 26" "last_decrease_ts e = 0" "last_rtt e = 50" "bitrate_threshold e = 0"
    "has_decreased_since_last_fraction_loss e = -1" "low_loss_threshold e = fp_lit 0.02" "high_loss_threshold e = fp_lit 0.1"
    by (simp_all add: e_def sender_estimation_create_def)
  have "loss_control e 1000 10000000 = Some (e\<lparr>last_decrease_ts := 1000, has_decreased_since_last_fraction_loss := 0\<rparr>, 1103579)"
    using lo(2) hi(2) unfolding loss_control_def Let_def e rate u26 loss lo(1) hi(1) by simp
  then show ?thesis by (simp add: e_def)
qed

end
