(* ===== verification/Bitrate_Controller.thy ===== *)
theory Bitrate_Controller
  imports Sender_Bandwidth
begin

text \<open>
  \<^verbatim>\<open>estimator/bitrate_controller.c\<close>: the owner of the sender's estimate. Every operation that may
  change the estimate ends in a notification of the upper layer (the callback \<^verbatim>\<open>trigger_func\<close>) when the
  rate, the loss, the round trip time or the reserved rate differ from what was told last. A notification
  is an output of the operation. \<open>has_trigger\<close> is that both callback pointers are set. \<open>GET_SYS_MS\<close> is
  an argument, once for each call of it.

  The lemmas: an operation keeps \<open>ctrl_inv\<close> (the estimate is between its bounds, and what was told last
  is what holds now).
\<close>

abbreviation k_normal_notify_timer :: int where "k_normal_notify_timer \<equiv> 2000"

record bitrate_controller =
  last_bitrate_update_ts :: int
  notify_ts :: int
  reserved_bitrate_bps :: u32
  last_bitrate_bps :: u32
  bc_last_fraction_loss :: u8
  bc_last_rtt :: u32
  last_reserved_bitrate_bps :: u32
  bc_est :: sender_estimation
  has_trigger :: bool

type_synonym notification = "u32 \<times> u8 \<times> u32"

text \<open>The result, the three out-parameters and the new state.\<close>

definition bitrate_controller_get_parameter :: "bitrate_controller \<Rightarrow> int \<times> notification \<times> bitrate_controller" where
  "bitrate_controller_get_parameter ctrl =
     (let cur_bitrate = curr_bitrate (bc_est ctrl);
          cur_bitrate = cur_bitrate - su_min cur_bitrate (reserved_bitrate_bps ctrl);
          rtt = last_rtt (bc_est ctrl);
          fraction_loss = last_fraction_loss (bc_est ctrl);
          bitrate = su_max cur_bitrate (min_conf_bitrate (bc_est ctrl))
      in if fraction_loss \<noteq> bc_last_fraction_loss ctrl \<or> rtt \<noteq> bc_last_rtt ctrl \<or> bitrate \<noteq> last_bitrate_bps ctrl
            \<or> last_reserved_bitrate_bps ctrl \<noteq> reserved_bitrate_bps ctrl
         then (0, (bitrate, fraction_loss, rtt), ctrl\<lparr>bc_last_fraction_loss := fraction_loss, last_bitrate_bps := bitrate,
                 bc_last_rtt := rtt, last_reserved_bitrate_bps := reserved_bitrate_bps ctrl\<rparr>)
         else (-1, (bitrate, fraction_loss, rtt), ctrl))"

definition maybe_trigger_network_changed :: "bitrate_controller \<Rightarrow> int \<Rightarrow> bitrate_controller \<times> notification list" where
  "maybe_trigger_network_changed ctrl sys_ts =
     (if has_trigger ctrl then
        (case bitrate_controller_get_parameter ctrl of (r, n, ctrl) \<Rightarrow>
           if r = 0 then (ctrl\<lparr>notify_ts := sys_ts\<rparr>, [n]) else (ctrl, []))
      else (ctrl, []))"

definition bitrate_controller_create :: "bool \<Rightarrow> int \<Rightarrow> bitrate_controller" where
  "bitrate_controller_create trigger sys_ts = \<lparr>last_bitrate_update_ts = sys_ts, notify_ts = sys_ts, reserved_bitrate_bps = 0,
     last_bitrate_bps = 0, bc_last_fraction_loss = 0, bc_last_rtt = 0, last_reserved_bitrate_bps = 0,
     bc_est = sender_estimation_create 10000 1500000, has_trigger = trigger\<rparr>"

definition bitrate_controller_available_bandwidth :: "bitrate_controller \<Rightarrow> u32" where
  "bitrate_controller_available_bandwidth ctrl =
     (let bitrate = curr_bitrate (bc_est ctrl) in
      if 0 < bitrate then su_max (bitrate - su_min bitrate (reserved_bitrate_bps ctrl)) (max_conf_bitrate (bc_est ctrl)) else bitrate)"

definition bitrate_controller_set_start_bitrate :: "bitrate_controller \<Rightarrow> u32 \<Rightarrow> int \<Rightarrow> int \<Rightarrow> bitrate_controller \<times> notification list" where
  "bitrate_controller_set_start_bitrate ctrl start_bitrate sys1 sys2 =
     maybe_trigger_network_changed (ctrl\<lparr>bc_est := sender_estimation_set_send_bitrate (bc_est ctrl) sys1 start_bitrate\<rparr>) sys2"

definition bitrate_controller_set_conf_bitrate :: "bitrate_controller \<Rightarrow> u32 \<Rightarrow> u32 \<Rightarrow> int \<Rightarrow> bitrate_controller \<times> notification list" where
  "bitrate_controller_set_conf_bitrate ctrl min_bitrate max_bitrate sys_ts =
     maybe_trigger_network_changed (ctrl\<lparr>bc_est := sender_estimation_set_minmax_bitrate (bc_est ctrl) min_bitrate max_bitrate\<rparr>) sys_ts"

definition bitrate_controller_set_bitrates ::
  "bitrate_controller \<Rightarrow> u32 \<Rightarrow> u32 \<Rightarrow> u32 \<Rightarrow> int \<Rightarrow> int \<Rightarrow> bitrate_controller \<times> notification list" where
  "bitrate_controller_set_bitrates ctrl bitrate min_bitrate max_bitrate sys1 sys2 =
     (let est = sender_estimation_set_minmax_bitrate (bc_est ctrl) min_bitrate max_bitrate
      in maybe_trigger_network_changed (ctrl\<lparr>bc_est := sender_estimation_set_send_bitrate est sys1 bitrate\<rparr>) sys2)"

definition bitrate_controller_reset_bitrates ::
  "bitrate_controller \<Rightarrow> u32 \<Rightarrow> u32 \<Rightarrow> u32 \<Rightarrow> int \<Rightarrow> int \<Rightarrow> bitrate_controller \<times> notification list" where
  "bitrate_controller_reset_bitrates ctrl bitrate min_bitrate max_bitrate sys1 sys2 =
     (let est = sender_estimation_set_minmax_bitrate (sender_estimation_create 10000 1500000) min_bitrate max_bitrate
      in maybe_trigger_network_changed (ctrl\<lparr>bc_est := sender_estimation_set_send_bitrate est sys1 bitrate\<rparr>) sys2)"

definition bitrate_controller_set_reserved :: "bitrate_controller \<Rightarrow> u32 \<Rightarrow> int \<Rightarrow> bitrate_controller \<times> notification list" where
  "bitrate_controller_set_reserved ctrl bitrate sys_ts = maybe_trigger_network_changed (ctrl\<lparr>reserved_bitrate_bps := bitrate\<rparr>) sys_ts"

definition bitrate_controller_on_remb :: "bitrate_controller \<Rightarrow> u32 \<Rightarrow> int \<Rightarrow> int \<Rightarrow> bitrate_controller \<times> notification list" where
  "bitrate_controller_on_remb ctrl bitrate sys1 sys2 =
     maybe_trigger_network_changed (ctrl\<lparr>bc_est := sender_estimation_update_remb (bc_est ctrl) sys1 bitrate\<rparr>) sys2"

definition bitrate_controller_on_report ::
  "bitrate_controller \<Rightarrow> u32 \<Rightarrow> int \<Rightarrow> u8 \<Rightarrow> int \<Rightarrow> int \<Rightarrow> (bitrate_controller \<times> notification list) option" where
  "bitrate_controller_on_report ctrl rtt cur_ts fraction_loss packets_num sys_ts =
     (if 0 < packets_num then
        map_option (\<lambda>est. maybe_trigger_network_changed (ctrl\<lparr>bc_est := est\<rparr>) sys_ts)
          (sender_estimation_update_block (bc_est ctrl) fraction_loss rtt packets_num cur_ts)
      else Some (ctrl, []))"

definition bitrate_controller_on_basedelay_result ::
  "bitrate_controller \<Rightarrow> int \<Rightarrow> int \<Rightarrow> u32 \<Rightarrow> int \<Rightarrow> int \<Rightarrow> int \<Rightarrow> bitrate_controller \<times> notification list" where
  "bitrate_controller_on_basedelay_result ctrl update probe target_bitrate recovered_from_overuse sys1 sys2 =
     (if update = -1 then (ctrl, [])
      else maybe_trigger_network_changed (ctrl\<lparr>bc_est := sender_estimation_update_delay_base (bc_est ctrl) sys1 target_bitrate\<rparr>) sys2)"

definition bitrate_controller_heartbeat :: "bitrate_controller \<Rightarrow> int \<Rightarrow> (bitrate_controller \<times> notification list) option" where
  "bitrate_controller_heartbeat ctrl cur_ts =
     (if cur_ts < last_bitrate_update_ts ctrl + 100 then Some (ctrl, [])
      else map_option (\<lambda>est.
        (let ctrl = ctrl\<lparr>bc_est := est\<rparr>;
             (ctrl, out) = (if has_trigger ctrl then
                (case bitrate_controller_get_parameter ctrl of (r, n, ctrl) \<Rightarrow>
                   if r = 0 then (ctrl\<lparr>notify_ts := cur_ts\<rparr>, [n])
                   else if notify_ts ctrl + k_normal_notify_timer \<le> cur_ts then (ctrl\<lparr>notify_ts := cur_ts\<rparr>, [n])
                   else (ctrl, []))
              else (ctrl, []))
         in (ctrl\<lparr>last_bitrate_update_ts := cur_ts\<rparr>, out)))
        (sender_estimation_update (bc_est ctrl) cur_ts))"

subsection \<open>The upper layer knows the rate\<close>

text \<open>What holds now and what was told last.\<close>

definition now_rate :: "bitrate_controller \<Rightarrow> notification" where
  "now_rate ctrl = (let c = curr_bitrate (bc_est ctrl) in
     (su_max (c - su_min c (reserved_bitrate_bps ctrl)) (min_conf_bitrate (bc_est ctrl)), last_fraction_loss (bc_est ctrl), last_rtt (bc_est ctrl)))"

definition told_rate :: "bitrate_controller \<Rightarrow> notification" where
  "told_rate ctrl = (last_bitrate_bps ctrl, bc_last_fraction_loss ctrl, bc_last_rtt ctrl)"

text \<open>After a step: what was told last is what holds, and each notification tells what holds.\<close>

definition in_sync :: "bitrate_controller \<Rightarrow> bitrate_controller \<times> notification list \<Rightarrow> bool" where
  "in_sync ctrl r \<longleftrightarrow> told_rate (fst r) = now_rate (fst r) \<and> set (snd r) \<subseteq> {now_rate (fst r)}
     \<and> (snd r = [] \<longrightarrow> told_rate (fst r) = told_rate ctrl) \<and> has_trigger (fst r) = has_trigger ctrl"

lemma get_parameter_cases:
  "bitrate_controller_get_parameter ctrl = (0, now_rate ctrl, ctrl\<lparr>bc_last_fraction_loss := last_fraction_loss (bc_est ctrl),
      last_bitrate_bps := fst (now_rate ctrl), bc_last_rtt := last_rtt (bc_est ctrl), last_reserved_bitrate_bps := reserved_bitrate_bps ctrl\<rparr>)
   \<or> bitrate_controller_get_parameter ctrl = (-1, now_rate ctrl, ctrl) \<and> told_rate ctrl = now_rate ctrl"
  by (auto simp: bitrate_controller_get_parameter_def now_rate_def told_rate_def Let_def)

lemma maybe_trigger_sync:
  "has_trigger ctrl \<Longrightarrow> told_rate ctrl = told_rate ctrl0 \<Longrightarrow> has_trigger ctrl0 \<Longrightarrow>
     in_sync ctrl0 (maybe_trigger_network_changed ctrl t) \<and> bc_est (fst (maybe_trigger_network_changed ctrl t)) = bc_est ctrl"
  using get_parameter_cases [of ctrl]
  by (auto simp: maybe_trigger_network_changed_def in_sync_def now_rate_def told_rate_def Let_def)

text \<open>The operations a sender performs on its controller between two changes of the bounds.\<close>

datatype ctrl_op = CStart u32 int int | CReserved u32 int | CRemb u32 int int | CReport u32 int u8 int int
  | CDelay int int u32 int int int | CHeartbeat int

fun ctrl_step :: "bitrate_controller \<Rightarrow> ctrl_op \<Rightarrow> (bitrate_controller \<times> notification list) option" where
  "ctrl_step c (CStart b s1 s2) = Some (bitrate_controller_set_start_bitrate c b s1 s2)"
| "ctrl_step c (CReserved b s) = Some (bitrate_controller_set_reserved c b s)"
| "ctrl_step c (CRemb b s1 s2) = Some (bitrate_controller_on_remb c b s1 s2)"
| "ctrl_step c (CReport rtt t l n s) = bitrate_controller_on_report c rtt t l n s"
| "ctrl_step c (CDelay u p b r s1 s2) = Some (bitrate_controller_on_basedelay_result c u p b r s1 s2)"
| "ctrl_step c (CHeartbeat t) = bitrate_controller_heartbeat c t"

definition ctrl_inv :: "bitrate_controller \<Rightarrow> bool" where
  "ctrl_inv c \<longleftrightarrow> sender_inv (bc_est c) \<and> has_trigger c \<and> told_rate c = now_rate c"

definition bounds_of :: "bitrate_controller \<Rightarrow> u32 \<times> u32" where
  "bounds_of c = (min_conf_bitrate (bc_est c), max_conf_bitrate (bc_est c))"

lemma now_rate_bounds: "sender_inv (bc_est c) \<Longrightarrow> fst (bounds_of c) \<le> fst (now_rate c) \<and> fst (now_rate c) \<le> snd (bounds_of c)"
proof -
  assume i: "sender_inv (bc_est c)"
  define x where "x = curr_bitrate (bc_est c)"
  have "x - su_min x (reserved_bitrate_bps c) \<le> x"
    by (simp add: word_sub_le min_def)
  with i show ?thesis
    by (auto simp: now_rate_def bounds_of_def sender_inv_def Let_def x_def [symmetric] max_def)
qed

lemma trigger_est:
  assumes "ctrl_inv c" and "sender_inv e" and "min_conf_bitrate e = min_conf_bitrate (bc_est c)" and "max_conf_bitrate e = max_conf_bitrate (bc_est c)"
  shows "in_sync c (maybe_trigger_network_changed (c\<lparr>bc_est := e\<rparr>) t) \<and> ctrl_inv (fst (maybe_trigger_network_changed (c\<lparr>bc_est := e\<rparr>) t))
    \<and> bounds_of (fst (maybe_trigger_network_changed (c\<lparr>bc_est := e\<rparr>) t)) = bounds_of c"
  using maybe_trigger_sync [of "c\<lparr>bc_est := e\<rparr>" c t] assms
  by (simp add: ctrl_inv_def told_rate_def in_sync_def bounds_of_def)

lemma trigger_reserved:
  assumes "ctrl_inv c"
  shows "in_sync c (maybe_trigger_network_changed (c\<lparr>reserved_bitrate_bps := b\<rparr>) t)
    \<and> ctrl_inv (fst (maybe_trigger_network_changed (c\<lparr>reserved_bitrate_bps := b\<rparr>) t))
    \<and> bounds_of (fst (maybe_trigger_network_changed (c\<lparr>reserved_bitrate_bps := b\<rparr>) t)) = bounds_of c"
  using maybe_trigger_sync [of "c\<lparr>reserved_bitrate_bps := b\<rparr>" c t] assms
  by (simp add: ctrl_inv_def told_rate_def in_sync_def bounds_of_def)

lemma nothing_changed: "ctrl_inv c \<Longrightarrow> in_sync c (c, [])"
  by (simp add: in_sync_def ctrl_inv_def)

lemma heartbeat_step:
  assumes "ctrl_inv c"
  shows "\<exists>r. bitrate_controller_heartbeat c t = Some r \<and> in_sync c r \<and> ctrl_inv (fst r) \<and> bounds_of (fst r) = bounds_of c"
proof (cases "t < last_bitrate_update_ts c + 100")
  case True
  then show ?thesis
    using assms nothing_changed [OF assms] by (simp add: bitrate_controller_heartbeat_def)
next
  case False
  obtain e where e: "sender_estimation_update (bc_est c) t = Some e" "sender_inv e" "min_conf_bitrate e = min_conf_bitrate (bc_est c)"
    "max_conf_bitrate e = max_conf_bitrate (bc_est c)"
    using sender_update_total [of "bc_est c" t] assms by (auto simp: ctrl_inv_def)
  define c1 where "c1 = c\<lparr>bc_est := e\<rparr>"
  have c1: "has_trigger c1" "sender_inv (bc_est c1)" "bounds_of c1 = bounds_of c" "told_rate c1 = told_rate c" "has_trigger c"
    using assms e by (simp_all add: c1_def ctrl_inv_def bounds_of_def told_rate_def)
  have hb: "bitrate_controller_heartbeat c t = Some (case (case bitrate_controller_get_parameter c1 of (r, n, ctrl) \<Rightarrow>
      if r = 0 then (ctrl\<lparr>notify_ts := t\<rparr>, [n])
      else if notify_ts ctrl + 2000 \<le> t then (ctrl\<lparr>notify_ts := t\<rparr>, [n]) else (ctrl, [])) of (ctrl, out) \<Rightarrow> (ctrl\<lparr>last_bitrate_update_ts := t\<rparr>, out))"
    using False e(1) c1(1) by (simp add: bitrate_controller_heartbeat_def Let_def c1_def)
  from get_parameter_cases [of c1] show ?thesis
  proof
    assume "bitrate_controller_get_parameter c1 = (0, now_rate c1, c1\<lparr>bc_last_fraction_loss := last_fraction_loss (bc_est c1),
      last_bitrate_bps := fst (now_rate c1), bc_last_rtt := last_rtt (bc_est c1), last_reserved_bitrate_bps := reserved_bitrate_bps c1\<rparr>)"
    then show ?thesis
      unfolding hb using c1 by (simp add: in_sync_def ctrl_inv_def told_rate_def bounds_of_def now_rate_def Let_def)
  next
    assume "bitrate_controller_get_parameter c1 = (-1, now_rate c1, c1) \<and> told_rate c1 = now_rate c1"
    then show ?thesis
      unfolding hb using c1 by (simp add: in_sync_def ctrl_inv_def told_rate_def bounds_of_def now_rate_def Let_def)
  qed
qed

lemma ctrl_step_inv:
  assumes "ctrl_inv c"
  shows "\<exists>r. ctrl_step c op = Some r \<and> in_sync c r \<and> ctrl_inv (fst r) \<and> bounds_of (fst r) = bounds_of c"
proof -
  have s: "sender_inv (bc_est c)" using assms by (simp add: ctrl_inv_def)
  show ?thesis
  proof (cases op)
    case (CStart b s1 s2)
    then show ?thesis
      using sender_step_total [OF s, of "SSend s1 b"] trigger_est [OF assms] by (simp add: bitrate_controller_set_start_bitrate_def)
  next
    case (CReserved b t)
    then show ?thesis using trigger_reserved [OF assms] by (simp add: bitrate_controller_set_reserved_def)
  next
    case (CRemb b s1 s2)
    then show ?thesis
      using sender_step_total [OF s, of "SRemb s1 b"] trigger_est [OF assms] by (simp add: bitrate_controller_on_remb_def)
  next
    case (CReport rtt t l n sys)
    obtain e where "sender_estimation_update_block (bc_est c) l rtt n t = Some e" "sender_inv e"
        "min_conf_bitrate e = min_conf_bitrate (bc_est c)" "max_conf_bitrate e = max_conf_bitrate (bc_est c)"
      using sender_step_total [OF s, of "SBlock l rtt n t"] by auto
    then show ?thesis
      using trigger_est [OF assms, of e sys] assms nothing_changed [OF assms]
      by (cases "0 < n") (simp_all add: CReport bitrate_controller_on_report_def)
  next
    case (CDelay u p b r s1 s2)
    then show ?thesis
      using sender_step_total [OF s, of "SDelayBase s1 b"] trigger_est [OF assms] assms nothing_changed [OF assms]
      by (auto simp: bitrate_controller_on_basedelay_result_def)
  next
    case (CHeartbeat t)
    then show ?thesis using heartbeat_step [OF assms] by simp
  qed
qed

fun ctrl_run :: "bitrate_controller \<Rightarrow> ctrl_op list \<Rightarrow> (bitrate_controller \<times> notification list) option" where
  "ctrl_run c [] = Some (c, [])"
| "ctrl_run c (op # ops) = (case ctrl_step c op of None \<Rightarrow> None
     | Some (c', out) \<Rightarrow> map_option (\<lambda>(c'', out'). (c'', out @ out')) (ctrl_run c' ops))"

lemma ctrl_run_inv:
  assumes "ctrl_inv c"
  shows "\<exists>c' out. ctrl_run c ops = Some (c', out) \<and> ctrl_inv c' \<and> last (told_rate c # out) = now_rate c' \<and> bounds_of c' = bounds_of c
    \<and> (\<forall>n\<in>set out. fst (bounds_of c) \<le> fst n \<and> fst n \<le> snd (bounds_of c))"
  using assms
proof (induction ops arbitrary: c)
  case Nil
  then show ?case by (simp add: ctrl_inv_def)
next
  case (Cons op ops)
  obtain c1 out1 where s: "ctrl_step c op = Some (c1, out1)" "in_sync c (c1, out1)" "ctrl_inv c1" "bounds_of c1 = bounds_of c"
    using ctrl_step_inv [OF Cons.prems, of op] by auto
  from Cons.IH [OF s(3)] obtain c2 out2 where r: "ctrl_run c1 ops = Some (c2, out2)" "ctrl_inv c2" "last (told_rate c1 # out2) = now_rate c2"
    "bounds_of c2 = bounds_of c1" "\<forall>n\<in>set out2. fst (bounds_of c1) \<le> fst n \<and> fst n \<le> snd (bounds_of c1)"
    by blast
  have "last (told_rate c # out1) = told_rate c1"
    using s(2) by (cases out1 rule: rev_cases) (auto simp: in_sync_def)
  then have "last (told_rate c # out1 @ out2) = now_rate c2"
    using r(3) by (cases out2) auto
  moreover have "\<forall>n\<in>set out1. fst (bounds_of c) \<le> fst n \<and> fst n \<le> snd (bounds_of c)"
    using s(2) now_rate_bounds [of c1] s(3,4) by (auto simp: in_sync_def ctrl_inv_def)
  ultimately show ?case
    using s r by auto
qed

lemma set_bitrates_ok:
  assumes "mn \<le> 3900000000" and "0 < mx" and "mx \<le> 3900000000"
    and "bitrate_controller_set_bitrates (bitrate_controller_create True t0) rate mn mx s1 s2 = (c0, out0)"
  shows "ctrl_inv c0" and "bounds_of c0 = (su_max 10000 mn, su_max (su_max 10000 mn) mx)" and "out0 \<noteq> []" and "set out0 \<subseteq> {now_rate c0}"
    and "fst (now_rate c0) = su_max (su_min rate (snd (bounds_of c0))) (fst (bounds_of c0))"
proof -
  define c where "c = bitrate_controller_create True t0"
  define e0 where "e0 = sender_estimation_set_minmax_bitrate (sender_estimation_create 10000 1500000) mn mx"
  have e0: "min_conf_bitrate e0 = su_max 10000 mn" "max_conf_bitrate e0 = su_max (su_max 10000 mn) mx"
    "min_bitrates e0 = replicate 128 zero_min" "bwe_incoming e0 = 0" "delay_base_bitrate e0 = 0"
    using assms(2) by (simp_all add: e0_def sender_estimation_set_minmax_bitrate_def sender_estimation_create_def Let_def)
  define e where "e = sender_estimation_set_send_bitrate e0 s1 rate"
  have "sender_inv (cap_bitrate_to_threshold e0 s1 rate) \<and> min_conf_bitrate (cap_bitrate_to_threshold e0 s1 rate) = min_conf_bitrate e0
    \<and> max_conf_bitrate (cap_bitrate_to_threshold e0 s1 rate) = max_conf_bitrate e0"
    using assms(1,3) by (intro cap_inv) (simp_all add: e0)
  then have e: "sender_inv e" "min_conf_bitrate e = su_max 10000 mn" "max_conf_bitrate e = su_max (su_max 10000 mn) mx"
    by (simp_all add: e_def e0 sender_estimation_set_send_bitrate_def)
  have m: "maybe_trigger_network_changed (c\<lparr>bc_est := e\<rparr>) s2 = (c0, out0)"
    using assms(4) by (simp add: bitrate_controller_set_bitrates_def Let_def c_def e_def e0_def bitrate_controller_create_def)
  then have sync: "in_sync c (c0, out0)" and est: "bc_est c0 = e"
    using maybe_trigger_sync [of "c\<lparr>bc_est := e\<rparr>" c s2] by (simp_all add: c_def bitrate_controller_create_def told_rate_def)
  have res: "reserved_bitrate_bps c0 = 0"
    using m by (auto simp: maybe_trigger_network_changed_def bitrate_controller_get_parameter_def Let_def c_def bitrate_controller_create_def
      split: if_splits)
  show inv: "ctrl_inv c0" and b: "bounds_of c0 = (su_max 10000 mn, su_max (su_max 10000 mn) mx)"
    using sync est e by (simp_all add: ctrl_inv_def in_sync_def c_def bitrate_controller_create_def bounds_of_def)
  have nb: "fst (bounds_of c0) \<le> fst (now_rate c0)" "fst (now_rate c0) \<le> snd (bounds_of c0)"
    using now_rate_bounds [of c0] inv by (simp_all add: ctrl_inv_def)
  then have "10000 \<le> fst (now_rate c0)" by (simp add: b)
  then have "fst (now_rate c0) \<noteq> 0" by auto
  then have "told_rate c0 \<noteq> told_rate c"
    using sync by (auto simp: in_sync_def c_def bitrate_controller_create_def told_rate_def)
  then show "out0 \<noteq> []" "set out0 \<subseteq> {now_rate c0}"
    using sync by (auto simp: in_sync_def)
  have "curr_bitrate e = su_max (su_min rate (max_conf_bitrate e0)) (min_conf_bitrate e0)"
    by (auto simp: e_def sender_estimation_set_send_bitrate_def cap_bitrate_to_threshold_def e0(4,5) Let_def max_def min_def)
  then have "curr_bitrate e = su_max (su_min rate (snd (bounds_of c0))) (fst (bounds_of c0))"
    by (simp only: e0(1,2) b fst_conv snd_conv)
  moreover have "su_min x 0 = 0" for x :: u32 by simp
  moreover have "min_conf_bitrate (bc_est c0) = fst (bounds_of c0)" by (simp add: bounds_of_def)
  ultimately show "fst (now_rate c0) = su_max (su_min rate (snd (bounds_of c0))) (fst (bounds_of c0))"
    unfolding now_rate_def Let_def fst_conv est res by (simp del: su_max_def su_min_def add: max.assoc)
qed

text \<open>C20: The upper layer always knows the rate: once the bounds are set, after any sequence of forced
  rates, reserved rates, receiver estimates, loss reports, delay based results and timer calls, the
  last notification sent tells the rate, loss and round trip time that hold now, and every notified rate
  is between the minimum and the maximum.\<close>

theorem controller_tells_current:
  assumes "mn \<le> 3900000000" and "0 < mx" and "mx \<le> 3900000000"
    and "bitrate_controller_set_bitrates (bitrate_controller_create True t0) rate mn mx s1 s2 = (c0, out0)"
  shows "\<exists>c out. ctrl_run c0 ops = Some (c, out) \<and> out0 \<noteq> [] \<and> last (out0 @ out) = now_rate c
    \<and> (\<forall>n\<in>set (out0 @ out). su_max 10000 mn \<le> fst n \<and> fst n \<le> su_max (su_max 10000 mn) mx)"
proof -
  note c0 = set_bitrates_ok [OF assms]
  have nb: "fst (bounds_of c0) \<le> fst (now_rate c0)" "fst (now_rate c0) \<le> snd (bounds_of c0)"
    using now_rate_bounds [of c0] c0(1) by (simp_all add: ctrl_inv_def)
  have "last out0 = told_rate c0"
    using last_in_set [OF c0(3)] c0(1,4) by (auto simp: ctrl_inv_def)
  from ctrl_run_inv [OF c0(1), of ops] obtain c1 out where r: "ctrl_run c0 ops = Some (c1, out)" "last (told_rate c0 # out) = now_rate c1"
    "\<forall>n\<in>set out. fst (bounds_of c0) \<le> fst n \<and> fst n \<le> snd (bounds_of c0)"
    by blast
  have "last (out0 @ out) = now_rate c1"
    using r(2) \<open>last out0 = told_rate c0\<close> by (cases "out = []") (simp_all add: last_append)
  moreover have "\<forall>n\<in>set (out0 @ out). fst (bounds_of c0) \<le> fst n \<and> fst n \<le> snd (bounds_of c0)"
    using r(3) nb c0(4) by auto
  ultimately show ?thesis
    using r(1) c0(3) unfolding c0(2) by auto
qed

theorem controller_tells_current_witness:
  "\<exists>c0 out0 c out. bitrate_controller_set_bitrates (bitrate_controller_create True 0) 500000 64000 2000000 1 2 = (c0, out0)
     \<and> ctrl_run c0 [CReport 50 100 60 30 100, CReserved 1000 110, CHeartbeat 20000, CDelay 0 0 300000 0 20100 20100] = Some (c, out)
     \<and> last (out0 @ out) = now_rate c"
proof -
  obtain c0 out0 where s: "bitrate_controller_set_bitrates (bitrate_controller_create True 0) 500000 64000 2000000 1 2 = (c0, out0)"
    by (cases "bitrate_controller_set_bitrates (bitrate_controller_create True 0) 500000 64000 2000000 1 2")
  have "(64000 :: u32) \<le> 3900000000" "(0 :: u32) < 2000000" "(2000000 :: u32) \<le> 3900000000" by simp_all
  from controller_tells_current [OF this s, of "[CReport 50 100 60 30 100, CReserved 1000 110, CHeartbeat 20000, CDelay 0 0 300000 0 20100 20100]"] s
  show ?thesis by blast
qed

end
