(* ===== verification/Delay_Bwe.thy ===== *)
theory Delay_Bwe
  imports Aimd Inter_Arrival Trendline Overuse_Detector
begin

text \<open>
  \<^verbatim>\<open>estimator/delay_base_bwe.c\<close>: the delay based estimate at the sender. Each acknowledged packet goes
  through the inter-arrival filter, the trendline estimator and the overuse detector; after a feedback
  message the rate controller is updated from the state of the detector, or halved when five messages in
  a row carried only packets from before the estimator was made. \<open>None\<close> is a value that does not fit its
  type in the rate controller, a packet beyond the array, or a filter that was not made.

  \<open>inter_arrival\<close> and \<open>trendline_estimator\<close> are pointers that are \<^verbatim>\<open>NULL\<close> until the first packet, so
  \<open>option\<close> values. \<open>fresh\<close> is what \<^verbatim>\<open>malloc\<close> returns for the samples of a new trendline.

  The lemmas: every part is total (\<^verbatim>\<open>process_ok\<close>, \<^verbatim>\<open>maybe_update_ok\<close>) and keeps \<open>bwe_ok\<close>, by the
  invariant \<open>aimd_wf\<close> of the controller.
\<close>

abbreviation k_trendline_smoothing_coeff :: double where "k_trendline_smoothing_coeff \<equiv> fp_lit 0.9"
abbreviation k_trendline_threshold_gain :: double where "k_trendline_threshold_gain \<equiv> fp_lit 4"
abbreviation k_trendline_window_size :: nat where "k_trendline_window_size \<equiv> 20"
abbreviation k_group_time :: u32 where "k_group_time \<equiv> 5"
abbreviation k_max_failed_count :: int where "k_max_failed_count \<equiv> 5"
abbreviation k_min_bitrate :: u32 where "k_min_bitrate \<equiv> 64000"
abbreviation k_max_bitrate :: u32 where "k_max_bitrate \<equiv> 12800000"
abbreviation k_timestamp_ms :: int where "k_timestamp_ms \<equiv> 2000"

record bwe_result =
  br_updated :: int
  br_probe :: int
  br_bitrate :: u32
  br_recovered_from_overuse :: int

definition init_bwe_result_null :: bwe_result where
  "init_bwe_result_null = \<lparr>br_updated = -1, br_probe = -1, br_bitrate = 0, br_recovered_from_overuse = -1\<rparr>"

record delay_base_bwe =
  bwe_inter_arrival :: "inter_arrival option"
  rate_control :: aimd_rate_controller
  bwe_trendline :: "trendline_estimator option"
  bwe_detector :: overuse_detector
  last_seen_ms :: int
  bwe_first_ts :: int
  trendline_window_size :: nat
  trendline_smoothing_coeff :: double
  trendline_threshold_gain :: double
  consecutive_delayed_feedbacks :: int

definition delay_bwe_create :: "int \<Rightarrow> delay_base_bwe" where
  "delay_bwe_create sys_ts = \<lparr>bwe_inter_arrival = None, rate_control = aimd_create k_max_bitrate k_min_bitrate, bwe_trendline = None,
     bwe_detector = overuse_create, last_seen_ms = -1, bwe_first_ts = sys_ts, trendline_window_size = k_trendline_window_size,
     trendline_smoothing_coeff = k_trendline_smoothing_coeff, trendline_threshold_gain = k_trendline_threshold_gain,
     consecutive_delayed_feedbacks = 0\<rparr>"

definition delay_bwe_reset :: "delay_base_bwe \<Rightarrow> delay_hist list \<Rightarrow> delay_base_bwe" where
  "delay_bwe_reset bwe fresh = bwe\<lparr>bwe_inter_arrival := Some (create_inter_arrival 0 k_group_time),
     bwe_trendline := Some (trendline_create (trendline_window_size bwe) (trendline_smoothing_coeff bwe) (trendline_threshold_gain bwe) fresh)\<rparr>"

definition delay_bwe_process :: "delay_base_bwe \<Rightarrow> packet_feedback \<Rightarrow> int \<Rightarrow> delay_hist list \<Rightarrow> delay_base_bwe option" where
  "delay_bwe_process bwe packet now_ts fresh =
     (let bwe = (if last_seen_ms bwe = -1 \<or> last_seen_ms bwe + k_timestamp_ms < now_ts then delay_bwe_reset bwe fresh else bwe);
          bwe = bwe\<lparr>last_seen_ms := now_ts\<rparr>;
          timestamp = (word_of_int (send_ts packet - bwe_first_ts bwe) :: u32)
      in case bwe_inter_arrival bwe of None \<Rightarrow> None
      | Some arr \<Rightarrow>
        (case inter_arrival_compute_deltas arr timestamp (arrival_ts packet) now_ts (payload_size packet) of
           (arr, None) \<Rightarrow> Some (bwe\<lparr>bwe_inter_arrival := Some arr\<rparr>)
         | (arr, Some (ts_delta, t_delta, size_delta)) \<Rightarrow>
           (case bwe_trendline bwe of None \<Rightarrow> None
            | Some est \<Rightarrow>
              map_option (\<lambda>est. bwe\<lparr>bwe_inter_arrival := Some arr, bwe_trendline := Some est,
                  bwe_detector := fst (overuse_detect (bwe_detector bwe) (trendline_slope est) (fp_of_int (uint ts_delta))
                    (s32 (uint (tl_num_of_deltas est))) (arrival_ts packet))\<rparr>)
                (trendline_update est (fp_of_int t_delta) (fp_of_int (uint ts_delta)) (arrival_ts packet)))))"

definition delay_bwe_long_feedback_delay :: "delay_base_bwe \<Rightarrow> int \<Rightarrow> delay_base_bwe \<times> bwe_result" where
  "delay_bwe_long_feedback_delay bwe arr_at =
     (let bwe = bwe\<lparr>rate_control := aimd_set_estimate (rate_control bwe) (s32 (uint (curr_rate (rate_control bwe) * 1 div 2))) arr_at\<rparr>
      in (bwe, init_bwe_result_null\<lparr>br_updated := 0, br_probe := -1, br_bitrate := curr_rate (rate_control bwe)\<rparr>))"

text \<open>The new state, the target rate and the result.\<close>

definition delay_bwe_upate :: "delay_base_bwe \<Rightarrow> int \<Rightarrow> u32 \<Rightarrow> int \<Rightarrow> (delay_base_bwe \<times> u32 \<times> int) option" where
  "delay_bwe_upate bwe now_ts acked_bitrate overusing =
     (let input = \<lparr>in_state = (if overusing = 0 then kBwOverusing else od_state (bwe_detector bwe)), incoming_bitrate = acked_bitrate,
                   noise_var = fp_of_int 0\<rparr>;
          prev_bitrate = curr_rate (rate_control bwe)
      in map_option (\<lambda>(aimd, input, target_bitrate).
           (bwe\<lparr>rate_control := aimd\<rparr>, target_bitrate, if inited aimd = 0 \<and> prev_bitrate \<noteq> target_bitrate then 0 else -1))
           (aimd_update (rate_control bwe) input now_ts))"

definition delay_bwe_maybe_update :: "delay_base_bwe \<Rightarrow> int \<Rightarrow> u32 \<Rightarrow> int \<Rightarrow> int \<Rightarrow> (delay_base_bwe \<times> bwe_result) option" where
  "delay_bwe_maybe_update bwe overusing acked_bitrate recovered_from_overuse now_ts =
     (let result = init_bwe_result_null; aimd = rate_control bwe in
      if overusing = 0
      then if 0 < acked_bitrate \<and> aimd_time_reduce_further aimd now_ts acked_bitrate = 0
        then map_option (\<lambda>(bwe, rate, upd). (bwe, result\<lparr>br_updated := upd, br_bitrate := rate\<rparr>))
               (delay_bwe_upate bwe now_ts acked_bitrate overusing)
        else if acked_bitrate = 0 \<and> inited aimd = 0 \<and> aimd_time_reduce_further aimd now_ts (curr_rate aimd * 3 div 4 - 1) = 0
        then (let bwe = bwe\<lparr>rate_control := aimd_set_estimate aimd (s32 (uint (curr_rate aimd * 3 div 4))) now_ts\<rparr>
              in Some (bwe, result\<lparr>br_updated := 0, br_probe := -1, br_bitrate := curr_rate (rate_control bwe)\<rparr>))
        else Some (bwe, result)
      else map_option (\<lambda>(bwe, rate, upd). (bwe, result\<lparr>br_updated := upd, br_bitrate := rate, br_recovered_from_overuse := recovered_from_overuse\<rparr>))
             (delay_bwe_upate bwe now_ts acked_bitrate overusing))"

text \<open>The loop over the packets: \<open>i\<close> counts up, \<open>n\<close> iterations are left.\<close>

fun incoming_loop :: "packet_feedback list \<Rightarrow> int \<Rightarrow> delay_hist list \<Rightarrow> nat \<Rightarrow> nat \<Rightarrow> delay_base_bwe \<times> int \<times> int \<times> bandwidth_usage \<Rightarrow>
    (delay_base_bwe \<times> int \<times> int \<times> bandwidth_usage) option" where
  "incoming_loop packets now_ts fresh i 0 st = Some st"
| "incoming_loop packets now_ts fresh i (Suc n) (bwe, delayed_feedback, recovered, prev_state) =
     (if i < length packets then
        if send_ts (packets ! i) < bwe_first_ts bwe
        then incoming_loop packets now_ts fresh (Suc i) n (bwe, delayed_feedback, recovered, prev_state)
        else (case delay_bwe_process bwe (packets ! i) now_ts fresh of None \<Rightarrow> None
          | Some bwe \<Rightarrow> incoming_loop packets now_ts fresh (Suc i) n (bwe, -1,
              if prev_state = kBwUnderusing \<and> od_state (bwe_detector bwe) = kBwNormal then 0 else recovered, od_state (bwe_detector bwe)))
      else None)"

definition delay_bwe_incoming ::
  "delay_base_bwe \<Rightarrow> packet_feedback list \<Rightarrow> int \<Rightarrow> u32 \<Rightarrow> int \<Rightarrow> delay_hist list \<Rightarrow> (delay_base_bwe \<times> bwe_result) option" where
  "delay_bwe_incoming bwe packets packets_num acked_bitrate now_ts fresh =
     (if packets_num \<le> 0 then Some (bwe, init_bwe_result_null)
      else (case incoming_loop packets now_ts fresh 0 (nat packets_num) (bwe, 0, -1, od_state (bwe_detector bwe)) of None \<Rightarrow> None
        | Some (bwe, delayed_feedback, recovered_from_overuse, prev_state) \<Rightarrow>
          (let overusing = (if od_state (bwe_detector bwe) = kBwOverusing then 0 else -1) in
           if delayed_feedback = 0
           then (let bwe = bwe\<lparr>consecutive_delayed_feedbacks := s32 (consecutive_delayed_feedbacks bwe + 1)\<rparr>
             in if k_max_failed_count < consecutive_delayed_feedbacks bwe
                then Some (delay_bwe_long_feedback_delay bwe (arrival_ts (packets ! nat (packets_num - 1))))
                else Some (bwe, init_bwe_result_null))
           else delay_bwe_maybe_update (bwe\<lparr>consecutive_delayed_feedbacks := 0\<rparr>) overusing acked_bitrate recovered_from_overuse now_ts)))"

definition delay_bwe_rtt_update :: "delay_base_bwe \<Rightarrow> u32 \<Rightarrow> delay_base_bwe" where
  "delay_bwe_rtt_update bwe rtt = bwe\<lparr>rate_control := aimd_set_rtt (rate_control bwe) rtt\<rparr>"

text \<open>\<open>None\<close> stands for the result \<open>-1\<close>.\<close>

definition delay_bwe_last_estimate :: "delay_base_bwe \<Rightarrow> u32 option" where
  "delay_bwe_last_estimate bwe = (if inited (rate_control bwe) = -1 then None else Some (curr_rate (rate_control bwe)))"

definition delay_bwe_set_start_bitrate :: "delay_base_bwe \<Rightarrow> u32 \<Rightarrow> delay_base_bwe" where
  "delay_bwe_set_start_bitrate bwe bitrate = bwe\<lparr>rate_control := aimd_set_start_bitrate (rate_control bwe) bitrate\<rparr>"

definition delay_bwe_set_min_bitrate :: "delay_base_bwe \<Rightarrow> u32 \<Rightarrow> delay_base_bwe" where
  "delay_bwe_set_min_bitrate bwe min_bitrate = bwe\<lparr>rate_control := aimd_set_min_bitrate (rate_control bwe) min_bitrate\<rparr>"

definition delay_bwe_set_max_bitrate :: "delay_base_bwe \<Rightarrow> u32 \<Rightarrow> delay_base_bwe" where
  "delay_bwe_set_max_bitrate bwe max_bitrate = bwe\<lparr>rate_control := aimd_set_max_bitrate (rate_control bwe) max_bitrate\<rparr>"

definition delay_bwe_expected_period :: "delay_base_bwe \<Rightarrow> int option" where
  "delay_bwe_expected_period bwe = aimd_get_expected_bandwidth_period (rate_control bwe)"

subsection \<open>Every feedback message is handled\<close>

definition filters_ok :: "delay_base_bwe \<Rightarrow> bool" where
  "filters_ok bwe \<longleftrightarrow> trendline_window_size bwe = 20 \<and> (last_seen_ms bwe \<noteq> -1 \<longrightarrow> bwe_inter_arrival bwe \<noteq> None
     \<and> (\<exists>est. bwe_trendline bwe = Some est \<and> window_size est = 20 \<and> length (tl_que est) = 20))"

definition bwe_ok :: "int \<Rightarrow> int \<Rightarrow> delay_base_bwe \<Rightarrow> bool" where
  "bwe_ok start now bwe \<longleftrightarrow> filters_ok bwe \<and> aimd_wf start now (rate_control bwe) \<and> inited (rate_control bwe) = 0"

definition bwe_bounds :: "delay_base_bwe \<Rightarrow> u32 \<times> u32" where
  "bwe_bounds bwe = (min_rate (rate_control bwe), max_rate (rate_control bwe))"

text \<open>What a feedback message may change of the rate: a result that is an update carries the new rate,
  which is within the bounds, and these stay.\<close>

definition result_ok :: "delay_base_bwe \<Rightarrow> delay_base_bwe \<times> bwe_result \<Rightarrow> bool" where
  "result_ok bwe r \<longleftrightarrow> bwe_bounds (fst r) = bwe_bounds bwe \<and> (br_updated (snd r) = 0 \<longrightarrow> br_bitrate (snd r) = curr_rate (rate_control (fst r))
     \<and> in_rates (rate_control bwe) (br_bitrate (snd r)))"

lemma trendline_update_window:
  "window_size est = 20 \<Longrightarrow> length (tl_que est) = 20 \<Longrightarrow>
     \<exists>est'. trendline_update est a b t = Some est' \<and> window_size est' = 20 \<and> length (tl_que est') = 20"
proof -
  assume w: "window_size est = 20" "length (tl_que est) = 20"
  define e where "e = trendline_smooth est a b t"
  have e: "window_size e = 20" "length (tl_que e) = 20"
    using w by (simp_all add: e_def trendline_smooth_def Let_def)
  have "nat (tl_index e mod 18446744073709551616) mod 20 < 20" by simp
  then show ?thesis
    unfolding trendline_update_def e_def [symmetric] Let_def using e by simp
qed

lemma process_ok:
  assumes "filters_ok bwe" and "length fresh = 20"
  shows "\<exists>bwe'. delay_bwe_process bwe pkt now fresh = Some bwe' \<and> filters_ok bwe' \<and> rate_control bwe' = rate_control bwe
    \<and> bwe_first_ts bwe' = bwe_first_ts bwe"
proof -
  define b where "b = (if last_seen_ms bwe = -1 \<or> last_seen_ms bwe + 2000 < now then delay_bwe_reset bwe fresh else bwe)\<lparr>last_seen_ms := now\<rparr>"
  have "bwe_inter_arrival b \<noteq> None \<and> (\<exists>est. bwe_trendline b = Some est \<and> window_size est = 20 \<and> length (tl_que est) = 20)"
    using assms by (auto simp: b_def filters_ok_def delay_bwe_reset_def trendline_create_def)
  then obtain arr est where b: "bwe_inter_arrival b = Some arr" "bwe_trendline b = Some est" "window_size est = 20" "length (tl_que est) = 20"
    by auto
  have f: "trendline_window_size b = 20" "rate_control b = rate_control bwe" "bwe_first_ts b = bwe_first_ts bwe"
    using assms(1) by (simp_all add: b_def filters_ok_def delay_bwe_reset_def)
  have p: "delay_bwe_process bwe pkt now fresh = (case inter_arrival_compute_deltas arr (word_of_int (send_ts pkt - bwe_first_ts b))
      (arrival_ts pkt) now (payload_size pkt) of
      (arr, None) \<Rightarrow> Some (b\<lparr>bwe_inter_arrival := Some arr\<rparr>)
    | (arr, Some (ts_delta, t_delta, size_delta)) \<Rightarrow>
        map_option (\<lambda>est. b\<lparr>bwe_inter_arrival := Some arr, bwe_trendline := Some est,
            bwe_detector := fst (overuse_detect (bwe_detector b) (trendline_slope est) (fp_of_int (uint ts_delta))
              (s32 (uint (tl_num_of_deltas est))) (arrival_ts pkt))\<rparr>)
          (trendline_update est (fp_of_int t_delta) (fp_of_int (uint ts_delta)) (arrival_ts pkt)))"
    unfolding delay_bwe_process_def Let_def b_def [symmetric] b(1,2) option.case ..
  obtain arr' d where ia: "inter_arrival_compute_deltas arr (word_of_int (send_ts pkt - bwe_first_ts b)) (arrival_ts pkt) now (payload_size pkt) = (arr', d)"
    by (cases "inter_arrival_compute_deltas arr (word_of_int (send_ts pkt - bwe_first_ts b)) (arrival_ts pkt) now (payload_size pkt)")
  show ?thesis
  proof (cases d)
    case None
    then show ?thesis
      unfolding p ia using b f by (simp add: filters_ok_def)
  next
    case (Some x)
    obtain tsd td sd where x: "x = (tsd, td, sd)" by (cases x)
    obtain est' where "trendline_update est (fp_of_int td) (fp_of_int (uint tsd)) (arrival_ts pkt) = Some est'" "window_size est' = 20" "length (tl_que est') = 20"
      using trendline_update_window [OF b(3,4)] by blast
    then show ?thesis
      unfolding p ia Some x using f by (simp add: filters_ok_def)
  qed
qed

lemma incoming_loop_ok:
  assumes "filters_ok bwe" and "length fresh = 20" and "i + n \<le> length packets"
  shows "\<exists>bwe' df rec prev'. incoming_loop packets now fresh i n (bwe, delayed, recovered, prev) = Some (bwe', df, rec, prev')
    \<and> filters_ok bwe' \<and> rate_control bwe' = rate_control bwe"
  using assms
proof (induction n arbitrary: i bwe delayed recovered prev)
  case 0
  then show ?case by simp
next
  case (Suc n)
  then have i: "i < length packets" "Suc i + n \<le> length packets" by simp_all
  show ?case
  proof (cases "send_ts (packets ! i) < bwe_first_ts bwe")
    case True
    then show ?thesis using Suc.IH [OF Suc.prems(1,2) i(2)] i(1) by simp
  next
    case False
    obtain b where b: "delay_bwe_process bwe (packets ! i) now fresh = Some b" "filters_ok b" "rate_control b = rate_control bwe"
      using process_ok [OF Suc.prems(1,2)] by blast
    from Suc.IH [OF b(2) Suc.prems(2) i(2)] False b(1,3) i(1) show ?thesis by simp
  qed
qed

lemma set_estimate_at:
  assumes "aimd_wf start now a" and "now \<le> now'" and "start \<le> t" and "t \<le> now'"
  shows "aimd_wf start now' (aimd_set_estimate a b t)"
proof -
  have "aimd_wf start now' (aimd_set_estimate a b now')"
    using aimd_set_estimate_wf(1) [OF assms(1,2)] .
  moreover have "aimd_set_estimate a b t = (aimd_set_estimate a b now')\<lparr>time_last_bitrate_change := t\<rparr>"
    by (simp add: aimd_set_estimate_def Let_def)
  ultimately show ?thesis
    using assms(3,4) by (simp add: aimd_wf_def)
qed

lemma estimate_ok:
  assumes "bwe_ok start now bwe" and "now \<le> now'" and "start \<le> t" and "t \<le> now'"
  shows "bwe_ok start now' (bwe\<lparr>rate_control := aimd_set_estimate (rate_control bwe) x t\<rparr>)
    \<and> in_rates (rate_control bwe) (curr_rate (aimd_set_estimate (rate_control bwe) x t))
    \<and> bwe_bounds (bwe\<lparr>rate_control := aimd_set_estimate (rate_control bwe) x t\<rparr>) = bwe_bounds bwe"
proof -
  have a: "aimd_wf start now (rate_control bwe)" using assms(1) by (simp add: bwe_ok_def)
  have e: "aimd_set_estimate (rate_control bwe) x t = (aimd_set_estimate (rate_control bwe) x now')\<lparr>time_last_bitrate_change := t\<rparr>"
    by (simp add: aimd_set_estimate_def Let_def)
  note f = aimd_set_estimate_wf [OF a assms(2), of x]
  have "aimd_wf start now' (aimd_set_estimate (rate_control bwe) x t)"
    using set_estimate_at [OF a assms(2-4)] .
  then show ?thesis
    using assms(1) f(2-5) by (simp add: e bwe_ok_def filters_ok_def in_rates_def bwe_bounds_def)
qed

lemma upate_ok:
  assumes "bwe_ok start now bwe" and "now \<le> now'" and "now' - start \<le> 53000000"
  shows "\<exists>bwe' r u. delay_bwe_upate bwe now' acked ov = Some (bwe', r, u) \<and> bwe_ok start now' bwe' \<and> r = curr_rate (rate_control bwe')
    \<and> in_rates (rate_control bwe) r \<and> bwe_bounds bwe' = bwe_bounds bwe"
proof -
  define inp where "inp = \<lparr>in_state = (if ov = 0 then kBwOverusing else od_state (bwe_detector bwe)), incoming_bitrate = acked, noise_var = fp_of_int 0\<rparr>"
  have a: "aimd_wf start now (rate_control bwe)" "inited (rate_control bwe) = 0" using assms(1) by (simp_all add: bwe_ok_def)
  obtain a' inp' r where u: "aimd_update (rate_control bwe) inp now' = Some (a', inp', r)" "curr_rate a' = r"
    "min_rate a' = min_rate (rate_control bwe)" "max_rate a' = max_rate (rate_control bwe)" "inited a' = 0" "aimd_wf start now' a'"
    "in_rates (rate_control bwe) r"
    using aimd_update_total [OF a(1) assms(2,3), of inp] a(2) by auto
  then show ?thesis
    using assms(1) unfolding delay_bwe_upate_def Let_def inp_def [symmetric]
    by (simp add: bwe_ok_def filters_ok_def in_rates_def bwe_bounds_def)
qed

lemma result_ok_intro: "bwe_bounds b = bwe_bounds bwe \<Longrightarrow> result_ok bwe (b, init_bwe_result_null)"
  by (simp add: result_ok_def init_bwe_result_null_def)

lemma maybe_update_ok:
  assumes "bwe_ok start now bwe" and "now \<le> now'" and "now' - start \<le> 53000000"
  shows "\<exists>r. delay_bwe_maybe_update bwe ov acked rec now' = Some r \<and> bwe_ok start now' (fst r) \<and> result_ok bwe r"
proof -
  obtain b rate u where up: "delay_bwe_upate bwe now' acked ov = Some (b, rate, u)" "bwe_ok start now' b" "rate = curr_rate (rate_control b)"
    "in_rates (rate_control bwe) rate" "bwe_bounds b = bwe_bounds bwe"
    using upate_ok [OF assms] by blast
  have "start \<le> now'" using assms(1,2) by (simp add: bwe_ok_def aimd_wf_def)
  note est = estimate_ok [OF assms(1,2) this order_refl, of "s32 (uint (curr_rate (rate_control bwe) * 3 div 4))"]
  have w: "bwe_ok start now' bwe"
    using assms(1,2) by (auto simp: bwe_ok_def aimd_wf_def)
  show ?thesis
    unfolding delay_bwe_maybe_update_def Let_def using up est w
    by (cases "ov = 0") (auto simp: result_ok_def init_bwe_result_null_def)
qed

text \<open>\<open>packets\<close> is the adapter's array, and the first \<open>n\<close> of it are in use.\<close>

lemma incoming_ok:
  assumes "bwe_ok start now bwe" and "now \<le> now'" and "now' - start \<le> 53000000" and "length fresh = 20" and "n \<le> length packets"
    and "0 < n \<Longrightarrow> start \<le> arrival_ts (packets ! (n - 1)) \<and> arrival_ts (packets ! (n - 1)) \<le> now'"
  shows "\<exists>r. delay_bwe_incoming bwe packets (int n) acked now' fresh = Some r \<and> bwe_ok start now' (fst r) \<and> result_ok bwe r"
proof (cases "n = 0")
  case True
  have "bwe_ok start now' bwe" using assms(1,2) by (auto simp: bwe_ok_def aimd_wf_def)
  with True show ?thesis by (simp add: delay_bwe_incoming_def result_ok_intro)
next
  case False
  have "filters_ok bwe" using assms(1) by (simp add: bwe_ok_def)
  from incoming_loop_ok [OF this assms(4), of 0 n packets now' 0 "-1" "od_state (bwe_detector bwe)"] assms(5)
  obtain b df rec prev where l: "incoming_loop packets now' fresh 0 n (bwe, 0, -1, od_state (bwe_detector bwe)) = Some (b, df, rec, prev)"
    "filters_ok b" "rate_control b = rate_control bwe"
    by auto
  define b1 b2 where "b1 = b\<lparr>consecutive_delayed_feedbacks := s32 (consecutive_delayed_feedbacks b + 1)\<rparr>"
    and "b2 = b\<lparr>consecutive_delayed_feedbacks := 0\<rparr>"
  have ok: "bwe_ok start now b1" "bwe_ok start now b2" "rate_control b1 = rate_control bwe" "rate_control b2 = rate_control bwe"
    using assms(1) l(2,3) by (simp_all add: bwe_ok_def b1_def b2_def filters_ok_def)
  then have bb: "bwe_bounds b1 = bwe_bounds bwe" "bwe_bounds b2 = bwe_bounds bwe" by (simp_all add: bwe_bounds_def)
  have ok': "bwe_ok start now' b1"
    using ok(1) assms(2) by (auto simp: bwe_ok_def aimd_wf_def)
  have lst: "nat (int n - 1) = n - 1" using False by simp
  define ov :: int where "ov = (if od_state (bwe_detector b) = kBwOverusing then 0 else -1)"
  obtain r where m: "delay_bwe_maybe_update b2 ov acked rec now' = Some r" "bwe_ok start now' (fst r)" "result_ok b2 r"
    using maybe_update_ok [OF ok(2) assms(2,3)] by blast
  define x where "x = (if 5 < consecutive_delayed_feedbacks b1 then delay_bwe_long_feedback_delay b1 (arrival_ts (packets ! (n - 1))) else (b1, init_bwe_result_null))"
  have inc: "delay_bwe_incoming bwe packets (int n) acked now' fresh = (if df = 0 then Some x else delay_bwe_maybe_update b2 ov acked rec now')"
    using False by (simp add: delay_bwe_incoming_def l(1) Let_def lst b1_def b2_def ov_def x_def)
  have "bwe_ok start now' (fst (delay_bwe_long_feedback_delay b1 (arrival_ts (packets ! (n - 1)))))
      \<and> result_ok b1 (delay_bwe_long_feedback_delay b1 (arrival_ts (packets ! (n - 1))))"
    using estimate_ok [OF ok(1) assms(2), of "arrival_ts (packets ! (n - 1))" "s32 (uint (curr_rate (rate_control b1) * 1 div 2))"] assms(6) False
    by (simp add: delay_bwe_long_feedback_delay_def result_ok_def init_bwe_result_null_def)
  then have "bwe_ok start now' (fst x) \<and> result_ok b1 x"
    using ok' result_ok_intro [of b1 b1] by (simp add: x_def)
  moreover have "result_ok b1 x = result_ok bwe x" "result_ok b2 r = result_ok bwe r"
    by (simp_all add: result_ok_def bb ok(3,4))
  ultimately show ?thesis
    unfolding inc using m by (cases x; cases r) auto
qed

text \<open>What the sender does with its delay based estimate: feedback messages and round trip times.\<close>

datatype bwe_op = BweFeedback "packet_feedback list" u32 int "delay_hist list" | BweRtt u32

fun bwe_run :: "delay_base_bwe \<Rightarrow> bwe_op list \<Rightarrow> (delay_base_bwe \<times> (bwe_result \<times> u32 option) list) option" where
  "bwe_run bwe [] = Some (bwe, [])"
| "bwe_run bwe (BweFeedback packets acked t fresh # ops) =
     (case delay_bwe_incoming bwe packets (int (length packets)) acked t fresh of None \<Rightarrow> None
      | Some (bwe', r) \<Rightarrow> map_option (\<lambda>(bwe'', rs). (bwe'', (r, delay_bwe_last_estimate bwe') # rs)) (bwe_run bwe' ops))"
| "bwe_run bwe (BweRtt rtt # ops) = bwe_run (delay_bwe_rtt_update bwe rtt) ops"

fun bwe_ops_ok :: "int \<Rightarrow> int \<Rightarrow> bwe_op list \<Rightarrow> bool" where
  "bwe_ops_ok start now [] = True"
| "bwe_ops_ok start now (BweFeedback packets acked t fresh # ops) =
     (now \<le> t \<and> t \<le> start + 53000000 \<and> length fresh = 20
      \<and> (packets \<noteq> [] \<longrightarrow> start \<le> arrival_ts (last packets) \<and> arrival_ts (last packets) \<le> t) \<and> bwe_ops_ok start t ops)"
| "bwe_ops_ok start now (BweRtt rtt # ops) = (rtt \<le> 1000000 \<and> bwe_ops_ok start now ops)"

lemma bwe_run_ok:
  assumes "bwe_ok start now bwe" and "bwe_ops_ok start now ops"
  shows "\<exists>bwe' rs. bwe_run bwe ops = Some (bwe', rs) \<and> (\<forall>x\<in>set rs. br_updated (fst x) = 0 \<longrightarrow> snd x = Some (br_bitrate (fst x))
    \<and> in_rates (rate_control bwe) (br_bitrate (fst x)))"
  using assms
proof (induction start now ops arbitrary: bwe rule: bwe_ops_ok.induct)
  case (1 start now)
  then show ?case by simp
next
  case (2 start now packets acked t fresh ops)
  have t: "now \<le> t" "t - start \<le> 53000000" "length fresh = 20" using "2.prems"(2) by auto
  obtain b r where i: "delay_bwe_incoming bwe packets (int (length packets)) acked t fresh = Some (b, r)" "bwe_ok start t b" "result_ok bwe (b, r)"
    using incoming_ok [OF "2.prems"(1) t order_refl, of packets acked] "2.prems"(2) by (auto simp: last_conv_nth)
  from "2.IH" [OF i(2)] "2.prems"(2) obtain b' rs where
    "bwe_run b ops = Some (b', rs)" "\<forall>x\<in>set rs. br_updated (fst x) = 0 \<longrightarrow> snd x = Some (br_bitrate (fst x))
    \<and> in_rates (rate_control b) (br_bitrate (fst x))"
    by auto
  then show ?case
    using i by (auto simp: result_ok_def delay_bwe_last_estimate_def bwe_ok_def bwe_bounds_def in_rates_def)
next
  case (3 start now rtt ops)
  have "bwe_ok start now (delay_bwe_rtt_update bwe rtt)"
    using "3.prems" by (simp add: bwe_ok_def delay_bwe_rtt_update_def filters_ok_def aimd_set_rtt_def aimd_wf_def)
  from "3.IH" [OF this] "3.prems"(2) show ?case
    by (simp add: in_rates_def delay_bwe_rtt_update_def aimd_set_rtt_def)
qed



end
