(* ===== verification/Rate_Meter.thy ===== *)
theory Rate_Meter
  imports Rate_Stat Fp_Bounds
begin

text \<open>
  A rate window in use: a \<open>rate_stat\<close> of at most a second with the scale 8000 that is fed and read at times that do not go
  back. As long as no second carries more than 500000 bytes its rate is defined (\<open>rate_defined\<close>): the sum
  does not overflow and the quotient fits an \<open>int\<close>. Used by the receiver's estimator and by the sender's limiter.
\<close>

text \<open>No second carries more than 500000 bytes.\<close>

definition light :: "rate_log \<Rightarrow> bool" where
  "light xs \<longleftrightarrow> (\<forall>a. sum_list (map (\<lambda>(t, c). int c) (filter (\<lambda>(t, c). a \<le> t \<and> t < a + 1000) xs)) \<le> 500000)"

definition meter :: "int \<Rightarrow> rate_stat \<Rightarrow> rate_log \<Rightarrow> int \<Rightarrow> bool" where
  "meter wnd r lg now \<longleftrightarrow> rs_rel r lg \<and> rs_wnd_size r = wnd \<and> 0 < wnd \<and> wnd \<le> 1000 \<and> rs_scale r = fp_lit 8000 \<and> oldest_ts r \<le> now \<and> (\<forall>x\<in>set lg. fst x \<le> now)"

lemma light_append: "light (xs @ ys) \<Longrightarrow> light xs" "light (xs @ ys) \<Longrightarrow> light ys"
proof -
  have nn: "0 \<le> sum_list (map (\<lambda>(t, c). int c) (filter P zs))" for P and zs :: rate_log
    by (rule sum_list_nonneg) auto
  assume l: "light (xs @ ys)"
  show "light xs" unfolding light_def
  proof
    fix a
    show "sum_list (map (\<lambda>(t, c). int c) (filter (\<lambda>(t, c). a \<le> t \<and> t < a + 1000) xs)) \<le> 500000"
      using l [unfolded light_def, rule_format, of a] nn [of "\<lambda>(t, c). a \<le> t \<and> t < a + 1000" ys] by simp
  qed
  show "light ys" unfolding light_def
  proof
    fix a
    show "sum_list (map (\<lambda>(t, c). int c) (filter (\<lambda>(t, c). a \<le> t \<and> t < a + 1000) ys)) \<le> 500000"
      using l [unfolded light_def, rule_format, of a] nn [of "\<lambda>(t, c). a \<le> t \<and> t < a + 1000" xs] by simp
  qed
qed

lemma light_window:
  assumes "light lg" and "\<forall>x\<in>set lg. fst x \<le> now" and "now - 999 \<le> a"
  shows "0 \<le> window_bytes lg a \<and> window_bytes lg a \<le> 500000"
proof
  show "0 \<le> window_bytes lg a" unfolding window_bytes_def by (rule sum_list_nonneg) auto
  have "filter (\<lambda>(t, c). a \<le> t) lg = filter (\<lambda>(t, c). a \<le> t \<and> t < a + 1000) lg"
    using assms(2,3) by (intro filter_cong) auto
  then show "window_bytes lg a \<le> 500000"
    using assms(1) by (simp add: window_bytes_def light_def)
qed

lemma rate_defined:
  assumes "meter wnd r lg now0" and "light lg" and "now0 \<le> now" and "0 \<le> now" and "now < 2147483647"
  shows "\<exists>r' v. rate_stat_rate r now = Some (r', v) \<and> meter wnd r' lg now"
proof -
  have m: "rs_rel r lg" "rs_wnd_size r = wnd" "rs_scale r = fp_lit 8000" "oldest_ts r \<le> now" "\<forall>x\<in>set lg. fst x \<le> now" "0 < wnd" "wnd \<le> 1000"
    using assms(1,3) by (auto simp: meter_def)
  obtain r' where e: "rate_stat_erase r now = Some r'" "rs_rel r' lg" "rs_wnd_size r' = wnd" "rs_scale r' = fp_lit 8000"
    "oldest_ts r' = (if oldest_ts r = -1 then -1 else max (oldest_ts r) (now - wnd + 1))"
    using rate_stat_erase_rel [OF m(1) assms(4,5)] m(2,3) by auto
  have ok: "meter wnd r' lg now"
    using e m(4-7) assms(4) by (auto simp: meter_def)
  show ?thesis
  proof (cases "sample_num r' = 0 \<or> s32 (now - oldest_ts r' + 1) \<le> 1 \<or> (sample_num r' = 1 \<and> s32 (now - oldest_ts r' + 1) \<le> rs_wnd_size r')")
    case True
    then show ?thesis
      using ok by (auto simp: rate_stat_rate_def e(1) Let_def)
  next
    case False
    have acc: "accumulated_count r' \<in> {0..500000}"
    proof (cases "oldest_ts r' = -1")
      case True
      then have "set (buckets r') = {empty_bucket}" "accumulated_count r' = s32 (sum_list (map b_sum (buckets r')))"
        using e(2) by (auto simp: rs_rel_def rs_wf_def)
      moreover have "map b_sum (buckets r') = map (\<lambda>_. 0) (buckets r')"
        using calculation(1) by (auto intro: map_cong)
      ultimately show ?thesis by (simp add: s32_def)
    next
      case old: False
      then have "now - 999 \<le> oldest_ts r'" using e(5) m(7) by (auto split: if_splits)
      from light_window [OF assms(2) m(5) this] rs_totals(2) [OF e(2) old]
      show ?thesis by (simp add: s32_id)
    qed
    define w where "w = s32 (now - oldest_ts r' + 1)"
    have w: "2 \<le> w" "w \<le> 2147483647" using False by (auto simp: w_def s32_def)
    have r4: "frep TYPE(24) 4000000000" "frep TYPE(24) 2000000000" "frep TYPE(24) 2147483648"
      unfolding frep_def by ((rule float_rep [of 15625000 8]; simp), (rule float_rep [of 15625000 7]; simp), (rule float_rep [of 1 31]; simp))
    have a: "fin_in 0 500000 (fp_of_int (accumulated_count r') :: float)"
      using acc fin_in_of_int_range [of 0 "accumulated_count r'" 500000, where 'p = 24] by simp
    have "fin_in 8000 8000 (fp_lit 8000 :: float)" by (rule fin_in_lit) simp_all
    then have p: "fin_in 0 4000000000 (fp_of_int (accumulated_count r') * fp_lit 8000 :: float)"
      by (rule fin_in_mul [OF a]) (simp_all add: r4)
    have "fin_in 2 2147483648 (fp_of_int w :: float)"
      using w fin_in_of_int_range [of 2 w 2147483648, where 'p = 24] by (simp add: r4)
    then have "fin_in 0 2000000000 (fp_of_int (accumulated_count r') * fp_lit 8000 div fp_of_int w :: float)"
      by (rule fin_in_div [OF p]) (simp_all add: r4)
    then have c: "fin_in 0 2000000000 (fp_conv (fp_of_int (accumulated_count r') * fp_lit 8000 div fp_of_int w :: float) :: double)"
      by (rule fin_in_conv) simp_all
    have "fin_in 0 1 (fp_lit 0.5 :: double)" by (rule fin_in_lit) simp_all
    then have "fin_in 0 2000000001 (fp_conv (fp_of_int (accumulated_count r') * fp_lit 8000 div fp_of_int w :: float) + fp_lit 0.5 :: double)"
      by (rule fin_in_add [OF c]) simp_all
    from fin_in_to_s32 [OF this] obtain v where
      "fp_to_s32 (fp_conv (fp_of_int (accumulated_count r') * fp_lit 8000 div fp_of_int w :: float) + fp_lit 0.5 :: double) = Some v" by auto
    then show ?thesis
      using ok False unfolding rate_stat_rate_def e(1) option.case Let_def e(4) w_def by simp
  qed
qed

lemma meter_update:
  assumes "meter wnd r lg now0" and "now0 \<le> now" and "0 \<le> now" and "now < 2147483647"
  shows "\<exists>r'. rate_stat_update r c now = Some r' \<and> meter wnd r' (lg @ [(now, c)]) now"
proof -
  have m: "rs_rel r lg" "oldest_ts r \<le> now" "rs_wnd_size r = wnd" "rs_scale r = fp_lit 8000" "0 < wnd" using assms by (auto simp: meter_def)
  have le: "\<forall>x\<in>set (lg @ [(now, c)]). fst x \<le> now" using assms by (fastforce simp: meter_def)
  from rate_stat_update_rel [OF m(1) assms(3,4) m(2), of c] obtain r' where
    "rate_stat_update r c now = Some r'" "rs_rel r' (lg @ [(now, c)])" "rs_wnd_size r' = wnd" "rs_scale r' = fp_lit 8000" "oldest_ts r' \<le> now"
    using m by (auto split: if_splits)
  with le assms(1) show ?thesis by (simp add: meter_def)
qed

lemma meter_reset: "meter wnd r lg now \<Longrightarrow> 0 \<le> now \<Longrightarrow> meter wnd (rate_stat_reset r) [] now"
  by (auto simp: meter_def rs_rel_def rs_wf_def rate_stat_reset_def s32_def sum_list_replicate map_replicate_const)

end
