(* ===== verification/Remote_Bitrate.thy ===== *)
theory Remote_Bitrate
  imports Aimd Inter_Arrival Overuse_Detector Kalman_Filter Rate_Meter
begin

text \<open>
  \<^verbatim>\<open>estimator/remote_bitrate_estimator.c\<close>: the estimate at the receiver, sent back as REMB. The incoming rate
  is measured over a second; the inter-arrival filter, the Kalman filter and the overuse detector give the
  link state for the rate controller. \<open>None\<close> is a value that does not fit its type.

  The lemmas: each operation keeps \<open>rbe_ok\<close>, as long as no second carries more than 500000 bytes.
\<close>

abbreviation rbe_k_min_bitrate :: u32 where "rbe_k_min_bitrate \<equiv> 64000"
abbreviation rbe_k_max_bitrate :: u32 where "rbe_k_max_bitrate \<equiv> 12800000"
abbreviation k_process_interval_ms :: int where "k_process_interval_ms \<equiv> 500"
abbreviation k_max_update_timeout :: int where "k_max_update_timeout \<equiv> 2000"
abbreviation k_rate_window_size :: int where "k_rate_window_size \<equiv> 1000"
abbreviation k_rate_scale :: float where "k_rate_scale \<equiv> fp_lit 8000"

record remote_bitrate_estimator =
  rbe_last_update_ts :: int
  rbe_interval_ts :: int
  rbe_last_packet_ts :: int
  last_incoming_bitrate :: int
  rbe_incoming_bitrate :: rate_stat
  rbe_aimd :: aimd_rate_controller
  rbe_detector :: overuse_detector
  rbe_inter_arrival :: inter_arrival
  rbe_kalman :: kalman_filter

definition rbe_create :: "int \<Rightarrow> remote_bitrate_estimator" where
  "rbe_create sys_ts = \<lparr>rbe_last_update_ts = sys_ts, rbe_interval_ts = k_process_interval_ms, rbe_last_packet_ts = -1,
     last_incoming_bitrate = -1, rbe_incoming_bitrate = rate_stat_init k_rate_window_size k_rate_scale,
     rbe_aimd = aimd_create rbe_k_min_bitrate rbe_k_max_bitrate, rbe_detector = overuse_create,
     rbe_inter_arrival = create_inter_arrival 0 5, rbe_kalman = kalman_filter_create\<rparr>"

definition rbe_reset :: "remote_bitrate_estimator \<Rightarrow> remote_bitrate_estimator" where
  "rbe_reset est = est\<lparr>rbe_detector := overuse_create, rbe_inter_arrival := create_inter_arrival 0 5, rbe_kalman := kalman_filter_create\<rparr>"

definition rbe_update_rtt :: "remote_bitrate_estimator \<Rightarrow> u32 \<Rightarrow> remote_bitrate_estimator" where
  "rbe_update_rtt est rtt = est\<lparr>rbe_aimd := aimd_set_rtt (rbe_aimd est) rtt\<rparr>"

definition rbe_set_min_bitrate :: "remote_bitrate_estimator \<Rightarrow> u32 \<Rightarrow> remote_bitrate_estimator" where
  "rbe_set_min_bitrate est min_bitrate = est\<lparr>rbe_aimd := aimd_set_min_bitrate (rbe_aimd est) min_bitrate\<rparr>"

definition rbe_set_max_bitrate :: "remote_bitrate_estimator \<Rightarrow> u32 \<Rightarrow> remote_bitrate_estimator" where
  "rbe_set_max_bitrate est max_bitrate = est\<lparr>rbe_aimd := aimd_set_max_bitrate (rbe_aimd est) max_bitrate\<rparr>"

text \<open>\<open>None\<close> stands for the result \<open>-1\<close>.\<close>

definition rbe_last_estimate :: "remote_bitrate_estimator \<Rightarrow> u32 option" where
  "rbe_last_estimate est = (if inited (rbe_aimd est) = -1 then None else Some (curr_rate (rbe_aimd est)))"

definition rbe_update_estimate :: "remote_bitrate_estimator \<Rightarrow> int \<Rightarrow> remote_bitrate_estimator option" where
  "rbe_update_estimate est now_ts =
     (let (est, sum_var_noise, state) =
            (if rbe_last_packet_ts est + k_max_update_timeout < now_ts then (rbe_reset est, fp_lit 0, kBwNormal)
             else (est, var_noise (rbe_kalman est), od_state (rbe_detector est)))
      in case rate_stat_rate (rbe_incoming_bitrate est) now_ts of None \<Rightarrow> None
      | Some (r, rate) \<Rightarrow>
        (case aimd_update (rbe_aimd est) \<lparr>in_state = state, incoming_bitrate = word_of_int rate, noise_var = sum_var_noise\<rparr> now_ts of
           None \<Rightarrow> None
         | Some (aimd, input, target_bitrate) \<Rightarrow>
           (let est = est\<lparr>rbe_incoming_bitrate := r, rbe_aimd := aimd\<rparr> in
            if inited aimd = 0 then map_option (\<lambda>i. est\<lparr>rbe_interval_ts := i\<rparr>) (aimd_get_feelback_interval aimd) else Some est)))"

text \<open>The new state, \<open>*remb\<close> and the result.\<close>

definition rbe_heartbeat :: "remote_bitrate_estimator \<Rightarrow> int \<Rightarrow> (remote_bitrate_estimator \<times> u32 \<times> int) option" where
  "rbe_heartbeat est now_ts =
     (if rbe_last_update_ts est + rbe_interval_ts est \<le> now_ts
      then (let est = est\<lparr>rbe_last_update_ts := now_ts\<rparr> in
        case (if 0 < rbe_last_packet_ts est \<and> now_ts < rbe_last_packet_ts est + k_max_update_timeout
              then rbe_update_estimate est now_ts else Some est) of None \<Rightarrow> None
        | Some est \<Rightarrow> Some (case rbe_last_estimate est of None \<Rightarrow> (est, 0, -1) | Some bitrate \<Rightarrow> (est, bitrate, 0)))
      else Some (est, 0, -1))"

text \<open>The measurement of the incoming rate, and the filters.\<close>

definition rbe_measure :: "remote_bitrate_estimator \<Rightarrow> nat \<Rightarrow> int \<Rightarrow> remote_bitrate_estimator option" where
  "rbe_measure est sz now_ts =
     (case rate_stat_rate (rbe_incoming_bitrate est) now_ts of None \<Rightarrow> None
      | Some (r, incoming_rate) \<Rightarrow>
        (let est = est\<lparr>rbe_incoming_bitrate := r\<rparr>;
             est = (if 0 \<le> incoming_rate then est\<lparr>last_incoming_bitrate := incoming_rate\<rparr>
                    else if 0 < last_incoming_bitrate est
                    then est\<lparr>rbe_incoming_bitrate := rate_stat_reset (rbe_incoming_bitrate est), last_incoming_bitrate := 0\<rparr>
                    else est)
         in map_option (\<lambda>r. est\<lparr>rbe_incoming_bitrate := r\<rparr>) (rate_stat_update (rbe_incoming_bitrate est) sz now_ts)))"

definition rbe_filter :: "remote_bitrate_estimator \<Rightarrow> u32 \<Rightarrow> int \<Rightarrow> nat \<Rightarrow> int \<Rightarrow> remote_bitrate_estimator" where
  "rbe_filter est timestamp arr_at sz now_ts =
     (case inter_arrival_compute_deltas (rbe_inter_arrival est) timestamp arr_at now_ts sz of
        (arr, None) \<Rightarrow> est\<lparr>rbe_inter_arrival := arr\<rparr>
      | (arr, Some (delta_ts, delta_arrival, delta_size)) \<Rightarrow>
          (let kalman = kalman_filter_update (rbe_kalman est) delta_arrival (fp_of_int (uint delta_ts)) delta_size (od_state (rbe_detector est)) now_ts
           in est\<lparr>rbe_inter_arrival := arr, rbe_kalman := kalman,
                  rbe_detector := fst (overuse_detect (rbe_detector est) (kf_offset kalman) (fp_of_int (uint delta_ts))
                    (uint (kf_num_of_deltas kalman)) now_ts)\<rparr>))"

definition rbe_incoming_packet :: "remote_bitrate_estimator \<Rightarrow> u32 \<Rightarrow> int \<Rightarrow> nat \<Rightarrow> int \<Rightarrow> remote_bitrate_estimator option" where
  "rbe_incoming_packet est timestamp arr_at sz now_ts =
     (case rbe_measure est sz now_ts of None \<Rightarrow> None
      | Some est \<Rightarrow>
        (let est = est\<lparr>rbe_last_packet_ts := now_ts\<rparr>;
             prev_state = od_state (rbe_detector est);
             est = rbe_filter est timestamp arr_at sz now_ts
         in map_option (\<lambda>est. est\<lparr>rbe_last_packet_ts := now_ts\<rparr>)
           (if od_state (rbe_detector est) = kBwOverusing
            then (case rate_stat_rate (rbe_incoming_bitrate est) now_ts of None \<Rightarrow> None
              | Some (r, incoming_rate) \<Rightarrow>
                (let est = est\<lparr>rbe_incoming_bitrate := r\<rparr> in
                 if 0 < incoming_rate \<and> (prev_state \<noteq> kBwOverusing \<or> aimd_time_reduce_further (rbe_aimd est) now_ts (word_of_int incoming_rate) = 0)
                 then rbe_update_estimate est now_ts else Some est))
            else Some est)))"

subsection \<open>Every packet and every timer call is handled\<close>

abbreviation meter_ok :: "rate_stat \<Rightarrow> rate_log \<Rightarrow> int \<Rightarrow> bool" where "meter_ok \<equiv> meter 1000"

lemma feedback_interval_total: "\<exists>i. aimd_get_feelback_interval a = Some i \<and> 200 \<le> i \<and> i \<le> 1000"
proof -
  have "frep TYPE(53) (1 / 16)" by simp
  then have "fin_in 0 (1 / 16) (fp_lit 0.05 :: double)" by (intro fin_in_lit) simp_all
  then have "fin_in 0 268435456 (fp_lit 0.05 * fp_of_int (uint (curr_rate a)) :: double)"
    by (rule fin_in_mul [OF _ u32_in]) simp_all
  moreover have "fin_in (1 / 2) (1 / 2) (fp_lit 0.5 :: double)" by (rule fin_in_lit) simp_all
  ultimately have d: "fin_in (1 / 2) 268435457 (fp_lit 0.05 * fp_of_int (uint (curr_rate a)) + fp_lit 0.5 :: double)"
    by (rule fin_in_add) simp_all
  have "fin_in 512000 512000 (fp_of_int (64 * 8 * 1000) :: double)" by (rule fin_in_of_int) simp_all
  then have "fin_in 0 1024000 (fp_of_int (64 * 8 * 1000) div (fp_lit 0.05 * fp_of_int (uint (curr_rate a)) + fp_lit 0.5) :: double)"
    using d by (rule fin_in_div) simp_all
  from fin_in_to_s64 [OF this] obtain i where
    "fp_to_s64 (fp_of_int (64 * 8 * 1000) div (fp_lit 0.05 * fp_of_int (uint (curr_rate a)) + fp_lit 0.5) :: double) = Some i" by auto
  then show ?thesis
    by (simp add: aimd_get_feelback_interval_def del: ai_ops)
qed

text \<open>\<open>lg\<close> is what has been metered since the last reset.\<close>

definition rbe_ok :: "int \<Rightarrow> int \<Rightarrow> rate_log \<Rightarrow> remote_bitrate_estimator \<Rightarrow> bool" where
  "rbe_ok start now lg est \<longleftrightarrow> meter_ok (rbe_incoming_bitrate est) lg now \<and> aimd_wf start now (rbe_aimd est)
     \<and> in_rates (rbe_aimd est) (curr_rate (rbe_aimd est)) \<and> 200 \<le> rbe_interval_ts est"

lemma rbe_reset_frame [simp]: "rbe_incoming_bitrate (rbe_reset est) = rbe_incoming_bitrate est" "rbe_aimd (rbe_reset est) = rbe_aimd est"
  "rbe_interval_ts (rbe_reset est) = rbe_interval_ts est" "rbe_last_update_ts (rbe_reset est) = rbe_last_update_ts est"
  by (simp_all add: rbe_reset_def)

definition rates_of :: "remote_bitrate_estimator \<Rightarrow> u32 \<times> u32" where
  "rates_of est = (min_rate (rbe_aimd est), max_rate (rbe_aimd est))"

lemma update_estimate_ok:
  assumes "rbe_ok start now0 lg est" and "light lg" and "now0 \<le> now" and "now - start \<le> 53000000" and "0 \<le> now" and "now < 2147483647"
  shows "\<exists>est'. rbe_update_estimate est now = Some est' \<and> rbe_ok start now lg est' \<and> rates_of est' = rates_of est
    \<and> rbe_last_update_ts est' = rbe_last_update_ts est"
proof -
  define e where "e = (if rbe_last_packet_ts est + k_max_update_timeout < now then rbe_reset est else est)"
  define st where "st = (if rbe_last_packet_ts est + k_max_update_timeout < now then kBwNormal else od_state (rbe_detector est))"
  define nv where "nv = (if rbe_last_packet_ts est + k_max_update_timeout < now then fp_lit 0 else var_noise (rbe_kalman est))"
  have e: "rbe_incoming_bitrate e = rbe_incoming_bitrate est" "rbe_aimd e = rbe_aimd est" "rbe_interval_ts e = rbe_interval_ts est"
    "rbe_last_update_ts e = rbe_last_update_ts est"
    by (simp_all add: e_def)
  obtain r v where r: "rate_stat_rate (rbe_incoming_bitrate est) now = Some (r, v)" "meter_ok r lg now"
    using rate_defined [OF _ assms(2,3,5,6)] assms(1) unfolding rbe_ok_def by blast
  have a: "aimd_wf start now0 (rbe_aimd est)" "in_rates (rbe_aimd est) (curr_rate (rbe_aimd est))"
    using assms(1) by (simp_all add: rbe_ok_def)
  obtain a' inp' rt where u: "aimd_update (rbe_aimd est) \<lparr>in_state = st, incoming_bitrate = word_of_int v, noise_var = nv\<rparr> now = Some (a', inp', rt)"
    "curr_rate a' = rt" "min_rate a' = min_rate (rbe_aimd est)" "max_rate a' = max_rate (rbe_aimd est)" "aimd_wf start now a'"
    "in_rates (rbe_aimd est) rt \<or> rt = curr_rate (rbe_aimd est)"
    using aimd_update_total [OF a(1) assms(3,4), of "\<lparr>in_state = st, incoming_bitrate = word_of_int v, noise_var = nv\<rparr>"] by blast
  have rt: "in_rates (rbe_aimd est) rt" using u(6) a(2) by auto
  obtain i where i: "aimd_get_feelback_interval a' = Some i" "200 \<le> i"
    using feedback_interval_total by blast
  have "rbe_update_estimate est now = (let x = e\<lparr>rbe_incoming_bitrate := r, rbe_aimd := a'\<rparr> in Some (if inited a' = 0 then x\<lparr>rbe_interval_ts := i\<rparr> else x))"
    using r(1) u(1) i(1) unfolding rbe_update_estimate_def e_def st_def nv_def Let_def
    by (cases "rbe_last_packet_ts est + k_max_update_timeout < now") simp_all
  then show ?thesis
    using r(2) u(2-5) rt i(2) assms(1) e by (simp add: rbe_ok_def rates_of_def in_rates_def Let_def)
qed

lemma measure_ok:
  assumes "rbe_ok start now0 lg est" and "light (lg @ [(now, sz)])" and "now0 \<le> now" and "0 \<le> now" and "now < 2147483647"
  shows "\<exists>est' lg'. rbe_measure est sz now = Some est' \<and> (lg' = lg @ [(now, sz)] \<or> lg' = [(now, sz)]) \<and> meter_ok (rbe_incoming_bitrate est') lg' now
    \<and> rbe_aimd est' = rbe_aimd est \<and> rbe_interval_ts est' = rbe_interval_ts est \<and> rbe_last_update_ts est' = rbe_last_update_ts est"
proof -
  obtain r v where r: "rate_stat_rate (rbe_incoming_bitrate est) now = Some (r, v)" "meter_ok r lg now"
    using rate_defined [OF _ light_append(1) [OF assms(2)] assms(3-5)] assms(1) unfolding rbe_ok_def by blast
  show ?thesis
  proof (cases "v < 0 \<and> 0 < last_incoming_bitrate est")
    case True
    obtain r' where "rate_stat_update (rate_stat_reset r) sz now = Some r'" "meter_ok r' ([] @ [(now, sz)]) now"
      using meter_update [OF meter_reset [OF r(2) assms(4)] order_refl assms(4,5)] by blast
    then show ?thesis
      using True by (intro exI [of _ "est\<lparr>rbe_incoming_bitrate := r', last_incoming_bitrate := 0\<rparr>"] exI [of _ "[(now, sz)]"])
        (simp add: rbe_measure_def r(1) Let_def)
  next
    case False
    obtain r' where u: "rate_stat_update r sz now = Some r'" "meter_ok r' (lg @ [(now, sz)]) now"
      using meter_update [OF r(2) order_refl assms(4,5)] by blast
    define e where "e = (if 0 \<le> v then est\<lparr>rbe_incoming_bitrate := r', last_incoming_bitrate := v\<rparr> else est\<lparr>rbe_incoming_bitrate := r'\<rparr>)"
    have "rbe_measure est sz now = Some e"
      using False u(1) by (auto simp: rbe_measure_def r(1) Let_def e_def)
    then show ?thesis
      using u(2) by (intro exI [of _ e] exI [of _ "lg @ [(now, sz)]"]) (simp add: e_def)
  qed
qed

lemma rbe_filter_frame [simp]: "rbe_incoming_bitrate (rbe_filter est ts arr sz now) = rbe_incoming_bitrate est"
  "rbe_aimd (rbe_filter est ts arr sz now) = rbe_aimd est" "rbe_interval_ts (rbe_filter est ts arr sz now) = rbe_interval_ts est"
  "rbe_last_update_ts (rbe_filter est ts arr sz now) = rbe_last_update_ts est"
  by (simp_all add: rbe_filter_def Let_def split: prod.splits option.splits)

lemma rbe_ok_packet_ts [simp]: "rbe_ok start now lg (est\<lparr>rbe_last_packet_ts := t\<rparr>) = rbe_ok start now lg est"
  "rbe_ok start now lg (est\<lparr>rbe_last_update_ts := t\<rparr>) = rbe_ok start now lg est"
  by (simp_all add: rbe_ok_def)

lemma incoming_packet_ok:
  assumes "rbe_ok start now0 lg est" and "light (lg @ [(now, sz)])" and "now0 \<le> now" and "now - start \<le> 53000000" and "0 \<le> now" and "now < 2147483647"
  shows "\<exists>est' lg'. rbe_incoming_packet est ts arr sz now = Some est' \<and> (lg' = lg @ [(now, sz)] \<or> lg' = [(now, sz)]) \<and> rbe_ok start now lg' est'
    \<and> rates_of est' = rates_of est \<and> rbe_last_update_ts est' = rbe_last_update_ts est"
proof -
  obtain e1 lg' where m: "rbe_measure est sz now = Some e1" "lg' = lg @ [(now, sz)] \<or> lg' = [(now, sz)]" "meter_ok (rbe_incoming_bitrate e1) lg' now"
    "rbe_aimd e1 = rbe_aimd est" "rbe_interval_ts e1 = rbe_interval_ts est" "rbe_last_update_ts e1 = rbe_last_update_ts est"
    using measure_ok [OF assms(1-3,5,6)] by blast
  have lt: "light lg'" using m(2) assms(2) light_append(2) [of lg "[(now, sz)]"] by auto
  define e2 where "e2 = rbe_filter (e1\<lparr>rbe_last_packet_ts := now\<rparr>) ts arr sz now"
  have wf: "aimd_wf start now (rbe_aimd est)" "in_rates (rbe_aimd est) (curr_rate (rbe_aimd est))" "200 \<le> rbe_interval_ts est"
    using assms(1,3) by (auto simp: rbe_ok_def aimd_wf_def)
  then have e2: "rbe_ok start now lg' e2" "rates_of e2 = rates_of est" "rbe_last_update_ts e2 = rbe_last_update_ts est"
    using m by (simp_all add: e2_def rbe_ok_def rates_of_def)
  obtain r v where r: "rate_stat_rate (rbe_incoming_bitrate e2) now = Some (r, v)" "meter_ok r lg' now"
    using rate_defined [OF _ lt order_refl assms(5,6)] e2(1) unfolding rbe_ok_def by blast
  define e3 where "e3 = e2\<lparr>rbe_incoming_bitrate := r\<rparr>"
  have e3: "rbe_ok start now lg' e3" "rates_of e3 = rates_of est" "rbe_last_update_ts e3 = rbe_last_update_ts est"
    using e2 r(2) by (simp_all add: e3_def rbe_ok_def rates_of_def)
  have a3: "rbe_aimd e3 = rbe_aimd e2" by (simp add: e3_def)
  obtain e4 where e4: "rbe_update_estimate e3 now = Some e4" "rbe_ok start now lg' e4" "rates_of e4 = rates_of est" "rbe_last_update_ts e4 = rbe_last_update_ts est"
    using update_estimate_ok [OF e3(1) lt order_refl assms(4-6)] e3(2,3) by auto
  define e where "e = (if od_state (rbe_detector e2) = kBwOverusing
      then if 0 < v \<and> (od_state (rbe_detector e1) \<noteq> kBwOverusing \<or> aimd_time_reduce_further (rbe_aimd e3) now (word_of_int v) = 0) then e4 else e3 else e2)"
  have "rbe_incoming_packet est ts arr sz now = Some (e\<lparr>rbe_last_packet_ts := now\<rparr>)"
    using m(1) r(1) e4(1) a3 unfolding rbe_incoming_packet_def Let_def e_def by (auto simp: e2_def [symmetric] e3_def [symmetric])
  moreover have "rbe_ok start now lg' e" "rates_of e = rates_of est" "rbe_last_update_ts e = rbe_last_update_ts est"
    using e2 e3 e4 by (simp_all add: e_def)
  ultimately show ?thesis
    using m(2) by (intro exI [of _ "e\<lparr>rbe_last_packet_ts := now\<rparr>"] exI [of _ lg']) (simp add: rates_of_def)
qed

lemma heartbeat_ok:
  assumes "rbe_ok start now0 lg est" and "light lg" and "now0 \<le> now" and "now - start \<le> 53000000" and "0 \<le> now" and "now < 2147483647"
  shows "\<exists>est' b ret. rbe_heartbeat est now = Some (est', b, ret) \<and> rbe_ok start now lg est' \<and> rates_of est' = rates_of est
    \<and> (ret = 0 \<longrightarrow> in_rates (rbe_aimd est) b \<and> rbe_last_update_ts est + rbe_interval_ts est \<le> now \<and> rbe_last_update_ts est' = now)
    \<and> (rbe_last_update_ts est' = rbe_last_update_ts est \<or> rbe_last_update_ts est' = now)"
proof (cases "rbe_last_update_ts est + rbe_interval_ts est \<le> now")
  case False
  have "rbe_ok start now lg est" using assms(1,3) by (auto simp: rbe_ok_def aimd_wf_def meter_def)
  with False show ?thesis by (simp add: rbe_heartbeat_def)
next
  case True
  define e1 where "e1 = est\<lparr>rbe_last_update_ts := now\<rparr>"
  have e1: "rbe_ok start now0 lg e1" "rates_of e1 = rates_of est" using assms(1) by (simp_all add: e1_def rates_of_def)
  obtain e2 where e2: "rbe_update_estimate e1 now = Some e2" "rbe_ok start now lg e2" "rates_of e2 = rates_of est" "rbe_last_update_ts e2 = now"
    using update_estimate_ok [OF e1(1) assms(2-6)] e1(2) by (auto simp: e1_def)
  define e where "e = (if 0 < rbe_last_packet_ts e1 \<and> now < rbe_last_packet_ts e1 + k_max_update_timeout then e2 else e1)"
  have "rbe_ok start now lg e1" using e1(1) assms(3) by (auto simp: rbe_ok_def aimd_wf_def meter_def)
  then have e: "rbe_ok start now lg e" "rates_of e = rates_of est" "rbe_last_update_ts e = now"
    using e1(2) e2 by (simp_all add: e_def) (simp add: e1_def)
  have hb: "rbe_heartbeat est now = Some (case rbe_last_estimate e of None \<Rightarrow> (e, 0, -1) | Some b \<Rightarrow> (e, b, 0))"
    unfolding rbe_heartbeat_def Let_def e1_def [symmetric] e_def using True e2(1) by auto
  have "in_rates (rbe_aimd est) (curr_rate (rbe_aimd e))"
    using e(1,2) by (simp add: rbe_ok_def in_rates_def rates_of_def)
  then show ?thesis
    using e True by (auto simp: hb rbe_last_estimate_def)
qed

datatype rbe_op = RPacket u32 int nat int | RHeartbeat int | RRtt u32

text \<open>The answers of the timer calls: the time and the REMB.\<close>

fun rbe_run :: "remote_bitrate_estimator \<Rightarrow> rbe_op list \<Rightarrow> (remote_bitrate_estimator \<times> (int \<times> u32) list) option" where
  "rbe_run est [] = Some (est, [])"
| "rbe_run est (RPacket ts arr sz now # ops) = (case rbe_incoming_packet est ts arr sz now of None \<Rightarrow> None | Some est' \<Rightarrow> rbe_run est' ops)"
| "rbe_run est (RHeartbeat now # ops) = (case rbe_heartbeat est now of None \<Rightarrow> None
     | Some (est', b, ret) \<Rightarrow> map_option (\<lambda>(e, rs). (e, if ret = 0 then (now, b) # rs else rs)) (rbe_run est' ops))"
| "rbe_run est (RRtt rtt # ops) = rbe_run (rbe_update_rtt est rtt) ops"

fun rbe_ops_ok :: "int \<Rightarrow> int \<Rightarrow> rbe_op list \<Rightarrow> bool" where
  "rbe_ops_ok start now [] = True"
| "rbe_ops_ok start now (RPacket ts arr sz t # ops) = (now \<le> t \<and> t \<le> start + 53000000 \<and> t < 2147483647 \<and> rbe_ops_ok start t ops)"
| "rbe_ops_ok start now (RHeartbeat t # ops) = (now \<le> t \<and> t \<le> start + 53000000 \<and> t < 2147483647 \<and> rbe_ops_ok start t ops)"
| "rbe_ops_ok start now (RRtt rtt # ops) = (rtt \<le> 1000000 \<and> rbe_ops_ok start now ops)"

fun metered :: "rbe_op list \<Rightarrow> rate_log" where
  "metered [] = []"
| "metered (RPacket ts arr sz t # ops) = (t, sz) # metered ops"
| "metered (RHeartbeat t # ops) = metered ops"
| "metered (RRtt rtt # ops) = metered ops"

lemma spaced_weaken: "successively (\<lambda>a b. a + 200 \<le> b) (y # zs) \<Longrightarrow> x \<le> y \<Longrightarrow> successively (\<lambda>a b. a + 200 \<le> b) (x # zs)" for x :: int
  by (cases zs) auto

lemma rbe_run_ok:
  assumes "rbe_ok start now lg est" and "rbe_ops_ok start now ops" and "light (lg @ metered ops)" and "0 \<le> now" and "rbe_last_update_ts est \<le> now"
  shows "\<exists>est' rs. rbe_run est ops = Some (est', rs) \<and> (\<forall>x\<in>set rs. in_rates (rbe_aimd est) (snd x))
    \<and> successively (\<lambda>a b. a + 200 \<le> b) (rbe_last_update_ts est # map fst rs)"
  using assms
proof (induction start now ops arbitrary: lg est rule: rbe_ops_ok.induct)
  case (1 start now)
  then show ?case by simp
next
  case (2 start now ts arr sz t ops)
  have t: "now \<le> t" "t - start \<le> 53000000" "0 \<le> t" "t < 2147483647" using "2.prems"(2,4) by auto
  have l: "light (lg @ [(t, sz)])" "light ([(t, sz)] @ metered ops)" "light ((lg @ [(t, sz)]) @ metered ops)"
    using "2.prems"(3) light_append(1) [of "lg @ [(t, sz)]" "metered ops"] light_append(2) [of lg "[(t, sz)] @ metered ops"] by simp_all
  obtain e lg' where e: "rbe_incoming_packet est ts arr sz t = Some e" "lg' = lg @ [(t, sz)] \<or> lg' = [(t, sz)]" "rbe_ok start t lg' e"
    "rates_of e = rates_of est" "rbe_last_update_ts e = rbe_last_update_ts est"
    using incoming_packet_ok [OF "2.prems"(1) l(1) t(1,2,3,4)] by blast
  have "light (lg' @ metered ops)" using e(2) l(2,3) by auto
  from "2.IH" [OF e(3) _ this t(3)] "2.prems"(2,5) e(1,4,5) t(1) show ?case
    by (auto simp: in_rates_def rates_of_def)
next
  case (3 start now t ops)
  have t: "now \<le> t" "t - start \<le> 53000000" "0 \<le> t" "t < 2147483647" using "3.prems"(2,4) by auto
  have l: "light lg" "light (lg @ metered ops)" using "3.prems"(3) light_append(1) [of lg "metered ops"] by simp_all
  obtain e b ret where e: "rbe_heartbeat est t = Some (e, b, ret)" "rbe_ok start t lg e" "rates_of e = rates_of est"
    "ret = 0 \<longrightarrow> in_rates (rbe_aimd est) b \<and> rbe_last_update_ts est + rbe_interval_ts est \<le> t \<and> rbe_last_update_ts e = t"
    "rbe_last_update_ts e = rbe_last_update_ts est \<or> rbe_last_update_ts e = t"
    using heartbeat_ok [OF "3.prems"(1) l(1) t] by blast
  have lu: "rbe_last_update_ts est \<le> rbe_last_update_ts e" "rbe_last_update_ts e \<le> t" using e(5) "3.prems"(5) t(1) by auto
  from "3.IH" [OF e(2) _ l(2) t(3) lu(2)] "3.prems"(2) obtain e' rs where r: "rbe_run e ops = Some (e', rs)"
    "\<forall>x\<in>set rs. in_rates (rbe_aimd e) (snd x)" "successively (\<lambda>a b. a + 200 \<le> b) (rbe_last_update_ts e # map fst rs)"
    by auto
  have i: "200 \<le> rbe_interval_ts est" using "3.prems"(1) by (simp add: rbe_ok_def)
  show ?case
    using e(1,3,4) r spaced_weaken [OF r(3) lu(1)] i by (auto simp: in_rates_def rates_of_def)
next
  case (4 start now rtt ops)
  have "rbe_ok start now lg (rbe_update_rtt est rtt)" "rates_of (rbe_update_rtt est rtt) = rates_of est"
    "rbe_last_update_ts (rbe_update_rtt est rtt) = rbe_last_update_ts est"
    using "4.prems"(1,2) by (simp_all add: rbe_ok_def rbe_update_rtt_def aimd_set_rtt_def aimd_wf_def in_rates_def rates_of_def)
  from "4.IH" [OF this(1)] "4.prems"(2-5) this show ?case by (auto simp: in_rates_def rates_of_def)
qed

lemma rbe_create_ok:
  assumes "1 \<le> mn" and "mn \<le> mx" and "0 \<le> start"
  shows "rbe_ok start start [] (rbe_set_max_bitrate (rbe_set_min_bitrate (rbe_create start) mn) mx)"
    and "rates_of (rbe_set_max_bitrate (rbe_set_min_bitrate (rbe_create start) mn) mx) = (mn, mx)"
    and "rbe_last_update_ts (rbe_set_max_bitrate (rbe_set_min_bitrate (rbe_create start) mn) mx) = start"
proof -
  define e where "e = rbe_set_max_bitrate (rbe_set_min_bitrate (rbe_create start) mn) mx"
  have a: "rbe_aimd e = (aimd_create rbe_k_min_bitrate rbe_k_max_bitrate)\<lparr>min_rate := mn, max_rate := mx, curr_rate := mn\<rparr>"
    using assms(2) by (simp add: e_def rbe_set_max_bitrate_def rbe_set_min_bitrate_def rbe_create_def aimd_set_min_bitrate_def
      aimd_set_max_bitrate_def aimd_create_def Let_def min_def)
  have f: "rbe_incoming_bitrate e = rate_stat_init 1000 (fp_lit 8000)" "rbe_interval_ts e = 500" "rbe_last_update_ts e = start"
    by (simp_all add: e_def rbe_set_max_bitrate_def rbe_set_min_bitrate_def rbe_create_def)
  have "meter_ok (rate_stat_init 1000 (fp_lit 8000)) [] start"
    using rate_stat_init_rel [of 1000 "fp_lit 8000"] assms(3) by (simp add: meter_def rate_stat_init_def)
  moreover have "aimd_wf start start (rbe_aimd e)"
    using assms(1,2) by (simp add: a aimd_wf_def aimd_create_def fp_lit_minus_one)
  ultimately show "rbe_ok start start [] e" "rates_of e = (mn, mx)" "rbe_last_update_ts e = start"
    using assms(2) by (simp_all add: rbe_ok_def f a in_rates_def rates_of_def)
qed

text \<open>The controller is created with its two bounds swapped: until somebody sets them, every estimate is 64000.\<close>

lemma rbe_create_swapped: "clamp_bitrate (rbe_aimd (rbe_create t)) n c = 64000"
  by (simp add: clamp_bitrate_def rbe_create_def aimd_create_def Let_def min_absorb2 le_max_iff_disj)

text \<open>C19: The receiver's estimate is safe to send: with a minimum and a maximum set, over any sequence of
  packets, timer calls and round trip times in which no second carries more than 500000 bytes, every
  operation is defined (for 53000 s of time), every REMB that a timer call answers is between the bounds,
  and two of them are at least 200 ms apart.\<close>

theorem rbe_remb_safe:
  assumes "1 \<le> mn" and "mn \<le> mx" and "0 \<le> start" and "rbe_ops_ok start start ops" and "light (metered ops)"
  shows "\<exists>est rs. rbe_run (rbe_set_max_bitrate (rbe_set_min_bitrate (rbe_create start) mn) mx) ops = Some (est, rs)
    \<and> (\<forall>x\<in>set rs. mn \<le> snd x \<and> snd x \<le> mx) \<and> successively (\<lambda>a b. a + 200 \<le> b) (start # map fst rs)"
  using rbe_run_ok [OF rbe_create_ok(1) [OF assms(1-3)] assms(4)] rbe_create_ok(2,3) [OF assms(1-3)] assms(3,5)
  by (simp add: in_rates_def rates_of_def)

theorem rbe_remb_safe_witness:
  "\<exists>est rs. rbe_run (rbe_set_max_bitrate (rbe_set_min_bitrate (rbe_create 1000) 10000) 1500000)
      [RPacket 5 1010 1000 1010, RPacket 15 1030 1000 1030, RRtt 80, RHeartbeat 1500, RHeartbeat 7000] = Some (est, rs)
    \<and> (\<forall>x\<in>set rs. 10000 \<le> snd x \<and> snd x \<le> 1500000) \<and> successively (\<lambda>a b. a + 200 \<le> b) (1000 # map fst rs)"
proof (rule rbe_remb_safe)
  show "light (metered [RPacket 5 1010 1000 1010, RPacket 15 1030 1000 1030, RRtt 80, RHeartbeat 1500, RHeartbeat 7000])"
    by (simp add: light_def)
qed simp_all

end
