(* ===== verification/Receiver_CC.thy ===== *)
theory Receiver_CC
  imports Estimator_Proxy Loss_Stat Remote_Bitrate
begin

text \<open>
  \<^verbatim>\<open>cc/receiver_congestion_controller.c\<close> and the receiver's half of \<^verbatim>\<open>cc/razor_api.c\<close>: the object that a
  receiving application drives. Packets go to the estimator of the incoming rate or to the proxy for the
  sender's estimator, and to the loss statistics; each timer call asks the three for what they have to
  report and sends one feedback message with it. \<open>None\<close> is undefined behaviour in one of them.

  Each \<open>GET_SYS_MS()\<close> is the argument \<open>now_ts\<close>. \<open>stack\<close> is the \<open>feedback_msg_t\<close> as it lies uninitialised
  on the stack, \<open>malloc_ok\<close> whether \<open>malloc\<close> gives the stream its buffer. What \<open>send_cb\<close> is called with is
  a result. A pointer to the object that may be \<^verbatim>\<open>NULL\<close> in the interface functions is an \<open>option\<close>.

  The lemmas: every operation keeps \<open>rc_ok\<close>, and what is sent reads back as the report of a receiver
  with these bounds (\<open>report_ok\<close>).
\<close>

record receiver_cc =
  rc_min_bitrate :: int
  rc_max_bitrate :: int
  rc_proxy :: estimator_proxy
  rc_rbe :: remote_bitrate_estimator
  rc_loss_stat :: cc_loss_statistics

definition receiver_cc_create :: "int \<Rightarrow> int \<Rightarrow> int \<Rightarrow> int \<Rightarrow> receiver_cc" where
  "receiver_cc_create min_bitrate max_bitrate packet_header_size sys_ts =
     \<lparr>rc_min_bitrate = min_bitrate, rc_max_bitrate = max_bitrate,
      rc_proxy = estimator_proxy_create (nat (packet_header_size mod 18446744073709551616)) 0,
      rc_rbe = rbe_set_max_bitrate (rbe_set_min_bitrate (rbe_create sys_ts) (word_of_int min_bitrate)) (word_of_int max_bitrate),
      rc_loss_stat = loss_statistics_init\<rparr>"

text \<open>What the timer call collects: the message, with the flags of the parts that are set.\<close>

definition receiver_collect :: "feedback_msg \<Rightarrow> int \<Rightarrow> receiver_cc \<Rightarrow> (receiver_cc \<times> feedback_msg) option" where
  "receiver_collect msg now_ts cc = do {
     (rbe, v, ret) \<leftarrow> rbe_heartbeat (rc_rbe cc) now_ts;
     let msg = msg\<lparr>remb := v\<rparr>;
     let msg = (if ret = 0 then msg\<lparr>flag := or (flag msg) remb_msg\<rparr> else msg);
     let (stat, ret, fraction, num) = loss_statistics_calculate (rc_loss_stat cc) now_ts;
     let msg = msg\<lparr>fraction_loss := fraction, packet_num := num\<rparr>;
     let msg = (if ret = 0 then msg\<lparr>flag := or (flag msg) loss_info_msg\<rparr> else msg);
     (proxy, msg, ret) \<leftarrow> estimator_proxy_heartbeat (rc_proxy cc) now_ts msg;
     let msg = (if ret = 0 then msg\<lparr>flag := or (flag msg) proxy_ts_msg\<rparr> else msg);
     Some (cc\<lparr>rc_rbe := rbe, rc_loss_stat := stat, rc_proxy := proxy\<rparr>, msg)
   }"

text \<open>The results are the static byte order, the new state and the bytes sent.\<close>

definition receiver_cc_heartbeat :: "env \<Rightarrow> bool \<Rightarrow> feedback_msg \<Rightarrow> int \<Rightarrow> receiver_cc \<Rightarrow> (env \<times> receiver_cc \<times> u8 list option) option" where
  "receiver_cc_heartbeat e malloc_ok stack now_ts cc =
     (let (e, strm) = bin_stream_init e malloc_ok in do {
        (cc, msg) \<leftarrow> receiver_collect (stack\<lparr>flag := 0\<rparr>) now_ts cc;
        if flag msg \<noteq> 0
        then do { strm \<leftarrow> strm; strm \<leftarrow> feedback_msg_encode e strm msg; Some (e, cc, Some (written strm)) }
        else Some (e, cc, None)
      })"

definition receiver_cc_on_received :: "receiver_cc \<Rightarrow> u16 \<Rightarrow> u32 \<Rightarrow> nat \<Rightarrow> int \<Rightarrow> int \<Rightarrow> receiver_cc option" where
  "receiver_cc_on_received cc sq timestamp sz rmb now_ts = do {
     cc \<leftarrow> (if rmb = 0 then map_option (\<lambda>r. cc\<lparr>rc_rbe := r\<rparr>) (rbe_incoming_packet (rc_rbe cc) timestamp now_ts sz now_ts)
           else map_option (\<lambda>p. cc\<lparr>rc_proxy := p\<rparr>) (estimator_proxy_incoming (rc_proxy cc) now_ts 0 sq));
     map_option (\<lambda>s. cc\<lparr>rc_loss_stat := s\<rparr>) (loss_statistics_incoming (rc_loss_stat cc) sq)
   }"

definition receiver_cc_update_rtt :: "receiver_cc \<Rightarrow> int \<Rightarrow> receiver_cc" where
  "receiver_cc_update_rtt cc rtt = cc\<lparr>rc_rbe := rbe_update_rtt (rc_rbe cc) (word_of_int rtt)\<rparr>"

definition receiver_cc_set_min_bitrate :: "receiver_cc \<Rightarrow> int \<Rightarrow> receiver_cc" where
  "receiver_cc_set_min_bitrate cc min_bitrate =
     cc\<lparr>rc_min_bitrate := min_bitrate, rc_rbe := rbe_set_min_bitrate (rc_rbe cc) (word_of_int min_bitrate)\<rparr>"

definition receiver_cc_set_max_bitrate :: "receiver_cc \<Rightarrow> int \<Rightarrow> receiver_cc" where
  "receiver_cc_set_max_bitrate cc max_bitrate =
     cc\<lparr>rc_max_bitrate := max_bitrate, rc_rbe := rbe_set_max_bitrate (rc_rbe cc) (word_of_int max_bitrate)\<rparr>"

subsection \<open>The interface functions\<close>

definition razor_receiver_create :: "int \<Rightarrow> int \<Rightarrow> int \<Rightarrow> int \<Rightarrow> receiver_cc option" where
  "razor_receiver_create min_bitrate max_bitrate packet_header_size sys_ts =
     Some (receiver_cc_create min_bitrate max_bitrate packet_header_size sys_ts)"

definition razor_receiver_heartbeat ::
  "env \<Rightarrow> bool \<Rightarrow> feedback_msg \<Rightarrow> int \<Rightarrow> receiver_cc option \<Rightarrow> (env \<times> receiver_cc option \<times> u8 list option) option" where
  "razor_receiver_heartbeat e malloc_ok stack now_ts receiver =
     (case receiver of None \<Rightarrow> Some (e, None, None)
      | Some cc \<Rightarrow> map_option (\<lambda>(e, cc, d). (e, Some cc, d)) (receiver_cc_heartbeat e malloc_ok stack now_ts cc))"

definition razor_receiver_on_received ::
  "receiver_cc option \<Rightarrow> u16 \<Rightarrow> u32 \<Rightarrow> nat \<Rightarrow> int \<Rightarrow> int \<Rightarrow> receiver_cc option option" where
  "razor_receiver_on_received receiver transport_seq timestamp sz rmb now_ts =
     (case receiver of None \<Rightarrow> Some None
      | Some cc \<Rightarrow> map_option Some (receiver_cc_on_received cc transport_seq timestamp sz rmb now_ts))"

text \<open>The bitrate is an \<open>uint32_t\<close> here and an \<open>int\<close> in the function called.\<close>

definition razor_receiver_set_min_bitrate :: "receiver_cc option \<Rightarrow> u32 \<Rightarrow> receiver_cc option" where
  "razor_receiver_set_min_bitrate receiver bitrate = map_option (\<lambda>cc. receiver_cc_set_min_bitrate cc (sint bitrate)) receiver"

definition razor_receiver_set_max_bitrate :: "receiver_cc option \<Rightarrow> u32 \<Rightarrow> receiver_cc option" where
  "razor_receiver_set_max_bitrate receiver bitrate = map_option (\<lambda>cc. receiver_cc_set_max_bitrate cc (sint bitrate)) receiver"

definition razor_receiver_cc_update_rtt :: "receiver_cc option \<Rightarrow> int \<Rightarrow> receiver_cc option" where
  "razor_receiver_cc_update_rtt receiver rtt =
     (case receiver of None \<Rightarrow> None | Some cc \<Rightarrow> Some (if 0 < rtt then receiver_cc_update_rtt cc rtt else cc))"

subsection \<open>What each part reports\<close>

lemma loss_calculate_ok:
  assumes "loss_statistics_calculate s t = (s', ret, f, n)"
  shows "ls_wrapper s' = ls_wrapper s" and "-2147483648 \<le> n" and "n < 2147483648" and "ret = 0 \<Longrightarrow> 0 < n"
proof -
  define d where "d = s32 (ls_max_id s - ls_prev_max_id s)"
  have "-2147483648 \<le> d \<and> d < 2147483648"
    unfolding d_def by (rule s32_range)
  then show "ls_wrapper s' = ls_wrapper s" "-2147483648 \<le> n" "n < 2147483648" "ret = 0 \<Longrightarrow> 0 < n"
    using assms unfolding loss_statistics_calculate_def d_def [symmetric] Let_def by (auto split: if_splits)
qed

lemma loss_incoming_ok:
  assumes "uw16.wf (ls_wrapper s)"
  shows "\<exists>s'. loss_statistics_incoming s q = Some s' \<and> uw16.wf (ls_wrapper s')"
proof -
  obtain w n where w: "wrap_uint16 (ls_wrapper s) q = Some (w, n)"
    using uw16.wrap_total [OF assms] by blast
  then have "uw16.wf w" using uw16.wrap_wf [OF assms] by blast
  with w show ?thesis by (simp add: loss_statistics_incoming_def Let_def)
qed

text \<open>The fields of a message that the proxy does not set.\<close>

definition other_fields :: "feedback_msg \<Rightarrow> u8 \<times> u32 \<times> u8 \<times> int" where
  "other_fields m = (flag m, remb m, fraction_loss m, packet_num m)"

lemma proxy_heartbeat_ok:
  assumes "proxy_wf p" and "length (samples msg) = 128"
  shows "\<exists>p' m ret. estimator_proxy_heartbeat p t msg = Some (p', m, ret) \<and> proxy_wf p' \<and> length (samples m) = 128
    \<and> other_fields m = other_fields msg \<and> (ret = 0 \<longrightarrow> 3 \<le> unat (samples_num m) \<and> unat (samples_num m) \<le> 128)"
proof -
  define q where "q = p\<lparr>ep_hb_ts := t\<rparr>"
  define m0 where "m0 = msg\<lparr>min_ts := -1, samples_num := 0, base_seq := ep_wnd_start_seq q\<rparr>"
  define xs where "xs = take 128 (filter (\<lambda>(k, v). ep_wnd_start_seq q \<le> k) (ep_arrival_times q))"
  define m1 where "m1 = m0\<lparr>min_ts := least_ts (-1) xs, samples_num := word_of_nat (length xs),
    samples := to_samples xs @ drop (length xs) (samples m0)\<rparr>"
  have q: "proxy_wf q" using assms(1) by (simp add: q_def proxy_wf_def)
  have len: "length xs \<le> 128" by (simp add: xs_def)
  have b: "build_loop (ep_wnd_start_seq q) (ep_arrival_times q) m0 (-1) = Some (m1, if xs = [] then -1 else fst (last xs) + 1)"
    using build_loop_spec [of m0 0 "ep_wnd_start_seq q" "ep_arrival_times q" "-1"] assms(2)
    by (simp add: m0_def xs_def m1_def Let_def)
  have "unat (word_of_nat (length xs) :: u8) = length xs"
    using len by (simp add: unat_of_nat)
  then have m1: "unat (samples_num m1) = length xs" "length (samples m1) = 128" "other_fields m1 = other_fields msg"
    using len assms(2) by (simp_all add: m1_def m0_def to_samples_def other_fields_def)
  have "0 \<le> fst (last xs)" if "xs \<noteq> []"
  proof -
    have "last xs \<in> set (ep_arrival_times q)"
      using last_in_set [OF that] by (auto simp: xs_def dest: in_set_takeD)
    then show ?thesis using q by (auto simp: proxy_wf_def keys_nonneg_def)
  qed
  then have wf: "proxy_wf (q\<lparr>ep_wnd_start_seq := (if xs = [] then -1 else fst (last xs) + 1)\<rparr>)"
    using q by (auto simp: proxy_wf_def)
  show ?thesis
  proof (cases "ep_hb_ts p + ep_send_interval_ms p \<le> t")
    case False
    then show ?thesis using assms by (simp add: estimator_proxy_heartbeat_def)
  next
    case True
    have e: "estimator_proxy_heartbeat p t msg = proxy_bulid_feelback_packet q msg"
      using True by (simp add: estimator_proxy_heartbeat_def q_def)
    show ?thesis
      unfolding e proxy_bulid_feelback_packet_def m0_def [symmetric] b option.case prod.case
      using m1 q wf len assms(2) by simp
  qed
qed

subsection \<open>The reports\<close>

definition report_ok :: "u32 \<times> u32 \<Rightarrow> feedback_msg \<Rightarrow> bool" where
  "report_ok rates m \<longleftrightarrow> flag m \<noteq> 0 \<and> flag m \<le> 7 \<and> (has_flag m remb_msg \<longrightarrow> fst rates \<le> remb m \<and> remb m \<le> snd rates)
     \<and> (has_flag m loss_info_msg \<longrightarrow> 0 < packet_num m)
     \<and> (has_flag m proxy_ts_msg \<longrightarrow> 3 \<le> unat (samples_num m) \<and> unat (samples_num m) \<le> MAX_FEELBACK_COUNT)"

text \<open>However the decoder's stream and message struct look, the bytes \<open>d\<close> are read completely and as a message with \<open>P\<close>.\<close>

definition reads_as :: "env \<Rightarrow> u8 list \<Rightarrow> (feedback_msg \<Rightarrow> bool) \<Rightarrow> bool" where
  "reads_as e d P \<longleftrightarrow> (\<forall>s old. strm_wf s \<and> unread s = d \<and> length (samples old) = MAX_FEELBACK_COUNT \<longrightarrow>
     (\<exists>s' m. feedback_msg_decode e s old = Some (s', m) \<and> unread s' = [] \<and> P m))"

lemma merge_report:
  assumes "report_ok rates msg"
  shows "report_ok rates (msg_merge old (wire_msg msg))"
proof -
  have "flag (msg_merge old (wire_msg msg)) = flag msg" "has_flag (msg_merge old (wire_msg msg)) f = has_flag msg f" for f
    by (simp_all add: msg_merge_def merge_remb_def merge_loss_def merge_proxy_def has_flag_def)
  moreover have "has_flag msg remb_msg \<Longrightarrow> remb (msg_merge old (wire_msg msg)) = remb msg"
    "has_flag msg loss_info_msg \<Longrightarrow> packet_num (msg_merge old (wire_msg msg)) = packet_num msg"
    "has_flag msg proxy_ts_msg \<Longrightarrow> samples_num (msg_merge old (wire_msg msg)) = samples_num msg"
    by (simp_all add: msg_merge_def merge_remb_def merge_loss_def merge_proxy_def)
  ultimately show ?thesis
    using assms by (simp add: report_ok_def)
qed

text \<open>What the encoder writes for a report is a datagram the decoder reads as such.\<close>

lemma report_sent:
  assumes "report_ok rates msg" and "length (samples msg) = MAX_FEELBACK_COUNT"
    and "-2147483648 \<le> packet_num msg" and "packet_num msg < 2147483648" and "strm_wf s" and "written s = []"
  shows "\<exists>s'. feedback_msg_encode e s msg = Some s' \<and> length (written s') \<le> 539 \<and> reads_as e (written s') (report_ok rates)"
proof -
  have n: "has_flag msg proxy_ts_msg \<longrightarrow> unat (samples_num msg) \<le> MAX_FEELBACK_COUNT"
    using assms(1) by (simp add: report_ok_def)
  obtain s' where s': "feedback_msg_encode e s msg = Some s'" "written s' = msg_enc e (wire_msg msg)"
    using feedback_msg_encode_enc [OF assms(5), of msg e] n assms(2,6) by (auto simp: msg_enc_wire)
  have ok: "msg_ok (wire_msg msg)"
    using wire_msg_ok [OF assms(2) n assms(3,4)] .
  have "reads_as e (written s') (report_ok rates)"
    unfolding reads_as_def s'(2)
  proof (intro allI impI)
    fix t and old :: feedback_msg assume t: "strm_wf t \<and> unread t = msg_enc e (wire_msg msg) \<and> length (samples old) = MAX_FEELBACK_COUNT"
    then show "\<exists>s' m. feedback_msg_decode e t old = Some (s', m) \<and> unread s' = [] \<and> report_ok rates m"
      using feedback_msg_decode_enc [OF _ ok, of t old e "[]"] merge_report [OF assms(1), of old] by auto
  qed
  then show ?thesis
    using s' msg_enc_length [OF n, of e] by (simp add: msg_enc_wire)
qed

subsection \<open>Runs\<close>

definition rc_ok :: "int \<Rightarrow> int \<Rightarrow> rate_log \<Rightarrow> receiver_cc \<Rightarrow> bool" where
  "rc_ok start now lg cc \<longleftrightarrow> rbe_ok start now lg (rc_rbe cc) \<and> proxy_wf (rc_proxy cc) \<and> uw16.wf (ls_wrapper (rc_loss_stat cc))"

lemma rbe_ok_later: "rbe_ok start now lg est \<Longrightarrow> now \<le> t \<Longrightarrow> rbe_ok start t lg est"
  by (auto simp: rbe_ok_def aimd_wf_def meter_def)

lemma flag_values:
  fixes r1 r2 r3 :: int
  defines "f \<equiv> (let f = (0 :: u8); f = (if r1 = 0 then or f remb_msg else f); f = (if r2 = 0 then or f loss_info_msg else f)
    in if r3 = 0 then or f proxy_ts_msg else f)"
  shows "f \<le> 7" "and f remb_msg = remb_msg \<longleftrightarrow> r1 = 0" "and f loss_info_msg = loss_info_msg \<longleftrightarrow> r2 = 0"
    "and f proxy_ts_msg = proxy_ts_msg \<longleftrightarrow> r3 = 0"
  unfolding f_def Let_def by (cases "r1 = 0"; cases "r2 = 0"; cases "r3 = 0"; simp)+

lemma receiver_collect_ok:
  assumes "rc_ok start now0 lg cc" and "light lg" and "now0 \<le> now" and "now - start \<le> 53000000" and "0 \<le> now" and "now < 2147483647"
    and "length (samples msg) = MAX_FEELBACK_COUNT" and "flag msg = 0"
  shows "\<exists>cc' m. receiver_collect msg now cc = Some (cc', m) \<and> rc_ok start now lg cc' \<and> rates_of (rc_rbe cc') = rates_of (rc_rbe cc)
    \<and> length (samples m) = MAX_FEELBACK_COUNT \<and> -2147483648 \<le> packet_num m \<and> packet_num m < 2147483648
    \<and> (flag m \<noteq> 0 \<longrightarrow> report_ok (rates_of (rc_rbe cc)) m)"
proof -
  have c: "rbe_ok start now0 lg (rc_rbe cc)" "proxy_wf (rc_proxy cc)" "uw16.wf (ls_wrapper (rc_loss_stat cc))"
    using assms(1) by (simp_all add: rc_ok_def)
  obtain rbe b r1 where rbe: "rbe_heartbeat (rc_rbe cc) now = Some (rbe, b, r1)" "rbe_ok start now lg rbe"
    "rates_of rbe = rates_of (rc_rbe cc)" "r1 = 0 \<longrightarrow> in_rates (rbe_aimd (rc_rbe cc)) b"
    using heartbeat_ok [OF c(1) assms(2-6)] by blast
  obtain st r2 fr n where ls: "loss_statistics_calculate (rc_loss_stat cc) now = (st, r2, fr, n)"
    by (cases "loss_statistics_calculate (rc_loss_stat cc) now")
  note ls_ok = loss_calculate_ok [OF ls]
  define f where "f = (let f = (0 :: u8); f = (if r1 = 0 then or f remb_msg else f) in if r2 = 0 then or f loss_info_msg else f)"
  define ma where "ma = (if r1 = 0 then (msg\<lparr>remb := b\<rparr>)\<lparr>flag := or (flag (msg\<lparr>remb := b\<rparr>)) remb_msg\<rparr> else msg\<lparr>remb := b\<rparr>)"
  define mb where "mb = ma\<lparr>fraction_loss := fr, packet_num := n\<rparr>"
  define m0 where "m0 = (if r2 = 0 then mb\<lparr>flag := or (flag mb) loss_info_msg\<rparr> else mb)"
  have m0: "flag m0 = f" "remb m0 = b" "fraction_loss m0 = fr" "packet_num m0 = n" "samples m0 = samples msg"
    using assms(8) by (simp_all add: m0_def mb_def ma_def f_def Let_def)
  obtain p m1 r3 where p: "estimator_proxy_heartbeat (rc_proxy cc) now m0 = Some (p, m1, r3)" "proxy_wf p" "length (samples m1) = 128"
    "other_fields m1 = other_fields m0" "r3 = 0 \<longrightarrow> 3 \<le> unat (samples_num m1) \<and> unat (samples_num m1) \<le> 128"
    using proxy_heartbeat_ok [OF c(2), of m0 now] assms(7) by (auto simp: m0(5))
  define m where "m = (if r3 = 0 then m1\<lparr>flag := or (flag m1) proxy_ts_msg\<rparr> else m1)"
  define cc' where "cc' = cc\<lparr>rc_rbe := rbe, rc_loss_stat := st, rc_proxy := p\<rparr>"
  have fl: "flag m = (let f = (0 :: u8); f = (if r1 = 0 then or f remb_msg else f); f = (if r2 = 0 then or f loss_info_msg else f)
    in if r3 = 0 then or f proxy_ts_msg else f)"
    using p(4) m0(1) by (simp add: m_def other_fields_def f_def Let_def)
  have m: "remb m = b" "packet_num m = n" "samples_num m = samples_num m1" "samples m = samples m1"
    using p(4) m0 by (simp_all add: m_def other_fields_def)
  have "receiver_collect msg now cc = Some (cc', m)"
    unfolding receiver_collect_def Let_def rbe(1) bind.bind_lunit prod.case ls ma_def [symmetric] mb_def [symmetric] m0_def [symmetric] p(1)
    by (simp add: cc'_def m_def)
  moreover have "rc_ok start now lg cc'"
    using rbe(2) p(2) c(3) ls_ok(1) by (simp add: rc_ok_def cc'_def)
  moreover have "flag m \<noteq> 0 \<longrightarrow> report_ok (rates_of (rc_rbe cc)) m"
    using rbe(4) ls_ok(4) p(5) flag_values [of r1 r2 r3] unfolding report_ok_def has_flag_def m fl [symmetric]
    by (simp add: rates_of_def in_rates_def)
  moreover have "rates_of (rc_rbe cc') = rates_of (rc_rbe cc)"
    using rbe(3) by (simp add: cc'_def)
  ultimately show ?thesis
    using p(3) m ls_ok(2,3) by auto
qed

lemma receiver_heartbeat_ok:
  assumes "rc_ok start now0 lg cc" and "light lg" and "now0 \<le> now" and "now - start \<le> 53000000" and "0 \<le> now" and "now < 2147483647"
    and "length (samples stack) = MAX_FEELBACK_COUNT"
  shows "\<exists>cc' d. receiver_cc_heartbeat e True stack now cc = Some (fst (bin_stream_init e True), cc', d) \<and> rc_ok start now lg cc'
    \<and> rates_of (rc_rbe cc') = rates_of (rc_rbe cc)
    \<and> (\<forall>x. d = Some x \<longrightarrow> length x \<le> 539 \<and> reads_as (fst (bin_stream_init e True)) x (report_ok (rates_of (rc_rbe cc))))"
proof -
  obtain e' s where s: "bin_stream_init e True = (e', Some s)" "strm_wf s" "written s = []"
    using bin_stream_init_wf [of e] by (auto simp: bin_stream_init_def)
  obtain cc' m where c: "receiver_collect (stack\<lparr>flag := 0\<rparr>) now cc = Some (cc', m)" "rc_ok start now lg cc'"
    "rates_of (rc_rbe cc') = rates_of (rc_rbe cc)" "length (samples m) = MAX_FEELBACK_COUNT" "-2147483648 \<le> packet_num m"
    "packet_num m < 2147483648" "flag m \<noteq> 0 \<longrightarrow> report_ok (rates_of (rc_rbe cc)) m"
    using receiver_collect_ok [OF assms(1-6), of "stack\<lparr>flag := 0\<rparr>"] assms(7) by auto
  show ?thesis
  proof (cases "flag m = 0")
    case True
    then show ?thesis using s(1) c(1-3) by (simp add: receiver_cc_heartbeat_def)
  next
    case False
    then obtain s' where "feedback_msg_encode e' s m = Some s'" "length (written s') \<le> 539" "reads_as e' (written s') (report_ok (rates_of (rc_rbe cc)))"
      using report_sent [OF _ c(4-6) s(2,3)] c(7) by blast
    with False show ?thesis using s(1) c(1-3) by (simp add: receiver_cc_heartbeat_def)
  qed
qed

lemma receiver_on_received_ok:
  assumes "rc_ok start now0 lg cc" and "rmb = 0 \<Longrightarrow> light (lg @ [(now, sz)])" and "now0 \<le> now" and "now - start \<le> 53000000"
    and "0 \<le> now" and "now < 2147483647"
  shows "\<exists>cc' lg'. receiver_cc_on_received cc q ts sz rmb now = Some cc' \<and> rc_ok start now lg' cc' \<and> rates_of (rc_rbe cc') = rates_of (rc_rbe cc)
    \<and> (if rmb = 0 then lg' = lg @ [(now, sz)] \<or> lg' = [(now, sz)] else lg' = lg)"
proof -
  have c: "rbe_ok start now0 lg (rc_rbe cc)" "proxy_wf (rc_proxy cc)" "uw16.wf (ls_wrapper (rc_loss_stat cc))"
    using assms(1) by (simp_all add: rc_ok_def)
  obtain s' where s': "loss_statistics_incoming (rc_loss_stat cc) q = Some s'" "uw16.wf (ls_wrapper s')"
    using loss_incoming_ok [OF c(3)] by blast
  obtain p where p: "estimator_proxy_incoming (rc_proxy cc) now 0 q = Some p" "proxy_wf p"
    using estimator_proxy_incoming_total [OF c(2)] estimator_proxy_incoming_wf [OF c(2)] by blast
  show ?thesis
  proof (cases "rmb = 0")
    case True
    obtain r lg' where "rbe_incoming_packet (rc_rbe cc) ts now sz now = Some r" "lg' = lg @ [(now, sz)] \<or> lg' = [(now, sz)]"
      "rbe_ok start now lg' r" "rates_of r = rates_of (rc_rbe cc)"
      using incoming_packet_ok [OF c(1) assms(2) [OF True] assms(3-6)] by blast
    then show ?thesis
      using True c(2) s' by (intro exI [of _ "cc\<lparr>rc_rbe := r, rc_loss_stat := s'\<rparr>"] exI [of _ lg'])
        (simp add: receiver_cc_on_received_def rc_ok_def)
  next
    case False
    then show ?thesis
      using p rbe_ok_later [OF c(1) assms(3)] s' by (intro exI [of _ "cc\<lparr>rc_proxy := p, rc_loss_stat := s'\<rparr>"] exI [of _ lg])
        (simp add: receiver_cc_on_received_def rc_ok_def)
  qed
qed

datatype receiver_op = VReceived u16 u32 nat int int | VHeartbeat feedback_msg int | VRtt int

text \<open>The datagrams sent.\<close>

fun receiver_run :: "env \<Rightarrow> receiver_cc \<Rightarrow> receiver_op list \<Rightarrow> (receiver_cc \<times> u8 list list) option" where
  "receiver_run e cc [] = Some (cc, [])"
| "receiver_run e cc (VReceived q ts sz rmb t # ops) =
     (case receiver_cc_on_received cc q ts sz rmb t of None \<Rightarrow> None | Some cc \<Rightarrow> receiver_run e cc ops)"
| "receiver_run e cc (VHeartbeat stack t # ops) =
     (case receiver_cc_heartbeat e True stack t cc of None \<Rightarrow> None
      | Some (e, cc, d) \<Rightarrow> map_option (\<lambda>(cc, ds). (cc, case d of None \<Rightarrow> ds | Some x \<Rightarrow> x # ds)) (receiver_run e cc ops))"
| "receiver_run e cc (VRtt rtt # ops) = receiver_run e (if 0 < rtt then receiver_cc_update_rtt cc rtt else cc) ops"

fun receiver_ops_ok :: "int \<Rightarrow> int \<Rightarrow> receiver_op list \<Rightarrow> bool" where
  "receiver_ops_ok start now [] = True"
| "receiver_ops_ok start now (VReceived q ts sz rmb t # ops) = (now \<le> t \<and> t \<le> start + 53000000 \<and> t < 2147483647 \<and> receiver_ops_ok start t ops)"
| "receiver_ops_ok start now (VHeartbeat stack t # ops) =
     (now \<le> t \<and> t \<le> start + 53000000 \<and> t < 2147483647 \<and> length (samples stack) = MAX_FEELBACK_COUNT \<and> receiver_ops_ok start t ops)"
| "receiver_ops_ok start now (VRtt rtt # ops) = (rtt \<le> 1000000 \<and> receiver_ops_ok start now ops)"

text \<open>The packets that go to the estimator of the incoming rate: their times and sizes.\<close>

fun arrivals :: "receiver_op list \<Rightarrow> rate_log" where
  "arrivals [] = []"
| "arrivals (VReceived q ts sz rmb t # ops) = (if rmb = 0 then (t, sz) # arrivals ops else arrivals ops)"
| "arrivals (VHeartbeat stack t # ops) = arrivals ops"
| "arrivals (VRtt rtt # ops) = arrivals ops"

lemma bin_stream_init_again: "fst (bin_stream_init (fst (bin_stream_init e b)) c) = fst (bin_stream_init e b)"
  by (simp add: bin_stream_init_def)

lemma receiver_run_ok:
  assumes "rc_ok start now lg cc" and "receiver_ops_ok start now ops" and "light (lg @ arrivals ops)" and "0 \<le> now" and "e' = fst (bin_stream_init e True)"
  shows "\<exists>cc' ds. receiver_run e cc ops = Some (cc', ds)
    \<and> (\<forall>d\<in>set ds. length d \<le> 539 \<and> reads_as e' d (report_ok (rates_of (rc_rbe cc))))"
  using assms
proof (induction start now ops arbitrary: lg cc e rule: receiver_ops_ok.induct)
  case (1 start now)
  then show ?case by simp
next
  case (2 start now q ts sz rmb t ops)
  have t: "now \<le> t" "t - start \<le> 53000000" "0 \<le> t" "t < 2147483647" using "2.prems"(2,4) by auto
  have l: "light (lg @ [(t, sz)])" "light ([(t, sz)] @ arrivals ops)" "light ((lg @ [(t, sz)]) @ arrivals ops)" if "rmb = 0"
    using that "2.prems"(3) light_append(1) [of "lg @ [(t, sz)]" "arrivals ops"] light_append(2) [of lg "[(t, sz)] @ arrivals ops"] by simp_all
  obtain c lg' where c: "receiver_cc_on_received cc q ts sz rmb t = Some c" "rc_ok start t lg' c" "rates_of (rc_rbe c) = rates_of (rc_rbe cc)"
    "if rmb = 0 then lg' = lg @ [(t, sz)] \<or> lg' = [(t, sz)] else lg' = lg"
    using receiver_on_received_ok [OF "2.prems"(1) l(1) t(1,2,3,4)] by blast
  have "light (lg' @ arrivals ops)" using c(4) l(2,3) "2.prems"(3) by (auto split: if_splits)
  from "2.IH" [OF c(2) _ this t(3) "2.prems"(5)] "2.prems"(2) c(1,3) show ?case by auto
next
  case (3 start now stack t ops)
  have t: "now \<le> t" "t - start \<le> 53000000" "0 \<le> t" "t < 2147483647" "length (samples stack) = MAX_FEELBACK_COUNT"
    using "3.prems"(2,4) by auto
  have l: "light lg" using "3.prems"(3) light_append(1) [of lg "arrivals ops"] by simp
  obtain c d where c: "receiver_cc_heartbeat e True stack t cc = Some (e', c, d)" "rc_ok start t lg c" "rates_of (rc_rbe c) = rates_of (rc_rbe cc)"
    "\<forall>x. d = Some x \<longrightarrow> length x \<le> 539 \<and> reads_as e' x (report_ok (rates_of (rc_rbe cc)))"
    using receiver_heartbeat_ok [OF "3.prems"(1) l t, of e] unfolding "3.prems"(5) by blast
  have "receiver_ops_ok start t ops" "light (lg @ arrivals ops)" using "3.prems"(2,3) by simp_all
  from "3.IH" [OF c(2) this t(3), of e'] obtain c' ds where "receiver_run e' c ops = Some (c', ds)"
    "\<forall>d\<in>set ds. length d \<le> 539 \<and> reads_as e' d (report_ok (rates_of (rc_rbe c)))"
    by (auto simp: "3.prems"(5) bin_stream_init_again)
  then show ?case
    using c by (auto split: option.splits)
next
  case (4 start now rtt ops)
  define c where "c = (if 0 < rtt then receiver_cc_update_rtt cc rtt else cc)"
  have "(word_of_int rtt :: u32) \<le> 1000000" if "0 < rtt"
    using "4.prems"(2) that by (simp add: word_le_def uint_word_of_int)
  then have "rc_ok start now lg c" "rates_of (rc_rbe c) = rates_of (rc_rbe cc)"
    using "4.prems"(1) by (simp_all add: c_def rc_ok_def receiver_cc_update_rtt_def rbe_ok_def rbe_update_rtt_def aimd_set_rtt_def aimd_wf_def
      in_rates_def rates_of_def)
  from "4.IH" [OF this(1)] "4.prems"(2-5) this(2) show ?case by (simp add: c_def)
qed

text \<open>C17: What a receiver sends is what a sender can read: created with a minimum and a maximum, over any
  sequence of packets, timer calls and round trip times in which no second brings more than 500000 bytes to the
  rate estimator, every operation is defined (for 53000 s of time), and every datagram sent has at most 539 bytes,
  well below the 1472 that the sender accepts, and is decoded, whatever the decoder's message struct held before,
  completely and to a report: a REMB between the bounds, a loss count above zero, between 3 and 128
  arrival times, and at least one of these.\<close>

theorem receiver_datagrams_readable:
  assumes "1 \<le> mn" and "mn \<le> mx" and "mx < 2147483648" and "0 \<le> start" and "receiver_ops_ok start start ops" and "light (arrivals ops)"
  shows "\<exists>cc ds. receiver_run e (receiver_cc_create mn mx hdr start) ops = Some (cc, ds)
    \<and> (\<forall>d\<in>set ds. length d \<le> 539 \<and> reads_as (fst (bin_stream_init e True)) d (report_ok (word_of_int mn, word_of_int mx)))"
proof -
  define cc where "cc = receiver_cc_create mn mx hdr start"
  have w: "1 \<le> (word_of_int mn :: u32)" "(word_of_int mn :: u32) \<le> word_of_int mx"
    using assms(1-3) by (simp_all add: word_le_def uint_word_of_int)
  have "rbe_ok start start [] (rc_rbe cc)" "rates_of (rc_rbe cc) = (word_of_int mn, word_of_int mx)"
    using rbe_create_ok [OF w assms(4)] by (simp_all add: cc_def receiver_cc_create_def)
  then have "rc_ok start start [] cc" "rates_of (rc_rbe cc) = (word_of_int mn, word_of_int mx)"
    by (simp_all add: rc_ok_def cc_def receiver_cc_create_def estimator_proxy_create_wf loss_statistics_init_def init_unwrapper16_wf)
  from receiver_run_ok [OF this(1) assms(5) _ assms(4) refl, of e] assms(6) this(2) show ?thesis
    by (simp add: cc_def)
qed

theorem receiver_datagrams_readable_witness:
  "\<exists>cc ds. receiver_run example_env (receiver_cc_create 10000 1500000 20 1000)
      [VReceived 1 5 1000 0 1010, VReceived 2 15 1000 1 1030, VRtt 80, VHeartbeat (example_msg 9) 1500] = Some (cc, ds)
    \<and> (\<forall>d\<in>set ds. length d \<le> 539
      \<and> reads_as (fst (bin_stream_init example_env True)) d (report_ok (word_of_int 10000, word_of_int 1500000)))"
  by (rule receiver_datagrams_readable) (simp_all add: example_msg_def light_def)

end
