(* ===== verification/Sender_CC.thy ===== *)
theory Sender_CC
  imports Feedback_Adapter Delay_Bwe Bitrate_Controller Pace_Sender Ack_Bitrate
begin

text \<open>
  \<^verbatim>\<open>cc/sender_congestion_controller.c\<close> and the sender's half of \<^verbatim>\<open>cc/razor_api.c\<close>: the object that ties the
  sender's components together. A feedback message acknowledges packets (the adapter), which gives the
  acknowledged rate and the delay based estimate; these, the receiver's estimate and the loss reports go
  to the bitrate controller, whose callback sets the rate of the pacer and tells the application.

  \<open>None\<close> is undefined behaviour. Calls of \<open>GET_SYS_MS()\<close> are numbered in the order of the code: \<open>clk i\<close> is what
  the \<open>i\<close>-th returns. \<open>stack\<close> is the uninitialised \<open>feedback_msg_t\<close> on the stack, \<open>fresh\<close> what \<open>malloc\<close> returns for a new
  trendline, \<open>qsort\<close> the library's function. The results are the new state and the calls made to
  the application: \<open>bitrate_cb\<close> as notifications, \<open>send_cb\<close> as send calls. \<open>sc_strm\<close> is \<^verbatim>\<open>None\<close> when its buffer could not be
  allocated, \<open>sc_has_trigger\<close> tells that neither \<open>trigger\<close> nor its callback is \<^verbatim>\<open>NULL\<close>.

  The lemmas: every operation keeps \<open>sender_ok\<close>, which contains that the pacer's rate is the one the
  controller told last.
\<close>

abbreviation k_max_queue_ms :: int where "k_max_queue_ms \<equiv> 250"
abbreviation k_min_bitrate_bps :: u32 where "k_min_bitrate_bps \<equiv> 10000"
abbreviation k_max_feedback_size :: nat where "k_max_feedback_size \<equiv> 1472"

record sender_cc =
  accepted_queue_ms :: int
  was_in_alr :: int
  sc_rtt :: int
  sc_bwe :: delay_base_bwe
  sc_controller :: bitrate_controller
  sc_ack :: ack_bitrate_estimator
  sc_pacer :: pace_sender
  sc_adapter :: feedback_adapter
  sc_strm :: "bin_stream option"
  sc_has_trigger :: bool

definition sender_cc_on_change_bitrate :: "sender_cc \<Rightarrow> notification \<Rightarrow> sender_cc \<times> notification list" where
  "sender_cc_on_change_bitrate cc n =
     (cc\<lparr>sc_pacer := pace_set_estimate_bitrate (sc_pacer cc) (fst n)\<rparr>, if sc_has_trigger cc then [n] else [])"

text \<open>A call of the controller, with the callback for each of its notifications.\<close>

fun sender_notify :: "sender_cc \<Rightarrow> notification list \<Rightarrow> sender_cc \<times> notification list" where
  "sender_notify cc [] = (cc, [])"
| "sender_notify cc (n # ns) =
     (let (cc, out) = sender_cc_on_change_bitrate cc n; (cc, out') = sender_notify cc ns in (cc, out @ out'))"

definition sender_control :: "sender_cc \<Rightarrow> bitrate_controller \<times> notification list \<Rightarrow> sender_cc \<times> notification list" where
  "sender_control cc r = sender_notify (cc\<lparr>sc_controller := fst r\<rparr>) (snd r)"

definition sender_cc_create ::
  "env \<Rightarrow> bool \<Rightarrow> (nat \<Rightarrow> int) \<Rightarrow> ack_bitrate_estimator \<Rightarrow> bool \<Rightarrow> bool \<Rightarrow> int \<Rightarrow> env \<times> sender_cc" where
  "sender_cc_create e malloc_ok clk fresh bitrate_cb send_cb queue_ms =
     (let accepted = su_min queue_ms k_max_queue_ms;
          pacer = pace_create (clk 1) send_cb (word_of_int accepted);
          (e, strm) = bin_stream_init e malloc_ok
      in (e, \<lparr>accepted_queue_ms = accepted, was_in_alr = -1, sc_rtt = 200,
           sc_bwe = delay_bwe_set_min_bitrate (delay_bwe_create (clk 0)) k_min_bitrate_bps,
           sc_controller = bitrate_controller_create True (clk 2), sc_ack = ack_estimator_create fresh,
           sc_pacer = pace_set_bitrate_limits pacer k_min_bitrate_bps, sc_adapter = feedback_adapter_init, sc_strm = strm,
           sc_has_trigger = bitrate_cb\<rparr>))"

text \<open>What is freed with the object: the packets waiting in the pacer and those of the history.\<close>

definition sender_cc_destroy :: "sender_cc \<Rightarrow> packet_event list \<times> packet_feedback list" where
  "sender_cc_destroy cc = (pace_destroy (sc_pacer cc), feedback_adapter_destroy (sc_adapter cc))"

definition sender_cc_heartbeat :: "(nat \<Rightarrow> int) \<Rightarrow> sender_cc \<Rightarrow> (sender_cc \<times> send_call list \<times> notification list) option" where
  "sender_cc_heartbeat clk cc = do {
     let now_ts = clk 0;
     (pacer, calls) \<leftarrow> pace_try_transmit (clk 1) (sc_pacer cc) now_ts;
     let cc = cc\<lparr>sc_pacer := pacer\<rparr>;
     r \<leftarrow> bitrate_controller_heartbeat (sc_controller cc) now_ts;
     let (cc, out) = sender_control cc r;
     Some (cc, calls, out)
   }"

definition sender_cc_add_pace_packet :: "int \<Rightarrow> sender_cc \<Rightarrow> u32 \<Rightarrow> int \<Rightarrow> nat \<Rightarrow> sender_cc \<times> int" where
  "sender_cc_add_pace_packet sys_ts cc packet_id retrans sz =
     (let (pacer, ret) = pace_insert_packet (sc_pacer cc) packet_id retrans sz sys_ts in (cc\<lparr>sc_pacer := pacer\<rparr>, ret))"

definition sender_on_send_packet :: "int \<Rightarrow> sender_cc \<Rightarrow> u16 \<Rightarrow> nat \<Rightarrow> sender_cc option" where
  "sender_on_send_packet sys_ts cc sq sz = map_option (\<lambda>a. cc\<lparr>sc_adapter := a\<rparr>) (feedback_add_packet sys_ts (sc_adapter cc) sq sz)"

text \<open>The datagram is copied over the stream's buffer; \<open>wptr\<close> stays at the front.\<close>

definition sender_load :: "env \<Rightarrow> bin_stream \<Rightarrow> u8 list \<Rightarrow> bin_stream option" where
  "sender_load e strm feedback = do {
     strm \<leftarrow> bin_stream_resize e strm (length feedback);
     let strm = bin_stream_rewind strm 1;
     d \<leftarrow> poke 0 feedback (data strm);
     Some (strm\<lparr>data := d, used := length feedback\<rparr>)
   }"

text \<open>When the application limited period has ended, the acknowledged rate may change fast.\<close>

definition sender_alr_ack :: "sender_cc \<Rightarrow> int \<Rightarrow> int \<Rightarrow> ack_bitrate_estimator" where
  "sender_alr_ack cc cur_alr now_ts =
     (if was_in_alr cc = 0 \<and> cur_alr \<noteq> 0 then ack_estimator_set_alrended (sc_ack cc) now_ts else sc_ack cc)"

text \<open>The part of \<open>sender_on_feedback\<close> for the message's arrival times. The last result tells whether the function returns there.\<close>

definition sender_on_transport ::
  "((packet_feedback \<Rightarrow> packet_feedback \<Rightarrow> int) \<Rightarrow> packet_feedback list \<Rightarrow> packet_feedback list) \<Rightarrow> (nat \<Rightarrow> int) \<Rightarrow> delay_hist list
    \<Rightarrow> int \<Rightarrow> feedback_msg \<Rightarrow> sender_cc \<Rightarrow> (sender_cc \<times> notification list \<times> bool) option" where
  "sender_on_transport qsort clk fresh now_ts msg cc = do {
     (a, num) \<leftarrow> feedback_on_feedback qsort (clk 1) (sc_adapter cc) msg;
     let cc = cc\<lparr>sc_adapter := a\<rparr>;
     if num \<le> 0 then Some (cc, [], True)
     else do {
       let cur_alr = (if 0 < pace_get_limited_start_time (sc_pacer cc) then 0 else -1);
       ack \<leftarrow> ack_estimator_incoming (sender_alr_ack cc cur_alr now_ts) (packets a) (int (fa_num a));
       let cc = cc\<lparr>was_in_alr := cur_alr, sc_ack := ack\<rparr>;
       acked \<leftarrow> ack_estimator_bitrate_bps ack;
       (bwe, result) \<leftarrow> delay_bwe_incoming (sc_bwe cc) (packets a) (int (fa_num a)) acked now_ts fresh;
       let cc = cc\<lparr>sc_bwe := bwe\<rparr>;
       let (cc, out) = (if br_updated result = 0
         then sender_control cc (bitrate_controller_on_basedelay_result (sc_controller cc) (br_updated result) (br_probe result)
                (br_bitrate result) (br_recovered_from_overuse result) (clk 2) (clk 3))
         else (cc, []));
       Some (cc, out, False)
     }
   }"

text \<open>The parts for the receiver's estimate and the loss report.\<close>

definition sender_on_remb :: "(nat \<Rightarrow> int) \<Rightarrow> feedback_msg \<Rightarrow> sender_cc \<Rightarrow> sender_cc \<times> notification list" where
  "sender_on_remb clk msg cc =
     (if has_flag msg remb_msg then sender_control cc (bitrate_controller_on_remb (sc_controller cc) (remb msg) (clk 4) (clk 5)) else (cc, []))"

definition sender_on_loss :: "(nat \<Rightarrow> int) \<Rightarrow> int \<Rightarrow> feedback_msg \<Rightarrow> sender_cc \<Rightarrow> (sender_cc \<times> notification list) option" where
  "sender_on_loss clk now_ts msg cc =
     (if has_flag msg loss_info_msg
      then map_option (sender_control cc)
        (bitrate_controller_on_report (sc_controller cc) (word_of_int (sc_rtt cc)) now_ts (fraction_loss msg) (packet_num msg) (clk 6))
      else Some (cc, []))"

definition sender_on_feedback ::
  "env \<Rightarrow> ((packet_feedback \<Rightarrow> packet_feedback \<Rightarrow> int) \<Rightarrow> packet_feedback list \<Rightarrow> packet_feedback list) \<Rightarrow> (nat \<Rightarrow> int) \<Rightarrow> delay_hist list
    \<Rightarrow> feedback_msg \<Rightarrow> sender_cc \<Rightarrow> u8 list \<Rightarrow> (sender_cc \<times> notification list) option" where
  "sender_on_feedback e qsort clk fresh stack cc feedback =
     (if k_max_feedback_size < length feedback then Some (cc, [])
      else do {
        strm \<leftarrow> sc_strm cc;
        strm \<leftarrow> sender_load e strm feedback;
        (strm, msg) \<leftarrow> feedback_msg_decode e strm stack;
        let cc = cc\<lparr>sc_strm := Some strm\<rparr>;
        let now_ts = clk 0;
        (cc, out, stop) \<leftarrow> (if has_flag msg proxy_ts_msg then sender_on_transport qsort clk fresh now_ts msg cc else Some (cc, [], False));
        if stop then Some (cc, out)
        else do {
          let (cc, out1) = sender_on_remb clk msg cc;
          (cc, out2) \<leftarrow> sender_on_loss clk now_ts msg cc;
          Some (cc, out @ out1 @ out2)
        }
      })"

definition sender_cc_update_rtt :: "sender_cc \<Rightarrow> int \<Rightarrow> sender_cc" where
  "sender_cc_update_rtt cc rtt = cc\<lparr>sc_rtt := rtt, sc_bwe := delay_bwe_rtt_update (sc_bwe cc) (word_of_int rtt)\<rparr>"

definition sender_cc_set_bitrates :: "(nat \<Rightarrow> int) \<Rightarrow> sender_cc \<Rightarrow> u32 \<Rightarrow> u32 \<Rightarrow> u32 \<Rightarrow> sender_cc \<times> notification list" where
  "sender_cc_set_bitrates clk cc min_bitrate start_bitrate max_bitrate =
     (let start_bitrate = su_min (su_max start_bitrate min_bitrate) max_bitrate;
          bwe = delay_bwe_set_max_bitrate (delay_bwe_set_min_bitrate (sc_bwe cc) min_bitrate) max_bitrate;
          cc = cc\<lparr>sc_bwe := delay_bwe_set_start_bitrate bwe start_bitrate\<rparr>;
          (cc, out) = sender_control cc (bitrate_controller_set_bitrates (sc_controller cc) start_bitrate min_bitrate max_bitrate (clk 0) (clk 1))
      in (cc\<lparr>sc_pacer := pace_set_bitrate_limits (pace_set_estimate_bitrate (sc_pacer cc) start_bitrate) min_bitrate\<rparr>, out))"

definition sender_cc_get_pacer_queue_ms :: "int \<Rightarrow> sender_cc \<Rightarrow> int" where
  "sender_cc_get_pacer_queue_ms sys_ts cc = pace_queue_ms sys_ts (sc_pacer cc)"

definition sender_cc_get_first_packet_ts :: "sender_cc \<Rightarrow> int" where
  "sender_cc_get_first_packet_ts cc = first_sent_ts (sc_pacer cc)"

subsection \<open>The interface functions\<close>

definition razor_sender_create ::
  "env \<Rightarrow> bool \<Rightarrow> (nat \<Rightarrow> int) \<Rightarrow> ack_bitrate_estimator \<Rightarrow> bool \<Rightarrow> bool \<Rightarrow> int \<Rightarrow> env \<times> sender_cc option" where
  "razor_sender_create e malloc_ok clk fresh bitrate_cb send_cb queue_ms =
     (let (e, cc) = sender_cc_create e malloc_ok clk fresh bitrate_cb send_cb queue_ms in (e, Some cc))"

definition razor_sender_destroy :: "sender_cc option \<Rightarrow> packet_event list \<times> packet_feedback list" where
  "razor_sender_destroy sender = (case sender of None \<Rightarrow> ([], []) | Some cc \<Rightarrow> sender_cc_destroy cc)"

definition razor_sender_heartbeat :: "(nat \<Rightarrow> int) \<Rightarrow> sender_cc option \<Rightarrow> (sender_cc option \<times> send_call list \<times> notification list) option" where
  "razor_sender_heartbeat clk sender =
     (case sender of None \<Rightarrow> Some (None, [], []) | Some cc \<Rightarrow> map_option (\<lambda>(cc, r). (Some cc, r)) (sender_cc_heartbeat clk cc))"

definition razor_sender_set_bitrates :: "(nat \<Rightarrow> int) \<Rightarrow> sender_cc option \<Rightarrow> u32 \<Rightarrow> u32 \<Rightarrow> u32 \<Rightarrow> sender_cc option \<times> notification list" where
  "razor_sender_set_bitrates clk sender min_bitrate start_bitrate max_bitrate =
     (case sender of None \<Rightarrow> (None, [])
      | Some cc \<Rightarrow> map_prod Some (\<lambda>out. out) (sender_cc_set_bitrates clk cc min_bitrate start_bitrate max_bitrate))"

definition razor_sender_add_packet :: "int \<Rightarrow> sender_cc option \<Rightarrow> u32 \<Rightarrow> int \<Rightarrow> nat \<Rightarrow> sender_cc option \<times> int" where
  "razor_sender_add_packet sys_ts sender packet_id retrans sz =
     (case sender of None \<Rightarrow> (None, -1) | Some cc \<Rightarrow> map_prod Some (\<lambda>r. r) (sender_cc_add_pace_packet sys_ts cc packet_id retrans sz))"

definition razor_sender_on_send :: "int \<Rightarrow> sender_cc option \<Rightarrow> u16 \<Rightarrow> nat \<Rightarrow> sender_cc option option" where
  "razor_sender_on_send sys_ts sender transport_seq sz =
     (case sender of None \<Rightarrow> Some None | Some cc \<Rightarrow> map_option Some (sender_on_send_packet sys_ts cc transport_seq sz))"

definition razor_sender_on_feedback ::
  "env \<Rightarrow> ((packet_feedback \<Rightarrow> packet_feedback \<Rightarrow> int) \<Rightarrow> packet_feedback list \<Rightarrow> packet_feedback list) \<Rightarrow> (nat \<Rightarrow> int) \<Rightarrow> delay_hist list
    \<Rightarrow> feedback_msg \<Rightarrow> sender_cc option \<Rightarrow> u8 list \<Rightarrow> (sender_cc option \<times> notification list) option" where
  "razor_sender_on_feedback e qsort clk fresh stack sender feedback =
     (case sender of None \<Rightarrow> Some (None, [])
      | Some cc \<Rightarrow> map_option (map_prod Some (\<lambda>out. out)) (sender_on_feedback e qsort clk fresh stack cc feedback))"

definition razor_sender_update_rtt :: "sender_cc option \<Rightarrow> int \<Rightarrow> sender_cc option" where
  "razor_sender_update_rtt sender rtt = map_option (\<lambda>cc. sender_cc_update_rtt cc rtt) sender"

definition razor_sender_get_pacer_queue_ms :: "int \<Rightarrow> sender_cc option \<Rightarrow> int" where
  "razor_sender_get_pacer_queue_ms sys_ts sender =
     (case sender of None \<Rightarrow> -1 | Some cc \<Rightarrow> s32 (sender_cc_get_pacer_queue_ms sys_ts cc))"

definition razor_sender_get_first_ts :: "sender_cc option \<Rightarrow> int" where
  "razor_sender_get_first_ts sender = (case sender of None \<Rightarrow> -1 | Some cc \<Rightarrow> sender_cc_get_first_packet_ts cc)"

subsection \<open>Reading a datagram\<close>

text \<open>Reading does not look at \<open>wptr\<close>.\<close>

lemma read_bytes_wptr:
  "read_bytes n get zero (s\<lparr>wptr := w\<rparr>) = map_option (\<lambda>(s', v). (s'\<lparr>wptr := w\<rparr>, v)) (read_bytes n get zero s)"
  by (simp add: read_bytes_def peek_def)

lemma bind_wptr: "Option.bind (map_option (\<lambda>(s', v). (s'\<lparr>wptr := w\<rparr>, v)) x) f = Option.bind x (\<lambda>(s', v). f (s'\<lparr>wptr := w\<rparr>, v))"
  by (cases x) auto

lemma map_bind: "map_option f (Option.bind x g) = Option.bind x (\<lambda>y. map_option f (g y))"
  by (cases x) auto

lemmas wptr_simps = read_bytes_wptr bind_wptr map_bind mach_uint8_read_def mach_uint16_read_def mach_uint32_read_def mach_int32_read_def
  mach_int64_read_def

lemma decode_samples_wptr:
  "decode_samples e i n (s\<lparr>wptr := w\<rparr>) m = map_option (\<lambda>(s', v). (s'\<lparr>wptr := w\<rparr>, v)) (decode_samples e i n s m)"
  by (induction n arbitrary: i s m) (auto simp: wptr_simps intro!: Option.bind_cong)

lemma feedback_msg_decode_wptr:
  "feedback_msg_decode e (s\<lparr>wptr := w\<rparr>) m = map_option (\<lambda>(s', v). (s'\<lparr>wptr := w\<rparr>, v)) (feedback_msg_decode e s m)"
proof -
  have "decode_remb e (s\<lparr>wptr := w\<rparr>) m = map_option (\<lambda>(s', v). (s'\<lparr>wptr := w\<rparr>, v)) (decode_remb e s m)" for s m
    by (auto simp: decode_remb_def wptr_simps intro!: Option.bind_cong)
  moreover have "decode_loss e (s\<lparr>wptr := w\<rparr>) m = map_option (\<lambda>(s', v). (s'\<lparr>wptr := w\<rparr>, v)) (decode_loss e s m)" for s m
    by (auto simp: decode_loss_def wptr_simps intro!: Option.bind_cong)
  moreover have "decode_proxy e (s\<lparr>wptr := w\<rparr>) m = map_option (\<lambda>(s', v). (s'\<lparr>wptr := w\<rparr>, v)) (decode_proxy e s m)" for s m
    by (auto simp: decode_proxy_def wptr_simps decode_samples_wptr Let_def intro!: Option.bind_cong)
  ultimately show ?thesis
    by (auto simp: feedback_msg_decode_def wptr_simps intro!: Option.bind_cong)
qed

text \<open>A stream whose \<open>wptr\<close> may be wrong.\<close>

definition loaded_wf :: "bin_stream \<Rightarrow> bool" where
  "loaded_wf s \<longleftrightarrow> strm_wf (s\<lparr>wptr := used s\<rparr>)"

lemma sender_load_ok:
  assumes "loaded_wf s"
  shows "\<exists>s'. sender_load e s fb = Some s' \<and> loaded_wf s' \<and> unread (s'\<lparr>wptr := used s'\<rparr>) = fb"
proof -
  have wf: "length (data s) = strm_size s" "0 < strm_size s"
    using assms by (simp_all add: loaded_wf_def strm_wf_def)
  obtain s1 where s1: "bin_stream_resize e s (length fb) = Some s1" "length fb \<le> strm_size s1" "length (data s1) = strm_size s1" "0 < strm_size s1"
  proof (cases "length fb \<le> strm_size s")
    case True
    then show ?thesis using that [of s] wf by (simp add: bin_stream_resize_def)
  next
    case False
    obtain b where "alloc_size_loop (length fb) (strm_size s) = Some b" "length fb \<le> b" "strm_size s \<le> b"
      using alloc_size_loop_ok [OF wf(2)] by blast
    with False show ?thesis
      using that [of "s\<lparr>data := realloc_bytes e b (data s), strm_size := b, wptr := used s, rptr := rsize s\<rparr>"] wf(2)
      by (simp add: bin_stream_resize_def)
  qed
  define s2 where "s2 = bin_stream_rewind s1 1"
  have s2: "data s2 = data s1" "strm_size s2 = strm_size s1" "rptr s2 = 0" "rsize s2 = 0"
    by (simp_all add: s2_def bin_stream_rewind_def Let_def)
  have "sender_load e s fb = Some (s2\<lparr>data := fb @ drop (length fb) (data s1), used := length fb\<rparr>)"
    using s1 s2 by (simp add: sender_load_def s2_def [symmetric] poke_def)
  then show ?thesis
    using s1 s2 by (simp add: loaded_wf_def strm_wf_def unread_def written_def)
qed

lemma sender_decode_ok:
  assumes "loaded_wf s" and "length (samples stack) = MAX_FEELBACK_COUNT"
  shows "\<exists>s' m. feedback_msg_decode e s stack = Some (s', m) \<and> loaded_wf s' \<and> length (samples m) = MAX_FEELBACK_COUNT
    \<and> (has_flag m proxy_ts_msg \<longrightarrow> unat (samples_num m) \<le> MAX_FEELBACK_COUNT)"
proof -
  obtain s1 m where d: "feedback_msg_decode e (s\<lparr>wptr := used s\<rparr>) stack = Some (s1, m)" "strm_wf s1" "length (samples m) = MAX_FEELBACK_COUNT"
    "has_flag m proxy_ts_msg \<longrightarrow> unat (samples_num m) \<le> MAX_FEELBACK_COUNT"
    using feedback_msg_decode_total [OF assms(1) [unfolded loaded_wf_def] assms(2)] by blast
  have "s = (s\<lparr>wptr := used s\<rparr>)\<lparr>wptr := wptr s\<rparr>" by simp
  then have "feedback_msg_decode e s stack = Some (s1\<lparr>wptr := wptr s\<rparr>, m)"
    using feedback_msg_decode_wptr [where s = "s\<lparr>wptr := used s\<rparr>" and w = "wptr s" and m = stack and e = e] d(1) by simp
  moreover have "loaded_wf (s1\<lparr>wptr := wptr s\<rparr>)"
    using d(2) by (simp add: loaded_wf_def strm_wf_def)
  ultimately show ?thesis
    using d(3,4) by blast
qed

subsection \<open>The invariant\<close>

definition pacer_ok :: "int \<Rightarrow> int \<Rightarrow> u32 \<Rightarrow> u32 \<Rightarrow> pace_sender \<Rightarrow> bool" where
  "pacer_ok start now mn b p \<longleftrightarrow> pace_wf p \<and> start \<le> ps_last_update_ts p \<and> ps_last_update_ts p \<le> now
     \<and> rates_frame p = (mn div 1000, b, su_max (b div 1000) (mn div 1000))
     \<and> target_rate_kbps (alr_budget (ps_alr p)) = uint b * 60 div 100000"

definition sender_ok :: "int \<Rightarrow> int \<Rightarrow> u32 \<Rightarrow> u32 \<Rightarrow> nat \<Rightarrow> sender_cc \<Rightarrow> bool" where
  "sender_ok start now mn mx n cc \<longleftrightarrow> (\<exists>s. sc_strm cc = Some s \<and> loaded_wf s) \<and> adapter_wf (sc_adapter cc)
     \<and> fa_index (sc_adapter cc) \<le> 128 * int n \<and> bwe_ok start now (sc_bwe cc) \<and> ctrl_inv (sc_controller cc)
     \<and> bounds_of (sc_controller cc) = (mn, mx) \<and> sc_has_trigger cc
     \<and> pacer_ok start now mn (fst (told_rate (sc_controller cc))) (sc_pacer cc)"

text \<open>The application is told the rate that the controller told last, and only rates within the bounds.\<close>

definition tells :: "u32 \<Rightarrow> u32 \<Rightarrow> sender_cc \<Rightarrow> sender_cc \<times> notification list \<Rightarrow> bool" where
  "tells mn mx cc r \<longleftrightarrow> last (told_rate (sc_controller cc) # snd r) = told_rate (sc_controller (fst r))
     \<and> (\<forall>x\<in>set (snd r). mn \<le> fst x \<and> fst x \<le> mx)"

lemma tells_nil: "sc_controller cc' = sc_controller cc \<Longrightarrow> tells mn mx cc (cc', [])"
  by (simp add: tells_def)

lemma tells_trans: "tells mn mx cc (c1, o1) \<Longrightarrow> tells mn mx c1 (c2, o2) \<Longrightarrow> tells mn mx cc (c2, o1 @ o2)"
  by (cases o1 rule: rev_cases; cases o2 rule: rev_cases) (auto simp: tells_def)

lemma sender_ok_later: "sender_ok start now mn mx n cc \<Longrightarrow> now \<le> t \<Longrightarrow> n \<le> k \<Longrightarrow> sender_ok start t mn mx k cc"
  by (auto simp: sender_ok_def pacer_ok_def bwe_ok_def aimd_wf_def)

lemma pace_set_ok:
  assumes "pacer_ok start now mn b p" and "b' \<le> 35000000"
  shows "pacer_ok start now mn b' (pace_set_estimate_bitrate p b')"
proof -
  have "uint b' \<le> 35000000" using assms(2) by (simp add: word_le_def)
  then have "s32 (uint b') = uint b'" "alr_wf (alr_detector_set_bitrate (ps_alr p) (uint b'))"
    "target_rate_kbps (alr_budget (alr_detector_set_bitrate (ps_alr p) (uint b'))) = uint b' * 60 div 100000"
    using alr_set_bitrate_wf [of "uint b'" "ps_alr p"] by (auto intro: s32_uint)
  then show ?thesis
    using assms(1) by (simp add: pacer_ok_def pace_set_estimate_bitrate_def pace_wf_def rates_frame_def)
qed

lemma sender_notify_eq:
  "sender_notify cc ns = (cc\<lparr>sc_pacer := foldl (\<lambda>p n. pace_set_estimate_bitrate p (fst n)) (sc_pacer cc) ns\<rparr>,
     if sc_has_trigger cc then ns else [])"
  by (induction cc ns rule: sender_notify.induct) (simp_all add: sender_cc_on_change_bitrate_def Let_def)

lemma pace_set_all_ok:
  "pacer_ok start now mn b p \<Longrightarrow> ns \<noteq> [] \<Longrightarrow> fst ` set ns \<subseteq> {b'} \<Longrightarrow> b' \<le> 35000000 \<Longrightarrow>
     pacer_ok start now mn b' (foldl (\<lambda>p n. pace_set_estimate_bitrate p (fst n)) p ns)"
proof (induction ns arbitrary: b p)
  case (Cons n ns)
  have "pacer_ok start now mn b' (pace_set_estimate_bitrate p (fst n))"
    using pace_set_ok [OF Cons.prems(1,4)] Cons.prems(3) by simp
  then show ?case
    using Cons.IH [of b'] Cons.prems by (cases "ns = []") simp_all
qed simp

lemma told_bounds: "ctrl_inv c \<Longrightarrow> bounds_of c = (mn, mx) \<Longrightarrow> mn \<le> fst (told_rate c) \<and> fst (told_rate c) \<le> mx"
  using now_rate_bounds [of c] by (simp add: ctrl_inv_def)

text \<open>A step of the controller reaches the pacer and the application.\<close>

lemma sender_control_ok:
  assumes "sender_ok start now mn mx n cc" and "mx \<le> 35000000" and "in_sync (sc_controller cc) r" and "ctrl_inv (fst r)"
    and "bounds_of (fst r) = bounds_of (sc_controller cc)"
  shows "sender_ok start now mn mx n (fst (sender_control cc r)) \<and> tells mn mx cc (sender_control cc r)"
proof -
  have c: "bounds_of (fst r) = (mn, mx)" "pacer_ok start now mn (fst (told_rate (sc_controller cc))) (sc_pacer cc)" "sc_has_trigger cc"
    using assms(1,5) by (simp_all add: sender_ok_def)
  have told: "told_rate (fst r) = now_rate (fst r)" using assms(4) by (simp add: ctrl_inv_def)
  have b: "mn \<le> fst (told_rate (fst r))" "fst (told_rate (fst r)) \<le> mx" using told_bounds [OF assms(4) c(1)] by simp_all
  have s: "set (snd r) \<subseteq> {told_rate (fst r)}" using assms(3) by (simp add: in_sync_def told)
  define p where "p = foldl (\<lambda>p n. pace_set_estimate_bitrate p (fst n)) (sc_pacer cc) (snd r)"
  have "pacer_ok start now mn (fst (told_rate (fst r))) p"
  proof (cases "snd r = []")
    case True
    then have "told_rate (fst r) = told_rate (sc_controller cc)" using assms(3) True unfolding in_sync_def by blast
    with True c(2) show ?thesis by (simp only: p_def foldl.simps)
  next
    case False
    have "fst ` set (snd r) \<subseteq> {fst (told_rate (fst r))}" using s by auto
    from pace_set_all_ok [OF c(2) False this] show ?thesis
      using b(2) assms(2) by (auto simp: p_def intro: order_trans)
  qed
  moreover have "sender_control cc r = (cc\<lparr>sc_controller := fst r, sc_pacer := p\<rparr>, snd r)"
    using c(3) by (simp add: sender_control_def sender_notify_eq p_def)
  moreover have "last (told_rate (sc_controller cc) # snd r) = told_rate (fst r)"
    using s assms(3) by (cases "snd r" rule: rev_cases) (auto simp: in_sync_def)
  moreover have "\<forall>x\<in>set (snd r). mn \<le> fst x \<and> fst x \<le> mx"
    using s b by auto
  ultimately show ?thesis
    using assms(1,4) c(1) by (simp add: sender_ok_def tells_def)
qed

lemma ack_incoming_total: "n \<le> length ps \<Longrightarrow> \<exists>est'. ack_estimator_incoming est ps (int n) = Some est'"
proof -
  have "i + n \<le> length ps \<Longrightarrow> \<exists>est'. ack_loop est ps i n = Some est'" for i
    by (induction n arbitrary: est i) simp_all
  then show "n \<le> length ps \<Longrightarrow> ?thesis" by (simp add: ack_estimator_incoming_def)
qed

subsection \<open>The steps\<close>

lemma control_step:
  assumes "sender_ok start now mn mx n cc" and "mx \<le> 35000000" and "ctrl_step (sc_controller cc) op = Some r"
  shows "sender_ok start now mn mx n (fst (sender_control cc r)) \<and> tells mn mx cc (sender_control cc r)"
proof -
  have "ctrl_inv (sc_controller cc)" using assms(1) by (simp add: sender_ok_def)
  from ctrl_step_inv [OF this, of op] assms(3) show ?thesis
    using sender_control_ok [OF assms(1,2)] by auto
qed

lemma pacer_tick_ok:
  assumes "pacer_ok start now mn b p" and "mn \<le> b" and "10000 \<le> mn" and "b \<le> 35000000" and "now \<le> t" and "t \<le> start + 53000000"
    and "sizes (unsent (ps_que p)) \<le> 500000"
  shows "\<exists>p' calls. pace_try_transmit sys p t = Some (p', calls) \<and> pacer_ok start t mn b p'"
proof (cases "5 \<le> t - ps_last_update_ts p")
  case False
  have "s32 (t - ps_last_update_ts p) = t - ps_last_update_ts p"
    using assms(1,5) False by (intro s32_id) (auto simp: pacer_ok_def)
  then show ?thesis
    using False assms(1,5) by (auto simp: pace_try_transmit_def Let_def pacer_ok_def)
next
  case True
  have b: "uint mn \<le> uint b" "10000 \<le> uint mn" "uint b \<le> 35000000"
    using assms(2-4) by (simp_all add: word_le_def)
  have p: "pace_wf p" "target_rate_kbps (alr_budget (ps_alr p)) = uint b * 60 div 100000" "rates_frame p = (mn div 1000, b, su_max (b div 1000) (mn div 1000))"
    "start \<le> ps_last_update_ts p"
    using assms(1) by (simp_all add: pacer_ok_def)
  have "uint (pacing_bitrate_kpbs p) \<le> 4294967"
    using p(3) b by (auto simp: rates_frame_def uint_div max_def)
  moreover have "1 \<le> target_rate_kbps (alr_budget (ps_alr p))"
    using p(2) b by simp
  moreover have "t - ps_last_update_ts p < 2147483648"
    using p(4) assms(6) by simp
  ultimately obtain p' calls where "pace_try_transmit sys p t = Some (p', calls)" "pace_wf p'" "rates_frame p' = rates_frame p"
    "ps_last_update_ts p' = t" "target_rate_kbps (alr_budget (ps_alr p')) = target_rate_kbps (alr_budget (ps_alr p))"
    using pace_transmit_ok [OF p(1) True _ assms(7), of sys] by blast
  then show ?thesis
    using p assms(1,5) by (simp add: pacer_ok_def)
qed

lemma sender_heartbeat_ok:
  assumes "sender_ok start now mn mx n cc" and "10000 \<le> mn" and "mx \<le> 35000000" and "now \<le> clk 0" and "clk 0 \<le> start + 53000000"
    and "sizes (unsent (ps_que (sc_pacer cc))) \<le> 500000"
  shows "\<exists>cc' calls out. sender_cc_heartbeat clk cc = Some (cc', calls, out) \<and> sender_ok start (clk 0) mn mx n cc' \<and> tells mn mx cc (cc', out)"
proof -
  have c: "pacer_ok start now mn (fst (told_rate (sc_controller cc))) (sc_pacer cc)" "ctrl_inv (sc_controller cc)"
    "bounds_of (sc_controller cc) = (mn, mx)"
    using assms(1) by (simp_all add: sender_ok_def)
  have b: "mn \<le> fst (told_rate (sc_controller cc))" "fst (told_rate (sc_controller cc)) \<le> 35000000"
    using told_bounds [OF c(2,3)] assms(3) by auto
  obtain p calls where p: "pace_try_transmit (clk 1) (sc_pacer cc) (clk 0) = Some (p, calls)"
    "pacer_ok start (clk 0) mn (fst (told_rate (sc_controller cc))) p"
    using pacer_tick_ok [OF c(1) b(1) assms(2) b(2) assms(4-6), of "clk 1"] by blast
  define c1 where "c1 = cc\<lparr>sc_pacer := p\<rparr>"
  have c1: "sender_ok start (clk 0) mn mx n c1" "sc_controller c1 = sc_controller cc"
    using sender_ok_later [OF assms(1,4) order_refl] p(2) by (simp_all add: sender_ok_def c1_def)
  obtain r where r: "bitrate_controller_heartbeat (sc_controller cc) (clk 0) = Some r"
    using heartbeat_step [OF c(2)] by blast
  have "sender_ok start (clk 0) mn mx n (fst (sender_control c1 r)) \<and> tells mn mx c1 (sender_control c1 r)"
    using control_step [OF c1(1) assms(3), of "CHeartbeat (clk 0)" r] r c1(2) by simp
  moreover have "sender_cc_heartbeat clk cc = Some (fst (sender_control c1 r), calls, snd (sender_control c1 r))"
    using p(1) r by (simp add: sender_cc_heartbeat_def c1_def case_prod_unfold Let_def)
  ultimately show ?thesis
    by (auto simp: tells_def c1(2))
qed

text \<open>What the transport part needs of the two estimators: an acknowledged rate that fits its type,
  and a last arrival time between the start and now on the sender's clock.\<close>

definition acks_ok ::
  "((packet_feedback \<Rightarrow> packet_feedback \<Rightarrow> int) \<Rightarrow> packet_feedback list \<Rightarrow> packet_feedback list) \<Rightarrow> (nat \<Rightarrow> int) \<Rightarrow> int \<Rightarrow> feedback_msg \<Rightarrow> sender_cc \<Rightarrow> bool" where
  "acks_ok qsort clk start msg cc \<longleftrightarrow> (case feedback_on_feedback qsort (clk 1) (sc_adapter cc) msg of None \<Rightarrow> True
     | Some (a, num) \<Rightarrow> 0 < num \<longrightarrow> start \<le> arrival_ts (packets a ! (num - 1)) \<and> arrival_ts (packets a ! (num - 1)) \<le> clk 0
         \<and> (case ack_estimator_incoming (sender_alr_ack cc (if 0 < pace_get_limited_start_time (sc_pacer cc) then 0 else -1) (clk 0)) (packets a) (int num) of
              None \<Rightarrow> True | Some ack \<Rightarrow> ack_estimator_bitrate_bps ack \<noteq> None))"

lemma sender_alr_ack_frame [simp]: "sender_alr_ack (cc\<lparr>sc_adapter := a\<rparr>) x y = sender_alr_ack cc x y"
  "sender_alr_ack (cc\<lparr>sc_strm := s\<rparr>) x y = sender_alr_ack cc x y"
  by (simp_all add: sender_alr_ack_def)

lemma sender_on_transport_ok:
  assumes "sender_ok start now mn mx n cc" and "mx \<le> 35000000" and "now \<le> clk 0" and "clk 0 \<le> start + 53000000" and "n < 16000000"
    and "length fresh = 20" and "qsort_ok qsort" and "length (samples msg) = MAX_FEELBACK_COUNT" and "unat (samples_num msg) \<le> MAX_FEELBACK_COUNT"
    and "acks_ok qsort clk start msg cc"
  shows "\<exists>cc' out stop. sender_on_transport qsort clk fresh (clk 0) msg cc = Some (cc', out, stop) \<and> sender_ok start (clk 0) mn mx (Suc n) cc'
    \<and> tells mn mx cc (cc', out)"
proof -
  have c: "adapter_wf (sc_adapter cc)" "fa_index (sc_adapter cc) \<le> 128 * int n" "bwe_ok start now (sc_bwe cc)"
    using assms(1) by (simp_all add: sender_ok_def)
  have "int (unat (samples_num msg)) \<le> 128" using assms(9) by linarith
  then have "fa_index (sc_adapter cc) + int (unat (samples_num msg)) \<le> 2147483647"
    using c(2) assms(5) by linarith
  from feedback_on_feedback_ok [OF c(1) assms(9,8) this assms(7), of "clk 1"] obtain a k where
    a: "feedback_on_feedback qsort (clk 1) (sc_adapter cc) msg = Some (a, k)" "adapter_wf a" "k = fa_num a" "k \<le> 128"
      "fa_index a \<le> fa_index (sc_adapter cc) + 128"
    by blast
  define c1 where "c1 = cc\<lparr>sc_adapter := a\<rparr>"
  have c1: "sender_ok start (clk 0) mn mx (Suc n) c1"
    using sender_ok_later [OF assms(1,3), of "Suc n"] a(2,5) c(2) by (simp add: sender_ok_def c1_def)
  show ?thesis
  proof (cases "k = 0")
    case True
    then show ?thesis
      using a(1) c1 by (intro exI [of _ c1] exI [of _ "[]"] exI [of _ True]) (simp add: sender_on_transport_def tells_nil c1_def)
  next
    case False
    define alr :: int where "alr = (if 0 < pace_get_limited_start_time (sc_pacer cc) then 0 else -1)"
    have len: "k \<le> length (packets a)" using a(2,4) by (simp add: adapter_wf_def)
    obtain ack where ack: "ack_estimator_incoming (sender_alr_ack cc alr (clk 0)) (packets a) (int k) = Some ack"
      using ack_incoming_total [OF len] by blast
    obtain acked where acked: "ack_estimator_bitrate_bps ack = Some acked"
      and arr: "start \<le> arrival_ts (packets a ! (k - 1))" "arrival_ts (packets a ! (k - 1)) \<le> clk 0"
      using assms(10) a(1) ack False by (auto simp: acks_ok_def alr_def)
    have t: "clk 0 - start \<le> 53000000" using assms(4) by simp
    obtain bwe res where bwe: "delay_bwe_incoming (sc_bwe cc) (packets a) (int k) acked (clk 0) fresh = Some (bwe, res)" "bwe_ok start (clk 0) bwe"
      using incoming_ok [OF c(3) assms(3) t assms(6) len, of acked] arr by auto
    define c2 where "c2 = cc\<lparr>sc_adapter := a, was_in_alr := alr, sc_ack := ack, sc_bwe := bwe\<rparr>"
    have c2: "sender_ok start (clk 0) mn mx (Suc n) c2" "sc_controller c2 = sc_controller cc"
      using c1 bwe(2) by (simp_all add: sender_ok_def c1_def c2_def)
    define r where "r = (if br_updated res = 0 then sender_control c2 (bitrate_controller_on_basedelay_result (sc_controller cc) (br_updated res)
      (br_probe res) (br_bitrate res) (br_recovered_from_overuse res) (clk 2) (clk 3)) else (c2, []))"
    have "sender_on_transport qsort clk fresh (clk 0) msg cc = Some (fst r, snd r, False)"
      using a(1,3) False ack acked bwe(1)
      by (simp add: sender_on_transport_def alr_def [symmetric] r_def c2_def Let_def case_prod_unfold)
    moreover have "sender_ok start (clk 0) mn mx (Suc n) (fst r) \<and> tells mn mx c2 r"
      using c2(1) control_step [OF c2(1) assms(2), of "CDelay (br_updated res) (br_probe res) (br_bitrate res) (br_recovered_from_overuse res) (clk 2) (clk 3)"]
      by (cases "br_updated res = 0") (simp_all add: r_def c2(2) tells_nil)
    ultimately show ?thesis
      by (auto simp: tells_def c2(2))
  qed
qed

lemma sender_reports_ok:
  assumes "sender_ok start now mn mx n cc" and "mx \<le> 35000000"
  shows "sender_ok start now mn mx n (fst (sender_on_remb clk msg cc)) \<and> tells mn mx cc (sender_on_remb clk msg cc)"
    and "\<exists>r. sender_on_loss clk t msg cc = Some r \<and> sender_ok start now mn mx n (fst r) \<and> tells mn mx cc r"
proof -
  show "sender_ok start now mn mx n (fst (sender_on_remb clk msg cc)) \<and> tells mn mx cc (sender_on_remb clk msg cc)"
    using assms(1) control_step [OF assms, of "CRemb (remb msg) (clk 4) (clk 5)"] by (simp add: sender_on_remb_def tells_nil)
  have "ctrl_inv (sc_controller cc)" using assms(1) by (simp add: sender_ok_def)
  then obtain r where r: "ctrl_step (sc_controller cc) (CReport (word_of_int (sc_rtt cc)) t (fraction_loss msg) (packet_num msg) (clk 6)) = Some r"
    using ctrl_step_inv by blast
  define x where "x = (if has_flag msg loss_info_msg then sender_control cc r else (cc, []))"
  have "sender_on_loss clk t msg cc = Some x" using r by (simp add: sender_on_loss_def x_def)
  moreover have "sender_ok start now mn mx n (fst x) \<and> tells mn mx cc x"
    using control_step [OF assms r] assms(1) by (simp add: x_def tells_nil)
  ultimately show "\<exists>r. sender_on_loss clk t msg cc = Some r \<and> sender_ok start now mn mx n (fst r) \<and> tells mn mx cc r"
    by blast
qed

text \<open>The message that a datagram is decoded to.\<close>

definition sender_message :: "env \<Rightarrow> feedback_msg \<Rightarrow> sender_cc \<Rightarrow> u8 list \<Rightarrow> feedback_msg option" where
  "sender_message e stack cc feedback = do {
     strm \<leftarrow> sc_strm cc; strm \<leftarrow> sender_load e strm feedback; map_option snd (feedback_msg_decode e strm stack) }"

definition feedback_ok ::
  "env \<Rightarrow> ((packet_feedback \<Rightarrow> packet_feedback \<Rightarrow> int) \<Rightarrow> packet_feedback list \<Rightarrow> packet_feedback list) \<Rightarrow> (nat \<Rightarrow> int) \<Rightarrow> int
    \<Rightarrow> feedback_msg \<Rightarrow> sender_cc \<Rightarrow> u8 list \<Rightarrow> bool" where
  "feedback_ok e qsort clk start stack cc feedback \<longleftrightarrow> (case sender_message e stack cc feedback of None \<Rightarrow> True
     | Some msg \<Rightarrow> has_flag msg proxy_ts_msg \<longrightarrow> acks_ok qsort clk start msg cc)"

lemma sender_on_feedback_ok:
  assumes "sender_ok start now mn mx n cc" and "mx \<le> 35000000" and "now \<le> clk 0" and "clk 0 \<le> start + 53000000" and "n < 16000000"
    and "length fresh = 20" and "qsort_ok qsort" and "length (samples stack) = MAX_FEELBACK_COUNT" and "feedback_ok e qsort clk start stack cc fb"
  shows "\<exists>r. sender_on_feedback e qsort clk fresh stack cc fb = Some r \<and> sender_ok start (clk 0) mn mx (Suc n) (fst r) \<and> tells mn mx cc r"
proof (cases "length fb \<le> 1472")
  case False
  then show ?thesis
    using sender_ok_later [OF assms(1,3), of "Suc n"] by (simp add: sender_on_feedback_def tells_nil)
next
  case True
  obtain s where s: "sc_strm cc = Some s" "loaded_wf s" using assms(1) by (auto simp: sender_ok_def)
  obtain s1 where s1: "sender_load e s fb = Some s1" "loaded_wf s1" using sender_load_ok [OF s(2)] by blast
  obtain s2 m where d: "feedback_msg_decode e s1 stack = Some (s2, m)" "loaded_wf s2" "length (samples m) = MAX_FEELBACK_COUNT"
    "has_flag m proxy_ts_msg \<longrightarrow> unat (samples_num m) \<le> MAX_FEELBACK_COUNT"
    using sender_decode_ok [OF s1(2) assms(8)] by blast
  have acks: "has_flag m proxy_ts_msg \<longrightarrow> acks_ok qsort clk start m cc"
    using assms(9) s(1) s1(1) d(1) by (simp add: feedback_ok_def sender_message_def)
  define c1 where "c1 = cc\<lparr>sc_strm := Some s2\<rparr>"
  have c1: "sender_ok start now mn mx n c1" "sc_controller c1 = sc_controller cc" "acks_ok qsort clk start m c1 = acks_ok qsort clk start m cc"
    using assms(1) d(2) by (simp_all add: sender_ok_def c1_def acks_ok_def sender_alr_ack_def cong: option.case_cong)
  obtain c2 o2 stop where t: "(if has_flag m proxy_ts_msg then sender_on_transport qsort clk fresh (clk 0) m c1 else Some (c1, [], False)) = Some (c2, o2, stop)"
    "sender_ok start (clk 0) mn mx (Suc n) c2" "tells mn mx cc (c2, o2)"
  proof (cases "has_flag m proxy_ts_msg")
    case True
    then obtain c2 o2 stop where "sender_on_transport qsort clk fresh (clk 0) m c1 = Some (c2, o2, stop)"
      "sender_ok start (clk 0) mn mx (Suc n) c2" "tells mn mx c1 (c2, o2)"
      using sender_on_transport_ok [of start now mn mx n c1 clk fresh qsort m] c1(1,3) assms(2-7) d(3,4) acks by blast
    then show ?thesis using that True by (simp add: tells_def c1(2))
  next
    case False
    then show ?thesis
      using that sender_ok_later [OF c1(1) assms(3), of "Suc n"] tells_nil [OF c1(2)] by simp
  qed
  note rb = sender_reports_ok(1) [OF t(2) assms(2), of clk m]
  obtain c3 o3 where c3: "sender_on_remb clk m c2 = (c3, o3)" by (cases "sender_on_remb clk m c2")
  obtain c4 o4 where c4: "sender_on_loss clk (clk 0) m c3 = Some (c4, o4)" "sender_ok start (clk 0) mn mx (Suc n) c4" "tells mn mx c3 (c4, o4)"
    using sender_reports_ok(2) [of start "clk 0" mn mx "Suc n" c3 clk "clk 0" m] rb c3 assms(2) by auto
  have r: "sender_on_feedback e qsort clk fresh stack cc fb = Some (if stop then (c2, o2) else (c4, o2 @ o3 @ o4))"
    using True s(1) s1(1) d(1) c3 c4(1)
    by (cases stop) (simp_all add: sender_on_feedback_def Let_def t(1) [unfolded c1_def] split del: if_split)
  have "tells mn mx cc (c4, o2 @ o3 @ o4)"
    using tells_trans [OF t(3) tells_trans [OF _ c4(3)]] rb c3 by simp
  then show ?thesis
    unfolding r using t(2,3) c4(2) by auto
qed

subsection \<open>Runs\<close>

datatype cc_op = OpHeartbeat "nat \<Rightarrow> int" | OpAdd int u32 int nat | OpSend int u16 nat
  | OpFeedback "nat \<Rightarrow> int" "delay_hist list" feedback_msg "u8 list" | OpRtt int

fun cc_step ::
  "env \<Rightarrow> ((packet_feedback \<Rightarrow> packet_feedback \<Rightarrow> int) \<Rightarrow> packet_feedback list \<Rightarrow> packet_feedback list) \<Rightarrow> sender_cc \<Rightarrow> cc_op
    \<Rightarrow> (sender_cc \<times> notification list) option" where
  "cc_step e qsort cc (OpHeartbeat clk) = map_option (\<lambda>(cc, calls, out). (cc, out)) (sender_cc_heartbeat clk cc)"
| "cc_step e qsort cc (OpAdd t k retrans sz) = Some (fst (sender_cc_add_pace_packet t cc k retrans sz), [])"
| "cc_step e qsort cc (OpSend t q sz) = map_option (\<lambda>cc. (cc, [])) (sender_on_send_packet t cc q sz)"
| "cc_step e qsort cc (OpFeedback clk fresh stack fb) = sender_on_feedback e qsort clk fresh stack cc fb"
| "cc_step e qsort cc (OpRtt rtt) = Some (sender_cc_update_rtt cc rtt, [])"

fun op_time :: "int \<Rightarrow> cc_op \<Rightarrow> int" where
  "op_time now (OpHeartbeat clk) = clk 0"
| "op_time now (OpFeedback clk fresh stack fb) = clk 0"
| "op_time now op = now"

text \<open>At a timer call at most 500000 bytes wait. A feedback message finds its estimators as in \<open>acks_ok\<close>.\<close>

fun cc_op_ok ::
  "env \<Rightarrow> ((packet_feedback \<Rightarrow> packet_feedback \<Rightarrow> int) \<Rightarrow> packet_feedback list \<Rightarrow> packet_feedback list) \<Rightarrow> int \<Rightarrow> sender_cc \<Rightarrow> cc_op \<Rightarrow> bool" where
  "cc_op_ok e qsort start cc (OpHeartbeat clk) = (sizes (unsent (ps_que (sc_pacer cc))) \<le> 500000)"
| "cc_op_ok e qsort start cc (OpAdd t k retrans sz) = True"
| "cc_op_ok e qsort start cc (OpSend t q sz) = True"
| "cc_op_ok e qsort start cc (OpFeedback clk fresh stack fb) =
     (length fresh = 20 \<and> length (samples stack) = MAX_FEELBACK_COUNT \<and> feedback_ok e qsort clk start stack cc fb)"
| "cc_op_ok e qsort start cc (OpRtt rtt) = (0 \<le> rtt \<and> rtt \<le> 1000000)"

fun cc_run ::
  "env \<Rightarrow> ((packet_feedback \<Rightarrow> packet_feedback \<Rightarrow> int) \<Rightarrow> packet_feedback list \<Rightarrow> packet_feedback list) \<Rightarrow> sender_cc \<Rightarrow> cc_op list
    \<Rightarrow> (sender_cc \<times> notification list) option" where
  "cc_run e qsort cc [] = Some (cc, [])"
| "cc_run e qsort cc (op # ops) = (case cc_step e qsort cc op of None \<Rightarrow> None
     | Some (cc, out) \<Rightarrow> map_option (\<lambda>(cc, out'). (cc, out @ out')) (cc_run e qsort cc ops))"

fun cc_run_ok ::
  "env \<Rightarrow> ((packet_feedback \<Rightarrow> packet_feedback \<Rightarrow> int) \<Rightarrow> packet_feedback list \<Rightarrow> packet_feedback list) \<Rightarrow> int \<Rightarrow> int \<Rightarrow> sender_cc \<Rightarrow> cc_op list \<Rightarrow> bool" where
  "cc_run_ok e qsort start now cc [] = True"
| "cc_run_ok e qsort start now cc (op # ops) = (now \<le> op_time now op \<and> op_time now op \<le> start + 53000000 \<and> cc_op_ok e qsort start cc op
     \<and> (case cc_step e qsort cc op of None \<Rightarrow> True | Some (cc, out) \<Rightarrow> cc_run_ok e qsort start (op_time now op) cc ops))"

lemma insert_ok:
  assumes "pacer_ok start now mn b p"
  shows "pacer_ok start now mn b (fst (pace_insert_packet p k retrans sz t))"
proof -
  have "pq_wf (fst (pacer_queue_push (ps_que p) ev))" for ev
    using pacer_queue_push_spec(2) [of "ps_que p" ev] pacer_queue_push_dup_wf(2) [of "ps_que p" ev] assms
    by (cases "pe_seq ev \<in> fst ` set (pq_cache (ps_que p))") (simp_all add: pacer_ok_def pace_wf_def)
  then show ?thesis
    using assms by (simp add: pacer_ok_def pace_wf_def pace_insert_packet_def rates_frame_def case_prod_unfold Let_def)
qed

lemma add_packet_ok:
  "sender_ok start now mn mx n cc \<Longrightarrow> sender_ok start now mn mx n (fst (sender_cc_add_pace_packet t cc k retrans sz))"
  using insert_ok [of start now mn "fst (told_rate (sc_controller cc))" "sc_pacer cc" k retrans sz t]
  by (simp add: sender_ok_def sender_cc_add_pace_packet_def case_prod_unfold Let_def)

lemma on_send_ok:
  assumes "sender_ok start now mn mx n cc"
  shows "\<exists>cc'. sender_on_send_packet t cc q sz = Some cc' \<and> sender_ok start now mn mx n cc' \<and> sc_controller cc' = sc_controller cc
    \<and> sc_pacer cc' = sc_pacer cc"
proof -
  obtain a where a: "feedback_add_packet t (sc_adapter cc) q sz = Some a" "adapter_wf a"
    using feedback_add_packet_wf assms by (fastforce simp: sender_ok_def)
  then have "fa_index a = fa_index (sc_adapter cc)"
    by (auto simp: feedback_add_packet_def Let_def)
  then show ?thesis
    using a assms by (simp add: sender_on_send_packet_def sender_ok_def)
qed

lemma update_rtt_ok:
  assumes "sender_ok start now mn mx n cc" and "rtt \<le> 1000000" and "0 \<le> rtt"
  shows "sender_ok start now mn mx n (sender_cc_update_rtt cc rtt)"
proof -
  have "(word_of_int rtt :: u32) \<le> 1000000"
    using assms(2,3) by (simp add: word_le_def uint_word_of_int)
  then show ?thesis
    using assms(1) by (simp add: sender_ok_def sender_cc_update_rtt_def delay_bwe_rtt_update_def bwe_ok_def filters_ok_def aimd_set_rtt_def aimd_wf_def)
qed

lemma cc_step_ok:
  assumes "sender_ok start now mn mx n cc" and "10000 \<le> mn" and "mx \<le> 35000000" and "n < 16000000" and "qsort_ok qsort"
    and "now \<le> op_time now op" and "op_time now op \<le> start + 53000000" and "cc_op_ok e qsort start cc op"
  shows "\<exists>r. cc_step e qsort cc op = Some r \<and> sender_ok start (op_time now op) mn mx (Suc n) (fst r) \<and> tells mn mx cc r"
proof (cases op)
  case (OpHeartbeat clk)
  obtain cc' calls out where "sender_cc_heartbeat clk cc = Some (cc', calls, out)" "sender_ok start (clk 0) mn mx n cc'" "tells mn mx cc (cc', out)"
    using sender_heartbeat_ok [OF assms(1-3), of clk] assms(6-8) OpHeartbeat by auto
  then show ?thesis
    using sender_ok_later [of start "clk 0" mn mx n cc' "clk 0" "Suc n"] by (simp add: OpHeartbeat)
next
  case (OpAdd t k retrans sz)
  show ?thesis
    using add_packet_ok [OF sender_ok_later [OF assms(1) order_refl, of "Suc n"], of t k retrans sz]
    by (simp add: OpAdd tells_nil sender_cc_add_pace_packet_def case_prod_unfold Let_def)
next
  case (OpSend t q sz)
  show ?thesis
    using on_send_ok [OF sender_ok_later [OF assms(1) order_refl, of "Suc n"], of t q sz] by (auto simp: OpSend tells_nil)
next
  case (OpFeedback clk fresh stack fb)
  then show ?thesis
    using sender_on_feedback_ok [OF assms(1,3), of clk fresh qsort stack e fb] assms(4-8) by simp
next
  case (OpRtt rtt)
  then show ?thesis
    using update_rtt_ok [OF sender_ok_later [OF assms(1) order_refl, of "Suc n"], of rtt] assms(8)
    by (simp add: tells_nil) (simp add: sender_cc_update_rtt_def tells_nil)
qed

lemma cc_run_inv:
  assumes "sender_ok start now mn mx n cc" and "10000 \<le> mn" and "mx \<le> 35000000" and "n + length ops \<le> 16000000" and "qsort_ok qsort"
    and "cc_run_ok e qsort start now cc ops"
  shows "\<exists>cc' out t k. cc_run e qsort cc ops = Some (cc', out) \<and> sender_ok start t mn mx k cc' \<and> tells mn mx cc (cc', out)"
  using assms(1,4,6)
proof (induction ops arbitrary: now n cc)
  case Nil
  then show ?case by (auto simp: tells_nil)
next
  case (Cons op ops)
  have o: "n < 16000000" "now \<le> op_time now op" "op_time now op \<le> start + 53000000" "cc_op_ok e qsort start cc op"
    using Cons.prems(2,3) by simp_all
  obtain c1 o1 where s: "cc_step e qsort cc op = Some (c1, o1)" "sender_ok start (op_time now op) mn mx (Suc n) c1" "tells mn mx cc (c1, o1)"
    using cc_step_ok [OF Cons.prems(1) assms(2,3) o(1) assms(5) o(2-4)] by auto
  from Cons.IH [OF s(2)] Cons.prems(2,3) s(1) obtain c2 o2 t k where "cc_run e qsort c1 ops = Some (c2, o2)" "sender_ok start t mn mx k c2"
    "tells mn mx c1 (c2, o2)"
    by auto
  then show ?case
    using s(1) tells_trans [OF s(3)] by auto
qed

text \<open>A sender with its bounds set.\<close>

lemma set_bitrates_sender_ok:
  assumes "10000 \<le> mn" and "mn \<le> st" and "st \<le> mx" and "mx \<le> 35000000"
    and "sender_cc_set_bitrates clk (snd (sender_cc_create e True clk0 fresh True True ms)) mn st mx = (cc0, out0)"
  shows "sender_ok (clk0 1) (clk0 1) mn mx 0 cc0" and "out0 \<noteq> []" and "last out0 = told_rate (sc_controller cc0)"
    and "\<forall>x\<in>set out0. mn \<le> fst x \<and> fst x \<le> mx" and "ps_que (sc_pacer cc0) = pacer_queue_init (word_of_int (su_min ms 250))"
proof -
  define cc where "cc = snd (sender_cc_create e True clk0 fresh True True ms)"
  define p where "p = sc_pacer cc"
  have st: "su_min (su_max st mn) mx = st" using assms(2,3) by simp
  obtain c0 ns where c0: "bitrate_controller_set_bitrates (bitrate_controller_create True (clk0 2)) st mn mx (clk 0) (clk 1) = (c0, ns)"
    by (cases "bitrate_controller_set_bitrates (bitrate_controller_create True (clk0 2)) st mn mx (clk 0) (clk 1)")
  have b: "mn \<le> 3900000000" "0 < mx" "mx \<le> 3900000000" "mx \<noteq> 0"
  proof -
    have l: "mn \<le> mx" "10000 \<le> mx" using assms(1-3) by (auto dest: order_trans)
    show "mn \<le> 3900000000" using order_trans [OF l(1) order_trans [OF assms(4)]] by simp
    show "mx \<le> 3900000000" using order_trans [OF assms(4)] by simp
    show "0 < mx" using less_le_trans [OF _ l(2)] by simp
    then show "mx \<noteq> 0" by simp
  qed
  note c = set_bitrates_ok [OF b(1-3) c0]
  have bd: "su_max 10000 mn = mn" "su_max mn mx = mx" using assms(1) order_trans [OF assms(2,3)] by (simp_all add: max_absorb2)
  have bounds: "bounds_of c0 = (mn, mx)" using c(2) bd by simp
  have rate: "fst (now_rate c0) = st" "told_rate c0 = now_rate c0"
    using c(1,5) assms(2,3) by (simp_all add: bounds ctrl_inv_def)
  have p: "pace_wf p" "ps_last_update_ts p = clk0 1" "ps_que p = pacer_queue_init (word_of_int (su_min ms 250))"
    by (simp_all add: p_def cc_def sender_cc_create_def Let_def case_prod_unfold pace_create_def pace_set_bitrate_limits_def pace_wf_def
      alr_detector_create_wf pacer_queue_init_wf init_interval_budget_def increase_budget_wf set_target_rate_wf)
  define q where "q = foldl (\<lambda>p n. pace_set_estimate_bitrate p (fst n)) p ns"
  have fq: "ps_que (foldl (\<lambda>p n. pace_set_estimate_bitrate p (fst n)) x l) = ps_que x"
    "media_budget (foldl (\<lambda>p n. pace_set_estimate_bitrate p (fst n)) x l) = media_budget x"
    "has_send_cb (foldl (\<lambda>p n. pace_set_estimate_bitrate p (fst n)) x l) = has_send_cb x"
    "ps_last_update_ts (foldl (\<lambda>p n. pace_set_estimate_bitrate p (fst n)) x l) = ps_last_update_ts x" for x and l :: "notification list"
    by (induction l arbitrary: x) (simp_all add: pace_set_estimate_bitrate_def)
  have q: "ps_que q = ps_que p" "media_budget q = media_budget p" "has_send_cb q = has_send_cb p" "ps_last_update_ts q = ps_last_update_ts p"
    unfolding q_def by (rule fq)+
  have "uint st \<le> 35000000" using assms(3,4) by (simp add: word_le_def)
  then have alr: "s32 (uint st) = uint st" "alr_wf (alr_detector_set_bitrate a (uint st))"
    "target_rate_kbps (alr_budget (alr_detector_set_bitrate a (uint st))) = uint st * 60 div 100000" for a
    using alr_set_bitrate_wf [of "uint st"] by (auto intro: s32_uint)
  have pk: "pacer_ok (clk0 1) (clk0 1) mn st (pace_set_bitrate_limits (pace_set_estimate_bitrate q st) mn)"
    using p alr by (simp add: pacer_ok_def pace_set_bitrate_limits_def pace_set_estimate_bitrate_def pace_wf_def rates_frame_def q Let_def)
  define bw where "bw = delay_bwe_set_start_bitrate (delay_bwe_set_max_bitrate (delay_bwe_set_min_bitrate (sc_bwe cc) mn) mx) st"
  have "bwe_ok (clk0 1) (clk0 1) bw"
    using assms(1-3) by (simp add: bw_def cc_def sender_cc_create_def Let_def case_prod_unfold delay_bwe_set_start_bitrate_def
      delay_bwe_set_max_bitrate_def delay_bwe_set_min_bitrate_def delay_bwe_create_def bwe_ok_def filters_ok_def aimd_wf_def
      aimd_set_start_bitrate_def aimd_set_max_bitrate_def aimd_set_min_bitrate_def aimd_create_def fp_lit_minus_one le_max_iff_disj)
       (auto intro: order_trans [of 1 10000])
  moreover have ctrl: "sc_controller cc = bitrate_controller_create True (clk0 2)" "sc_has_trigger cc"
    by (simp_all add: cc_def sender_cc_create_def Let_def case_prod_unfold)
  moreover have cc0: "cc0 = cc\<lparr>sc_bwe := bw, sc_controller := c0, sc_pacer := pace_set_bitrate_limits (pace_set_estimate_bitrate q st) mn\<rparr>" "out0 = ns"
    using assms(5) unfolding cc_def [symmetric] sender_cc_set_bitrates_def st Let_def sender_control_def sender_notify_eq
    by (auto simp: ctrl c0 bw_def q_def p_def case_prod_unfold simp del: One_nat_def)
  moreover obtain s where "sc_strm cc = Some s" "loaded_wf s"
    by (simp add: cc_def sender_cc_create_def Let_def case_prod_unfold bin_stream_init_def loaded_wf_def strm_wf_def)
  ultimately show "sender_ok (clk0 1) (clk0 1) mn mx 0 cc0"
    using pk c(1) bounds rate by (simp add: sender_ok_def)
      (simp add: cc_def sender_cc_create_def Let_def case_prod_unfold feedback_adapter_init_wf feedback_adapter_init_def [THEN arg_cong, of fa_index])
  show "out0 \<noteq> []" using c(3) cc0(2) by simp
  then have "last out0 \<in> set ns" using last_in_set [of out0] cc0(2) by simp
  then have "last out0 = now_rate c0" using c(4) by blast
  then show "last out0 = told_rate (sc_controller cc0)"
    using cc0(1) rate(2) by simp
  show "\<forall>x\<in>set out0. mn \<le> fst x \<and> fst x \<le> mx"
    using c(4) cc0(2) rate assms(2,3) by auto
  show "ps_que (sc_pacer cc0) = pacer_queue_init (word_of_int (su_min ms 250))"
    using cc0(1) p(3) by (simp add: pace_set_bitrate_limits_def pace_set_estimate_bitrate_def q Let_def)
qed

text \<open>Before the bounds are set, a timer call divides by the budget of the application limited period, which is zero.\<close>

lemma heartbeat_before_bitrates:
  assumes "5 \<le> clk 0 - clk0 1" and "clk 0 - clk0 1 < 2147483648"
  shows "sender_cc_heartbeat clk (snd (sender_cc_create e True clk0 fresh True True ms)) = None"
proof -
  define p where "p = sc_pacer (snd (sender_cc_create e True clk0 fresh True True ms))"
  have p: "p = pace_set_bitrate_limits (pace_create (clk0 1) True (word_of_int (su_min ms 250))) 10000"
    by (simp add: p_def sender_cc_create_def Let_def case_prod_unfold)
  have f: "ps_que p = pacer_queue_init (word_of_int (su_min ms 250))" "ps_last_update_ts p = clk0 1" "ps_alr p = alr_detector_create"
    by (simp_all add: p pace_set_bitrate_limits_def pace_create_def Let_def)
  have q: "pq_wf (ps_que p)" "unsent (ps_que p) = []" "pq_total_size (ps_que p) = 0"
    using pacer_queue_init_wf by (simp_all add: f(1)) (simp_all add: pacer_queue_init_def unsent_def)
  have "pacer_queue_empty (ps_que p) = 0" using pq_wf_empty [OF q(1)] q(2) by simp
  then have l: "transmit_loop t (p\<lparr>media_budget := b\<rparr>) 0 [] = Some (p\<lparr>media_budget := b\<rparr>, 0, [])" for t b
    by (simp add: transmit_loop.simps [of t "p\<lparr>media_budget := b\<rparr>"])
  have e: "s32 (clk 0 - clk0 1) = clk 0 - clk0 1" using assms by (intro s32_id) auto
  have "0 \<le> min (clk 0 - clk0 1) 30" "min (clk 0 - clk0 1) 30 \<le> 500" using assms(1) by simp_all
  then have a: "alr_detector_bytes_sent s alr_detector_create 0 (min (clk 0 - clk0 1) 30) = None" for s
    by (simp add: alr_detector_bytes_sent_def alr_detector_create_def init_interval_budget_def zero_budget_def set_target_rate_kbps_def
      use_budget_def increase_budget_def budget_level_precent_def Let_def s32_def)
  have "pace_try_transmit (clk 1) p (clk 0) = None"
    using assms(1) l a by (simp add: pace_try_transmit_def Let_def e f(2,3) pace_target_def pacer_queue_bytes_def q(3) del: One_nat_def)
  then show ?thesis
    by (simp add: sender_cc_heartbeat_def p_def)
qed


text \<open>A REMB as the receiver sends it.\<close>

lemma remb_feedback_ok:
  assumes "loaded_wf s" and "sc_strm cc = Some s" and "msg_ok msg" and "\<not> has_flag msg proxy_ts_msg" and "length (samples stack) = MAX_FEELBACK_COUNT"
  shows "feedback_ok e qsort clk start stack cc (msg_enc e msg)"
proof -
  obtain s1 where s1: "sender_load e s (msg_enc e msg) = Some s1" "loaded_wf s1" "unread (s1\<lparr>wptr := used s1\<rparr>) = msg_enc e msg @ []"
    using sender_load_ok [OF assms(1), of e "msg_enc e msg"] by auto
  obtain s2 where s2: "feedback_msg_decode e (s1\<lparr>wptr := used s1\<rparr>) stack = Some (s2, msg_merge stack msg)"
    using feedback_msg_decode_enc [OF s1(2) [unfolded loaded_wf_def] assms(3,5) s1(3)] by blast
  have "feedback_msg_decode e s1 stack = Some (s2\<lparr>wptr := wptr s1\<rparr>, msg_merge stack msg)"
    using feedback_msg_decode_wptr [where s = "s1\<lparr>wptr := used s1\<rparr>" and w = "wptr s1" and m = stack and e = e] s2 by simp
  moreover have "\<not> has_flag (msg_merge stack msg) proxy_ts_msg"
    using assms(4) by (simp add: msg_merge_def merge_remb_def merge_loss_def merge_proxy_def has_flag_def)
  ultimately show ?thesis
    using s1(1) assms(2) by (simp add: feedback_ok_def sender_message_def)
qed


end
