(* ===== verification/Strm_Codec.thy ===== *)
theory Strm_Codec
  imports Bin_Stream
begin

text \<open>
  Sequences of writes and reads on a \<open>bin_stream\<close>, for the codecs of \<^verbatim>\<open>sim_transport/sim_proto.inl\<close>. A
  received datagram is copied into a stream whose \<open>used\<close> is set and whose \<open>wptr\<close> is not, so
  reading is stated on \<open>readable\<close> streams, which say nothing of \<open>wptr\<close>.

  \<open>writes w bs\<close>: on every well-formed stream \<open>w\<close> appends \<open>bs\<close>. \<open>reads r bs v\<close>: on every readable stream
  whose unread bytes begin with \<open>bs\<close>, \<open>r\<close> consumes exactly \<open>bs\<close> and returns \<open>v\<close>. \<open>read_safe r P\<close>: on
  every readable stream \<open>r\<close> stays inside the buffer and returns a value with \<open>P\<close>. Each has a rule
  for sequences, so that a codec's lemma follows the code's own order of fields.
\<close>

definition readable :: "bin_stream \<Rightarrow> bool" where
  "readable s \<longleftrightarrow> length (data s) = strm_size s \<and> rptr s = rsize s \<and> rsize s \<le> used s \<and> used s \<le> strm_size s"

lemma strm_wf_readable: "strm_wf s \<Longrightarrow> readable s"
  by (simp add: strm_wf_def readable_def)

definition writes :: "(bin_stream \<Rightarrow> bin_stream option) \<Rightarrow> u8 list \<Rightarrow> bool" where
  "writes w bs \<longleftrightarrow> (\<forall>s. strm_wf s \<longrightarrow> (\<exists>s'. w s = Some s' \<and> strm_wf s' \<and> rsize s' = rsize s \<and> written s' = written s @ bs))"

definition reads :: "(bin_stream \<Rightarrow> (bin_stream \<times> 'a) option) \<Rightarrow> u8 list \<Rightarrow> 'a \<Rightarrow> bool" where
  "reads r bs v \<longleftrightarrow> (\<forall>s rest. readable s \<longrightarrow> unread s = bs @ rest \<longrightarrow>
     (\<exists>s'. r s = Some (s', v) \<and> readable s' \<and> unread s' = rest \<and> written s' = written s))"

definition read_safe :: "(bin_stream \<Rightarrow> (bin_stream \<times> 'a) option) \<Rightarrow> ('a \<Rightarrow> bool) \<Rightarrow> bool" where
  "read_safe r P \<longleftrightarrow> (\<forall>s. readable s \<longrightarrow> (\<exists>s' v. r s = Some (s', v) \<and> readable s' \<and> written s' = written s \<and> P v))"

subsection \<open>Sequences\<close>

lemma writes_bind: "writes w bs \<Longrightarrow> writes w' cs \<Longrightarrow> writes (\<lambda>s. Option.bind (w s) w') (bs @ cs)"
  unfolding writes_def by (metis append_assoc bind.bind_lunit)

lemma writes_Nil: "writes Some []"
  by (simp add: writes_def)

lemma writes_if: "(b \<Longrightarrow> writes w bs) \<Longrightarrow> (\<not> b \<Longrightarrow> writes w' cs) \<Longrightarrow> writes (\<lambda>s. if b then w s else w' s) (if b then bs else cs)"
  by simp

lemma reads_bind:
  assumes "reads r bs v" and "reads (f v) cs w"
  shows "reads (\<lambda>s. Option.bind (r s) (\<lambda>(s, x). f x s)) (bs @ cs) w"
  unfolding reads_def
proof (intro allI impI)
  fix s rest assume s: "readable s" "unread s = (bs @ cs) @ rest"
  then obtain s1 where s1: "r s = Some (s1, v)" "readable s1" "unread s1 = cs @ rest" "written s1 = written s"
    using assms(1) unfolding reads_def by (metis append_assoc)
  then obtain s2 where "f v s1 = Some (s2, w)" "readable s2" "unread s2 = rest" "written s2 = written s"
    using assms(2) unfolding reads_def by metis
  with s1(1) show "\<exists>s'. Option.bind (r s) (\<lambda>(s, x). f x s) = Some (s', w) \<and> readable s' \<and> unread s' = rest \<and> written s' = written s"
    by simp
qed

lemma reads_return: "reads (\<lambda>s. Some (s, v)) [] v"
  by (simp add: reads_def)

lemma read_safe_bind:
  assumes "read_safe r P" and "\<And>x. P x \<Longrightarrow> read_safe (f x) Q"
  shows "read_safe (\<lambda>s. Option.bind (r s) (\<lambda>(s, x). f x s)) Q"
  unfolding read_safe_def
proof (intro allI impI)
  fix s assume "readable s"
  then obtain s1 x where s1: "r s = Some (s1, x)" "readable s1" "written s1 = written s" "P x"
    using assms(1) unfolding read_safe_def by metis
  then obtain s2 w where "f x s1 = Some (s2, w)" "readable s2" "written s2 = written s" "Q w"
    using assms(2) [OF s1(4)] unfolding read_safe_def by metis
  with s1(1) show "\<exists>s' v. Option.bind (r s) (\<lambda>(s, x). f x s) = Some (s', v) \<and> readable s' \<and> written s' = written s \<and> Q v"
    by simp
qed

lemma read_safe_return: "P v \<Longrightarrow> read_safe (\<lambda>s. Some (s, v)) P"
  by (simp add: read_safe_def)

lemma read_safe_if: "(b \<Longrightarrow> read_safe r P) \<Longrightarrow> (\<not> b \<Longrightarrow> read_safe r' P) \<Longrightarrow> read_safe (\<lambda>s. if b then r s else r' s) P"
  by (cases b) simp_all

subsection \<open>Single fields\<close>

lemma unread_readable: "readable s \<Longrightarrow> length (unread s) = used s - rsize s"
  by (auto simp: unread_def written_def readable_def)

lemma peek_readable:
  assumes "readable s" and "unread s = bs @ rest"
  shows "peek (rptr s) (length bs) (data s) = Some bs" and "rsize s + length bs \<le> used s"
    and "readable (s\<lparr>rptr := rptr s + length bs, rsize := rsize s + length bs\<rparr>)"
    and "unread (s\<lparr>rptr := rptr s + length bs, rsize := rsize s + length bs\<rparr>) = rest"
proof -
  have len: "length bs \<le> used s - rsize s"
    using unread_readable [OF assms(1)] assms(2) by simp
  then show le: "rsize s + length bs \<le> used s"
    using assms(1) unfolding readable_def by linarith
  have "take (length bs) (drop (rsize s) (data s)) = take (length bs) (unread s)"
    using le by (simp add: unread_def written_def drop_take)
  then show "peek (rptr s) (length bs) (data s) = Some bs"
    using le assms by (simp add: peek_def readable_def)
  show "readable (s\<lparr>rptr := rptr s + length bs, rsize := rsize s + length bs\<rparr>)"
    using assms(1) le by (simp add: readable_def)
  have "drop (length bs) (unread s) = rest"
    by (simp add: assms(2))
  then show "unread (s\<lparr>rptr := rptr s + length bs, rsize := rsize s + length bs\<rparr>) = rest"
    by (simp add: unread_def written_def add.commute)
qed

lemma reads_bytes: "length bs = n \<Longrightarrow> reads (read_bytes n get zero) bs (get bs)"
  using peek_readable by (fastforce simp: reads_def read_bytes_def written_def)

lemma read_safe_bytes: "read_safe (read_bytes n get zero) (\<lambda>_. True)"
  unfolding read_safe_def
proof (intro allI impI)
  fix s assume s: "readable s"
  show "\<exists>s' v. read_bytes n get zero s = Some (s', v) \<and> readable s' \<and> written s' = written s \<and> True"
  proof (cases "used s < rsize s + n")
    case True
    then show ?thesis using s by (simp add: read_bytes_def)
  next
    case False
    then have "length (take n (unread s)) = n"
      using unread_readable [OF s] by simp
    then show ?thesis
      using reads_bytes [of "take n (unread s)" n get zero] s unfolding reads_def by (metis append_take_drop_id)
  qed
qed

lemma read_safe_mach [intro, simp]:
  "read_safe mach_uint8_read (\<lambda>_. True)" "read_safe (mach_uint16_read e) (\<lambda>_. True)"
  "read_safe (mach_uint32_read e) (\<lambda>_. True)" "read_safe (mach_int64_read e) (\<lambda>_. True)"
  by (simp_all add: mach_uint8_read_def [abs_def] mach_uint16_read_def [abs_def] mach_uint32_read_def [abs_def]
      mach_int64_read_def [abs_def] read_safe_bytes)

lemma reads_mach:
  "reads mach_uint8_read [v8] v8" "reads (mach_uint16_read e) (mach_put_2 e v16) v16"
  "reads (mach_uint32_read e) (mach_put_4 e v32) v32"
  "- 9223372036854775808 \<le> v64 \<Longrightarrow> v64 < 9223372036854775808 \<Longrightarrow> reads (mach_int64_read e) (mach_put_8 e (word_of_int v64)) v64"
  using reads_bytes [of "[v8]" 1 "\<lambda>p. p ! 0" 0]
    reads_bytes [of "mach_put_2 e v16" 2 "mach_get_2 e" 0]
    reads_bytes [of "mach_put_4 e v32" 4 "mach_get_4 e" 0]
    reads_bytes [of "mach_put_8 e (word_of_int v64)" 8 "\<lambda>p. sint (mach_get_8 e p)" 0]
  by (simp_all add: mach_uint8_read_def [abs_def] mach_uint16_read_def [abs_def] mach_uint32_read_def [abs_def]
      mach_int64_read_def [abs_def] sint_of_int)

lemma writes_mach:
  "writes (mach_uint8_write e v8) [v8]" "writes (mach_uint16_write e v16) (mach_put_2 e v16)"
  "writes (mach_uint32_write e v32) (mach_put_4 e v32)" "writes (mach_int64_write e v64) (mach_put_8 e (word_of_int v64))"
  "writes (mach_data_write e bs) (mach_put_2 e (word_of_nat (length bs)) @ bs)"
  unfolding writes_def
  using c_u8.wr_enc c_u16.wr_enc c_u32.wr_enc c_i64.wr_enc data_write_enc by blast+

lemma reads_data:
  assumes "length bs \<le> cap" and "cap < 65536"
  shows "reads (mach_data_read e cap) (mach_put_2 e (word_of_nat (length bs)) @ bs) (word_of_nat (length bs), bs)"
  unfolding reads_def
proof (intro allI impI)
  fix s rest assume s: "readable s" "unread s = (mach_put_2 e (word_of_nat (length bs)) @ bs) @ rest"
  then obtain s1 where s1: "mach_uint16_read e s = Some (s1, word_of_nat (length bs))" "readable s1" "unread s1 = bs @ rest"
      "written s1 = written s"
    using reads_mach(2) [of e "word_of_nat (length bs)"] unfolding reads_def by auto
  have len: "unat (word_of_nat (length bs) :: u16) = length bs"
    using assms by (simp add: unat_of_nat)
  show "\<exists>s'. mach_data_read e cap s = Some (s', (word_of_nat (length bs), bs)) \<and> readable s' \<and> unread s' = rest \<and> written s' = written s"
    using s1 peek_readable [OF s1(2,3)] assms(1) by (auto simp: mach_data_read_def len written_def)
qed

text \<open>What a data read answers: the error value and nothing, or the length and that many bytes.\<close>

lemma read_safe_data:
  "read_safe (mach_data_read e cap) (\<lambda>(len, bs). len = READ_DATA_ERROR \<and> bs = [] \<or> unat len = length bs \<and> length bs \<le> cap)"
  unfolding read_safe_def
proof (intro allI impI)
  fix s assume s: "readable s"
  obtain s1 len where s1: "mach_uint16_read e s = Some (s1, len)" "readable s1" "written s1 = written s"
    using read_safe_mach(2) [of e] s unfolding read_safe_def by blast
  show "\<exists>s' v. mach_data_read e cap s = Some (s', v) \<and> readable s' \<and> written s' = written s
    \<and> (case v of (len, bs) \<Rightarrow> len = READ_DATA_ERROR \<and> bs = [] \<or> unat len = length bs \<and> length bs \<le> cap)"
  proof (cases "cap < unat len \<or> used s1 < rsize s1 + unat len")
    case True
    then show ?thesis using s1 by (simp add: mach_data_read_def)
  next
    case False
    define bs where "bs = take (unat len) (unread s1)"
    have "length bs = unat len"
      using unread_readable [OF s1(2)] False unfolding bs_def by auto
    moreover have "unread s1 = bs @ drop (unat len) (unread s1)"
      by (simp add: bs_def)
    ultimately show ?thesis
      using peek_readable [OF s1(2), of bs] s1 False by (auto simp: mach_data_read_def written_def)
  qed
qed

end
