(* ===== verification/Sim_Proto.thy ===== *)
theory Sim_Proto
  imports Strm_Codec Crc
begin

text \<open>
  \<^verbatim>\<open>sim_transport/sim_proto.h\<close>, \<^verbatim>\<open>.inl\<close> and \<^verbatim>\<open>.c\<close>: the messages of the simulated transport, a header, a body
  whose type the header's \<open>mid\<close> selects, and a CRC of both. A \<^verbatim>\<open>void*\<close> body is a value of
  \<open>sim_body\<close>; a body of another type than \<open>mid\<close> says is \<open>None\<close>, as is an access beyond one of the
  fixed arrays (token 128, video data 1000, feedback 1000, nack 80).

  The lemmas: what each codec appends and what it reads back, that no datagram makes a decoder
  leave its buffers, and that a datagram of which one byte has changed is refused.
\<close>

subsection \<open>Messages\<close>

abbreviation MIN_MSG_ID :: u8 where "MIN_MSG_ID \<equiv> 0x10"
abbreviation SIM_CONNECT :: u8 where "SIM_CONNECT \<equiv> 0x11"
abbreviation SIM_CONNECT_ACK :: u8 where "SIM_CONNECT_ACK \<equiv> 0x12"
abbreviation SIM_DISCONNECT :: u8 where "SIM_DISCONNECT \<equiv> 0x13"
abbreviation SIM_DISCONNECT_ACK :: u8 where "SIM_DISCONNECT_ACK \<equiv> 0x14"
abbreviation SIM_PING :: u8 where "SIM_PING \<equiv> 0x15"
abbreviation SIM_PONG :: u8 where "SIM_PONG \<equiv> 0x16"
abbreviation SIM_SEG :: u8 where "SIM_SEG \<equiv> 0x17"
abbreviation SIM_SEG_ACK :: u8 where "SIM_SEG_ACK \<equiv> 0x18"
abbreviation SIM_FEEDBACK :: u8 where "SIM_FEEDBACK \<equiv> 0x19"
abbreviation MAX_MSG_ID :: u8 where "MAX_MSG_ID \<equiv> 0x1a"

abbreviation protocol_ver :: u8 where "protocol_ver \<equiv> 0x01"

record sim_header =
  h_ver :: u8
  h_mid :: u8
  h_uid :: u32

definition INIT_SIM_HEADER :: "u8 \<Rightarrow> u32 \<Rightarrow> sim_header" where
  "INIT_SIM_HEADER msg_id userid = \<lparr>h_ver = protocol_ver, h_mid = msg_id, h_uid = userid\<rparr>"

abbreviation SIM_HEADER_SIZE :: nat where "SIM_HEADER_SIZE \<equiv> 6"
abbreviation SIM_VIDEO_SIZE :: nat where "SIM_VIDEO_SIZE \<equiv> 1000"
abbreviation SIM_TOKEN_SIZE :: nat where "SIM_TOKEN_SIZE \<equiv> 128"
abbreviation NACK_NUM :: nat where "NACK_NUM \<equiv> 80"
abbreviation SIM_FEEDBACK_SIZE :: nat where "SIM_FEEDBACK_SIZE \<equiv> 1000"
abbreviation SIM_SEGMENT_HEADER_SIZE :: nat where "SIM_SEGMENT_HEADER_SIZE \<equiv> SIM_HEADER_SIZE + 24"

record sim_connect =
  con_cid :: u32
  token_size :: u16
  token :: "u8 list"

record sim_connect_ack =
  cack_cid :: u32
  cack_result :: u32

record sim_disconnect =
  dis_cid :: u32

record sim_segment =
  seg_packet_id :: u32
  seg_fid :: u32
  seg_timestamp :: u32
  seg_index :: u16
  seg_total :: u16
  seg_ftype :: u8
  seg_payload_type :: u8
  seg_remb :: u8
  seg_send_ts :: u16
  seg_transport_seq :: u16
  seg_data_size :: u16
  seg_data :: "u8 list"

record sim_segment_ack =
  sack_base :: u32
  sack_acked :: u32
  nack_num :: u8
  nack :: "u16 list"

record sim_ping =
  ping_ts :: int

record sim_feedback =
  fb_base :: u32
  feedback_size :: u16
  feedback :: "u8 list"

datatype sim_body = Connect_Body sim_connect | Connect_Ack_Body sim_connect_ack | Disconnect_Body sim_disconnect
  | Ping_Body sim_ping | Segment_Body sim_segment | Segment_Ack_Body sim_segment_ack | Feedback_Body sim_feedback

subsection \<open>Byte arrays of a fixed size\<close>

text \<open>
  \<open>mach_data_write\<close> of the first \<open>n\<close> bytes of an array, and \<open>mach_data_read\<close> into an array, with the size
  field that the callers set to zero on \<open>READ_DATA_ERROR\<close>.
\<close>

definition array_write :: "env \<Rightarrow> u8 list \<Rightarrow> u16 \<Rightarrow> bin_stream \<Rightarrow> bin_stream option" where
  "array_write e arr n s = (if unat n \<le> length arr then mach_data_write e (take (unat n) arr) s else None)"

definition array_read :: "env \<Rightarrow> u8 list \<Rightarrow> bin_stream \<Rightarrow> (bin_stream \<times> u16 \<times> u8 list) option" where
  "array_read e arr s = do {
     (s, size, bs) \<leftarrow> mach_data_read e (length arr) s;
     Some (s, if size = READ_DATA_ERROR then 0 else size, bs @ drop (length bs) arr)
   }"

subsection \<open>Bodies\<close>

definition sim_connect_encode :: "env \<Rightarrow> bin_stream \<Rightarrow> sim_connect \<Rightarrow> bin_stream option" where
  "sim_connect_encode e strm body = do {
     strm \<leftarrow> mach_uint32_write e (con_cid body) strm;
     array_write e (token body) (token_size body) strm
   }"

definition sim_connect_decode :: "env \<Rightarrow> sim_connect \<Rightarrow> bin_stream \<Rightarrow> (bin_stream \<times> sim_connect) option" where
  "sim_connect_decode e body strm = do {
     (strm, v) \<leftarrow> mach_uint32_read e strm;
     (strm, size, arr) \<leftarrow> array_read e (token body) strm;
     Some (strm, \<lparr>con_cid = v, token_size = size, token = arr\<rparr>)
   }"

definition sim_connect_ack_encode :: "env \<Rightarrow> bin_stream \<Rightarrow> sim_connect_ack \<Rightarrow> bin_stream option" where
  "sim_connect_ack_encode e strm body = do {
     strm \<leftarrow> mach_uint32_write e (cack_cid body) strm;
     mach_uint32_write e (cack_result body) strm
   }"

definition sim_connect_ack_decode :: "env \<Rightarrow> bin_stream \<Rightarrow> (bin_stream \<times> sim_connect_ack) option" where
  "sim_connect_ack_decode e strm = do {
     (strm, c) \<leftarrow> mach_uint32_read e strm;
     (strm, r) \<leftarrow> mach_uint32_read e strm;
     Some (strm, \<lparr>cack_cid = c, cack_result = r\<rparr>)
   }"

definition sim_disconnect_encode :: "env \<Rightarrow> bin_stream \<Rightarrow> sim_disconnect \<Rightarrow> bin_stream option" where
  "sim_disconnect_encode e strm body = mach_uint32_write e (dis_cid body) strm"

definition sim_disconnect_decode :: "env \<Rightarrow> bin_stream \<Rightarrow> (bin_stream \<times> sim_disconnect) option" where
  "sim_disconnect_decode e strm = do {
     (strm, c) \<leftarrow> mach_uint32_read e strm;
     Some (strm, \<lparr>dis_cid = c\<rparr>)
   }"

definition sim_ping_encode :: "env \<Rightarrow> bin_stream \<Rightarrow> sim_ping \<Rightarrow> bin_stream option" where
  "sim_ping_encode e strm body = mach_int64_write e (ping_ts body) strm"

definition sim_ping_decode :: "env \<Rightarrow> bin_stream \<Rightarrow> (bin_stream \<times> sim_ping) option" where
  "sim_ping_decode e strm = do {
     (strm, t) \<leftarrow> mach_int64_read e strm;
     Some (strm, \<lparr>ping_ts = t\<rparr>)
   }"

definition sim_feedbak_encode :: "env \<Rightarrow> bin_stream \<Rightarrow> sim_feedback \<Rightarrow> bin_stream option" where
  "sim_feedbak_encode e strm body = do {
     strm \<leftarrow> mach_uint32_write e (fb_base body) strm;
     array_write e (feedback body) (feedback_size body) strm
   }"

definition sim_feedbak_decode :: "env \<Rightarrow> sim_feedback \<Rightarrow> bin_stream \<Rightarrow> (bin_stream \<times> sim_feedback) option" where
  "sim_feedbak_decode e body strm = do {
     (strm, v) \<leftarrow> mach_uint32_read e strm;
     (strm, size, arr) \<leftarrow> array_read e (feedback body) strm;
     Some (strm, \<lparr>fb_base = v, feedback_size = size, feedback = arr\<rparr>)
   }"

subsection \<open>Segments\<close>

text \<open>The bits of \<open>mask\<close> tell the widths of \<open>packet_id\<close>, \<open>fid\<close>, and \<open>index\<close> and \<open>total\<close>.\<close>

unbundle bit_operations_syntax

abbreviation U16_MAX :: nat where "U16_MAX \<equiv> 65535"
abbreviation U8_MAX :: nat where "U8_MAX \<equiv> 255"

definition seg_mask :: "sim_segment \<Rightarrow> u8" where
  "seg_mask body =
     (let mask = seg_ftype body AND 0x01;
          mask = (if U16_MAX < unat (seg_packet_id body) then mask OR push_bit 7 1 else mask);
          mask = (if U16_MAX < unat (seg_fid body) then mask OR push_bit 6 1 else mask);
          mask = (if U8_MAX < unat (seg_total body) then mask OR push_bit 5 1 else mask)
      in if seg_remb body = 0 then mask OR push_bit 4 1 else mask)"

definition seg_write_id :: "env \<Rightarrow> u32 \<Rightarrow> bin_stream \<Rightarrow> bin_stream option" where
  "seg_write_id e v s = (if U16_MAX < unat v then mach_uint32_write e v s else mach_uint16_write e (ucast v) s)"

definition seg_read_id :: "env \<Rightarrow> bool \<Rightarrow> bin_stream \<Rightarrow> (bin_stream \<times> u32) option" where
  "seg_read_id e wide s =
     (if wide then mach_uint32_read e s
      else do { (s, v16) \<leftarrow> mach_uint16_read e s; Some (s, ucast v16) })"

definition seg_write_index :: "env \<Rightarrow> sim_segment \<Rightarrow> bin_stream \<Rightarrow> bin_stream option" where
  "seg_write_index e body s =
     (if U8_MAX < unat (seg_total body)
      then do { s \<leftarrow> mach_uint16_write e (seg_index body) s; mach_uint16_write e (seg_total body) s }
      else do { s \<leftarrow> mach_uint8_write e (ucast (seg_index body)) s; mach_uint8_write e (ucast (seg_total body)) s })"

definition seg_read_index :: "env \<Rightarrow> bool \<Rightarrow> bin_stream \<Rightarrow> (bin_stream \<times> u16 \<times> u16) option" where
  "seg_read_index e wide s =
     (if wide
      then do { (s, i) \<leftarrow> mach_uint16_read e s; (s, t) \<leftarrow> mach_uint16_read e s; Some (s, i, t) }
      else do { (s, v8) \<leftarrow> mach_uint8_read s; (s, w8) \<leftarrow> mach_uint8_read s; Some (s, ucast v8, ucast w8) })"

definition sim_segment_encode :: "env \<Rightarrow> bin_stream \<Rightarrow> sim_segment \<Rightarrow> bin_stream option" where
  "sim_segment_encode e strm body = do {
     strm \<leftarrow> mach_uint8_write e (seg_mask body) strm;
     strm \<leftarrow> mach_uint8_write e (seg_payload_type body) strm;
     strm \<leftarrow> seg_write_id e (seg_packet_id body) strm;
     strm \<leftarrow> seg_write_id e (seg_fid body) strm;
     strm \<leftarrow> mach_uint32_write e (seg_timestamp body) strm;
     strm \<leftarrow> seg_write_index e body strm;
     strm \<leftarrow> mach_uint16_write e (seg_send_ts body) strm;
     strm \<leftarrow> mach_uint16_write e (seg_transport_seq body) strm;
     array_write e (seg_data body) (seg_data_size body) strm
   }"

definition sim_segment_decode :: "env \<Rightarrow> sim_segment \<Rightarrow> bin_stream \<Rightarrow> (bin_stream \<times> sim_segment) option" where
  "sim_segment_decode e body strm = do {
     (strm, mask) \<leftarrow> mach_uint8_read strm;
     (strm, pt) \<leftarrow> mach_uint8_read strm;
     (strm, pid) \<leftarrow> seg_read_id e (mask AND push_bit 7 1 \<noteq> 0) strm;
     (strm, fid) \<leftarrow> seg_read_id e (mask AND push_bit 6 1 \<noteq> 0) strm;
     (strm, ts) \<leftarrow> mach_uint32_read e strm;
     (strm, i, t) \<leftarrow> seg_read_index e (mask AND push_bit 5 1 \<noteq> 0) strm;
     (strm, snd_ts) \<leftarrow> mach_uint16_read e strm;
     (strm, q) \<leftarrow> mach_uint16_read e strm;
     (strm, size, arr) \<leftarrow> array_read e (seg_data body) strm;
     Some (strm, \<lparr>seg_packet_id = pid, seg_fid = fid, seg_timestamp = ts, seg_index = i, seg_total = t,
       seg_ftype = mask AND 0x01, seg_payload_type = pt, seg_remb = (if mask AND push_bit 4 1 \<noteq> 0 then 0 else 0xff),
       seg_send_ts = snd_ts, seg_transport_seq = q, seg_data_size = size, seg_data = arr\<rparr>)
   }"

subsection \<open>Acknowledgements\<close>

text \<open>\<open>i\<close> counts up to \<open>nack_num\<close>; \<open>n\<close> is the number of iterations left.\<close>

fun write_nacks :: "env \<Rightarrow> u16 list \<Rightarrow> nat \<Rightarrow> nat \<Rightarrow> bin_stream \<Rightarrow> bin_stream option" where
  "write_nacks e arr i 0 s = Some s"
| "write_nacks e arr i (Suc n) s =
     (if i < length arr then do { s \<leftarrow> mach_uint16_write e (arr ! i) s; write_nacks e arr (i + 1) n s } else None)"

fun read_nacks :: "env \<Rightarrow> nat \<Rightarrow> nat \<Rightarrow> u16 list \<Rightarrow> bin_stream \<Rightarrow> (bin_stream \<times> u16 list) option" where
  "read_nacks e i 0 arr s = Some (s, arr)"
| "read_nacks e i (Suc n) arr s =
     (if i < length arr then do { (s, v) \<leftarrow> mach_uint16_read e s; read_nacks e (i + 1) n (arr[i := v]) s } else None)"

definition sim_segment_ack_encode :: "env \<Rightarrow> bin_stream \<Rightarrow> sim_segment_ack \<Rightarrow> bin_stream option" where
  "sim_segment_ack_encode e strm body = do {
     strm \<leftarrow> mach_uint32_write e (sack_base body) strm;
     strm \<leftarrow> mach_uint32_write e (sack_acked body) strm;
     strm \<leftarrow> mach_uint8_write e (nack_num body) strm;
     write_nacks e (nack body) 0 (unat (nack_num body)) strm
   }"

definition sim_segment_ack_decode :: "env \<Rightarrow> sim_segment_ack \<Rightarrow> bin_stream \<Rightarrow> (bin_stream \<times> sim_segment_ack) option" where
  "sim_segment_ack_decode e body strm = do {
     (strm, b) \<leftarrow> mach_uint32_read e strm;
     (strm, a) \<leftarrow> mach_uint32_read e strm;
     (strm, v) \<leftarrow> mach_uint8_read strm;
     let n = su_min v (word_of_nat NACK_NUM);
     (strm, arr) \<leftarrow> read_nacks e 0 (unat n) (nack body) strm;
     Some (strm, \<lparr>sack_base = b, sack_acked = a, nack_num = n, nack = arr\<rparr>)
   }"

subsection \<open>Whole messages\<close>

abbreviation CRC_VAL :: u32 where "CRC_VAL \<equiv> 0x0e3dfc0a"

definition sim_encode_header :: "env \<Rightarrow> bin_stream \<Rightarrow> sim_header \<Rightarrow> bin_stream option" where
  "sim_encode_header e strm header = do {
     strm \<leftarrow> mach_uint8_write e (h_ver header) strm;
     strm \<leftarrow> mach_uint8_write e (h_mid header) strm;
     mach_uint32_write e (h_uid header) strm
   }"

text \<open>The second result is the return value; the header keeps its old value when the CRC is wrong.\<close>

definition sim_decode_header :: "env \<Rightarrow> bin_stream \<Rightarrow> sim_header \<Rightarrow> (bin_stream \<times> int \<times> sim_header) option" where
  "sim_decode_header e strm header =
     (if used strm < 4 then None
      else do {
        pos \<leftarrow> peek (used strm - 4) 4 (data strm);
        buf \<leftarrow> peek 0 (used strm - 4) (data strm);
        if mach_get_4 e pos = crc32 CRC_VAL buf
        then do {
          (strm, v) \<leftarrow> mach_uint8_read strm;
          (strm, m) \<leftarrow> mach_uint8_read strm;
          (strm, u) \<leftarrow> mach_uint32_read e strm;
          Some (strm, 0, \<lparr>h_ver = v, h_mid = m, h_uid = u\<rparr>)
        }
        else Some (strm, -1, header)
      })"

definition sim_encode_body :: "env \<Rightarrow> u8 \<Rightarrow> sim_body \<Rightarrow> bin_stream \<Rightarrow> bin_stream option" where
  "sim_encode_body e m body strm =
     (if m = SIM_CONNECT then (case body of Connect_Body b \<Rightarrow> sim_connect_encode e strm b | _ \<Rightarrow> None)
      else if m = SIM_CONNECT_ACK \<or> m = SIM_DISCONNECT_ACK
      then (case body of Connect_Ack_Body b \<Rightarrow> sim_connect_ack_encode e strm b | _ \<Rightarrow> None)
      else if m = SIM_DISCONNECT then (case body of Disconnect_Body b \<Rightarrow> sim_disconnect_encode e strm b | _ \<Rightarrow> None)
      else if m = SIM_PING \<or> m = SIM_PONG then (case body of Ping_Body b \<Rightarrow> sim_ping_encode e strm b | _ \<Rightarrow> None)
      else if m = SIM_SEG then (case body of Segment_Body b \<Rightarrow> sim_segment_encode e strm b | _ \<Rightarrow> None)
      else if m = SIM_SEG_ACK then (case body of Segment_Ack_Body b \<Rightarrow> sim_segment_ack_encode e strm b | _ \<Rightarrow> None)
      else if m = SIM_FEEDBACK then (case body of Feedback_Body b \<Rightarrow> sim_feedbak_encode e strm b | _ \<Rightarrow> None)
      else Some strm)"

definition sim_encode_msg :: "env \<Rightarrow> bin_stream \<Rightarrow> sim_header \<Rightarrow> sim_body \<Rightarrow> bin_stream option" where
  "sim_encode_msg e strm header body = do {
     let strm = bin_stream_rewind strm 1;
     strm \<leftarrow> sim_encode_header e strm header;
     strm \<leftarrow> sim_encode_body e (h_mid header) body strm;
     buf \<leftarrow> peek 0 (used strm) (data strm);
     mach_uint32_write e (crc32 CRC_VAL buf) strm
   }"

text \<open>\<open>body\<close> is the struct the caller passes, with what its memory holds before.\<close>

definition decoded :: "('a \<Rightarrow> sim_body) \<Rightarrow> (bin_stream \<times> 'a) option \<Rightarrow> (bin_stream \<times> int \<times> sim_body) option" where
  "decoded con r = map_option (\<lambda>(s, b). (s, 0, con b)) r"

definition sim_decode_msg :: "env \<Rightarrow> bin_stream \<Rightarrow> sim_header \<Rightarrow> sim_body \<Rightarrow> (bin_stream \<times> int \<times> sim_body) option" where
  "sim_decode_msg e strm header body =
     (let m = h_mid header
      in if m = SIM_CONNECT then (case body of Connect_Body b \<Rightarrow> decoded Connect_Body (sim_connect_decode e b strm) | _ \<Rightarrow> None)
      else if m = SIM_CONNECT_ACK \<or> m = SIM_DISCONNECT_ACK
      then (case body of Connect_Ack_Body _ \<Rightarrow> decoded Connect_Ack_Body (sim_connect_ack_decode e strm) | _ \<Rightarrow> None)
      else if m = SIM_DISCONNECT
      then (case body of Disconnect_Body _ \<Rightarrow> decoded Disconnect_Body (sim_disconnect_decode e strm) | _ \<Rightarrow> None)
      else if m = SIM_PING \<or> m = SIM_PONG then (case body of Ping_Body _ \<Rightarrow> decoded Ping_Body (sim_ping_decode e strm) | _ \<Rightarrow> None)
      else if m = SIM_SEG then (case body of Segment_Body b \<Rightarrow> decoded Segment_Body (sim_segment_decode e b strm) | _ \<Rightarrow> None)
      else if m = SIM_SEG_ACK
      then (case body of Segment_Ack_Body b \<Rightarrow> decoded Segment_Ack_Body (sim_segment_ack_decode e b strm) | _ \<Rightarrow> None)
      else if m = SIM_FEEDBACK then (case body of Feedback_Body b \<Rightarrow> decoded Feedback_Body (sim_feedbak_decode e b strm) | _ \<Rightarrow> None)
      else Some (strm, -1, body))"

definition sim_get_msg_name :: "u8 \<Rightarrow> string" where
  "sim_get_msg_name msg_id =
     (if msg_id = SIM_CONNECT then ''SIM_CONNECT''
      else if msg_id = SIM_CONNECT_ACK then ''SIM_CONNECT_ACK''
      else if msg_id = SIM_DISCONNECT then ''SIM_DISCONNECT''
      else if msg_id = SIM_DISCONNECT_ACK then ''SIM_DISCONNECT_ACK''
      else if msg_id = SIM_PING then ''SIM_PING''
      else if msg_id = SIM_PONG then ''SIM_PONG''
      else if msg_id = SIM_SEG then ''SIM_SEG''
      else if msg_id = SIM_SEG_ACK then ''SIM_SEG_ACK''
      else if msg_id = SIM_FEEDBACK then ''SIM_FEEDBACK''
      else ''unknown message'')"

text \<open>
  A datagram arrives: the session's loop rewinds its stream, the socket copies the bytes to \<open>data\<close>, and
  \<open>used\<close> is set.
\<close>

definition datagram_load :: "bin_stream \<Rightarrow> u8 list \<Rightarrow> bin_stream option" where
  "datagram_load strm d = do {
     let strm = bin_stream_rewind strm 1;
     arr \<leftarrow> poke 0 d (data strm);
     Some (strm\<lparr>data := arr, used := length d\<rparr>)
   }"

subsection \<open>Encodings and what is read back\<close>

definition array_enc :: "env \<Rightarrow> u8 list \<Rightarrow> u16 \<Rightarrow> u8 list" where
  "array_enc e arr n = mach_put_2 e n @ take (unat n) arr"

text \<open>What an array holds after a read of \<open>n\<close> bytes of \<open>arr\<close>.\<close>

definition array_over :: "u8 list \<Rightarrow> u16 \<Rightarrow> u8 list \<Rightarrow> u8 list" where
  "array_over arr n old = take (unat n) arr @ drop (unat n) old"

lemma array_writes: "unat n \<le> length arr \<Longrightarrow> writes (array_write e arr n) (array_enc e arr n)"
  using writes_mach(5) [of e "take (unat n) arr"] by (simp add: array_write_def [abs_def] array_enc_def min_absorb2)

lemma array_reads:
  assumes "unat n \<le> length arr" and "unat n \<le> length old" and "length old < 65535"
  shows "reads (array_read e old) (array_enc e arr n) (n, array_over arr n old)"
proof -
  have n: "word_of_nat (length (take (unat n) arr)) = n"
    using assms(1) by (simp add: min_absorb2)
  have "n \<noteq> READ_DATA_ERROR"
    using assms(2,3) by auto
  then have "reads (\<lambda>s. do { (s, size, bs) \<leftarrow> mach_data_read e (length old) s;
      Some (s, if size = READ_DATA_ERROR then 0 else size, bs @ drop (length bs) old) })
    ((mach_put_2 e n @ take (unat n) arr) @ []) (n, array_over arr n old)"
    using reads_data [of "take (unat n) arr" "length old" e] assms n
    by (intro reads_bind [where v = "(n, take (unat n) arr)"])
      (auto simp: array_over_def min_absorb2 intro: reads_return)
  then show ?thesis
    by (simp add: array_read_def [abs_def] array_enc_def)
qed

lemma array_read_safe:
  "length arr < 65535 \<Longrightarrow> read_safe (array_read e arr) (\<lambda>(n, arr'). unat n \<le> length arr \<and> length arr' = length arr)"
  unfolding array_read_def [abs_def]
  by (rule read_safe_bind [OF read_safe_data]) (auto intro!: read_safe_return)

lemma and_one_cases: "(x :: u8) AND 1 = 0 \<or> x AND 1 = 1"
  by (simp add: and_one_eq mod_2_eq_odd)

lemma seg_mask_bits:
  "seg_mask b AND push_bit 7 1 \<noteq> 0 \<longleftrightarrow> U16_MAX < unat (seg_packet_id b)"
  "seg_mask b AND push_bit 6 1 \<noteq> 0 \<longleftrightarrow> U16_MAX < unat (seg_fid b)"
  "seg_mask b AND push_bit 5 1 \<noteq> 0 \<longleftrightarrow> U8_MAX < unat (seg_total b)"
  "seg_mask b AND push_bit 4 1 \<noteq> 0 \<longleftrightarrow> seg_remb b = 0"
  "seg_mask b AND 1 = seg_ftype b AND 1"
  using and_one_cases [of "seg_ftype b"] by (auto simp: seg_mask_def Let_def)

definition id_enc :: "env \<Rightarrow> u32 \<Rightarrow> u8 list" where
  "id_enc e v = (if U16_MAX < unat v then mach_put_4 e v else mach_put_2 e (ucast v))"

definition index_enc :: "env \<Rightarrow> sim_segment \<Rightarrow> u8 list" where
  "index_enc e b =
     (if U8_MAX < unat (seg_total b) then mach_put_2 e (seg_index b) @ mach_put_2 e (seg_total b)
      else [ucast (seg_index b)] @ [ucast (seg_total b)])"

definition segment_enc :: "env \<Rightarrow> sim_segment \<Rightarrow> u8 list" where
  "segment_enc e b = [seg_mask b] @ [seg_payload_type b] @ id_enc e (seg_packet_id b) @ id_enc e (seg_fid b)
     @ mach_put_4 e (seg_timestamp b) @ index_enc e b @ mach_put_2 e (seg_send_ts b) @ mach_put_2 e (seg_transport_seq b)
     @ array_enc e (seg_data b) (seg_data_size b)"

lemma ucast_short: "unat (v :: u32) \<le> 65535 \<Longrightarrow> ucast (ucast v :: u16) = v"
  "unat (w :: u16) \<le> 255 \<Longrightarrow> ucast (ucast w :: u8) = w"
  by (simp_all add: word_unat_eq_iff unsigned_ucast_eq unsigned_take_bit_eq take_bit_nat_eq_self)

lemma id_writes: "writes (seg_write_id e v) (id_enc e v)"
  unfolding seg_write_id_def [abs_def] id_enc_def by (rule writes_if) (rule writes_mach)+

lemma id_reads: "reads (seg_read_id e (U16_MAX < unat v)) (id_enc e v) v"
proof (cases "U16_MAX < unat v")
  case True
  then show ?thesis by (simp add: seg_read_id_def [abs_def] id_enc_def reads_mach)
next
  case False
  have "reads (\<lambda>s. do { (s, v16) \<leftarrow> mach_uint16_read e s; Some (s, ucast v16) }) (mach_put_2 e (ucast v) @ []) v"
    using False by (intro reads_bind [OF reads_mach(2)]) (simp add: ucast_short reads_return)
  with False show ?thesis by (simp add: seg_read_id_def [abs_def] id_enc_def)
qed

lemma index_writes: "writes (seg_write_index e b) (index_enc e b)"
  unfolding seg_write_index_def [abs_def] index_enc_def
  by (rule writes_if) (rule writes_bind writes_mach)+

lemma index_reads:
  assumes "unat (seg_total b) \<le> U8_MAX \<longrightarrow> unat (seg_index b) \<le> U8_MAX"
  shows "reads (seg_read_index e (U8_MAX < unat (seg_total b))) (index_enc e b) (seg_index b, seg_total b)"
proof (cases "U8_MAX < unat (seg_total b)")
  case True
  have "reads (\<lambda>s. do { (s, i) \<leftarrow> mach_uint16_read e s; (s, t) \<leftarrow> mach_uint16_read e s; Some (s, i, t) })
    (mach_put_2 e (seg_index b) @ mach_put_2 e (seg_total b) @ []) (seg_index b, seg_total b)"
    by (rule reads_bind reads_mach reads_return)+
  with True show ?thesis by (simp add: seg_read_index_def [abs_def] index_enc_def)
next
  case False
  have "reads (\<lambda>s. do { (s, v8) \<leftarrow> mach_uint8_read s; (s, w8) \<leftarrow> mach_uint8_read s; Some (s, ucast v8, ucast w8) })
    ([ucast (seg_index b)] @ [ucast (seg_total b)] @ []) (seg_index b, seg_total b)"
    using False assms by (intro reads_bind [OF reads_mach(1)]) (simp add: ucast_short reads_return)
  with False show ?thesis by (simp add: seg_read_index_def [abs_def] index_enc_def)
qed

lemma segment_writes: "unat (seg_data_size b) \<le> length (seg_data b) \<Longrightarrow> writes (\<lambda>s. sim_segment_encode e s b) (segment_enc e b)"
  unfolding sim_segment_encode_def [abs_def] segment_enc_def
  by (intro writes_bind writes_mach id_writes index_writes array_writes)

text \<open>A segment with room for its data, and whose index fits the width that \<open>total\<close> selects.\<close>

definition segment_ok :: "sim_segment \<Rightarrow> bool" where
  "segment_ok b \<longleftrightarrow> length (seg_data b) = SIM_VIDEO_SIZE \<and> unat (seg_data_size b) \<le> SIM_VIDEO_SIZE
     \<and> unat (seg_index b) < unat (seg_total b)"

definition segment_over :: "sim_segment \<Rightarrow> sim_segment \<Rightarrow> sim_segment" where
  "segment_over b old = b\<lparr>seg_ftype := seg_ftype b AND 1, seg_remb := (if seg_remb b = 0 then 0 else 0xff),
     seg_data := array_over (seg_data b) (seg_data_size b) (seg_data old)\<rparr>"

lemma segment_reads:
  assumes "segment_ok b" and "length (seg_data old) = SIM_VIDEO_SIZE"
  shows "reads (sim_segment_decode e old) (segment_enc e b) (segment_over b old)"
proof -
  have idx: "unat (seg_total b) \<le> U8_MAX \<longrightarrow> unat (seg_index b) \<le> U8_MAX"
    using assms(1) by (auto simp: segment_ok_def)
  have arr: "reads (array_read e (seg_data old)) (array_enc e (seg_data b) (seg_data_size b))
      (seg_data_size b, array_over (seg_data b) (seg_data_size b) (seg_data old))"
    using assms by (intro array_reads) (simp_all add: segment_ok_def)
  have "reads (sim_segment_decode e old) ([seg_mask b] @ [seg_payload_type b] @ id_enc e (seg_packet_id b) @ id_enc e (seg_fid b)
     @ mach_put_4 e (seg_timestamp b) @ index_enc e b @ mach_put_2 e (seg_send_ts b) @ mach_put_2 e (seg_transport_seq b)
     @ array_enc e (seg_data b) (seg_data_size b) @ []) (segment_over b old)"
    unfolding sim_segment_decode_def [abs_def]
    apply (rule reads_bind [OF reads_mach(1)])+
    unfolding seg_mask_bits
    apply (rule reads_bind [OF id_reads])+
    apply (rule reads_bind [OF reads_mach(3)])
    apply (rule reads_bind [OF index_reads [OF idx]], unfold prod.case)
    apply (rule reads_bind [OF reads_mach(2)])+
    apply (rule reads_bind [OF arr], unfold prod.case)
    apply (cases b, simp add: segment_over_def reads_return)
    done
  then show ?thesis by (simp add: segment_enc_def)
qed

lemma nacks_writes: "i + n \<le> length arr \<Longrightarrow> writes (write_nacks e arr i n) (concat (map (mach_put_2 e) (take n (drop i arr))))"
proof (induction n arbitrary: i)
  case 0
  have "write_nacks e arr i 0 = Some" by (rule ext) simp
  then show ?case by (simp add: writes_Nil)
next
  case (Suc n)
  then have "take (Suc n) (drop i arr) = arr ! i # take n (drop (Suc i) arr)"
    by (simp add: Cons_nth_drop_Suc [symmetric])
  moreover have "writes (\<lambda>s. Option.bind (mach_uint16_write e (arr ! i) s) (write_nacks e arr (i + 1) n))
      (mach_put_2 e (arr ! i) @ concat (map (mach_put_2 e) (take n (drop (i + 1) arr))))"
    using Suc by (intro writes_bind writes_mach) auto
  moreover have "write_nacks e arr i (Suc n) = (\<lambda>s. Option.bind (mach_uint16_write e (arr ! i) s) (write_nacks e arr (i + 1) n))"
    using Suc.prems by (intro ext) simp
  ultimately show ?case by simp
qed

lemma nacks_reads:
  "i + length xs \<le> length arr \<Longrightarrow>
    reads (read_nacks e i (length xs) arr) (concat (map (mach_put_2 e) xs)) (take i arr @ xs @ drop (i + length xs) arr)"
proof (induction xs arbitrary: i arr)
  case Nil
  have "read_nacks e i 0 arr = (\<lambda>s. Some (s, arr))" by (rule ext) simp
  then show ?case by (simp add: reads_return)
next
  case (Cons x xs)
  define arr' where "arr' = arr[i := x]"
  have IH: "reads (read_nacks e (i + 1) (length xs) arr') (concat (map (mach_put_2 e) xs))
      (take (i + 1) arr' @ xs @ drop (i + 1 + length xs) arr')"
    using Cons.IH [of "i + 1" arr'] Cons.prems by (simp add: arr'_def)
  have "reads (\<lambda>s. do { (s, v) \<leftarrow> mach_uint16_read e s; read_nacks e (i + 1) (length xs) (arr[i := v]) s })
      (mach_put_2 e x @ concat (map (mach_put_2 e) xs)) (take (i + 1) arr' @ xs @ drop (i + 1 + length xs) arr')"
    by (rule reads_bind [OF reads_mach(2)]) (use IH in \<open>simp only: arr'_def\<close>)
  moreover have "read_nacks e i (length (x # xs)) arr
      = (\<lambda>s. do { (s, v) \<leftarrow> mach_uint16_read e s; read_nacks e (i + 1) (length xs) (arr[i := v]) s })"
    using Cons.prems by (intro ext) simp
  moreover have "take (i + 1) arr' = take i arr @ [x]"
    using Cons.prems by (simp add: arr'_def take_Suc_conv_app_nth)
  ultimately show ?case
    by (simp add: arr'_def)
qed

lemma nacks_read_safe: "i + n \<le> length arr \<Longrightarrow> read_safe (read_nacks e i n arr) (\<lambda>arr'. length arr' = length arr)"
proof (induction n arbitrary: i arr)
  case 0
  have "read_nacks e i 0 arr = (\<lambda>s. Some (s, arr))" by (rule ext) simp
  then show ?case by (simp add: read_safe_return)
next
  case (Suc n)
  have "read_nacks e i (Suc n) arr = (\<lambda>s. do { (s, v) \<leftarrow> mach_uint16_read e s; read_nacks e (i + 1) n (arr[i := v]) s })"
    using Suc.prems by (intro ext) simp
  moreover have "read_safe (\<lambda>s. do { (s, v) \<leftarrow> mach_uint16_read e s; read_nacks e (i + 1) n (arr[i := v]) s })
      (\<lambda>arr'. length arr' = length arr)"
  proof (rule read_safe_bind [OF read_safe_mach(2)])
    fix v
    show "read_safe (read_nacks e (i + 1) n (arr[i := v])) (\<lambda>arr'. length arr' = length arr)"
      using Suc.IH [of "i + 1" "arr[i := v]"] Suc.prems by simp
  qed
  ultimately show ?case by simp
qed

subsection \<open>Bodies: shape, sizes and encoding\<close>

text \<open>A body of the type \<open>m\<close> selects, its arrays as long as the struct declares them.\<close>

fun body_shape :: "u8 \<Rightarrow> sim_body \<Rightarrow> bool" where
  "body_shape m (Connect_Body b) = (m = SIM_CONNECT \<and> length (token b) = SIM_TOKEN_SIZE)"
| "body_shape m (Connect_Ack_Body b) = (m = SIM_CONNECT_ACK \<or> m = SIM_DISCONNECT_ACK)"
| "body_shape m (Disconnect_Body b) = (m = SIM_DISCONNECT)"
| "body_shape m (Ping_Body b) = (m = SIM_PING \<or> m = SIM_PONG)"
| "body_shape m (Segment_Body b) = (m = SIM_SEG \<and> length (seg_data b) = SIM_VIDEO_SIZE)"
| "body_shape m (Segment_Ack_Body b) = (m = SIM_SEG_ACK \<and> length (nack b) = NACK_NUM)"
| "body_shape m (Feedback_Body b) = (m = SIM_FEEDBACK \<and> length (feedback b) = SIM_FEEDBACK_SIZE)"

text \<open>Its size fields stay within the arrays.\<close>

fun body_sizes :: "sim_body \<Rightarrow> bool" where
  "body_sizes (Connect_Body b) = (unat (token_size b) \<le> SIM_TOKEN_SIZE)"
| "body_sizes (Segment_Body b) = (unat (seg_data_size b) \<le> SIM_VIDEO_SIZE)"
| "body_sizes (Segment_Ack_Body b) = (unat (nack_num b) \<le> NACK_NUM)"
| "body_sizes (Feedback_Body b) = (unat (feedback_size b) \<le> SIM_FEEDBACK_SIZE)"
| "body_sizes _ = True"

text \<open>Its other fields are what the wire can carry: a 64 bit time, an index below the total.\<close>

fun body_fields :: "sim_body \<Rightarrow> bool" where
  "body_fields (Ping_Body b) = (- 9223372036854775808 \<le> ping_ts b \<and> ping_ts b < 9223372036854775808)"
| "body_fields (Segment_Body b) = (unat (seg_index b) < unat (seg_total b))"
| "body_fields _ = True"

fun body_enc :: "env \<Rightarrow> sim_body \<Rightarrow> u8 list" where
  "body_enc e (Connect_Body b) = mach_put_4 e (con_cid b) @ array_enc e (token b) (token_size b)"
| "body_enc e (Connect_Ack_Body b) = mach_put_4 e (cack_cid b) @ mach_put_4 e (cack_result b)"
| "body_enc e (Disconnect_Body b) = mach_put_4 e (dis_cid b)"
| "body_enc e (Ping_Body b) = mach_put_8 e (word_of_int (ping_ts b))"
| "body_enc e (Segment_Body b) = segment_enc e b"
| "body_enc e (Segment_Ack_Body b) = mach_put_4 e (sack_base b) @ mach_put_4 e (sack_acked b) @ [nack_num b]
     @ concat (map (mach_put_2 e) (take (unat (nack_num b)) (nack b)))"
| "body_enc e (Feedback_Body b) = mach_put_4 e (fb_base b) @ array_enc e (feedback b) (feedback_size b)"

lemma body_writes:
  assumes "body_shape m b" and "body_sizes b"
  shows "writes (sim_encode_body e m b) (body_enc e b)"
proof (cases b)
  case (Connect_Body x)
  then show ?thesis
    using assms by (auto simp: sim_encode_body_def [abs_def] sim_connect_encode_def intro!: writes_bind writes_mach array_writes)
next
  case (Feedback_Body x)
  then show ?thesis
    using assms by (auto simp: sim_encode_body_def [abs_def] sim_feedbak_encode_def intro!: writes_bind writes_mach array_writes)
next
  case (Segment_Body x)
  then show ?thesis
    using assms segment_writes [of x e] by (auto simp: sim_encode_body_def [abs_def])
next
  case (Segment_Ack_Body x)
  then show ?thesis
    using assms nacks_writes [of 0 "unat (nack_num x)" "nack x" e]
    by (auto simp: sim_encode_body_def [abs_def] sim_segment_ack_encode_def intro!: writes_bind [where bs = "[_]", simplified] writes_bind writes_mach)
qed (use assms in \<open>auto simp: sim_encode_body_def [abs_def] sim_connect_ack_encode_def sim_disconnect_encode_def
    sim_ping_encode_def intro!: writes_bind writes_mach\<close>)

text \<open>What a received body must hold of the one sent: every field, and the used part of its arrays.\<close>

fun same_message :: "sim_body \<Rightarrow> sim_body \<Rightarrow> bool" where
  "same_message (Connect_Body b) (Connect_Body c) = (con_cid c = con_cid b \<and> token_size c = token_size b
     \<and> take (unat (token_size b)) (token c) = take (unat (token_size b)) (token b))"
| "same_message (Connect_Ack_Body b) (Connect_Ack_Body c) = (c = b)"
| "same_message (Disconnect_Body b) (Disconnect_Body c) = (c = b)"
| "same_message (Ping_Body b) (Ping_Body c) = (c = b)"
| "same_message (Segment_Body b) (Segment_Body c) = (seg_packet_id c = seg_packet_id b \<and> seg_fid c = seg_fid b
     \<and> seg_timestamp c = seg_timestamp b \<and> seg_index c = seg_index b \<and> seg_total c = seg_total b
     \<and> seg_ftype c = seg_ftype b AND 1 \<and> seg_payload_type c = seg_payload_type b
     \<and> (seg_remb c = 0 \<longleftrightarrow> seg_remb b = 0) \<and> seg_send_ts c = seg_send_ts b \<and> seg_transport_seq c = seg_transport_seq b
     \<and> seg_data_size c = seg_data_size b
     \<and> take (unat (seg_data_size b)) (seg_data c) = take (unat (seg_data_size b)) (seg_data b))"
| "same_message (Segment_Ack_Body b) (Segment_Ack_Body c) = (sack_base c = sack_base b \<and> sack_acked c = sack_acked b
     \<and> nack_num c = nack_num b \<and> take (unat (nack_num b)) (nack c) = take (unat (nack_num b)) (nack b))"
| "same_message (Feedback_Body b) (Feedback_Body c) = (fb_base c = fb_base b \<and> feedback_size c = feedback_size b
     \<and> take (unat (feedback_size b)) (feedback c) = take (unat (feedback_size b)) (feedback b))"
| "same_message _ _ = False"

lemma decoded_reads: "reads r bs v \<Longrightarrow> reads (\<lambda>s. decoded con (r s)) bs (0, con v)"
  unfolding reads_def decoded_def by fastforce

lemma decoded_safe: "read_safe r P \<Longrightarrow> (\<And>v. P v \<Longrightarrow> Q (con v)) \<Longrightarrow> read_safe (\<lambda>s. decoded con (r s)) (\<lambda>(ret, b). Q b)"
  unfolding read_safe_def decoded_def by fastforce

lemma take_array_over [simp]: "unat n \<le> length arr \<Longrightarrow> take (unat n) (array_over arr n old) = take (unat n) arr"
  by (simp add: array_over_def min_absorb2)

lemma connect_reads:
  assumes "unat (token_size b) \<le> length (token b)" and "unat (token_size b) \<le> length (token old)" and "length (token old) < 65535"
  shows "reads (sim_connect_decode e old) (mach_put_4 e (con_cid b) @ array_enc e (token b) (token_size b))
    (b\<lparr>token := array_over (token b) (token_size b) (token old)\<rparr>)"
proof -
  have "reads (sim_connect_decode e old) (mach_put_4 e (con_cid b) @ array_enc e (token b) (token_size b) @ [])
    (b\<lparr>token := array_over (token b) (token_size b) (token old)\<rparr>)"
    unfolding sim_connect_decode_def [abs_def]
    apply (rule reads_bind [OF reads_mach(3)])
    apply (rule reads_bind [OF array_reads [OF assms]], unfold prod.case)
    apply (cases b, simp add: reads_return)
    done
  then show ?thesis by simp
qed

lemma feedbak_reads:
  assumes "unat (feedback_size b) \<le> length (feedback b)" and "unat (feedback_size b) \<le> length (feedback old)" and "length (feedback old) < 65535"
  shows "reads (sim_feedbak_decode e old) (mach_put_4 e (fb_base b) @ array_enc e (feedback b) (feedback_size b))
    (b\<lparr>feedback := array_over (feedback b) (feedback_size b) (feedback old)\<rparr>)"
proof -
  have "reads (sim_feedbak_decode e old) (mach_put_4 e (fb_base b) @ array_enc e (feedback b) (feedback_size b) @ [])
    (b\<lparr>feedback := array_over (feedback b) (feedback_size b) (feedback old)\<rparr>)"
    unfolding sim_feedbak_decode_def [abs_def]
    apply (rule reads_bind [OF reads_mach(3)])
    apply (rule reads_bind [OF array_reads [OF assms]], unfold prod.case)
    apply (cases b, simp add: reads_return)
    done
  then show ?thesis by simp
qed

lemma pair_reads:
  "reads (sim_connect_ack_decode e) (mach_put_4 e (cack_cid c) @ mach_put_4 e (cack_result c)) c"
  "reads (sim_disconnect_decode e) (mach_put_4 e (dis_cid d)) d"
proof -
  have "reads (sim_connect_ack_decode e) (mach_put_4 e (cack_cid c) @ mach_put_4 e (cack_result c) @ []) c"
    unfolding sim_connect_ack_decode_def [abs_def]
    by (rule reads_bind [OF reads_mach(3)])+ (cases c, simp add: reads_return)
  moreover have "reads (sim_disconnect_decode e) (mach_put_4 e (dis_cid d) @ []) d"
    unfolding sim_disconnect_decode_def [abs_def]
    by (rule reads_bind [OF reads_mach(3)]) (cases d, simp add: reads_return)
  ultimately show "reads (sim_connect_ack_decode e) (mach_put_4 e (cack_cid c) @ mach_put_4 e (cack_result c)) c"
    "reads (sim_disconnect_decode e) (mach_put_4 e (dis_cid d)) d" by simp_all
qed

lemma ping_reads:
  assumes "- 9223372036854775808 \<le> ping_ts b" and "ping_ts b < 9223372036854775808"
  shows "reads (sim_ping_decode e) (mach_put_8 e (word_of_int (ping_ts b))) b"
proof -
  have "reads (sim_ping_decode e) (mach_put_8 e (word_of_int (ping_ts b)) @ []) b"
    unfolding sim_ping_decode_def [abs_def]
    by (rule reads_bind [OF reads_mach(4) [OF assms]]) (cases b, simp add: reads_return)
  then show ?thesis by simp
qed

lemma segment_ack_reads:
  assumes "unat (nack_num b) \<le> NACK_NUM" and "length (nack b) = NACK_NUM" and "length (nack old) = NACK_NUM"
  shows "reads (sim_segment_ack_decode e old) (body_enc e (Segment_Ack_Body b))
    (b\<lparr>nack := take (unat (nack_num b)) (nack b) @ drop (unat (nack_num b)) (nack old)\<rparr>)"
proof -
  define xs where "xs = take (unat (nack_num b)) (nack b)"
  have lx: "length xs = unat (nack_num b)"
    using assms(1,2) by (simp add: xs_def)
  have n: "su_min (nack_num b) (word_of_nat NACK_NUM) = nack_num b"
    using assms(1) by (simp add: min_def word_le_nat_alt)
  have r: "reads (read_nacks e 0 (unat (nack_num b)) (nack old)) (concat (map (mach_put_2 e) xs))
      (xs @ drop (unat (nack_num b)) (nack old))"
    using nacks_reads [of 0 xs "nack old" e] lx assms by simp
  have "reads (sim_segment_ack_decode e old)
      (mach_put_4 e (sack_base b) @ mach_put_4 e (sack_acked b) @ [nack_num b] @ concat (map (mach_put_2 e) xs) @ [])
      (b\<lparr>nack := xs @ drop (unat (nack_num b)) (nack old)\<rparr>)"
    unfolding sim_segment_ack_decode_def [abs_def] Let_def
    apply (rule reads_bind [OF reads_mach(3)])+
    apply (rule reads_bind [OF reads_mach(1)])
    unfolding n
    apply (rule reads_bind [OF r])
    apply (cases b, simp add: reads_return)
    done
  then show ?thesis by (simp add: xs_def)
qed

lemma body_reads:
  assumes "body_shape m b" and "body_sizes b" and "body_fields b" and "body_shape m old"
    and "h_mid h = m"
  shows "\<exists>b'. reads (\<lambda>s. sim_decode_msg e s h old) (body_enc e b) (0, b') \<and> same_message b b'"
proof (cases b)
  case (Connect_Body x)
  then obtain o' where "old = Connect_Body o'" "length (token o') = SIM_TOKEN_SIZE" using assms by (cases old) auto
  then show ?thesis
    using assms Connect_Body decoded_reads [OF connect_reads [of x o' e], of Connect_Body]
    by (auto simp: sim_decode_msg_def [abs_def] intro!: exI [where x = "Connect_Body _"])
next
  case (Connect_Ack_Body x)
  then obtain o' where "old = Connect_Ack_Body o'" using assms by (cases old) auto
  then show ?thesis
    using assms Connect_Ack_Body decoded_reads [OF pair_reads(1) [of e x], of Connect_Ack_Body]
    by (auto simp: sim_decode_msg_def [abs_def] intro!: exI [where x = "Connect_Ack_Body x"])
next
  case (Disconnect_Body x)
  then obtain o' where "old = Disconnect_Body o'" using assms by (cases old) auto
  then show ?thesis
    using assms Disconnect_Body decoded_reads [OF pair_reads(2) [of e x], of Disconnect_Body]
    by (auto simp: sim_decode_msg_def [abs_def] intro!: exI [where x = "Disconnect_Body x"])
next
  case (Ping_Body x)
  then obtain o' where "old = Ping_Body o'" using assms by (cases old) auto
  then show ?thesis
    using assms Ping_Body decoded_reads [OF ping_reads [of x e], of Ping_Body]
    by (auto simp: sim_decode_msg_def [abs_def] intro!: exI [where x = "Ping_Body x"])
next
  case (Segment_Body x)
  then obtain o' where "old = Segment_Body o'" "length (seg_data o') = SIM_VIDEO_SIZE" using assms by (cases old) auto
  moreover have "segment_ok x"
    using assms Segment_Body by (simp add: segment_ok_def)
  ultimately show ?thesis
    using assms Segment_Body decoded_reads [OF segment_reads [of x o' e], of Segment_Body]
    by (auto simp: sim_decode_msg_def [abs_def] segment_over_def intro!: exI [where x = "Segment_Body (segment_over x o')"])
next
  case (Segment_Ack_Body x)
  then obtain o' where "old = Segment_Ack_Body o'" "length (nack o') = NACK_NUM" using assms by (cases old) auto
  then show ?thesis
    using assms Segment_Ack_Body decoded_reads [OF segment_ack_reads [of x o' e], of Segment_Ack_Body]
    by (auto simp: sim_decode_msg_def [abs_def] intro!: exI [where x = "Segment_Ack_Body _"])
next
  case (Feedback_Body x)
  then obtain o' where "old = Feedback_Body o'" "length (feedback o') = SIM_FEEDBACK_SIZE" using assms by (cases old) auto
  then show ?thesis
    using assms Feedback_Body decoded_reads [OF feedbak_reads [of x o' e], of Feedback_Body]
    by (auto simp: sim_decode_msg_def [abs_def] intro!: exI [where x = "Feedback_Body _"])
qed

subsection \<open>Any datagram is decoded within the arrays\<close>

lemma segment_decode_safe:
  "length (seg_data old) = SIM_VIDEO_SIZE \<Longrightarrow>
    read_safe (sim_segment_decode e old) (\<lambda>b. length (seg_data b) = SIM_VIDEO_SIZE \<and> unat (seg_data_size b) \<le> SIM_VIDEO_SIZE)"
proof -
  assume old: "length (seg_data old) = SIM_VIDEO_SIZE"
  have ids: "read_safe (seg_read_id e w) (\<lambda>_. True)" for w
    unfolding seg_read_id_def [abs_def] by (cases w) (auto intro: read_safe_bind [where P = "\<lambda>_. True"] read_safe_return)
  have idx: "read_safe (seg_read_index e w) (\<lambda>_. True)" for w
    unfolding seg_read_index_def [abs_def] by (cases w) (auto intro!: read_safe_bind [where P = "\<lambda>_. True"] read_safe_return)
  have arr: "read_safe (array_read e (seg_data old)) (\<lambda>(n, arr'). unat n \<le> SIM_VIDEO_SIZE \<and> length arr' = SIM_VIDEO_SIZE)"
    using array_read_safe [of "seg_data old" e] old by simp
  show ?thesis
    unfolding sim_segment_decode_def [abs_def]
    apply (rule read_safe_bind [OF read_safe_mach(1)])+
    apply (rule read_safe_bind [OF ids])+
    apply (rule read_safe_bind [OF read_safe_mach(3)])
    apply (rule read_safe_bind [OF idx], unfold split_paired_all prod.case)
    apply (rule read_safe_bind [OF read_safe_mach(2)])+
    apply (rule read_safe_bind [OF arr], unfold split_paired_all prod.case)
    apply (simp add: read_safe_return)
    done
qed

lemma segment_ack_decode_safe:
  "length (nack old) = NACK_NUM \<Longrightarrow>
    read_safe (sim_segment_ack_decode e old) (\<lambda>b. length (nack b) = NACK_NUM \<and> unat (nack_num b) \<le> NACK_NUM)"
proof -
  assume old: "length (nack old) = NACK_NUM"
  have m: "unat (su_min v (word_of_nat NACK_NUM)) \<le> NACK_NUM" for v :: u8
    by (simp add: min_def word_le_nat_alt)
  have ns: "read_safe (read_nacks e 0 (unat (su_min v (word_of_nat NACK_NUM))) (nack old)) (\<lambda>arr'. length arr' = NACK_NUM)" for v :: u8
    using nacks_read_safe [of 0 "unat (su_min v (word_of_nat NACK_NUM))" "nack old" e] m [of v] old by simp
  show ?thesis
    unfolding sim_segment_ack_decode_def [abs_def] Let_def
    apply (rule read_safe_bind [OF read_safe_mach(3)])+
    apply (rule read_safe_bind [OF read_safe_mach(1)])
    apply (rule read_safe_bind [OF ns])
    apply (rule read_safe_return)
    using m apply simp
    done
qed

lemma array_body_safe:
  "length (token oldc) = SIM_TOKEN_SIZE \<Longrightarrow>
    read_safe (sim_connect_decode e oldc) (\<lambda>b. length (token b) = SIM_TOKEN_SIZE \<and> unat (token_size b) \<le> SIM_TOKEN_SIZE)"
  "length (feedback oldf) = SIM_FEEDBACK_SIZE \<Longrightarrow>
    read_safe (sim_feedbak_decode e oldf) (\<lambda>b. length (feedback b) = SIM_FEEDBACK_SIZE \<and> unat (feedback_size b) \<le> SIM_FEEDBACK_SIZE)"
  using array_read_safe [of "token oldc" e] array_read_safe [of "feedback oldf" e]
  unfolding sim_connect_decode_def [abs_def] sim_feedbak_decode_def [abs_def]
  by (auto intro!: read_safe_bind [OF read_safe_mach(3)] read_safe_bind read_safe_return)

lemma plain_body_safe:
  "read_safe (sim_connect_ack_decode e) (\<lambda>_. True)" "read_safe (sim_disconnect_decode e) (\<lambda>_. True)"
  "read_safe (sim_ping_decode e) (\<lambda>_. True)"
  unfolding sim_connect_ack_decode_def [abs_def] sim_disconnect_decode_def [abs_def] sim_ping_decode_def [abs_def]
  by (auto intro!: read_safe_bind [where P = "\<lambda>_. True"] read_safe_return)

lemma body_read_safe:
  assumes "body_shape (h_mid h) old"
  shows "read_safe (\<lambda>s. sim_decode_msg e s h old) (\<lambda>(ret, b). ret = 0 \<and> body_shape (h_mid h) b \<and> body_sizes b)"
proof -
  have dec: "read_safe (\<lambda>s. decoded con (r s)) (\<lambda>(ret, b). ret = 0 \<and> Q b)"
    if "read_safe r P" "\<And>v. P v \<Longrightarrow> Q (con v)" for con Q and r :: "bin_stream \<Rightarrow> (bin_stream \<times> 'a) option" and P
    using that unfolding read_safe_def decoded_def by fastforce
  show ?thesis
  proof (cases old)
    case (Connect_Body x)
    then show ?thesis
      using assms dec [OF array_body_safe(1) [of x e], of "\<lambda>b. body_shape (h_mid h) b \<and> body_sizes b" Connect_Body]
      by (simp add: sim_decode_msg_def [abs_def])
  next
    case (Connect_Ack_Body x)
    then show ?thesis
      using assms dec [OF plain_body_safe(1) [of e], of "\<lambda>b. body_shape (h_mid h) b \<and> body_sizes b" Connect_Ack_Body]
      by (auto simp: sim_decode_msg_def [abs_def])
  next
    case (Disconnect_Body x)
    then show ?thesis
      using assms dec [OF plain_body_safe(2) [of e], of "\<lambda>b. body_shape (h_mid h) b \<and> body_sizes b" Disconnect_Body]
      by (auto simp: sim_decode_msg_def [abs_def])
  next
    case (Ping_Body x)
    then show ?thesis
      using assms dec [OF plain_body_safe(3) [of e], of "\<lambda>b. body_shape (h_mid h) b \<and> body_sizes b" Ping_Body]
      by (auto simp: sim_decode_msg_def [abs_def])
  next
    case (Segment_Body x)
    then show ?thesis
      using assms dec [OF segment_decode_safe [of x e], of "\<lambda>b. body_shape (h_mid h) b \<and> body_sizes b" Segment_Body]
      by (simp add: sim_decode_msg_def [abs_def])
  next
    case (Segment_Ack_Body x)
    then show ?thesis
      using assms dec [OF segment_ack_decode_safe [of x e], of "\<lambda>b. body_shape (h_mid h) b \<and> body_sizes b" Segment_Ack_Body]
      by (simp add: sim_decode_msg_def [abs_def])
  next
    case (Feedback_Body x)
    then show ?thesis
      using assms dec [OF array_body_safe(2) [of x e], of "\<lambda>b. body_shape (h_mid h) b \<and> body_sizes b" Feedback_Body]
      by (simp add: sim_decode_msg_def [abs_def])
  qed
qed

subsection \<open>Header and CRC\<close>

definition header_enc :: "env \<Rightarrow> sim_header \<Rightarrow> u8 list" where
  "header_enc e h = [h_ver h] @ [h_mid h] @ mach_put_4 e (h_uid h)"

lemma header_writes: "writes (\<lambda>s. sim_encode_header e s h) (header_enc e h)"
  unfolding sim_encode_header_def [abs_def] header_enc_def by (intro writes_bind writes_mach)

text \<open>What an encoded datagram is: header, body, and the CRC of both.\<close>

definition msg_bytes :: "env \<Rightarrow> sim_header \<Rightarrow> sim_body \<Rightarrow> u8 list" where
  "msg_bytes e h b = header_enc e h @ body_enc e b"

definition datagram :: "env \<Rightarrow> sim_header \<Rightarrow> sim_body \<Rightarrow> u8 list" where
  "datagram e h b = msg_bytes e h b @ mach_put_4 e (crc32 CRC_VAL (msg_bytes e h b))"

lemma sim_encode_msg_ok:
  assumes "strm_wf s" and "body_shape (h_mid h) b" and "body_sizes b"
  shows "\<exists>s'. sim_encode_msg e s h b = Some s' \<and> strm_wf s' \<and> rsize s' = 0 \<and> written s' = datagram e h b"
proof -
  have wf: "strm_wf (bin_stream_rewind s 1)" "rsize (bin_stream_rewind s 1) = 0" "written (bin_stream_rewind s 1) = []"
    using bin_stream_rewind_wf [OF assms(1), of 1] by simp_all
  have w: "writes (\<lambda>s. Option.bind (sim_encode_header e s h) (sim_encode_body e (h_mid h) b)) (header_enc e h @ body_enc e b)"
    using header_writes [of e h] body_writes [OF assms(2,3), of e] by (rule writes_bind)
  then obtain s1 where s1: "Option.bind (sim_encode_header e (bin_stream_rewind s 1) h) (sim_encode_body e (h_mid h) b) = Some s1"
      "strm_wf s1" "rsize s1 = 0" "written s1 = msg_bytes e h b"
    using wf unfolding writes_def msg_bytes_def by (metis append_Nil)
  have "peek 0 (used s1) (data s1) = Some (msg_bytes e h b)"
    using s1(2,4) by (auto simp: peek_def strm_wf_def written_def)
  moreover obtain s2 where "mach_uint32_write e (crc32 CRC_VAL (msg_bytes e h b)) s1 = Some s2" "strm_wf s2" "rsize s2 = 0"
      "written s2 = datagram e h b"
    using c_u32.wr_enc [OF s1(2)] s1(3,4) by (metis datagram_def)
  ultimately show ?thesis
    using s1(1) by (cases "sim_encode_header e (bin_stream_rewind s 1) h") (auto simp: sim_encode_msg_def Let_def)
qed

lemma datagram_load_ok:
  assumes "length (data rs) = strm_size rs" and "length d \<le> strm_size rs"
  shows "\<exists>r. datagram_load rs d = Some r \<and> readable r \<and> rsize r = 0 \<and> written r = d \<and> length (data r) = strm_size r \<and> strm_size r = strm_size rs"
  using assms by (auto simp: datagram_load_def poke_def bin_stream_rewind_def readable_def written_def Let_def)

lemma header_reads:
  "reads (\<lambda>strm. do { (strm, v) \<leftarrow> mach_uint8_read strm; (strm, m) \<leftarrow> mach_uint8_read strm; (strm, u) \<leftarrow> mach_uint32_read e strm;
     Some (strm, (0 :: int), \<lparr>h_ver = v, h_mid = m, h_uid = u\<rparr>) }) (header_enc e h) (0, h)"
proof -
  have "reads (\<lambda>strm. do { (strm, v) \<leftarrow> mach_uint8_read strm; (strm, m) \<leftarrow> mach_uint8_read strm; (strm, u) \<leftarrow> mach_uint32_read e strm;
     Some (strm, (0 :: int), \<lparr>h_ver = v, h_mid = m, h_uid = u\<rparr>) }) ([h_ver h] @ [h_mid h] @ mach_put_4 e (h_uid h) @ []) (0, h)"
    by (rule reads_bind [OF reads_mach(1)] reads_bind [OF reads_mach(3)])+ (cases h, simp add: reads_return)
  then show ?thesis by (simp add: header_enc_def)
qed

text \<open>The header is read exactly when the last four bytes are the CRC of those before.\<close>

lemma sim_decode_header_crc:
  assumes "readable r" and "rsize r = 0" and "written r = m @ c" and "length c = 4"
  shows "mach_get_4 e c \<noteq> crc32 CRC_VAL m \<Longrightarrow> sim_decode_header e r h0 = Some (r, -1, h0)"
    and "mach_get_4 e c = crc32 CRC_VAL m \<Longrightarrow> m = header_enc e h @ rest \<Longrightarrow>
      \<exists>r'. sim_decode_header e r h0 = Some (r', 0, h) \<and> readable r' \<and> unread r' = rest @ c"
    and "mach_get_4 e c = crc32 CRC_VAL m \<Longrightarrow> \<exists>r' h. sim_decode_header e r h0 = Some (r', 0, h) \<and> readable r' \<and> written r' = written r"
proof -
  have u: "used r = length m + 4"
    using assms by (metis length_append length_take min_absorb2 readable_def written_def)
  have le: "used r \<le> length (data r)"
    using assms(1) by (simp add: readable_def)
  have d: "take (length m + 4) (data r) = m @ c"
    using assms(3) by (simp add: written_def u)
  have pc: "peek (used r - 4) 4 (data r) = Some c"
  proof -
    have "take 4 (drop (length m) (data r)) = drop (length m) (take (length m + 4) (data r))"
      by (simp add: drop_take)
    then show ?thesis
      using u le d by (simp add: peek_def)
  qed
  have pm: "peek 0 (used r - 4) (data r) = Some m"
  proof -
    have "take (length m) (data r) = take (length m) (take (length m + 4) (data r))"
      by simp
    then show ?thesis
      using u le d by (simp add: peek_def)
  qed
  show "mach_get_4 e c \<noteq> crc32 CRC_VAL m \<Longrightarrow> sim_decode_header e r h0 = Some (r, -1, h0)"
    using u pc pm by (simp add: sim_decode_header_def)
  let ?rd = "\<lambda>strm. do { (strm, v) \<leftarrow> mach_uint8_read strm; (strm, m) \<leftarrow> mach_uint8_read strm; (strm, u) \<leftarrow> mach_uint32_read e strm;
     Some (strm, (0 :: int), \<lparr>h_ver = v, h_mid = m, h_uid = u\<rparr>) }"
  have eq: "mach_get_4 e c = crc32 CRC_VAL m \<Longrightarrow> sim_decode_header e r h0 = ?rd r"
    using u pc pm by (simp add: sim_decode_header_def)
  show "\<exists>r'. sim_decode_header e r h0 = Some (r', 0, h) \<and> readable r' \<and> unread r' = rest @ c"
    if "mach_get_4 e c = crc32 CRC_VAL m" "m = header_enc e h @ rest"
  proof -
    have "unread r = header_enc e h @ (rest @ c)"
      using assms(2,3) that(2) by (simp add: unread_def)
    from header_reads [unfolded reads_def, rule_format, OF assms(1) this] show ?thesis
      unfolding eq [OF that(1)] by blast
  qed
  show "\<exists>r' h. sim_decode_header e r h0 = Some (r', 0, h) \<and> readable r' \<and> written r' = written r" if "mach_get_4 e c = crc32 CRC_VAL m"
  proof -
    have "read_safe ?rd (\<lambda>(ret, h). ret = 0)"
      by (auto intro!: read_safe_bind [where P = "\<lambda>_. True"] read_safe_return)
    then show ?thesis
      using eq [OF that] assms(1) unfolding read_safe_def by fastforce
  qed
qed

text \<open>Four bytes and the integer they are read as determine each other.\<close>

lemma uint_of_be4: "uint (of_be4 [a, b, c, d]) = uint a * 16777216 + uint b * 65536 + uint c * 256 + uint d"
proof -
  have u: "uint (ucast (x :: u8) :: u32) = uint x" for x
    by (rule uint_ucast_u8_u32)
  have p: "uint (push_bit 8 (ucast (x :: u8) :: u32)) = uint x * 256" "uint (push_bit 16 (ucast (x :: u8) :: u32)) = uint x * 65536"
      "uint (push_bit 24 (ucast (x :: u8) :: u32)) = uint x * 16777216" for x
  proof -
    have m: "uint x * 256 mod 4294967296 = uint x * 256" "uint x * 65536 mod 4294967296 = uint x * 65536"
        "uint x * 16777216 mod 4294967296 = uint x * 16777216"
      using uint_u8_range [of x] by (intro mod_pos_pos_trivial; linarith)+
    show "uint (push_bit 8 (ucast x :: u32)) = uint x * 256" "uint (push_bit 16 (ucast x :: u32)) = uint x * 65536"
        "uint (push_bit 24 (ucast x :: u32)) = uint x * 16777216"
      by (simp_all add: push_bit_eq_mult uint_word_ariths u take_bit_eq_mod m)
  qed
  show ?thesis
    using uint_u8_range [of a] uint_u8_range [of b] uint_u8_range [of c] uint_u8_range [of d]
    by (simp add: of_be4_def uint_word_ariths p u take_bit_eq_mod mod_simps del: uint_u8_range)
qed

lemma length_4: "length x = 4 \<Longrightarrow> \<exists>a b c d. x = [a, b, c, d]"
  by (simp add: numeral_eq_Suc length_Suc_conv) blast

lemma be4_digits:
  assumes "uint (a :: u8) * 16777216 + uint (b :: u8) * 65536 + uint (c :: u8) * 256 + uint (d :: u8)
    = uint (a' :: u8) * 16777216 + uint (b' :: u8) * 65536 + uint (c' :: u8) * 256 + uint (d' :: u8)"
  shows "uint a = uint a' \<and> uint b = uint b' \<and> uint c = uint c' \<and> uint d = uint d'"
proof -
  note r = uint_u8_range [of a] uint_u8_range [of b] uint_u8_range [of c] uint_u8_range [of d]
    uint_u8_range [of a'] uint_u8_range [of b'] uint_u8_range [of c'] uint_u8_range [of d']
  have a: "uint a = uint a'" using assms r by linarith
  then have b: "uint b = uint b'" using assms r by linarith
  then have "uint c = uint c'" using assms r a by linarith
  then show ?thesis using assms a b by simp
qed

lemma mach_get_4_inj:
  assumes "length p = 4" and "length q = 4" and "mach_get_4 e p = mach_get_4 e q"
  shows "p = q"
proof -
  have inj: "x = y" if l: "length x = 4" "length y = 4" and v: "of_be4 x = of_be4 y" for x y :: "u8 list"
  proof -
    obtain a b c d where x: "x = [a, b, c, d]"
      using length_4 [OF l(1)] by blast
    obtain a' b' c' d' where y: "y = [a', b', c', d']"
      using length_4 [OF l(2)] by blast
    have "uint a * 16777216 + uint b * 65536 + uint c * 256 + uint d
        = uint a' * 16777216 + uint b' * 65536 + uint c' * 256 + uint d'"
      using v unfolding x y by (metis uint_of_be4)
    from be4_digits [OF this] have "uint a = uint a' \<and> uint b = uint b' \<and> uint c = uint c' \<and> uint d = uint d'" .
    then show ?thesis by (simp add: x y word_uint_eq_iff)
  qed
  have "host_order e p = host_order e q \<Longrightarrow> p = q"
    by (simp add: host_order_def split: if_splits)
  moreover have "length (host_order e p) = 4" "length (host_order e q) = 4"
    using assms(1,2) by (simp_all add: host_order_def)
  ultimately show ?thesis
    using inj [of p q] inj [of "host_order e p" "host_order e q"] assms by (auto simp: mach_get_4_def split: if_splits)
qed

lemma crc32_one_byte: "p \<noteq> q \<Longrightarrow> crc32 crc (a @ p # b) \<noteq> crc32 crc (a @ q # b)"
  by (simp add: crc32_def xor_cancel crc32_loop_append crc32_loop_inj crc32_step_byte_inj)

lemma crc_mismatch_one_byte:
  assumes "m @ mach_put_4 e (crc32 CRC_VAL m) = x @ p # y" and "q \<noteq> p" and "x @ q # y = m' @ c" and "length c = 4"
  shows "mach_get_4 e c \<noteq> crc32 CRC_VAL m'"
proof -
  have len: "length m' = length m"
    using arg_cong [OF assms(1), of length] arg_cong [OF assms(3), of length] assms(4) by simp
  show ?thesis
  proof (cases "length x < length m")
    case True
    obtain y' where m: "m = x @ p # y'" "y = y' @ mach_put_4 e (crc32 CRC_VAL m)"
      using assms(1) True by (auto simp: append_eq_append_conv2 append_eq_Cons_conv)
    then have "(x @ q # y') @ mach_put_4 e (crc32 CRC_VAL m) = m' @ c"
      using assms(3) by simp
    then have "m' = x @ q # y'" "c = mach_put_4 e (crc32 CRC_VAL m)"
      using len m(1) append_eq_append_conv [of "x @ q # y'" m'] by auto
    then show ?thesis
      using crc32_one_byte [of p q CRC_VAL x y'] assms(2) m(1) by simp
  next
    case False
    obtain x' where x: "x = m @ x'"
      using assms(1) False by (metis append_eq_append_conv_if append_take_drop_id linorder_not_less)
    then have "mach_put_4 e (crc32 CRC_VAL m) = x' @ p # y"
      using assms(1) by simp
    moreover have "m' = m" "c = x' @ q # y"
      using assms(3) x len append_eq_append_conv [of m m' "x' @ q # y" c] by auto
    ultimately have "c \<noteq> mach_put_4 e (crc32 CRC_VAL m)" and m': "m' = m"
      using assms(2) by simp_all
    then have "mach_get_4 e c \<noteq> mach_get_4 e (mach_put_4 e (crc32 CRC_VAL m))"
      using mach_get_4_inj [OF assms(4) length_mach_put(2)] by blast
    then show ?thesis by (simp add: m')
  qed
qed

lemma body_enc_length: "body_sizes b \<Longrightarrow> length (body_enc e b) \<le> 1024"
proof -
  have a: "unat n \<le> k \<Longrightarrow> length (array_enc e arr n) \<le> 2 + k" for arr n k
    by (simp add: array_enc_def)
  have i: "length (id_enc e v) \<le> 4" and x: "length (index_enc e s) \<le> 4" for v s
    by (simp_all add: id_enc_def index_enc_def)
  have n: "length (concat (map (mach_put_2 e) xs)) = 2 * length xs" for xs
    by (induction xs) simp_all
  assume b: "body_sizes b"
  show ?thesis
  proof (cases b)
    case (Connect_Body c)
    then show ?thesis using b a [of "token_size c" 128 "token c"] by simp
  next
    case (Segment_Body s)
    then show ?thesis
      using b a [of "seg_data_size s" 1000 "seg_data s"] i [of "seg_packet_id s"] i [of "seg_fid s"] x [of s] by (simp add: segment_enc_def)
  next
    case (Segment_Ack_Body s)
    then show ?thesis using b by (simp add: n)
  next
    case (Feedback_Body f)
    then show ?thesis using b a [of "feedback_size f" 1000 "feedback f"] by simp
  qed simp_all
qed

lemma datagram_length: "body_sizes b \<Longrightarrow> length (datagram e h b) \<le> 1034"
  using body_enc_length [of b e] by (simp add: datagram_def msg_bytes_def header_enc_def)

subsection \<open>Properties\<close>


definition wit_env :: env where
  "wit_env = \<lparr>host_big = False, big_endian = 0, fresh_byte = \<lambda>_. 0\<rparr>"

definition wit_strm :: bin_stream where
  "wit_strm = \<lparr>data = replicate 2048 0, strm_size = 2048, rptr = 0, rsize = 0, wptr = 0, used = 0, magic = 0\<rparr>"

definition wit_ack :: sim_body where
  "wit_ack = Segment_Ack_Body \<lparr>sack_base = 7, sack_acked = 9, nack_num = 2, nack = [1, 4] @ replicate 78 0\<rparr>"

lemma wit_strm_wf: "strm_wf wit_strm" "length (data wit_strm) = strm_size wit_strm" "1034 \<le> strm_size wit_strm"
  by (simp_all add: strm_wf_def wit_strm_def)

lemma wit_ack_ok: "body_shape SIM_SEG_ACK wit_ack" "body_sizes wit_ack" "body_fields wit_ack"
  by (simp_all add: wit_ack_def)


text \<open>
  C13: a damaged datagram is refused. When one byte of an encoded datagram, header, body or checksum,
  is replaced by another value, \<open>sim_decode_header\<close> returns -1, reads nothing and leaves the caller's
  header as it was.
\<close>

theorem sim_damage_refused:
  assumes "strm_wf s" and "body_shape (h_mid h) b" and "body_sizes b" and "sim_encode_msg e s h b = Some s1"
    and "written s1 = x @ p # y" and "q \<noteq> p" and "length (data rs) = strm_size rs" and "1034 \<le> strm_size rs"
  shows "\<exists>r. datagram_load rs (x @ q # y) = Some r \<and> sim_decode_header e r h0 = Some (r, -1, h0)"
proof -
  have w: "x @ p # y = datagram e h b"
    using sim_encode_msg_ok [OF assms(1,2,3), of e] assms(4,5) by auto
  have len: "length (x @ q # y) = length (datagram e h b)"
    using w [symmetric] by simp
  then obtain r where r: "datagram_load rs (x @ q # y) = Some r" "readable r" "rsize r = 0" "written r = x @ q # y"
    using datagram_load_ok [OF assms(7), of "x @ q # y"] datagram_length [OF assms(3), of e h] assms(8) by auto
  define k where "k = length (x @ q # y) - 4"
  define m' where "m' = take k (x @ q # y)"
  define c where "c = drop k (x @ q # y)"
  have mc: "x @ q # y = m' @ c"
    unfolding m'_def c_def by (rule append_take_drop_id [symmetric])
  have c4: "length c = 4"
    using len by (simp add: c_def k_def datagram_def)
  have "mach_get_4 e c \<noteq> crc32 CRC_VAL m'"
    using crc_mismatch_one_byte [OF _ assms(6) mc c4] w by (simp add: datagram_def)
  then show ?thesis
    using r sim_decode_header_crc(1) [OF r(2,3), of m' c] mc c4 by auto
qed

theorem sim_damage_refused_witness:
  "\<exists>s1 p y r. sim_encode_msg wit_env wit_strm (INIT_SIM_HEADER SIM_SEG_ACK 5) wit_ack = Some s1 \<and> written s1 = [] @ p # y
    \<and> datagram_load wit_strm ([] @ (p + 1) # y) = Some r
    \<and> sim_decode_header wit_env r (INIT_SIM_HEADER 0 0) = Some (r, -1, INIT_SIM_HEADER 0 0)"
proof -
  have m: "h_mid (INIT_SIM_HEADER SIM_SEG_ACK 5) = SIM_SEG_ACK"
    by (simp add: INIT_SIM_HEADER_def)
  obtain s1 where s1: "sim_encode_msg wit_env wit_strm (INIT_SIM_HEADER SIM_SEG_ACK 5) wit_ack = Some s1"
      "written s1 = datagram wit_env (INIT_SIM_HEADER SIM_SEG_ACK 5) wit_ack"
    using sim_encode_msg_ok [OF wit_strm_wf(1)] wit_ack_ok m by metis
  then obtain p y where py: "written s1 = [] @ p # y"
    by (auto simp: datagram_def msg_bytes_def header_enc_def)
  show ?thesis
    using sim_damage_refused [OF wit_strm_wf(1) _ wit_ack_ok(2) s1(1) py, of "p + 1" wit_strm] wit_ack_ok(1) m wit_strm_wf s1(1) py by auto
qed

text \<open>
  C12: no datagram makes the decoder leave its buffers. Whatever bytes arrive, at least the header's
  size and at most the buffer's, the header check ends with 0 or -1, and when it ends with 0 the body
  of every known message id is decoded (0) into a struct whose arrays keep their lengths and whose
  size fields (token, video data, nack and feedback) stay within the arrays, so that later loops over
  them do too.
\<close>

theorem sim_decode_safe:
  assumes "length (data rs) = strm_size rs" and "SIM_HEADER_SIZE \<le> length d" and "length d \<le> strm_size rs"
  shows "\<exists>r r1 ret h. datagram_load rs d = Some r \<and> sim_decode_header e r h0 = Some (r1, ret, h)
    \<and> (ret = 0 \<or> ret = -1 \<and> h = h0)
    \<and> (ret = 0 \<longrightarrow> (\<forall>old. body_shape (h_mid h) old \<longrightarrow>
         (\<exists>r2 b. sim_decode_msg e r1 h old = Some (r2, 0, b) \<and> body_shape (h_mid h) b \<and> body_sizes b)))"
proof -
  obtain r where r: "datagram_load rs d = Some r" "readable r" "rsize r = 0" "written r = d"
    using datagram_load_ok [OF assms(1,3)] by blast
  define m c where "m = take (length d - 4) d" and "c = drop (length d - 4) d"
  have mc: "written r = m @ c" "length c = 4"
    using r(4) assms(2) by (simp_all add: m_def c_def)
  show ?thesis
  proof (cases "mach_get_4 e c = crc32 CRC_VAL m")
    case True
    then obtain r1 h where r1: "sim_decode_header e r h0 = Some (r1, 0, h)" "readable r1"
      using sim_decode_header_crc(3) [OF r(2,3) mc] by blast
    have "\<exists>r2 b. sim_decode_msg e r1 h old = Some (r2, 0, b) \<and> body_shape (h_mid h) b \<and> body_sizes b"
      if "body_shape (h_mid h) old" for old
      using body_read_safe [OF that, of e] r1(2) unfolding read_safe_def by fastforce
    then show ?thesis using r(1) r1(1) by blast
  next
    case False
    then show ?thesis
      using r(1) sim_decode_header_crc(1) [OF r(2,3) mc] by fastforce
  qed
qed

theorem sim_decode_safe_witness:
  "\<exists>r r1 ret h. datagram_load wit_strm (replicate 6 0xff) = Some r
    \<and> sim_decode_header wit_env r (INIT_SIM_HEADER 0 0) = Some (r1, ret, h) \<and> (ret = 0 \<or> ret = -1 \<and> h = INIT_SIM_HEADER 0 0)"
proof -
  have "SIM_HEADER_SIZE \<le> length (replicate 6 (0xff :: u8))" "length (replicate 6 (0xff :: u8)) \<le> strm_size wit_strm"
    by (simp_all add: wit_strm_def)
  from sim_decode_safe [OF wit_strm_wf(2) this, of wit_env "INIT_SIM_HEADER 0 0"] show ?thesis by blast
qed

end
