(* ===== verification/U32_Loop.thy ===== *)
theory U32_Loop
  imports Prelude "HOL-Library.Monad_Syntax"
begin

text \<open>
  The loops \<open>for (i = a; i <= b; ++i)\<close> and \<open>for (i = a; i < b; ++i)\<close> over an \<open>uint32_t\<close> in
  \<^verbatim>\<open>sim_transport\<close>. The first never ends when \<open>b\<close> is the largest value, the counter then wraps to zero;
  so it is a partial function, and not returning is \<open>None\<close>, as is undefined behaviour of its body.

  The lemmas: below the largest bound each loop is a fold over the list of its counters, from which
  an invariant of the body gives that the loop ends.
\<close>

partial_function (option) for_le :: "(u32 \<Rightarrow> 'a \<Rightarrow> 'a option) \<Rightarrow> u32 \<Rightarrow> u32 \<Rightarrow> 'a \<Rightarrow> 'a option" where
  "for_le f b i x = (if i \<le> b then do { x \<leftarrow> f i x; for_le f b (i + 1) x } else Some x)"

partial_function (option) for_lt :: "(u32 \<Rightarrow> 'a \<Rightarrow> 'a option) \<Rightarrow> u32 \<Rightarrow> u32 \<Rightarrow> 'a \<Rightarrow> 'a option" where
  "for_lt f b i x = (if i < b then do { x \<leftarrow> f i x; for_lt f b (i + 1) x } else Some x)"

text \<open>The value of the counter where a search loop \<open>for (i = a; i < b; ++i) if (p) break;\<close> stops.\<close>

partial_function (option) find_lt :: "(u32 \<Rightarrow> bool option) \<Rightarrow> u32 \<Rightarrow> u32 \<Rightarrow> u32 option" where
  "find_lt p b i = (if i < b then do { stop \<leftarrow> p i; if stop then Some i else find_lt p b (i + 1) } else Some i)"

fun opt_fold :: "('b \<Rightarrow> 'a \<Rightarrow> 'a option) \<Rightarrow> 'b list \<Rightarrow> 'a \<Rightarrow> 'a option" where
  "opt_fold f [] x = Some x"
| "opt_fold f (i # is) x = Option.bind (f i x) (opt_fold f is)"

definition u32_upt :: "nat \<Rightarrow> nat \<Rightarrow> u32 list" where
  "u32_upt a b = map word_of_nat [a..<b]"

lemma u32_upt_Cons: "a < b \<Longrightarrow> u32_upt a b = word_of_nat a # u32_upt (Suc a) b"
  by (simp add: u32_upt_def upt_conv_Cons)

lemma u32_upt_Nil: "b \<le> a \<Longrightarrow> u32_upt a b = []"
  by (simp add: u32_upt_def)

lemma unat_u32: "unat (i :: u32) < 4294967296"
  by (rule order_less_le_trans [OF unsigned_less]) simp

lemma u32_max: "j \<le> (0xFFFFFFFF :: u32)"
  using unat_u32 [of j] by (simp add: word_le_nat_alt)

lemma unat_Suc_u32: "(i :: u32) < b \<Longrightarrow> unat (i + 1) = Suc (unat i)"
  using unat_u32 [of b] by (simp add: word_less_nat_alt unat_word_ariths)

lemma in_u32_upt: "b \<le> 4294967296 \<Longrightarrow> i \<in> set (u32_upt a b) \<longleftrightarrow> a \<le> unat i \<and> unat i < b"
proof -
  assume b: "b \<le> 4294967296"
  have "unat (word_of_nat n :: u32) = n" if "n < b" for n
    using that b by (simp add: unat_of_nat)
  then show ?thesis
    by (auto simp: u32_upt_def intro!: image_eqI [of _ _ "unat i"])
qed

lemma for_lt_fold: "for_lt f b i x = opt_fold f (u32_upt (unat i) (unat b)) x"
proof (induction "unat b - unat i" arbitrary: i x)
  case 0
  then have "\<not> i < b" by (simp add: word_less_nat_alt)
  then show ?case using 0 by (simp add: for_lt.simps [of f b i] u32_upt_Nil)
next
  case (Suc n)
  then have i: "i < b" by (simp add: word_less_nat_alt)
  have "n = unat b - unat (i + 1)"
    using Suc.hyps(2) unat_Suc_u32 [OF i] by simp
  from Suc.hyps(1) [OF this] show ?case
    using i unat_Suc_u32 [OF i] by (simp add: for_lt.simps [of f b i] u32_upt_Cons word_less_nat_alt cong: Option.bind_cong)
qed

lemma for_le_fold: "b < 0xFFFFFFFF \<Longrightarrow> for_le f b i x = opt_fold f (u32_upt (unat i) (Suc (unat b))) x"
proof (induction "Suc (unat b) - unat i" arbitrary: i x)
  case 0
  then have "\<not> i \<le> b" by (simp add: word_le_nat_alt)
  then show ?case using 0 by (simp add: for_le.simps [of f b i] u32_upt_Nil)
next
  case (Suc n)
  then have i: "i \<le> b" by (simp add: word_le_nat_alt)
  then have lt: "i < 0xFFFFFFFF" using Suc.prems by (rule le_less_trans)
  have "n = Suc (unat b) - unat (i + 1)"
    using Suc.hyps(2) unat_Suc_u32 [OF lt] by simp
  from Suc.hyps(1) [OF this Suc.prems] show ?case
    using i unat_Suc_u32 [OF lt] by (simp add: for_le.simps [of f b i] u32_upt_Cons word_le_nat_alt cong: Option.bind_cong)
qed

text \<open>A loop to the largest value does not end, whatever its body does.\<close>

lemma for_le_max_diverges: "for_le f 0xFFFFFFFF i x = None"
proof -
  have "b \<noteq> 0xFFFFFFFF" if "for_le f b i x = Some y" for f b i y and x :: 'a
    by (rule for_le.raw_induct [where P = "\<lambda>f b i x y. b \<noteq> 0xFFFFFFFF" and xa = "(((f, b), i), x)" and y = y, unfolded prod.case])
      (use u32_max that in \<open>fastforce simp: bind_eq_Some_conv split: if_splits\<close>)+
  from this [of f "0xFFFFFFFF" i x] show ?thesis by (cases "for_le f 0xFFFFFFFF i x") auto
qed

lemma opt_fold_inv:
  assumes "I x" and "\<And>i x. i \<in> set is \<Longrightarrow> I x \<Longrightarrow> \<exists>x'. f i x = Some x' \<and> I x'"
  shows "\<exists>x'. opt_fold f is x = Some x' \<and> I x'"
  using assms
proof (induction "is" arbitrary: x)
  case (Cons i "is")
  obtain x' where "f i x = Some x'" "I x'"
    using Cons.prems(1) Cons.prems(2) [of i x] by auto
  then show ?case using Cons.IH [of x'] Cons.prems(2) by auto
qed simp

text \<open>The invariant may speak of the counters that are still to come.\<close>

lemma opt_fold_upt_inv:
  assumes "a \<le> b" and "b \<le> 4294967296" and "I a x"
    and "\<And>i x. a \<le> i \<Longrightarrow> i < b \<Longrightarrow> I i x \<Longrightarrow> \<exists>x'. f (word_of_nat i) x = Some x' \<and> I (Suc i) x'"
  shows "\<exists>x'. opt_fold f (u32_upt a b) x = Some x' \<and> I b x'"
  using assms
proof (induction "b - a" arbitrary: a x)
  case 0
  then show ?case by (simp add: u32_upt_Nil)
next
  case (Suc n)
  then have ab: "a < b" by simp
  obtain x' where x': "f (word_of_nat a) x = Some x'" "I (Suc a) x'"
    using Suc.prems(4) [OF order.refl ab Suc.prems(3)] by blast
  have "\<exists>x''. opt_fold f (u32_upt (Suc a) b) x' = Some x'' \<and> I b x''"
    using Suc.hyps(2) ab Suc.prems(2,4) x'(2) by (intro Suc.hyps(1)) auto
  then show ?case using x'(1) ab by (simp add: u32_upt_Cons)
qed

lemma find_lt_spec:
  assumes "\<And>j. i \<le> j \<Longrightarrow> j < b \<Longrightarrow> p j \<noteq> None"
  shows "\<exists>k. find_lt p b i = Some k \<and> i \<le> k \<and> (i \<le> b \<longrightarrow> k \<le> b) \<and> (\<forall>j. i \<le> j \<longrightarrow> j < k \<longrightarrow> p j = Some False) \<and> (k < b \<longrightarrow> p k = Some True)"
  using assms
proof (induction "unat b - unat i" arbitrary: i)
  case 0
  then have "\<not> i < b" by (simp add: word_less_nat_alt)
  then show ?case by (auto simp: find_lt.simps [of p b i])
next
  case (Suc n)
  then have i: "i < b" by (simp add: word_less_nat_alt)
  obtain v where v: "p i = Some v" using Suc.prems [of i] i by auto
  show ?case
  proof (cases v)
    case True
    then show ?thesis using v i by (intro exI [of _ i]) (auto simp: find_lt.simps [of p b i])
  next
    case False
    have u: "unat (i + 1) = Suc (unat i)" by (rule unat_Suc_u32 [OF i])
    have "n = unat b - unat (i + 1)" using Suc.hyps(2) u by simp
    moreover have "p j \<noteq> None" if "i + 1 \<le> j" "j < b" for j
      using Suc.prems [of j] that u by (simp add: word_le_nat_alt)
    ultimately obtain k where k: "find_lt p b (i + 1) = Some k" "i + 1 \<le> k" "i + 1 \<le> b \<longrightarrow> k \<le> b"
        "\<forall>j. i + 1 \<le> j \<longrightarrow> j < k \<longrightarrow> p j = Some False" "k < b \<longrightarrow> p k = Some True"
      using Suc.hyps(1) [of "i + 1"] by blast
    have "p j = Some False" if "i \<le> j" "j < k" for j
    proof (cases "j = i")
      case False
      then have "i + 1 \<le> j" using that(1) u by (auto simp: word_le_nat_alt word_unat_eq_iff)
      then show ?thesis using k(4) that(2) by blast
    qed (use v False in simp)
    moreover have "i \<le> k" "k \<le> b"
      using k(2,3) i u by (auto simp: word_le_nat_alt word_less_nat_alt)
    ultimately show ?thesis
      using k v False i by (intro exI [of _ k]) (auto simp: find_lt.simps [of p b i])
  qed
qed

end
