(* ===== verification/Frame_Cache.thy ===== *)
theory Frame_Cache
  imports U32_Loop Sim_Proto Fp_Bounds
begin

text \<open>
  The playback cache of \<^verbatim>\<open>sim_transport/sim_receiver.c\<close>: segments of video frames are put into a ring of
  1024 frames in whatever order they arrive, and whole frames are taken out in order and in time.
  Frame, packet and time counters are \<open>uint32_t\<close> and wrap. \<open>None\<close> is an access outside an array, a
  conversion of a \<open>float\<close> that does not fit, an \<open>assert\<close> that fails (the process is aborted), or a loop
  that never ends. A freed or \<^verbatim>\<open>NULL\<close> segment pointer is the \<open>None\<close> of its cell.

  The lemmas: \<open>cache_inv\<close> says that every occupied cell of the ring is a frame later than the last one taken
  whose cells hold payloads of that frame only; every operation keeps it and returns.
\<close>

subsection \<open>State\<close>

abbreviation CACHE_SIZE :: nat where "CACHE_SIZE \<equiv> 1024"
abbreviation MAX_VIDEO_DELAY_MS :: u32 where "MAX_VIDEO_DELAY_MS \<equiv> 5000"
abbreviation buffer_waiting :: int where "buffer_waiting \<equiv> 0"
abbreviation buffer_playing :: int where "buffer_playing \<equiv> 1"

definition INDEX :: "u32 \<Rightarrow> nat" where
  "INDEX i = unat i mod CACHE_SIZE"

record sim_frame =
  fr_fid :: u32
  fr_ts :: u32
  fr_type :: int
  fr_seg_number :: int
  fr_segments :: "sim_segment option list"

record sim_frame_cache =
  fc_size :: u32
  fc_min_seq :: u32
  fc_min_fid :: u32
  fc_max_fid :: u32
  fc_play_frame_ts :: u32
  fc_max_ts :: u32
  fc_frame_ts :: u32
  fc_play_ts :: u64
  fc_frame_timer :: u32
  fc_wait_timer :: u32
  fc_state :: int
  fc_loss_flag :: int
  fc_f :: float
  fc_frames :: "sim_frame list"

definition empty_frame :: sim_frame where
  "empty_frame = \<lparr>fr_fid = 0, fr_ts = 0, fr_type = 0, fr_seg_number = 0, fr_segments = []\<rparr>"

definition open_real_video_cache :: "u32 \<Rightarrow> u32 \<Rightarrow> sim_frame_cache" where
  "open_real_video_cache rtt rtt_var =
     \<lparr>fc_size = 1024, fc_min_seq = 0, fc_min_fid = 0, fc_max_fid = 0, fc_play_frame_ts = 0, fc_max_ts = 0,
      fc_frame_ts = 0, fc_play_ts = 0, fc_frame_timer = 100, fc_wait_timer = rtt + 2 * rtt_var,
      fc_state = buffer_waiting, fc_loss_flag = 0, fc_f = fp_lit 1, fc_frames = replicate CACHE_SIZE empty_frame\<rparr>"

subsection \<open>Removing frames\<close>

text \<open>The loop over the segments: \<open>min_seq\<close> becomes the last packet of the frame, as every segment tells it.\<close>

fun clean_segments :: "sim_segment option list \<Rightarrow> u32 \<Rightarrow> u32" where
  "clean_segments [] m = m"
| "clean_segments (None # xs) m = clean_segments xs m"
| "clean_segments (Some g # xs) m =
     clean_segments xs (seg_packet_id g - ucast (seg_index g) + ucast (seg_total g) - 1)"

definition real_video_clean_frame :: "nat \<Rightarrow> sim_frame_cache \<Rightarrow> sim_frame_cache option" where
  "real_video_clean_frame pos c =
     (if length (fc_frames c) \<le> pos then None
      else (let frame = fc_frames c ! pos in
        if fr_seg_number frame = 0 then Some c
        else if int (length (fr_segments frame)) < fr_seg_number frame then None
        else Some (c\<lparr>fc_min_seq := clean_segments (take (nat (fr_seg_number frame)) (fr_segments frame)) (fc_min_seq c),
               fc_play_frame_ts := fr_ts frame, fc_min_fid := fr_fid frame,
               fc_frames := (fc_frames c)[pos := frame\<lparr>fr_ts := 0, fr_type := 0, fr_seg_number := 0, fr_segments := []\<rparr>]\<rparr>)))"

text \<open>The loop over the whole ring of \<open>close_\<close> and \<open>reset_real_video_cache\<close>.\<close>

fun clean_all :: "nat \<Rightarrow> nat \<Rightarrow> sim_frame_cache \<Rightarrow> sim_frame_cache option" where
  "clean_all i 0 c = Some c"
| "clean_all i (Suc n) c = do { c \<leftarrow> real_video_clean_frame i c; clean_all (i + 1) n c }"

definition close_real_video_cache :: "sim_frame_cache \<Rightarrow> sim_frame_cache option" where
  "close_real_video_cache c = map_option (\<lambda>c. c\<lparr>fc_frames := []\<rparr>) (clean_all 0 (unat (fc_size c)) c)"

definition reset_real_video_cache :: "u32 \<Rightarrow> u32 \<Rightarrow> sim_frame_cache \<Rightarrow> sim_frame_cache option" where
  "reset_real_video_cache rtt rtt_var c =
     map_option (\<lambda>c. c\<lparr>fc_min_seq := 0, fc_min_fid := 0, fc_max_fid := 0, fc_play_ts := 0, fc_frame_ts := 0, fc_max_ts := 100,
         fc_frame_timer := 100, fc_f := fp_lit 1, fc_state := buffer_waiting, fc_wait_timer := su_max 100 (rtt + 2 * rtt_var),
         fc_loss_flag := 0\<rparr>)
       (clean_all 0 (unat (fc_size c)) c)"

definition frame_type_at :: "sim_frame_cache \<Rightarrow> u32 \<Rightarrow> int option" where
  "frame_type_at c i = (if INDEX i < length (fc_frames c) then Some (fr_type (fc_frames c ! INDEX i)) else None)"

definition real_video_evict_frame :: "u32 \<Rightarrow> sim_frame_cache \<Rightarrow> sim_frame_cache option" where
  "real_video_evict_frame fid c = do {
     c \<leftarrow> for_le (\<lambda>pos. real_video_clean_frame (INDEX pos)) fid (fc_max_fid c + 1) c;
     if fid < fc_min_fid c + fc_size c then Some c
     else do {
       pos \<leftarrow> find_lt (\<lambda>pos. map_option (\<lambda>t. t = 1) (frame_type_at c pos)) (fc_max_fid c) (fc_min_fid c + 1);
       for_lt (\<lambda>i. real_video_clean_frame (INDEX i)) pos (fc_min_fid c + 1) c
     }
   }"

text \<open>One step of the last loop: the time of the frame is taken over before the frame is removed.\<close>

definition evict_gop_step :: "u32 \<Rightarrow> sim_frame_cache \<Rightarrow> sim_frame_cache option" where
  "evict_gop_step i c =
     (if length (fc_frames c) \<le> INDEX i then None
      else real_video_clean_frame (INDEX i) (c\<lparr>fc_frame_ts := fr_ts (fc_frames c ! INDEX i)\<rparr>))"

definition evict_gop_frame :: "sim_frame_cache \<Rightarrow> sim_frame_cache option" where
  "evict_gop_frame c = do {
     i \<leftarrow> find_lt (\<lambda>i. map_option (\<lambda>t. t = 1) (frame_type_at c i)) (fc_max_fid c) (fc_min_fid c + 2);
     let key_frame_id = (if i < fc_max_fid c then i else 0);
     if key_frame_id = 0 then Some c
     else for_lt evict_gop_step key_frame_id (fc_min_fid c + 1) c
   }"

subsection \<open>Putting a segment\<close>

definition frame_timer_of :: "sim_frame_cache \<Rightarrow> sim_segment \<Rightarrow> u32" where
  "frame_timer_of c seg =
     (let t = (seg_timestamp seg - fc_max_ts c) div (seg_fid seg - fc_max_fid c)
      in if t < 20 then 20 else if 200 < t then 200 else t)"

text \<open>What a segment of a frame beyond \<open>max_fid\<close> does before it is stored.\<close>

definition cache_advance :: "sim_segment \<Rightarrow> sim_frame_cache \<Rightarrow> sim_frame_cache option" where
  "cache_advance seg c = do {
     c \<leftarrow> (if 0 < fc_max_fid c then real_video_evict_frame (seg_fid seg) c
           else if fc_min_fid c = 0
           then Some (c\<lparr>fc_min_fid := seg_fid seg - 1, fc_play_frame_ts := seg_timestamp seg\<rparr>)
           else Some c);
     let c = (if fc_max_fid c < seg_fid seg \<and> fc_max_ts c < seg_timestamp seg
              then c\<lparr>fc_frame_timer := frame_timer_of c seg\<rparr> else c);
     Some (c\<lparr>fc_max_ts := seg_timestamp seg, fc_max_fid := seg_fid seg\<rparr>)
   }"

definition cache_store :: "sim_segment \<Rightarrow> sim_frame_cache \<Rightarrow> (sim_frame_cache \<times> int) option" where
  "cache_store seg c =
     (let pos = INDEX (seg_fid seg) in
      if length (fc_frames c) \<le> pos then None
      else (let frame = (fc_frames c ! pos)\<lparr>fr_fid := seg_fid seg, fr_type := uint (seg_ftype seg), fr_ts := seg_timestamp seg\<rparr>;
                i = unat (seg_index seg);
                frame' = (if fr_seg_number frame = 0
                  then frame\<lparr>fr_seg_number := uint (seg_total seg), fr_segments := replicate (unat (seg_total seg)) None\<rparr> else frame);
                store = c\<lparr>fc_frames := (fc_frames c)[pos := frame'\<lparr>fr_segments := (fr_segments frame')[i := Some seg]\<rparr>]\<rparr>;
                keep = c\<lparr>fc_frames := (fc_frames c)[pos := frame]\<rparr>
            in if length (fr_segments frame') \<le> i then None
               else if fr_seg_number frame = 0 \<or> fr_segments frame ! i = None then Some (store, 0)
               else Some (keep, -1)))"

text \<open>A segment whose index is not below its total fails an assertion.\<close>

definition real_video_cache_put :: "sim_segment \<Rightarrow> sim_frame_cache \<Rightarrow> (sim_frame_cache \<times> int) option" where
  "real_video_cache_put seg c =
     (if seg_total seg \<le> seg_index seg then None
      else if seg_fid seg \<le> fc_min_fid c then Some (c, -1)
      else do {
        c \<leftarrow> (if fc_max_fid c < seg_fid seg then cache_advance seg c else Some c);
        cache_store seg c
      })"

subsection \<open>Taking a frame\<close>

definition real_video_cache_check_playing :: "int \<Rightarrow> sim_frame_cache \<Rightarrow> sim_frame_cache" where
  "real_video_cache_check_playing sys_ts c =
     (let space = su_max (fc_wait_timer c) (fc_frame_timer c) in
      if fc_min_fid c < fc_max_fid c \<and> fc_play_frame_ts c + space \<le> fc_max_ts c \<and> fc_min_fid c + 1 \<le> fc_max_fid c
      then c\<lparr>fc_state := buffer_playing, fc_play_ts := word_of_int sys_ts,
             fc_frame_ts := fc_max_ts c - fc_frame_timer c * (fc_max_fid c - fc_min_fid c - 1)\<rparr>
      else c)"

definition real_video_cache_check_frame_full :: "sim_frame \<Rightarrow> int option" where
  "real_video_cache_check_frame_full frame =
     (if fr_seg_number frame \<le> 0 then Some (-1)
      else if int (length (fr_segments frame)) < fr_seg_number frame then None
      else Some (if None \<in> set (take (nat (fr_seg_number frame)) (fr_segments frame)) then -1 else 0))"

definition real_video_cache_sync_timestamp :: "int \<Rightarrow> sim_frame_cache \<Rightarrow> sim_frame_cache option" where
  "real_video_cache_sync_timestamp sys_ts c =
     (let cur_ts = word_of_int sys_ts in
      if fc_play_ts c < cur_ts
      then do {
        d \<leftarrow> fp_to_u32 (fp_of_int (uint (cur_ts - fc_play_ts c)) * fc_f c);
        Some (c\<lparr>fc_frame_ts := d + fc_frame_ts c, fc_play_ts := cur_ts\<rparr>)
      }
      else Some c)"

partial_function (option) ready_loop :: "sim_frame_cache \<Rightarrow> u32 \<Rightarrow> u32 \<times> u32 \<Rightarrow> (u32 \<times> u32) option" where
  "ready_loop c i r =
     (if i \<le> fc_max_fid c
      then (if length (fc_frames c) \<le> INDEX i then None
            else do {
              let frame = fc_frames c ! INDEX i;
              full \<leftarrow> real_video_cache_check_frame_full frame;
              if full = 0 then ready_loop c (i + 1) (if fst r = 0 then fr_ts frame else fst r, fr_ts frame) else Some r
            })
      else Some r)"

definition real_video_ready_ms :: "sim_frame_cache \<Rightarrow> u32 option" where
  "real_video_ready_ms c = do {
     (min_ready_ts, max_ready_ts) \<leftarrow> ready_loop c (fc_min_fid c + 1) (0, 0);
     Some (if 0 < min_ready_ts then max_ready_ts - min_ready_ts + fc_frame_timer c else 0)
   }"

text \<open>
  The loop that copies a frame to the caller's buffer: \<open>out\<close> is what has been written, the second
  result \<open>type\<close>. A segment that does not fit ends it with \<open>size\<close> 0, what was written stays in the buffer.
\<close>

fun copy_segments :: "nat \<Rightarrow> sim_segment option list \<Rightarrow> u8 list \<Rightarrow> u8 \<Rightarrow> (u8 list \<times> nat \<times> u8) option" where
  "copy_segments cap [] out ty = Some (out, length out, ty)"
| "copy_segments cap (None # xs) out ty = None"
| "copy_segments cap (Some g # xs) out ty =
     (if length out + unat (seg_data_size g) \<le> cap \<and> unat (seg_data_size g) \<le> SIM_VIDEO_SIZE
      then (if unat (seg_data_size g) \<le> length (seg_data g)
            then copy_segments cap xs (out @ take (unat (seg_data_size g)) (seg_data g)) (seg_payload_type g) else None)
      else Some (out, 0, ty))"

definition play_speed :: "u32 \<Rightarrow> sim_frame_cache \<Rightarrow> float" where
  "play_speed space c =
     (if fc_max_ts c < fc_play_frame_ts c + space then fp_lit 0.6
      else if fc_play_frame_ts c + space * 2 < fc_max_ts c then fp_lit 1.6
      else if fc_play_frame_ts c + space * 3 div 2 < fc_max_ts c then fp_lit 1.2
      else fp_lit 1)"

record play_result =
  pr_ret :: int
  pr_out :: "u8 list"
  pr_size :: nat
  pr_type :: u8

definition no_play :: "int \<Rightarrow> play_result" where
  "no_play r = \<lparr>pr_ret = r, pr_out = [], pr_size = 0, pr_type = 0\<rparr>"

text \<open>A frame that is complete: it waits for its time, or is copied and removed.\<close>

definition cache_take :: "u32 \<Rightarrow> nat \<Rightarrow> nat \<Rightarrow> sim_frame_cache \<Rightarrow> (sim_frame_cache \<times> play_result) option" where
  "cache_take space buffer_size pos c = do {
     let frame = fc_frames c ! pos;
     play_ready_ts \<leftarrow> real_video_ready_ms c;
     if fc_frame_ts c + 2 * space < fr_ts frame \<and> space < play_ready_ts
     then Some (c\<lparr>fc_frame_ts := fr_ts frame - space\<rparr>, no_play (-1))
     else if fr_ts frame \<le> fc_frame_ts c
     then do {
       (out, size, ty) \<leftarrow> copy_segments buffer_size (take (nat (fr_seg_number frame)) (fr_segments frame)) [] 0;
       let c = (if space * 3 div 2 < play_ready_ts then c\<lparr>fc_frame_ts := fr_ts frame + fc_frame_timer c\<rparr> else c);
       let c = (if space < play_ready_ts then c\<lparr>fc_frame_ts := fr_ts frame + 2\<rparr> else c\<lparr>fc_frame_ts := fr_ts frame\<rparr>);
       c \<leftarrow> real_video_clean_frame pos (c\<lparr>fc_play_frame_ts := fr_ts frame\<rparr>);
       Some (c, \<lparr>pr_ret = 0, pr_out = out, pr_size = size, pr_type = ty\<rparr>)
     }
     else Some (c, no_play (-1))
   }"

definition real_video_cache_get :: "int \<Rightarrow> int \<Rightarrow> nat \<Rightarrow> sim_frame_cache \<Rightarrow> (sim_frame_cache \<times> play_result) option" where
  "real_video_cache_get play_sys_ts sync_sys_ts buffer_size c =
     (let c = (if fc_state c = buffer_waiting then real_video_cache_check_playing play_sys_ts c else c) in
      if fc_state c \<noteq> buffer_playing \<or> fc_min_fid c = fc_max_fid c then Some (c, no_play (-1))
      else (let space = su_max (fc_wait_timer c) (fc_frame_timer c) in do {
        c \<leftarrow> real_video_cache_sync_timestamp sync_sys_ts (c\<lparr>fc_f := play_speed space c\<rparr>);
        c \<leftarrow> (if fc_play_frame_ts c + su_max MAX_VIDEO_DELAY_MS (4 * fc_wait_timer c) < fc_max_ts c then evict_gop_frame c else Some c);
        let pos = INDEX (fc_min_fid c + 1);
        if length (fc_frames c) \<le> pos then None
        else do {
          let frame = fc_frames c ! pos;
          full \<leftarrow> (if fc_min_fid c + 1 = fr_fid frame \<or> fr_type frame = 1 then real_video_cache_check_frame_full frame else Some (-1));
          if full = 0 then cache_take space buffer_size pos c else Some (c, no_play (-1))
        }
      }))"

definition real_video_cache_get_min_seq :: "sim_frame_cache \<Rightarrow> u32" where
  "real_video_cache_get_min_seq c = fc_min_seq c"

definition real_video_cache_delay :: "sim_frame_cache \<Rightarrow> u32" where
  "real_video_cache_delay c = (if fc_max_fid c \<le> fc_min_fid c then 0 else fc_max_ts c - fc_play_frame_ts c)"

subsection \<open>The invariant\<close>

text \<open>\<open>S\<close> gives the payloads of the packets into which the sender split each frame.\<close>

type_synonym frames_sent = "u32 \<Rightarrow> u8 list list"

definition seg_payload :: "sim_segment \<Rightarrow> u8 list" where
  "seg_payload g = take (unat (seg_data_size g)) (seg_data g)"

text \<open>The number of the last packet of a segment's frame, as the segment tells it.\<close>

definition seg_last_id :: "sim_segment \<Rightarrow> u32" where
  "seg_last_id g = seg_packet_id g - ucast (seg_index g) + ucast (seg_total g) - 1"

text \<open>A segment that is one of the packets of its frame; the largest packet number is not in use.\<close>

definition honest :: "frames_sent \<Rightarrow> sim_segment \<Rightarrow> bool" where
  "honest S g \<longleftrightarrow> unat (seg_total g) = length (S (seg_fid g)) \<and> unat (seg_index g) < length (S (seg_fid g))
     \<and> seg_payload g = S (seg_fid g) ! unat (seg_index g)
     \<and> length (seg_data g) = SIM_VIDEO_SIZE \<and> unat (seg_data_size g) \<le> SIM_VIDEO_SIZE
     \<and> unat (seg_packet_id g) + (unat (seg_total g) - unat (seg_index g)) < 4294967296"

lemma honest_last_id: "honest S g \<Longrightarrow> seg_last_id g < 0xFFFFFFFF"
proof -
  assume h: "honest S g"
  define n where "n = unat (seg_packet_id g) + (unat (seg_total g) - unat (seg_index g)) - 1"
  have n: "n < 4294967295" "unat (seg_index g) < unat (seg_total g)"
    using h by (auto simp: honest_def n_def)
  have "seg_last_id g = word_of_int (int (unat (seg_packet_id g)) - int (unat (seg_index g)) + int (unat (seg_total g)) - 1)"
    by (simp add: seg_last_id_def)
  also have "int (unat (seg_packet_id g)) - int (unat (seg_index g)) + int (unat (seg_total g)) - 1 = int n"
    using n by (simp add: n_def)
  finally show ?thesis
    using n(1) by (simp add: word_less_nat_alt unat_of_nat)
qed

definition seg_cell :: "frames_sent \<Rightarrow> u32 \<Rightarrow> nat \<Rightarrow> sim_segment option \<Rightarrow> bool" where
  "seg_cell S fid i x = (case x of None \<Rightarrow> True | Some g \<Rightarrow> honest S g \<and> seg_fid g = fid \<and> unat (seg_index g) = i)"

definition frame_ok :: "frames_sent \<Rightarrow> u32 \<Rightarrow> u32 \<Rightarrow> nat \<Rightarrow> sim_frame \<Rightarrow> bool" where
  "frame_ok S lo hi j fr \<longleftrightarrow>
     (if fr_seg_number fr = 0 then fr_segments fr = []
      else INDEX (fr_fid fr) = j \<and> lo < fr_fid fr \<and> fr_fid fr \<le> hi
        \<and> fr_seg_number fr = int (length (S (fr_fid fr))) \<and> length (fr_segments fr) = length (S (fr_fid fr))
        \<and> (\<forall>i<length (fr_segments fr). seg_cell S (fr_fid fr) i (fr_segments fr ! i)))"

text \<open>The ring holds frames later than the last one taken and not beyond the ring's length.\<close>

definition cache_inv :: "frames_sent \<Rightarrow> sim_frame_cache \<Rightarrow> bool" where
  "cache_inv S c \<longleftrightarrow> fc_size c = 1024 \<and> length (fc_frames c) = CACHE_SIZE \<and> fc_min_fid c \<le> fc_max_fid c
     \<and> unat (fc_max_fid c) \<le> unat (fc_min_fid c) + CACHE_SIZE \<and> fc_max_fid c < 0xFFFFFFFF \<and> fc_min_seq c < 0xFFFFFFFF
     \<and> (\<forall>j<CACHE_SIZE. frame_ok S (fc_min_fid c) (fc_max_fid c) j (fc_frames c ! j))"

definition occupied :: "sim_frame_cache \<Rightarrow> nat \<Rightarrow> bool" where
  "occupied c j \<longleftrightarrow> fr_seg_number (fc_frames c ! j) \<noteq> 0"

text \<open>No occupied frame is earlier than \<open>i\<close>.\<close>

definition live_from :: "sim_frame_cache \<Rightarrow> nat \<Rightarrow> bool" where
  "live_from c i \<longleftrightarrow> (\<forall>j<CACHE_SIZE. occupied c j \<longrightarrow> i \<le> unat (fr_fid (fc_frames c ! j)))"

lemma INDEX_less [simp]: "INDEX i < 1024" "\<not> 1024 \<le> INDEX i"
  by (simp_all add: INDEX_def linorder_not_le)

lemma cache_inv_len [simp]: "cache_inv S c \<Longrightarrow> length (fc_frames c) = 1024"
  by (simp add: cache_inv_def)

lemma cache_inv_frame: "cache_inv S c \<Longrightarrow> j < 1024 \<Longrightarrow> frame_ok S (fc_min_fid c) (fc_max_fid c) j (fc_frames c ! j)"
  by (simp add: cache_inv_def)

text \<open>Fields that the invariant does not mention.\<close>

lemma cache_inv_frame_fields [simp]:
  "cache_inv S (c\<lparr>fc_frame_ts := a\<rparr>) = cache_inv S c" "cache_inv S (c\<lparr>fc_play_ts := b\<rparr>) = cache_inv S c"
  "cache_inv S (c\<lparr>fc_frame_timer := a\<rparr>) = cache_inv S c" "cache_inv S (c\<lparr>fc_state := k\<rparr>) = cache_inv S c"
  "cache_inv S (c\<lparr>fc_f := v\<rparr>) = cache_inv S c" "cache_inv S (c\<lparr>fc_max_ts := a\<rparr>) = cache_inv S c"
  "cache_inv S (c\<lparr>fc_play_frame_ts := a\<rparr>) = cache_inv S c" "cache_inv S (c\<lparr>fc_wait_timer := a\<rparr>) = cache_inv S c"
  "cache_inv S (c\<lparr>fc_loss_flag := k\<rparr>) = cache_inv S c"
  by (simp_all add: cache_inv_def)

lemma occupied_fid:
  assumes "cache_inv S c" and "j < 1024" and "occupied c j"
  shows "unat (fc_min_fid c) < unat (fr_fid (fc_frames c ! j))" and "unat (fr_fid (fc_frames c ! j)) \<le> unat (fc_max_fid c)"
    and "unat (fr_fid (fc_frames c ! j)) mod 1024 = j"
  using cache_inv_frame [OF assms(1,2)] assms(3)
  by (auto simp: frame_ok_def occupied_def INDEX_def word_less_nat_alt word_le_nat_alt split: if_splits)

lemma mod_window: "(a :: nat) mod 1024 = b mod 1024 \<Longrightarrow> a \<le> b \<Longrightarrow> b < a + 1024 \<Longrightarrow> a = b"
  using mod_neq_near [of a b 1024] by (cases "a = b") auto

text \<open>The cell of a counter within the ring's length holds the frame of that number or nothing.\<close>

lemma occupied_INDEX:
  assumes "cache_inv S c" and "occupied c (INDEX i)" and "live_from c (unat i)" and "unat i \<le> unat (fc_min_fid c) + 1024"
    and "unat (fc_max_fid c) < unat i + 1024"
  shows "fr_fid (fc_frames c ! INDEX i) = i"
proof -
  let ?f = "fr_fid (fc_frames c ! INDEX i)"
  have "unat i \<le> unat ?f" "unat ?f \<le> unat (fc_max_fid c)" "unat ?f mod 1024 = unat i mod 1024"
    using occupied_fid [OF assms(1) INDEX_less(1) assms(2)] assms(2,3) by (auto simp: live_from_def INDEX_def)
  then have "unat i = unat ?f"
    using mod_window [of "unat i" "unat ?f"] assms(5) by simp
  then show ?thesis by (simp add: word_unat_eq_iff)
qed

definition same_clock :: "sim_frame_cache \<Rightarrow> sim_frame_cache \<Rightarrow> bool" where
  "same_clock c c' \<longleftrightarrow> fc_max_fid c' = fc_max_fid c \<and> fc_min_fid c \<le> fc_min_fid c' \<and> fc_state c' = fc_state c
     \<and> fc_wait_timer c' = fc_wait_timer c \<and> fc_frame_timer c' = fc_frame_timer c \<and> fc_max_ts c' = fc_max_ts c"

lemma same_clock_refl [simp]: "same_clock c c"
  by (simp add: same_clock_def)

lemma same_clock_trans: "same_clock a b \<Longrightarrow> same_clock b c \<Longrightarrow> same_clock a c"
  by (auto simp: same_clock_def)

lemma clean_empty:
  "cache_inv S c \<Longrightarrow> j < 1024 \<Longrightarrow> \<not> occupied c j \<Longrightarrow> real_video_clean_frame j c = Some c"
  by (simp add: real_video_clean_frame_def occupied_def Let_def)

lemma clean_segments_less:
  "m < 0xFFFFFFFF \<Longrightarrow> (\<And>g. Some g \<in> set xs \<Longrightarrow> seg_last_id g < 0xFFFFFFFF) \<Longrightarrow> clean_segments xs m < 0xFFFFFFFF"
  by (induction xs m rule: clean_segments.induct) (auto simp: seg_last_id_def)

lemma frame_ok_last_id: "frame_ok S lo hi j fr \<Longrightarrow> Some g \<in> set (fr_segments fr) \<Longrightarrow> seg_last_id g < 0xFFFFFFFF"
  by (rule honest_last_id [of S]) (force simp: frame_ok_def seg_cell_def in_set_conv_nth split: if_splits option.splits)

text \<open>Removing the earliest frames in order keeps the invariant.\<close>

lemma clean_step:
  assumes "cache_inv S c" and "live_from c (unat i)" and "fc_min_fid c < i" and "unat (fc_max_fid c) < unat i + 1024"
    and "unat i \<le> unat (fc_min_fid c) + 1024"
  shows "\<exists>c'. real_video_clean_frame (INDEX i) c = Some c' \<and> cache_inv S c' \<and> live_from c' (Suc (unat i))
    \<and> fc_min_fid c' = (if occupied c (INDEX i) then i else fc_min_fid c) \<and> same_clock c c'
    \<and> fc_frame_ts c' = fc_frame_ts c"
proof (cases "occupied c (INDEX i)")
  case False
  have "Suc (unat i) \<le> unat (fr_fid (fc_frames c ! j))" if "j < 1024" "occupied c j" for j
  proof -
    have "unat i \<le> unat (fr_fid (fc_frames c ! j))" using assms(2) that by (simp add: live_from_def)
    moreover have "unat i \<noteq> unat (fr_fid (fc_frames c ! j))"
      using occupied_fid(3) [OF assms(1) that] False that(2) by (auto simp: INDEX_def)
    ultimately show ?thesis by simp
  qed
  then show ?thesis
    using False assms clean_empty [OF assms(1) INDEX_less(1) False] by (auto simp: live_from_def)
next
  case True
  let ?fr = "fc_frames c ! INDEX i"
  have fid: "fr_fid ?fr = i"
    by (rule occupied_INDEX [OF assms(1) True assms(2,5,4)])
  have fr: "frame_ok S (fc_min_fid c) (fc_max_fid c) (INDEX i) ?fr"
    using cache_inv_frame [OF assms(1) INDEX_less(1)] .
  define c' where "c' = c\<lparr>fc_min_seq := clean_segments (take (nat (fr_seg_number ?fr)) (fr_segments ?fr)) (fc_min_seq c),
     fc_play_frame_ts := fr_ts ?fr, fc_min_fid := i,
     fc_frames := (fc_frames c)[INDEX i := ?fr\<lparr>fr_ts := 0, fr_type := 0, fr_seg_number := 0, fr_segments := []\<rparr>]\<rparr>"
  have "real_video_clean_frame (INDEX i) c = Some c'"
    using fr True fid assms(1) by (simp add: real_video_clean_frame_def c'_def frame_ok_def occupied_def Let_def)
  moreover have le: "i \<le> fc_max_fid c"
    using fr True fid by (simp add: frame_ok_def occupied_def)
  have later: "i < fr_fid (fc_frames c ! j)" if "j < 1024" "occupied c j" "j \<noteq> INDEX i" for j
  proof -
    have "unat i \<le> unat (fr_fid (fc_frames c ! j))" using assms(2) that by (simp add: live_from_def)
    moreover have "unat i \<noteq> unat (fr_fid (fc_frames c ! j))"
      using occupied_fid(3) [OF assms(1) that(1,2)] that(3) by (auto simp: INDEX_def)
    ultimately show ?thesis by (simp add: word_less_nat_alt)
  qed
  have mseq: "fc_min_seq c' < 0xFFFFFFFF"
    using clean_segments_less [of "fc_min_seq c"] frame_ok_last_id [OF fr] assms(1)
    by (auto simp: c'_def cache_inv_def dest: in_set_takeD)
  have "frame_ok S i (fc_max_fid c) j (fc_frames c' ! j)" if "j < 1024" for j
    using cache_inv_frame [OF assms(1) that] later [of j] that assms(1)
    by (cases "j = INDEX i") (auto simp: c'_def frame_ok_def occupied_def)
  then have "cache_inv S c'"
    using assms(1,3) le mseq by (auto simp: cache_inv_def c'_def word_less_nat_alt)
  moreover have "live_from c' (Suc (unat i))"
    using later assms(1) by (auto simp: live_from_def occupied_def c'_def nth_list_update word_less_nat_alt Suc_le_eq)
  moreover have "same_clock c c'"
    using assms(3) by (simp add: same_clock_def c'_def)
  ultimately show ?thesis
    using True by (auto simp: c'_def)
qed

definition cleans :: "frames_sent \<Rightarrow> (u32 \<Rightarrow> sim_frame_cache \<Rightarrow> sim_frame_cache option) \<Rightarrow> bool" where
  "cleans S f \<longleftrightarrow> (\<forall>c i. cache_inv S c \<and> live_from c (unat i) \<and> fc_min_fid c < i \<and> unat (fc_max_fid c) < unat i + 1024
     \<and> unat i \<le> unat (fc_min_fid c) + 1024 \<longrightarrow>
     (\<exists>c'. f i c = Some c' \<and> cache_inv S c' \<and> live_from c' (Suc (unat i)) \<and> fc_min_fid c' \<le> i \<and> same_clock c c'))"

lemma cleans_clean: "cleans S (\<lambda>i. real_video_clean_frame (INDEX i))"
  unfolding cleans_def
proof (intro allI impI)
  fix c i assume a: "cache_inv S c \<and> live_from c (unat i) \<and> fc_min_fid c < i \<and> unat (fc_max_fid c) < unat i + 1024
     \<and> unat i \<le> unat (fc_min_fid c) + 1024"
  then obtain c' where "real_video_clean_frame (INDEX i) c = Some c'" "cache_inv S c'" "live_from c' (Suc (unat i))"
      "fc_min_fid c' = (if occupied c (INDEX i) then i else fc_min_fid c)" "same_clock c c'"
    using clean_step [of S c i] by blast
  then show "\<exists>c'. real_video_clean_frame (INDEX i) c = Some c' \<and> cache_inv S c' \<and> live_from c' (Suc (unat i))
      \<and> fc_min_fid c' \<le> i \<and> same_clock c c'"
    using a by auto
qed

lemma cleans_evict: "cleans S evict_gop_step"
  unfolding cleans_def
proof (intro allI impI)
  fix c i assume a: "cache_inv S c \<and> live_from c (unat i) \<and> fc_min_fid c < i \<and> unat (fc_max_fid c) < unat i + 1024
     \<and> unat i \<le> unat (fc_min_fid c) + 1024"
  define d where "d = c\<lparr>fc_frame_ts := fr_ts (fc_frames c ! INDEX i)\<rparr>"
  have "cache_inv S d \<and> live_from d (unat i) \<and> fc_min_fid d < i \<and> unat (fc_max_fid d) < unat i + 1024
     \<and> unat i \<le> unat (fc_min_fid d) + 1024"
    using a by (simp add: d_def live_from_def occupied_def)
  then obtain c' where "real_video_clean_frame (INDEX i) d = Some c'" "cache_inv S c'" "live_from c' (Suc (unat i))"
      "fc_min_fid c' \<le> i" "same_clock d c'"
    using cleans_clean [of S] unfolding cleans_def by blast
  moreover have "evict_gop_step i c = real_video_clean_frame (INDEX i) d"
    using cache_inv_len [of S c] a by (simp add: evict_gop_step_def d_def)
  ultimately show "\<exists>c'. evict_gop_step i c = Some c' \<and> cache_inv S c' \<and> live_from c' (Suc (unat i))
      \<and> fc_min_fid c' \<le> i \<and> same_clock c c'"
    by (auto simp: same_clock_def d_def)
qed

lemma live_from_min: "cache_inv S c \<Longrightarrow> live_from c (Suc (unat (fc_min_fid c)))"
  using occupied_fid(1) [of S c] by (auto simp: live_from_def Suc_le_eq)

lemma unat_min_Suc: "cache_inv S c \<Longrightarrow> unat (fc_min_fid c + 1) = Suc (unat (fc_min_fid c))"
  by (rule unat_Suc_u32 [of _ "0xFFFFFFFF"]) (auto simp: cache_inv_def)

lemma clean_range:
  assumes "cache_inv S c" and "cleans S f" and "pos \<le> fc_max_fid c \<or> pos = fc_min_fid c + 1"
  shows "\<exists>c'. for_lt f pos (fc_min_fid c + 1) c = Some c' \<and> cache_inv S c' \<and> same_clock c c'"
proof (cases "fc_min_fid c + 1 < pos")
  case False
  then show ?thesis using assms(1) by (simp add: for_lt.simps [of f pos])
next
  case True
  let ?I = "\<lambda>n c'. cache_inv S c' \<and> live_from c' n \<and> unat (fc_min_fid c') < n \<and> same_clock c c'"
  have pm: "pos \<le> fc_max_fid c" using assms(3) True by auto
  have mx: "unat pos \<le> unat (fc_min_fid c) + 1024" "unat (fc_max_fid c) \<le> unat (fc_min_fid c) + 1024"
    using pm assms(1) by (auto simp: cache_inv_def word_le_nat_alt)
  have "\<exists>c'. opt_fold f (u32_upt (unat (fc_min_fid c + 1)) (unat pos)) c = Some c' \<and> ?I (unat pos) c'"
  proof (rule opt_fold_upt_inv)
    show "unat (fc_min_fid c + 1) \<le> unat pos" using True by (simp add: word_less_nat_alt)
    show "unat pos \<le> 4294967296" using unat_u32 [of pos] by simp
    show "?I (unat (fc_min_fid c + 1)) c"
      using assms(1) live_from_min [OF assms(1)] unat_min_Suc [OF assms(1)] by simp
  next
    fix n c' assume n: "unat (fc_min_fid c + 1) \<le> n" "n < unat pos" and I: "?I n c'"
    have u: "unat (word_of_nat n :: u32) = n"
      using n(2) unat_u32 [of pos] by (simp add: unat_of_nat)
    have "fc_min_fid c' < word_of_nat n" "unat (fc_max_fid c') < unat (word_of_nat n :: u32) + 1024"
        "unat (word_of_nat n :: u32) \<le> unat (fc_min_fid c') + 1024"
      using I n mx unat_min_Suc [OF assms(1)] u by (auto simp: word_less_nat_alt same_clock_def word_le_nat_alt)
    then obtain c'' where "f (word_of_nat n) c' = Some c''" "cache_inv S c''" "live_from c'' (Suc n)"
        "fc_min_fid c'' \<le> word_of_nat n" "same_clock c' c''"
      using assms(2) I u unfolding cleans_def by metis
    then show "\<exists>x'. f (word_of_nat n) c' = Some x' \<and> ?I (Suc n) x'"
      using I u same_clock_trans [of c c' c''] by (auto simp: word_le_nat_alt)
  qed
  then show ?thesis by (auto simp: for_lt_fold)
qed

lemma find_lt_stop: "\<not> i < b \<Longrightarrow> find_lt p b i = Some i"
  by (simp add: find_lt.simps [of p b i])

lemma frame_type_total: "cache_inv S c \<Longrightarrow> map_option f (frame_type_at c j) \<noteq> None"
  by (simp add: frame_type_at_def)

lemma evict_gop_ok:
  assumes "cache_inv S c"
  shows "\<exists>c'. evict_gop_frame c = Some c' \<and> cache_inv S c' \<and> same_clock c c'"
proof -
  obtain i where i: "find_lt (\<lambda>i. map_option (\<lambda>t. t = 1) (frame_type_at c i)) (fc_max_fid c) (fc_min_fid c + 2) = Some i"
    using find_lt_spec [of "fc_min_fid c + 2" "fc_max_fid c"] frame_type_total [OF assms] by (metis (no_types, lifting))
  define key where "key = (if i < fc_max_fid c then i else 0)"
  have eq: "evict_gop_frame c = (if key = 0 then Some c else for_lt evict_gop_step key (fc_min_fid c + 1) c)"
    using i by (simp add: evict_gop_frame_def key_def)
  show ?thesis
  proof (cases "key = 0")
    case False
    then have "key \<le> fc_max_fid c" by (auto simp: key_def split: if_splits)
    then show ?thesis using clean_range [OF assms cleans_evict] False eq by simp
  qed (use assms eq in simp)
qed

lemma evict_frame_ok:
  assumes "cache_inv S c" and "fc_max_fid c < fid" and "unat fid \<le> unat (fc_min_fid c) + 1024" and "fid < 0xFFFFFFFF"
  shows "\<exists>c'. real_video_evict_frame fid c = Some c' \<and> cache_inv S c' \<and> same_clock c c'"
proof -
  have free: "real_video_clean_frame (INDEX i) c = Some c" if i: "i \<in> set (u32_upt (unat (fc_max_fid c + 1)) (Suc (unat fid)))" for i
  proof -
    have "unat (fc_max_fid c) < unat i" "unat i \<le> unat fid"
      using i unat_u32 [of fid] unat_Suc_u32 [OF assms(2)] by (auto simp: in_u32_upt)
    then have "\<not> occupied c (INDEX i)"
      using occupied_fid [OF assms(1) INDEX_less(1), of i] mod_window [of "unat (fr_fid (fc_frames c ! INDEX i))" "unat i"] assms(3)
      by (force simp: INDEX_def)
    then show ?thesis by (rule clean_empty [OF assms(1) INDEX_less(1)])
  qed
  have "\<exists>x'. opt_fold (\<lambda>pos. real_video_clean_frame (INDEX pos)) (u32_upt (unat (fc_max_fid c + 1)) (Suc (unat fid))) c = Some x' \<and> x' = c"
    by (rule opt_fold_inv) (use free in auto)
  then have first: "for_le (\<lambda>pos. real_video_clean_frame (INDEX pos)) fid (fc_max_fid c + 1) c = Some c"
    by (simp add: for_le_fold [OF assms(4)])
  obtain pos where pos: "find_lt (\<lambda>i. map_option (\<lambda>t. t = 1) (frame_type_at c i)) (fc_max_fid c) (fc_min_fid c + 1) = Some pos"
      "pos \<le> fc_max_fid c \<or> pos = fc_min_fid c + 1"
    using find_lt_spec [of "fc_min_fid c + 1" "fc_max_fid c" "\<lambda>i. map_option (\<lambda>t. t = 1) (frame_type_at c i)"]
      frame_type_total [OF assms(1)] find_lt_stop [of "fc_min_fid c + 1" "fc_max_fid c" "\<lambda>i. map_option (\<lambda>t. t = 1) (frame_type_at c i)"]
    by (cases "fc_min_fid c + 1 < fc_max_fid c") auto
  show ?thesis
    using first pos(1) clean_range [OF assms(1) cleans_clean pos(2)] assms(1)
    by (auto simp: real_video_evict_frame_def)
qed

subsection \<open>Putting\<close>

lemma frame_ok_mono: "frame_ok S lo hi j fr \<Longrightarrow> hi \<le> hi' \<Longrightarrow> frame_ok S lo hi' j fr"
  by (auto simp: frame_ok_def)

lemma cache_inv_max:
  assumes "cache_inv S c" and "fc_max_fid c \<le> fid" and "unat fid \<le> unat (fc_min_fid c) + 1024" and "fid < 0xFFFFFFFF"
  shows "cache_inv S (c\<lparr>fc_max_fid := fid\<rparr>)"
  using assms frame_ok_mono [OF _ assms(2)] by (auto simp: cache_inv_def)

lemma cache_inv_first:
  assumes "cache_inv S c" and "fc_max_fid c = 0"
  shows "fc_min_fid c = 0" and "\<not> occupied c j \<or> 1024 \<le> j" and "cache_inv S (c\<lparr>fc_min_fid := m, fc_max_fid := m\<rparr>) \<or> m = 0xFFFFFFFF"
proof -
  show z: "fc_min_fid c = 0" using assms by (simp add: cache_inv_def)
  have free: "\<not> occupied c j" if "j < 1024" for j
    using occupied_fid [OF assms(1) that] assms(2) z by auto
  then show "\<not> occupied c j \<or> 1024 \<le> j" by (meson linorder_not_le)
  have "m < 0xFFFFFFFF \<or> m = 0xFFFFFFFF"
    using le_neq_trans [OF u32_max [of m]] by blast
  moreover have "cache_inv S (c\<lparr>fc_min_fid := m, fc_max_fid := m\<rparr>)" if "m < 0xFFFFFFFF"
  proof -
    have "frame_ok S m m j (fc_frames c ! j)" if "j < 1024" for j
      using cache_inv_frame [OF assms(1) that] free [OF that] by (simp add: frame_ok_def occupied_def)
    then show ?thesis
      using assms(1) that by (simp add: cache_inv_def)
  qed
  ultimately show "cache_inv S (c\<lparr>fc_min_fid := m, fc_max_fid := m\<rparr>) \<or> m = 0xFFFFFFFF" by blast
qed

text \<open>When a segment may be put: its frame is at most the ring's length ahead of the last frame taken.\<close>

definition put_in_window :: "sim_frame_cache \<Rightarrow> sim_segment \<Rightarrow> bool" where
  "put_in_window c g \<longleftrightarrow> seg_fid g < 0xFFFFFFFF
     \<and> (fc_max_fid c = 0 \<or> unat (seg_fid g) \<le> unat (fc_min_fid c) + CACHE_SIZE)"

lemma cache_advance_ok:
  assumes "cache_inv S c" and "put_in_window c g" and "fc_max_fid c < seg_fid g"
  shows "\<exists>c'. cache_advance g c = Some c' \<and> cache_inv S c' \<and> fc_min_fid c' < seg_fid g \<and> fc_max_fid c' = seg_fid g
    \<and> fc_min_fid c \<le> fc_min_fid c'"
proof (cases "fc_max_fid c = 0")
  case True
  note z = cache_inv_first [OF assms(1) True]
  define c1 where "c1 = c\<lparr>fc_min_fid := seg_fid g - 1, fc_play_frame_ts := seg_timestamp g\<rparr>"
  have "seg_fid g \<noteq> 0" using assms(3) by auto
  then have "unat (seg_fid g - 1) = unat (seg_fid g) - 1" "0 < unat (seg_fid g)"
    by (auto simp: unat_minus_one unat_gt_0)
  then have m: "seg_fid g - 1 < seg_fid g" "seg_fid g - 1 \<le> seg_fid g" "unat (seg_fid g) = Suc (unat (seg_fid g - 1))"
    by (simp_all add: word_less_nat_alt word_le_nat_alt)
  then have "seg_fid g - 1 \<noteq> 0xFFFFFFFF"
    using assms(2) by (auto simp: put_in_window_def word_less_nat_alt)
  then have "cache_inv S (c\<lparr>fc_min_fid := seg_fid g - 1, fc_max_fid := seg_fid g - 1\<rparr>)"
    using z(3) by blast
  from cache_inv_max [OF this, of "seg_fid g"] have "cache_inv S (c1\<lparr>fc_max_fid := seg_fid g\<rparr>)"
    using m assms(2) by (simp add: put_in_window_def c1_def cache_inv_def)
  then show ?thesis
    using True z(1) m by (auto simp: cache_advance_def c1_def Let_def cache_inv_def)
next
  case False
  have w: "unat (seg_fid g) \<le> unat (fc_min_fid c) + 1024" "seg_fid g < 0xFFFFFFFF"
    using assms(2) False by (simp_all add: put_in_window_def)
  obtain c1 where c1: "real_video_evict_frame (seg_fid g) c = Some c1" "cache_inv S c1" "same_clock c c1"
    using evict_frame_ok [OF assms(1,3) w] by blast
  then have "fc_min_fid c1 \<le> fc_max_fid c1" "fc_max_fid c1 = fc_max_fid c" "fc_min_fid c \<le> fc_min_fid c1"
    by (auto simp: cache_inv_def same_clock_def)
  moreover from this have "cache_inv S (c1\<lparr>fc_max_fid := seg_fid g\<rparr>)"
    using c1(2) assms(3) w by (intro cache_inv_max) (auto simp: word_le_nat_alt word_less_nat_alt)
  ultimately show ?thesis
    using False c1(1) assms(3) by (auto simp: cache_advance_def Let_def cache_inv_def word_neq_0_conv)
qed

lemma cache_store_ok:
  assumes "cache_inv S c" and "honest S g" and "fc_min_fid c < seg_fid g" and "seg_fid g \<le> fc_max_fid c"
  shows "\<exists>c' ret. cache_store g c = Some (c', ret) \<and> cache_inv S c' \<and> fc_min_fid c' = fc_min_fid c"
proof -
  let ?p = "INDEX (seg_fid g)"
  let ?fr = "fc_frames c ! ?p"
  define fr where "fr = ?fr\<lparr>fr_fid := seg_fid g, fr_type := uint (seg_ftype g), fr_ts := seg_timestamp g\<rparr>"
  define fr1 where "fr1 = (if fr_seg_number fr = 0
    then fr\<lparr>fr_seg_number := uint (seg_total g), fr_segments := replicate (unat (seg_total g)) None\<rparr> else fr)"
  have old: "frame_ok S (fc_min_fid c) (fc_max_fid c) ?p ?fr"
    by (rule cache_inv_frame [OF assms(1) INDEX_less(1)])
  have fid: "fr_fid ?fr = seg_fid g" if "occupied c ?p"
  proof -
    note o = occupied_fid [OF assms(1) INDEX_less(1) that]
    have "unat (seg_fid g) \<le> unat (fc_min_fid c) + 1024" "unat (fc_max_fid c) \<le> unat (fc_min_fid c) + 1024"
        "unat (fc_min_fid c) < unat (seg_fid g)"
      using assms by (auto simp: cache_inv_def word_le_nat_alt word_less_nat_alt)
    then have "unat (fr_fid ?fr) = unat (seg_fid g)"
      using o mod_window [of "unat (fr_fid ?fr)" "unat (seg_fid g)"] mod_window [of "unat (seg_fid g)" "unat (fr_fid ?fr)"]
      by (cases "unat (fr_fid ?fr) \<le> unat (seg_fid g)") (auto simp: INDEX_def)
    then show ?thesis by (simp add: word_unat_eq_iff)
  qed
  have tot: "uint (seg_total g) = int (length (S (seg_fid g)))" "unat (seg_total g) = length (S (seg_fid g))"
      "unat (seg_index g) < length (S (seg_fid g))"
    using assms(2) by (auto simp: honest_def uint_nat)
  have "fr_fid fr1 = seg_fid g \<and> fr_seg_number fr1 = int (length (S (seg_fid g))) \<and> length (fr_segments fr1) = length (S (seg_fid g))
      \<and> (\<forall>i<length (S (seg_fid g)). seg_cell S (seg_fid g) i (fr_segments fr1 ! i))"
  proof (cases "occupied c ?p")
    case True
    then show "fr_fid fr1 = seg_fid g \<and> fr_seg_number fr1 = int (length (S (seg_fid g))) \<and> length (fr_segments fr1) = length (S (seg_fid g))
        \<and> (\<forall>i<length (S (seg_fid g)). seg_cell S (seg_fid g) i (fr_segments fr1 ! i))"
      using old fid [OF True] by (simp add: fr1_def fr_def frame_ok_def occupied_def)
  next
    case False
    then show "fr_fid fr1 = seg_fid g \<and> fr_seg_number fr1 = int (length (S (seg_fid g))) \<and> length (fr_segments fr1) = length (S (seg_fid g))
        \<and> (\<forall>i<length (S (seg_fid g)). seg_cell S (seg_fid g) i (fr_segments fr1 ! i))"
      using tot by (simp add: fr1_def fr_def occupied_def seg_cell_def)
  qed
  then have fr1: "fr_fid fr1 = seg_fid g" "fr_seg_number fr1 = int (length (S (seg_fid g)))" "length (fr_segments fr1) = length (S (seg_fid g))"
      "\<forall>i<length (S (seg_fid g)). seg_cell S (seg_fid g) i (fr_segments fr1 ! i)"
    by blast+
  have new: "frame_ok S (fc_min_fid c) (fc_max_fid c) ?p fr1"
      "frame_ok S (fc_min_fid c) (fc_max_fid c) ?p (fr1\<lparr>fr_segments := (fr_segments fr1)[unat (seg_index g) := Some g]\<rparr>)"
    using fr1 assms tot by (auto simp: frame_ok_def nth_list_update seg_cell_def)
  have inv: "cache_inv S (c\<lparr>fc_frames := (fc_frames c)[?p := x]\<rparr>)" if "frame_ok S (fc_min_fid c) (fc_max_fid c) ?p x" for x
    using assms(1) that by (auto simp: cache_inv_def nth_list_update)
  have keep: "fr = fr1" if "fr_seg_number fr \<noteq> 0"
    using that by (simp add: fr1_def)
  have eq: "cache_store g c = (if fr_seg_number fr = 0 \<or> fr_segments fr ! unat (seg_index g) = None
     then Some (c\<lparr>fc_frames := (fc_frames c)[?p := fr1\<lparr>fr_segments := (fr_segments fr1)[unat (seg_index g) := Some g]\<rparr>]\<rparr>, 0)
     else Some (c\<lparr>fc_frames := (fc_frames c)[?p := fr]\<rparr>, -1))"
    using fr1(3) tot assms(1) unfolding cache_store_def Let_def fr_def [symmetric] fr1_def [symmetric] by auto
  show ?thesis
    using inv [OF new(1)] inv [OF new(2)] keep unfolding eq by auto
qed

lemma real_video_cache_put_ok:
  assumes "cache_inv S c" and "honest S g" and "put_in_window c g"
  shows "\<exists>c' ret. real_video_cache_put g c = Some (c', ret) \<and> cache_inv S c' \<and> fc_min_fid c \<le> fc_min_fid c'"
proof -
  have idx: "\<not> seg_total g \<le> seg_index g"
    using assms(2) by (simp add: honest_def word_le_nat_alt)
  show ?thesis
  proof (cases "seg_fid g \<le> fc_min_fid c")
    case True
    then show ?thesis using idx assms(1) by (simp add: real_video_cache_put_def)
  next
    case False
    have put: "real_video_cache_put g c = Option.bind (if fc_max_fid c < seg_fid g then cache_advance g c else Some c) (cache_store g)"
      using False idx by (simp add: real_video_cache_put_def)
    show ?thesis
    proof (cases "fc_max_fid c < seg_fid g")
      case True
      obtain c1 where c1: "cache_advance g c = Some c1" "cache_inv S c1" "fc_min_fid c1 < seg_fid g" "fc_max_fid c1 = seg_fid g"
          "fc_min_fid c \<le> fc_min_fid c1"
        using cache_advance_ok [OF assms(1,3) True] by blast
      then show ?thesis
        using cache_store_ok [OF c1(2) assms(2) c1(3)] put True by fastforce
    next
      case le: False
      then show ?thesis
        using cache_store_ok [OF assms(1,2)] False put by fastforce
    qed
  qed
qed

subsection \<open>Taking\<close>

definition frame_full :: "sim_frame \<Rightarrow> bool" where
  "frame_full fr \<longleftrightarrow> fr_seg_number fr \<noteq> 0 \<and> None \<notin> set (fr_segments fr)"

lemma check_full:
  assumes "frame_ok S lo hi j fr"
  shows "real_video_cache_check_frame_full fr = Some (if frame_full fr then 0 else -1)"
proof (cases "fr_seg_number fr = 0")
  case True
  then show ?thesis by (simp add: real_video_cache_check_frame_full_def frame_full_def)
next
  case False
  then have "fr_seg_number fr = int (length (fr_segments fr))" "fr_segments fr \<noteq> []"
    using assms by (auto simp: frame_ok_def)
  then show ?thesis
    by (simp add: real_video_cache_check_frame_full_def frame_full_def)
qed

lemma ready_loop_total:
  assumes "cache_inv S c"
  shows "\<exists>r'. ready_loop c i r = Some r'"
proof (induction "Suc (unat (fc_max_fid c)) - unat i" arbitrary: i r)
  case 0
  then have "\<not> i \<le> fc_max_fid c" by (simp add: word_le_nat_alt)
  then show ?case by (simp add: ready_loop.simps [of c i])
next
  case (Suc n)
  then have i: "i \<le> fc_max_fid c" by (simp add: word_le_nat_alt)
  have "i < 0xFFFFFFFF"
    using i assms by (auto simp: cache_inv_def)
  from unat_Suc_u32 [OF this] have "n = Suc (unat (fc_max_fid c)) - unat (i + 1)"
    using Suc.hyps(2) by simp
  from Suc.hyps(1) [OF this] show ?case
    using i assms check_full [OF cache_inv_frame [OF assms INDEX_less(1)], of i]
    by (simp add: ready_loop.simps [of c i] Let_def)
qed

lemma ready_ms_total: "cache_inv S c \<Longrightarrow> \<exists>t. real_video_ready_ms c = Some t"
  using ready_loop_total [of S c "fc_min_fid c + 1" "(0, 0)"] by (auto simp: real_video_ready_ms_def)

text \<open>Copying the segments of a whole frame gives the bytes of its packets when they fit, and size 0 when not.\<close>

lemma copy_segments_ok:
  assumes "list_all (\<lambda>g. length (seg_data g) = SIM_VIDEO_SIZE \<and> unat (seg_data_size g) \<le> SIM_VIDEO_SIZE) gs"
  shows "\<exists>out' n ty'. copy_segments cap (map Some gs) out ty = Some (out', n, ty')
    \<and> (if length out + length (concat (map seg_payload gs)) \<le> cap \<or> gs = []
       then out' = out @ concat (map seg_payload gs) \<and> n = length out' else n = 0)"
  using assms
proof (induction gs arbitrary: out ty)
  case (Cons g gs)
  have p: "length (seg_payload g) = unat (seg_data_size g)" "unat (seg_data_size g) \<le> SIM_VIDEO_SIZE"
      "unat (seg_data_size g) \<le> length (seg_data g)"
    using Cons.prems by (auto simp: seg_payload_def)
  show ?case
  proof (cases "length out + unat (seg_data_size g) \<le> cap")
    case True
    then have step: "copy_segments cap (map Some (g # gs)) out ty = copy_segments cap (map Some gs) (out @ seg_payload g) (seg_payload_type g)"
      using p by (simp add: seg_payload_def)
    obtain out' n ty' where "copy_segments cap (map Some gs) (out @ seg_payload g) (seg_payload_type g) = Some (out', n, ty')"
        "if length (out @ seg_payload g) + length (concat (map seg_payload gs)) \<le> cap \<or> gs = []
         then out' = (out @ seg_payload g) @ concat (map seg_payload gs) \<and> n = length out' else n = 0"
      using Cons.IH [of "out @ seg_payload g" "seg_payload_type g"] Cons.prems by auto
    then show ?thesis
      unfolding step using True p by (auto split: if_splits)
  next
    case False
    then show ?thesis using p by simp
  qed
qed simp

text \<open>A full frame holds the packets of the frame sent.\<close>

lemma full_frame_segments:
  assumes "frame_ok S lo hi j fr" and "frame_full fr"
  shows "\<exists>gs. take (nat (fr_seg_number fr)) (fr_segments fr) = map Some gs \<and> map seg_payload gs = S (fr_fid fr)
    \<and> list_all (\<lambda>g. length (seg_data g) = SIM_VIDEO_SIZE \<and> unat (seg_data_size g) \<le> SIM_VIDEO_SIZE) gs"
proof -
  define gs where "gs = map the (fr_segments fr)"
  have len: "fr_seg_number fr = int (length (S (fr_fid fr)))" "length (fr_segments fr) = length (S (fr_fid fr))"
      "\<forall>i<length (fr_segments fr). seg_cell S (fr_fid fr) i (fr_segments fr ! i)"
    using assms by (auto simp: frame_ok_def frame_full_def)
  have cell: "fr_segments fr ! i = Some (gs ! i) \<and> honest S (gs ! i) \<and> seg_fid (gs ! i) = fr_fid fr \<and> unat (seg_index (gs ! i)) = i"
    if i: "i < length (S (fr_fid fr))" for i
  proof -
    have "fr_segments fr ! i \<in> set (fr_segments fr)" using i len(2) by simp
    then have "fr_segments fr ! i \<noteq> None"
      using assms(2) unfolding frame_full_def by metis
    then obtain g where "fr_segments fr ! i = Some g" by blast
    then show ?thesis using len(2,3) i by (auto simp: gs_def seg_cell_def)
  qed
  have l: "length gs = length (S (fr_fid fr))" using len(2) by (simp add: gs_def)
  have "fr_segments fr = map Some gs" "map seg_payload gs = S (fr_fid fr)"
    using cell l len(2) by (auto intro!: nth_equalityI simp: honest_def)
  moreover have "list_all (\<lambda>g. length (seg_data g) = SIM_VIDEO_SIZE \<and> unat (seg_data_size g) \<le> SIM_VIDEO_SIZE) gs"
    using cell l by (auto simp: list_all_length honest_def)
  ultimately show ?thesis using l len(1) by auto
qed

text \<open>What taking a frame must give: its bytes, or size 0 when the caller's buffer is too small.\<close>

definition delivered :: "frames_sent \<Rightarrow> nat \<Rightarrow> u32 \<Rightarrow> play_result \<Rightarrow> bool" where
  "delivered S cap fid r \<longleftrightarrow> S fid \<noteq> []
     \<and> (if length (concat (S fid)) \<le> cap then pr_size r = length (concat (S fid)) \<and> pr_out r = concat (S fid) else pr_size r = 0)"

lemma cache_take_ok:
  assumes "cache_inv S c" and "frame_full (fc_frames c ! INDEX (fc_min_fid c + 1))"
  shows "\<exists>c' r. cache_take space cap (INDEX (fc_min_fid c + 1)) c = Some (c', r) \<and> cache_inv S c' \<and> fc_min_fid c \<le> fc_min_fid c'
    \<and> (pr_ret r = 0 \<longrightarrow> fc_min_fid c < fc_min_fid c' \<and> delivered S cap (fc_min_fid c') r)
    \<and> (pr_ret r \<noteq> 0 \<longrightarrow> r = no_play (-1))"
proof -
  let ?i = "fc_min_fid c + 1"
  let ?fr = "fc_frames c ! INDEX ?i"
  have u: "unat ?i = Suc (unat (fc_min_fid c))" by (rule unat_min_Suc [OF assms(1)])
  have mx: "unat (fc_max_fid c) < unat ?i + 1024" "unat ?i \<le> unat (fc_min_fid c) + 1024" "fc_min_fid c < ?i"
    using assms(1) u by (auto simp: cache_inv_def word_less_nat_alt)
  have live: "live_from c (unat ?i)" using live_from_min [OF assms(1)] u by simp
  have occ: "occupied c (INDEX ?i)" using assms(2) by (simp add: frame_full_def occupied_def)
  have fid: "fr_fid ?fr = ?i" by (rule occupied_INDEX [OF assms(1) occ live mx(2,1)])
  obtain gs where gs: "take (nat (fr_seg_number ?fr)) (fr_segments ?fr) = map Some gs" "map seg_payload gs = S ?i"
      "list_all (\<lambda>g. length (seg_data g) = SIM_VIDEO_SIZE \<and> unat (seg_data_size g) \<le> SIM_VIDEO_SIZE) gs"
    using full_frame_segments [OF cache_inv_frame [OF assms(1) INDEX_less(1)] assms(2)] fid by auto
  have ne: "S ?i \<noteq> []"
    using cache_inv_frame [OF assms(1) INDEX_less(1), of ?i] occ fid by (auto simp: frame_ok_def occupied_def)
  obtain t where t: "real_video_ready_ms c = Some t" using ready_ms_total [OF assms(1)] by blast
  obtain out n ty where cp: "copy_segments cap (map Some gs) [] 0 = Some (out, n, ty)"
      "if length (concat (S ?i)) \<le> cap then out = concat (S ?i) \<and> n = length out else n = 0"
  proof -
    have "gs \<noteq> []" using gs(2) ne by auto
    then show ?thesis using copy_segments_ok [OF gs(3), of cap "[]" 0] gs(2) that by auto
  qed
  have clean: "\<exists>c'. real_video_clean_frame (INDEX ?i) (c\<lparr>fc_frame_ts := a, fc_play_frame_ts := b\<rparr>) = Some c' \<and> cache_inv S c' \<and> fc_min_fid c' = ?i"
    for a b
  proof -
    let ?d = "c\<lparr>fc_frame_ts := a, fc_play_frame_ts := b\<rparr>"
    have "cache_inv S ?d" "live_from ?d (unat ?i)" "fc_min_fid ?d < ?i" "unat (fc_max_fid ?d) < unat ?i + 1024"
        "unat ?i \<le> unat (fc_min_fid ?d) + 1024" "occupied ?d (INDEX ?i)"
      using assms(1) live mx occ by (simp_all add: live_from_def occupied_def)
    from clean_step [OF this(1-5)] this(6) show ?thesis by auto
  qed
  have r: "delivered S cap ?i \<lparr>pr_ret = 0, pr_out = out, pr_size = n, pr_type = ty\<rparr>"
    using cp(2) ne by (auto simp: delivered_def split: if_splits)
  consider (wait) "fc_frame_ts c + 2 * space < fr_ts ?fr \<and> space < t" | (play) "\<not> (fc_frame_ts c + 2 * space < fr_ts ?fr \<and> space < t)"
      "fr_ts ?fr \<le> fc_frame_ts c" | (early) "\<not> (fc_frame_ts c + 2 * space < fr_ts ?fr \<and> space < t)" "\<not> fr_ts ?fr \<le> fc_frame_ts c"
    by blast
  then show ?thesis
  proof cases
    case play
    define a where "a = (if space < t then fr_ts ?fr + 2 else fr_ts ?fr)"
    obtain c' where "real_video_clean_frame (INDEX ?i) (c\<lparr>fc_frame_ts := a, fc_play_frame_ts := fr_ts ?fr\<rparr>) = Some c'"
        "cache_inv S c'" "fc_min_fid c' = ?i"
      using clean [where a = a and b = "fr_ts ?fr"] by blast
    then show ?thesis
      using play t cp(1) gs(1) r mx(3) by (auto simp: cache_take_def Let_def a_def)
  qed (use assms(1) t in \<open>auto simp: cache_take_def Let_def no_play_def\<close>)
qed

lemma play_speed_range: "fin_in (1 / 2) 2 (play_speed space c)"
proof -
  have "frep TYPE(24) (1 / 2)"
    unfolding frep_def by (rule float_rep_frac [of 1 1]) simp_all
  then have "fin_in (1 / 2) 2 (fp_lit x :: float)" if "1 / 2 \<le> x" "x \<le> 2" for x
    using that by (intro fin_in_lit) simp_all
  then show ?thesis by (simp add: play_speed_def)
qed

text \<open>A clock below 2^30 ms (12 days) keeps the conversion of the elapsed time defined.\<close>

lemma sync_timestamp_ok:
  assumes "cache_inv S c" and "fin_in (1 / 2) 2 (fc_f c)" and "0 \<le> sys_ts" and "sys_ts < 1073741824"
  shows "\<exists>c'. real_video_cache_sync_timestamp sys_ts c = Some c' \<and> cache_inv S c' \<and> same_clock c c'"
proof (cases "fc_play_ts c < word_of_int sys_ts")
  case False
  then show ?thesis using assms(1) by (simp add: real_video_cache_sync_timestamp_def)
next
  case True
  define d where "d = uint (word_of_int sys_ts - fc_play_ts c)"
  have s: "uint (word_of_int sys_ts :: u64) = sys_ts"
    using assms(3,4) by (simp add: uint_word_of_int take_bit_eq_mod)
  have "d \<le> uint (word_of_int sys_ts :: u64)"
    using True unfolding d_def by (metis less_imp_le uint_sub_ge uint_sub_lem word_le_def word_sub_le_iff)
  then have d: "0 \<le> d" "d \<le> 1073741824"
    using s assms(4) by (simp_all add: d_def)
  have f30: "frep TYPE(24) 1073741824" "frep TYPE(24) 2147483648"
    using float_rep [of 1 30 1073741824] float_rep [of 1 31 2147483648] by (simp_all add: frep_def)
  have "real_of_int d \<le> real_of_int 1073741824"
    using d(2) by (simp only: of_int_le_iff)
  then have "fin_in 0 1073741824 (fp_of_int d :: float)"
    using d(1) f30 by (intro fin_in_of_int) simp_all
  then have "fin_in 0 2147483648 (fp_of_int d * fc_f c)"
    by (rule fin_in_mul [OF _ assms(2)]) (simp_all add: f30)
  then obtain w where "fp_to_u32 (fp_of_int d * fc_f c) = Some w"
    using fin_in_to_u32 [of 0 2147483648] by auto
  then show ?thesis
    using True assms(1) by (simp add: real_video_cache_sync_timestamp_def d_def same_clock_def Let_def)
qed

lemma check_playing_ok:
  "cache_inv S c \<Longrightarrow> cache_inv S (real_video_cache_check_playing t c) \<and> fc_min_fid (real_video_cache_check_playing t c) = fc_min_fid c"
  by (simp add: real_video_cache_check_playing_def Let_def)

lemma real_video_cache_get_ok:
  assumes "cache_inv S c" and "0 \<le> sync_ts" and "sync_ts < 1073741824"
  shows "\<exists>c' r. real_video_cache_get play_ts sync_ts cap c = Some (c', r) \<and> cache_inv S c' \<and> fc_min_fid c \<le> fc_min_fid c'
    \<and> (pr_ret r = 0 \<longrightarrow> fc_min_fid c < fc_min_fid c' \<and> delivered S cap (fc_min_fid c') r)
    \<and> (pr_ret r \<noteq> 0 \<longrightarrow> r = no_play (-1))"
proof -
  define c1 where "c1 = (if fc_state c = buffer_waiting then real_video_cache_check_playing play_ts c else c)"
  have c1: "cache_inv S c1" "fc_min_fid c1 = fc_min_fid c"
    using check_playing_ok [OF assms(1)] assms(1) by (simp_all add: c1_def)
  show ?thesis
  proof (cases "fc_state c1 \<noteq> buffer_playing \<or> fc_min_fid c1 = fc_max_fid c1")
    case True
    then show ?thesis using c1 by (simp add: real_video_cache_get_def c1_def [symmetric] no_play_def)
  next
    case False
    define space where "space = su_max (fc_wait_timer c1) (fc_frame_timer c1)"
    have "cache_inv S (c1\<lparr>fc_f := play_speed space c1\<rparr>)" "fin_in (1 / 2) 2 (fc_f (c1\<lparr>fc_f := play_speed space c1\<rparr>))"
      using c1(1) play_speed_range by simp_all
    from sync_timestamp_ok [OF this assms(2,3)] obtain c2 where
      c2: "real_video_cache_sync_timestamp sync_ts (c1\<lparr>fc_f := play_speed space c1\<rparr>) = Some c2" "cache_inv S c2"
        "fc_min_fid c1 \<le> fc_min_fid c2"
      by (auto simp: same_clock_def)
    obtain c3 where c3: "(if fc_play_frame_ts c2 + su_max MAX_VIDEO_DELAY_MS (4 * fc_wait_timer c2) < fc_max_ts c2 then evict_gop_frame c2 else Some c2)
        = Some c3" "cache_inv S c3" "fc_min_fid c2 \<le> fc_min_fid c3"
    proof (cases "fc_play_frame_ts c2 + su_max MAX_VIDEO_DELAY_MS (4 * fc_wait_timer c2) < fc_max_ts c2")
      case True
      then show ?thesis using that evict_gop_ok [OF c2(2)] by (auto simp: same_clock_def)
    next
      case False
      then show ?thesis using that [of c2] c2(2) by simp
    qed
    let ?fr = "fc_frames c3 ! INDEX (fc_min_fid c3 + 1)"
    have full: "real_video_cache_check_frame_full ?fr = Some (if frame_full ?fr then 0 else -1)"
      by (rule check_full [OF cache_inv_frame [OF c3(2) INDEX_less(1)]])
    define go where "go \<longleftrightarrow> (fc_min_fid c3 + 1 = fr_fid ?fr \<or> fr_type ?fr = 1) \<and> frame_full ?fr"
    have eq: "real_video_cache_get play_ts sync_ts cap c
        = (if go then cache_take space cap (INDEX (fc_min_fid c3 + 1)) c3 else Some (c3, no_play (-1)))"
      using False c2(1) c3(1) full c3(2)
      unfolding real_video_cache_get_def Let_def c1_def [symmetric] space_def [symmetric] by (auto simp: go_def)
    have le: "fc_min_fid c \<le> fc_min_fid c3"
      using c1(2) c2(3) c3(3) by simp
    show ?thesis
    proof (cases go)
      case True
      then have "frame_full ?fr" by (simp add: go_def)
      from cache_take_ok [OF c3(2) this, of space cap] show ?thesis
        using eq True le by fastforce
    next
      case False
      then show ?thesis using eq c3(2) le by (simp add: no_play_def)
    qed
  qed
qed

subsection \<open>Runs\<close>

datatype cache_op = Cache_Put sim_segment | Cache_Get int int nat

text \<open>The frames taken: their number, the size of the buffer given, and what was returned.\<close>

type_synonym taken_log = "(u32 \<times> nat \<times> play_result) list"

fun cache_run :: "cache_op list \<Rightarrow> sim_frame_cache \<Rightarrow> (sim_frame_cache \<times> taken_log) option" where
  "cache_run [] c = Some (c, [])"
| "cache_run (Cache_Put g # ops) c = do { (c, ret) \<leftarrow> real_video_cache_put g c; cache_run ops c }"
| "cache_run (Cache_Get play_ts sync_ts cap # ops) c = do {
     (c, r) \<leftarrow> real_video_cache_get play_ts sync_ts cap c;
     (c', log) \<leftarrow> cache_run ops c;
     Some (c', if pr_ret r = 0 then (fc_min_fid c, cap, r) # log else log)
   }"

text \<open>Segments are packets of the frames \<open>S\<close>, none is too far ahead, and the clock is below 2^30 ms.\<close>

fun ops_fit :: "frames_sent \<Rightarrow> cache_op list \<Rightarrow> sim_frame_cache \<Rightarrow> bool" where
  "ops_fit S [] c = True"
| "ops_fit S (Cache_Put g # ops) c = (honest S g \<and> put_in_window c g
     \<and> (case real_video_cache_put g c of None \<Rightarrow> True | Some (c', ret) \<Rightarrow> ops_fit S ops c'))"
| "ops_fit S (Cache_Get play_ts sync_ts cap # ops) c = (0 \<le> sync_ts \<and> sync_ts < 1073741824
     \<and> (case real_video_cache_get play_ts sync_ts cap c of None \<Rightarrow> True | Some (c', r) \<Rightarrow> ops_fit S ops c'))"

lemma open_cache_inv: "cache_inv S (open_real_video_cache rtt rtt_var)"
  by (simp add: cache_inv_def open_real_video_cache_def frame_ok_def empty_frame_def)

lemma cache_run_ok:
  "cache_inv S c \<Longrightarrow> ops_fit S ops c \<Longrightarrow>
    \<exists>c' log. cache_run ops c = Some (c', log) \<and> cache_inv S c' \<and> sorted_wrt (<) (fc_min_fid c # map fst log)
      \<and> (\<forall>(fid, cap, r) \<in> set log. delivered S cap fid r)"
proof (induction ops arbitrary: c)
  case (Cons op ops)
  show ?case
  proof (cases op)
    case (Cache_Put g)
    then obtain c1 ret where c1: "real_video_cache_put g c = Some (c1, ret)" "cache_inv S c1" "fc_min_fid c \<le> fc_min_fid c1"
      using real_video_cache_put_ok [OF Cons.prems(1), of g] Cons.prems(2) by auto
    then obtain c' log where "cache_run ops c1 = Some (c', log)" "cache_inv S c'" "sorted_wrt (<) (fc_min_fid c1 # map fst log)"
        "\<forall>(fid, cap, r) \<in> set log. delivered S cap fid r"
      using Cons.IH [OF c1(2)] Cons.prems(2) Cache_Put by auto
    then show ?thesis
      using c1 Cache_Put by (fastforce intro: le_less_trans)
  next
    case (Cache_Get play_ts sync_ts cap)
    then obtain c1 r where c1: "real_video_cache_get play_ts sync_ts cap c = Some (c1, r)" "cache_inv S c1" "fc_min_fid c \<le> fc_min_fid c1"
        "pr_ret r = 0 \<longrightarrow> fc_min_fid c < fc_min_fid c1 \<and> delivered S cap (fc_min_fid c1) r"
      using real_video_cache_get_ok [OF Cons.prems(1), of sync_ts play_ts cap] Cons.prems(2) by auto
    then obtain c' log where run: "cache_run ops c1 = Some (c', log)" "cache_inv S c'" "sorted_wrt (<) (fc_min_fid c1 # map fst log)"
        "\<forall>(fid, cap, r) \<in> set log. delivered S cap fid r"
      using Cons.IH [OF c1(2)] Cons.prems(2) Cache_Get by auto
    then have "sorted_wrt (<) (fc_min_fid c # map fst (if pr_ret r = 0 then (fc_min_fid c1, cap, r) # log else log))"
      using c1(3,4) by (fastforce intro: le_less_trans less_trans)
    then show ?thesis
      using run c1 Cache_Get by (auto split: if_splits)
  qed
qed simp

subsection \<open>What a sender of other segments can do\<close>

text \<open>
  A segment of the largest frame number never returns from the cache: the loop over the frames
  between has no end (and for a number close to it the loop runs four thousand million times).
\<close>

lemma put_last_frame_diverges:
  assumes "seg_index g < seg_total g" and "seg_fid g = 0xFFFFFFFF" and "0 < fc_max_fid c" and "fc_max_fid c < 0xFFFFFFFF"
    and "fc_min_fid c < 0xFFFFFFFF"
  shows "real_video_cache_put g c = None"
  using assms by (simp add: real_video_cache_put_def cache_advance_def real_video_evict_frame_def for_le_max_diverges not_le)

text \<open>A segment that tells a larger total than the frame's first segment is stored outside the array.\<close>

lemma put_larger_total_overflows:
  assumes "cache_inv S c" and "occupied c (INDEX (seg_fid g))" and "seg_index g < seg_total g" and "fc_min_fid c < seg_fid g"
    and "seg_fid g \<le> fc_max_fid c" and "length (fr_segments (fc_frames c ! INDEX (seg_fid g))) \<le> unat (seg_index g)"
  shows "real_video_cache_put g c = None"
  using assms by (simp add: real_video_cache_put_def cache_store_def occupied_def Let_def not_le not_less [symmetric])

text \<open>
  When the frame to be taken next is lost as a whole and the one after it is a key frame, dropping
  the group of pictures drops nothing: the player waits for the lost frame for ever.
\<close>

lemma evict_gop_stuck:
  assumes "cache_inv S c" and "\<not> occupied c (INDEX (fc_min_fid c + 1))" and "fc_min_fid c + 2 < fc_max_fid c"
    and "fr_type (fc_frames c ! INDEX (fc_min_fid c + 2)) = 1" and "fc_min_fid c + 2 \<noteq> 0"
  shows "\<exists>t. evict_gop_frame c = Some (c\<lparr>fc_frame_ts := t\<rparr>)"
proof -
  have f: "find_lt (\<lambda>i. map_option (\<lambda>t. t = 1) (frame_type_at c i)) (fc_max_fid c) (fc_min_fid c + 2) = Some (fc_min_fid c + 2)"
    using assms by (simp add: find_lt.simps [of _ "fc_max_fid c"] frame_type_at_def)
  define d where "d = c\<lparr>fc_frame_ts := fr_ts (fc_frames c ! INDEX (fc_min_fid c + 1))\<rparr>"
  have "real_video_clean_frame (INDEX (fc_min_fid c + 1)) d = Some d"
    using assms(1,2) by (intro clean_empty [of S]) (simp_all add: d_def occupied_def)
  then have s: "evict_gop_step (fc_min_fid c + 1) c = Some d"
    using assms(1) by (simp add: evict_gop_step_def d_def)
  have "fc_min_fid c + 1 < fc_min_fid c + 2"
  proof -
    have e: "fc_min_fid c + 2 = (fc_min_fid c + 1) + 1" by simp
    then have "fc_min_fid c + 1 \<noteq> 0xFFFFFFFF" using assms(5) by auto
    then have "fc_min_fid c + 1 < 0xFFFFFFFF" using le_neq_trans [OF u32_max] by blast
    from unat_Suc_u32 [OF this] show ?thesis unfolding e by (simp only: word_less_nat_alt)
  qed
  then have "for_lt evict_gop_step (fc_min_fid c + 2) (fc_min_fid c + 1) c = Some d"
    using s by (simp add: for_lt.simps [of _ _ "fc_min_fid c + 1"] for_lt.simps [of _ _ "fc_min_fid c + 2"] add.assoc)
  then show ?thesis
    using f assms(3,5) by (auto simp: evict_gop_frame_def d_def Let_def)
qed

subsection \<open>Properties\<close>

text \<open>
  C5: the player gets the frames that were sent, whole and in order. Over any run from an empty cache
  in which the segments put are packets of the sender's frames (in any order, with any of them lost
  or repeated), none more than the ring's length ahead of the frame taken last, no operation leaves an
  array or fails to end, the numbers of the frames taken strictly increase, and each frame taken
  is exactly the bytes the sender split, or reported with size 0 when the caller's buffer is too small.
\<close>

theorem frames_delivered_intact:
  assumes "ops_fit S ops (open_real_video_cache rtt rtt_var)"
  shows "\<exists>c log. cache_run ops (open_real_video_cache rtt rtt_var) = Some (c, log)
    \<and> sorted_wrt (<) (map fst log)
    \<and> (\<forall>(fid, cap, r) \<in> set log. S fid \<noteq> [] \<and> (if length (concat (S fid)) \<le> cap
        then pr_size r = length (concat (S fid)) \<and> pr_out r = concat (S fid) else pr_size r = 0))"
proof -
  obtain c log where run: "cache_run ops (open_real_video_cache rtt rtt_var) = Some (c, log)"
      "sorted_wrt (<) (fc_min_fid (open_real_video_cache rtt rtt_var) # map fst log)" "\<forall>(fid, cap, r) \<in> set log. delivered S cap fid r"
    using cache_run_ok [OF open_cache_inv assms] by blast
  then have "sorted_wrt (<) (map fst log)" by simp
  then show ?thesis
    using run(1,3) unfolding delivered_def by blast
qed

definition wit_seg :: "u32 \<Rightarrow> u32 \<Rightarrow> sim_segment" where
  "wit_seg fid ts = \<lparr>seg_packet_id = fid, seg_fid = fid, seg_timestamp = ts, seg_index = 0, seg_total = 1, seg_ftype = 1,
     seg_payload_type = 96, seg_remb = 1, seg_send_ts = 0, seg_transport_seq = 0, seg_data_size = 2, seg_data = [7, 8] @ replicate 998 0\<rparr>"

definition wit_ops :: "cache_op list" where
  "wit_ops = [Cache_Put (wit_seg 1 0), Cache_Put (wit_seg 2 200), Cache_Get 5000 5000 1500]"

lemma wit_honest: "fid < 0xFFFFFFFF \<Longrightarrow> honest (\<lambda>_. [[7, 8]]) (wit_seg fid ts)"
  by (simp add: honest_def wit_seg_def seg_payload_def word_less_nat_alt)

definition wit_frame :: "u32 \<Rightarrow> u32 \<Rightarrow> sim_frame" where
  "wit_frame fid ts = \<lparr>fr_fid = fid, fr_ts = ts, fr_type = 1, fr_seg_number = 1, fr_segments = [Some (wit_seg fid ts)]\<rparr>"

definition wit_cache1 :: sim_frame_cache where
  "wit_cache1 = (let c = open_real_video_cache 0 0 in c\<lparr>fc_max_fid := 1, fc_frames := (fc_frames c)[1 := wit_frame 1 0]\<rparr>)"

definition wit_cache2 :: sim_frame_cache where
  "wit_cache2 = (let c = open_real_video_cache 0 0 in c\<lparr>fc_max_fid := 2, fc_max_ts := 200, fc_frame_timer := 200,
     fc_frames := (fc_frames c)[1 := wit_frame 1 0, 2 := wit_frame 2 200]\<rparr>)"

lemmas wit_defs = open_real_video_cache_def wit_seg_def INDEX_def empty_frame_def Let_def wit_frame_def wit_cache1_def wit_cache2_def
  real_video_clean_frame_def

lemma wit_put:
  "real_video_cache_put (wit_seg 1 0) (open_real_video_cache 0 0) = Some (wit_cache1, 0)"
  "real_video_cache_put (wit_seg 2 200) wit_cache1 = Some (wit_cache2, 0)"
  by (simp_all add: real_video_cache_put_def cache_advance_def cache_store_def real_video_evict_frame_def for_le.simps [of _ 2]
      frame_timer_of_def wit_defs)

lemma wit_get:
  "\<exists>c r. real_video_cache_get 5000 5000 1500 wit_cache2 = Some (c, r) \<and> fc_min_fid c = 1 \<and> pr_ret r = 0"
  by (simp add: real_video_cache_get_def real_video_cache_check_playing_def real_video_cache_sync_timestamp_def
      real_video_cache_check_frame_full_def cache_take_def real_video_ready_ms_def ready_loop.simps wit_defs)

lemma wit_fit: "ops_fit (\<lambda>_. [[7, 8]]) wit_ops (open_real_video_cache 0 0)"
proof -
  have "put_in_window (open_real_video_cache 0 0) (wit_seg 1 0)" "put_in_window wit_cache1 (wit_seg 2 200)"
    by (simp_all add: put_in_window_def wit_defs)
  then show ?thesis
    using wit_get by (auto simp: wit_ops_def wit_put wit_honest)
qed

theorem frames_delivered_intact_witness:
  "\<exists>c r. cache_run wit_ops (open_real_video_cache 0 0) = Some (c, [(1, 1500, r)]) \<and> pr_size r = 2 \<and> pr_out r = [7, 8]"
proof -
  obtain c r where "cache_run wit_ops (open_real_video_cache 0 0) = Some (c, [(1, 1500, r)])"
    using wit_get by (auto simp: wit_ops_def wit_put)
  then show ?thesis
    using frames_delivered_intact [OF wit_fit] by auto
qed

end
