(* ===== verification/Sim_Net.thy ===== *)
theory Sim_Net
  imports Sim_Proto Feedback_Adapter Ack_Bitrate Trendline
begin

text \<open>
  What the sender, the receiver and the session of \<^verbatim>\<open>sim_transport\<close> share: the fields of \<^verbatim>\<open>sim_session_t\<close> that
  all of them use, the datagrams and callbacks they produce, and the values that the operating system and
  the library give them.

  A function that takes a \<^verbatim>\<open>sim_session_t*\<close> takes a record that has at least the fields of \<open>sim_net\<close>; the session
  extends it with its own. The callbacks and \<open>su_udp_send\<close> are results, in the order of the calls.

  The lemmas: a message is sent as the datagram of \<open>Sim_Proto\<close>, what sending leaves alone, that the bytes of a datagram do not
  depend on the byte order of the host, and what another host reads.
\<close>

subsection \<open>Results of the calls\<close>

type_synonym su_addr = "string \<times> u16"

text \<open>The numbers that the state callback's text shows, in its order.\<close>

record sim_stats =
  st_video_rate :: u32
  st_send_rate :: u32
  st_recv_rate :: u32
  st_rtt :: u32
  st_rtt_var :: u32
  st_max_frame :: u32
  st_pacer_ms :: u32
  st_cache_delay :: u32

datatype sim_out = Udp_Send su_addr "u8 list" | Notify int u32 | Change_Bitrate u32 | Show_State sim_stats

abbreviation sim_connect_notify :: int where "sim_connect_notify \<equiv> 1000"
abbreviation sim_network_timout :: int where "sim_network_timout \<equiv> 1001"
abbreviation sim_disconnect_notify :: int where "sim_disconnect_notify \<equiv> 1002"
abbreviation sim_start_play_notify :: int where "sim_start_play_notify \<equiv> 1003"
abbreviation sim_stop_play_notify :: int where "sim_stop_play_notify \<equiv> 1004"
abbreviation net_interrupt_notify :: int where "net_interrupt_notify \<equiv> 1005"
abbreviation net_recover_notify :: int where "net_recover_notify \<equiv> 1006"

abbreviation MIN_BITRATE :: int where "MIN_BITRATE \<equiv> 80000"
abbreviation MAX_BITRATE :: int where "MAX_BITRATE \<equiv> 16000000"
abbreviation START_BITRATE :: int where "START_BITRATE \<equiv> 800000"

subsection \<open>The shared part of a session\<close>

text \<open>\<open>n_env\<close> is the byte order that the streams keep in static variables; \<open>n_sstrm\<close> is \<open>None\<close> when its buffer could not be allocated.\<close>

record sim_net =
  n_env :: env
  n_sock :: int
  n_peer :: su_addr
  n_uid :: u32
  n_rtt :: u32
  n_rtt_var :: u32
  n_loss_fraction :: u8
  n_sbandwidth :: u32
  n_scount :: u32
  n_sstrm :: "bin_stream option"

definition sim_session_network_send :: "'a sim_net_scheme \<Rightarrow> bin_stream \<Rightarrow> 'a sim_net_scheme \<times> sim_out list" where
  "sim_session_network_send s strm =
     (if n_sock s < 0 \<or> used strm \<le> 0 then (s, [])
      else (s\<lparr>n_sbandwidth := n_sbandwidth s + word_of_nat (used strm), n_scount := n_scount s + 1\<rparr>,
            [Udp_Send (n_peer s) (take (used strm) (data strm))]))"

text \<open>The pair of calls with which every message is sent: \<open>sim_encode_msg(&s->sstrm, ..)\<close> and \<open>sim_session_network_send(s, &s->sstrm)\<close>.\<close>

definition net_send_msg :: "'a sim_net_scheme \<Rightarrow> sim_header \<Rightarrow> sim_body \<Rightarrow> ('a sim_net_scheme \<times> sim_out list) option" where
  "net_send_msg s header body = do {
     strm \<leftarrow> n_sstrm s;
     strm \<leftarrow> sim_encode_msg (n_env s) strm header body;
     Some (sim_session_network_send (s\<lparr>n_sstrm := Some strm\<rparr>) strm)
   }"

subsection \<open>What the system and the library give\<close>

text \<open>
  The calls of \<open>GET_SYS_MS()\<close> of an operation are numbered, \<open>sys_ms i\<close> is what the call \<open>i\<close> returns; a part of an
  operation gets the numbers from its first one on (\<open>after\<close>), and numbers may be skipped. \<open>new_ack\<close>, \<open>new_hist\<close> and \<open>stack_msg\<close> are the
  uninitialised memory behind \<open>malloc\<close> and on the stack that the congestion controllers read.
\<close>

record host =
  sys_ms :: "nat \<Rightarrow> int"
  malloc_ok :: bool
  libc_rand :: u32
  libc_qsort :: "(packet_feedback \<Rightarrow> packet_feedback \<Rightarrow> int) \<Rightarrow> packet_feedback list \<Rightarrow> packet_feedback list"
  new_ack :: ack_bitrate_estimator
  new_hist :: "delay_hist list"
  stack_msg :: feedback_msg

definition after :: "nat \<Rightarrow> host \<Rightarrow> host" where
  "after k w = w\<lparr>sys_ms := \<lambda>i. sys_ms w (k + i)\<rparr>"

text \<open>
  The structs of messages on the stack or behind \<open>malloc\<close>: their arrays hold what the memory held. Their other
  fields are all set before they are read.
\<close>

definition fresh_bytes :: "env \<Rightarrow> nat \<Rightarrow> u8 list" where
  "fresh_bytes e n = map (fresh_byte e) [0..<n]"

definition fresh_shorts :: "env \<Rightarrow> nat \<Rightarrow> u16 list" where
  "fresh_shorts e n = map (\<lambda>i. mach_get_2 e [fresh_byte e (2 * i), fresh_byte e (2 * i + 1)]) [0..<n]"

definition new_connect :: "env \<Rightarrow> sim_connect" where
  "new_connect e = \<lparr>con_cid = 0, token_size = 0, token = fresh_bytes e SIM_TOKEN_SIZE\<rparr>"

definition new_segment :: "env \<Rightarrow> sim_segment" where
  "new_segment e = \<lparr>seg_packet_id = 0, seg_fid = 0, seg_timestamp = 0, seg_index = 0, seg_total = 0, seg_ftype = 0,
     seg_payload_type = 0, seg_remb = 0, seg_send_ts = 0, seg_transport_seq = 0, seg_data_size = 0,
     seg_data = fresh_bytes e SIM_VIDEO_SIZE\<rparr>"

definition new_segment_ack :: "env \<Rightarrow> sim_segment_ack" where
  "new_segment_ack e = \<lparr>sack_base = 0, sack_acked = 0, nack_num = 0, nack = fresh_shorts e NACK_NUM\<rparr>"

definition new_feedback :: "env \<Rightarrow> sim_feedback" where
  "new_feedback e = \<lparr>fb_base = 0, feedback_size = 0, feedback = fresh_bytes e SIM_FEEDBACK_SIZE\<rparr>"

text \<open>A time of a run that began at \<open>start\<close> and has reached \<open>now\<close>, within the 53000 seconds that the estimators' integers allow.\<close>

definition time_ok :: "int \<Rightarrow> int \<Rightarrow> int \<Rightarrow> bool" where
  "time_ok start now t \<longleftrightarrow> now \<le> t \<and> t - start \<le> 53000000 \<and> 0 \<le> t \<and> t < 2147483647"

subsection \<open>Sending\<close>

definition net_wf :: "'a sim_net_scheme \<Rightarrow> bool" where
  "net_wf s \<longleftrightarrow> (\<exists>strm. n_sstrm s = Some strm \<and> strm_wf strm)"

text \<open>What sending leaves alone: everything but the counters and the stream.\<close>

definition net_same :: "'a sim_net_scheme \<Rightarrow> 'a sim_net_scheme \<Rightarrow> bool" where
  "net_same s s' \<longleftrightarrow> n_env s' = n_env s \<and> n_sock s' = n_sock s \<and> n_peer s' = n_peer s \<and> n_uid s' = n_uid s \<and> n_rtt s' = n_rtt s
     \<and> n_rtt_var s' = n_rtt_var s \<and> n_loss_fraction s' = n_loss_fraction s \<and> sim_net.more s' = sim_net.more s"

lemma net_same_refl [simp]: "net_same s s"
  by (simp add: net_same_def)

lemma net_same_trans: "net_same a b \<Longrightarrow> net_same b c \<Longrightarrow> net_same a c"
  by (simp add: net_same_def)

text \<open>The datagrams of a list of results, and what an open session sends.\<close>

definition datagrams_of :: "sim_out list \<Rightarrow> u8 list list" where
  "datagrams_of out = concat (map (\<lambda>x. case x of Udp_Send a d \<Rightarrow> [d] | _ \<Rightarrow> []) out)"

lemma datagrams_of_simps [simp]:
  "datagrams_of [] = []" "datagrams_of (Udp_Send a d # out) = d # datagrams_of out" "datagrams_of (Notify k v # out) = datagrams_of out"
  "datagrams_of (Change_Bitrate b # out) = datagrams_of out" "datagrams_of (Show_State st # out) = datagrams_of out"
  "datagrams_of (out @ out') = datagrams_of out @ datagrams_of out'"
  by (simp_all add: datagrams_of_def)

definition sends :: "'a sim_net_scheme \<Rightarrow> sim_header \<Rightarrow> sim_body \<Rightarrow> sim_out list" where
  "sends s h b = (if n_sock s < 0 then [] else [Udp_Send (n_peer s) (datagram (n_env s) h b)])"

lemma net_send_msg_ok:
  assumes "net_wf s" and "body_shape (h_mid h) b" and "body_sizes b"
  shows "\<exists>s'. net_send_msg s h b = Some (s', sends s h b) \<and> net_wf s' \<and> net_same s s'"
proof -
  obtain strm where st: "n_sstrm s = Some strm" "strm_wf strm"
    using assms(1) by (auto simp: net_wf_def)
  obtain t where t: "sim_encode_msg (n_env s) strm h b = Some t" "strm_wf t" "written t = datagram (n_env s) h b"
    using sim_encode_msg_ok [OF st(2) assms(2,3)] by blast
  have u: "used t \<noteq> 0"
    using t(3) by (intro notI) (simp add: written_def datagram_def msg_bytes_def header_enc_def)
  obtain s' out where r: "sim_session_network_send (s\<lparr>n_sstrm := Some t\<rparr>) t = (s', out)" by force
  have "out = sends s h b" "net_wf s'" "net_same s s'"
    using r t u by (auto simp: sim_session_network_send_def sends_def written_def net_wf_def net_same_def split: if_splits)
  then show ?thesis
    using st(1) t(1) r by (auto simp: net_send_msg_def)
qed

lemma length_fresh [simp]: "length (fresh_bytes e n) = n" "length (fresh_shorts e n) = n"
  by (simp_all add: fresh_bytes_def fresh_shorts_def)

text \<open>The part of an operation that sends nothing keeps the stream.\<close>

lemma net_wf_env [simp]: "net_wf (s\<lparr>n_env := e\<rparr>) = net_wf s"
  by (simp add: net_wf_def)

subsection \<open>Datagrams between hosts\<close>

text \<open>A host whose byte order has been found. What it writes does not depend on its order.\<close>

definition env_std :: "env \<Rightarrow> bool" where
  "env_std e \<longleftrightarrow> big_endian e = (if host_big e then 1 else 0)"

lemma env_std_ready: "env_std e \<Longrightarrow> big_endian e \<noteq> -1"
  by (simp add: env_std_def)

lemma mach_put_std:
  "env_std e \<Longrightarrow> mach_put_2 e a = be2 a" "env_std e \<Longrightarrow> mach_put_4 e b = be4 b" "env_std e \<Longrightarrow> mach_put_8 e c = be8 c"
  by (auto simp: env_std_def mach_put_2_def mach_put_4_def mach_put_8_def host_order_def)

lemma datagram_std:
  assumes "env_std e" and "env_std e'"
  shows "datagram e h b = datagram e' h b"
proof -
  have put: "mach_put_2 e = mach_put_2 e'" "mach_put_4 e = mach_put_4 e'" "mach_put_8 e = mach_put_8 e'"
    using mach_put_std [OF assms(1)] mach_put_std [OF assms(2)] by auto
  have "body_enc e b = body_enc e' b"
    by (cases b) (simp_all add: put array_enc_def segment_enc_def id_enc_def index_enc_def)
  then show ?thesis
    by (simp add: datagram_def msg_bytes_def header_enc_def put)
qed

text \<open>What a host decodes from a datagram of another.\<close>

lemma datagram_received:
  assumes "env_std e" and "env_std e'" and "body_shape (h_mid h) b" and "body_sizes b" and "body_fields b"
    and "length (data rs) = strm_size rs" and "1034 \<le> strm_size rs" and "datagram_load rs (datagram e h b) = Some r"
  shows "\<exists>r1. sim_decode_header e' r h0 = Some (r1, 0, h)
    \<and> (\<forall>old. body_shape (h_mid h) old \<longrightarrow> (\<exists>r2 b'. sim_decode_msg e' r1 h old = Some (r2, 0, b') \<and> same_message b b' \<and> body_shape (h_mid h) b'))"
proof -
  have d: "datagram e h b = datagram e' h b" by (rule datagram_std [OF assms(1,2)])
  have r: "readable r" "rsize r = 0" "written r = datagram e' h b"
    using datagram_load_ok [OF assms(6), of "datagram e h b"] datagram_length [OF assms(4), of e h] assms(7,8) d by auto
  obtain r1 where r1: "sim_decode_header e' r h0 = Some (r1, 0, h)" "readable r1"
      "unread r1 = body_enc e' b @ mach_put_4 e' (crc32 CRC_VAL (msg_bytes e' h b))"
    using sim_decode_header_crc(2) [OF r(1,2), of "msg_bytes e' h b" "mach_put_4 e' (crc32 CRC_VAL (msg_bytes e' h b))" e' h "body_enc e' b" h0]
      r(3) by (auto simp: datagram_def msg_bytes_def)
  have "\<exists>r2 b'. sim_decode_msg e' r1 h old = Some (r2, 0, b') \<and> same_message b b' \<and> body_shape (h_mid h) b'" if "body_shape (h_mid h) old" for old
  proof -
    have "\<exists>r2 b'. sim_decode_msg e' r1 h old = Some (r2, 0, b') \<and> same_message b b'"
      using body_reads [OF assms(3,4,5) that refl, of e'] r1(2,3) unfolding reads_def by blast
    then show ?thesis
      using body_read_safe [OF that, of e'] r1(2) unfolding read_safe_def by fastforce
  qed
  then show ?thesis using r1(1) by blast
qed

subsection \<open>A host and a session for the witnesses\<close>

definition wit_host :: "int \<Rightarrow> host" where
  "wit_host t = \<lparr>sys_ms = \<lambda>_. t, malloc_ok = True, libc_rand = 7, libc_qsort = example_qsort, new_ack = ack_estimator_reset undefined,
     new_hist = replicate 20 \<lparr>dh_arrival_delta = fp_lit 0, dh_smoothed_delay = fp_lit 0\<rparr>, stack_msg = example_msg 0\<rparr>"

lemma wit_host_simps: "sys_ms (wit_host t) i = t" "malloc_ok (wit_host t)" "length (samples (stack_msg (wit_host t))) = MAX_FEELBACK_COUNT"
  "libc_qsort (wit_host t) = example_qsort" "length (new_hist (wit_host t)) = 20"
  by (simp_all add: wit_host_def example_msg_def)

definition wit_net :: sim_net where
  "wit_net = \<lparr>n_env = wit_env, n_sock = 3, n_peer = (''10.0.0.2'', 4000), n_uid = 100, n_rtt = 100, n_rtt_var = 5,
     n_loss_fraction = 0, n_sbandwidth = 0, n_scount = 0, n_sstrm = Some wit_strm\<rparr>"

lemma wit_net_ok: "net_wf wit_net" "big_endian (n_env wit_net) \<noteq> -1" "n_env wit_net = wit_env" "n_uid wit_net = 100"
  by (simp_all add: net_wf_def wit_net_def wit_strm_wf wit_env_def)

lemma wit_env_std: "env_std wit_env"
  by (simp add: env_std_def wit_env_def)

end
