(* ===== verification/Sim_Sender.thy ===== *)
theory Sim_Sender
  imports Sim_Net U32_Loop Frame_Cache Sender_CC Rate_Meter
begin

text \<open>
  \<^verbatim>\<open>sim_transport/sim_limiter.c\<close> and \<^verbatim>\<open>sim_sender.c\<close>: the sender of a session. It splits a frame into segments, keeps them
  until they are acknowledged, gives them to the pacer of the congestion controller, which tells when to send each,
  and sends those again that the receiver asks for, as far as the limiter lets it.

  A skip list is the sorted association list of its entries. The callbacks of the congestion controller
  (\<open>sim_send_packet\<close>, \<open>sim_bitrate_change\<close>) run after the call that makes them: what they do to the controller (\<open>on_send\<close>)
  touches the history of sent packets only, which the rest of the call does not read. \<open>None\<close> is
  undefined behaviour, a failed assertion or a loop that does not end.
\<close>

subsection \<open>The limiter\<close>

record sim_sender_limiter =
  lim_rate :: rate_stat
  lim_wnd_size :: int
  lim_max_rate_bps :: u32

abbreviation MAX_LIMITER_RATE :: u32 where "MAX_LIMITER_RATE \<equiv> 1024 * 1024 * 10"

definition sim_limiter_init :: "int \<Rightarrow> sim_sender_limiter" where
  "sim_limiter_init windows_size_ms =
     \<lparr>lim_rate = rate_stat_init windows_size_ms (fp_lit 8000), lim_wnd_size = windows_size_ms, lim_max_rate_bps = MAX_LIMITER_RATE\<rparr>"

definition sim_limiter_destroy :: "sim_sender_limiter \<Rightarrow> sim_sender_limiter" where
  "sim_limiter_destroy l = l\<lparr>lim_rate := rate_stat_destroy (lim_rate l)\<rparr>"

definition sim_limiter_set_max_bitrate :: "sim_sender_limiter \<Rightarrow> u32 \<Rightarrow> sim_sender_limiter" where
  "sim_limiter_set_max_bitrate l bitrate = l\<lparr>lim_max_rate_bps := bitrate\<rparr>"

text \<open>\<open>size_t\<close> has 64 bits.\<close>

definition sim_limiter_try :: "sim_sender_limiter \<Rightarrow> nat \<Rightarrow> int \<Rightarrow> (sim_sender_limiter \<times> int) option" where
  "sim_limiter_try l sz now_ts = do {
     (rate, cur_rate) \<leftarrow> rate_stat_rate (lim_rate l) now_ts;
     let l = l\<lparr>lim_rate := rate\<rparr>;
     if 0 < cur_rate
     then (if lim_wnd_size l = 0 then None
           else (let add_bitrate = (word_of_nat sz * 8 * 1000 :: u64) div word_of_int (lim_wnd_size l)
                 in Some (l, if ucast (lim_max_rate_bps l) < add_bitrate + word_of_int cur_rate then -1 else 0)))
     else Some (l, 0)
   }"

definition sim_limiter_update :: "sim_sender_limiter \<Rightarrow> nat \<Rightarrow> int \<Rightarrow> sim_sender_limiter option" where
  "sim_limiter_update l sz now_ts = map_option (\<lambda>rate. l\<lparr>lim_rate := rate\<rparr>) (rate_stat_update (lim_rate l) sz now_ts)"

subsection \<open>The sender and the callbacks of its congestion controller\<close>

record sim_sender =
  sd_actived :: int
  sd_base_packet_id :: u32
  sd_packet_id_seed :: u32
  sd_frame_id_seed :: u32
  sd_transport_seq_seed :: u32
  sd_first_ts :: int
  sd_cache :: "(u32 \<times> sim_segment) list"
  sd_cc :: "sender_cc option"
  sd_limiter :: sim_sender_limiter

text \<open>Writing to the value of an entry.\<close>

definition sl_put :: "'k \<Rightarrow> 'v \<Rightarrow> ('k \<times> 'v) list \<Rightarrow> ('k \<times> 'v) list" where
  "sl_put k v xs = map (\<lambda>(k', v'). (k', if k' = k then v else v')) xs"

definition sim_bitrate_change :: "'a sim_net_scheme \<Rightarrow> sim_sender \<Rightarrow> notification \<Rightarrow> ('a sim_net_scheme \<times> sim_sender \<times> sim_out list) option" where
  "sim_bitrate_change s sender n =
     (case n of (bitrate_kbps, new_loss, rtt) \<Rightarrow>
       let packet_size_bit = word_of_nat ((SIM_SEGMENT_HEADER_SIZE + SIM_VIDEO_SIZE) * 8);
           per_packets_second = (bitrate_kbps + packet_size_bit - 1) div packet_size_bit;
           overhead_bitrate = per_packets_second * word_of_nat SIM_SEGMENT_HEADER_SIZE * 8;
           payload_bitrate = bitrate_kbps - overhead_bitrate;
           fraction = (if n_loss_fraction s = 0 then new_loss
             else word_of_int ((uint (n_loss_fraction s) * 3 + uint new_loss) div 4));
           loss = (fp_of_int (uint fraction) :: double) div fp_lit 255 + fp_lit 0.07;
           loss = (if fp_lit 0.7 < loss then fp_lit 0.7 else loss)
       in do {
         v \<leftarrow> fp_to_u32 ((fp_lit 1 - loss) * fp_of_int (uint payload_bitrate));
         Some (s\<lparr>n_loss_fraction := fraction\<rparr>,
               sender\<lparr>sd_limiter := sim_limiter_set_max_bitrate (sd_limiter sender) (bitrate_kbps * 1000)\<rparr>,
               [Change_Bitrate (v div 1000)])
       })"

definition sim_send_packet ::
  "host \<Rightarrow> 'a sim_net_scheme \<Rightarrow> sim_sender \<Rightarrow> send_call \<Rightarrow> ('a sim_net_scheme \<times> sim_sender \<times> sim_out list) option" where
  "sim_send_packet w s sender call =
     (case call of (packet_id, retrans, sz) \<Rightarrow>
       case map_of (sd_cache sender) packet_id of None \<Rightarrow> Some (s, sender, [])
       | Some seg \<Rightarrow>
         (let seg = seg\<lparr>seg_transport_seq := ucast (sd_transport_seq_seed sender),
                seg_send_ts := word_of_int (sys_ms w 0 - sd_first_ts sender - uint (seg_timestamp seg))\<rparr>;
              sender = sender\<lparr>sd_transport_seq_seed := sd_transport_seq_seed sender + 1, sd_cache := sl_put packet_id seg (sd_cache sender)\<rparr>
          in do {
            cc \<leftarrow> razor_sender_on_send (sys_ms w 1) (sd_cc sender) (seg_transport_seq seg) (unat (seg_data_size seg) + SIM_SEGMENT_HEADER_SIZE);
            (s, out) \<leftarrow> net_send_msg s (INIT_SIM_HEADER SIM_SEG (n_uid s)) (Segment_Body seg);
            Some (s, sender\<lparr>sd_cc := cc\<rparr>, out)
          }))"

text \<open>The callbacks of one call of the controller.\<close>

fun send_packets ::
  "host \<Rightarrow> 'a sim_net_scheme \<Rightarrow> sim_sender \<Rightarrow> send_call list \<Rightarrow> ('a sim_net_scheme \<times> sim_sender \<times> sim_out list) option" where
  "send_packets w s sender [] = Some (s, sender, [])"
| "send_packets w s sender (c # cs) = do {
     (s, sender, out) \<leftarrow> sim_send_packet w s sender c;
     (s, sender, out') \<leftarrow> send_packets (after 2 w) s sender cs;
     Some (s, sender, out @ out')
   }"

fun change_bitrates :: "'a sim_net_scheme \<Rightarrow> sim_sender \<Rightarrow> notification list \<Rightarrow> ('a sim_net_scheme \<times> sim_sender \<times> sim_out list) option" where
  "change_bitrates s sender [] = Some (s, sender, [])"
| "change_bitrates s sender (n # ns) = do {
     (s, sender, out) \<leftarrow> sim_bitrate_change s sender n;
     (s, sender, out') \<leftarrow> change_bitrates s sender ns;
     Some (s, sender, out @ out')
   }"

subsection \<open>Life of a sender\<close>

text \<open>The packets waiting in the pacer are only freed with the controller.\<close>

definition sim_sender_create :: "host \<Rightarrow> 'a sim_net_scheme \<Rightarrow> 'a sim_net_scheme \<times> sim_sender" where
  "sim_sender_create w s =
     (let (e, cc) = razor_sender_create (n_env s) (malloc_ok w) (sys_ms w) (new_ack w) True True 500
      in (s\<lparr>n_env := e\<rparr>, \<lparr>sd_actived = 0, sd_base_packet_id = 0, sd_packet_id_seed = 0, sd_frame_id_seed = 0, sd_transport_seq_seed = 0,
            sd_first_ts = -1, sd_cache = [], sd_cc = cc, sd_limiter = sim_limiter_init 300\<rparr>))"

text \<open>What is freed: the segments and the controller's packets.\<close>

definition sim_sender_destroy :: "sim_sender \<Rightarrow> sim_segment list \<times> packet_event list \<times> packet_feedback list" where
  "sim_sender_destroy sender = (map snd (sd_cache sender), razor_sender_destroy (sd_cc sender))"

definition sim_sender_reset :: "host \<Rightarrow> 'a sim_net_scheme \<Rightarrow> sim_sender \<Rightarrow> 'a sim_net_scheme \<times> sim_sender" where
  "sim_sender_reset w s sender =
     (let (e, cc) = razor_sender_create (n_env s) (malloc_ok w) (sys_ms w) (new_ack w) True True 300
      in (s\<lparr>n_env := e\<rparr>, sender\<lparr>sd_actived := 0, sd_base_packet_id := 0, sd_packet_id_seed := 0, sd_frame_id_seed := 0,
            sd_first_ts := -1, sd_transport_seq_seed := 0, sd_cache := [], sd_cc := cc\<rparr>))"

definition sim_sender_active :: "sim_sender \<Rightarrow> sim_sender \<times> int" where
  "sim_sender_active sender = (if sd_actived sender = 1 then (sender, -1) else (sender\<lparr>sd_actived := 1\<rparr>, 0))"

subsection \<open>A frame\<close>

abbreviation SPLIT_NUMBER :: nat where "SPLIT_NUMBER \<equiv> 1024"

text \<open>The sizes of the segments; their number is \<open>ret\<close>.\<close>

definition sim_split_frame :: "nat \<Rightarrow> u16 list" where
  "sim_split_frame sz =
     (if sz \<le> SIM_VIDEO_SIZE then [word_of_nat sz]
      else (let ret = word_of_nat (sz div SIM_VIDEO_SIZE) :: u16; remain_size = word_of_nat (sz mod SIM_VIDEO_SIZE) :: u16
            in replicate (unat ret) (word_of_nat SIM_VIDEO_SIZE) @ (if 0 < remain_size then [remain_size] else [])))"

definition make_segment :: "env \<Rightarrow> sim_sender \<Rightarrow> u8 \<Rightarrow> u8 \<Rightarrow> u32 \<Rightarrow> u16 \<Rightarrow> u16 \<Rightarrow> u8 list \<Rightarrow> sim_segment" where
  "make_segment e sender payload_type ftype timestamp i seg_count bytes =
     \<lparr>seg_packet_id = sd_packet_id_seed sender, seg_fid = sd_frame_id_seed sender, seg_timestamp = timestamp, seg_index = i, seg_total = seg_count,
      seg_ftype = ftype, seg_payload_type = payload_type, seg_remb = 1, seg_send_ts = 0, seg_transport_seq = 0,
      seg_data_size = word_of_nat (length bytes), seg_data = bytes @ drop (length bytes) (fresh_bytes e SIM_VIDEO_SIZE)\<rparr>"

text \<open>
  The loop over the segments: \<open>splits\<close> are the sizes left, \<open>bytes\<close> the data from \<open>pos\<close> on. A segment whose number is
  still in use is freed by the skip list, and then read.
\<close>

fun put_segments ::
  "host \<Rightarrow> env \<Rightarrow> u8 \<Rightarrow> u8 \<Rightarrow> u32 \<Rightarrow> u16 \<Rightarrow> u16 \<Rightarrow> u16 list \<Rightarrow> u8 list \<Rightarrow> sim_sender \<Rightarrow> sim_sender option" where
  "put_segments w e payload_type ftype timestamp seg_count i [] bytes sender = Some sender"
| "put_segments w e payload_type ftype timestamp seg_count i (n # splits) bytes sender =
     (let sender = sender\<lparr>sd_packet_id_seed := sd_packet_id_seed sender + 1\<rparr>;
          seg = make_segment e sender payload_type ftype timestamp i seg_count (take (unat n) bytes)
      in if length bytes < unat n \<or> SIM_VIDEO_SIZE < unat n \<or> map_of (sd_cache sender) (seg_packet_id seg) \<noteq> None then None
         else (let (cc, ret) = razor_sender_add_packet (sys_ms w 1) (sd_cc sender) (seg_packet_id seg) 0
                     (unat (seg_data_size seg) + SIM_SEGMENT_HEADER_SIZE);
                   sender = sender\<lparr>sd_cache := sl_ins (seg_packet_id seg) seg (sd_cache sender), sd_cc := cc\<rparr>
               in put_segments (after 1 w) e payload_type ftype timestamp seg_count (i + 1) splits (drop (unat n) bytes) sender))"

definition sim_sender_put :: "host \<Rightarrow> 'a sim_net_scheme \<Rightarrow> sim_sender \<Rightarrow> u8 \<Rightarrow> u8 \<Rightarrow> u8 list \<Rightarrow> sim_sender option" where
  "sim_sender_put w s sender payload_type ftype bytes =
     (if SPLIT_NUMBER \<le> length bytes div SIM_VIDEO_SIZE then None
      else (let now_ts = sys_ms w 0;
                splits = sim_split_frame (length bytes);
                (timestamp, sender) = (if sd_first_ts sender = -1 then (0, sender\<lparr>sd_first_ts := now_ts\<rparr>)
                  else (word_of_int (now_ts - sd_first_ts sender), sender));
                sender = sender\<lparr>sd_frame_id_seed := sd_frame_id_seed sender + 1\<rparr>
            in put_segments w (n_env s) payload_type ftype timestamp (word_of_nat (length splits)) 0 splits bytes sender))"

subsection \<open>Acknowledgements, feedback, timer\<close>

definition sim_sender_update_base :: "sim_sender \<Rightarrow> u32 \<Rightarrow> sim_sender option" where
  "sim_sender_update_base sender base_packet_id = do {
     c \<leftarrow> for_le (\<lambda>i c. Some (sl_del i c)) base_packet_id (sd_base_packet_id sender) (sd_cache sender);
     let sender = sender\<lparr>sd_cache := c\<rparr>;
     Some (if sd_base_packet_id sender < base_packet_id then sender\<lparr>sd_base_packet_id := base_packet_id\<rparr> else sender)
   }"

text \<open>One packet that the receiver asks for.\<close>

definition resend_packet :: "int \<Rightarrow> int \<Rightarrow> sim_sender \<Rightarrow> u32 \<Rightarrow> sim_sender option" where
  "resend_packet now_ts sys_ts sender key =
     (case map_of (sd_cache sender) key of None \<Rightarrow> Some sender
      | Some seg \<Rightarrow>
        (let sz = unat (seg_data_size seg) + SIM_SEGMENT_HEADER_SIZE in do {
          (l, r) \<leftarrow> sim_limiter_try (sd_limiter sender) sz now_ts;
          let sender = sender\<lparr>sd_limiter := l\<rparr>;
          if r \<noteq> 0 then Some sender
          else (let (cc, ret) = razor_sender_add_packet sys_ts (sd_cc sender) (seg_packet_id seg) 1 sz;
                    sender = sender\<lparr>sd_cc := cc\<rparr>
                in if ret = 0 then map_option (\<lambda>l. sender\<lparr>sd_limiter := l\<rparr>) (sim_limiter_update (sd_limiter sender) sz now_ts)
                   else Some sender)
        }))"

fun resend_packets :: "host \<Rightarrow> int \<Rightarrow> u32 \<Rightarrow> u16 list \<Rightarrow> sim_sender \<Rightarrow> sim_sender option" where
  "resend_packets w now_ts base [] sender = Some sender"
| "resend_packets w now_ts base (n # ns) sender = do {
     sender \<leftarrow> resend_packet now_ts (sys_ms w 1) sender (base + ucast n);
     resend_packets (after 1 w) now_ts base ns sender
   }"

definition sim_sender_ack :: "host \<Rightarrow> sim_sender \<Rightarrow> sim_segment_ack \<Rightarrow> (sim_sender \<times> int) option" where
  "sim_sender_ack w sender ack =
     (if sd_packet_id_seed sender < sack_acked ack \<or> sd_packet_id_seed sender < sack_base ack then Some (sender, -1)
      else do {
        sender \<leftarrow> sim_sender_update_base sender (sack_base ack);
        if length (nack ack) < unat (nack_num ack) then None
        else map_option (\<lambda>sender. (sender, 0)) (resend_packets w (sys_ms w 0) (sack_base ack) (take (unat (nack_num ack)) (nack ack)) sender)
      })"

definition sim_sender_feedback ::
  "host \<Rightarrow> 'a sim_net_scheme \<Rightarrow> sim_sender \<Rightarrow> sim_feedback \<Rightarrow> ('a sim_net_scheme \<times> sim_sender \<times> sim_out list) option" where
  "sim_sender_feedback w s sender fb = do {
     sender \<leftarrow> sim_sender_update_base sender (fb_base fb);
     if length (feedback fb) < unat (feedback_size fb) then None
     else do {
       (cc, ns) \<leftarrow> razor_sender_on_feedback (n_env s) (libc_qsort w) (sys_ms w) (new_hist w) (stack_msg w) (sd_cc sender)
         (take (unat (feedback_size fb)) (feedback fb));
       change_bitrates s (sender\<lparr>sd_cc := cc\<rparr>) ns
     }
   }"

definition sim_sender_update_rtt :: "'a sim_net_scheme \<Rightarrow> sim_sender \<Rightarrow> sim_sender" where
  "sim_sender_update_rtt s sender = sender\<lparr>sd_cc := razor_sender_update_rtt (sd_cc sender) (sint (n_rtt s + n_rtt_var s))\<rparr>"

definition sim_sender_set_bitrates ::
  "host \<Rightarrow> 'a sim_net_scheme \<Rightarrow> sim_sender \<Rightarrow> u32 \<Rightarrow> u32 \<Rightarrow> u32 \<Rightarrow> ('a sim_net_scheme \<times> sim_sender \<times> sim_out list) option" where
  "sim_sender_set_bitrates w s sender min_bitrate start_bitrate max_bitrate =
     (let (cc, ns) = razor_sender_set_bitrates (sys_ms w) (sd_cc sender) min_bitrate start_bitrate max_bitrate
      in change_bitrates s (sender\<lparr>sd_cc := cc\<rparr>) ns)"

definition sim_sender_timer :: "host \<Rightarrow> 'a sim_net_scheme \<Rightarrow> sim_sender \<Rightarrow> ('a sim_net_scheme \<times> sim_sender \<times> sim_out list) option" where
  "sim_sender_timer w s sender = do {
     (cc, calls, ns) \<leftarrow> razor_sender_heartbeat (sys_ms w) (sd_cc sender);
     (s, sender, out) \<leftarrow> send_packets (after 2 w) s (sender\<lparr>sd_cc := cc\<rparr>) calls;
     (s, sender, out') \<leftarrow> change_bitrates s sender ns;
     Some (s, sender, out @ out')
   }"

subsection \<open>A frame is cut into its packets\<close>

fun cut :: "u16 list \<Rightarrow> u8 list \<Rightarrow> u8 list list" where
  "cut [] bs = []"
| "cut (n # ns) bs = take (unat n) bs # cut ns (drop (unat n) bs)"

text \<open>What the sender makes of a frame.\<close>

definition packets_of :: "u8 list \<Rightarrow> u8 list list" where
  "packets_of bs = cut (sim_split_frame (length bs)) bs"

lemma length_cut [simp]: "length (cut ns bs) = length ns"
  by (induction ns bs rule: cut.induct) auto

lemma concat_cut: "concat (cut ns bs) = take (sum_list (map unat ns)) bs"
  by (induction ns bs rule: cut.induct) (simp_all add: take_add)

lemma nth_cut:
  "i < length ns \<Longrightarrow> cut ns bs ! i = take (unat (ns ! i)) (drop (sum_list (map unat (take i ns))) bs)"
  by (induction ns bs arbitrary: i rule: cut.induct) (auto simp: nth_Cons add.commute split: nat.split)

lemma split_frame_ok:
  assumes "sz div SIM_VIDEO_SIZE < SPLIT_NUMBER"
  shows "sum_list (map unat (sim_split_frame sz)) = sz" and "\<forall>n\<in>set (sim_split_frame sz). unat n \<le> SIM_VIDEO_SIZE"
    and "sim_split_frame sz \<noteq> []" and "length (sim_split_frame sz) \<le> SPLIT_NUMBER"
proof -
  have m: "sz mod 1000 < 1000" by simp
  have u: "unat (word_of_nat (sz div 1000) :: u16) = sz div 1000" "unat (word_of_nat (sz mod 1000) :: u16) = sz mod 1000"
    using assms m by (simp_all add: unat_of_nat del: mod_less_divisor)
  have z: "(0 < (word_of_nat (sz mod 1000) :: u16)) = (0 < sz mod 1000)"
    using u(2) by (simp add: word_less_nat_alt)
  have "sum_list (map unat (sim_split_frame sz)) = sz \<and> (\<forall>n\<in>set (sim_split_frame sz). unat n \<le> SIM_VIDEO_SIZE)
    \<and> sim_split_frame sz \<noteq> [] \<and> length (sim_split_frame sz) \<le> SPLIT_NUMBER"
  proof (cases "sz \<le> 1000")
    case True
    then show ?thesis by (simp add: sim_split_frame_def unat_of_nat)
  next
    case False
    then have d: "0 < sz div 1000" by (simp add: div_greater_zero_iff)
    have "sz mod 1000 = 0 \<longrightarrow> sz div 1000 * 1000 = sz"
      by (metis add.right_neutral div_mult_mod_eq)
    then show ?thesis
      using d False assms m u by (simp add: sim_split_frame_def Let_def z sum_list_replicate)
  qed
  then show "sum_list (map unat (sim_split_frame sz)) = sz" "\<forall>n\<in>set (sim_split_frame sz). unat n \<le> SIM_VIDEO_SIZE"
    "sim_split_frame sz \<noteq> []" "length (sim_split_frame sz) \<le> SPLIT_NUMBER" by blast+
qed

lemma packets_of_ok:
  assumes "length bs div SIM_VIDEO_SIZE < SPLIT_NUMBER"
  shows "concat (packets_of bs) = bs" and "packets_of bs \<noteq> []" and "length (packets_of bs) \<le> SPLIT_NUMBER"
  using split_frame_ok [OF assms] by (auto simp: packets_of_def concat_cut) (metis length_0_conv length_cut)

subsection \<open>What the sender keeps\<close>

text \<open>
  Each entry is a packet of one of the frames \<open>S\<close> under its number. \<open>lg\<close> are the packets the limiter has let through.
\<close>

definition cache_holds :: "frames_sent \<Rightarrow> sim_sender \<Rightarrow> bool" where
  "cache_holds S sender \<longleftrightarrow> (\<forall>(k, g)\<in>set (sd_cache sender). honest S g \<and> seg_packet_id g = k \<and> seg_remb g \<noteq> 0 \<and> k \<le> sd_packet_id_seed sender)"

definition cc_holds :: "int \<Rightarrow> int \<Rightarrow> u32 \<Rightarrow> u32 \<Rightarrow> nat \<Rightarrow> sim_sender \<Rightarrow> bool" where
  "cc_holds start now mn mx n sender \<longleftrightarrow> (\<exists>cc. sd_cc sender = Some cc \<and> sender_ok start now mn mx n cc)"

definition limiter_holds :: "rate_log \<Rightarrow> int \<Rightarrow> sim_sender \<Rightarrow> bool" where
  "limiter_holds lg now sender \<longleftrightarrow> meter 300 (lim_rate (sd_limiter sender)) lg now \<and> lim_wnd_size (sd_limiter sender) = 300"

lemma cache_holds_get: "cache_holds S sender \<Longrightarrow> map_of (sd_cache sender) k = Some g \<Longrightarrow>
    honest S g \<and> seg_packet_id g = k \<and> seg_remb g \<noteq> 0 \<and> k \<le> sd_packet_id_seed sender"
  by (auto simp: cache_holds_def dest!: map_of_SomeD)

lemma cache_holds_frame [simp]:
  "cache_holds S (sender\<lparr>sd_cc := a\<rparr>) = cache_holds S sender" "cache_holds S (sender\<lparr>sd_limiter := b\<rparr>) = cache_holds S sender"
  "cache_holds S (sender\<lparr>sd_base_packet_id := c\<rparr>) = cache_holds S sender" "cache_holds S (sender\<lparr>sd_first_ts := d\<rparr>) = cache_holds S sender"
  "cache_holds S (sender\<lparr>sd_frame_id_seed := c\<rparr>) = cache_holds S sender"
  by (simp_all add: cache_holds_def)

lemma cache_holds_sub: "cache_holds S sender \<Longrightarrow> set c \<subseteq> set (sd_cache sender) \<Longrightarrow> cache_holds S (sender\<lparr>sd_cache := c\<rparr>)"
  by (auto simp: cache_holds_def)

lemma set_sl_ins_sub: "set (sl_ins k v xs) \<subseteq> insert (k, v) (set xs)"
  by (induction k v xs rule: sl_ins.induct) auto

lemma make_segment_honest:
  assumes "S (sd_frame_id_seed sender) = ps" and "unat i < length ps" and "seg_count = word_of_nat (length ps)" and "length ps \<le> 1024"
    and "ps ! unat i = bs" and "length bs \<le> SIM_VIDEO_SIZE" and "unat (sd_packet_id_seed sender) + length ps < 4294967296"
  shows "honest S (make_segment e sender pt ft ts i seg_count bs)"
  using assms by (auto simp: honest_def make_segment_def seg_payload_def unat_of_nat)

lemma put_segments_ok:
  assumes "cache_holds S sender" and "cc_holds start now mn mx n sender" and "limiter_holds lg now sender"
    and "S (sd_frame_id_seed sender) = ps" and "ps = pre @ cut splits bs" and "length pre = unat i" and "seg_count = word_of_nat (length ps)"
    and "length ps \<le> 1024" and "\<forall>m\<in>set splits. unat m \<le> SIM_VIDEO_SIZE" and "sum_list (map unat splits) = length bs"
    and "unat (sd_packet_id_seed sender) + length splits + length ps < 4294967296"
  shows "\<exists>sender'. put_segments w e pt ft ts seg_count i splits bs sender = Some sender' \<and> cache_holds S sender'
    \<and> cc_holds start now mn mx n sender' \<and> limiter_holds lg now sender' \<and> sd_frame_id_seed sender' = sd_frame_id_seed sender
    \<and> unat (sd_packet_id_seed sender') = unat (sd_packet_id_seed sender) + length splits"
  using assms
proof (induction splits arbitrary: bs i sender pre w)
  case (Cons m splits)
  define s1 where "s1 = sender\<lparr>sd_packet_id_seed := sd_packet_id_seed sender + 1\<rparr>"
  define g where "g = make_segment e s1 pt ft ts i seg_count (take (unat m) bs)"
  have seed: "unat (sd_packet_id_seed s1) = Suc (unat (sd_packet_id_seed sender))"
    using Cons.prems(11) by (simp add: s1_def unat_word_ariths)
  have m: "unat m \<le> 1000" "unat m \<le> length bs" "length (take (unat m) bs) = unat m"
    using Cons.prems(9,10) by auto
  have "honest S g"
    unfolding g_def using Cons.prems m seed by (intro make_segment_honest [of S s1 ps]) (simp_all add: s1_def nth_append)
  then have g: "honest S g" "seg_packet_id g = sd_packet_id_seed s1" "seg_remb g \<noteq> 0"
    by (simp_all add: g_def make_segment_def)
  have fresh: "map_of (sd_cache sender) (sd_packet_id_seed s1) = None"
    using Cons.prems(1) seed by (auto simp: cache_holds_def map_of_eq_None_iff word_le_nat_alt)
  obtain cc where cc: "sd_cc sender = Some cc" "sender_ok start now mn mx n cc"
    using Cons.prems(2) by (auto simp: cc_holds_def)
  define c' where "c' = sender_cc_add_pace_packet (sys_ms w 1) cc (seg_packet_id g) 0 (unat (seg_data_size g) + SIM_SEGMENT_HEADER_SIZE)"
  define s2 where "s2 = s1\<lparr>sd_cache := sl_ins (seg_packet_id g) g (sd_cache s1), sd_cc := Some (fst c')\<rparr>"
  have step: "put_segments w e pt ft ts seg_count i (m # splits) bs sender
      = put_segments (after 1 w) e pt ft ts seg_count (i + 1) splits (drop (unat m) bs) s2"
    using m g(2) fresh cc(1)
    by (simp add: Let_def s1_def [symmetric] g_def [symmetric] razor_sender_add_packet_def c'_def [symmetric] case_prod_unfold s2_def)
      (simp add: s1_def c'_def)
  have "sd_packet_id_seed sender \<le> sd_packet_id_seed s1" using seed by (simp add: word_le_nat_alt)
  then have "cache_holds S s1"
    using Cons.prems(1) by (fastforce simp: cache_holds_def s1_def intro: order_trans)
  then have "cache_holds S s2"
    using g set_sl_ins_sub [of "seg_packet_id g" g "sd_cache s1"] by (auto simp: cache_holds_def s2_def)
  moreover have "cc_holds start now mn mx n s2"
    using add_packet_ok [OF cc(2)] by (simp add: s2_def cc_holds_def c'_def)
  ultimately have s2: "cache_holds S s2" "cc_holds start now mn mx n s2" "limiter_holds lg now s2"
      "sd_frame_id_seed s2 = sd_frame_id_seed sender" "sd_packet_id_seed s2 = sd_packet_id_seed s1"
    using Cons.prems(3) by (simp_all add: s2_def s1_def limiter_holds_def)
  have i1: "unat (i + 1) = Suc (unat i)"
    using Cons.prems(5,6,8) by (simp add: unat_word_ariths)
  have "\<exists>sender'. put_segments (after 1 w) e pt ft ts seg_count (i + 1) splits (drop (unat m) bs) s2 = Some sender' \<and> cache_holds S sender'
    \<and> cc_holds start now mn mx n sender' \<and> limiter_holds lg now sender' \<and> sd_frame_id_seed sender' = sd_frame_id_seed s2
    \<and> unat (sd_packet_id_seed sender') = unat (sd_packet_id_seed s2) + length splits"
    by (rule Cons.IH [OF s2(1-3), of "pre @ [take (unat m) bs]"])
      (use Cons.prems s2(4,5) i1 seed m in auto)
  then show ?case
    using step s2(4,5) seed by simp
qed simp

subsection \<open>The rate the application is told\<close>

text \<open>The share of the rate that is kept for resending, the value of \<open>loss\<close> before the multiplication.\<close>

lemma loss_share_range:
  fixes fraction :: u8
  defines "x \<equiv> (fp_of_int (uint fraction) :: double) div fp_lit 255 + fp_lit 0.07"
  shows "fin_in (1 / 4) 1 (fp_lit 1 - (if fp_lit 0.7 < x then fp_lit 0.7 else x))"
proof -
  have "uint fraction < 256" using uint_lt2p [of fraction] by simp
  then have "uint fraction \<le> 255" by linarith
  then have "fin_in 0 255 (fp_of_int (uint fraction) :: double)"
    using fin_in_of_int_range [of 0 "uint fraction" 255, where 'p = 53] by simp
  moreover have "fin_in 255 255 (fp_lit 255 :: double)" by (rule fin_in_lit) simp_all
  ultimately have "fin_in 0 1 ((fp_of_int (uint fraction) :: double) div fp_lit 255)"
    by (rule fin_in_div) simp_all
  moreover have "fin_in (1 / 16) (1 / 8) (fp_lit 0.07 :: double)" by (rule fin_in_lit) simp_all
  ultimately have "fin_in (1 / 16) 2 x"
    unfolding x_def by (rule fin_in_add) simp_all
  moreover have "frep TYPE(53) (3 / 4)" using frep_double_frac [of 3 2] by simp
  then have "fin_in (1 / 2) (3 / 4) (fp_lit 0.7 :: double)" by (intro fin_in_lit) simp_all
  ultimately have c: "fin_in (1 / 16) (3 / 4) (if fp_lit 0.7 < x then fp_lit 0.7 else x)"
    by (auto elim!: fin_inE)
  have "fin_in 1 1 (fp_lit 1 :: double)" by (rule fin_in_lit) simp_all
  from fin_in_sub [OF this c] show ?thesis by simp
qed

lemma payload_bitrate:
  fixes b :: u32
  assumes "240 \<le> b" and "b \<le> 4000000000"
  shows "uint (b - (b + word_of_nat ((SIM_SEGMENT_HEADER_SIZE + SIM_VIDEO_SIZE) * 8) - 1) div word_of_nat ((SIM_SEGMENT_HEADER_SIZE + SIM_VIDEO_SIZE) * 8)
      * word_of_nat SIM_SEGMENT_HEADER_SIZE * 8) = uint b - (uint b + 8239) div 8240 * 240"
proof -
  have b: "240 \<le> uint b" "uint b \<le> 4000000000" using assms by (simp_all add: word_le_def)
  have "uint ((b + 8240 - 1) div 8240) = (uint b + 8239) div 8240"
    using b by (simp add: uint_div uint_word_ariths)
  then have d: "uint ((8239 + b) div 8240) = (uint b + 8239) div 8240" by simp
  define q where "q = (uint b + 8239) div 8240"
  have "q * 8240 \<le> uint b + 8239" unfolding q_def by simp
  then have le: "(uint b + 8239) div 8240 * 240 \<le> uint b"
    unfolding q_def [symmetric] using b(1) by (cases "q \<le> 1") linarith+
  have "uint ((b + 8240 - 1) div 8240 * 30 * 8) = (uint b + 8239) div 8240 * 240"
    using le b(2) by (simp add: uint_word_ariths d mult.commute [of _ 240])
  then show ?thesis
    using le b by (simp add: uint_word_ariths)
qed

text \<open>What the callbacks leave alone in the session.\<close>

definition net_like :: "'a sim_net_scheme \<Rightarrow> 'a sim_net_scheme \<Rightarrow> bool" where
  "net_like s s' \<longleftrightarrow> n_env s' = n_env s \<and> n_sock s' = n_sock s \<and> n_peer s' = n_peer s \<and> n_uid s' = n_uid s \<and> n_rtt s' = n_rtt s
     \<and> n_rtt_var s' = n_rtt_var s \<and> sim_net.more s' = sim_net.more s"

lemma net_like_refl [simp]: "net_like s s"
  by (simp add: net_like_def)

lemma net_like_trans: "net_like a b \<Longrightarrow> net_like b c \<Longrightarrow> net_like a c"
  by (simp add: net_like_def)

lemma net_same_like: "net_same s s' \<Longrightarrow> net_like s s'"
  by (simp add: net_like_def net_same_def)

lemma bitrate_change_ok:
  "\<exists>s' sender' v. sim_bitrate_change s sender (b, f, rtt) = Some (s', sender', [Change_Bitrate v]) \<and> net_like s s' \<and> n_sstrm s' = n_sstrm s
    \<and> sender' = sender\<lparr>sd_limiter := sim_limiter_set_max_bitrate (sd_limiter sender) (b * 1000)\<rparr>
    \<and> (240 \<le> b \<and> b \<le> 4000000000 \<longrightarrow> (uint b - (uint b + 8239) div 8240 * 240) div 4 div 1000 \<le> uint v \<and> uint v \<le> (uint b - (uint b + 8239) div 8240 * 240) div 1000)"
proof -
  define p where "p = b - (b + word_of_nat ((SIM_SEGMENT_HEADER_SIZE + SIM_VIDEO_SIZE) * 8) - 1) div word_of_nat ((SIM_SEGMENT_HEADER_SIZE + SIM_VIDEO_SIZE) * 8)
      * word_of_nat SIM_SEGMENT_HEADER_SIZE * 8"
  define fraction where "fraction = (if n_loss_fraction s = 0 then f else word_of_int ((uint (n_loss_fraction s) * 3 + uint f) div 4))"
  define x where "x = (fp_of_int (uint fraction) :: double) div fp_lit 255 + fp_lit 0.07"
  define u where "u = uint p"
  have p: "0 \<le> u" "u \<le> 4294967295" unfolding u_def using uint_u32_range [of p] by linarith+
  then have r: "frep TYPE(53) (of_int u)" "frep TYPE(53) (of_int u / 4)"
    using frep_double_int [of u] frep_double_frac [of u 2] by simp_all
  have pu: "fin_in (of_int u) (of_int u) (fp_of_int u :: double)" and u0: "0 \<le> real_of_int u"
    using p(1) by (simp_all add: fin_in_of_int r)
  have "fin_in (of_int u / 4) (of_int u) ((fp_lit 1 - (if fp_lit 0.7 < x then fp_lit 0.7 else x)) * fp_of_int u)"
    by (rule fin_in_mul [OF loss_share_range [of fraction, folded x_def] pu _ u0 r(2) r(1)]) simp_all
  then obtain v where v: "fp_to_u32 ((fp_lit 1 - (if fp_lit 0.7 < x then fp_lit 0.7 else x)) * fp_of_int u) = Some v"
      "\<lfloor>of_int u / (4 :: real)\<rfloor> \<le> uint v" "uint v \<le> u"
    using fin_in_to_u32 [of "of_int u / 4" "of_int u"] p by auto
  have f4: "\<lfloor>of_int u / (4 :: real)\<rfloor> = u div 4"
    using floor_divide_of_int_eq [of u 4, where ?'a = real] by simp
  have dv: "uint (v div 1000) = uint v div 1000" by (simp add: uint_div)
  have "sim_bitrate_change s sender (b, f, rtt) = Some (s\<lparr>n_loss_fraction := fraction\<rparr>,
      sender\<lparr>sd_limiter := sim_limiter_set_max_bitrate (sd_limiter sender) (b * 1000)\<rparr>, [Change_Bitrate (v div 1000)])"
    unfolding sim_bitrate_change_def Let_def prod.case p_def [symmetric] fraction_def [symmetric] x_def [symmetric] u_def [symmetric] v(1) by simp
  moreover have "240 \<le> b \<and> b \<le> 4000000000 \<longrightarrow>
      (uint b - (uint b + 8239) div 8240 * 240) div 4 div 1000 \<le> uint (v div 1000) \<and> uint (v div 1000) \<le> (uint b - (uint b + 8239) div 8240 * 240) div 1000"
    using v(2,3) payload_bitrate [of b] unfolding p_def [symmetric] u_def [symmetric] dv f4 by (auto intro: zdiv_mono1)
  ultimately show ?thesis by (simp add: net_like_def)
qed

text \<open>The parameter is named kbps and holds bit/s: a thousand times it is the limit, which wraps around.\<close>

lemma limiter_limit_wraps:
  assumes "sim_bitrate_change s sender (4294968, f, rtt) = Some (s', sender', out)"
  shows "lim_max_rate_bps (sd_limiter sender') = 704"
  using bitrate_change_ok [of s sender 4294968 f rtt] assms by (auto simp: sim_limiter_set_max_bitrate_def)

subsection \<open>Every operation keeps the sender\<close>

definition snd_ok :: "frames_sent \<Rightarrow> int \<Rightarrow> int \<Rightarrow> u32 \<Rightarrow> u32 \<Rightarrow> nat \<Rightarrow> rate_log \<Rightarrow> sim_sender \<Rightarrow> bool" where
  "snd_ok S start now mn mx n lg sender \<longleftrightarrow> cache_holds S sender \<and> cc_holds start now mn mx n sender \<and> limiter_holds lg now sender"

definition seeds :: "sim_sender \<Rightarrow> u32 \<times> u32" where
  "seeds sender = (sd_packet_id_seed sender, sd_frame_id_seed sender)"

text \<open>What is sent are packets of the frames \<open>S\<close>.\<close>

definition seg_sent :: "frames_sent \<Rightarrow> env \<Rightarrow> u32 \<Rightarrow> u8 list \<Rightarrow> bool" where
  "seg_sent S e uid d \<longleftrightarrow> (\<exists>g. d = datagram e (INIT_SIM_HEADER SIM_SEG uid) (Segment_Body g) \<and> honest S g \<and> seg_remb g \<noteq> 0)"

text \<open>A video rate (in kbit/s) that the application may be told under the bounds: with a header of 30 bytes on each 1000 it fits \<open>mx\<close>.\<close>

definition told_ok :: "u32 \<Rightarrow> u32 \<Rightarrow> u32 \<Rightarrow> bool" where
  "told_ok mn mx v \<longleftrightarrow> uint mn div 8000 \<le> uint v \<and> 103000 * uint v \<le> 100 * uint mx"

lemma told_rate_ok:
  assumes "10000 \<le> mn" and "mn \<le> b" and "b \<le> mx" and "mx \<le> 35000000"
    and "240 \<le> b \<and> b \<le> 4000000000 \<longrightarrow> (uint b - (uint b + 8239) div 8240 * 240) div 4 div 1000 \<le> uint v
      \<and> uint v \<le> (uint b - (uint b + 8239) div 8240 * 240) div 1000"
  shows "told_ok mn mx v"
proof -
  have b: "uint mn \<le> uint b" "uint b \<le> uint mx" "10000 \<le> uint mn" "uint mx \<le> 35000000"
    using assms(1-4) by (simp_all add: word_le_def)
  then have "240 \<le> b \<and> b \<le> 4000000000" by (simp add: word_le_def)
  then have v: "(uint b - (uint b + 8239) div 8240 * 240) div 4 div 1000 \<le> uint v" "uint v \<le> (uint b - (uint b + 8239) div 8240 * 240) div 1000"
    using assms(5) by blast+
  define q where "q = (uint b + 8239) div 8240"
  have q: "q * 8240 \<le> uint b + 8239" "uint b \<le> q * 8240" unfolding q_def by linarith+
  have v1: "(uint b - q * 240) div 4000 \<le> uint v" using v(1) by (simp add: q_def zdiv_zmult2_eq [symmetric])
  have v2: "uint v * 1000 \<le> uint b - q * 240" using v(2) unfolding q_def [symmetric] by linarith
  have "uint mn div 8000 \<le> (uint b - q * 240) div 4000" using q(1) b(1,3) by linarith
  then show ?thesis
    using v1 v2 q(2) b(2) unfolding told_ok_def by linarith
qed

definition snd_result ::
  "frames_sent \<Rightarrow> int \<Rightarrow> int \<Rightarrow> u32 \<Rightarrow> u32 \<Rightarrow> nat \<Rightarrow> rate_log \<Rightarrow> 'a sim_net_scheme \<Rightarrow> sim_sender \<Rightarrow> 'a sim_net_scheme \<times> sim_sender \<times> sim_out list \<Rightarrow> bool" where
  "snd_result S start now mn mx n lg s sender res \<longleftrightarrow> (case res of (s', sender', out) \<Rightarrow> net_wf s' \<and> net_like s s'
     \<and> snd_ok S start now mn mx n lg sender' \<and> seeds sender' = seeds sender
     \<and> (\<forall>d\<in>set (datagrams_of out). seg_sent S (n_env s) (n_uid s) d) \<and> (\<forall>v. Change_Bitrate v \<in> set out \<longrightarrow> told_ok mn mx v))"

lemma snd_result_trans:
  assumes "snd_result S start now mn mx n lg s sender (s1, sender1, o1)" and "snd_result S start now mn mx n lg s1 sender1 (s2, sender2, o2)"
  shows "snd_result S start now mn mx n lg s sender (s2, sender2, o1 @ o2)"
  using assms net_like_trans [of s s1 s2] by (auto simp: snd_result_def net_like_def)

lemma snd_result_refl: "net_wf s \<Longrightarrow> snd_ok S start now mn mx n lg sender \<Longrightarrow> snd_result S start now mn mx n lg s sender (s, sender, [])"
  by (simp add: snd_result_def)

lemma honest_stamped [simp]: "honest S (g\<lparr>seg_transport_seq := a, seg_send_ts := b\<rparr>) = honest S g"
  by (simp add: honest_def seg_payload_def)

lemma send_packet_ok:
  assumes "net_wf s" and "snd_ok S start now mn mx n lg sender"
  shows "\<exists>r. sim_send_packet w s sender c = Some r \<and> snd_result S start now mn mx n lg s sender r"
proof -
  obtain k retrans sz where c: "c = (k, retrans, sz)" by (cases c)
  show ?thesis
  proof (cases "map_of (sd_cache sender) k")
    case None
    then show ?thesis
      using snd_result_refl [OF assms] by (simp add: sim_send_packet_def c)
  next
    case (Some g)
    have g: "honest S g" "seg_packet_id g = k" "seg_remb g \<noteq> 0" "k \<le> sd_packet_id_seed sender"
      using cache_holds_get [OF _ Some, of S] assms(2) by (simp_all add: snd_ok_def)
    obtain cc where cc: "sd_cc sender = Some cc" "sender_ok start now mn mx n cc"
      using assms(2) by (auto simp: snd_ok_def cc_holds_def)
    define g1 where "g1 = g\<lparr>seg_transport_seq := ucast (sd_transport_seq_seed sender),
      seg_send_ts := word_of_int (sys_ms w 0 - sd_first_ts sender - uint (seg_timestamp g))\<rparr>"
    have g1: "honest S g1" "seg_packet_id g1 = k" "seg_remb g1 \<noteq> 0" using g by (simp_all add: g1_def)
    obtain cc' where cc': "sender_on_send_packet (sys_ms w 1) cc (seg_transport_seq g1) (unat (seg_data_size g1) + SIM_SEGMENT_HEADER_SIZE) = Some cc'"
        "sender_ok start now mn mx n cc'"
      using on_send_ok [OF cc(2)] by blast
    obtain s' where s': "net_send_msg s (INIT_SIM_HEADER SIM_SEG (n_uid s)) (Segment_Body g1) = Some (s', sends s (INIT_SIM_HEADER SIM_SEG (n_uid s)) (Segment_Body g1))"
        "net_wf s'" "net_same s s'"
      using net_send_msg_ok [OF assms(1), of "INIT_SIM_HEADER SIM_SEG (n_uid s)" "Segment_Body g1"] g1(1)
      by (auto simp: honest_def INIT_SIM_HEADER_def)
    define sd where "sd = sender\<lparr>sd_transport_seq_seed := sd_transport_seq_seed sender + 1, sd_cache := sl_put k g1 (sd_cache sender), sd_cc := Some cc'\<rparr>"
    have r: "sim_send_packet w s sender c = Some (s', sd, sends s (INIT_SIM_HEADER SIM_SEG (n_uid s)) (Segment_Body g1))"
      using Some cc(1) cc'(1) s'(1) unfolding g1_def sd_def by (simp add: sim_send_packet_def c Let_def razor_sender_on_send_def)
    have "cache_holds S sd"
      unfolding cache_holds_def sd_def using assms(2) g1 g(4)
      by (auto simp: snd_ok_def cache_holds_def sl_put_def split: if_splits)
    then have "snd_ok S start now mn mx n lg sd"
      using assms(2) cc'(2) by (simp add: snd_ok_def cc_holds_def limiter_holds_def sd_def)
    moreover have "\<forall>d\<in>set (datagrams_of (sends s (INIT_SIM_HEADER SIM_SEG (n_uid s)) (Segment_Body g1))). seg_sent S (n_env s) (n_uid s) d"
      using g1 by (auto simp: sends_def seg_sent_def)
    ultimately show ?thesis
      unfolding r using s'(2) net_same_like [OF s'(3)] by (simp add: snd_result_def seeds_def sd_def sends_def)
  qed
qed

lemma send_packets_ok:
  assumes "net_wf s" and "snd_ok S start now mn mx n lg sender"
  shows "\<exists>r. send_packets w s sender cs = Some r \<and> snd_result S start now mn mx n lg s sender r"
  using assms
proof (induction cs arbitrary: s sender w)
  case Nil
  then show ?case by (simp add: snd_result_refl)
next
  case (Cons c cs)
  obtain s1 sd1 o1 where 1: "sim_send_packet w s sender c = Some (s1, sd1, o1)" "snd_result S start now mn mx n lg s sender (s1, sd1, o1)"
    using send_packet_ok [OF Cons.prems, of w c] by auto
  obtain s2 sd2 o2 where 2: "send_packets (after 2 w) s1 sd1 cs = Some (s2, sd2, o2)" "snd_result S start now mn mx n lg s1 sd1 (s2, sd2, o2)"
    using Cons.IH [of s1 sd1 "after 2 w"] 1(2) by (auto simp: snd_result_def)
  show ?case
    using 1(1) 2(1) snd_result_trans [OF 1(2) 2(2)] by simp
qed

lemma change_bitrates_ok:
  assumes "net_wf s" and "snd_ok S start now mn mx n lg sender" and "\<forall>x\<in>set ns. mn \<le> fst x \<and> fst x \<le> mx" and "10000 \<le> mn" and "mx \<le> 35000000"
  shows "\<exists>r. change_bitrates s sender ns = Some r \<and> snd_result S start now mn mx n lg s sender r"
  using assms(1-3)
proof (induction ns arbitrary: s sender)
  case Nil
  then show ?case by (simp add: snd_result_refl)
next
  case (Cons x ns)
  obtain b f rtt where x: "x = (b, f, rtt)" by (cases x)
  obtain s1 sd1 v where 1: "sim_bitrate_change s sender x = Some (s1, sd1, [Change_Bitrate v])" "n_sstrm s1 = n_sstrm s" "net_like s s1"
      "sd1 = sender\<lparr>sd_limiter := sim_limiter_set_max_bitrate (sd_limiter sender) (b * 1000)\<rparr>" "told_ok mn mx v"
    using bitrate_change_ok [of s sender b f rtt] told_rate_ok [OF assms(4) _ _ assms(5), of b] Cons.prems(3) by (auto simp: x)
  have "snd_result S start now mn mx n lg s sender (s1, sd1, [Change_Bitrate v])"
    using 1(2-5) Cons.prems
    by (simp add: snd_result_def net_wf_def seeds_def snd_ok_def cc_holds_def limiter_holds_def sim_limiter_set_max_bitrate_def)
  moreover from this obtain s2 sd2 o2 where "change_bitrates s1 sd1 ns = Some (s2, sd2, o2)" "snd_result S start now mn mx n lg s1 sd1 (s2, sd2, o2)"
    using Cons.IH [of s1 sd1] Cons.prems(3) by (auto simp: snd_result_def)
  ultimately show ?case
    using 1(1) snd_result_trans by fastforce
qed

text \<open>Acknowledgements.\<close>

lemma update_base_ok:
  assumes "snd_ok S start now mn mx n lg sender" and "base < 0xFFFFFFFF"
  shows "\<exists>sender'. sim_sender_update_base sender base = Some sender' \<and> snd_ok S start now mn mx n lg sender' \<and> seeds sender' = seeds sender
    \<and> sd_cc sender' = sd_cc sender"
proof -
  have "\<exists>c. opt_fold (\<lambda>i c. Some (sl_del i c)) is (sd_cache sender) = Some c \<and> set c \<subseteq> set (sd_cache sender)" for "is"
    by (rule opt_fold_inv) (auto simp: sl_del_def)
  then obtain c where "opt_fold (\<lambda>i c. Some (sl_del i c)) (u32_upt (unat (sd_base_packet_id sender)) (Suc (unat base))) (sd_cache sender) = Some c"
      "set c \<subseteq> set (sd_cache sender)" by blast
  then show ?thesis
    using assms cache_holds_sub [of S sender c]
    by (cases "sd_base_packet_id sender < base")
      (simp_all add: sim_sender_update_base_def for_le_fold [OF assms(2)] snd_ok_def seeds_def cc_holds_def limiter_holds_def Let_def)
qed

text \<open>A report with the largest number as base removes packets for ever.\<close>

lemma feedback_base_diverges: "sim_sender_update_base sender 0xFFFFFFFF = None"
  by (simp add: sim_sender_update_base_def for_le_max_diverges)

text \<open>\<open>lg\<close> weighs at most as much as \<open>big\<close> in every window.\<close>

definition lighter :: "rate_log \<Rightarrow> rate_log \<Rightarrow> bool" where
  "lighter lg big \<longleftrightarrow> (\<forall>a. sum_list (map (\<lambda>(t, c). int c) (filter (\<lambda>(t, c). a \<le> t \<and> t < a + 1000) lg))
     \<le> sum_list (map (\<lambda>(t, c). int c) (filter (\<lambda>(t, c). a \<le> t \<and> t < a + 1000) big)))"

lemma lighter_light: "lighter lg big \<Longrightarrow> light big \<Longrightarrow> light lg"
  unfolding lighter_def light_def by (meson order_trans)

lemma lighter_snoc: "lighter lg big \<Longrightarrow> c \<le> d \<Longrightarrow> lighter (lg @ [(t, c)]) (big @ [(t, d)])"
  by (auto simp: lighter_def intro!: add_mono)

lemma lighter_skip: "lighter lg big \<Longrightarrow> lighter lg (big @ [(t, d)])"
  by (auto simp: lighter_def intro: order_trans)

lemma meter_later: "meter wnd r lg now \<Longrightarrow> now \<le> t \<Longrightarrow> meter wnd r lg t"
  by (auto simp: meter_def)

lemma limiter_try_ok:
  assumes "limiter_holds lg now0 sender" and "light lg" and "now0 \<le> now" and "0 \<le> now" and "now < 2147483647"
  shows "\<exists>l r. sim_limiter_try (sd_limiter sender) sz now = Some (l, r) \<and> limiter_holds lg now (sender\<lparr>sd_limiter := l\<rparr>)"
proof -
  obtain rate v where "rate_stat_rate (lim_rate (sd_limiter sender)) now = Some (rate, v)" "meter 300 rate lg now"
    using rate_defined [OF _ assms(2-5), of 300] assms(1) unfolding limiter_holds_def by blast
  then show ?thesis
    using assms(1) by (simp add: sim_limiter_try_def limiter_holds_def Let_def)
qed

lemma snd_ok_later: "snd_ok S start now mn mx n lg sender \<Longrightarrow> now \<le> t \<Longrightarrow> n \<le> k \<Longrightarrow> snd_ok S start t mn mx k lg sender"
  unfolding snd_ok_def cc_holds_def limiter_holds_def using sender_ok_later meter_later by blast

lemma resend_packet_ok:
  assumes "snd_ok S start now0 mn mx n lg sender" and "lighter lg big" and "light (big @ [(now, 1030)])" and "now0 \<le> now" and "0 \<le> now"
    and "now < 2147483647"
  shows "\<exists>sender' lg'. resend_packet now sys_ts sender k = Some sender' \<and> snd_ok S start now mn mx n lg' sender' \<and> lighter lg' (big @ [(now, 1030)])
    \<and> seeds sender' = seeds sender"
proof (cases "map_of (sd_cache sender) k")
  case None
  then show ?thesis
    using snd_ok_later [OF assms(1,4) order_refl] lighter_skip [OF assms(2)] by (auto simp: resend_packet_def)
next
  case (Some g)
  define sz where "sz = unat (seg_data_size g) + SIM_SEGMENT_HEADER_SIZE"
  have now: "snd_ok S start now mn mx n lg sender" by (rule snd_ok_later [OF assms(1,4) order_refl])
  have "honest S g" using cache_holds_get [OF _ Some, of S] now by (simp add: snd_ok_def)
  then have sz: "sz \<le> 1030" by (simp add: sz_def honest_def)
  obtain cc where cc: "sd_cc sender = Some cc" "sender_ok start now mn mx n cc"
    using now by (auto simp: snd_ok_def cc_holds_def)
  have light: "light lg" using lighter_light [OF assms(2)] light_append(1) [OF assms(3)] by blast
  obtain l r where l: "sim_limiter_try (sd_limiter sender) sz now = Some (l, r)" "limiter_holds lg now (sender\<lparr>sd_limiter := l\<rparr>)"
    using limiter_try_ok [of lg now0 sender now sz] assms(1,4-6) light by (auto simp: snd_ok_def)
  define s1 where "s1 = sender\<lparr>sd_limiter := l\<rparr>"
  have s1: "snd_ok S start now mn mx n lg s1" "seeds s1 = seeds sender" "sd_cc s1 = Some cc" "sd_limiter s1 = l"
    using now l(2) cc by (simp_all add: s1_def snd_ok_def cc_holds_def seeds_def)
  define c' where "c' = sender_cc_add_pace_packet sys_ts cc (seg_packet_id g) 1 sz"
  define s2 where "s2 = s1\<lparr>sd_cc := Some (fst c')\<rparr>"
  have s2: "snd_ok S start now mn mx n lg s2" "seeds s2 = seeds sender" "sd_limiter s2 = l"
    using s1 add_packet_ok [OF cc(2)] by (simp_all add: s2_def snd_ok_def cc_holds_def limiter_holds_def seeds_def c'_def)
  obtain l' where l': "sim_limiter_update l sz now = Some l'" "limiter_holds (lg @ [(now, sz)]) now (s2\<lparr>sd_limiter := l'\<rparr>)"
    using meter_update [of 300 "lim_rate l" lg now now sz] l(2) assms(5,6) by (auto simp: sim_limiter_update_def limiter_holds_def)
  have "resend_packet now sys_ts sender k = (if r \<noteq> 0 then Some s1 else if snd c' = 0 then Some (s2\<lparr>sd_limiter := l'\<rparr>) else Some s2)"
    using Some l(1) l'(1) unfolding s2_def s1_def c'_def sz_def
    by (simp add: resend_packet_def Let_def razor_sender_add_packet_def case_prod_unfold cc(1))
  moreover have "snd_ok S start now mn mx n (lg @ [(now, sz)]) (s2\<lparr>sd_limiter := l'\<rparr>)" "seeds (s2\<lparr>sd_limiter := l'\<rparr>) = seeds sender"
    using s2(1,2) l'(2) by (simp_all add: snd_ok_def cc_holds_def seeds_def)
  ultimately show ?thesis
    using s1(1,2) s2(1,2) lighter_skip [OF assms(2)] lighter_snoc [OF assms(2) sz] by auto
qed

lemma resend_packets_ok:
  assumes "snd_ok S start now mn mx n lg sender" and "lighter lg big" and "light (big @ replicate (length ns) (now, 1030))" and "0 \<le> now"
    and "now < 2147483647"
  shows "\<exists>sender' lg'. resend_packets w now base ns sender = Some sender' \<and> snd_ok S start now mn mx n lg' sender'
    \<and> lighter lg' (big @ replicate (length ns) (now, 1030)) \<and> seeds sender' = seeds sender"
  using assms
proof (induction ns arbitrary: sender lg big w)
  case (Cons m ns)
  have l: "big @ replicate (length (m # ns)) (now, 1030) = (big @ [(now, 1030)]) @ replicate (length ns) (now, 1030)" by simp
  have "light (big @ [(now, 1030)])" using Cons.prems(3) light_append(1) unfolding l by blast
  then obtain s1 lg1 where 1: "resend_packet now (sys_ms w 1) sender (base + ucast m) = Some s1" "snd_ok S start now mn mx n lg1 s1"
      "lighter lg1 (big @ [(now, 1030)])" "seeds s1 = seeds sender"
    using resend_packet_ok [OF Cons.prems(1,2) _ order_refl Cons.prems(4,5)] by blast
  from Cons.IH [OF 1(2,3) Cons.prems(3) [unfolded l] Cons.prems(4,5), of "after 1 w"] show ?case
    using 1(1,4) unfolding l by auto
qed auto

lemma seeds_seed: "seeds a = seeds b \<Longrightarrow> sd_packet_id_seed a = sd_packet_id_seed b \<and> sd_frame_id_seed a = sd_frame_id_seed b"
  by (simp add: seeds_def)

lemma lighter_skips: "lighter lg big \<Longrightarrow> lighter lg (big @ replicate k (t, d))"
  by (induction k arbitrary: big) (use lighter_skip in fastforce)+

lemma ack_ok:
  assumes "snd_ok S start now mn mx n lg sender" and "sd_packet_id_seed sender < 0xFFFFFFFF" and "unat (nack_num ack) \<le> length (nack ack)"
    and "time_ok start now (sys_ms w 0)" and "lighter lg big" and "light (big @ replicate (unat (nack_num ack)) (sys_ms w 0, 1030))"
  shows "\<exists>sender' ret lg'. sim_sender_ack w sender ack = Some (sender', ret) \<and> snd_ok S start (sys_ms w 0) mn mx n lg' sender'
    \<and> lighter lg' (big @ replicate (unat (nack_num ack)) (sys_ms w 0, 1030)) \<and> seeds sender' = seeds sender"
proof -
  have now: "now \<le> sys_ms w 0" "0 \<le> sys_ms w 0" "sys_ms w 0 < 2147483647" using assms(4) by (simp_all add: time_ok_def)
  have t: "snd_ok S start (sys_ms w 0) mn mx n lg sender" by (rule snd_ok_later [OF assms(1) now(1) order_refl])
  note skip = lighter_skips [OF assms(5)]
  show ?thesis
  proof (cases "sd_packet_id_seed sender < sack_acked ack \<or> sd_packet_id_seed sender < sack_base ack")
    case True
    then show ?thesis using t skip by (auto simp: sim_sender_ack_def)
  next
    case False
    then have "sack_base ack < 0xFFFFFFFF" using assms(2) by (auto simp: not_less intro: le_less_trans)
    then obtain s1 where s1: "sim_sender_update_base sender (sack_base ack) = Some s1" "snd_ok S start (sys_ms w 0) mn mx n lg s1" "seeds s1 = seeds sender"
      using update_base_ok [OF t] by blast
    define ns where "ns = take (unat (nack_num ack)) (nack ack)"
    have len: "length ns = unat (nack_num ack)" using assms(3) by (simp add: ns_def)
    obtain s2 lg2 where s2: "resend_packets w (sys_ms w 0) (sack_base ack) ns s1 = Some s2"
        "snd_ok S start (sys_ms w 0) mn mx n lg2 s2" "lighter lg2 (big @ replicate (unat (nack_num ack)) (sys_ms w 0, 1030))" "seeds s2 = seeds s1"
      using resend_packets_ok [OF s1(2) assms(5), of ns w "sack_base ack", unfolded len, OF assms(6) now(2,3)] by blast
    have "sim_sender_ack w sender ack = Some (s2, 0)"
      using False s1(1) assms(3) s2(1) by (simp add: sim_sender_ack_def ns_def)
    then show ?thesis
      using s1(3) s2(2-4) by auto
  qed
qed

lemma feedback_ok_sender:
  assumes "net_wf s" and "snd_ok S start now mn mx n lg sender" and "10000 \<le> mn" and "mx \<le> 35000000" and "n < 16000000" and "time_ok start now (sys_ms w 0)"
    and "fb_base fb < 0xFFFFFFFF" and "unat (feedback_size fb) \<le> length (feedback fb)" and "length (new_hist w) = 20" and "qsort_ok (libc_qsort w)"
    and "length (samples (stack_msg w)) = MAX_FEELBACK_COUNT"
    and "\<forall>cc. sd_cc sender = Some cc \<longrightarrow> feedback_ok (n_env s) (libc_qsort w) (sys_ms w) start (stack_msg w) cc (take (unat (feedback_size fb)) (feedback fb))"
  shows "\<exists>r. sim_sender_feedback w s sender fb = Some r \<and> snd_result S start (sys_ms w 0) mn mx (Suc n) lg s sender r"
proof -
  obtain s1 where s1: "sim_sender_update_base sender (fb_base fb) = Some s1" "snd_ok S start now mn mx n lg s1" "seeds s1 = seeds sender" "sd_cc s1 = sd_cc sender"
    using update_base_ok [OF assms(2,7)] by blast
  obtain cc where cc: "sd_cc s1 = Some cc" "sender_ok start now mn mx n cc"
    using s1(2) by (auto simp: snd_ok_def cc_holds_def)
  obtain cc' ns where c: "sender_on_feedback (n_env s) (libc_qsort w) (sys_ms w) (new_hist w) (stack_msg w) cc (take (unat (feedback_size fb)) (feedback fb))
      = Some (cc', ns)" "sender_ok start (sys_ms w 0) mn mx (Suc n) cc'" "\<forall>x\<in>set ns. mn \<le> fst x \<and> fst x \<le> mx"
    using sender_on_feedback_ok [OF cc(2) assms(4) _ _ assms(5,9,10,11), of "sys_ms w" "n_env s" "take (unat (feedback_size fb)) (feedback fb)"]
      assms(6,12) cc(1) s1(4) by (auto simp: time_ok_def tells_def)
  have "snd_ok S start (sys_ms w 0) mn mx (Suc n) lg (s1\<lparr>sd_cc := Some cc'\<rparr>)"
    using snd_ok_later [OF s1(2), of "sys_ms w 0" "Suc n"] c(2) assms(6) by (simp add: snd_ok_def cc_holds_def limiter_holds_def time_ok_def)
  from change_bitrates_ok [OF assms(1) this c(3) assms(3,4)] show ?thesis
    using s1(1,3) cc(1) c(1) assms(8) by (auto simp: sim_sender_feedback_def razor_sender_on_feedback_def snd_result_def seeds_def)
qed

lemma timer_ok:
  assumes "net_wf s" and "snd_ok S start now mn mx n lg sender" and "10000 \<le> mn" and "mx \<le> 35000000" and "time_ok start now (sys_ms w 0)"
    and "\<forall>cc. sd_cc sender = Some cc \<longrightarrow> sizes (unsent (ps_que (sc_pacer cc))) \<le> 500000"
  shows "\<exists>r. sim_sender_timer w s sender = Some r \<and> snd_result S start (sys_ms w 0) mn mx n lg s sender r"
proof -
  obtain cc where cc: "sd_cc sender = Some cc" "sender_ok start now mn mx n cc"
    using assms(2) by (auto simp: snd_ok_def cc_holds_def)
  obtain cc' calls ns where c: "sender_cc_heartbeat (sys_ms w) cc = Some (cc', calls, ns)" "sender_ok start (sys_ms w 0) mn mx n cc'"
      "\<forall>x\<in>set ns. mn \<le> fst x \<and> fst x \<le> mx"
    using sender_heartbeat_ok [OF cc(2) assms(3,4), of "sys_ms w"] assms(5,6) cc(1) by (auto simp: time_ok_def tells_def)
  define s0 where "s0 = sender\<lparr>sd_cc := Some cc'\<rparr>"
  have s0: "snd_ok S start (sys_ms w 0) mn mx n lg s0" "seeds s0 = seeds sender"
    using snd_ok_later [OF assms(2), of "sys_ms w 0" n] c(2) assms(5) by (simp_all add: s0_def snd_ok_def cc_holds_def limiter_holds_def time_ok_def seeds_def)
  obtain s1 sd1 o1 where 1: "send_packets (after 2 w) s s0 calls = Some (s1, sd1, o1)" "snd_result S start (sys_ms w 0) mn mx n lg s s0 (s1, sd1, o1)"
    using send_packets_ok [OF assms(1) s0(1), of "after 2 w" calls] by auto
  then obtain s2 sd2 o2 where 2: "change_bitrates s1 sd1 ns = Some (s2, sd2, o2)" "snd_result S start (sys_ms w 0) mn mx n lg s1 sd1 (s2, sd2, o2)"
    using change_bitrates_ok [of s1 S start "sys_ms w 0" mn mx n lg sd1 ns] c(3) assms(3,4) by (auto simp: snd_result_def)
  have "sim_sender_timer w s sender = Some (s2, sd2, o1 @ o2)"
    using cc(1) c(1) 1(1) 2(1) by (simp add: sim_sender_timer_def razor_sender_heartbeat_def s0_def)
  then show ?thesis
    using snd_result_trans [OF 1(2) 2(2)] s0(2) by (auto simp: snd_result_def)
qed

lemma sender_put_ok:
  assumes "snd_ok S start now mn mx n lg sender" and "S (sd_frame_id_seed sender + 1) = packets_of bs" and "length bs div SIM_VIDEO_SIZE < SPLIT_NUMBER"
    and "unat (sd_packet_id_seed sender) + 2048 < 4294967296"
  shows "\<exists>sender'. sim_sender_put w s sender pt ft bs = Some sender' \<and> snd_ok S start now mn mx n lg sender'
    \<and> sd_frame_id_seed sender' = sd_frame_id_seed sender + 1
    \<and> unat (sd_packet_id_seed sender') = unat (sd_packet_id_seed sender) + length (packets_of bs)"
proof -
  define splits where "splits = sim_split_frame (length bs)"
  have sp: "sum_list (map unat splits) = length bs" "\<forall>m\<in>set splits. unat m \<le> SIM_VIDEO_SIZE" "length splits \<le> SPLIT_NUMBER"
    "packets_of bs = cut splits bs"
    using split_frame_ok [OF assms(3)] by (simp_all add: splits_def packets_of_def)
  obtain ts :: u32 and s0 where s0: "(if sd_first_ts sender = -1 then (0, sender\<lparr>sd_first_ts := sys_ms w 0\<rparr>)
      else (word_of_int (sys_ms w 0 - sd_first_ts sender), sender)) = (ts, s0)" by force
  define s1 where "s1 = s0\<lparr>sd_frame_id_seed := sd_frame_id_seed s0 + 1\<rparr>"
  have f: "snd_ok S start now mn mx n lg s1" "sd_frame_id_seed s1 = sd_frame_id_seed sender + 1" "sd_packet_id_seed s1 = sd_packet_id_seed sender"
    using s0 assms(1) by (auto simp: s1_def snd_ok_def cc_holds_def limiter_holds_def split: if_splits)
  then have h: "cache_holds S s1" "cc_holds start now mn mx n s1" "limiter_holds lg now s1" by (simp_all add: snd_ok_def)
  have eq: "sim_sender_put w s sender pt ft bs = put_segments w (n_env s) pt ft ts (word_of_nat (length splits)) 0 splits bs s1"
    using assms(3) by (simp add: sim_sender_put_def Let_def splits_def [symmetric] s0 s1_def)
  obtain s2 where "put_segments w (n_env s) pt ft ts (word_of_nat (length splits)) 0 splits bs s1 = Some s2" "cache_holds S s2"
    "cc_holds start now mn mx n s2" "limiter_holds lg now s2" "sd_frame_id_seed s2 = sd_frame_id_seed s1"
    "unat (sd_packet_id_seed s2) = unat (sd_packet_id_seed s1) + length splits"
    using put_segments_ok [OF h, of "packets_of bs" "[]" splits bs 0 "word_of_nat (length splits)" w "n_env s" pt ft ts] sp assms(2,4) f(2,3) by auto
  then show ?thesis
    using f(2,3) sp(4) unfolding eq snd_ok_def by auto
qed

lemma sint_u32: "uint (x :: u32) < 2147483648 \<Longrightarrow> sint x = uint x"
  using sint_of_int [of "uint x", where 'a = 32] order_trans [OF _ uint_ge_0 [of x], of "- 2147483648"] by simp

lemma rtt_ok:
  assumes "snd_ok S start now mn mx n lg sender" and "n_rtt s + n_rtt_var s \<le> 1000000"
  shows "snd_ok S start now mn mx n lg (sim_sender_update_rtt s sender) \<and> seeds (sim_sender_update_rtt s sender) = seeds sender"
proof -
  have "uint (n_rtt s + n_rtt_var s) \<le> 1000000" using assms(2) by (simp add: word_le_def)
  then have "sint (n_rtt s + n_rtt_var s) \<le> 1000000 \<and> 0 \<le> sint (n_rtt s + n_rtt_var s)"
    by (simp add: sint_u32)
  then show ?thesis
    using assms(1) update_rtt_ok [of start now mn mx n _ "sint (n_rtt s + n_rtt_var s)"]
    by (auto simp: snd_ok_def cc_holds_def limiter_holds_def seeds_def sim_sender_update_rtt_def razor_sender_update_rtt_def)
qed

text \<open>The sender of a session that has just been connected.\<close>

lemma meter_init: "0 < wnd \<Longrightarrow> wnd \<le> 1000 \<Longrightarrow> 0 \<le> now \<Longrightarrow> meter wnd (rate_stat_init wnd (fp_lit 8000)) [] now"
  by (auto simp: meter_def rs_rel_def rs_wf_def rate_stat_init_def rate_stat_reset_def s32_def sum_list_replicate map_replicate_const)

lemma sender_started_ok:
  assumes "net_wf s" and "malloc_ok w" and "0 \<le> sys_ms w 1" and "10000 \<le> mn" and "mn \<le> st" and "st \<le> mx" and "mx \<le> 35000000"
    and "sim_sender_create w s = (s1, sd)"
  shows "\<exists>s2 sd2 out. sim_sender_set_bitrates w' s1 (fst (sim_sender_active sd)) mn st mx = Some (s2, sd2, out)
    \<and> snd_result S (sys_ms w 1) (sys_ms w 1) mn mx 0 [] s1 sd (s2, sd2, out) \<and> seeds sd2 = (0, 0)
    \<and> (\<forall>cc. sd_cc sd2 = Some cc \<longrightarrow> unsent (ps_que (sc_pacer cc)) = [])"
proof -
  obtain e cc where c: "sender_cc_create (n_env s) True (sys_ms w) (new_ack w) True True 500 = (e, cc)" by force
  obtain cc0 out0 where b: "sender_cc_set_bitrates (sys_ms w') (snd (sender_cc_create (n_env s) True (sys_ms w) (new_ack w) True True 500)) mn st mx = (cc0, out0)"
    by (cases "sender_cc_set_bitrates (sys_ms w') (snd (sender_cc_create (n_env s) True (sys_ms w) (new_ack w) True True 500)) mn st mx")
  note k = set_bitrates_sender_ok [OF assms(4-7) b]
  define sd1 where "sd1 = (fst (sim_sender_active sd))\<lparr>sd_cc := Some cc0\<rparr>"
  have s1: "s1 = s\<lparr>n_env := e\<rparr>" and sd: "sd = \<lparr>sd_actived = 0, sd_base_packet_id = 0, sd_packet_id_seed = 0, sd_frame_id_seed = 0, sd_transport_seq_seed = 0,
            sd_first_ts = -1, sd_cache = [], sd_cc = Some cc, sd_limiter = sim_limiter_init 300\<rparr>"
    using assms(8,2) c by (simp_all add: sim_sender_create_def razor_sender_create_def)
  have "snd_ok S (sys_ms w 1) (sys_ms w 1) mn mx 0 [] sd1"
    using k(1) meter_init [of 300 "sys_ms w 1"] assms(3)
    by (simp add: sd1_def sd sim_sender_active_def snd_ok_def cache_holds_def cc_holds_def limiter_holds_def sim_limiter_init_def)
  moreover have "net_wf s1" using assms(1) by (simp add: s1)
  ultimately obtain s2 sd2 out where r: "change_bitrates s1 sd1 out0 = Some (s2, sd2, out)" "snd_result S (sys_ms w 1) (sys_ms w 1) mn mx 0 [] s1 sd1 (s2, sd2, out)"
    using change_bitrates_ok [OF _ _ k(4) assms(4,7)] by fastforce
  have cc2: "sd_cc sd2 = sd_cc sd1"
    using r(1)
  proof (induction out0 arbitrary: s1 sd1 out)
    case (Cons x ns)
    obtain b f rtt where x: "x = (b, f, rtt)" by (cases x)
    show ?case
      using Cons.prems Cons.IH bitrate_change_ok [of s1 sd1 b f rtt] by (fastforce simp: x split: bind_splits)
  qed simp
  have eq: "sim_sender_set_bitrates w' s1 (fst (sim_sender_active sd)) mn st mx = Some (s2, sd2, out)"
    using b c r(1) by (simp add: sim_sender_set_bitrates_def razor_sender_set_bitrates_def sd1_def sim_sender_active_def sd)
  have "seeds sd1 = seeds sd" "seeds sd = (0, 0)" by (simp_all add: sd1_def sd seeds_def sim_sender_active_def)
  then show ?thesis
    using eq r(2) cc2 k(5) by (simp add: snd_result_def sd1_def pacer_queue_init_def unsent_def)
qed

subsection \<open>Runs\<close>

datatype snd_op = Snd_Put host u8 u8 "u8 list" | Snd_Timer host | Snd_Ack host sim_segment_ack | Snd_Feedback host sim_feedback | Snd_Rtt u32 u32

fun snd_step :: "snd_op \<Rightarrow> 'a sim_net_scheme \<Rightarrow> sim_sender \<Rightarrow> ('a sim_net_scheme \<times> sim_sender \<times> sim_out list) option" where
  "snd_step (Snd_Put w pt ft bs) s sd = map_option (\<lambda>sd. (s, sd, [])) (sim_sender_put w s sd pt ft bs)"
| "snd_step (Snd_Timer w) s sd = sim_sender_timer w s sd"
| "snd_step (Snd_Ack w ack) s sd = map_option (\<lambda>(sd, ret). (s, sd, [])) (sim_sender_ack w sd ack)"
| "snd_step (Snd_Feedback w fb) s sd = sim_sender_feedback w s sd fb"
| "snd_step (Snd_Rtt rtt var) s sd = (let s = s\<lparr>n_rtt := rtt, n_rtt_var := var\<rparr> in Some (s, sim_sender_update_rtt s sd, []))"

fun snd_run :: "snd_op list \<Rightarrow> 'a sim_net_scheme \<Rightarrow> sim_sender \<Rightarrow> ('a sim_net_scheme \<times> sim_sender \<times> sim_out list) option" where
  "snd_run [] s sd = Some (s, sd, [])"
| "snd_run (op # ops) s sd = do {
     (s, sd, out) \<leftarrow> snd_step op s sd;
     (s, sd, out') \<leftarrow> snd_run ops s sd;
     Some (s, sd, out @ out')
   }"

text \<open>The frames put, the packets of the frame with a number, and what acknowledgements ask to send again.\<close>

fun frames_put :: "snd_op list \<Rightarrow> u8 list list" where
  "frames_put [] = []"
| "frames_put (Snd_Put w pt ft bs # ops) = bs # frames_put ops"
| "frames_put (op # ops) = frames_put ops"

definition frames_of :: "u8 list list \<Rightarrow> frames_sent" where
  "frames_of fs fid = (if 1 \<le> unat fid \<and> unat fid \<le> length fs then packets_of (fs ! (unat fid - 1)) else [])"

fun asked_again :: "snd_op list \<Rightarrow> rate_log" where
  "asked_again [] = []"
| "asked_again (Snd_Ack w ack # ops) = replicate (unat (nack_num ack)) (sys_ms w 0, 1030) @ asked_again ops"
| "asked_again (op # ops) = asked_again ops"

fun snd_time :: "int \<Rightarrow> snd_op \<Rightarrow> int" where
  "snd_time now (Snd_Timer w) = sys_ms w 0"
| "snd_time now (Snd_Ack w ack) = sys_ms w 0"
| "snd_time now (Snd_Feedback w fb) = sys_ms w 0"
| "snd_time now op = now"

text \<open>
  What an operation may be: a frame of less than 1024000 bytes, clocks that do not go back, messages as they are decoded,
  at most 500000 bytes waiting when the timer runs and a report that suits the estimators (\<open>feedback_ok\<close>).
\<close>

fun snd_op_fits :: "int \<Rightarrow> int \<Rightarrow> snd_op \<Rightarrow> 'a sim_net_scheme \<Rightarrow> sim_sender \<Rightarrow> bool" where
  "snd_op_fits start now (Snd_Put w pt ft bs) s sd = (length bs div SIM_VIDEO_SIZE < SPLIT_NUMBER)"
| "snd_op_fits start now (Snd_Timer w) s sd = (time_ok start now (sys_ms w 0)
     \<and> pred_option (\<lambda>cc. sizes (unsent (ps_que (sc_pacer cc))) \<le> 500000) (sd_cc sd))"
| "snd_op_fits start now (Snd_Ack w ack) s sd = (time_ok start now (sys_ms w 0) \<and> unat (nack_num ack) \<le> length (nack ack))"
| "snd_op_fits start now (Snd_Feedback w fb) s sd = (time_ok start now (sys_ms w 0) \<and> fb_base fb < 0xFFFFFFFF
     \<and> unat (feedback_size fb) \<le> length (feedback fb) \<and> length (new_hist w) = 20 \<and> qsort_ok (libc_qsort w)
     \<and> length (samples (stack_msg w)) = MAX_FEELBACK_COUNT
     \<and> pred_option (\<lambda>cc. feedback_ok (n_env s) (libc_qsort w) (sys_ms w) start (stack_msg w) cc (take (unat (feedback_size fb)) (feedback fb))) (sd_cc sd))"
| "snd_op_fits start now (Snd_Rtt rtt var) s sd = (rtt + var \<le> 1000000)"

fun snd_ops_fit :: "int \<Rightarrow> int \<Rightarrow> snd_op list \<Rightarrow> 'a sim_net_scheme \<Rightarrow> sim_sender \<Rightarrow> bool" where
  "snd_ops_fit start now [] s sd = True"
| "snd_ops_fit start now (op # ops) s sd = (snd_op_fits start now op s sd
     \<and> (case snd_step op s sd of None \<Rightarrow> True | Some (s, sd, out) \<Rightarrow> snd_ops_fit start (snd_time now op) ops s sd))"

text \<open>What is left to put: frames and their packets.\<close>

definition puts_fit :: "frames_sent \<Rightarrow> snd_op list \<Rightarrow> sim_sender \<Rightarrow> bool" where
  "puts_fit S ops sd \<longleftrightarrow> unat (sd_packet_id_seed sd) + sum_list (map (length \<circ> packets_of) (frames_put ops)) + 2048 < 4294967296
     \<and> (\<forall>i<length (frames_put ops). S (sd_frame_id_seed sd + 1 + word_of_nat i) = packets_of (frames_put ops ! i))"

lemma puts_fit_same: "puts_fit S ops sd \<Longrightarrow> seeds sd' = seeds sd \<Longrightarrow> puts_fit S ops sd'"
  by (simp add: puts_fit_def seeds_def)

lemma puts_fit_seed: "puts_fit S ops sd \<Longrightarrow> sd_packet_id_seed sd < 0xFFFFFFFF \<and> unat (sd_packet_id_seed sd) + 2048 < 4294967296"
  by (simp add: puts_fit_def word_less_nat_alt)

lemma puts_fit_put:
  assumes "puts_fit S (Snd_Put w pt ft bs # ops) sd" and "sd_frame_id_seed sd' = sd_frame_id_seed sd + 1"
    and "unat (sd_packet_id_seed sd') = unat (sd_packet_id_seed sd) + length (packets_of bs)"
  shows "puts_fit S ops sd'" and "S (sd_frame_id_seed sd + 1) = packets_of bs"
proof -
  have i: "S (sd_frame_id_seed sd + 1 + word_of_nat i) = packets_of ((bs # frames_put ops) ! i)" if "i < Suc (length (frames_put ops))" for i
    using assms(1) that by (simp add: puts_fit_def)
  show "S (sd_frame_id_seed sd + 1) = packets_of bs" using i [of 0] by simp
  have "S (sd_frame_id_seed sd' + 1 + word_of_nat j) = packets_of (frames_put ops ! j)" if "j < length (frames_put ops)" for j
    using i [of "Suc j"] that assms(2) by (simp add: algebra_simps)
  then show "puts_fit S ops sd'"
    using assms(1,3) by (simp add: puts_fit_def)
qed

lemma snd_step_ok:
  assumes "net_wf s" and "snd_ok S start now mn mx n lg sd" and "10000 \<le> mn" and "mx \<le> 35000000" and "n < 16000000"
    and "snd_op_fits start now op s sd" and "puts_fit S (op # ops) sd" and "lighter lg big" and "light (big @ asked_again [op])"
  shows "\<exists>s' sd' out lg'. snd_step op s sd = Some (s', sd', out) \<and> net_wf s' \<and> n_env s' = n_env s \<and> n_uid s' = n_uid s
    \<and> snd_ok S start (snd_time now op) mn mx (Suc n) lg' sd' \<and> lighter lg' (big @ asked_again [op]) \<and> puts_fit S ops sd'
    \<and> (\<forall>d\<in>set (datagrams_of out). seg_sent S (n_env s) (n_uid s) d) \<and> (\<forall>v. Change_Bitrate v \<in> set out \<longrightarrow> told_ok mn mx v)"
proof (cases op)
  case (Snd_Put w pt ft bs)
  then have len: "length bs div SIM_VIDEO_SIZE < SPLIT_NUMBER" and fit: "puts_fit S (Snd_Put w pt ft bs # ops) sd" using assms(6,7) by simp_all
  have "sd_frame_id_seed (sd\<lparr>sd_frame_id_seed := sd_frame_id_seed sd + 1\<rparr>) = sd_frame_id_seed sd + 1" by simp
  have S: "S (sd_frame_id_seed sd + 1) = packets_of bs"
    using fit unfolding puts_fit_def by (auto dest!: spec [of _ 0])
  obtain sd' where "sim_sender_put w s sd pt ft bs = Some sd'" "snd_ok S start now mn mx n lg sd'" "puts_fit S ops sd'"
    using sender_put_ok [OF assms(2) S len, of w s pt ft] puts_fit_seed [OF fit] puts_fit_put(1) [OF fit] by blast
  then show ?thesis
    using assms(1,8) snd_ok_later [of S start now mn mx n lg sd' now "Suc n"] by (auto simp: Snd_Put)
next
  case (Snd_Timer w)
  obtain s' sd' out where "sim_sender_timer w s sd = Some (s', sd', out)" "snd_result S start (sys_ms w 0) mn mx n lg s sd (s', sd', out)"
    using timer_ok [OF assms(1-4), of w] assms(6) Snd_Timer by (auto simp: option.pred_set)
  then show ?thesis
    using assms(7,8) snd_ok_later [of S start "sys_ms w 0" mn mx n lg sd' "sys_ms w 0" "Suc n"] puts_fit_same [of S ops sd sd']
    by (auto simp: Snd_Timer snd_result_def net_like_def puts_fit_def)
next
  case (Snd_Ack w ack)
  obtain sd' ret lg' where "sim_sender_ack w sd ack = Some (sd', ret)" "snd_ok S start (sys_ms w 0) mn mx n lg' sd'"
      "lighter lg' (big @ replicate (unat (nack_num ack)) (sys_ms w 0, 1030))" "seeds sd' = seeds sd"
    using ack_ok [OF assms(2) _ _ _ assms(8), of ack w] assms(6,9) puts_fit_seed [OF assms(7)] Snd_Ack by auto
  then show ?thesis
    using assms(1,7) snd_ok_later [of S start "sys_ms w 0" mn mx n lg' sd' "sys_ms w 0" "Suc n"]
    by (auto simp: Snd_Ack puts_fit_def seeds_def)
next
  case (Snd_Feedback w fb)
  obtain s' sd' out where "sim_sender_feedback w s sd fb = Some (s', sd', out)" "snd_result S start (sys_ms w 0) mn mx (Suc n) lg s sd (s', sd', out)"
    using feedback_ok_sender [OF assms(1-5), of w fb] assms(6) Snd_Feedback by (auto simp: option.pred_set)
  then show ?thesis
    using assms(7,8) by (auto simp: Snd_Feedback snd_result_def net_like_def puts_fit_def seeds_def)
next
  case (Snd_Rtt rtt var)
  have "snd_ok S start now mn mx n lg (sim_sender_update_rtt (s\<lparr>n_rtt := rtt, n_rtt_var := var\<rparr>) sd)
      \<and> seeds (sim_sender_update_rtt (s\<lparr>n_rtt := rtt, n_rtt_var := var\<rparr>) sd) = seeds sd"
    using rtt_ok [OF assms(2), of "s\<lparr>n_rtt := rtt, n_rtt_var := var\<rparr>"] assms(6) Snd_Rtt by simp
  then show ?thesis
    using assms(1,7,8) snd_ok_later [of S start now mn mx n lg _ now "Suc n"]
    by (auto simp: Snd_Rtt Let_def net_wf_def puts_fit_def seeds_def)
qed

lemma asked_again_Cons: "asked_again (op # ops) = asked_again [op] @ asked_again ops"
  by (cases op) simp_all

lemma snd_run_ok:
  assumes "net_wf s" and "snd_ok S start now mn mx n lg sd" and "10000 \<le> mn" and "mx \<le> 35000000" and "n + length ops \<le> 16000000"
    and "snd_ops_fit start now ops s sd" and "puts_fit S ops sd" and "lighter lg big" and "light (big @ asked_again ops)"
  shows "\<exists>s' sd' out. snd_run ops s sd = Some (s', sd', out) \<and> (\<forall>d\<in>set (datagrams_of out). seg_sent S (n_env s) (n_uid s) d)
    \<and> (\<forall>v. Change_Bitrate v \<in> set out \<longrightarrow> told_ok mn mx v)"
  using assms(1,2,5-9)
proof (induction ops arbitrary: s sd now n lg big)
  case (Cons op ops)
  have l: "light ((big @ asked_again [op]) @ asked_again ops)" using Cons.prems(7) by (simp add: asked_again_Cons [of op ops])
  obtain s1 sd1 o1 lg1 where 1: "snd_step op s sd = Some (s1, sd1, o1)" "net_wf s1" "n_env s1 = n_env s" "n_uid s1 = n_uid s"
      "snd_ok S start (snd_time now op) mn mx (Suc n) lg1 sd1" "lighter lg1 (big @ asked_again [op])" "puts_fit S ops sd1"
      "\<forall>d\<in>set (datagrams_of o1). seg_sent S (n_env s) (n_uid s) d" "\<forall>v. Change_Bitrate v \<in> set o1 \<longrightarrow> told_ok mn mx v"
    using snd_step_ok [OF Cons.prems(1,2) assms(3,4) _ _ Cons.prems(5,6) light_append(1) [OF l]] Cons.prems(3,4) by auto
  obtain s2 sd2 o2 where 2: "snd_run ops s1 sd1 = Some (s2, sd2, o2)" "\<forall>d\<in>set (datagrams_of o2). seg_sent S (n_env s) (n_uid s) d"
      "\<forall>v. Change_Bitrate v \<in> set o2 \<longrightarrow> told_ok mn mx v"
    using Cons.IH [OF 1(2,5) _ _ 1(7,6) l] Cons.prems(3,4) 1(1,3,4) by auto
  then show ?case
    using 1 by auto
qed simp

text \<open>A new sender with its bounds set, and what a run of it may be.\<close>

definition sender_starts :: "host \<Rightarrow> host \<Rightarrow> 'a sim_net_scheme \<Rightarrow> u32 \<Rightarrow> u32 \<Rightarrow> u32 \<Rightarrow> 'a sim_net_scheme \<times> sim_sender \<times> sim_out list \<Rightarrow> bool" where
  "sender_starts w w' s mn st mx r \<longleftrightarrow> net_wf s \<and> malloc_ok w \<and> 0 \<le> sys_ms w 1 \<and> 10000 \<le> mn \<and> mn \<le> st \<and> st \<le> mx \<and> mx \<le> 35000000
     \<and> (let (s1, sd) = sim_sender_create w s in sim_sender_set_bitrates w' s1 (fst (sim_sender_active sd)) mn st mx = Some r)"

definition sender_run_fits :: "int \<Rightarrow> snd_op list \<Rightarrow> 'a sim_net_scheme \<Rightarrow> sim_sender \<Rightarrow> bool" where
  "sender_run_fits start ops s sd \<longleftrightarrow> length ops \<le> 16000000 \<and> sum_list (map (length \<circ> packets_of) (frames_put ops)) + 2048 < 4294967296
     \<and> light (asked_again ops) \<and> snd_ops_fit start start ops s sd"

lemma length_frames_put: "length (frames_put ops) \<le> length ops"
  by (induction ops rule: frames_put.induct) auto

lemma frames_of_nth: "length fs < 4294967296 \<Longrightarrow> i < length fs \<Longrightarrow> frames_of fs (1 + word_of_nat i) = packets_of (fs ! i)"
  using unat_of_nat [of "Suc i", where 'a = 32] by (simp add: frames_of_def)

lemma sender_run_from_start:
  assumes "sender_starts w w' s mn st mx (s2, sd2, out)" and "sender_run_fits (sys_ms w 1) ops s2 sd2"
  shows "\<exists>s3 sd3 out3. snd_run ops s2 sd2 = Some (s3, sd3, out3)
    \<and> (\<forall>d\<in>set (datagrams_of out3). seg_sent (frames_of (frames_put ops)) (n_env s2) (n_uid s2) d)
    \<and> (\<forall>v. Change_Bitrate v \<in> set (out @ out3) \<longrightarrow> told_ok mn mx v)"
proof -
  let ?S = "frames_of (frames_put ops)"
  obtain s1 sd where c: "sim_sender_create w s = (s1, sd)" by force
  note a = assms(1) [unfolded sender_starts_def c Let_def prod.case]
  have b: "snd_result ?S (sys_ms w 1) (sys_ms w 1) mn mx 0 [] s1 sd (s2, sd2, out)" "seeds sd2 = (0, 0)"
    using sender_started_ok [OF _ _ _ _ _ _ _ c, of mn st mx w' ?S] a by auto
  have "length (frames_put ops) < 4294967296"
    using assms(2) length_frames_put [of ops] by (simp add: sender_run_fits_def)
  then have "puts_fit ?S ops sd2"
    using assms(2) b(2) by (simp add: puts_fit_def sender_run_fits_def seeds_def frames_of_nth)
  then show ?thesis
    using snd_run_ok [of s2 ?S "sys_ms w 1" "sys_ms w 1" mn mx 0 "[]" sd2 ops "[]"] a b(1) assms(2)
    by (auto simp: snd_result_def sender_run_fits_def lighter_def)
qed


text \<open>
  C9: the video rate told to the application fits the bounds set. Over the same runs, each rate v (in kbit/s) is at least an eighth
  of the lower bound, whatever loss is reported, and with the 30 bytes of header on each 1000 bytes of video it is
  at most the upper bound.
\<close>

theorem told_video_rate_fits:
  assumes "sender_starts w w' s mn st mx (s2, sd2, out)" and "sender_run_fits (sys_ms w 1) ops s2 sd2"
  shows "\<exists>s3 sd3 out3. snd_run ops s2 sd2 = Some (s3, sd3, out3) \<and> (\<forall>v. Change_Bitrate v \<in> set (out @ out3) \<longrightarrow>
    uint mn div 8000 \<le> uint v \<and> 103000 * uint v \<le> 100 * uint mx)"
  using sender_run_from_start [OF assms] unfolding told_ok_def by blast

text \<open>The bytes waiting in the pacer.\<close>

definition waiting :: "sim_sender \<Rightarrow> nat" where
  "waiting sd = (case sd_cc sd of None \<Rightarrow> 0 | Some cc \<Rightarrow> sizes (unsent (ps_que (sc_pacer cc))))"

lemma pace_insert_waiting:
  assumes "pq_wf (ps_que p)"
  shows "sizes (unsent (ps_que (fst (pace_insert_packet p k retrans sz t)))) \<le> sz + sizes (unsent (ps_que p))"
proof -
  define ev where "ev = \<lparr>pe_seq = k, pe_retrans = retrans, pe_size = sz, pe_que_ts = t, pe_sent = 0\<rparr>"
  have ev: "pe_size ev = sz" by (simp add: ev_def)
  have q: "ps_que (fst (pace_insert_packet p k retrans sz t)) = fst (pacer_queue_push (ps_que p) ev)"
    by (simp add: pace_insert_packet_def ev_def case_prod_unfold Let_def)
  show ?thesis
  proof (cases "pe_seq ev \<in> fst ` set (pq_cache (ps_que p))")
    case True
    then show ?thesis using pacer_queue_push_dup_wf(3) [OF assms True] by (simp add: q)
  next
    case False
    then have "pe_seq ev \<notin> fst ` set (unsent (ps_que p))" by (auto simp: unsent_def)
    then show ?thesis using pacer_queue_push_spec(3) [OF assms False] by (simp add: q sizes_sl_ins ev)
  qed
qed

lemma put_segments_waiting:
  assumes "put_segments w e pt ft ts seg_count i splits bs sd = Some sd'" and "cc_holds start now mn mx n sd"
  shows "waiting sd' \<le> waiting sd + sum_list (map (\<lambda>m. unat m + SIM_SEGMENT_HEADER_SIZE) splits)"
  using assms
proof (induction splits arbitrary: w i bs sd)
  case (Cons m splits)
  obtain cc where cc: "sd_cc sd = Some cc" "sender_ok start now mn mx n cc"
    using Cons.prems(2) by (auto simp: cc_holds_def)
  define s1 where "s1 = sd\<lparr>sd_packet_id_seed := sd_packet_id_seed sd + 1\<rparr>"
  define g where "g = make_segment e s1 pt ft ts i seg_count (take (unat m) bs)"
  define k where "k = seg_packet_id g"
  define c' where "c' = sender_cc_add_pace_packet (sys_ms w 1) cc k 0 (unat (seg_data_size g) + SIM_SEGMENT_HEADER_SIZE)"
  define sd1 where "sd1 = s1\<lparr>sd_cache := sl_ins k g (sd_cache s1), sd_cc := Some (fst c')\<rparr>"
  have cc1: "sd_cc s1 = Some cc" using cc(1) by (simp add: s1_def)
  have "put_segments (after 1 w) e pt ft ts seg_count (i + 1) splits (drop (unat m) bs) sd1 = Some sd'" "unat m \<le> length bs"
    using Cons.prems(1) unfolding put_segments.simps Let_def s1_def [symmetric] g_def [symmetric] k_def [symmetric]
    by (simp_all add: razor_sender_add_packet_def cc1 c'_def sd1_def case_prod_unfold split: if_splits)
  then have s: "put_segments (after 1 w) e pt ft ts seg_count (i + 1) splits (drop (unat m) bs) sd1 = Some sd'" "unat m \<le> length bs"
      "sd_cc sd1 = Some (fst (sender_cc_add_pace_packet (sys_ms w 1) cc k 0 (unat (seg_data_size g) + SIM_SEGMENT_HEADER_SIZE)))"
      "seg_data_size g = word_of_nat (length (take (unat m) bs))"
    by (simp_all add: sd1_def c'_def g_def make_segment_def)
  have sz: "unat (seg_data_size g) = unat m" using s(2,4) by simp
  have "cc_holds start now mn mx n sd1" using add_packet_ok [OF cc(2)] s(3) by (simp add: cc_holds_def)
  then have "waiting sd' \<le> waiting sd1 + sum_list (map (\<lambda>m. unat m + SIM_SEGMENT_HEADER_SIZE) splits)"
    using Cons.IH [OF s(1)] by simp
  moreover have "pq_wf (ps_que (sc_pacer cc))" using cc(2) by (simp add: sender_ok_def pacer_ok_def pace_wf_def)
  then have "waiting sd1 \<le> unat m + SIM_SEGMENT_HEADER_SIZE + waiting sd"
    using pace_insert_waiting [of "sc_pacer cc" k 0 "unat (seg_data_size g) + SIM_SEGMENT_HEADER_SIZE" "sys_ms w 1"]
    by (simp add: waiting_def cc(1) s(3) sz sender_cc_add_pace_packet_def case_prod_unfold Let_def)
  ultimately show ?case by simp
qed simp

lemma sender_put_waiting:
  assumes "sim_sender_put w s sd pt ft bs = Some sd'" and "cc_holds start now mn mx n sd"
  shows "waiting sd' \<le> waiting sd + length bs + SIM_SEGMENT_HEADER_SIZE * SPLIT_NUMBER"
proof -
  have len: "length bs div SIM_VIDEO_SIZE < SPLIT_NUMBER" using assms(1) by (auto simp: sim_sender_put_def split: if_splits)
  define splits where "splits = sim_split_frame (length bs)"
  have sum: "sum_list (map (\<lambda>m. unat m + SIM_SEGMENT_HEADER_SIZE) xs) = sum_list (map unat xs) + SIM_SEGMENT_HEADER_SIZE * length xs" for xs :: "u16 list"
    by (induction xs) simp_all
  obtain ts s1 where p: "put_segments w (n_env s) pt ft ts (word_of_nat (length splits)) 0 splits bs s1 = Some sd'" "sd_cc s1 = sd_cc sd"
    using assms(1) len by (fastforce simp: sim_sender_put_def Let_def splits_def split: if_splits)
  have "cc_holds start now mn mx n s1" "waiting s1 = waiting sd" using assms(2) p(2) by (simp_all add: cc_holds_def waiting_def)
  then show ?thesis
    using put_segments_waiting [OF p(1), of start now mn mx n] split_frame_ok(1,4) [OF len] unfolding sum splits_def by simp
qed

definition wit_snd_ops :: "snd_op list" where
  "wit_snd_ops = [Snd_Put (wit_host 1010) 1 1 (replicate 1500 7), Snd_Timer (wit_host 1020),
     Snd_Ack (wit_host 1100) \<lparr>sack_base = 0, sack_acked = 1, nack_num = 1, nack = [2]\<rparr>, Snd_Rtt 80 10]"

lemma wit_sender:
  obtains s2 sd2 out where "sender_starts (wit_host 1000) (wit_host 1000) wit_net 64000 500000 2000000 (s2, sd2, out)"
    and "sender_run_fits (sys_ms (wit_host 1000) 1) wit_snd_ops s2 sd2"
proof -
  obtain s1 sd where c: "sim_sender_create (wit_host 1000) wit_net = (s1, sd)" by force
  have p: "malloc_ok (wit_host 1000)" "0 \<le> sys_ms (wit_host 1000) 1" "(10000 :: u32) \<le> 64000" "(64000 :: u32) \<le> 500000" "(500000 :: u32) \<le> 2000000"
      "(2000000 :: u32) \<le> 35000000"
    by (simp_all add: wit_host_simps)
  obtain s2 sd2 out where r: "sim_sender_set_bitrates (wit_host 1000) s1 (fst (sim_sender_active sd)) 64000 500000 2000000 = Some (s2, sd2, out)"
      "snd_result (\<lambda>_. []) 1000 1000 64000 2000000 0 [] s1 sd (s2, sd2, out)" "\<forall>cc. sd_cc sd2 = Some cc \<longrightarrow> unsent (ps_que (sc_pacer cc)) = []"
    using sender_started_ok [OF wit_net_ok(1) p c, of "wit_host 1000" "\<lambda>_. []"] unfolding wit_host_simps by blast
  have st: "sender_starts (wit_host 1000) (wit_host 1000) wit_net 64000 500000 2000000 (s2, sd2, out)"
    using r(1) c p wit_net_ok(1) by (simp add: sender_starts_def)
  have cc: "cc_holds 1000 1000 64000 2000000 0 sd2" using r(2) by (simp add: snd_result_def snd_ok_def)
  have w0: "waiting sd2 = 0" using r(3) by (simp add: waiting_def sizes_def split: option.split)
  have "waiting sd' \<le> 500000" if "sim_sender_put w s sd2 pt ft (replicate 1500 7) = Some sd'" for w s pt ft sd'
    using sender_put_waiting [OF that cc] w0 by simp
  then have t: "pred_option (\<lambda>cc. sizes (unsent (ps_que (sc_pacer cc))) \<le> 500000) (sd_cc sd')"
    if "sim_sender_put w s sd2 pt ft (replicate 1500 7) = Some sd'" for w s pt ft sd'
    using that by (fastforce simp: waiting_def option.pred_set)
  have "snd_ops_fit 1000 1000 wit_snd_ops s2 sd2"
    by (auto simp: wit_snd_ops_def wit_host_simps time_ok_def t simp del: snd_step.simps(2-5) split: option.split)
  moreover have "packets_of (replicate 1500 (7 :: u8)) = [replicate 1000 7, replicate 500 7]"
    by (simp add: packets_of_def sim_split_frame_def unat_of_nat)
  ultimately have "sender_run_fits (sys_ms (wit_host 1000) 1) wit_snd_ops s2 sd2"
    by (simp add: sender_run_fits_def wit_snd_ops_def wit_host_simps light_def)
  then show thesis using that st by blast
qed


theorem told_video_rate_fits_witness:
  "\<exists>s2 sd2 out s3 sd3 out3. sender_starts (wit_host 1000) (wit_host 1000) wit_net 64000 500000 2000000 (s2, sd2, out)
    \<and> snd_run wit_snd_ops s2 sd2 = Some (s3, sd3, out3) \<and> (\<forall>v. Change_Bitrate v \<in> set (out @ out3) \<longrightarrow> 8 \<le> uint v \<and> uint v \<le> 1941)"
proof -
  obtain s2 sd2 out where s: "sender_starts (wit_host 1000) (wit_host 1000) wit_net 64000 500000 2000000 (s2, sd2, out)"
    "sender_run_fits (sys_ms (wit_host 1000) 1) wit_snd_ops s2 sd2" by (rule wit_sender)
  obtain s3 sd3 out3 where "snd_run wit_snd_ops s2 sd2 = Some (s3, sd3, out3)" and v: "\<And>v. Change_Bitrate v \<in> set (out @ out3) \<Longrightarrow>
      uint (64000 :: u32) div 8000 \<le> uint v \<and> 103000 * uint v \<le> 100 * uint (2000000 :: u32)"
    using told_video_rate_fits [OF s] by blast
  moreover have "8 \<le> uint v \<and> uint v \<le> 1941" if "Change_Bitrate v \<in> set (out @ out3)" for v
    using v [OF that] by simp
  ultimately show ?thesis using s(1) by blast
qed

end
