(* ===== verification/Sim_Receiver.thy ===== *)
theory Sim_Receiver
  imports Sim_Net Frame_Cache Receiver_CC
begin

text \<open>
  The second half of \<^verbatim>\<open>sim_transport/sim_receiver.c\<close>: the receiver of a session, which keeps the packets that are
  missing, acknowledges and asks for them again, puts segments into the playback cache and drives the
  receiver's congestion controller, whose reports it wraps into messages.

  A skip list is the sorted association list of its entries. \<open>None\<close> is undefined behaviour, a failed assertion or a
  loop that does not end. Results are the session, the receiver and what was sent.
\<close>

record sim_loss =
  ls_ts :: int
  ls_count :: int

record sim_receiver =
  rv_base_uid :: u32
  rv_base_seq :: u32
  rv_max_seq :: u32
  rv_loss :: "(u32 \<times> sim_loss) list"
  rv_loss_count :: int
  rv_cache :: sim_frame_cache
  rv_ack_ts :: u64
  rv_cache_ts :: u64
  rv_active_ts :: u64
  rv_actived :: int
  rv_cc :: "receiver_cc option"

definition send_sim_feedback :: "'a sim_net_scheme \<Rightarrow> sim_receiver \<Rightarrow> u8 list \<Rightarrow> ('a sim_net_scheme \<times> sim_out list) option" where
  "send_sim_feedback s r payload =
     (if SIM_FEEDBACK_SIZE < length payload then Some (s, [])
      else net_send_msg s (INIT_SIM_HEADER SIM_FEEDBACK (n_uid s))
        (Feedback_Body \<lparr>fb_base = rv_base_seq r, feedback_size = word_of_nat (length payload),
           feedback = payload @ drop (length payload) (feedback (new_feedback (n_env s)))\<rparr>))"

definition new_receiver_cc :: "int \<Rightarrow> receiver_cc option" where
  "new_receiver_cc sys_ts = razor_receiver_create MIN_BITRATE MAX_BITRATE (int SIM_SEGMENT_HEADER_SIZE) sys_ts"

definition sim_receiver_create :: "host \<Rightarrow> 'a sim_net_scheme \<Rightarrow> sim_receiver" where
  "sim_receiver_create w s =
     \<lparr>rv_base_uid = 0, rv_base_seq = 0, rv_max_seq = 0, rv_loss = [], rv_loss_count = 0,
      rv_cache = open_real_video_cache (n_rtt s) (n_rtt_var s), rv_ack_ts = 0, rv_cache_ts = word_of_int (sys_ms w 0),
      rv_active_ts = 0, rv_actived = 0, rv_cc = new_receiver_cc (sys_ms w 1)\<rparr>"

text \<open>The result is the emptied cache; all else is only freed.\<close>

definition sim_receiver_destroy :: "sim_receiver \<Rightarrow> sim_frame_cache option" where
  "sim_receiver_destroy r = close_real_video_cache (rv_cache r)"

definition sim_receiver_reset :: "host \<Rightarrow> 'a sim_net_scheme \<Rightarrow> sim_receiver \<Rightarrow> sim_receiver option" where
  "sim_receiver_reset w s r = do {
     c \<leftarrow> reset_real_video_cache (n_rtt s) (n_rtt_var s) (rv_cache r);
     Some (r\<lparr>rv_cache := c, rv_loss := [], rv_base_uid := 0, rv_base_seq := 0, rv_actived := 0, rv_max_seq := 0,
       rv_ack_ts := word_of_int (sys_ms w 0), rv_active_ts := word_of_int (sys_ms w 0), rv_loss_count := 0,
       rv_cc := new_receiver_cc (sys_ms w 1)\<rparr>)
   }"

definition sim_receiver_active :: "host \<Rightarrow> sim_receiver \<Rightarrow> u32 \<Rightarrow> sim_receiver \<times> int" where
  "sim_receiver_active w r uid =
     (if rv_actived r = 1 then (r, -1)
      else (r\<lparr>rv_actived := 1, rv_cache := (rv_cache r)\<lparr>fc_frame_timer := 50\<rparr>, rv_base_uid := uid,
              rv_active_ts := word_of_int (sys_ms w 0)\<rparr>, 0))"

subsection \<open>Missing packets\<close>

definition loss_add :: "int \<Rightarrow> u32 \<Rightarrow> (u32 \<times> sim_loss) list \<Rightarrow> (u32 \<times> sim_loss) list" where
  "loss_add ts i loss = (if map_of loss i = None then sl_ins i \<lparr>ls_ts = ts, ls_count = 0\<rparr> loss else loss)"

definition sim_receiver_update_loss :: "int \<Rightarrow> 'a sim_net_scheme \<Rightarrow> sim_receiver \<Rightarrow> u32 \<Rightarrow> sim_receiver option" where
  "sim_receiver_update_loss now_ts s r sq = do {
     loss \<leftarrow> for_lt (\<lambda>i loss. Some (loss_add (now_ts - uint (n_rtt s div 2)) i loss)) sq (rv_max_seq r + 1) (sl_del sq (rv_loss r));
     Some (r\<lparr>rv_loss := loss\<rparr>)
   }"

definition sim_receiver_send_ack :: "'a sim_net_scheme \<Rightarrow> sim_segment_ack \<Rightarrow> ('a sim_net_scheme \<times> sim_out list) option" where
  "sim_receiver_send_ack s ack = net_send_msg s (INIT_SIM_HEADER SIM_SEG_ACK (n_uid s)) (Segment_Ack_Body ack)"

abbreviation ACK_REAL_TIME :: u64 where "ACK_REAL_TIME \<equiv> 20"
abbreviation ACK_HB_TIME :: u64 where "ACK_HB_TIME \<equiv> 200"

text \<open>The loop over the missing packets, with the message, \<open>loss_count\<close> and \<open>max_count\<close>.\<close>

definition space_factor_of :: "u32 \<Rightarrow> sim_loss \<Rightarrow> u32" where
  "space_factor_of rtt l = word_of_int (su_min 2 (ls_count l div 2 + 1)) * rtt"

definition nack_due :: "u64 \<Rightarrow> u32 \<Rightarrow> sim_segment_ack \<Rightarrow> sim_loss \<Rightarrow> bool" where
  "nack_due cur_ts rtt ack l \<longleftrightarrow> word_of_int (ls_ts l + uint (space_factor_of rtt l)) \<le> cur_ts \<and> ls_count l < 30
     \<and> unat (nack_num ack) < NACK_NUM"

definition nack_put :: "u16 \<Rightarrow> sim_segment_ack \<Rightarrow> sim_segment_ack option" where
  "nack_put v ack =
     (if length (nack ack) \<le> unat (nack_num ack) then None
      else Some (ack\<lparr>nack := (nack ack)[unat (nack_num ack) := v], nack_num := nack_num ack + 1\<rparr>))"

fun nack_loop ::
  "u64 \<Rightarrow> u32 \<Rightarrow> u32 \<Rightarrow> (u32 \<times> sim_loss) list \<Rightarrow> sim_segment_ack \<times> int \<times> int
    \<Rightarrow> ((u32 \<times> sim_loss) list \<times> sim_segment_ack \<times> int \<times> int) option" where
  "nack_loop cur_ts rtt base [] st = Some ([], st)"
| "nack_loop cur_ts rtt base ((k, l) # xs) (ack, loss_count, max_count) =
     (if k \<le> base then map_option (apfst (Cons (k, l))) (nack_loop cur_ts rtt base xs (ack, loss_count, max_count))
      else do {
        (l, ack, loss_count) \<leftarrow> (if nack_due cur_ts rtt ack l
          then do {
            ack \<leftarrow> nack_put (ucast (k - base)) ack;
            Some (l\<lparr>ls_ts := sint cur_ts, ls_count := ls_count l + 1\<rparr>, ack, loss_count + 1)
          }
          else Some (l, ack, loss_count));
        map_option (apfst (Cons (k, l))) (nack_loop cur_ts rtt base xs (ack, loss_count, su_max (ls_count l) max_count))
      })"

text \<open>The first part of \<open>video_real_ack\<close>, when it is time for an acknowledgement; the last result is \<open>max_count\<close>.\<close>

definition ack_advance :: "sim_receiver \<Rightarrow> sim_receiver option" where
  "ack_advance r =
     (let min_seq = real_video_cache_get_min_seq (rv_cache r) in
      if rv_base_seq r < min_seq
      then do {
        loss \<leftarrow> for_le (\<lambda>k loss. Some (sl_del k loss)) min_seq (rv_base_seq r + 1) (rv_loss r);
        Some (r\<lparr>rv_loss := loss, rv_base_seq := min_seq\<rparr>)
      }
      else Some r)"

definition ack_build :: "u64 \<Rightarrow> 'a sim_net_scheme \<Rightarrow> sim_receiver \<Rightarrow> u32 \<Rightarrow> (sim_receiver \<times> sim_segment_ack \<times> int) option" where
  "ack_build cur_ts s r sq = do {
     r \<leftarrow> ack_advance r;
     let ack = (new_segment_ack (n_env s))\<lparr>sack_acked := sq, sack_base := rv_base_seq r, nack_num := 0\<rparr>;
     (loss, ack, loss_count, max_count) \<leftarrow> nack_loop cur_ts (n_rtt s + n_rtt_var s) (rv_base_seq r) (rv_loss r) (ack, rv_loss_count r, 0);
     Some (r\<lparr>rv_loss := loss, rv_loss_count := loss_count\<rparr>, ack, max_count)
   }"

definition ack_is_due :: "u64 \<Rightarrow> int \<Rightarrow> sim_receiver \<Rightarrow> bool" where
  "ack_is_due cur_ts hb r \<longleftrightarrow> hb = 0 \<and> rv_ack_ts r + ACK_REAL_TIME < cur_ts \<or> rv_ack_ts r + ACK_HB_TIME < cur_ts"

text \<open>The second part: how long the cache waits for a packet that is sent again.\<close>

definition ack_wait_timer :: "'a sim_net_scheme \<Rightarrow> int \<Rightarrow> sim_frame_cache \<Rightarrow> sim_frame_cache" where
  "ack_wait_timer s max_count c =
     (if 1 < max_count
      then (let delay = word_of_int (max_count + 8) * (n_rtt s + n_rtt_var s) div 8;
                c = (if fc_wait_timer c < delay then c\<lparr>fc_wait_timer := su_min delay 3000\<rparr> else c)
            in c\<lparr>fc_wait_timer := su_max (fc_frame_timer c) (fc_wait_timer c)\<rparr>)
      else c)"

definition video_real_ack ::
  "int \<Rightarrow> 'a sim_net_scheme \<Rightarrow> sim_receiver \<Rightarrow> int \<Rightarrow> u32 \<Rightarrow> ('a sim_net_scheme \<times> sim_receiver \<times> sim_out list) option" where
  "video_real_ack sys_ts s r hb sq =
     (let cur_ts = word_of_int sys_ts in do {
        (s, r, out, max_count) \<leftarrow> (if ack_is_due cur_ts hb r
          then do {
            (r, ack, max_count) \<leftarrow> ack_build cur_ts s r sq;
            (s, out) \<leftarrow> sim_receiver_send_ack s ack;
            Some (s, r\<lparr>rv_ack_ts := cur_ts\<rparr>, out, max_count)
          }
          else Some (s, r, [], 0));
        Some (s, r\<lparr>rv_cache := ack_wait_timer s max_count (rv_cache r)\<rparr>, out)
      })"

subsection \<open>Segments, frames and the timer\<close>

definition receiver_cc_note :: "int \<Rightarrow> sim_receiver \<Rightarrow> sim_segment \<Rightarrow> sim_receiver option" where
  "receiver_cc_note sys_ts r seg =
     map_option (\<lambda>cc. r\<lparr>rv_cc := cc\<rparr>)
       (razor_receiver_on_received (rv_cc r) (seg_transport_seq seg) (seg_timestamp seg + ucast (seg_send_ts seg))
          (unat (seg_data_size seg) + SIM_SEGMENT_HEADER_SIZE) (uint (seg_remb seg)) sys_ts)"

text \<open>The first segment of the first frame tells where the numbers start.\<close>

definition receiver_first_seq :: "sim_receiver \<Rightarrow> sim_segment \<Rightarrow> sim_receiver" where
  "receiver_first_seq r seg =
     (if rv_max_seq r = 0 \<and> ucast (seg_index seg) < seg_packet_id seg
      then r\<lparr>rv_max_seq := seg_packet_id seg - ucast (seg_index seg) - 1,
             rv_base_seq := seg_packet_id seg - ucast (seg_index seg) - 1\<rparr>
      else r)"

definition sim_receiver_put ::
  "host \<Rightarrow> 'a sim_net_scheme \<Rightarrow> sim_receiver \<Rightarrow> sim_segment \<Rightarrow> ('a sim_net_scheme \<times> sim_receiver \<times> sim_out list \<times> int) option" where
  "sim_receiver_put w s r seg = do {
     r \<leftarrow> receiver_cc_note (sys_ms w 0) r seg;
     let sq = seg_packet_id seg;
     if rv_max_seq r = 0 \<and> seg_ftype seg = 0 then Some (s, r, [], -1)
     else if rv_actived r = 0 \<or> seg_packet_id seg \<le> rv_base_seq r then Some (s, r, [], -1)
     else do {
       let r = receiver_first_seq r seg;
       r \<leftarrow> sim_receiver_update_loss (sys_ms w 1) s r sq;
       (c, ret) \<leftarrow> real_video_cache_put seg (rv_cache r);
       let r = r\<lparr>rv_cache := c\<rparr>;
       if ret \<noteq> 0 then Some (s, r, [], -1)
       else do {
         let r = (if sq = rv_base_seq r + 1 then r\<lparr>rv_base_seq := sq\<rparr> else r);
         let r = r\<lparr>rv_max_seq := su_max (rv_max_seq r) sq\<rparr>;
         (s, r, out) \<leftarrow> video_real_ack (sys_ms w 2) s r 0 sq;
         Some (s, r, out, 0)
       }
     }
   }"

definition sim_receiver_get :: "host \<Rightarrow> sim_receiver \<Rightarrow> nat \<Rightarrow> (sim_receiver \<times> play_result) option" where
  "sim_receiver_get w r buffer_size =
     (if rv_actived r = 0 then Some (r, \<lparr>pr_ret = -1, pr_out = [], pr_size = buffer_size, pr_type = 0\<rparr>)
      else map_option (\<lambda>(c, p). (r\<lparr>rv_cache := c\<rparr>, p)) (real_video_cache_get (sys_ms w 0) (sys_ms w 1) buffer_size (rv_cache r)))"

text \<open>Once a second the cache's waiting time is lowered.\<close>

definition receiver_lower_wait :: "host \<Rightarrow> 'a sim_net_scheme \<Rightarrow> sim_receiver \<Rightarrow> int \<Rightarrow> sim_receiver" where
  "receiver_lower_wait w s r now_ts =
     (if rv_cache_ts r + ucast (su_max (n_rtt s + n_rtt_var s) 1000) < word_of_int now_ts
      then (let c = rv_cache r;
                c = (if rv_loss_count r = 0 then c\<lparr>fc_wait_timer := su_max (fc_wait_timer c * 7 div 8) (fc_frame_timer c)\<rparr>
                     else if 2 * (n_rtt s + n_rtt_var s) < fc_wait_timer c
                     then c\<lparr>fc_wait_timer := su_max (fc_wait_timer c * 15 div 16) (fc_frame_timer c)\<rparr>
                     else c)
            in r\<lparr>rv_cache := c, rv_cache_ts := word_of_int (sys_ms w 1), rv_loss_count := 0\<rparr>)
      else r)"

definition sim_receiver_timer ::
  "host \<Rightarrow> 'a sim_net_scheme \<Rightarrow> sim_receiver \<Rightarrow> int \<Rightarrow> ('a sim_net_scheme \<times> sim_receiver \<times> sim_out list) option" where
  "sim_receiver_timer w s r now_ts = do {
     (s, r, out) \<leftarrow> video_real_ack (sys_ms w 0) s r 1 0;
     let r = receiver_lower_wait w s r now_ts;
     (e, cc, d) \<leftarrow> razor_receiver_heartbeat (n_env s) (malloc_ok w) (stack_msg w) (sys_ms w 2) (rv_cc r);
     let s = s\<lparr>n_env := e\<rparr>;
     let r = r\<lparr>rv_cc := cc\<rparr>;
     (s, out') \<leftarrow> (case d of None \<Rightarrow> Some (s, []) | Some payload \<Rightarrow> send_sim_feedback s r payload);
     Some (s, r, out @ out')
   }"

definition sim_receiver_update_rtt :: "'a sim_net_scheme \<Rightarrow> sim_receiver \<Rightarrow> sim_receiver" where
  "sim_receiver_update_rtt s r = r\<lparr>rv_cc := razor_receiver_cc_update_rtt (rv_cc r) (sint (n_rtt s + n_rtt_var s))\<rparr>"

definition sim_receiver_cache_delay :: "sim_receiver \<Rightarrow> u32" where
  "sim_receiver_cache_delay r = real_video_cache_delay (rv_cache r)"

subsection \<open>Missing packets, and what an acknowledgement asks for\<close>

definition loss_keys :: "(u32 \<times> sim_loss) list \<Rightarrow> u32 set" where
  "loss_keys l = fst ` set l"

lemma loss_keys_simps [simp]:
  "loss_keys [] = {}" "loss_keys (x # l) = insert (fst x) (loss_keys l)" "loss_keys (sl_del k l) = loss_keys l - {k}"
  "loss_keys (loss_add t k l) = insert k (loss_keys l)"
proof -
  have "k \<in> loss_keys l" if "map_of l k \<noteq> None"
    using that by (auto simp: loss_keys_def map_of_eq_None_iff)
  then show "loss_keys (loss_add t k l) = insert k (loss_keys l)"
    by (auto simp: loss_add_def loss_keys_def set_sl_ins)
qed (auto simp: loss_keys_def sl_del_def)

lemma update_loss_ok:
  assumes "rv_max_seq r < 0xFFFFFFFF"
  shows "\<exists>l. sim_receiver_update_loss t s r q = Some (r\<lparr>rv_loss := l\<rparr>)
    \<and> loss_keys l \<subseteq> (loss_keys (rv_loss r) - {q}) \<union> {k. rv_max_seq r < k \<and> k < q}"
proof -
  let ?I = "\<lambda>l. loss_keys l \<subseteq> (loss_keys (rv_loss r) - {q}) \<union> {k. rv_max_seq r < k \<and> k < q}"
  have u: "unat (rv_max_seq r + 1) = Suc (unat (rv_max_seq r))"
    by (rule unat_Suc_u32 [OF assms])
  have "\<exists>l. opt_fold (\<lambda>i l. Some (loss_add (t - uint (n_rtt s div 2)) i l)) (u32_upt (unat (rv_max_seq r + 1)) (unat q)) (sl_del q (rv_loss r))
      = Some l \<and> ?I l"
  proof (rule opt_fold_inv)
    fix i l assume "i \<in> set (u32_upt (unat (rv_max_seq r + 1)) (unat q))" "?I l"
    then show "\<exists>l'. Some (loss_add (t - uint (n_rtt s div 2)) i l) = Some l' \<and> ?I l'"
      using in_u32_upt [of "unat q" i "unat (rv_max_seq r + 1)"] unat_u32 [of q] u by (auto simp: word_less_nat_alt)
  qed simp
  then show ?thesis
    by (auto simp: sim_receiver_update_loss_def for_lt_fold)
qed

text \<open>The numbers asked for so far are packets of \<open>K\<close> beyond the base, each as the distance from it.\<close>

definition nacks_in :: "u32 set \<Rightarrow> u32 \<Rightarrow> sim_segment_ack \<Rightarrow> bool" where
  "nacks_in K base ack \<longleftrightarrow> length (nack ack) = NACK_NUM \<and> unat (nack_num ack) \<le> NACK_NUM
     \<and> (\<forall>i<unat (nack_num ack). \<exists>k\<in>K. base < k \<and> nack ack ! i = ucast (k - base))"

lemma nack_put_ok:
  assumes "nacks_in K base ack" and "unat (nack_num ack) < NACK_NUM" and "k \<in> K" and "base < k"
  shows "\<exists>ack'. nack_put (ucast (k - base)) ack = Some ack' \<and> nacks_in K base ack' \<and> sack_base ack' = sack_base ack"
proof -
  have "unat (nack_num ack + 1) = Suc (unat (nack_num ack))"
    using assms(2) by (simp add: unat_word_ariths)
  then show ?thesis
    using assms by (auto simp: nacks_in_def nack_put_def nth_list_update less_Suc_eq)
qed

lemma nack_loop_ok:
  assumes "nacks_in K base ack" and "loss_keys xs \<subseteq> K"
  shows "\<exists>ys ack' lc' mx'. nack_loop cur rtt base xs (ack, lc, mx) = Some (ys, ack', lc', mx') \<and> loss_keys ys = loss_keys xs
    \<and> nacks_in K base ack' \<and> sack_base ack' = sack_base ack"
  using assms
proof (induction xs arbitrary: ack lc mx)
  case (Cons x xs)
  obtain k l where x: "x = (k, l)" by (cases x)
  have k: "k \<in> K" "loss_keys xs \<subseteq> K" using Cons.prems(2) by (simp_all add: x)
  show ?case
  proof (cases "k \<le> base")
    case True
    obtain ys ack' lc' mx' where "nack_loop cur rtt base xs (ack, lc, mx) = Some (ys, ack', lc', mx')" "loss_keys ys = loss_keys xs"
        "nacks_in K base ack'" "sack_base ack' = sack_base ack"
      using Cons.IH [OF Cons.prems(1) k(2)] by blast
    then show ?thesis using True by (simp add: x)
  next
    case False
    obtain l' a lc1 where r: "(if nack_due cur rtt ack l
          then do { ack \<leftarrow> nack_put (ucast (k - base)) ack; Some (l\<lparr>ls_ts := sint cur, ls_count := ls_count l + 1\<rparr>, ack, lc + 1) }
          else Some (l, ack, lc)) = Some (l', a, lc1)" "nacks_in K base a" "sack_base a = sack_base ack"
    proof (cases "nack_due cur rtt ack l")
      case True
      then show ?thesis
        using that nack_put_ok [OF Cons.prems(1) _ k(1)] False by (fastforce simp: nack_due_def not_le)
    qed (use that Cons.prems(1) in simp)
    obtain ys ack' lc' mx' where "nack_loop cur rtt base xs (a, lc1, su_max (ls_count l') mx) = Some (ys, ack', lc', mx')"
        "loss_keys ys = loss_keys xs" "nacks_in K base ack'" "sack_base ack' = sack_base a"
      using Cons.IH [OF r(2) k(2)] by blast
    then show ?thesis using False r by (simp add: x)
  qed
qed simp

text \<open>What an acknowledgement leaves alone; it only takes packets off the list of the missing.\<close>

definition recv_frame :: "sim_receiver \<Rightarrow> sim_receiver \<Rightarrow> bool" where
  "recv_frame r r' \<longleftrightarrow> rv_max_seq r' = rv_max_seq r \<and> rv_cc r' = rv_cc r \<and> rv_actived r' = rv_actived r
     \<and> rv_base_uid r' = rv_base_uid r \<and> fc_min_fid (rv_cache r') = fc_min_fid (rv_cache r) \<and> loss_keys (rv_loss r') \<subseteq> loss_keys (rv_loss r)"

lemma ack_advance_ok:
  assumes "cache_inv S (rv_cache r)"
  shows "\<exists>r'. ack_advance r = Some r' \<and> recv_frame r r' \<and> rv_cache r' = rv_cache r"
proof (cases "rv_base_seq r < fc_min_seq (rv_cache r)")
  case True
  have m: "fc_min_seq (rv_cache r) < 0xFFFFFFFF" using assms by (simp add: cache_inv_def)
  have "\<exists>l. opt_fold (\<lambda>k l. Some (sl_del k l)) is (rv_loss r) = Some l \<and> loss_keys l \<subseteq> loss_keys (rv_loss r)" for "is"
    by (rule opt_fold_inv) auto
  then obtain l where "opt_fold (\<lambda>k l. Some (sl_del k l)) (u32_upt (unat (rv_base_seq r + 1)) (Suc (unat (fc_min_seq (rv_cache r)))))
      (rv_loss r) = Some l" "loss_keys l \<subseteq> loss_keys (rv_loss r)" by blast
  then show ?thesis
    using True by (simp add: ack_advance_def real_video_cache_get_min_seq_def for_le_fold [OF m] recv_frame_def)
qed (simp add: ack_advance_def real_video_cache_get_min_seq_def recv_frame_def)

definition ack_sent :: "u32 set \<Rightarrow> env \<Rightarrow> u32 \<Rightarrow> u8 list \<Rightarrow> bool" where
  "ack_sent K e uid d \<longleftrightarrow> (\<exists>ack. d = datagram e (INIT_SIM_HEADER SIM_SEG_ACK uid) (Segment_Ack_Body ack) \<and> nacks_in K (sack_base ack) ack)"

lemma ack_build_ok:
  assumes "cache_inv S (rv_cache r)"
  shows "\<exists>r' ack mx. ack_build cur s r q = Some (r', ack, mx) \<and> recv_frame r r' \<and> rv_cache r' = rv_cache r
    \<and> nacks_in (loss_keys (rv_loss r)) (sack_base ack) ack"
proof -
  obtain r1 where r1: "ack_advance r = Some r1" "recv_frame r r1" "rv_cache r1 = rv_cache r"
    using ack_advance_ok [OF assms] by blast
  define ack where "ack = (new_segment_ack (n_env s))\<lparr>sack_acked := q, sack_base := rv_base_seq r1, nack_num := 0\<rparr>"
  have ack: "nacks_in (loss_keys (rv_loss r)) (rv_base_seq r1) ack" "sack_base ack = rv_base_seq r1"
    by (simp_all add: ack_def nacks_in_def new_segment_ack_def)
  obtain ys ack' lc mx where "nack_loop cur (n_rtt s + n_rtt_var s) (rv_base_seq r1) (rv_loss r1) (ack, rv_loss_count r1, 0) = Some (ys, ack', lc, mx)"
      "loss_keys ys = loss_keys (rv_loss r1)" "nacks_in (loss_keys (rv_loss r)) (rv_base_seq r1) ack'" "sack_base ack' = rv_base_seq r1"
    using nack_loop_ok [OF ack(1), of "rv_loss r1" cur "n_rtt s + n_rtt_var s" "rv_loss_count r1" 0] r1(2) ack(2)
    unfolding recv_frame_def by metis
  then show ?thesis
    using r1 by (simp add: ack_build_def ack_def recv_frame_def)
qed

lemma ack_wait_timer_inv [simp]: "cache_inv S (ack_wait_timer s n c) = cache_inv S c" "fc_min_fid (ack_wait_timer s n c) = fc_min_fid c"
  by (simp_all add: ack_wait_timer_def Let_def)

lemma video_real_ack_ok:
  assumes "net_wf s" and "cache_inv S (rv_cache r)"
  shows "\<exists>s' r' out. video_real_ack t s r hb q = Some (s', r', out) \<and> net_wf s' \<and> net_same s s' \<and> recv_frame r r'
    \<and> cache_inv S (rv_cache r') \<and> (\<forall>d\<in>set (datagrams_of out). ack_sent (loss_keys (rv_loss r)) (n_env s) (n_uid s) d)"
proof (cases "ack_is_due (word_of_int t) hb r")
  case True
  obtain r1 ack mx where b: "ack_build (word_of_int t) s r q = Some (r1, ack, mx)" "recv_frame r r1" "rv_cache r1 = rv_cache r"
      "nacks_in (loss_keys (rv_loss r)) (sack_base ack) ack"
    using ack_build_ok [OF assms(2)] by blast
  obtain s' where n: "sim_receiver_send_ack s ack = Some (s', sends s (INIT_SIM_HEADER SIM_SEG_ACK (n_uid s)) (Segment_Ack_Body ack))"
      "net_wf s'" "net_same s s'"
    using net_send_msg_ok [OF assms(1), of "INIT_SIM_HEADER SIM_SEG_ACK (n_uid s)" "Segment_Ack_Body ack"] b(4)
    by (auto simp: sim_receiver_send_ack_def nacks_in_def INIT_SIM_HEADER_def)
  have "\<forall>d\<in>set (datagrams_of (sends s (INIT_SIM_HEADER SIM_SEG_ACK (n_uid s)) (Segment_Ack_Body ack))).
      ack_sent (loss_keys (rv_loss r)) (n_env s) (n_uid s) d"
    using b(4) by (auto simp: sends_def ack_sent_def)
  then show ?thesis
    using True b n assms by (simp add: video_real_ack_def recv_frame_def)
next
  case False
  then show ?thesis
    using assms by (simp add: video_real_ack_def recv_frame_def)
qed

subsection \<open>Runs of a receiver\<close>

text \<open>\<open>got\<close> are the packets that the cache has accepted.\<close>

definition recv_ok :: "frames_sent \<Rightarrow> int \<Rightarrow> int \<Rightarrow> u32 set \<Rightarrow> sim_receiver \<Rightarrow> bool" where
  "recv_ok S start now got r \<longleftrightarrow> cache_inv S (rv_cache r) \<and> (\<exists>cc. rv_cc r = Some cc \<and> rc_ok start now [] cc)
     \<and> loss_keys (rv_loss r) \<inter> got = {} \<and> (\<forall>p\<in>got. 0 < p \<and> p \<le> rv_max_seq r) \<and> rv_max_seq r < 0xFFFFFFFF"

lemma light_Nil: "light []"
  by (simp add: light_def)

lemma cc_note_ok:
  assumes "recv_ok S start now0 got r" and "seg_remb g \<noteq> 0" and "now0 \<le> now" and "now - start \<le> 53000000" and "0 \<le> now" and "now < 2147483647"
  shows "\<exists>cc. receiver_cc_note now r g = Some (r\<lparr>rv_cc := Some cc\<rparr>) \<and> rc_ok start now [] cc"
proof -
  obtain cc where cc: "rv_cc r = Some cc" "rc_ok start now0 [] cc" using assms(1) by (auto simp: recv_ok_def)
  have "uint (seg_remb g) \<noteq> 0" using assms(2) by (simp add: unsigned_eq_0_iff)
  then obtain cc' where "receiver_cc_on_received cc (seg_transport_seq g) (seg_timestamp g + ucast (seg_send_ts g))
      (unat (seg_data_size g) + SIM_SEGMENT_HEADER_SIZE) (uint (seg_remb g)) now = Some cc'" "rc_ok start now [] cc'"
    using receiver_on_received_ok [OF cc(2) _ assms(3-6), of "uint (seg_remb g)"] by metis
  then show ?thesis
    using cc(1) by (intro exI [of _ cc']) (simp add: receiver_cc_note_def razor_receiver_on_received_def)
qed

lemma honest_packet_id:
  assumes "honest S g"
  shows "seg_packet_id g < 0xFFFFFFFF"
  using assms by (auto simp: honest_def word_less_nat_alt)

lemma recv_ok_later: "recv_ok S start now0 got r \<Longrightarrow> rv_cc r' = Some cc \<Longrightarrow> rc_ok start now [] cc \<Longrightarrow> rv_cache r' = rv_cache r \<Longrightarrow>
    rv_loss r' = rv_loss r \<Longrightarrow> rv_max_seq r' = rv_max_seq r \<Longrightarrow> recv_ok S start now got r'"
  by (simp add: recv_ok_def)

text \<open>What an operation gives: the invariant, and acknowledgements that ask for missing packets only.\<close>

definition recv_result ::
  "frames_sent \<Rightarrow> int \<Rightarrow> int \<Rightarrow> u32 set \<Rightarrow> 'a sim_net_scheme \<Rightarrow> 'a sim_net_scheme \<times> sim_receiver \<times> sim_out list \<Rightarrow> bool" where
  "recv_result S start now got s res \<longleftrightarrow> (case res of (s', r', out) \<Rightarrow> net_wf s' \<and> net_same s s' \<and> recv_ok S start now got r'
     \<and> (\<forall>d\<in>set (datagrams_of out). (\<exists>K. K \<inter> got = {} \<and> ack_sent K (n_env s) (n_uid s) d)
          \<or> (\<exists>b. d = datagram (n_env s) (INIT_SIM_HEADER SIM_FEEDBACK (n_uid s)) (Feedback_Body b) \<and> unat (feedback_size b) \<le> 539)))"

lemma video_real_ack_result:
  assumes "net_wf s" and "recv_ok S start now got r"
  shows "\<exists>s' r' out. video_real_ack t s r hb q = Some (s', r', out) \<and> recv_result S start now got s (s', r', out)
    \<and> recv_frame r r'"
proof -
  obtain s' r' out where v: "video_real_ack t s r hb q = Some (s', r', out)" "net_wf s'" "net_same s s'" "recv_frame r r'"
      "cache_inv S (rv_cache r')" "\<forall>d\<in>set (datagrams_of out). ack_sent (loss_keys (rv_loss r)) (n_env s) (n_uid s) d"
    using video_real_ack_ok [OF assms(1), of S r t hb q] assms(2) unfolding recv_ok_def by blast
  moreover have "recv_ok S start now got r'"
    using assms(2) v(4,5) by (auto simp: recv_ok_def recv_frame_def)
  moreover have "loss_keys (rv_loss r) \<inter> got = {}"
    using assms(2) by (simp add: recv_ok_def)
  ultimately show ?thesis
    by (auto simp: recv_result_def)
qed

lemma recv_result_quiet:
  "net_wf s' \<Longrightarrow> net_same s s' \<Longrightarrow> recv_ok S start now got r' \<Longrightarrow> recv_result S start now got s (s', r', [])"
  by (simp add: recv_result_def)

text \<open>A segment that is put.\<close>

lemma receiver_put_ok:
  assumes "net_wf s" and "recv_ok S start now0 got r" and "honest S g" and "put_in_window (rv_cache r) g" and "seg_remb g \<noteq> 0"
    and "now0 \<le> sys_ms w 0" and "sys_ms w 0 - start \<le> 53000000" and "0 \<le> sys_ms w 0" and "sys_ms w 0 < 2147483647"
  shows "\<exists>s' r' out ret. sim_receiver_put w s r g = Some (s', r', out, ret)
    \<and> recv_result S start (sys_ms w 0) (if ret = 0 then insert (seg_packet_id g) got else got) s (s', r', out)
    \<and> fc_min_fid (rv_cache r) \<le> fc_min_fid (rv_cache r')"
proof -
  let ?now = "sys_ms w 0"
  let ?q = "seg_packet_id g"
  obtain cc where cc: "receiver_cc_note ?now r g = Some (r\<lparr>rv_cc := Some cc\<rparr>)" "rc_ok start ?now [] cc"
    using cc_note_ok [OF assms(2,5-9)] by blast
  define r1 where "r1 = r\<lparr>rv_cc := Some cc\<rparr>"
  have r1: "recv_ok S start ?now got r1" "rv_cache r1 = rv_cache r" "rv_max_seq r1 = rv_max_seq r"
    using recv_ok_later [OF assms(2) _ cc(2), of r1] by (simp_all add: r1_def)
  show ?thesis
  proof (cases "rv_max_seq r1 = 0 \<and> seg_ftype g = 0 \<or> rv_actived r1 = 0 \<or> ?q \<le> rv_base_seq r1")
    case True
    then have "sim_receiver_put w s r g = Some (s, r1, [], -1)"
      by (auto simp: sim_receiver_put_def cc(1) Let_def r1_def)
    then show ?thesis
      using recv_result_quiet [OF assms(1) net_same_refl r1(1)] by (simp add: r1(2))
  next
    case False
    note skip = False
    define r2 where "r2 = receiver_first_seq r1 g"
    have q: "?q < 0xFFFFFFFF" by (rule honest_packet_id [OF assms(3)])
    have "got = {}" if "rv_max_seq r1 = 0" using r1(1) that by (auto simp: recv_ok_def)
    then have r2: "recv_ok S start ?now got r2" "rv_cache r2 = rv_cache r"
      using r1 q by (auto simp: r2_def receiver_first_seq_def recv_ok_def word_less_nat_alt unat_sub_if')
    obtain l where l: "sim_receiver_update_loss (sys_ms w 1) s r2 ?q = Some (r2\<lparr>rv_loss := l\<rparr>)"
        "loss_keys l \<subseteq> (loss_keys (rv_loss r2) - {?q}) \<union> {k. rv_max_seq r2 < k \<and> k < ?q}"
      using update_loss_ok [of r2 "sys_ms w 1" s ?q] r2(1) unfolding recv_ok_def by blast
    obtain c ret where c: "real_video_cache_put g (rv_cache r2) = Some (c, ret)" "cache_inv S c" "fc_min_fid (rv_cache r) \<le> fc_min_fid c"
      using real_video_cache_put_ok [OF _ assms(3,4)] r2 by (auto simp: recv_ok_def)
    define r3 where "r3 = r2\<lparr>rv_loss := l, rv_cache := c\<rparr>"
    have r3: "recv_ok S start ?now got r3" "rv_base_seq r3 = rv_base_seq r2" "rv_max_seq r3 = rv_max_seq r2" "?q \<notin> loss_keys (rv_loss r3)"
      using r2(1) l(2) c(2) by (auto simp: r3_def recv_ok_def not_le [symmetric])
    have put: "sim_receiver_put w s r g = (if ret \<noteq> 0 then Some (s, r3, [], -1) else
        (do { (s, r, out) \<leftarrow> video_real_ack (sys_ms w 2) s
               ((if ?q = rv_base_seq r3 + 1 then r3\<lparr>rv_base_seq := ?q\<rparr> else r3)\<lparr>rv_max_seq := su_max (rv_max_seq r3) ?q\<rparr>) 0 ?q;
             Some (s, r, out, 0) }))"
      using False l(1) c(1) by (auto simp: sim_receiver_put_def cc(1) Let_def r1_def [symmetric] r2_def [symmetric] r3_def)
    show ?thesis
    proof (cases "ret = 0")
      case False
      then show ?thesis
        using put recv_result_quiet [OF assms(1) net_same_refl r3(1)] c(3) by (simp add: r3_def)
    next
      case True
      define r4 where "r4 = (if ?q = rv_base_seq r3 + 1 then r3\<lparr>rv_base_seq := ?q\<rparr> else r3)\<lparr>rv_max_seq := su_max (rv_max_seq r3) ?q\<rparr>"
      have "0 < ?q" using skip by (simp add: word_neq_0_conv [symmetric]) auto
      then have "recv_ok S start ?now (insert ?q got) r4"
        using r3 q by (auto simp: r4_def recv_ok_def su_max_def intro: order_trans less_imp_le)
      then obtain s' r' out where v: "video_real_ack (sys_ms w 2) s r4 0 ?q = Some (s', r', out)"
          "recv_result S start ?now (insert ?q got) s (s', r', out)" "recv_frame r4 r'"
        using video_real_ack_result [OF assms(1)] by blast
      have "sim_receiver_put w s r g = Some (s', r', out, 0)"
        using put True v(1) unfolding r4_def by simp
      then show ?thesis using v(2,3) c(3) by (auto simp: recv_frame_def r4_def r3_def)
    qed
  qed
qed

text \<open>A timer call, with the report of the congestion controller.\<close>

lemma lower_wait_ok: "recv_ok S start now got r \<Longrightarrow> recv_ok S start now got (receiver_lower_wait w s r t)"
  by (auto simp: recv_ok_def receiver_lower_wait_def Let_def)

lemma feedback_sent_ok:
  assumes "net_wf s" and "length d \<le> 539"
  shows "\<exists>s' out. send_sim_feedback s r d = Some (s', out) \<and> net_wf s' \<and> net_same s s'
    \<and> (\<forall>x\<in>set (datagrams_of out). \<exists>b. x = datagram (n_env s) (INIT_SIM_HEADER SIM_FEEDBACK (n_uid s)) (Feedback_Body b) \<and> unat (feedback_size b) \<le> 539)"
proof -
  define b where "b = \<lparr>fb_base = rv_base_seq r, feedback_size = word_of_nat (length d),
    feedback = d @ drop (length d) (feedback (new_feedback (n_env s)))\<rparr>"
  have b: "unat (feedback_size b) = length d" "length (feedback b) = SIM_FEEDBACK_SIZE"
    using assms(2) by (simp_all add: b_def unat_of_nat new_feedback_def)
  obtain s' where "net_send_msg s (INIT_SIM_HEADER SIM_FEEDBACK (n_uid s)) (Feedback_Body b)
      = Some (s', sends s (INIT_SIM_HEADER SIM_FEEDBACK (n_uid s)) (Feedback_Body b))" "net_wf s'" "net_same s s'"
    using net_send_msg_ok [OF assms(1), of "INIT_SIM_HEADER SIM_FEEDBACK (n_uid s)" "Feedback_Body b"] b assms(2)
    by (auto simp: INIT_SIM_HEADER_def)
  then show ?thesis
    using b assms(2) by (auto simp: send_sim_feedback_def b_def [symmetric] sends_def)
qed

lemma env_ready: "big_endian e \<noteq> -1 \<Longrightarrow> fst (bin_stream_init e c) = e"
  by (simp add: bin_stream_init_def)

lemma receiver_timer_ok:
  assumes "net_wf s" and "big_endian (n_env s) \<noteq> -1" and "recv_ok S start now0 got r" and "malloc_ok w" and "length (samples (stack_msg w)) = MAX_FEELBACK_COUNT"
    and "now0 \<le> sys_ms w 2" and "sys_ms w 2 - start \<le> 53000000" and "0 \<le> sys_ms w 2" and "sys_ms w 2 < 2147483647"
  shows "\<exists>s' r' out. sim_receiver_timer w s r t = Some (s', r', out) \<and> recv_result S start (sys_ms w 2) got s (s', r', out)
    \<and> fc_min_fid (rv_cache r') = fc_min_fid (rv_cache r)"
proof -
  obtain s1 r1 o1 where v: "video_real_ack (sys_ms w 0) s r 1 0 = Some (s1, r1, o1)" "recv_result S start now0 got s (s1, r1, o1)" "recv_frame r r1"
    using video_real_ack_result [OF assms(1,3)] by blast
  have s1: "net_wf s1" "net_same s s1" "recv_ok S start now0 got r1"
    using v(2) by (simp_all add: recv_result_def)
  define r2 where "r2 = receiver_lower_wait w s1 r1 t"
  have r2: "recv_ok S start now0 got r2" unfolding r2_def by (rule lower_wait_ok [OF s1(3)])
  then obtain cc where cc: "rv_cc r2 = Some cc" "rc_ok start now0 [] cc" by (auto simp: recv_ok_def)
  have e: "n_env s1 = n_env s" "fst (bin_stream_init (n_env s) True) = n_env s" "n_uid s1 = n_uid s"
    using s1(2) env_ready [OF assms(2)] by (simp_all add: net_same_def)
  obtain cc' d where h: "receiver_cc_heartbeat (n_env s) True (stack_msg w) (sys_ms w 2) cc = Some (n_env s, cc', d)"
      "rc_ok start (sys_ms w 2) [] cc'" "\<forall>x. d = Some x \<longrightarrow> length x \<le> 539"
    using receiver_heartbeat_ok [OF cc(2) light_Nil assms(6-9,5), of "n_env s"] unfolding e(2) by blast
  define r3 where "r3 = r2\<lparr>rv_cc := Some cc'\<rparr>"
  have r3: "recv_ok S start (sys_ms w 2) got r3"
    using recv_ok_later [OF r2 _ h(2), of r3] by (simp add: r3_def)
  have same: "s1\<lparr>n_env := n_env s\<rparr> = s1" using e(1) by simp
  obtain s4 o2 where f: "(case d of None \<Rightarrow> Some (s1, []) | Some payload \<Rightarrow> send_sim_feedback s1 r3 payload) = Some (s4, o2)"
      "net_wf s4" "net_same s1 s4"
      "\<forall>x\<in>set (datagrams_of o2). \<exists>b. x = datagram (n_env s1) (INIT_SIM_HEADER SIM_FEEDBACK (n_uid s1)) (Feedback_Body b) \<and> unat (feedback_size b) \<le> 539"
    using feedback_sent_ok [OF s1(1), of "the d" r3] h(3) s1(1) by (cases d) (auto simp del: datagrams_of_def)
  have "sim_receiver_timer w s r t = Some (s4, r3, o1 @ o2)"
    using f(1) by (simp add: sim_receiver_timer_def v(1) Let_def r2_def [symmetric] razor_receiver_heartbeat_def cc(1) e(1) h(1) assms(4)
      same r3_def cong: option.case_cong)
  moreover have "recv_result S start (sys_ms w 2) got s (s4, r3, o1 @ o2)"
    using v(2) f(2-4) r3 net_same_trans [OF s1(2) f(3)] e unfolding recv_result_def by auto
  moreover have "fc_min_fid (rv_cache r3) = fc_min_fid (rv_cache r)"
    using v(3) by (simp add: r3_def r2_def receiver_lower_wait_def Let_def recv_frame_def)
  ultimately show ?thesis by blast
qed

text \<open>Taking a frame, and the round trip time.\<close>

lemma receiver_get_ok:
  assumes "recv_ok S start now got r" and "0 \<le> sys_ms w 1" and "sys_ms w 1 < 1073741824"
  shows "\<exists>r' p. sim_receiver_get w r cap = Some (r', p) \<and> recv_ok S start now got r' \<and> fc_min_fid (rv_cache r) \<le> fc_min_fid (rv_cache r')
    \<and> (pr_ret p = 0 \<longrightarrow> fc_min_fid (rv_cache r) < fc_min_fid (rv_cache r') \<and> delivered S cap (fc_min_fid (rv_cache r')) p)"
proof (cases "rv_actived r = 0")
  case False
  obtain c p where "real_video_cache_get (sys_ms w 0) (sys_ms w 1) cap (rv_cache r) = Some (c, p)" "cache_inv S c"
      "fc_min_fid (rv_cache r) \<le> fc_min_fid c" "pr_ret p = 0 \<longrightarrow> fc_min_fid (rv_cache r) < fc_min_fid c \<and> delivered S cap (fc_min_fid c) p"
    using real_video_cache_get_ok [OF _ assms(2,3), of S "rv_cache r"] assms(1) unfolding recv_ok_def by blast
  then show ?thesis
    using False assms(1) by (simp add: sim_receiver_get_def recv_ok_def)
qed (use assms(1) in \<open>simp add: sim_receiver_get_def\<close>)

lemma receiver_rtt_ok:
  assumes "recv_ok S start now got r" and "n_rtt s + n_rtt_var s \<le> 1000000"
  shows "recv_ok S start now got (sim_receiver_update_rtt s r)"
proof -
  obtain cc where cc: "rv_cc r = Some cc" "rc_ok start now [] cc" using assms(1) by (auto simp: recv_ok_def)
  have "rc_ok start now [] (receiver_cc_update_rtt cc (sint (n_rtt s + n_rtt_var s)))"
    using cc(2) assms(2)
    by (simp add: rc_ok_def receiver_cc_update_rtt_def rbe_ok_def rbe_update_rtt_def aimd_set_rtt_def aimd_wf_def in_rates_def)
  then show ?thesis
    using cc assms(1) by (auto simp: recv_ok_def sim_receiver_update_rtt_def razor_receiver_cc_update_rtt_def)
qed

text \<open>A receiver as the session makes it.\<close>

lemma receiver_created_ok:
  assumes "0 \<le> sys_ms w 1"
  shows "recv_ok S (sys_ms w 1) (sys_ms w 1) {} (fst (sim_receiver_active w' (sim_receiver_create w s) uid))"
proof -
  have "rc_ok (sys_ms w 1) (sys_ms w 1) [] (receiver_cc_create MIN_BITRATE MAX_BITRATE (int SIM_SEGMENT_HEADER_SIZE) (sys_ms w 1))"
    using rbe_create_ok [OF _ _ assms, of "word_of_int MIN_BITRATE" "word_of_int MAX_BITRATE"]
    by (simp add: rc_ok_def receiver_cc_create_def estimator_proxy_create_wf loss_statistics_init_def init_unwrapper16_wf)
  then show ?thesis
    using open_cache_inv [of S]
    by (simp add: sim_receiver_active_def sim_receiver_create_def recv_ok_def new_receiver_cc_def razor_receiver_create_def)
qed

datatype recv_op = Recv_Put host sim_segment | Recv_Timer host int | Recv_Get host nat | Recv_Rtt u32 u32

text \<open>A datagram that was sent, with the packets accepted before it, and a frame that was taken, with the size of the buffer given.\<close>

datatype recv_event = Sent "u32 list" "u8 list" | Took u32 nat play_result

fun recv_step ::
  "recv_op \<Rightarrow> 'a sim_net_scheme \<Rightarrow> sim_receiver \<Rightarrow> u32 list \<Rightarrow> ('a sim_net_scheme \<times> sim_receiver \<times> u32 list \<times> recv_event list) option" where
  "recv_step (Recv_Put w g) s r got = do {
     (s, r, out, ret) \<leftarrow> sim_receiver_put w s r g;
     let got = (if ret = 0 then seg_packet_id g # got else got);
     Some (s, r, got, map (Sent got) (datagrams_of out))
   }"
| "recv_step (Recv_Timer w t) s r got = do {
     (s, r, out) \<leftarrow> sim_receiver_timer w s r t;
     Some (s, r, got, map (Sent got) (datagrams_of out))
   }"
| "recv_step (Recv_Get w cap) s r got = do {
     (r, p) \<leftarrow> sim_receiver_get w r cap;
     Some (s, r, got, if pr_ret p = 0 then [Took (fc_min_fid (rv_cache r)) cap p] else [])
   }"
| "recv_step (Recv_Rtt rtt var) s r got =
     (let s = s\<lparr>n_rtt := rtt, n_rtt_var := var\<rparr> in Some (s, sim_receiver_update_rtt s r, got, []))"

fun recv_run ::
  "recv_op list \<Rightarrow> 'a sim_net_scheme \<Rightarrow> sim_receiver \<Rightarrow> u32 list \<Rightarrow> ('a sim_net_scheme \<times> sim_receiver \<times> recv_event list) option" where
  "recv_run [] s r got = Some (s, r, [])"
| "recv_run (op # ops) s r got = do {
     (s, r, got, evs) \<leftarrow> recv_step op s r got;
     (s, r, evs') \<leftarrow> recv_run ops s r got;
     Some (s, r, evs @ evs')
   }"

fun recv_time :: "int \<Rightarrow> recv_op \<Rightarrow> int" where
  "recv_time now (Recv_Put w g) = sys_ms w 0"
| "recv_time now (Recv_Timer w t) = sys_ms w 2"
| "recv_time now op = now"

text \<open>What an operation may be: a packet of the kind \<open>H\<close> that is not too far ahead, and clocks that do not go back.\<close>

fun recv_op_fits :: "(sim_segment \<Rightarrow> bool) \<Rightarrow> int \<Rightarrow> int \<Rightarrow> recv_op \<Rightarrow> sim_receiver \<Rightarrow> bool" where
  "recv_op_fits H start now (Recv_Put w g) r =
     (H g \<and> put_in_window (rv_cache r) g \<and> time_ok start now (sys_ms w 0))"
| "recv_op_fits H start now (Recv_Timer w t) r =
     (malloc_ok w \<and> length (samples (stack_msg w)) = MAX_FEELBACK_COUNT \<and> time_ok start now (sys_ms w 2))"
| "recv_op_fits H start now (Recv_Get w cap) r = (0 \<le> sys_ms w 1 \<and> sys_ms w 1 < 1073741824)"
| "recv_op_fits H start now (Recv_Rtt rtt var) r = (rtt + var \<le> 1000000)"

text \<open>The packets of the frames \<open>S\<close>.\<close>

definition packet_of :: "frames_sent \<Rightarrow> sim_segment \<Rightarrow> bool" where
  "packet_of S g \<longleftrightarrow> honest S g \<and> seg_remb g \<noteq> 0"

fun recv_ops_fit :: "(sim_segment \<Rightarrow> bool) \<Rightarrow> int \<Rightarrow> int \<Rightarrow> recv_op list \<Rightarrow> 'a sim_net_scheme \<Rightarrow> sim_receiver \<Rightarrow> u32 list \<Rightarrow> bool" where
  "recv_ops_fit H start now [] s r got = True"
| "recv_ops_fit H start now (op # ops) s r got = (recv_op_fits H start now op r
     \<and> (case recv_step op s r got of None \<Rightarrow> True
        | Some (s, r, got, evs) \<Rightarrow> recv_ops_fit H start (recv_time now op) ops s r got))"

fun recv_event_ok :: "frames_sent \<Rightarrow> env \<Rightarrow> u32 \<Rightarrow> recv_event \<Rightarrow> bool" where
  "recv_event_ok S e uid (Sent got d) = ((\<exists>K. K \<inter> set got = {} \<and> ack_sent K e uid d)
     \<or> (\<exists>b. d = datagram e (INIT_SIM_HEADER SIM_FEEDBACK uid) (Feedback_Body b) \<and> unat (feedback_size b) \<le> 539))"
| "recv_event_ok S e uid (Took fid cap p) = delivered S cap fid p"

fun took_ids :: "recv_event list \<Rightarrow> u32 list" where
  "took_ids [] = []"
| "took_ids (Sent got d # evs) = took_ids evs"
| "took_ids (Took fid cap p # evs) = fid # took_ids evs"

lemma took_ids_append [simp]: "took_ids (xs @ ys) = took_ids xs @ took_ids ys"
  by (induction xs rule: took_ids.induct) auto

lemma took_ids_sent [simp]: "took_ids (map (Sent got) ds) = []"
  by (induction ds) auto

lemma recv_ops_fit_mono: "(\<And>g. H g \<Longrightarrow> H' g) \<Longrightarrow> recv_ops_fit H start now ops s r got \<Longrightarrow> recv_ops_fit H' start now ops s r got"
proof (induction ops arbitrary: s r got now)
  case (Cons op ops)
  have "recv_op_fits H' start now op r" using Cons.prems by (cases op) auto
  then show ?case using Cons by (auto split: option.splits)
qed simp

lemma recv_step_ok:
  assumes "net_wf s" and "big_endian (n_env s) \<noteq> -1" and "recv_ok S start now (set got) r" and "recv_op_fits (packet_of S) start now op r"
  shows "\<exists>s' r' got' evs. recv_step op s r got = Some (s', r', got', evs) \<and> net_wf s' \<and> n_env s' = n_env s \<and> n_uid s' = n_uid s
    \<and> recv_ok S start (recv_time now op) (set got') r' \<and> (\<forall>ev\<in>set evs. recv_event_ok S (n_env s) (n_uid s) ev)
    \<and> fc_min_fid (rv_cache r) \<le> fc_min_fid (rv_cache r')
    \<and> (took_ids evs = [] \<or> took_ids evs = [fc_min_fid (rv_cache r')] \<and> fc_min_fid (rv_cache r) < fc_min_fid (rv_cache r'))"
proof (cases op)
  case (Recv_Put w g)
  then have t: "now \<le> sys_ms w 0" "sys_ms w 0 - start \<le> 53000000" "0 \<le> sys_ms w 0" "sys_ms w 0 < 2147483647"
      and g: "honest S g" "put_in_window (rv_cache r) g" "seg_remb g \<noteq> 0"
    using assms(4) by (simp_all add: time_ok_def packet_of_def)
  obtain s' r' out ret where "sim_receiver_put w s r g = Some (s', r', out, ret)" "fc_min_fid (rv_cache r) \<le> fc_min_fid (rv_cache r')"
      "recv_result S start (sys_ms w 0) (if ret = 0 then insert (seg_packet_id g) (set got) else set got) s (s', r', out)"
    using receiver_put_ok [OF assms(1,3) g t] by blast
  then show ?thesis
    by (auto simp: Recv_Put recv_result_def net_same_def Let_def split: if_splits)
next
  case (Recv_Timer w tm)
  then have t: "now \<le> sys_ms w 2" "sys_ms w 2 - start \<le> 53000000" "0 \<le> sys_ms w 2" "sys_ms w 2 < 2147483647"
      and m: "malloc_ok w" "length (samples (stack_msg w)) = MAX_FEELBACK_COUNT"
    using assms(4) by (simp_all add: time_ok_def)
  obtain s' r' out where "sim_receiver_timer w s r tm = Some (s', r', out)" "fc_min_fid (rv_cache r') = fc_min_fid (rv_cache r)"
      "recv_result S start (sys_ms w 2) (set got) s (s', r', out)"
    using receiver_timer_ok [OF assms(1-3) m t] by blast
  then show ?thesis
    by (auto simp: Recv_Timer recv_result_def net_same_def)
next
  case (Recv_Get w cap)
  then show ?thesis
    using receiver_get_ok [OF assms(3), of w cap] assms(1,4) by auto
next
  case (Recv_Rtt rtt var)
  then show ?thesis
    using receiver_rtt_ok [OF assms(3), of "s\<lparr>n_rtt := rtt, n_rtt_var := var\<rparr>"] assms(1,4)
    by (auto simp: net_wf_def Let_def sim_receiver_update_rtt_def)
qed

lemma recv_run_ok:
  assumes "net_wf s" and "big_endian (n_env s) \<noteq> -1" and "recv_ok S start now (set got) r" and "recv_ops_fit (packet_of S) start now ops s r got"
  shows "\<exists>s' r' evs. recv_run ops s r got = Some (s', r', evs) \<and> (\<forall>ev\<in>set evs. recv_event_ok S (n_env s) (n_uid s) ev)
    \<and> sorted_wrt (<) (fc_min_fid (rv_cache r) # took_ids evs)"
  using assms
proof (induction ops arbitrary: s r got now)
  case (Cons op ops)
  obtain s1 r1 got1 evs where s1: "recv_step op s r got = Some (s1, r1, got1, evs)" "net_wf s1" "n_env s1 = n_env s" "n_uid s1 = n_uid s"
      "recv_ok S start (recv_time now op) (set got1) r1" "\<forall>ev\<in>set evs. recv_event_ok S (n_env s) (n_uid s) ev"
      "fc_min_fid (rv_cache r) \<le> fc_min_fid (rv_cache r1)"
      "took_ids evs = [] \<or> took_ids evs = [fc_min_fid (rv_cache r1)] \<and> fc_min_fid (rv_cache r) < fc_min_fid (rv_cache r1)"
    using recv_step_ok [OF Cons.prems(1-3), of op] Cons.prems(4) by auto
  obtain s2 r2 evs2 where s2: "recv_run ops s1 r1 got1 = Some (s2, r2, evs2)" "\<forall>ev\<in>set evs2. recv_event_ok S (n_env s) (n_uid s) ev"
      "sorted_wrt (<) (fc_min_fid (rv_cache r1) # took_ids evs2)"
    using Cons.IH [OF s1(2) _ s1(5)] Cons.prems(2,4) s1(1,3,4) by auto
  then show ?case
    using s1 by (fastforce intro: le_less_trans less_trans)
qed simp



end
