(* ===== verification/Sim_Video.thy ===== *)
theory Sim_Video
  imports Sim_Sender Sim_Receiver
begin

text \<open>
  A sender, a network and a receiver together: what the receiver's application gets of the frames that the sender's application gives. The
  network may lose, repeat, delay and reorder datagrams.
\<close>

text \<open>The segment that a host decodes from a datagram, as \<open>process_sim_seg\<close> does it.\<close>

definition decodes_segment :: "env \<Rightarrow> u8 list \<Rightarrow> sim_segment \<Rightarrow> bool" where
  "decodes_segment e d g \<longleftrightarrow> (\<exists>rs strm strm1 h strm2. length (data rs) = strm_size rs \<and> 1034 \<le> strm_size rs \<and> datagram_load rs d = Some strm
     \<and> sim_decode_header e strm \<lparr>h_ver = 0, h_mid = 0, h_uid = 0\<rparr> = Some (strm1, 0, h) \<and> h_mid h = SIM_SEG
     \<and> sim_decode_msg e strm1 h (Segment_Body (new_segment e)) = Some (strm2, 0, Segment_Body g))"

lemma same_message_honest:
  assumes "same_message (Segment_Body g) (Segment_Body g')" and "honest S g" and "seg_remb g \<noteq> 0" and "length (seg_data g') = SIM_VIDEO_SIZE"
  shows "packet_of S g'"
  using assms unfolding honest_def seg_payload_def packet_of_def by auto

lemma received_packet:
  assumes "env_std e" and "env_std e'" and "seg_sent S e uid d" and "decodes_segment e' d g"
  shows "packet_of S g"
proof -
  obtain g0 where g0: "d = datagram e (INIT_SIM_HEADER SIM_SEG uid) (Segment_Body g0)" "honest S g0" "seg_remb g0 \<noteq> 0"
    using assms(3) by (auto simp: seg_sent_def)
  obtain rs strm strm1 h strm2 where r: "length (data rs) = strm_size rs" "1034 \<le> strm_size rs" "datagram_load rs d = Some strm"
      "sim_decode_header e' strm \<lparr>h_ver = 0, h_mid = 0, h_uid = 0\<rparr> = Some (strm1, 0, h)"
      "sim_decode_msg e' strm1 h (Segment_Body (new_segment e')) = Some (strm2, 0, Segment_Body g)"
    using assms(4) by (auto simp: decodes_segment_def)
  have m: "h_mid (INIT_SIM_HEADER SIM_SEG uid) = SIM_SEG" by (simp add: INIT_SIM_HEADER_def)
  have b: "body_shape SIM_SEG (Segment_Body g0)" "body_sizes (Segment_Body g0)" "body_fields (Segment_Body g0)"
    using g0(2) by (auto simp: honest_def)
  have old: "body_shape SIM_SEG (Segment_Body (new_segment e'))" by (simp add: new_segment_def)
  obtain strm3 where s3: "sim_decode_header e' strm \<lparr>h_ver = 0, h_mid = 0, h_uid = 0\<rparr> = Some (strm3, 0, INIT_SIM_HEADER SIM_SEG uid)"
      "\<exists>r2 b'. sim_decode_msg e' strm3 (INIT_SIM_HEADER SIM_SEG uid) (Segment_Body (new_segment e')) = Some (r2, 0, b') \<and> same_message (Segment_Body g0) b' \<and> body_shape SIM_SEG b'"
    using datagram_received [OF assms(1,2), of "INIT_SIM_HEADER SIM_SEG uid" "Segment_Body g0" rs strm "\<lparr>h_ver = 0, h_mid = 0, h_uid = 0\<rparr>",
        unfolded m] b r(1,2) r(3) [unfolded g0(1)] old by blast
  then have eq: "strm3 = strm1" "h = INIT_SIM_HEADER SIM_SEG uid" using r(4) by simp_all
  then have s: "same_message (Segment_Body g0) (Segment_Body g)" "length (seg_data g) = SIM_VIDEO_SIZE" using s3(2) r(5) by auto
  then show ?thesis
    using same_message_honest [OF _ g0(2,3)] by blast
qed



end
