(* ===== verification/Sim_Session.thy ===== *)
theory Sim_Session
  imports Sim_Sender Sim_Receiver
begin

text \<open>
  \<^verbatim>\<open>sim_transport/sim_session.c\<close>: a session connects to a peer, answers the peer's connection, sends and receives video,
  measures the round trip time with pings and gives up on a silent peer. It holds the sender of its own
  video and the receiver of the peer's. \<open>sim_session_loop_step\<close> is one turn of the loop of its thread.

  The calls of the application and the thread's turns exclude each other by a mutex (\<open>sim_session_set_bitrates\<close> alone
  does not take it), so each is one step here. Results are the session and, in order, the
  datagrams and callbacks; \<open>None\<close> is undefined behaviour, a failed assertion or a loop that does not end. What
  \<open>msg_log\<close> and \<open>sim_info\<close> write is not modelled.
\<close>

subsection \<open>State\<close>

datatype session_state = session_idle | session_connecting | session_connected | session_disconnected

datatype net_state = net_normal | net_interrupt | net_recover

record sim_session = sim_net +
  s_cid :: u32
  s_state :: session_state
  s_interrupt :: net_state
  s_run :: int
  s_sender :: "sim_sender option"
  s_receiver :: "sim_receiver option"
  s_resend :: int
  commad_ts :: int
  stat_ts :: int
  rbandwidth :: u32
  rcount :: u32
  video_bytes :: u32
  max_frame_size :: u32
  ss_min_bitrate :: int
  ss_max_bitrate :: int
  ss_start_bitrate :: int
  has_state_cb :: bool

type_synonym session_result = "(sim_session \<times> sim_out list) option"

text \<open>
  \<open>sock\<close> is the socket that \<open>su_udp_create\<close> makes, if it can. If not, the freed session is returned, and \<open>None\<close> stands for it.
\<close>

definition sim_session_create :: "host \<Rightarrow> env \<Rightarrow> int option \<Rightarrow> bool \<Rightarrow> sim_session option" where
  "sim_session_create w e sock state_cb = do {
     sock \<leftarrow> sock;
     let (e, strm) = bin_stream_init e (malloc_ok w);
     Some \<lparr>n_env = e, n_sock = sock, n_peer = ('''', 0), n_uid = 0, n_rtt = 100, n_rtt_var = 5, n_loss_fraction = 0,
       n_sbandwidth = 0, n_scount = 0, n_sstrm = strm, s_cid = libc_rand w, s_state = session_idle, s_interrupt = net_normal,
       s_run = 1, s_sender = None, s_receiver = None, s_resend = 0, commad_ts = sys_ms w 0, stat_ts = 0,
       rbandwidth = 0, rcount = 0, video_bytes = 0, max_frame_size = 0, ss_min_bitrate = MIN_BITRATE, ss_max_bitrate = MAX_BITRATE,
       ss_start_bitrate = START_BITRATE, has_state_cb = state_cb\<rparr>
   }"

text \<open>Destroying the receiver empties its cache, which can fail; the rest is only freed.\<close>

definition destroy_receiver :: "sim_receiver option \<Rightarrow> unit option" where
  "destroy_receiver r = (case r of None \<Rightarrow> Some () | Some r \<Rightarrow> map_option (\<lambda>_. ()) (sim_receiver_destroy r))"

definition sim_session_destroy :: "sim_session \<Rightarrow> unit option" where
  "sim_session_destroy s = destroy_receiver (s_receiver s)"

definition sim_session_reset :: "host \<Rightarrow> sim_session \<Rightarrow> sim_session option" where
  "sim_session_reset w s = do {
     let s = s\<lparr>n_uid := 0, s_state := session_idle, n_rtt := 100, n_rtt_var := 5, n_loss_fraction := 0, s_cid := libc_rand w,
       rbandwidth := 0, n_sbandwidth := 0, rcount := 0, n_scount := 0, video_bytes := 0, max_frame_size := 0,
       stat_ts := sys_ms w 0, s_resend := 0, commad_ts := sys_ms w 0, s_interrupt := net_normal, s_sender := None\<rparr>;
     _ \<leftarrow> destroy_receiver (s_receiver s);
     Some (s\<lparr>s_receiver := None\<rparr>)
   }"

subsection \<open>The application's calls\<close>

definition sim_session_send_connect :: "sim_session \<Rightarrow> int \<Rightarrow> session_result" where
  "sim_session_send_connect s now_ts = do {
     (s, out) \<leftarrow> net_send_msg s (INIT_SIM_HEADER SIM_CONNECT (n_uid s))
       (Connect_Body ((new_connect (n_env s))\<lparr>con_cid := s_cid s, token_size := 0\<rparr>));
     Some (s\<lparr>commad_ts := now_ts, s_resend := s_resend s + 1\<rparr>, out)
   }"

definition sim_session_connect :: "host \<Rightarrow> sim_session \<Rightarrow> u32 \<Rightarrow> string \<Rightarrow> u16 \<Rightarrow> (sim_session \<times> sim_out list \<times> int) option" where
  "sim_session_connect w s local_uid peer_ip peer_port =
     (if s_state s \<noteq> session_idle then Some (s, [], -1)
      else map_option (\<lambda>(s, out). (s, out, 0))
        (sim_session_send_connect (s\<lparr>n_peer := (peer_ip, peer_port), n_uid := local_uid, s_state := session_connecting, s_resend := 0\<rparr>) (sys_ms w 0)))"

definition sim_session_send_disconnect :: "sim_session \<Rightarrow> int \<Rightarrow> session_result" where
  "sim_session_send_disconnect s now_ts = do {
     (s, out) \<leftarrow> net_send_msg s (INIT_SIM_HEADER SIM_DISCONNECT (n_uid s)) (Disconnect_Body \<lparr>dis_cid = s_cid s\<rparr>);
     Some (s\<lparr>commad_ts := now_ts, s_resend := s_resend s + 1\<rparr>, out)
   }"

definition sim_session_disconnect :: "host \<Rightarrow> sim_session \<Rightarrow> (sim_session \<times> sim_out list \<times> int) option" where
  "sim_session_disconnect w s =
     (if s_state s = session_idle \<or> s_state s = session_disconnected then Some (s, [], -1)
      else map_option (\<lambda>(s, out). (s, out, 0))
        (sim_session_send_disconnect (s\<lparr>s_resend := 0, commad_ts := sys_ms w 0, s_state := session_disconnected\<rparr>) (sys_ms w 0)))"

definition sim_session_send_video :: "host \<Rightarrow> sim_session \<Rightarrow> u8 \<Rightarrow> u8 \<Rightarrow> u8 list \<Rightarrow> (sim_session \<times> int) option" where
  "sim_session_send_video w s payload_type ftype bytes =
     (if s_state s \<noteq> session_connected \<or> length bytes = 0 \<or> s_interrupt s = net_interrupt then Some (s, -1)
      else do {
        let s = s\<lparr>video_bytes := video_bytes s + word_of_nat (length bytes)\<rparr>;
        (s, ret) \<leftarrow> (case s_sender s of None \<Rightarrow> Some (s, -1)
          | Some sd \<Rightarrow> map_option (\<lambda>sd. (s\<lparr>s_sender := Some sd\<rparr>, 0)) (sim_sender_put w s sd payload_type ftype bytes));
        Some (s\<lparr>max_frame_size := word_of_nat (su_max (length bytes) (unat (max_frame_size s)))\<rparr>, ret)
      })"

definition sim_session_recv_video :: "host \<Rightarrow> sim_session \<Rightarrow> nat \<Rightarrow> (sim_session \<times> play_result) option" where
  "sim_session_recv_video w s buffer_size =
     (case s_receiver s of None \<Rightarrow> Some (s, \<lparr>pr_ret = -1, pr_out = [], pr_size = buffer_size, pr_type = 0\<rparr>)
      | Some r \<Rightarrow> map_option (\<lambda>(r, p). (s\<lparr>s_receiver := Some r\<rparr>, p)) (sim_receiver_get w r buffer_size))"

text \<open>\<open>min_bitrate * 1.07f\<close> is computed in \<open>float\<close>, the start rate in \<open>uint32_t\<close> and then \<open>double\<close>.\<close>

definition scaled_bitrate :: "u32 \<Rightarrow> int option" where
  "scaled_bitrate v = fp_to_s32 ((fp_of_int (uint v) :: float) * fp_lit 1.07)"

definition start_with_headers :: "u32 \<Rightarrow> int option" where
  "start_with_headers v = fp_to_s32 ((fp_of_int (uint (v * word_of_nat (SIM_SEGMENT_HEADER_SIZE + SIM_VIDEO_SIZE))) :: double)
     * fp_lit 1.07 div fp_lit (of_nat SIM_VIDEO_SIZE))"

definition sim_session_set_bitrates :: "host \<Rightarrow> sim_session \<Rightarrow> u32 \<Rightarrow> u32 \<Rightarrow> u32 \<Rightarrow> session_result" where
  "sim_session_set_bitrates w s min_bitrate start_bitrate max_bitrate = do {
     mn \<leftarrow> scaled_bitrate min_bitrate;
     mx \<leftarrow> scaled_bitrate max_bitrate;
     st \<leftarrow> start_with_headers start_bitrate;
     let s = s\<lparr>ss_min_bitrate := mn, ss_max_bitrate := mx, ss_start_bitrate := sint (su_min max_bitrate (word_of_int st))\<rparr>;
     (case s_sender s of None \<Rightarrow> Some (s, [])
      | Some sd \<Rightarrow> do {
          (s, sd, out) \<leftarrow> sim_sender_set_bitrates w s sd min_bitrate (word_of_int (ss_start_bitrate s)) max_bitrate;
          Some (s\<lparr>s_sender := Some sd\<rparr>, out)
        })
   }"

subsection \<open>The round trip time\<close>

definition rtt_var_next :: "u32 \<Rightarrow> u32 \<Rightarrow> u32 \<Rightarrow> u32" where
  "rtt_var_next rtt_var rtt keep_rtt =
     (let v = (rtt_var * 3 + (if keep_rtt < rtt then rtt - keep_rtt else keep_rtt - rtt)) div 4 in if v < 10 then 10 else v)"

definition rtt_next :: "u32 \<Rightarrow> u32 \<Rightarrow> u32" where
  "rtt_next rtt keep_rtt = (let v = (7 * rtt + keep_rtt) div 8 in if v < 10 then 10 else v)"

definition sim_session_calculate_rtt :: "sim_session \<Rightarrow> u32 \<Rightarrow> sim_session" where
  "sim_session_calculate_rtt s keep_rtt =
     (let keep_rtt = (if keep_rtt < 5 then 5 else keep_rtt);
          s = s\<lparr>n_rtt_var := rtt_var_next (n_rtt_var s) (n_rtt s) keep_rtt, n_rtt := rtt_next (n_rtt s) keep_rtt\<rparr>;
          s = s\<lparr>s_sender := map_option (sim_sender_update_rtt s) (s_sender s)\<rparr>
      in s\<lparr>s_receiver := map_option (sim_receiver_update_rtt s) (s_receiver s)\<rparr>)"

subsection \<open>Messages\<close>

text \<open>\<open>strm\<close> is the stream after the header; what reading it changes is rewound before the next datagram.\<close>

definition process_sim_connect :: "host \<Rightarrow> sim_session \<Rightarrow> sim_header \<Rightarrow> bin_stream \<Rightarrow> session_result" where
  "process_sim_connect w s header strm = do {
     (strm, ret, body) \<leftarrow> sim_decode_msg (n_env s) strm header (Connect_Body (new_connect (n_env s)));
     (case body of Connect_Body b \<Rightarrow>
       if ret \<noteq> 0 then Some (s, [])
       else do {
         let h = INIT_SIM_HEADER SIM_CONNECT_ACK (n_uid s);
         let ack = \<lparr>cack_cid = con_cid b, cack_result = 0\<rparr>;
         (r, out) \<leftarrow> (case s_receiver s of None \<Rightarrow> Some (sim_receiver_create w s, [Notify sim_start_play_notify (h_uid header)])
           | Some r \<Rightarrow> map_option (\<lambda>r. (r, [])) (sim_receiver_reset w s r));
         let s = s\<lparr>s_receiver := Some (fst (sim_receiver_active (after 2 w) r (h_uid header)))\<rparr>;
         (s, out') \<leftarrow> net_send_msg s h (Connect_Ack_Body ack);
         Some (s\<lparr>commad_ts := sys_ms w 3, s_resend := 0\<rparr>, out @ out')
       }
     | _ \<Rightarrow> None)
   }"

definition session_start_sender :: "host \<Rightarrow> sim_session \<Rightarrow> session_result" where
  "session_start_sender w s = do {
     let s = s\<lparr>s_state := session_connected\<rparr>;
     let (s, sd) = (case s_sender s of None \<Rightarrow> sim_sender_create w s | Some sd \<Rightarrow> sim_sender_reset w s sd);
     let sd = fst (sim_sender_active sd);
     let s = s\<lparr>s_interrupt := net_recover\<rparr>;
     (s, sd, out) \<leftarrow> sim_sender_set_bitrates (after 3 w) s sd (word_of_int (ss_min_bitrate s)) (word_of_int (ss_start_bitrate s))
       (word_of_int (ss_max_bitrate s));
     Some (s\<lparr>s_sender := Some sd\<rparr>, out)
   }"

definition process_sim_connect_ack :: "host \<Rightarrow> sim_session \<Rightarrow> sim_header \<Rightarrow> bin_stream \<Rightarrow> session_result" where
  "process_sim_connect_ack w s header strm = do {
     (strm, ret, body) \<leftarrow> sim_decode_msg (n_env s) strm header (Connect_Ack_Body \<lparr>cack_cid = 0, cack_result = 0\<rparr>);
     (case body of Connect_Ack_Body ack \<Rightarrow>
       if ret \<noteq> 0 \<or> s_state s \<noteq> session_connecting then Some (s, [])
       else do {
         (s, out) \<leftarrow> (if cack_result ack \<noteq> 0 then map_option (\<lambda>s. (s, [])) (sim_session_reset w s) else session_start_sender w s);
         Some (s, out @ [Notify sim_connect_notify (cack_result ack)])
       }
     | _ \<Rightarrow> None)
   }"

definition process_sim_disconnect :: "sim_session \<Rightarrow> sim_header \<Rightarrow> bin_stream \<Rightarrow> session_result" where
  "process_sim_disconnect s header strm = do {
     (strm, ret, body) \<leftarrow> sim_decode_msg (n_env s) strm header (Disconnect_Body \<lparr>dis_cid = 0\<rparr>);
     (case body of Disconnect_Body b \<Rightarrow>
       if ret \<noteq> 0 then Some (s, [])
       else do {
         (s, out) \<leftarrow> net_send_msg s (INIT_SIM_HEADER SIM_DISCONNECT_ACK (n_uid s)) (Connect_Ack_Body \<lparr>cack_cid = dis_cid b, cack_result = 0\<rparr>);
         (case s_receiver s of None \<Rightarrow> Some (s, out)
          | Some r \<Rightarrow> do {
              _ \<leftarrow> destroy_receiver (Some r);
              Some (s\<lparr>s_receiver := None\<rparr>, out @ [Notify sim_stop_play_notify (rv_base_uid r)])
            })
       }
     | _ \<Rightarrow> None)
   }"

definition process_sim_disconnect_ack :: "host \<Rightarrow> sim_session \<Rightarrow> session_result" where
  "process_sim_disconnect_ack w s =
     (if s_state s = session_disconnected
      then map_option (\<lambda>s. (s, [Notify sim_disconnect_notify 0])) (sim_session_reset w s)
      else Some (s, []))"

text \<open>The result of decoding a ping or a pong is not looked at.\<close>

definition process_sim_ping :: "sim_session \<Rightarrow> sim_header \<Rightarrow> bin_stream \<Rightarrow> session_result" where
  "process_sim_ping s header strm = do {
     (strm, ret, body) \<leftarrow> sim_decode_msg (n_env s) strm header (Ping_Body \<lparr>ping_ts = 0\<rparr>);
     net_send_msg s (INIT_SIM_HEADER SIM_PONG (n_uid s)) body
   }"

definition keep_rtt_of :: "int \<Rightarrow> int \<Rightarrow> u32" where
  "keep_rtt_of now_ts ts = (if ts + 5 < now_ts then word_of_int (now_ts - ts) else 5)"

definition process_sim_pong :: "host \<Rightarrow> sim_session \<Rightarrow> sim_header \<Rightarrow> bin_stream \<Rightarrow> session_result" where
  "process_sim_pong w s header strm = do {
     (strm, ret, body) \<leftarrow> sim_decode_msg (n_env s) strm header (Ping_Body \<lparr>ping_ts = 0\<rparr>);
     (case body of Ping_Body b \<Rightarrow> Some (sim_session_calculate_rtt s (keep_rtt_of (sys_ms w 0) (ping_ts b)), []) | _ \<Rightarrow> None)
   }"

definition process_sim_seg :: "host \<Rightarrow> sim_session \<Rightarrow> sim_header \<Rightarrow> bin_stream \<Rightarrow> session_result" where
  "process_sim_seg w s header strm =
     (case s_receiver s of None \<Rightarrow> Some (s, [])
      | Some r \<Rightarrow> do {
          (strm, ret, body) \<leftarrow> sim_decode_msg (n_env s) strm header (Segment_Body (new_segment (n_env s)));
          (case body of Segment_Body seg \<Rightarrow>
            if ret \<noteq> 0 then Some (s, [])
            else do { (s, r, out, ret) \<leftarrow> sim_receiver_put w s r seg; Some (s\<lparr>s_receiver := Some r\<rparr>, out) }
          | _ \<Rightarrow> None)
        })"

definition process_sim_seg_ack :: "host \<Rightarrow> sim_session \<Rightarrow> sim_header \<Rightarrow> bin_stream \<Rightarrow> session_result" where
  "process_sim_seg_ack w s header strm = do {
     (strm, ret, body) \<leftarrow> sim_decode_msg (n_env s) strm header (Segment_Ack_Body (new_segment_ack (n_env s)));
     (case body of Segment_Ack_Body ack \<Rightarrow>
       if ret \<noteq> 0 then Some (s, [])
       else (case s_sender s of None \<Rightarrow> Some (s, [])
         | Some sd \<Rightarrow> map_option (\<lambda>(sd, ret). (s\<lparr>s_sender := Some sd\<rparr>, [])) (sim_sender_ack w sd ack))
     | _ \<Rightarrow> None)
   }"

definition process_sim_feedback :: "host \<Rightarrow> sim_session \<Rightarrow> sim_header \<Rightarrow> bin_stream \<Rightarrow> session_result" where
  "process_sim_feedback w s header strm = do {
     (strm, ret, body) \<leftarrow> sim_decode_msg (n_env s) strm header (Feedback_Body (new_feedback (n_env s)));
     (case body of Feedback_Body fb \<Rightarrow>
       if ret \<noteq> 0 then Some (s, [])
       else (case s_sender s of None \<Rightarrow> Some (s, [])
         | Some sd \<Rightarrow> do { (s, sd, out) \<leftarrow> sim_sender_feedback w s sd fb; Some (s\<lparr>s_sender := Some sd\<rparr>, out) })
     | _ \<Rightarrow> None)
   }"

definition process_message :: "host \<Rightarrow> sim_session \<Rightarrow> sim_header \<Rightarrow> bin_stream \<Rightarrow> session_result" where
  "process_message w s header strm =
     (let m = h_mid header
      in if m = SIM_CONNECT then process_sim_connect w s header strm
      else if m = SIM_CONNECT_ACK then process_sim_connect_ack w s header strm
      else if m = SIM_DISCONNECT then process_sim_disconnect s header strm
      else if m = SIM_DISCONNECT_ACK then process_sim_disconnect_ack w s
      else if m = SIM_PING then process_sim_ping s header strm
      else if m = SIM_PONG then process_sim_pong w s header strm
      else if m = SIM_SEG then process_sim_seg w s header strm
      else if m = SIM_SEG_ACK then process_sim_seg_ack w s header strm
      else if m = SIM_FEEDBACK then process_sim_feedback w s header strm
      else Some (s, []))"

definition sim_session_process :: "host \<Rightarrow> sim_session \<Rightarrow> bin_stream \<Rightarrow> su_addr \<Rightarrow> session_result" where
  "sim_session_process w s strm addr = do {
     (strm, ret, header) \<leftarrow> sim_decode_header (n_env s) strm \<lparr>h_ver = 0, h_mid = 0, h_uid = 0\<rparr>;
     if ret \<noteq> 0 \<or> h_mid header < MIN_MSG_ID \<or> MAX_MSG_ID < h_mid header then Some (s, [])
     else do {
       let s = s\<lparr>n_peer := addr\<rparr>;
       let (s, out) = (if s_interrupt s = net_interrupt then (s\<lparr>s_interrupt := net_recover\<rparr>, [Notify net_recover_notify 0]) else (s, []));
       (s, out') \<leftarrow> process_message w (s\<lparr>s_resend := 0\<rparr>) header strm;
       Some (s, out @ out')
     }
   }"

subsection \<open>The thread\<close>

definition sim_session_send_ping :: "sim_session \<Rightarrow> int \<Rightarrow> session_result" where
  "sim_session_send_ping s now_ts = do {
     (s, out) \<leftarrow> net_send_msg s (INIT_SIM_HEADER SIM_PING (n_uid s)) (Ping_Body \<lparr>ping_ts = now_ts\<rparr>);
     let s = s\<lparr>commad_ts := now_ts, s_resend := s_resend s + 1\<rparr>;
     Some (if 12 < s_resend s then (s\<lparr>s_interrupt := net_interrupt\<rparr>, out @ [Notify net_interrupt_notify 0]) else (s, out))
   }"

abbreviation TICK_DELAY_MS :: int where "TICK_DELAY_MS \<equiv> 1000"

text \<open>The first part of the timer: once a second the rates are shown and counted anew.\<close>

definition session_stats :: "host \<Rightarrow> sim_session \<Rightarrow> int \<Rightarrow> session_result" where
  "session_stats w s now_ts =
     (if stat_ts s + 1000 < now_ts
      then (let delay = word_of_int (now_ts - stat_ts s) * 1024 :: u32;
                pacer_ms = (case s_sender s of None \<Rightarrow> 0
                  | Some sd \<Rightarrow> if sd_cc sd = None then 0 else word_of_int (razor_sender_get_pacer_queue_ms (sys_ms w 0) (sd_cc sd)));
                cache_delay = (case s_receiver s of None \<Rightarrow> 0 | Some r \<Rightarrow> sim_receiver_cache_delay r);
                out = (if has_state_cb s then [Show_State \<lparr>st_video_rate = video_bytes s * 1000 div delay,
                  st_send_rate = n_sbandwidth s * 1000 div delay, st_recv_rate = rbandwidth s * 1000 div delay,
                  st_rtt = n_rtt s, st_rtt_var = n_rtt_var s, st_max_frame = max_frame_size s, st_pacer_ms = pacer_ms,
                  st_cache_delay = cache_delay\<rparr>] else [])
            in if delay = 0 then None
               else Some (s\<lparr>stat_ts := now_ts, rbandwidth := 0, n_sbandwidth := 0, n_scount := 0, rcount := 0, video_bytes := 0,
                 max_frame_size := 0\<rparr>, out))
      else Some (s, []))"

text \<open>\<open>fn\<close> sends the message of the session's state again, or the peer is given up and \<open>notify\<close> tells so.\<close>

definition sim_session_state_timer ::
  "host \<Rightarrow> sim_session \<Rightarrow> int \<Rightarrow> (sim_session \<Rightarrow> int \<Rightarrow> session_result) \<Rightarrow> int \<Rightarrow> int \<Rightarrow> session_result" where
  "sim_session_state_timer w s now_ts fn notify tick_delay = do {
     (s, out) \<leftarrow> session_stats w s now_ts;
     (if commad_ts s + tick_delay < now_ts
      then if s_resend s * tick_delay < 10000
        then map_option (\<lambda>(s, out'). (s, out @ out')) (fn s now_ts)
        else do {
          let out' = (case s_receiver s of None \<Rightarrow> [] | Some r \<Rightarrow> [Notify sim_stop_play_notify (rv_base_uid r)]);
          s \<leftarrow> sim_session_reset (after 1 w) s;
          Some (s, out @ out' @ [Notify notify 1])
        }
      else Some (s, out))
   }"

text \<open>
  How often the sender's timer looks at the clock depends on the packets it sends; \<open>w'\<close> is the host after it.
\<close>

definition heartbeat_state :: "host \<Rightarrow> sim_session \<Rightarrow> int \<Rightarrow> session_result" where
  "heartbeat_state w s now_ts =
     (case s_state s of
        session_connecting \<Rightarrow> sim_session_state_timer w s now_ts sim_session_send_connect sim_connect_notify TICK_DELAY_MS
      | session_connected \<Rightarrow> (case s_sender s of None \<Rightarrow> Some (s, [])
          | Some sd \<Rightarrow> do { (s, sd, out) \<leftarrow> sim_sender_timer w s sd; Some (s\<lparr>s_sender := Some sd\<rparr>, out) })
      | session_disconnected \<Rightarrow> sim_session_state_timer w s now_ts sim_session_send_disconnect sim_disconnect_notify TICK_DELAY_MS
      | session_idle \<Rightarrow> Some (s, []))"

definition heartbeat_receiver :: "host \<Rightarrow> sim_session \<Rightarrow> int \<Rightarrow> session_result" where
  "heartbeat_receiver w s now_ts =
     (case s_receiver s of None \<Rightarrow> Some (s, [])
      | Some r \<Rightarrow> do { (s, r, out) \<leftarrow> sim_receiver_timer w s r now_ts; Some (s\<lparr>s_receiver := Some r\<rparr>, out) })"

definition sim_session_heartbeat :: "host \<Rightarrow> host \<Rightarrow> sim_session \<Rightarrow> int \<Rightarrow> session_result" where
  "sim_session_heartbeat w w' s now_ts = do {
     (s, out) \<leftarrow> heartbeat_receiver w s now_ts;
     (s, out1) \<leftarrow> heartbeat_state (after 3 w) s now_ts;
     (s, out2) \<leftarrow> (if s_sender s \<noteq> None \<or> s_receiver s \<noteq> None
       then sim_session_state_timer w' s now_ts sim_session_send_ping sim_network_timout (TICK_DELAY_MS div 4)
       else Some (s, []));
     Some (s, out @ out1 @ out2)
   }"

text \<open>
  A turn of the loop: \<open>recv\<close> is what \<open>su_udp_recv\<close> gives, at most the buffer's size, and \<open>now_ts\<close> the time after it; \<open>w\<close> is for the message,
  \<open>w'\<close> and \<open>w''\<close> for the timers. The loop's own state is its stream and \<open>prev_ts\<close>.
\<close>

definition session_receive :: "host \<Rightarrow> sim_session \<Rightarrow> bin_stream \<Rightarrow> su_addr \<Rightarrow> u8 list \<Rightarrow> (sim_session \<times> bin_stream \<times> sim_out list) option" where
  "session_receive w s rstrm addr d = do {
     rstrm \<leftarrow> datagram_load rstrm d;
     (if SIM_HEADER_SIZE \<le> length d
      then map_option (\<lambda>(s, out). (s, rstrm, out))
        (sim_session_process w (s\<lparr>rbandwidth := rbandwidth s + word_of_nat (length d), rcount := rcount s + 1\<rparr>) rstrm addr)
      else Some (s, rstrm, []))
   }"

definition sim_session_loop_step ::
  "host \<Rightarrow> host \<Rightarrow> host \<Rightarrow> sim_session \<Rightarrow> bin_stream \<Rightarrow> int \<Rightarrow> (su_addr \<times> u8 list) option \<Rightarrow> int
    \<Rightarrow> (sim_session \<times> bin_stream \<times> int \<times> sim_out list) option" where
  "sim_session_loop_step w w' w'' s rstrm prev_ts recv now_ts = do {
     (s, rstrm, out) \<leftarrow> (case recv of None \<Rightarrow> Some (s, bin_stream_rewind rstrm 1, []) | Some (addr, d) \<Rightarrow> session_receive w s rstrm addr d);
     (if prev_ts + 5 \<le> now_ts
      then map_option (\<lambda>(s, out'). (s, rstrm, now_ts, out @ out')) (sim_session_heartbeat w' w'' s now_ts)
      else Some (s, rstrm, prev_ts, out))
   }"

subsection \<open>What the parts leave alone in the session\<close>

text \<open>Senders and receivers change the session only in the fields they share (\<open>sim_net\<close>).\<close>

definition kept :: "sim_session \<Rightarrow> sim_session \<Rightarrow> bool" where
  "kept s s' \<longleftrightarrow> sim_net.more s' = sim_net.more s \<and> n_rtt s' = n_rtt s \<and> n_rtt_var s' = n_rtt_var s \<and> n_uid s' = n_uid s \<and> n_peer s' = n_peer s"

lemma kept_refl [simp]: "kept s s"
  by (simp add: kept_def)

lemma kept_trans: "kept a b \<Longrightarrow> kept b c \<Longrightarrow> kept a c"
  by (simp add: kept_def)

lemma kept_fields:
  assumes "kept s s'"
  shows "s_state s' = s_state s" "s_sender s' = s_sender s" "s_receiver s' = s_receiver s" "s_resend s' = s_resend s"
    "commad_ts s' = commad_ts s" "stat_ts s' = stat_ts s" "s_interrupt s' = s_interrupt s" "n_rtt s' = n_rtt s" "n_rtt_var s' = n_rtt_var s"
    "has_state_cb s' = has_state_cb s" "s_cid s' = s_cid s" "n_uid s' = n_uid s" "n_peer s' = n_peer s"
    "ss_min_bitrate s' = ss_min_bitrate s" "ss_max_bitrate s' = ss_max_bitrate s" "ss_start_bitrate s' = ss_start_bitrate s"
    "s_run s' = s_run s"
  using assms by (cases s; cases s'; simp add: kept_def)+

lemma net_send_kept: "net_send_msg s h b = Some (s', out) \<Longrightarrow> kept s s' \<and> n_env s' = n_env s"
  by (auto simp: net_send_msg_def sim_session_network_send_def kept_def split: bind_splits if_splits)

lemma net_send_quiet: "net_send_msg s h b = Some (s', out) \<Longrightarrow> Notify k v \<notin> set out"
  by (auto simp: net_send_msg_def sim_session_network_send_def split: bind_splits if_splits)

text \<open>A sender stays active, and its callbacks are no notifications.\<close>

definition snd_quiet :: "sim_session \<Rightarrow> sim_sender \<Rightarrow> sim_session \<times> sim_sender \<times> sim_out list \<Rightarrow> bool" where
  "snd_quiet s sd r \<longleftrightarrow> (case r of (s', sd', out) \<Rightarrow> kept s s' \<and> sd_actived sd' = sd_actived sd \<and> (\<forall>k v. Notify k v \<notin> set out))"

lemma snd_quiet_trans: "snd_quiet s sd (s1, sd1, o1) \<Longrightarrow> snd_quiet s1 sd1 (s2, sd2, o2) \<Longrightarrow> snd_quiet s sd (s2, sd2, o1 @ o2)"
  by (auto simp: snd_quiet_def intro: kept_trans)

lemma send_packet_quiet: "sim_send_packet w s sd c = Some r \<Longrightarrow> snd_quiet s sd r"
  by (auto simp: sim_send_packet_def Let_def snd_quiet_def split: prod.splits option.splits bind_splits dest: net_send_kept net_send_quiet)

lemma send_packets_quiet: "send_packets w s sd cs = Some r \<Longrightarrow> snd_quiet s sd r"
proof (induction cs arbitrary: w s sd r)
  case Nil
  then show ?case by (auto simp: snd_quiet_def)
next
  case (Cons c cs)
  then obtain s1 sd1 o1 s2 sd2 o2 where "sim_send_packet w s sd c = Some (s1, sd1, o1)"
      "send_packets (after 2 w) s1 sd1 cs = Some (s2, sd2, o2)" "r = (s2, sd2, o1 @ o2)"
    by (auto split: bind_splits)
  then show ?case using send_packet_quiet Cons.IH snd_quiet_trans by blast
qed

lemma change_bitrates_quiet: "change_bitrates s sd ns = Some r \<Longrightarrow> snd_quiet s sd r"
proof (induction ns arbitrary: s sd r)
  case Nil
  then show ?case by (auto simp: snd_quiet_def)
next
  case (Cons x ns)
  obtain b f rtt where x: "x = (b, f, rtt)" by (cases x)
  obtain s1 sd1 v where 1: "sim_bitrate_change s sd x = Some (s1, sd1, [Change_Bitrate v])" "net_like s s1"
      "sd1 = sd\<lparr>sd_limiter := sim_limiter_set_max_bitrate (sd_limiter sd) (b * 1000)\<rparr>"
    using bitrate_change_ok [of s sd b f rtt] unfolding x by blast
  obtain s2 sd2 o2 where 2: "change_bitrates s1 sd1 ns = Some (s2, sd2, o2)" "r = (s2, sd2, [Change_Bitrate v] @ o2)"
    using Cons.prems 1(1) by (auto split: bind_splits)
  have "snd_quiet s sd (s1, sd1, [Change_Bitrate v])" using 1(2,3) by (simp add: snd_quiet_def kept_def net_like_def)
  then show ?case unfolding 2(2) using Cons.IH [OF 2(1)] by (rule snd_quiet_trans)
qed

lemma update_base_active: "sim_sender_update_base sd b = Some sd' \<Longrightarrow> sd_actived sd' = sd_actived sd"
  by (auto simp: sim_sender_update_base_def Let_def split: bind_splits if_splits)

lemma resend_active: "resend_packets w now base ns sd = Some sd' \<Longrightarrow> sd_actived sd' = sd_actived sd"
proof (induction ns arbitrary: w sd)
  case (Cons n ns)
  then obtain s1 where s1: "resend_packet now (sys_ms w 1) sd (base + ucast n) = Some s1" "resend_packets (after 1 w) now base ns s1 = Some sd'"
    by (auto split: bind_splits)
  have "sd_actived s1 = sd_actived sd"
    using s1(1) by (auto simp: resend_packet_def Let_def split: option.splits bind_splits if_splits prod.splits)
  then show ?case using Cons.IH [OF s1(2)] by simp
qed simp

lemma put_segments_active: "put_segments w e pt ft ts c i sp bs sd = Some sd' \<Longrightarrow> sd_actived sd' = sd_actived sd"
proof (induction sp arbitrary: w i bs sd)
  case (Cons n sp)
  show ?case
    using Cons.prems by (auto simp: Let_def split: if_splits prod.splits dest!: Cons.IH)
qed simp

lemma sender_quiet:
  "sim_sender_put w s sd pt ft bs = Some sd' \<Longrightarrow> sd_actived sd' = sd_actived sd"
  "sim_sender_ack w sd ack = Some (sd', ret) \<Longrightarrow> sd_actived sd' = sd_actived sd"
  "sim_sender_feedback w s sd fb = Some r \<Longrightarrow> snd_quiet s sd r"
  "sim_sender_set_bitrates w s sd mn st mx = Some r \<Longrightarrow> snd_quiet s sd r"
  "sim_sender_timer w s sd = Some r \<Longrightarrow> snd_quiet s sd r"
proof -
  show "sim_sender_put w s sd pt ft bs = Some sd' \<Longrightarrow> sd_actived sd' = sd_actived sd"
    by (auto simp: sim_sender_put_def Let_def split: if_splits dest!: put_segments_active)
  show "sim_sender_ack w sd ack = Some (sd', ret) \<Longrightarrow> sd_actived sd' = sd_actived sd"
    by (auto simp: sim_sender_ack_def split: if_splits bind_splits dest!: update_base_active resend_active)
  show "sim_sender_feedback w s sd fb = Some r \<Longrightarrow> snd_quiet s sd r"
    by (auto simp: sim_sender_feedback_def snd_quiet_def split: if_splits bind_splits dest!: update_base_active change_bitrates_quiet)
  show "sim_sender_set_bitrates w s sd mn st mx = Some r \<Longrightarrow> snd_quiet s sd r"
    by (auto simp: sim_sender_set_bitrates_def snd_quiet_def split: prod.splits dest!: change_bitrates_quiet)
  assume "sim_sender_timer w s sd = Some r"
  then obtain cc calls ns s1 sd1 o1 s2 sd2 o2 where t: "send_packets (after 2 w) s (sd\<lparr>sd_cc := cc\<rparr>) calls = Some (s1, sd1, o1)"
      "change_bitrates s1 sd1 ns = Some (s2, sd2, o2)" "r = (s2, sd2, o1 @ o2)"
    by (auto simp: sim_sender_timer_def split: bind_splits)
  have "snd_quiet s sd (s1, sd1, o1)" using send_packets_quiet [OF t(1)] by (simp add: snd_quiet_def)
  then show "snd_quiet s sd r" unfolding t(3) using change_bitrates_quiet [OF t(2)] by (rule snd_quiet_trans)
qed

text \<open>A receiver stays active.\<close>

definition rcv_quiet :: "sim_session \<Rightarrow> sim_receiver \<Rightarrow> sim_session \<times> sim_receiver \<times> sim_out list \<Rightarrow> bool" where
  "rcv_quiet s r x \<longleftrightarrow> (case x of (s', r', out) \<Rightarrow> kept s s' \<and> rv_actived r' = rv_actived r \<and> (\<forall>k v. Notify k v \<notin> set out))"

lemma real_ack_quiet: "video_real_ack t s r hb q = Some x \<Longrightarrow> rcv_quiet s r x"
  by (auto simp: video_real_ack_def rcv_quiet_def Let_def ack_build_def ack_advance_def sim_receiver_send_ack_def
      split: if_splits bind_splits dest: net_send_kept net_send_quiet)

lemma receiver_quiet:
  "sim_receiver_put w s r g = Some (s', r', out, ret) \<Longrightarrow> rcv_quiet s r (s', r', out)"
  "sim_receiver_timer w s r t = Some x \<Longrightarrow> rcv_quiet s r x"
  "sim_receiver_get w r cap = Some (r', p) \<Longrightarrow> rv_actived r' = rv_actived r"
proof -
  have n: "receiver_cc_note t r g = Some r' \<Longrightarrow> rv_actived r' = rv_actived r" for t r'
    by (auto simp: receiver_cc_note_def)
  have u: "sim_receiver_update_loss t s r q = Some r' \<Longrightarrow> rv_actived r' = rv_actived r" for t s r q r'
    by (auto simp: sim_receiver_update_loss_def split: bind_splits)
  have f: "rv_actived (receiver_first_seq r g) = rv_actived r" for r by (simp add: receiver_first_seq_def)
  show "sim_receiver_put w s r g = Some (s', r', out, ret) \<Longrightarrow> rcv_quiet s r (s', r', out)"
    by (auto simp: sim_receiver_put_def rcv_quiet_def Let_def f split: bind_splits if_splits dest!: n u real_ack_quiet)
  show "sim_receiver_get w r cap = Some (r', p) \<Longrightarrow> rv_actived r' = rv_actived r"
    by (auto simp: sim_receiver_get_def split: if_splits)
  assume "sim_receiver_timer w s r t = Some x"
  then obtain s1 r1 o1 e cc d s2 o2 where x: "video_real_ack (sys_ms w 0) s r 1 0 = Some (s1, r1, o1)"
      "(case d of None \<Rightarrow> Some (s1\<lparr>n_env := e\<rparr>, []) | Some payload \<Rightarrow> send_sim_feedback (s1\<lparr>n_env := e\<rparr>) ((receiver_lower_wait w s1 r1 t)\<lparr>rv_cc := cc\<rparr>) payload)
        = Some (s2, o2)" "x = (s2, (receiver_lower_wait w s1 r1 t)\<lparr>rv_cc := cc\<rparr>, o1 @ o2)"
    by (auto simp: sim_receiver_timer_def Let_def split: bind_splits)
  have "kept (s1\<lparr>n_env := e\<rparr>) s2 \<and> (\<forall>k v. Notify k v \<notin> set o2)"
    using x(2) by (auto simp: send_sim_feedback_def split: option.splits if_splits dest: net_send_kept net_send_quiet)
  then show "rcv_quiet s r x"
    using real_ack_quiet [OF x(1)] by (auto simp: x(3) rcv_quiet_def kept_def receiver_lower_wait_def Let_def)
qed

subsection \<open>The states of a session\<close>

fun may_become :: "session_state \<Rightarrow> session_state \<Rightarrow> bool" where
  "may_become session_idle b = (b = session_idle \<or> b = session_connecting)"
| "may_become session_connecting b = True"
| "may_become session_connected b = (b \<noteq> session_connecting)"
| "may_become session_disconnected b = (b = session_disconnected \<or> b = session_idle)"

lemma may_become_refl [simp]: "may_become a a" "may_become a session_idle"
  by (cases a; simp)+

definition session_inv :: "sim_session \<Rightarrow> bool" where
  "session_inv s \<longleftrightarrow> (s_state s = session_idle \<or> s_state s = session_connecting \<longrightarrow> s_sender s = None)
     \<and> (s_state s = session_connected \<longrightarrow> s_sender s \<noteq> None)
     \<and> pred_option (\<lambda>sd. sd_actived sd = 1) (s_sender s) \<and> pred_option (\<lambda>r. rv_actived r = 1) (s_receiver s)
     \<and> 10 \<le> n_rtt s \<and> 5 \<le> n_rtt_var s \<and> 0 \<le> s_resend s"

text \<open>The application is told of a connection, or of its failure, exactly when the session stops connecting.\<close>

definition moves :: "sim_session \<Rightarrow> sim_session \<Rightarrow> sim_out list \<Rightarrow> bool" where
  "moves s s' out \<longleftrightarrow> session_inv s' \<and> may_become (s_state s) (s_state s')
     \<and> (\<forall>v. Notify sim_connect_notify v \<in> set out \<longrightarrow> s_state s = session_connecting
          \<and> s_state s' = (if v = 0 then session_connected else session_idle))
     \<and> (s_state s = session_connecting \<and> s_state s' = session_connected \<longrightarrow> Notify sim_connect_notify 0 \<in> set out)"

text \<open>A step within a state.\<close>

lemma moves_same:
  "session_inv s' \<Longrightarrow> s_state s' = s_state s \<Longrightarrow> \<forall>v. Notify sim_connect_notify v \<notin> set out \<Longrightarrow> moves s s' out"
  by (simp add: moves_def)

lemma kept_inv: "kept s s' \<Longrightarrow> session_inv s \<Longrightarrow> session_inv s'"
  by (simp add: session_inv_def kept_fields)

lemma reset_result:
  assumes "sim_session_reset w s = Some s'"
  shows "s_state s' = session_idle" "s_sender s' = None" "s_receiver s' = None" "session_inv s'"
  using assms by (auto simp: sim_session_reset_def session_inv_def split: bind_splits)

lemma send_connect_moves:
  assumes "session_inv s" and "sim_session_send_connect s t = Some (s', out)"
  shows "session_inv s' \<and> s_state s' = s_state s \<and> (\<forall>k v. Notify k v \<notin> set out)"
proof -
  obtain s1 where s1: "net_send_msg s (INIT_SIM_HEADER SIM_CONNECT (n_uid s))
       (Connect_Body ((new_connect (n_env s))\<lparr>con_cid := s_cid s, token_size := 0\<rparr>)) = Some (s1, out)"
      "s' = s1\<lparr>commad_ts := t, s_resend := s_resend s1 + 1\<rparr>"
    using assms(2) by (auto simp: sim_session_send_connect_def split: bind_splits)
  have "kept s s1" using net_send_kept [OF s1(1)] by blast
  from kept_inv [OF this assms(1)] kept_fields(1) [OF this] net_send_quiet [OF s1(1)] show ?thesis
    by (simp add: s1(2) session_inv_def)
qed

lemma send_disconnect_moves:
  assumes "session_inv s" and "sim_session_send_disconnect s t = Some (s', out)"
  shows "session_inv s' \<and> s_state s' = s_state s \<and> (\<forall>k v. Notify k v \<notin> set out)"
proof -
  obtain s1 where s1: "net_send_msg s (INIT_SIM_HEADER SIM_DISCONNECT (n_uid s)) (Disconnect_Body \<lparr>dis_cid = s_cid s\<rparr>) = Some (s1, out)"
      "s' = s1\<lparr>commad_ts := t, s_resend := s_resend s1 + 1\<rparr>"
    using assms(2) by (auto simp: sim_session_send_disconnect_def split: bind_splits)
  have "kept s s1" using net_send_kept [OF s1(1)] by blast
  from kept_inv [OF this assms(1)] kept_fields(1) [OF this] net_send_quiet [OF s1(1)] show ?thesis
    by (simp add: s1(2) session_inv_def)
qed

lemma send_ping_moves:
  assumes "session_inv s" and "sim_session_send_ping s t = Some (s', out)"
  shows "session_inv s' \<and> s_state s' = s_state s \<and> (\<forall>v. Notify sim_connect_notify v \<notin> set out)"
proof -
  obtain s1 out1 where s1: "net_send_msg s (INIT_SIM_HEADER SIM_PING (n_uid s)) (Ping_Body \<lparr>ping_ts = t\<rparr>) = Some (s1, out1)"
      "(if 12 < s_resend s1 + 1 then (s1\<lparr>commad_ts := t, s_resend := s_resend s1 + 1, s_interrupt := net_interrupt\<rparr>, out1 @ [Notify net_interrupt_notify 0])
        else (s1\<lparr>commad_ts := t, s_resend := s_resend s1 + 1\<rparr>, out1)) = (s', out)"
    using assms(2) by (auto simp: sim_session_send_ping_def Let_def split: bind_splits)
  have "kept s s1" using net_send_kept [OF s1(1)] by blast
  from kept_inv [OF this assms(1)] kept_fields(1) [OF this] net_send_quiet [OF s1(1)] s1(2) show ?thesis
    by (auto simp: session_inv_def split: if_splits)
qed

lemma stats_moves:
  assumes "session_inv s" and "session_stats w s t = Some (s', out)"
  shows "session_inv s' \<and> s_state s' = s_state s \<and> s_sender s' = s_sender s \<and> s_receiver s' = s_receiver s
    \<and> commad_ts s' = commad_ts s \<and> s_resend s' = s_resend s \<and> (\<forall>k v. Notify k v \<notin> set out)"
  using assms by (auto simp: session_stats_def session_inv_def Let_def split: if_splits)

text \<open>The timer sends again, or gives up: then the session is idle and has neither sender nor receiver.\<close>

lemma state_timer_moves:
  assumes "session_inv s" and "sim_session_state_timer w s t fn k tick = Some (s', out)"
    and fn: "\<And>s s' out. session_inv s \<Longrightarrow> fn s t = Some (s', out) \<Longrightarrow> session_inv s' \<and> s_state s' = s_state s \<and> (\<forall>v. Notify sim_connect_notify v \<notin> set out)"
  shows "session_inv s' \<and> (s_state s' = s_state s \<and> (\<forall>v. Notify sim_connect_notify v \<notin> set out)
    \<or> s_state s' = session_idle \<and> s_sender s' = None \<and> s_receiver s' = None
      \<and> (\<forall>v. Notify sim_connect_notify v \<in> set out \<longrightarrow> k = sim_connect_notify \<and> v = 1))"
proof -
  obtain s1 o1 where s1: "session_stats w s t = Some (s1, o1)"
      "(if commad_ts s1 + tick < t
      then if s_resend s1 * tick < 10000
        then map_option (\<lambda>(s, out'). (s, o1 @ out')) (fn s1 t)
        else do {
          s \<leftarrow> sim_session_reset (after 1 w) s1;
          Some (s, o1 @ (case s_receiver s1 of None \<Rightarrow> [] | Some r \<Rightarrow> [Notify sim_stop_play_notify (rv_base_uid r)]) @ [Notify k 1])
        }
      else Some (s1, o1)) = Some (s', out)"
    using assms(2) unfolding sim_session_state_timer_def Let_def by (auto split: bind_splits)
  note st = stats_moves [OF assms(1) s1(1)]
  show ?thesis
    using s1(2) st fn [of s1] reset_result by (auto split: if_splits bind_splits option.splits)
qed

lemma heartbeat_receiver_moves:
  assumes "session_inv s" and "heartbeat_receiver w s t = Some (s', out)"
  shows "session_inv s' \<and> s_state s' = s_state s \<and> (\<forall>k v. Notify k v \<notin> set out)"
proof (cases "s_receiver s")
  case (Some r)
  then obtain s1 r1 where r: "sim_receiver_timer w s r t = Some (s1, r1, out)" "s' = s1\<lparr>s_receiver := Some r1\<rparr>"
    using assms(2) by (auto simp: heartbeat_receiver_def split: bind_splits)
  note q = receiver_quiet(2) [OF r(1), unfolded rcv_quiet_def prod.case]
  have "session_inv s1" using q kept_inv assms(1) by blast
  then show ?thesis
    using q Some assms(1) by (auto simp: r(2) session_inv_def kept_fields)
qed (use assms in \<open>auto simp: heartbeat_receiver_def\<close>)

lemma heartbeat_state_moves:
  assumes "session_inv s" and "heartbeat_state w s t = Some (s', out)"
  shows "session_inv s' \<and> (s_state s' = s_state s \<and> (\<forall>v. Notify sim_connect_notify v \<notin> set out)
    \<or> s_state s' = session_idle \<and> s_sender s' = None \<and> s_receiver s' = None
      \<and> (\<forall>v. Notify sim_connect_notify v \<in> set out \<longrightarrow> s_state s = session_connecting \<and> v = 1))"
proof (cases "s_state s")
  case session_connecting
  have f: "session_inv s' \<and> s_state s' = s_state s \<and> (\<forall>v. Notify sim_connect_notify v \<notin> set out)"
    if "session_inv s" "sim_session_send_connect s t = Some (s', out)" for s s' out
    using send_connect_moves [OF that] by blast
  show ?thesis
    using state_timer_moves [OF assms(1) assms(2) [unfolded heartbeat_state_def session_connecting session_state.case] f] session_connecting by auto
next
  case session_disconnected
  have f: "session_inv s' \<and> s_state s' = s_state s \<and> (\<forall>v. Notify sim_connect_notify v \<notin> set out)"
    if "session_inv s" "sim_session_send_disconnect s t = Some (s', out)" for s s' out
    using send_disconnect_moves [OF that] by blast
  show ?thesis
    using state_timer_moves [OF assms(1) assms(2) [unfolded heartbeat_state_def session_disconnected session_state.case] f] by auto
next
  case session_connected
  show ?thesis
  proof (cases "s_sender s")
    case (Some sd)
    then obtain s1 sd1 where d: "sim_sender_timer w s sd = Some (s1, sd1, out)" "s' = s1\<lparr>s_sender := Some sd1\<rparr>"
      using assms(2) session_connected by (auto simp: heartbeat_state_def split: bind_splits)
    note q = sender_quiet(5) [OF d(1), unfolded snd_quiet_def prod.case]
    have "session_inv s1" using q kept_inv assms(1) by blast
    then show ?thesis
      using q Some assms(1) session_connected by (auto simp: d(2) session_inv_def kept_fields)
  qed (use assms session_connected in \<open>auto simp: heartbeat_state_def\<close>)
qed (use assms in \<open>auto simp: heartbeat_state_def\<close>)

lemma heartbeat_moves:
  assumes "session_inv s" and "sim_session_heartbeat w w' s t = Some (s', out)"
  shows "moves s s' out"
proof -
  obtain s1 o1 s2 o2 o3 where h: "heartbeat_receiver w s t = Some (s1, o1)" "heartbeat_state (after 3 w) s1 t = Some (s2, o2)"
      "(if s_sender s2 \<noteq> None \<or> s_receiver s2 \<noteq> None
       then sim_session_state_timer w' s2 t sim_session_send_ping sim_network_timout (TICK_DELAY_MS div 4) else Some (s2, [])) = Some (s', o3)"
      "out = o1 @ o2 @ o3"
    using assms(2) by (auto simp: sim_session_heartbeat_def split: bind_splits)
  note 1 = heartbeat_receiver_moves [OF assms(1) h(1)]
  note 2 = heartbeat_state_moves [OF conjunct1 [OF 1] h(2)]
  have 3: "session_inv s' \<and> (\<forall>v. Notify sim_connect_notify v \<notin> set o3) \<and> (s_state s' = s_state s2 \<or> s_state s' = session_idle)"
  proof (cases "s_sender s2 \<noteq> None \<or> s_receiver s2 \<noteq> None")
    case True
    then have r: "sim_session_state_timer w' s2 t sim_session_send_ping sim_network_timout (TICK_DELAY_MS div 4) = Some (s', o3)"
      using h(3) by (simp only: if_True)
    have f: "session_inv s' \<and> s_state s' = s_state s \<and> (\<forall>v. Notify sim_connect_notify v \<notin> set out)"
      if "session_inv s" "sim_session_send_ping s t = Some (s', out)" for s s' out
      using send_ping_moves [OF that] .
    show ?thesis using state_timer_moves [OF conjunct1 [OF 2] r f] by auto
  next
    case False
    then show ?thesis using h(3) 2 by auto
  qed
  show ?thesis
  proof (cases "s_state s2 = s_state s1 \<and> (\<forall>v. Notify sim_connect_notify v \<notin> set o2)")
    case True
    then show ?thesis using 1 3 by (auto simp: moves_def h(4))
  next
    case False
    then have i: "s_state s2 = session_idle" "s_sender s2 = None" "s_receiver s2 = None"
        "\<forall>v. Notify sim_connect_notify v \<in> set o2 \<longrightarrow> s_state s1 = session_connecting \<and> v = 1"
      using 2 by auto
    then have "s' = s2" "o3 = []" using h(3) by auto
    then show ?thesis using 1 2 i by (auto simp: moves_def h(4))
  qed
qed

lemma connect_ack_moves:
  assumes "session_inv s" and "process_sim_connect_ack w s h strm = Some (s', out)"
  shows "moves s s' out"
proof -
  obtain strm' ret b where d: "sim_decode_msg (n_env s) strm h (Connect_Ack_Body \<lparr>cack_cid = 0, cack_result = 0\<rparr>) = Some (strm', ret, Connect_Ack_Body b)"
      "(if ret \<noteq> 0 \<or> s_state s \<noteq> session_connecting then Some (s, [])
       else do {
         (s, out) \<leftarrow> (if cack_result b \<noteq> 0 then map_option (\<lambda>s. (s, [])) (sim_session_reset w s) else session_start_sender w s);
         Some (s, out @ [Notify sim_connect_notify (cack_result b)])
       }) = Some (s', out)"
    using assms(2) by (auto simp: process_sim_connect_ack_def split: bind_splits sim_body.splits)
  show ?thesis
  proof (cases "ret \<noteq> 0 \<or> s_state s \<noteq> session_connecting")
    case True
    then show ?thesis using d(2) assms(1) by (auto intro!: moves_same)
  next
    case False
    then have conn: "s_state s = session_connecting" by simp
    show ?thesis
    proof (cases "cack_result b = 0")
      case False
      then obtain s1 where "sim_session_reset w s = Some s1" "s' = s1" "out = [Notify sim_connect_notify (cack_result b)]"
        using d(2) \<open>\<not> (ret \<noteq> 0 \<or> s_state s \<noteq> session_connecting)\<close> by (auto split: bind_splits)
      then show ?thesis using reset_result [of w s s1] conn False by (simp add: moves_def)
    next
      case True
      define s0 where "s0 = s\<lparr>s_state := session_connected\<rparr>"
      have none: "s_sender s0 = None" using assms(1) conn by (simp add: session_inv_def s0_def)
      obtain sa sd where c: "sim_sender_create w s0 = (sa, sd)" by force
      have sa: "\<exists>e. sa = s0\<lparr>n_env := e\<rparr>" using c by (auto simp: sim_sender_create_def split: prod.splits)
      obtain s1 sd1 o1 where b: "sim_sender_set_bitrates (after 3 w) (sa\<lparr>s_interrupt := net_recover\<rparr>) (fst (sim_sender_active sd))
            (word_of_int (ss_min_bitrate sa)) (word_of_int (ss_start_bitrate sa)) (word_of_int (ss_max_bitrate sa)) = Some (s1, sd1, o1)"
          "s' = s1\<lparr>s_sender := Some sd1\<rparr>" "out = o1 @ [Notify sim_connect_notify 0]"
        using d(2) False True none c by (auto simp: session_start_sender_def Let_def s0_def [symmetric] split: bind_splits)
      note q = sender_quiet(4) [OF b(1), unfolded snd_quiet_def prod.case]
      have "sd_actived (fst (sim_sender_active sd)) = 1" by (simp add: sim_sender_active_def)
      then show ?thesis
        using q assms(1) conn sa by (auto simp: moves_def session_inv_def b(2,3) kept_fields s0_def)
    qed
  qed
qed

lemma connect_moves:
  assumes "session_inv s" and "process_sim_connect w s h strm = Some (s', out)"
  shows "moves s s' out"
proof -
  obtain strm' ret b where d: "sim_decode_msg (n_env s) strm h (Connect_Body (new_connect (n_env s))) = Some (strm', ret, Connect_Body b)"
      "(if ret \<noteq> 0 then Some (s, [])
       else do {
         (r, out) \<leftarrow> (case s_receiver s of None \<Rightarrow> Some (sim_receiver_create w s, [Notify sim_start_play_notify (h_uid h)])
           | Some r \<Rightarrow> map_option (\<lambda>r. (r, [])) (sim_receiver_reset w s r));
         (s, out') \<leftarrow> net_send_msg (s\<lparr>s_receiver := Some (fst (sim_receiver_active (after 2 w) r (h_uid h)))\<rparr>)
           (INIT_SIM_HEADER SIM_CONNECT_ACK (n_uid s)) (Connect_Ack_Body \<lparr>cack_cid = con_cid b, cack_result = 0\<rparr>);
         Some (s\<lparr>commad_ts := sys_ms w 3, s_resend := 0\<rparr>, out @ out')
       }) = Some (s', out)"
    using assms(2) unfolding process_sim_connect_def Let_def by (auto split: bind_splits sim_body.splits)
  show ?thesis
  proof (cases "ret = 0")
    case True
    then obtain r o1 s1 o2 where x: "(case s_receiver s of None \<Rightarrow> Some (sim_receiver_create w s, [Notify sim_start_play_notify (h_uid h)])
           | Some r \<Rightarrow> map_option (\<lambda>r. (r, [])) (sim_receiver_reset w s r)) = Some (r, o1)"
        "net_send_msg (s\<lparr>s_receiver := Some (fst (sim_receiver_active (after 2 w) r (h_uid h)))\<rparr>)
           (INIT_SIM_HEADER SIM_CONNECT_ACK (n_uid s)) (Connect_Ack_Body \<lparr>cack_cid = con_cid b, cack_result = 0\<rparr>) = Some (s1, o2)"
        "s' = s1\<lparr>commad_ts := sys_ms w 3, s_resend := 0\<rparr>" "out = o1 @ o2"
      using d(2) by (auto split: bind_splits)
    have k: "kept (s\<lparr>s_receiver := Some (fst (sim_receiver_active (after 2 w) r (h_uid h)))\<rparr>) s1" using net_send_kept [OF x(2)] by blast
    have "rv_actived (fst (sim_receiver_active (after 2 w) r (h_uid h))) = 1" by (simp add: sim_receiver_active_def)
    moreover have "Notify sim_connect_notify v \<notin> set o1" for v using x(1) by (auto split: option.splits)
    ultimately show ?thesis
      using kept_fields [OF k] assms(1) net_send_quiet [OF x(2)] by (auto simp: x(3,4) session_inv_def intro!: moves_same)
  qed (use d(2) assms(1) in \<open>auto intro!: moves_same\<close>)
qed

lemma other_messages_move:
  assumes "session_inv s"
  shows "process_sim_disconnect s h strm = Some (s', out) \<Longrightarrow> moves s s' out"
    and "process_sim_disconnect_ack w s = Some (s', out) \<Longrightarrow> moves s s' out"
    and "process_sim_ping s h strm = Some (s', out) \<Longrightarrow> moves s s' out"
    and "process_sim_seg w s h strm = Some (s', out) \<Longrightarrow> moves s s' out"
    and "process_sim_seg_ack w s h strm = Some (s', out) \<Longrightarrow> moves s s' out"
    and "process_sim_feedback w s h strm = Some (s', out) \<Longrightarrow> moves s s' out"
proof -
  have net: "moves s (f s1) (oa @ ob)" if "net_send_msg s g b = Some (s1, oa)" "f s1 = s1 \<or> f s1 = s1\<lparr>s_receiver := None\<rparr>"
      "\<forall>v. Notify sim_connect_notify v \<notin> set ob" for g b s1 oa ob and f :: "sim_session \<Rightarrow> sim_session"
  proof -
    have k: "kept s s1" using net_send_kept [OF that(1)] by blast
    show ?thesis
      using kept_inv [OF k assms] kept_fields [OF k] that(2,3) net_send_quiet [OF that(1)] by (auto simp: session_inv_def intro!: moves_same)
  qed
  show "moves s s' out" if "process_sim_ping s h strm = Some (s', out)"
    using that net [where f = "\<lambda>x. x" and ob = "[]"] by (auto simp: process_sim_ping_def split: bind_splits)
  show "moves s s' out" if "process_sim_disconnect s h strm = Some (s', out)"
    using that net [where f = "\<lambda>x. x" and ob = "[]"] net [where f = "\<lambda>x. x\<lparr>s_receiver := None\<rparr>" and ob = "[Notify sim_stop_play_notify _]"] moves_same [OF assms refl, of "[]"]
    by (auto simp: process_sim_disconnect_def split: bind_splits sim_body.splits if_splits option.splits)
  show "moves s s' out" if "process_sim_disconnect_ack w s = Some (s', out)"
    using that reset_result [of w s] assms by (auto simp: process_sim_disconnect_ack_def moves_def split: if_splits)
  show "moves s s' out" if p: "process_sim_seg w s h strm = Some (s', out)"
  proof (cases "s_receiver s")
    case (Some r)
    then consider "s' = s" "out = []" | g s1 r1 ret where "sim_receiver_put w s r g = Some (s1, r1, out, ret)" "s' = s1\<lparr>s_receiver := Some r1\<rparr>"
      using p by (auto simp: process_sim_seg_def split: bind_splits sim_body.splits if_splits)
    then show ?thesis
    proof cases
      case 2
      note q = receiver_quiet(1) [OF 2(1), unfolded rcv_quiet_def prod.case]
      then show ?thesis
        using kept_fields [of s s1] assms Some by (auto simp: 2(2) session_inv_def intro!: moves_same)
    qed (use assms in \<open>auto intro!: moves_same\<close>)
  qed (use p assms in \<open>auto simp: process_sim_seg_def intro!: moves_same\<close>)
  show "moves s s' out" if "process_sim_seg_ack w s h strm = Some (s', out)"
    using that assms by (auto simp: process_sim_seg_ack_def session_inv_def split: bind_splits sim_body.splits if_splits option.splits
        dest!: sender_quiet(2) intro!: moves_same)
  show "moves s s' out" if p: "process_sim_feedback w s h strm = Some (s', out)"
  proof -
    consider "s' = s" "out = []" | sd fb s1 sd1 where "s_sender s = Some sd" "sim_sender_feedback w s sd fb = Some (s1, sd1, out)" "s' = s1\<lparr>s_sender := Some sd1\<rparr>"
      using p by (auto simp: process_sim_feedback_def split: bind_splits sim_body.splits if_splits option.splits)
    then show ?thesis
    proof cases
      case 2
      note q = sender_quiet(3) [OF 2(2), unfolded snd_quiet_def prod.case]
      then show ?thesis
        using kept_fields [of s s1] assms 2(1) by (auto simp: 2(3) session_inv_def intro!: moves_same)
    qed (use assms in \<open>auto intro!: moves_same\<close>)
  qed
qed

lemma pong_moves:
  assumes "session_inv s" and "process_sim_pong w s h strm = Some (s', out)"
  shows "moves s s' out"
proof -
  have r: "10 \<le> rtt_next a b" "10 \<le> rtt_var_next a b c" for a b c by (simp_all add: rtt_next_def rtt_var_next_def Let_def not_less)
  have "(5 :: u32) \<le> 10" by simp
  then have r': "5 \<le> rtt_var_next a b c" for a b c using r(2) order_trans by blast
  obtain k where "s' = sim_session_calculate_rtt s k" "out = []"
    using assms(2) by (auto simp: process_sim_pong_def split: bind_splits sim_body.splits)
  then show ?thesis
    using assms(1) r(1) r'
    by (intro moves_same) (auto simp: sim_session_calculate_rtt_def Let_def session_inv_def option.pred_set sim_sender_update_rtt_def
        sim_receiver_update_rtt_def)
qed

lemma message_moves:
  assumes "session_inv s" and "process_message w s h strm = Some (s', out)"
  shows "moves s s' out"
  using assms(2) other_messages_move [OF assms(1)] pong_moves [OF assms(1)] connect_moves [OF assms(1)] connect_ack_moves [OF assms(1)]
    moves_same [OF assms(1) refl, of "[]"]
  by (auto simp: process_message_def Let_def split: if_splits)

lemma moves_pre:
  assumes "session_inv s1" and "s_state s1 = s_state s" and "moves s1 s' out" and "\<forall>v. Notify sim_connect_notify v \<notin> set o1"
  shows "moves s s' (o1 @ out)"
  using assms by (auto simp: moves_def)

lemma process_moves:
  assumes "session_inv s" and "sim_session_process w s strm addr = Some (s', out)"
  shows "moves s s' out"
proof -
  obtain strm' ret h where d: "sim_decode_header (n_env s) strm \<lparr>h_ver = 0, h_mid = 0, h_uid = 0\<rparr> = Some (strm', ret, h)"
    using assms(2) by (auto simp: sim_session_process_def split: bind_splits)
  show ?thesis
  proof (cases "ret \<noteq> 0 \<or> h_mid h < MIN_MSG_ID \<or> MAX_MSG_ID < h_mid h")
    case True
    then show ?thesis using assms d by (auto simp: sim_session_process_def intro!: moves_same)
  next
    case False
    define s1 where "s1 = (if s_interrupt s = net_interrupt then s\<lparr>n_peer := addr, s_interrupt := net_recover\<rparr> else s\<lparr>n_peer := addr\<rparr>)\<lparr>s_resend := 0\<rparr>"
    define o1 where "o1 = (if s_interrupt s = net_interrupt then [Notify net_recover_notify 0] else [])"
    obtain o2 where r: "process_message w s1 h strm' = Some (s', o2)" "out = o1 @ o2"
      using assms(2) d False by (auto simp: sim_session_process_def Let_def s1_def o1_def split: bind_splits if_splits)
    have s1: "session_inv s1" "s_state s1 = s_state s" using assms(1) by (simp_all add: s1_def session_inv_def)
    have "\<forall>v. Notify sim_connect_notify v \<notin> set o1" by (simp add: o1_def)
    then show ?thesis
      unfolding r(2) by (rule moves_pre [OF s1 message_moves [OF s1(1) r(1)]])
  qed
qed

subsection \<open>Steps\<close>

text \<open>A call of the application, a datagram or a timer call; each holds the mutex.\<close>

inductive session_step :: "sim_session \<Rightarrow> sim_out list \<Rightarrow> sim_session \<Rightarrow> bool" where
  Connect: "sim_session_connect w s uid ip port = Some (s', out, ret) \<Longrightarrow> session_step s out s'"
| Disconnect: "sim_session_disconnect w s = Some (s', out, ret) \<Longrightarrow> session_step s out s'"
| Send_Video: "sim_session_send_video w s pt ft bs = Some (s', ret) \<Longrightarrow> session_step s [] s'"
| Recv_Video: "sim_session_recv_video w s cap = Some (s', p) \<Longrightarrow> session_step s [] s'"
| Set_Bitrates: "sim_session_set_bitrates w s mn st mx = Some (s', out) \<Longrightarrow> session_step s out s'"
| Datagram: "sim_session_process w (s\<lparr>rbandwidth := rbandwidth s + n, rcount := rcount s + 1\<rparr>) strm addr = Some (s', out) \<Longrightarrow> session_step s out s'"
| Heartbeat: "sim_session_heartbeat w w' s t = Some (s', out) \<Longrightarrow> session_step s out s'"

inductive session_reach :: "sim_session \<Rightarrow> sim_out list \<Rightarrow> bool" where
  reach_start: "sim_session_create w e sock cb = Some s \<Longrightarrow> session_reach s []"
| reach_step: "session_reach s out \<Longrightarrow> session_step s out' s' \<Longrightarrow> session_reach s' (out @ out')"

text \<open>A turn of the loop is a datagram, if one came, and a timer call, if it is time.\<close>

lemma loop_turn_steps:
  assumes "sim_session_loop_step w w' w'' s rs t recv now = Some (s', rs', t', out)"
  shows "\<exists>s1 o1 o2. out = o1 @ o2 \<and> (s1 = s \<and> o1 = [] \<or> session_step s o1 s1) \<and> (s' = s1 \<and> o2 = [] \<or> session_step s1 o2 s')"
proof -
  obtain s1 rs1 o1 where r: "(case recv of None \<Rightarrow> Some (s, bin_stream_rewind rs 1, []) | Some (addr, d) \<Rightarrow> session_receive w s rs addr d)
        = Some (s1, rs1, o1)"
      "(if t + 5 \<le> now then map_option (\<lambda>(s, out'). (s, rs1, now, o1 @ out')) (sim_session_heartbeat w' w'' s1 now) else Some (s1, rs1, t, o1))
        = Some (s', rs', t', out)"
    using assms unfolding sim_session_loop_step_def by (auto split: bind_splits)
  have "s1 = s \<and> o1 = [] \<or> session_step s o1 s1"
    using r(1) by (auto simp: session_receive_def split: option.splits bind_splits if_splits intro: Datagram)
  moreover have "\<exists>o2. out = o1 @ o2 \<and> (s' = s1 \<and> o2 = [] \<or> session_step s1 o2 s')"
    using r(2) by (auto split: if_splits intro: Heartbeat)
  ultimately show ?thesis by blast
qed

lemma session_step_moves:
  assumes "session_step s out s'" and "session_inv s"
  shows "moves s s' out"
  using assms
proof cases
  case (Connect w uid ip port ret)
  show ?thesis
  proof (cases "s_state s = session_idle")
    case True
    define s0 where "s0 = s\<lparr>n_peer := (ip, port), n_uid := uid, s_state := session_connecting, s_resend := 0\<rparr>"
    have "session_inv s0" using assms(2) True by (simp add: session_inv_def s0_def)
    moreover have "sim_session_send_connect s0 (sys_ms w 0) = Some (s', out)"
      using Connect(1) True by (auto simp: sim_session_connect_def s0_def)
    ultimately show ?thesis using send_connect_moves [of s0 "sys_ms w 0" s' out] True by (simp add: moves_def s0_def)
  next
    case False
    then show ?thesis using Connect(1) assms(2) by (auto simp: sim_session_connect_def intro!: moves_same)
  qed
next
  case (Disconnect w ret)
  show ?thesis
  proof (cases "s_state s = session_idle \<or> s_state s = session_disconnected")
    case False
    define s0 where "s0 = s\<lparr>s_resend := 0, commad_ts := sys_ms w 0, s_state := session_disconnected\<rparr>"
    have "session_inv s0" using assms(2) by (simp add: session_inv_def s0_def)
    moreover have "sim_session_send_disconnect s0 (sys_ms w 0) = Some (s', out)"
      using Disconnect(1) False by (auto simp: sim_session_disconnect_def s0_def)
    moreover have "may_become (s_state s) session_disconnected" using False by (cases "s_state s") auto
    ultimately show ?thesis using send_disconnect_moves [of s0 "sys_ms w 0" s' out] by (simp add: moves_def s0_def)
  next
    case True
    then show ?thesis using Disconnect(1) assms(2) by (auto simp: sim_session_disconnect_def intro!: moves_same)
  qed
next
  case (Send_Video w pt ft bs ret)
  then show ?thesis
    using assms(2) by (intro moves_same)
      (auto simp: sim_session_send_video_def session_inv_def Let_def split: if_splits bind_splits option.splits dest!: sender_quiet(1))
next
  case (Recv_Video w cap p)
  then show ?thesis
    using assms(2) by (intro moves_same)
      (auto simp: sim_session_recv_video_def session_inv_def split: option.splits dest!: receiver_quiet(3))
next
  case (Set_Bitrates w mn st mx)
  obtain a b c where s0: "(case s_sender s of None \<Rightarrow> Some (s\<lparr>ss_min_bitrate := a, ss_max_bitrate := b, ss_start_bitrate := c\<rparr>, [])
      | Some sd \<Rightarrow> do {
          (s, sd, out) \<leftarrow> sim_sender_set_bitrates w (s\<lparr>ss_min_bitrate := a, ss_max_bitrate := b, ss_start_bitrate := c\<rparr>) sd mn
            (word_of_int (ss_start_bitrate (s\<lparr>ss_min_bitrate := a, ss_max_bitrate := b, ss_start_bitrate := c\<rparr>))) mx;
          Some (s\<lparr>s_sender := Some sd\<rparr>, out)
        }) = Some (s', out)"
    using Set_Bitrates unfolding sim_session_set_bitrates_def Let_def by (auto split: bind_splits)
  show ?thesis
  proof (cases "s_sender s")
    case (Some sd)
    define t where "t = s\<lparr>ss_min_bitrate := a, ss_max_bitrate := b, ss_start_bitrate := c\<rparr>"
    obtain s1 sd1 where r: "sim_sender_set_bitrates w t sd mn (word_of_int (ss_start_bitrate t)) mx = Some (s1, sd1, out)" "s' = s1\<lparr>s_sender := Some sd1\<rparr>"
      using s0 Some by (auto simp: t_def split: bind_splits)
    note q = sender_quiet(4) [OF r(1), unfolded snd_quiet_def prod.case]
    have "kept t s1" using q by blast
    from kept_fields [OF this] q show ?thesis
      using assms(2) Some by (auto simp: r(2) t_def session_inv_def intro!: moves_same)
  next
    case None
    then show ?thesis using s0 assms(2) by (auto simp: session_inv_def intro!: moves_same)
  qed
next
  case (Datagram w n strm addr)
  have "session_inv (s\<lparr>rbandwidth := rbandwidth s + n, rcount := rcount s + 1\<rparr>)" using assms(2) by (simp add: session_inv_def)
  from process_moves [OF this Datagram(1)] show ?thesis by (simp add: moves_def)
next
  case (Heartbeat w w' t)
  then show ?thesis using heartbeat_moves assms(2) by blast
qed

lemma session_reach_inv: "session_reach s out \<Longrightarrow> session_inv s"
proof (induction rule: session_reach.induct)
  case (reach_start w e sock cb s)
  then show ?case by (auto simp: sim_session_create_def session_inv_def Let_def split: bind_splits prod.splits)
next
  case (reach_step s out out' s')
  then show ?case using session_step_moves by (auto simp: moves_def)
qed


text \<open>A new session with a working socket.\<close>

definition wit_session :: sim_session where
  "wit_session = the (sim_session_create (wit_host 1000) wit_env (Some 3) True)"

lemma wit_session_create: "sim_session_create (wit_host 1000) wit_env (Some 3) True = Some wit_session"
  by (simp add: wit_session_def sim_session_create_def Let_def split: prod.split)

lemma wit_session_wf: "net_wf wit_session" "n_env wit_session = wit_env" "s_state wit_session = session_idle" "s_sender wit_session = None"
    "s_receiver wit_session = None" "n_sock wit_session = 3" "n_uid wit_session = 0" "s_interrupt wit_session = net_normal" "stat_ts wit_session = 0"
    "n_rtt wit_session = 100" "ss_min_bitrate wit_session = MIN_BITRATE" "ss_max_bitrate wit_session = MAX_BITRATE"
    "ss_start_bitrate wit_session = START_BITRATE" "s_resend wit_session = 0"
proof -
  obtain strm where strm: "bin_stream_init wit_env True = (wit_env, Some strm)"
    by (simp add: bin_stream_init_def wit_env_def)
  have w: "wit_session = \<lparr>n_env = wit_env, n_sock = 3, n_peer = ('''', 0), n_uid = 0, n_rtt = 100, n_rtt_var = 5, n_loss_fraction = 0,
       n_sbandwidth = 0, n_scount = 0, n_sstrm = Some strm, s_cid = libc_rand (wit_host 1000), s_state = session_idle, s_interrupt = net_normal,
       s_run = 1, s_sender = None, s_receiver = None, s_resend = 0, commad_ts = 1000, stat_ts = 0,
       rbandwidth = 0, rcount = 0, video_bytes = 0, max_frame_size = 0, ss_min_bitrate = MIN_BITRATE, ss_max_bitrate = MAX_BITRATE,
       ss_start_bitrate = START_BITRATE, has_state_cb = True\<rparr>"
    using wit_session_create by (simp add: sim_session_create_def wit_host_simps strm)
  have "strm_wf strm" using bin_stream_init_wf [OF strm] by blast
  then show "net_wf wit_session" "n_env wit_session = wit_env" "s_state wit_session = session_idle" "s_sender wit_session = None"
    "s_receiver wit_session = None" "n_sock wit_session = 3" "n_uid wit_session = 0" "s_interrupt wit_session = net_normal" "stat_ts wit_session = 0"
    "n_rtt wit_session = 100" "ss_min_bitrate wit_session = MIN_BITRATE" "ss_max_bitrate wit_session = MAX_BITRATE"
    "ss_start_bitrate wit_session = START_BITRATE" "s_resend wit_session = 0"
    unfolding w by (simp_all add: net_wf_def)
qed

lemma send_connect_ok:
  assumes "net_wf s"
  shows "\<exists>s1 c. sim_session_send_connect s t = Some (s1\<lparr>commad_ts := t, s_resend := s_resend s + 1\<rparr>, sends s (INIT_SIM_HEADER SIM_CONNECT (n_uid s)) (Connect_Body c))
    \<and> net_wf s1 \<and> kept s s1 \<and> net_same s s1 \<and> con_cid c = s_cid s \<and> token_size c = 0 \<and> length (token c) = SIM_TOKEN_SIZE"
proof -
  define c where "c = (new_connect (n_env s))\<lparr>con_cid := s_cid s, token_size := 0\<rparr>"
  have c: "con_cid c = s_cid s" "token_size c = 0" "length (token c) = SIM_TOKEN_SIZE" by (simp_all add: c_def new_connect_def)
  obtain s1 where s1: "net_send_msg s (INIT_SIM_HEADER SIM_CONNECT (n_uid s)) (Connect_Body c)
      = Some (s1, sends s (INIT_SIM_HEADER SIM_CONNECT (n_uid s)) (Connect_Body c))" "net_wf s1" "net_same s s1"
    using net_send_msg_ok [OF assms, of "INIT_SIM_HEADER SIM_CONNECT (n_uid s)" "Connect_Body c"] c by (auto simp: INIT_SIM_HEADER_def)
  have k: "kept s s1" using net_send_kept [OF s1(1)] by blast
  then show ?thesis
    using s1 c kept_fields(4) [OF k] by (auto simp: sim_session_send_connect_def c_def [symmetric])
qed


end
