(* ===== verification/Session_Life.thy ===== *)
theory Session_Life
  imports Sim_Session
begin

text \<open>
  What sessions do over time and with each other: the estimate of the round trip time settles at a steady one, a session
  gives up on a silent peer, two sessions connect, and a ping measures the round trip.
\<close>

subsection \<open>The round trip time\<close>

lemma rtt_next_val:
  assumes "r < 500000000" and "k < 500000000"
  shows "uint (rtt_next r k) = max 10 ((7 * uint r + uint k) div 8)"
proof -
  have b: "0 \<le> uint r" "uint r < 500000000" "0 \<le> uint k" "uint k < 500000000" using assms by (simp_all add: word_less_def)
  then have "uint (7 * r + k) = 7 * uint r + uint k" by (simp add: uint_word_ariths)
  then have "uint ((7 * r + k) div 8) = (7 * uint r + uint k) div 8" by (simp add: uint_div)
  then show ?thesis by (auto simp: rtt_next_def Let_def word_less_def max_def)
qed

text \<open>\<open>n\<close> samples of the same round trip time.\<close>

definition rtt_samples :: "nat \<Rightarrow> u32 \<Rightarrow> sim_session \<Rightarrow> sim_session" where
  "rtt_samples n k = ((\<lambda>s. sim_session_calculate_rtt s k) ^^ n)"

lemma calculate_rtt_rtt: "n_rtt (sim_session_calculate_rtt s k) = rtt_next (n_rtt s) (if k < 5 then 5 else k)"
  by (simp add: sim_session_calculate_rtt_def Let_def)

text \<open>One sample takes an estimate that is more than 7 ms too low, or too high, nearer; below that it stays.\<close>

definition rtt_dist :: "int \<Rightarrow> int \<Rightarrow> int" where
  "rtt_dist k r = (if r < k - 7 then k - 7 - r else if k < r then r - k else 0)"

lemma rtt_dist_next:
  assumes "10 \<le> k" and "0 \<le> r"
  shows "rtt_dist k (max 10 ((7 * r + k) div 8)) \<le> max 0 (rtt_dist k r - 1)"
proof -
  define q where "q = (7 * r + k) div 8"
  have q: "8 * q \<le> 7 * r + k" "7 * r + k < 8 * q + 8" unfolding q_def by linarith+
  show ?thesis
    unfolding q_def [symmetric] rtt_dist_def max_def using q assms by (simp split: if_splits)
qed

lemma rtt_samples_dist:
  assumes "10 \<le> k" and "k < 500000000" and "n_rtt s < 500000000"
  shows "n_rtt (rtt_samples n k s) < 500000000 \<and> rtt_dist (uint k) (uint (n_rtt (rtt_samples n k s))) \<le> max 0 (rtt_dist (uint k) (uint (n_rtt s)) - int n)"
proof (induction n)
  case 0
  then show ?case using assms(3) by (simp add: rtt_samples_def rtt_dist_def)
next
  case (Suc n)
  define r where "r = n_rtt (rtt_samples n k s)"
  have k: "10 \<le> uint k" "uint k < 500000000" "\<not> k < 5" using assms(1,2) by (simp_all add: word_le_def word_less_def)
  have r: "r < 500000000" "rtt_dist (uint k) (uint r) \<le> max 0 (rtt_dist (uint k) (uint (n_rtt s)) - int n)" using Suc by (simp_all add: r_def)
  have e: "n_rtt (rtt_samples (Suc n) k s) = rtt_next r k"
    using k(3) by (simp add: rtt_samples_def r_def calculate_rtt_rtt)
  have v: "uint (rtt_next r k) = max 10 ((7 * uint r + uint k) div 8)" by (rule rtt_next_val [OF r(1) assms(2)])
  have "uint r < 500000000" using r(1) by (simp add: word_less_def)
  then have "rtt_next r k < 500000000" using v k(2) by (auto simp: word_less_def max_def)
  moreover have "rtt_dist (uint k) (uint (rtt_next r k)) \<le> max 0 (rtt_dist (uint k) (uint (n_rtt s)) - int (Suc n))"
    using rtt_dist_next [OF k(1), of "uint r"] r(2) unfolding v by simp
  ultimately show ?case unfolding e by blast
qed

text \<open>
  C11: the estimate of the round trip time settles. When every pong from some time on measures the same time k of at least 10 ms, the estimate
  comes within 7 ms below k and stays there, after at most as many pongs as it was away from k in milliseconds;
  no wrap-around happens for times below 500000 seconds.
\<close>

theorem rtt_estimate_settles:
  assumes "10 \<le> k" and "k < 500000000" and "n_rtt s < 500000000" and "\<bar>uint (n_rtt s) - uint k\<bar> \<le> int n"
  shows "uint k - 7 \<le> uint (n_rtt (rtt_samples n k s)) \<and> uint (n_rtt (rtt_samples n k s)) \<le> uint k"
proof -
  have "rtt_dist (uint k) (uint (n_rtt s)) \<le> int n"
    using assms(4) unfolding rtt_dist_def by (simp split: if_splits) linarith
  then have "rtt_dist (uint k) (uint (n_rtt (rtt_samples n k s))) \<le> 0"
    using rtt_samples_dist [OF assms(1-3), of n] by simp
  then show ?thesis unfolding rtt_dist_def by (simp split: if_splits)
qed

theorem rtt_estimate_settles_witness:
  "uint (n_rtt (rtt_samples 60 40 wit_session)) \<in> {33..40}"
  using rtt_estimate_settles [of 40 wit_session 60] by (simp add: wit_session_wf)

subsection \<open>Giving up\<close>

text \<open>The timer calls of a session that gets nothing from the network, each with its hosts and time.\<close>

fun session_beats :: "(host \<times> host \<times> int) list \<Rightarrow> sim_session \<Rightarrow> session_result" where
  "session_beats [] s = Some (s, [])"
| "session_beats ((w, w', t) # bs) s = do {
     (s, out) \<leftarrow> sim_session_heartbeat w w' s t;
     (s, out') \<leftarrow> session_beats bs s;
     Some (s, out @ out')
   }"

text \<open>Times from \<open>t\<close> on, at most \<open>g\<close> apart.\<close>

fun times_within :: "int \<Rightarrow> int \<Rightarrow> int list \<Rightarrow> bool" where
  "times_within g t [] = True"
| "times_within g t (t' # ts) = (t \<le> t' \<and> t' \<le> t + g \<and> times_within g t' ts)"

definition notifications :: "sim_out list \<Rightarrow> (int \<times> u32) list" where
  "notifications out = concat (map (\<lambda>x. case x of Notify k v \<Rightarrow> [(k, v)] | _ \<Rightarrow> []) out)"

lemma notifications_simps [simp]:
  "notifications [] = []" "notifications (Notify k v # out) = (k, v) # notifications out" "notifications (Udp_Send a d # out) = notifications out"
  "notifications (Show_State st # out) = notifications out" "notifications (out @ out') = notifications out @ notifications out'"
  by (simp_all add: notifications_def)

lemma delay_zero: "(word_of_int d * 1024 :: u32) = 0 \<longleftrightarrow> d mod 4194304 = 0"
proof -
  have "(word_of_int d * 1024 :: u32) = word_of_int (d * 1024)" by simp
  moreover have "(word_of_int (d * 1024) :: u32) = 0 \<longleftrightarrow> (d * 1024) mod 4294967296 = 0"
    by (simp add: word_of_int_eq_0_iff dvd_eq_mod_eq_0 del: of_int_mult)
  moreover have "(d * 1024) mod 4294967296 = (d mod 4194304) * 1024"
    using mult_mod_right [of 1024 d 4194304] by (simp add: mult.commute)
  ultimately show ?thesis by simp
qed

lemma stats_ok:
  assumes "stat_ts s + 1000 < t \<longrightarrow> (t - stat_ts s) mod 4194304 \<noteq> 0"
  shows "\<exists>s' out. session_stats w s t = Some (s', out) \<and> notifications out = [] \<and> datagrams_of out = [] \<and> s_state s' = s_state s \<and> s_sender s' = s_sender s
    \<and> s_receiver s' = s_receiver s \<and> commad_ts s' = commad_ts s \<and> s_resend s' = s_resend s \<and> n_sstrm s' = n_sstrm s \<and> n_env s' = n_env s
    \<and> n_uid s' = n_uid s \<and> s_cid s' = s_cid s \<and> stat_ts s' = (if stat_ts s + 1000 < t then t else stat_ts s)"
proof (cases "stat_ts s + 1000 < t")
  case True
  define dl where "dl = (word_of_int (t - stat_ts s) * 1024 :: u32)"
  have "dl \<noteq> 0" using assms True delay_zero [of "t - stat_ts s"] unfolding dl_def by blast
  then show ?thesis
    using True unfolding session_stats_def Let_def dl_def [symmetric] by auto
qed (simp add: session_stats_def)

text \<open>A session that waits for an answer to its \<open>k\<close>th request; \<open>now\<close> is the time of the last timer call.\<close>

definition waits :: "int \<Rightarrow> int \<Rightarrow> int \<Rightarrow> int \<Rightarrow> int \<Rightarrow> sim_session \<Rightarrow> bool" where
  "waits t0 g st0 now k s \<longleftrightarrow> s_state s = session_connecting \<and> s_sender s = None \<and> s_receiver s = None \<and> net_wf s \<and> s_resend s = k \<and> 1 \<le> k \<and> k \<le> 10
     \<and> commad_ts s \<le> t0 + (k - 1) * (1000 + g) \<and> commad_ts s \<le> now \<and> now \<le> commad_ts s + 1000
     \<and> (stat_ts s = st0 \<or> stat_ts s \<le> now \<and> now \<le> stat_ts s + 1000)"

definition gave_up :: "sim_session \<Rightarrow> bool" where
  "gave_up s \<longleftrightarrow> s_state s = session_idle \<and> s_sender s = None \<and> s_receiver s = None"

lemma beat_gave_up: "gave_up s \<Longrightarrow> sim_session_heartbeat w w' s t = Some (s, [])"
  by (simp add: gave_up_def sim_session_heartbeat_def heartbeat_receiver_def heartbeat_state_def)

lemma beats_gave_up: "gave_up s \<Longrightarrow> session_beats bs s = Some (s, [])"
  by (induction bs) (auto simp: beat_gave_up)

lemma beat_waits:
  assumes "waits t0 g st0 now k s" and "now \<le> t" and "t \<le> now + g" and "(t - st0) mod 4194304 \<noteq> 0" and "0 \<le> g" and "g < 4000000"
  shows "\<exists>s' out. sim_session_heartbeat w w' s t = Some (s', out) \<and>
    (waits t0 g st0 t k s' \<and> datagrams_of out = [] \<and> notifications out = []
     \<or> k < 10 \<and> waits t0 g st0 t (k + 1) s' \<and> length (datagrams_of out) \<le> 1 \<and> notifications out = []
     \<or> k = 10 \<and> gave_up s' \<and> datagrams_of out = [] \<and> notifications out = [(sim_connect_notify, 1)])"
proof -
  have s: "s_state s = session_connecting" "s_sender s = None" "s_receiver s = None" "net_wf s" "s_resend s = k" "1 \<le> k" "k \<le> 10"
      "commad_ts s \<le> t0 + (k - 1) * (1000 + g)" "commad_ts s \<le> now" "now \<le> commad_ts s + 1000"
      "stat_ts s = st0 \<or> stat_ts s \<le> now \<and> now \<le> stat_ts s + 1000"
    using assms(1) by (simp_all add: waits_def)
  have "stat_ts s + 1000 < t \<longrightarrow> (t - stat_ts s) mod 4194304 \<noteq> 0"
  proof
    assume l: "stat_ts s + 1000 < t"
    show "(t - stat_ts s) mod 4194304 \<noteq> 0"
    proof (cases "stat_ts s = st0")
      case False
      then have "0 < t - stat_ts s" "t - stat_ts s < 4194304" using s(11) l assms(2,3,6) by linarith+
      then show ?thesis by simp
    qed (use assms(4) in simp)
  qed
  from stats_ok [OF this, of "after 3 w"] obtain s1 o1 where s1: "session_stats (after 3 w) s t = Some (s1, o1)" "notifications o1 = []"
      "datagrams_of o1 = []" "s_state s1 = session_connecting" "s_sender s1 = None" "s_receiver s1 = None" "commad_ts s1 = commad_ts s"
      "s_resend s1 = k" "n_sstrm s1 = n_sstrm s" "stat_ts s1 = (if stat_ts s + 1000 < t then t else stat_ts s)"
    using s(1-3,5) by auto
  have wf: "net_wf s1" using s(4) s1(9) by (simp add: net_wf_def)
  have st: "stat_ts s1 = st0 \<or> stat_ts s1 \<le> t \<and> t \<le> stat_ts s1 + 1000" using s1(10) s(11) assms(2) by auto
  have hb: "sim_session_heartbeat w w' s t = do {
      (s', out) \<leftarrow> sim_session_state_timer (after 3 w) s t sim_session_send_connect sim_connect_notify TICK_DELAY_MS;
      (s'', out2) \<leftarrow> (if s_sender s' \<noteq> None \<or> s_receiver s' \<noteq> None
        then sim_session_state_timer w' s' t sim_session_send_ping sim_network_timout (TICK_DELAY_MS div 4) else Some (s', []));
      Some (s'', out @ out2) }"
    using s(1,3) by (simp add: sim_session_heartbeat_def heartbeat_receiver_def heartbeat_state_def)
  consider "t \<le> commad_ts s + 1000" | "commad_ts s + 1000 < t" "k < 10" | "commad_ts s + 1000 < t" "k = 10" using s(7) by linarith
  then show ?thesis
  proof cases
    case 1
    then have "sim_session_state_timer (after 3 w) s t sim_session_send_connect sim_connect_notify TICK_DELAY_MS = Some (s1, o1)"
      using s1 by (simp add: sim_session_state_timer_def)
    moreover have "waits t0 g st0 t k s1" using s s1 1 wf st assms(2) by (simp add: waits_def)
    ultimately show ?thesis unfolding hb using s1 by auto
  next
    case 2
    obtain s2 c where c: "sim_session_send_connect s1 t = Some (s2\<lparr>commad_ts := t, s_resend := s_resend s1 + 1\<rparr>,
        sends s1 (INIT_SIM_HEADER SIM_CONNECT (n_uid s1)) (Connect_Body c))" "net_wf s2" "kept s1 s2"
      using send_connect_ok [OF wf] by blast
    define s3 where "s3 = s2\<lparr>commad_ts := t, s_resend := s_resend s1 + 1\<rparr>"
    have r: "sim_session_state_timer (after 3 w) s t sim_session_send_connect sim_connect_notify TICK_DELAY_MS
        = Some (s3, o1 @ sends s1 (INIT_SIM_HEADER SIM_CONNECT (n_uid s1)) (Connect_Body c))"
      using s1(1,7,8) 2 c(1) by (simp add: sim_session_state_timer_def s3_def)
    have "t \<le> t0 + k * (1000 + g)" using s(8,10) assms(3) by (simp add: algebra_simps)
    then have "waits t0 g st0 t (k + 1) s3"
      using kept_fields [OF c(3)] s1(4-8) s(6) 2 c(2) st by (simp add: waits_def s3_def net_wf_def)
    moreover have "length (datagrams_of (o1 @ sends s1 (INIT_SIM_HEADER SIM_CONNECT (n_uid s1)) (Connect_Body c))) \<le> 1"
        "notifications (o1 @ sends s1 (INIT_SIM_HEADER SIM_CONNECT (n_uid s1)) (Connect_Body c)) = []"
      using s1(2,3) by (simp_all add: sends_def)
    ultimately show ?thesis unfolding hb r using 2(2) by (auto simp: waits_def)
  next
    case 3
    obtain s2 where s2: "sim_session_reset (after 1 (after 3 w)) s1 = Some s2"
      using s1(6) by (simp add: sim_session_reset_def destroy_receiver_def)
    have g: "gave_up s2" using reset_result [OF s2] by (simp add: gave_up_def)
    have "sim_session_state_timer (after 3 w) s t sim_session_send_connect sim_connect_notify TICK_DELAY_MS
        = Some (s2, o1 @ [Notify sim_connect_notify 1])"
      using s1(1,6,7,8) 3 s2 by (simp add: sim_session_state_timer_def)
    then show ?thesis unfolding hb using g s1(2,3) 3(2) by (auto simp: gave_up_def)
  qed
qed

lemma beats_wait:
  assumes "waits t0 g st0 now k s" and "times_within g now (map (\<lambda>(w, w', t). t) bs)" and "\<forall>(w, w', t)\<in>set bs. (t - st0) mod 4194304 \<noteq> 0"
    and "0 \<le> g" and "g < 4000000"
  shows "\<exists>s' out. session_beats bs s = Some (s', out) \<and>
    (gave_up s' \<and> notifications out = [(sim_connect_notify, 1)] \<and> length (datagrams_of out) \<le> nat (10 - k)
     \<or> (\<exists>k' t. t = last (now # map (\<lambda>(w, w', t). t) bs) \<and> waits t0 g st0 t k' s' \<and> notifications out = []))"
  using assms(1-3)
proof (induction bs arbitrary: s now k)
  case Nil
  then show ?case by auto
next
  case (Cons b bs)
  obtain w w' t where b: "b = (w, w', t)" by (cases b)
  have t: "now \<le> t" "t \<le> now + g" "times_within g t (map (\<lambda>(w, w', t). t) bs)" "(t - st0) mod 4194304 \<noteq> 0"
    using Cons.prems(2,3) by (simp_all add: b)
  obtain s1 o1 where 1: "sim_session_heartbeat w w' s t = Some (s1, o1)"
      "waits t0 g st0 t k s1 \<and> datagrams_of o1 = [] \<and> notifications o1 = []
       \<or> k < 10 \<and> waits t0 g st0 t (k + 1) s1 \<and> length (datagrams_of o1) \<le> 1 \<and> notifications o1 = []
       \<or> k = 10 \<and> gave_up s1 \<and> datagrams_of o1 = [] \<and> notifications o1 = [(sim_connect_notify, 1)]"
    using beat_waits [OF Cons.prems(1) t(1,2,4) assms(4,5)] by blast
  then consider (same) "waits t0 g st0 t k s1" "datagrams_of o1 = []" "notifications o1 = []"
    | (again) "k < 10" "waits t0 g st0 t (k + 1) s1" "length (datagrams_of o1) \<le> 1" "notifications o1 = []"
    | (up) "k = 10" "gave_up s1" "datagrams_of o1 = []" "notifications o1 = [(sim_connect_notify, 1)]"
    by blast
  then show ?case
  proof cases
    case same
    then show ?thesis using Cons.IH [OF same(1) t(3)] Cons.prems(3) 1(1) by (fastforce simp: b)
  next
    case again
    then show ?thesis using Cons.IH [OF again(2) t(3)] Cons.prems(3) 1(1) by (fastforce simp: b)
  next
    case up
    then show ?thesis using beats_gave_up [OF up(2)] 1(1) by (simp add: b)
  qed
qed

text \<open>
  C4: connecting ends. A session that has sent its request at \<open>t0\<close> to a peer that never answers, and whose timer runs at least every
  \<open>g\<close> milliseconds, sends the request at most nine times more and then is idle again and has told
  the application so, exactly once, at the latest when its timer runs later than \<open>t0\<close> + 10 (1000 + \<open>g\<close>). (The condition on the times
  excludes the instants at which the statistics divide by zero.)
\<close>

theorem connecting_gives_up:
  assumes "s_state s = session_connecting" and "s_sender s = None" and "s_receiver s = None" and "net_wf s" and "s_resend s = 1" and "commad_ts s = t0"
    and "times_within g t0 (map (\<lambda>(w, w', t). t) bs)" and "bs \<noteq> []" and "t0 + 10 * (1000 + g) < snd (snd (last bs))"
    and "\<forall>(w, w', t)\<in>set bs. (t - stat_ts s) mod 4194304 \<noteq> 0" and "0 \<le> g" and "g < 4000000"
  shows "\<exists>s' out. session_beats bs s = Some (s', out) \<and> s_state s' = session_idle \<and> notifications out = [(sim_connect_notify, 1)]
    \<and> length (datagrams_of out) \<le> 9"
proof -
  have w: "waits t0 g (stat_ts s) t0 1 s" using assms(1-6) by (simp add: waits_def)
  obtain s' out where r: "session_beats bs s = Some (s', out)"
      "gave_up s' \<and> notifications out = [(sim_connect_notify, 1)] \<and> length (datagrams_of out) \<le> nat (10 - 1)
       \<or> (\<exists>k' t. t = last (t0 # map (\<lambda>(w, w', t). t) bs) \<and> waits t0 g (stat_ts s) t k' s' \<and> notifications out = [])"
    using beats_wait [OF w assms(7,10-12)] by blast
  have "t = snd (snd (last bs))" if "t = last (t0 # map (\<lambda>(w, w', t). t) bs)" for t
    using that assms(8) by (simp add: last_map case_prod_unfold)
  moreover have "t \<le> t0 + 10 * (1000 + g)" if "waits t0 g (stat_ts s) t k' s'" for t k'
  proof -
    have "commad_ts s' \<le> t0 + (k' - 1) * (1000 + g)" "t \<le> commad_ts s' + 1000" "k' \<le> 10" using that by (simp_all add: waits_def)
    moreover have "(k' - 1) * (1000 + g) \<le> 9 * (1000 + g)" using \<open>k' \<le> 10\<close> assms(11) by (intro mult_right_mono) simp_all
    ultimately show ?thesis using assms(11) by simp
  qed
  ultimately have "gave_up s' \<and> notifications out = [(sim_connect_notify, 1)] \<and> length (datagrams_of out) \<le> 9"
    using r(2) assms(9) by fastforce
  then show ?thesis using r(1) by (auto simp: gave_up_def)
qed

text \<open>A session that has just been told to connect.\<close>

lemma connect_starts:
  assumes "net_wf s" and "s_state s = session_idle"
  shows "\<exists>s1 c. sim_session_connect w s uid ip port = Some (s1, sends (s\<lparr>n_peer := (ip, port), n_uid := uid\<rparr>) (INIT_SIM_HEADER SIM_CONNECT uid) (Connect_Body c), 0)
    \<and> net_wf s1 \<and> s_state s1 = session_connecting \<and> s_sender s1 = s_sender s \<and> s_receiver s1 = s_receiver s \<and> s_resend s1 = 1
    \<and> commad_ts s1 = sys_ms w 0 \<and> stat_ts s1 = stat_ts s \<and> n_env s1 = n_env s \<and> n_sock s1 = n_sock s \<and> n_uid s1 = uid \<and> n_peer s1 = (ip, port)
    \<and> s_interrupt s1 = s_interrupt s \<and> ss_min_bitrate s1 = ss_min_bitrate s \<and> ss_max_bitrate s1 = ss_max_bitrate s \<and> ss_start_bitrate s1 = ss_start_bitrate s
    \<and> con_cid c = s_cid s \<and> token_size c = 0 \<and> length (token c) = SIM_TOKEN_SIZE"
proof -
  define s0 where "s0 = s\<lparr>n_peer := (ip, port), n_uid := uid, s_state := session_connecting, s_resend := 0\<rparr>"
  have "net_wf s0" using assms(1) by (simp add: s0_def net_wf_def)
  then obtain s1 c where c: "sim_session_send_connect s0 (sys_ms w 0) = Some (s1\<lparr>commad_ts := sys_ms w 0, s_resend := s_resend s0 + 1\<rparr>,
        sends s0 (INIT_SIM_HEADER SIM_CONNECT (n_uid s0)) (Connect_Body c))" "net_wf s1" "kept s0 s1" "net_same s0 s1"
      "con_cid c = s_cid s0" "token_size c = 0" "length (token c) = SIM_TOKEN_SIZE"
    using send_connect_ok by blast
  have e: "sends s0 (INIT_SIM_HEADER SIM_CONNECT (n_uid s0)) (Connect_Body c)
      = sends (s\<lparr>n_peer := (ip, port), n_uid := uid\<rparr>) (INIT_SIM_HEADER SIM_CONNECT uid) (Connect_Body c)"
    by (simp add: sends_def s0_def)
  have "net_wf (s1\<lparr>commad_ts := sys_ms w 0, s_resend := s_resend s0 + 1\<rparr>)" using c(2) by (simp add: net_wf_def)
  then show ?thesis
    using c(1,5-7) kept_fields [OF c(3)] c(4) assms(2)
    by (intro exI [of _ "s1\<lparr>commad_ts := sys_ms w 0, s_resend := s_resend s0 + 1\<rparr>"] exI [of _ c])
      (simp add: sim_session_connect_def s0_def [symmetric] e [symmetric] net_same_def, simp add: s0_def)
qed

theorem connecting_gives_up_witness:
  "\<exists>s1 out ret s' out'. sim_session_connect (wit_host 2000) wit_session 7 ''10.0.0.2'' 4000 = Some (s1, out, ret)
    \<and> session_beats (map (\<lambda>i. (wit_host 0, wit_host 0, 2000 + 900 * int i)) [0..<24]) s1 = Some (s', out')
    \<and> s_state s' = session_idle \<and> notifications out' = [(sim_connect_notify, 1)] \<and> length (datagrams_of out') \<le> 9"
proof -
  let ?bs = "map (\<lambda>i. (wit_host 0, wit_host 0, 2000 + 900 * int i)) [0..<24]"
  obtain s1 c where c: "sim_session_connect (wit_host 2000) wit_session 7 ''10.0.0.2'' 4000
      = Some (s1, sends (wit_session\<lparr>n_peer := (''10.0.0.2'', 4000), n_uid := 7\<rparr>) (INIT_SIM_HEADER SIM_CONNECT 7) (Connect_Body c), 0)"
      "net_wf s1" "s_state s1 = session_connecting" "s_sender s1 = None" "s_receiver s1 = None" "s_resend s1 = 1" "commad_ts s1 = 2000" "stat_ts s1 = 0"
    using connect_starts [OF wit_session_wf(1,3), of "wit_host 2000" 7 "''10.0.0.2''" 4000] unfolding wit_host_simps wit_session_wf by blast
  have u: "[0..<24] = [0, 1, 2, 3, 4, 5, 6, 7, 8, 9, 10, 11, 12, 13, 14, 15, 16, 17, 18, 19, 20, 21, 22, 23]" by (simp add: upt_rec)
  have "times_within 900 2000 (map (\<lambda>(w, w', t). t) ?bs)" "?bs \<noteq> []" "2000 + 10 * (1000 + 900) < snd (snd (last ?bs))"
      "\<forall>(w, w', t)\<in>set ?bs. (t - stat_ts s1) mod 4194304 \<noteq> 0"
    by (simp_all add: u c(8))
  from connecting_gives_up [OF c(3-5,2,6,7) this] show ?thesis using c(1) by auto
qed

subsection \<open>Two sessions\<close>

text \<open>A session after the header of a datagram from \<open>addr\<close> of \<open>k\<close> bytes, and a buffer that holds any datagram.\<close>

definition heard :: "su_addr \<Rightarrow> nat \<Rightarrow> sim_session \<Rightarrow> sim_session" where
  "heard addr k s = s\<lparr>rbandwidth := rbandwidth s + word_of_nat k, rcount := rcount s + 1, n_peer := addr, s_resend := 0\<rparr>"

definition buffer_ok :: "bin_stream \<Rightarrow> bool" where
  "buffer_ok rs \<longleftrightarrow> length (data rs) = strm_size rs \<and> 1034 \<le> strm_size rs"

text \<open>A session that can send and hear.\<close>

definition on_line :: "sim_session \<Rightarrow> bool" where
  "on_line s \<longleftrightarrow> net_wf s \<and> env_std (n_env s) \<and> 0 \<le> n_sock s \<and> s_interrupt s \<noteq> net_interrupt"

lemma on_line_heard [simp]: "on_line (heard addr k s) = on_line s"
  by (simp add: on_line_def heard_def net_wf_def)

lemma receive_message:
  assumes "env_std e" and "on_line s" and "body_shape (h_mid h) b" and "body_sizes b" and "body_fields b" and "buffer_ok rs"
    and "MIN_MSG_ID \<le> h_mid h" and "h_mid h \<le> MAX_MSG_ID"
  shows "\<exists>rs1 strm k. session_receive w s rs addr (datagram e h b)
      = map_option (\<lambda>(s', out). (s', rs1, out)) (process_message w (heard addr k s) h strm)
    \<and> (\<forall>old. body_shape (h_mid h) old \<longrightarrow> (\<exists>r2 b'. sim_decode_msg (n_env s) strm h old = Some (r2, 0, b') \<and> same_message b b' \<and> body_shape (h_mid h) b'))"
proof -
  have len: "length (data rs) = strm_size rs" "1034 \<le> strm_size rs" "env_std (n_env s)" "s_interrupt s \<noteq> net_interrupt"
    using assms(2,6) by (simp_all add: buffer_ok_def on_line_def)
  obtain r where r: "datagram_load rs (datagram e h b) = Some r"
    using datagram_load_ok [OF len(1), of "datagram e h b"] datagram_length [OF assms(4), of e h] len(2) by auto
  obtain strm where strm: "sim_decode_header (n_env s) r \<lparr>h_ver = 0, h_mid = 0, h_uid = 0\<rparr> = Some (strm, 0, h)"
      "\<forall>old. body_shape (h_mid h) old \<longrightarrow> (\<exists>r2 b'. sim_decode_msg (n_env s) strm h old = Some (r2, 0, b') \<and> same_message b b' \<and> body_shape (h_mid h) b')"
    using datagram_received [OF assms(1) len(3) assms(3-5) len(1,2) r] by blast
  have six: "SIM_HEADER_SIZE \<le> length (datagram e h b)" by (simp add: datagram_def msg_bytes_def header_enc_def)
  define k where "k = length (datagram e h b)"
  have "sim_session_process w (s\<lparr>rbandwidth := rbandwidth s + word_of_nat k, rcount := rcount s + 1\<rparr>) r addr = process_message w (heard addr k s) h strm"
    using strm(1) leD [OF assms(7)] leD [OF assms(8)] len(4)
    by (cases "process_message w (heard addr k s) h strm") (auto simp: sim_session_process_def heard_def Let_def)
  then have "session_receive w s rs addr (datagram e h b) = map_option (\<lambda>(s', out). (s', r, out)) (process_message w (heard addr k s) h strm)"
    using r six by (simp add: session_receive_def k_def)
  then show ?thesis using strm(2) by blast
qed

text \<open>What a session on line sends: one datagram to its peer.\<close>

lemma net_send_on_line:
  assumes "on_line s" and "body_shape (h_mid h) b" and "body_sizes b"
  shows "\<exists>s'. net_send_msg s h b = Some (s', [Udp_Send (n_peer s) (datagram (n_env s) h b)]) \<and> kept s s' \<and> on_line s' \<and> n_env s' = n_env s"
proof -
  have s: "net_wf s" "0 \<le> n_sock s" "env_std (n_env s)" "s_interrupt s \<noteq> net_interrupt" using assms(1) by (simp_all add: on_line_def)
  obtain s' where s': "net_send_msg s h b = Some (s', sends s h b)" "net_wf s'" "net_same s s'"
    using net_send_msg_ok [OF s(1) assms(2,3)] by blast
  have k: "kept s s'" using net_send_kept [OF s'(1)] by blast
  have "on_line s'" using s'(2,3) s(2-4) kept_fields(7) [OF k] by (simp add: on_line_def net_same_def)
  then show ?thesis using s' s(2) k by (simp add: sends_def net_same_def)
qed

lemma header_mid [simp]: "h_mid (INIT_SIM_HEADER k u) = k"
  by (simp add: INIT_SIM_HEADER_def)

lemma ping_fits:
  assumes "- 9223372036854775808 \<le> ping_ts p" and "ping_ts p < 9223372036854775808"
  shows "body_shape SIM_PING (Ping_Body p)" "body_shape SIM_PONG (Ping_Body p)" "body_sizes (Ping_Body p)" "body_fields (Ping_Body p)"
  using assms by simp_all

lemma send_ping_on_line:
  assumes "on_line a" and "s_resend a < 12"
  shows "\<exists>a1. sim_session_send_ping a t = Some (a1, [Udp_Send (n_peer a) (datagram (n_env a) (INIT_SIM_HEADER SIM_PING (n_uid a)) (Ping_Body \<lparr>ping_ts = t\<rparr>))])
    \<and> on_line a1 \<and> n_rtt a1 = n_rtt a \<and> s_state a1 = s_state a"
proof -
  obtain a0 where a0: "net_send_msg a (INIT_SIM_HEADER SIM_PING (n_uid a)) (Ping_Body \<lparr>ping_ts = t\<rparr>)
      = Some (a0, [Udp_Send (n_peer a) (datagram (n_env a) (INIT_SIM_HEADER SIM_PING (n_uid a)) (Ping_Body \<lparr>ping_ts = t\<rparr>))])" "kept a a0" "on_line a0"
    using net_send_on_line [OF assms(1), of "INIT_SIM_HEADER SIM_PING (n_uid a)" "Ping_Body \<lparr>ping_ts = t\<rparr>"] by auto
  define a1 where "a1 = a0\<lparr>commad_ts := t, s_resend := s_resend a0 + 1\<rparr>"
  have "on_line a1" "n_rtt a1 = n_rtt a" "s_state a1 = s_state a"
    using a0(3) kept_fields [OF a0(2)] by (simp_all add: a1_def on_line_def net_wf_def)
  then show ?thesis
    using a0(1) kept_fields(4) [OF a0(2)] assms(2) by (simp add: sim_session_send_ping_def a1_def)
qed

text \<open>A ping or a pong is decoded as it was sent.\<close>

lemma receive_ping_body:
  assumes "env_std e" and "on_line s" and "buffer_ok rs" and "- 9223372036854775808 \<le> ping_ts p" and "ping_ts p < 9223372036854775808"
    and "m = SIM_PING \<or> m = SIM_PONG"
  shows "\<exists>rs1 strm k strm'. session_receive w s rs addr (datagram e (INIT_SIM_HEADER m u) (Ping_Body p))
      = map_option (\<lambda>(s', out). (s', rs1, out)) (process_message w (heard addr k s) (INIT_SIM_HEADER m u) strm)
    \<and> sim_decode_msg (n_env s) strm (INIT_SIM_HEADER m u) (Ping_Body \<lparr>ping_ts = 0\<rparr>) = Some (strm', 0, Ping_Body p)"
proof -
  have b: "body_shape m (Ping_Body p)" "body_shape m (Ping_Body \<lparr>ping_ts = 0\<rparr>)" using assms(6) by auto
  have ids: "MIN_MSG_ID \<le> m" "m \<le> MAX_MSG_ID" using assms(6) by auto
  obtain rs1 strm k where r: "session_receive w s rs addr (datagram e (INIT_SIM_HEADER m u) (Ping_Body p))
        = map_option (\<lambda>(s', out). (s', rs1, out)) (process_message w (heard addr k s) (INIT_SIM_HEADER m u) strm)"
      "\<forall>old. body_shape m old \<longrightarrow> (\<exists>r2 b'. sim_decode_msg (n_env s) strm (INIT_SIM_HEADER m u) old = Some (r2, 0, b')
        \<and> same_message (Ping_Body p) b' \<and> body_shape m b')"
    using receive_message [OF assms(1,2), of "INIT_SIM_HEADER m u" "Ping_Body p" rs w addr, unfolded header_mid] b ping_fits(3,4) [OF assms(4,5)]
      assms(3) ids by blast
  then obtain r2 b' where "sim_decode_msg (n_env s) strm (INIT_SIM_HEADER m u) (Ping_Body \<lparr>ping_ts = 0\<rparr>) = Some (r2, 0, b')" "same_message (Ping_Body p) b'"
    using b(2) by blast
  then show ?thesis using r(1) by (cases b') auto
qed

lemma receive_ping:
  assumes "env_std e" and "on_line b" and "buffer_ok rb" and "- 9223372036854775808 \<le> ping_ts p" and "ping_ts p < 9223372036854775808"
  shows "\<exists>b1 rb1. session_receive w b rb addr (datagram e (INIT_SIM_HEADER SIM_PING u) (Ping_Body p))
      = Some (b1, rb1, [Udp_Send addr (datagram (n_env b) (INIT_SIM_HEADER SIM_PONG (n_uid b)) (Ping_Body p))])
    \<and> s_state b1 = s_state b \<and> s_sender b1 = s_sender b \<and> s_receiver b1 = s_receiver b"
proof -
  obtain rb1 sb k sb' where b: "session_receive w b rb addr (datagram e (INIT_SIM_HEADER SIM_PING u) (Ping_Body p))
        = map_option (\<lambda>(s', out). (s', rb1, out)) (process_message w (heard addr k b) (INIT_SIM_HEADER SIM_PING u) sb)"
      "sim_decode_msg (n_env b) sb (INIT_SIM_HEADER SIM_PING u) (Ping_Body \<lparr>ping_ts = 0\<rparr>) = Some (sb', 0, Ping_Body p)"
    using receive_ping_body [OF assms, of SIM_PING] by blast
  have h: "on_line (heard addr k b)" "n_env (heard addr k b) = n_env b" "n_uid (heard addr k b) = n_uid b" "n_peer (heard addr k b) = addr"
      "s_state (heard addr k b) = s_state b" "s_sender (heard addr k b) = s_sender b" "s_receiver (heard addr k b) = s_receiver b"
    using assms(2) by (simp, simp_all add: heard_def)
  obtain b1 where b1: "net_send_msg (heard addr k b) (INIT_SIM_HEADER SIM_PONG (n_uid b)) (Ping_Body p)
      = Some (b1, [Udp_Send addr (datagram (n_env b) (INIT_SIM_HEADER SIM_PONG (n_uid b)) (Ping_Body p))])" "kept (heard addr k b) b1"
    using net_send_on_line [OF h(1), of "INIT_SIM_HEADER SIM_PONG (n_uid b)" "Ping_Body p"] ping_fits(2,3) [OF assms(4,5)] unfolding h(2-4) by auto
  then have "process_message w (heard addr k b) (INIT_SIM_HEADER SIM_PING u) sb
      = Some (b1, [Udp_Send addr (datagram (n_env b) (INIT_SIM_HEADER SIM_PONG (n_uid b)) (Ping_Body p))])"
    using b(2) by (simp add: process_message_def process_sim_ping_def h(2,3))
  then show ?thesis using b(1) kept_fields(1-3) [OF b1(2)] h(5-7) by simp
qed

lemma receive_pong:
  assumes "env_std e" and "on_line a" and "buffer_ok ra" and "- 9223372036854775808 \<le> ping_ts p" and "ping_ts p < 9223372036854775808"
  shows "\<exists>ra1 k. session_receive w a ra addr (datagram e (INIT_SIM_HEADER SIM_PONG u) (Ping_Body p))
    = Some (sim_session_calculate_rtt (heard addr k a) (keep_rtt_of (sys_ms w 0) (ping_ts p)), ra1, [])"
proof -
  obtain ra1 sa k sa' where "session_receive w a ra addr (datagram e (INIT_SIM_HEADER SIM_PONG u) (Ping_Body p))
        = map_option (\<lambda>(s', out). (s', ra1, out)) (process_message w (heard addr k a) (INIT_SIM_HEADER SIM_PONG u) sa)"
      "sim_decode_msg (n_env a) sa (INIT_SIM_HEADER SIM_PONG u) (Ping_Body \<lparr>ping_ts = 0\<rparr>) = Some (sa', 0, Ping_Body p)"
    using receive_ping_body [OF assms, of SIM_PONG] by blast
  then show ?thesis by (auto simp: process_message_def process_sim_pong_def heard_def)
qed

lemma keep_rtt_range:
  assumes "t' < t + 4294967296"
  shows "\<not> keep_rtt_of t' t < 5"
proof (cases "t + 5 < t'")
  case True
  then have "uint (word_of_int (t' - t) :: u32) = t' - t" using assms by (simp add: uint_word_of_int del: of_int_diff)
  then show ?thesis using True by (simp add: keep_rtt_of_def word_less_def del: of_int_diff)
qed (simp add: keep_rtt_of_def)

text \<open>
  C10: a ping measures the round trip. When a session sends a ping at time \<open>t\<close>, its peer, on a host of any byte order, answers it
  at once with one datagram to where the ping came from, and changes nothing in its own state, sender and receiver; when the answer is back at time \<open>t'\<close>, less
  than 2^32 ms later, the estimate of the round trip time moves by the sample \<open>t' - t\<close> (5 when that is 5 or less).
\<close>

theorem ping_measures_rtt:
  assumes "on_line a" and "on_line b" and "buffer_ok ra" and "buffer_ok rb" and "s_resend a < 12"
    and "- 9223372036854775808 \<le> t" and "t < 9223372036854775808" and "t' = sys_ms w' 0" and "t' < t + 4294967296"
  shows "\<exists>a1 d b1 rb1 d' a2 ra1. sim_session_send_ping a t = Some (a1, [Udp_Send (n_peer a) d])
    \<and> session_receive w b rb addr_a d = Some (b1, rb1, [Udp_Send addr_a d'])
    \<and> s_state b1 = s_state b \<and> s_sender b1 = s_sender b \<and> s_receiver b1 = s_receiver b
    \<and> session_receive w' a1 ra addr_b d' = Some (a2, ra1, [])
    \<and> n_rtt a2 = rtt_next (n_rtt a) (if t + 5 < t' then word_of_int (t' - t) else 5) \<and> s_state a2 = s_state a"
proof -
  have e: "env_std (n_env a)" "env_std (n_env b)" using assms(1,2) by (simp_all add: on_line_def)
  have p: "- 9223372036854775808 \<le> ping_ts \<lparr>ping_ts = t\<rparr>" "ping_ts \<lparr>ping_ts = t\<rparr> < 9223372036854775808" using assms(6,7) by simp_all
  obtain a1 where a1: "sim_session_send_ping a t
        = Some (a1, [Udp_Send (n_peer a) (datagram (n_env a) (INIT_SIM_HEADER SIM_PING (n_uid a)) (Ping_Body \<lparr>ping_ts = t\<rparr>))])"
      "on_line a1" "n_rtt a1 = n_rtt a" "s_state a1 = s_state a"
    using send_ping_on_line [OF assms(1,5)] by blast
  obtain b1 rb1 where b1: "session_receive w b rb addr_a (datagram (n_env a) (INIT_SIM_HEADER SIM_PING (n_uid a)) (Ping_Body \<lparr>ping_ts = t\<rparr>))
        = Some (b1, rb1, [Udp_Send addr_a (datagram (n_env b) (INIT_SIM_HEADER SIM_PONG (n_uid b)) (Ping_Body \<lparr>ping_ts = t\<rparr>))])"
      "s_state b1 = s_state b" "s_sender b1 = s_sender b" "s_receiver b1 = s_receiver b"
    using receive_ping [OF e(1) assms(2,4) p] by blast
  obtain ra1 k where a2: "session_receive w' a1 ra addr_b (datagram (n_env b) (INIT_SIM_HEADER SIM_PONG (n_uid b)) (Ping_Body \<lparr>ping_ts = t\<rparr>))
      = Some (sim_session_calculate_rtt (heard addr_b k a1) (keep_rtt_of t' t), ra1, [])"
    using receive_pong [OF e(2) a1(2) assms(3) p, of w' addr_b "n_uid b"] by (auto simp: assms(8))
  have "n_rtt (sim_session_calculate_rtt (heard addr_b k a1) (keep_rtt_of t' t)) = rtt_next (n_rtt a) (if t + 5 < t' then word_of_int (t' - t) else 5)"
    using keep_rtt_range [OF assms(9)] a1(3) by (simp add: calculate_rtt_rtt heard_def) (simp add: keep_rtt_of_def)
  moreover have "s_state (sim_session_calculate_rtt (heard addr_b k a1) (keep_rtt_of t' t)) = s_state a"
    using a1(4) by (simp add: sim_session_calculate_rtt_def Let_def heard_def)
  ultimately show ?thesis using a1(1) b1 a2 by (intro exI conjI)
qed

lemma wit_on_line: "on_line wit_session" "buffer_ok wit_strm"
  by (simp_all add: on_line_def buffer_ok_def wit_session_wf wit_env_std wit_strm_wf)

theorem ping_measures_rtt_witness:
  "\<exists>a1 d b1 rb1 d' a2 ra1. sim_session_send_ping wit_session 5000 = Some (a1, [Udp_Send (n_peer wit_session) d])
    \<and> session_receive (wit_host 5020) wit_session wit_strm (''10.0.0.1'', 4000) d = Some (b1, rb1, [Udp_Send (''10.0.0.1'', 4000) d'])
    \<and> session_receive (wit_host 5044) a1 wit_strm (''10.0.0.2'', 4000) d' = Some (a2, ra1, []) \<and> n_rtt a2 = 93"
proof -
  have h: "s_resend wit_session < 12" "- 9223372036854775808 \<le> (5000 :: int)" "5000 < (9223372036854775808 :: int)" "(5044 :: int) = sys_ms (wit_host 5044) 0"
      "(5044 :: int) < 5000 + 4294967296"
    by (simp_all add: wit_session_wf wit_host_simps)
  have "rtt_next (n_rtt wit_session) (if (5000 :: int) + 5 < 5044 then word_of_int (5044 - 5000) else 5) = 93"
    by (simp add: wit_session_wf rtt_next_def)
  then show ?thesis
    using ping_measures_rtt [OF wit_on_line(1,1,2,2) h, of "wit_host 5020" "(''10.0.0.1'', 4000)" "(''10.0.0.2'', 4000)"] by auto
qed

text \<open>A session without a receiver answers a connection: it has an active receiver now.\<close>

lemma receive_connect:
  assumes "env_std e" and "on_line b" and "buffer_ok rb" and "s_receiver b = None" and "token_size c = 0" and "length (token c) = SIM_TOKEN_SIZE"
  shows "\<exists>b1 rb1. session_receive w b rb addr (datagram e (INIT_SIM_HEADER SIM_CONNECT u) (Connect_Body c))
      = Some (b1, rb1, [Notify sim_start_play_notify u, Udp_Send addr (datagram (n_env b) (INIT_SIM_HEADER SIM_CONNECT_ACK (n_uid b))
          (Connect_Ack_Body \<lparr>cack_cid = con_cid c, cack_result = 0\<rparr>))])
    \<and> s_state b1 = s_state b \<and> s_sender b1 = s_sender b \<and> s_receiver b1 = Some (fst (sim_receiver_active (after 2 w) (sim_receiver_create w b) u))"
proof -
  have c: "body_shape SIM_CONNECT (Connect_Body c)" "body_sizes (Connect_Body c)" "body_fields (Connect_Body c)" "buffer_ok rb"
      "MIN_MSG_ID \<le> SIM_CONNECT" "SIM_CONNECT \<le> MAX_MSG_ID" using assms(3,5,6) by simp_all
  obtain rb1 sb k where r: "session_receive w b rb addr (datagram e (INIT_SIM_HEADER SIM_CONNECT u) (Connect_Body c))
        = map_option (\<lambda>(s', out). (s', rb1, out)) (process_message w (heard addr k b) (INIT_SIM_HEADER SIM_CONNECT u) sb)"
      "\<forall>old. body_shape SIM_CONNECT old \<longrightarrow> (\<exists>r2 b'. sim_decode_msg (n_env b) sb (INIT_SIM_HEADER SIM_CONNECT u) old = Some (r2, 0, b')
        \<and> same_message (Connect_Body c) b' \<and> body_shape SIM_CONNECT b')"
    using receive_message [OF assms(1,2), of "INIT_SIM_HEADER SIM_CONNECT u" "Connect_Body c" rb w addr, unfolded header_mid] c by blast
  have "body_shape SIM_CONNECT (Connect_Body (new_connect (n_env b)))" by (simp add: new_connect_def)
  then obtain r2 b' where d0: "sim_decode_msg (n_env b) sb (INIT_SIM_HEADER SIM_CONNECT u) (Connect_Body (new_connect (n_env b))) = Some (r2, 0, b')"
      "same_message (Connect_Body c) b'"
    using r(2) by blast
  then obtain c' where d: "sim_decode_msg (n_env b) sb (INIT_SIM_HEADER SIM_CONNECT u) (Connect_Body (new_connect (n_env b))) = Some (r2, 0, Connect_Body c')"
      "con_cid c' = con_cid c"
    by (cases b') auto
  define b0 where "b0 = (heard addr k b)\<lparr>s_receiver := Some (fst (sim_receiver_active (after 2 w) (sim_receiver_create w b) u))\<rparr>"
  have b0: "on_line b0" "n_env b0 = n_env b" "n_uid b0 = n_uid b" "n_peer b0 = addr" "s_state b0 = s_state b" "s_sender b0 = s_sender b"
      "s_receiver b0 = Some (fst (sim_receiver_active (after 2 w) (sim_receiver_create w b) u))"
    using assms(2) by (simp_all add: b0_def heard_def on_line_def net_wf_def)
  define ack where "ack = Connect_Ack_Body \<lparr>cack_cid = con_cid c, cack_result = 0\<rparr>"
  obtain b1 where b1: "net_send_msg b0 (INIT_SIM_HEADER SIM_CONNECT_ACK (n_uid b)) ack
      = Some (b1, [Udp_Send addr (datagram (n_env b) (INIT_SIM_HEADER SIM_CONNECT_ACK (n_uid b)) ack)])" "kept b0 b1"
    using net_send_on_line [OF b0(1), of "INIT_SIM_HEADER SIM_CONNECT_ACK (n_uid b)" ack] unfolding b0(2-4) by (auto simp: ack_def)
  have cr: "sim_receiver_create w (heard addr k b) = sim_receiver_create w b" by (simp add: sim_receiver_create_def heard_def)
  have h: "n_env (heard addr k b) = n_env b" "n_uid (heard addr k b) = n_uid b" "s_receiver (heard addr k b) = None"
    using assms(4) by (simp_all add: heard_def)
  have hu: "h_uid (INIT_SIM_HEADER SIM_CONNECT u) = u" by (simp add: INIT_SIM_HEADER_def)
  have "process_message w (heard addr k b) (INIT_SIM_HEADER SIM_CONNECT u) sb = Some (b1\<lparr>commad_ts := sys_ms w 3, s_resend := 0\<rparr>,
      [Notify sim_start_play_notify u, Udp_Send addr (datagram (n_env b) (INIT_SIM_HEADER SIM_CONNECT_ACK (n_uid b)) ack)])"
    using d b1(1) unfolding ack_def b0_def by (simp add: process_message_def process_sim_connect_def h hu cr)
  then show ?thesis
    using r(1) kept_fields(1-3) [OF b1(2)] b0(5-7) by (auto simp: ack_def)
qed

text \<open>A connecting session that hears of its success: it is connected and has a sender as \<open>sender_starts\<close> describes it.\<close>

lemma receive_connect_ack:
  assumes "env_std e" and "on_line a" and "buffer_ok ra" and "s_state a = session_connecting" and "s_sender a = None" and "malloc_ok w" and "0 \<le> sys_ms w 1"
    and "mn = word_of_int (ss_min_bitrate a)" and "st = word_of_int (ss_start_bitrate a)" and "mx = word_of_int (ss_max_bitrate a)"
    and "10000 \<le> mn" and "mn \<le> st" and "st \<le> mx" and "mx \<le> 35000000"
  shows "\<exists>s0 s2 sd out ra1. sender_starts w (after 3 w) (s0 :: sim_session) mn st mx (s2, sd, out)
    \<and> session_receive w a ra addr (datagram e (INIT_SIM_HEADER SIM_CONNECT_ACK u) (Connect_Ack_Body \<lparr>cack_cid = i, cack_result = 0\<rparr>))
      = Some (s2\<lparr>s_sender := Some sd\<rparr>, ra1, out @ [Notify sim_connect_notify 0])
    \<and> s_state s2 = session_connected \<and> s_receiver s2 = s_receiver a"
proof -
  define ack where "ack = \<lparr>cack_cid = i, cack_result = 0 :: u32\<rparr>"
  have c: "body_shape SIM_CONNECT_ACK (Connect_Ack_Body ack)" "body_sizes (Connect_Ack_Body ack)" "body_fields (Connect_Ack_Body ack)"
      "MIN_MSG_ID \<le> SIM_CONNECT_ACK" "SIM_CONNECT_ACK \<le> MAX_MSG_ID" by simp_all
  obtain ra1 sa k where r: "session_receive w a ra addr (datagram e (INIT_SIM_HEADER SIM_CONNECT_ACK u) (Connect_Ack_Body ack))
        = map_option (\<lambda>(s', out). (s', ra1, out)) (process_message w (heard addr k a) (INIT_SIM_HEADER SIM_CONNECT_ACK u) sa)"
      "\<forall>old. body_shape SIM_CONNECT_ACK old \<longrightarrow> (\<exists>r2 b'. sim_decode_msg (n_env a) sa (INIT_SIM_HEADER SIM_CONNECT_ACK u) old = Some (r2, 0, b')
        \<and> same_message (Connect_Ack_Body ack) b' \<and> body_shape SIM_CONNECT_ACK b')"
    using receive_message [OF assms(1,2), of "INIT_SIM_HEADER SIM_CONNECT_ACK u" "Connect_Ack_Body ack" ra w addr, unfolded header_mid] c assms(3) by blast
  have "body_shape SIM_CONNECT_ACK (Connect_Ack_Body \<lparr>cack_cid = 0, cack_result = 0\<rparr>)" by simp
  then obtain r2 b' where "sim_decode_msg (n_env a) sa (INIT_SIM_HEADER SIM_CONNECT_ACK u) (Connect_Ack_Body \<lparr>cack_cid = 0, cack_result = 0\<rparr>) = Some (r2, 0, b')"
      "same_message (Connect_Ack_Body ack) b'"
    using r(2) by blast
  then have d: "sim_decode_msg (n_env a) sa (INIT_SIM_HEADER SIM_CONNECT_ACK u) (Connect_Ack_Body \<lparr>cack_cid = 0, cack_result = 0\<rparr>) = Some (r2, 0, Connect_Ack_Body ack)"
    by (cases b') auto
  define s0 where "s0 = (heard addr k a)\<lparr>s_state := session_connected, s_interrupt := net_recover\<rparr>"
  have wf: "net_wf s0" using assms(2) by (simp add: s0_def heard_def on_line_def net_wf_def)
  obtain s1 sd where cr: "sim_sender_create w s0 = (s1, sd)" by force
  obtain s2 sd2 out where st: "sim_sender_set_bitrates (after 3 w) s1 (fst (sim_sender_active sd)) mn st mx = Some (s2, sd2, out)"
      "snd_result (\<lambda>_. []) (sys_ms w 1) (sys_ms w 1) mn mx 0 [] s1 sd (s2, sd2, out)"
    using sender_started_ok [OF wf assms(6,7,11-14) cr] by blast
  have starts: "sender_starts w (after 3 w) s0 mn st mx (s2, sd2, out)"
    using wf assms(6,7,11-14) cr st(1) by (simp add: sender_starts_def)
  define sx where "sx = (heard addr k a)\<lparr>s_state := session_connected\<rparr>"
  obtain e' where e': "sim_sender_create w sx = (sx\<lparr>n_env := e'\<rparr>, sd)" "s1 = s0\<lparr>n_env := e'\<rparr>"
    using cr by (auto simp: sim_sender_create_def sx_def s0_def heard_def split: prod.splits)
  have s1: "(sx\<lparr>n_env := e'\<rparr>)\<lparr>s_interrupt := net_recover\<rparr> = s1" by (simp add: e'(2) s0_def sx_def)
  have nn: "s_sender sx = None" "s_sender (heard addr k a) = None" using assms(5) by (simp_all add: sx_def heard_def)
  have rates: "mn = word_of_int (ss_min_bitrate s1)" "st = word_of_int (ss_start_bitrate s1)" "mx = word_of_int (ss_max_bitrate s1)"
    using assms(8-10) by (simp_all add: e'(2) s0_def heard_def)
  have "session_start_sender w (heard addr k a) = Some (s2\<lparr>s_sender := Some sd2\<rparr>, out)"
    using st(1) unfolding rates session_start_sender_def Let_def sx_def [symmetric] nn option.case e'(1) prod.case s1 by simp
  then have "process_message w (heard addr k a) (INIT_SIM_HEADER SIM_CONNECT_ACK u) sa
      = Some (s2\<lparr>s_sender := Some sd2\<rparr>, out @ [Notify sim_connect_notify 0])"
    using d assms(4) by (simp add: process_message_def process_sim_connect_ack_def heard_def ack_def)
  moreover have "s_state s2 = session_connected" "s_receiver s2 = s_receiver a"
  proof -
    have "kept s1 s2" using sender_quiet(4) [OF st(1)] by (simp add: snd_quiet_def)
    from kept_fields(1,3) [OF this] show "s_state s2 = session_connected" "s_receiver s2 = s_receiver a"
      by (simp_all add: e'(2) s0_def heard_def)
  qed
  ultimately show ?thesis using r(1) starts by (auto simp: ack_def)
qed

text \<open>
  C3: two sessions connect. The application of an idle session asks to connect to a peer that has no receiver yet. One datagram later the peer has an active receiver
  for that user and has told its application to start playing; one datagram back later the first session is connected, its
  sender is new, active and within the session's rates (\<open>sender_starts\<close>), the rate to encode at has been told, and last that the connection succeeded.
  The byte orders of the hosts may differ.
\<close>

theorem two_sessions_connect:
  assumes "on_line a" and "on_line b" and "buffer_ok ra" and "buffer_ok rb" and "s_state a = session_idle" and "s_sender a = None" and "s_receiver b = None"
    and "malloc_ok w'" and "0 \<le> sys_ms w' 1"
    and "mn = word_of_int (ss_min_bitrate a)" and "st = word_of_int (ss_start_bitrate a)" and "mx = word_of_int (ss_max_bitrate a)"
    and "10000 \<le> mn" and "mn \<le> st" and "st \<le> mx" and "mx \<le> 35000000"
  shows "\<exists>a1 d b1 rb1 d' s0 s2 sd out ra1. sim_session_connect v a uid ip port = Some (a1, [Udp_Send (ip, port) d], 0)
    \<and> session_receive w b rb addr_a d = Some (b1, rb1, [Notify sim_start_play_notify uid, Udp_Send addr_a d'])
    \<and> s_receiver b1 = Some (fst (sim_receiver_active (after 2 w) (sim_receiver_create w b) uid))
    \<and> session_receive w' a1 ra addr_b d' = Some (s2\<lparr>s_sender := Some sd\<rparr>, ra1, out @ [Notify sim_connect_notify 0])
    \<and> s_state s2 = session_connected \<and> sender_starts w' (after 3 w') (s0 :: sim_session) mn st mx (s2, sd, out)"
proof -
  have l: "net_wf a" "env_std (n_env a)" "0 \<le> n_sock a" "s_interrupt a \<noteq> net_interrupt" "env_std (n_env b)"
    using assms(1,2) by (simp_all add: on_line_def)
  obtain a1 c where a1: "sim_session_connect v a uid ip port
        = Some (a1, sends (a\<lparr>n_peer := (ip, port), n_uid := uid\<rparr>) (INIT_SIM_HEADER SIM_CONNECT uid) (Connect_Body c), 0)"
      "net_wf a1" "s_state a1 = session_connecting" "s_sender a1 = s_sender a" "n_env a1 = n_env a" "n_sock a1 = n_sock a"
      "s_interrupt a1 = s_interrupt a" "ss_min_bitrate a1 = ss_min_bitrate a" "ss_max_bitrate a1 = ss_max_bitrate a" "ss_start_bitrate a1 = ss_start_bitrate a"
      "token_size c = 0" "length (token c) = SIM_TOKEN_SIZE"
    using connect_starts [OF l(1) assms(5), of v uid ip port] by blast
  have s: "sends (a\<lparr>n_peer := (ip, port), n_uid := uid\<rparr>) (INIT_SIM_HEADER SIM_CONNECT uid) (Connect_Body c)
      = [Udp_Send (ip, port) (datagram (n_env a) (INIT_SIM_HEADER SIM_CONNECT uid) (Connect_Body c))]"
    using l(3) by (simp add: sends_def)
  have on: "on_line a1" using a1(2,5-7) l(2-4) by (simp add: on_line_def)
  obtain b1 rb1 where b1: "session_receive w b rb addr_a (datagram (n_env a) (INIT_SIM_HEADER SIM_CONNECT uid) (Connect_Body c))
      = Some (b1, rb1, [Notify sim_start_play_notify uid, Udp_Send addr_a (datagram (n_env b) (INIT_SIM_HEADER SIM_CONNECT_ACK (n_uid b))
          (Connect_Ack_Body \<lparr>cack_cid = con_cid c, cack_result = 0\<rparr>))])"
      "s_receiver b1 = Some (fst (sim_receiver_active (after 2 w) (sim_receiver_create w b) uid))"
    using receive_connect [OF l(2) assms(2,4,7) a1(11,12)] by blast
  have rates: "mn = word_of_int (ss_min_bitrate a1)" "st = word_of_int (ss_start_bitrate a1)" "mx = word_of_int (ss_max_bitrate a1)"
    using assms(10-12) a1(8-10) by simp_all
  have none: "s_sender a1 = None" using a1(4) assms(6) by simp
  obtain s0 s2 sd out ra1 where "sender_starts w' (after 3 w') (s0 :: sim_session) mn st mx (s2, sd, out)"
      "session_receive w' a1 ra addr_b (datagram (n_env b) (INIT_SIM_HEADER SIM_CONNECT_ACK (n_uid b)) (Connect_Ack_Body \<lparr>cack_cid = con_cid c, cack_result = 0\<rparr>))
        = Some (s2\<lparr>s_sender := Some sd\<rparr>, ra1, out @ [Notify sim_connect_notify 0])" "s_state s2 = session_connected"
    using receive_connect_ack [OF l(5) on assms(3) a1(3) none assms(8,9) rates assms(13-16)] by blast
  then show ?thesis
    using a1(1) [unfolded s] b1 by blast
qed

theorem two_sessions_connect_witness:
  "\<exists>a1 d b1 rb1 d' s2 sd out ra1. sim_session_connect (wit_host 1100) wit_session 7 ''10.0.0.2'' 4000 = Some (a1, [Udp_Send (''10.0.0.2'', 4000) d], 0)
    \<and> session_receive (wit_host 1110) wit_session wit_strm (''10.0.0.1'', 4000) d
      = Some (b1, rb1, [Notify sim_start_play_notify 7, Udp_Send (''10.0.0.1'', 4000) d'])
    \<and> session_receive (wit_host 1120) a1 wit_strm (''10.0.0.2'', 4000) d'
      = Some (s2\<lparr>s_sender := Some sd\<rparr>, ra1, out @ [Notify sim_connect_notify 0]) \<and> s_state s2 = session_connected"
proof -
  have h: "malloc_ok (wit_host 1120)" "0 \<le> sys_ms (wit_host 1120) 1" by (simp_all add: wit_host_simps)
  have r: "80000 = (word_of_int (ss_min_bitrate wit_session) :: u32)" "800000 = (word_of_int (ss_start_bitrate wit_session) :: u32)"
      "16000000 = (word_of_int (ss_max_bitrate wit_session) :: u32)" "(10000 :: u32) \<le> 80000" "(80000 :: u32) \<le> 800000" "(800000 :: u32) \<le> 16000000"
      "(16000000 :: u32) \<le> 35000000"
    by (simp_all add: wit_session_wf)
  show ?thesis
    using two_sessions_connect [OF wit_on_line(1,1,2,2) wit_session_wf(3,4,5) h r, of "wit_host 1100" 7 "''10.0.0.2''" 4000 "wit_host 1110"
        "(''10.0.0.1'', 4000)" "(''10.0.0.2'', 4000)"] by blast
qed

end
