(* ===== verification/Sim_External.thy ===== *)
theory Sim_External
  imports Session_Life
begin

text \<open>
  The calls that an application sees (\<open>sim_transport/sim_external.c\<close>): one session per process, behind the flag \<open>g_inited\<close>.
  The callback of the log and the platform's start-up are left out. \<open>None\<close> as a result is undefined behaviour: \<open>g_session\<close> is \<open>None\<close> while
  \<open>g_inited\<close> is set only when the session could not get its socket, and then the pointer is to freed memory.
\<close>

record sim_api =
  g_session :: "sim_session option"
  g_inited :: int

definition sim_api_start :: sim_api where
  "sim_api_start = \<lparr>g_session = None, g_inited = 0\<rparr>"

definition sim_init :: "host \<Rightarrow> env \<Rightarrow> int option \<Rightarrow> bool \<Rightarrow> sim_api \<Rightarrow> sim_api" where
  "sim_init w e sock state_cb a =
     (if g_inited a \<noteq> 0 then a else a\<lparr>g_inited := 1, g_session := sim_session_create w e sock state_cb\<rparr>)"

definition sim_destroy :: "sim_api \<Rightarrow> sim_api option" where
  "sim_destroy a =
     (if g_inited a = 0 then Some a
      else do { s \<leftarrow> g_session a; _ \<leftarrow> sim_session_destroy s; Some (a\<lparr>g_session := None, g_inited := 0\<rparr>) })"

definition sim_connect_call :: "host \<Rightarrow> u32 \<Rightarrow> string \<Rightarrow> u16 \<Rightarrow> sim_api \<Rightarrow> (sim_api \<times> sim_out list \<times> int) option" where
  "sim_connect_call w local_uid peer_ip peer_port a =
     (if g_inited a = 0 then Some (a, [], -1)
      else do {
        s \<leftarrow> g_session a;
        (s, out, ret) \<leftarrow> sim_session_connect w s local_uid peer_ip peer_port;
        Some (a\<lparr>g_session := Some s\<rparr>, out, ret)
      })"

definition sim_disconnect_call :: "host \<Rightarrow> sim_api \<Rightarrow> (sim_api \<times> sim_out list \<times> int) option" where
  "sim_disconnect_call w a =
     (if g_inited a = 0 then Some (a, [], -1)
      else do { s \<leftarrow> g_session a; (s, out, ret) \<leftarrow> sim_session_disconnect w s; Some (a\<lparr>g_session := Some s\<rparr>, out, ret) })"

definition sim_set_bitrates :: "host \<Rightarrow> u32 \<Rightarrow> u32 \<Rightarrow> u32 \<Rightarrow> sim_api \<Rightarrow> (sim_api \<times> sim_out list) option" where
  "sim_set_bitrates w min_bitrate start_bitrate max_bitrate a =
     (if g_inited a = 0 then Some (a, [])
      else do {
        s \<leftarrow> g_session a;
        (s, out) \<leftarrow> sim_session_set_bitrates w s min_bitrate start_bitrate max_bitrate;
        Some (a\<lparr>g_session := Some s\<rparr>, out)
      })"

definition sim_send_video :: "host \<Rightarrow> u8 \<Rightarrow> u8 \<Rightarrow> u8 list \<Rightarrow> sim_api \<Rightarrow> (sim_api \<times> int) option" where
  "sim_send_video w payload_type ftype bytes a =
     (if g_inited a = 0 then Some (a, -1)
      else do {
        s \<leftarrow> g_session a;
        (s, ret) \<leftarrow> sim_session_send_video w s payload_type ftype bytes;
        Some (a\<lparr>g_session := Some s\<rparr>, ret)
      })"

definition sim_recv_video :: "host \<Rightarrow> nat \<Rightarrow> sim_api \<Rightarrow> (sim_api \<times> play_result) option" where
  "sim_recv_video w buffer_size a =
     (if g_inited a = 0 then Some (a, \<lparr>pr_ret = -1, pr_out = [], pr_size = buffer_size, pr_type = 0\<rparr>)
      else do { s \<leftarrow> g_session a; (s, p) \<leftarrow> sim_session_recv_video w s buffer_size; Some (a\<lparr>g_session := Some s\<rparr>, p) })"

subsection \<open>Runs of the interface\<close>

datatype api_call = Api_Init host env "int option" bool | Api_Destroy | Api_Connect host u32 string u16 | Api_Disconnect host
  | Api_Set_Bitrates host u32 u32 u32 | Api_Send_Video host u8 u8 "u8 list" | Api_Recv_Video host nat

datatype api_result = Api_Void | Api_Int int | Api_Frame play_result

fun api_do :: "api_call \<Rightarrow> sim_api \<Rightarrow> (sim_api \<times> sim_out list \<times> api_result) option" where
  "api_do (Api_Init w e sock cb) a = Some (sim_init w e sock cb a, [], Api_Void)"
| "api_do Api_Destroy a = map_option (\<lambda>a. (a, [], Api_Void)) (sim_destroy a)"
| "api_do (Api_Connect w uid ip port) a = map_option (\<lambda>(a, out, ret). (a, out, Api_Int ret)) (sim_connect_call w uid ip port a)"
| "api_do (Api_Disconnect w) a = map_option (\<lambda>(a, out, ret). (a, out, Api_Int ret)) (sim_disconnect_call w a)"
| "api_do (Api_Set_Bitrates w mn st mx) a = map_option (\<lambda>(a, out). (a, out, Api_Void)) (sim_set_bitrates w mn st mx a)"
| "api_do (Api_Send_Video w pt ft bs) a = map_option (\<lambda>(a, ret). (a, [], Api_Int ret)) (sim_send_video w pt ft bs a)"
| "api_do (Api_Recv_Video w cap) a = map_option (\<lambda>(a, p). (a, [], Api_Frame p)) (sim_recv_video w cap a)"

text \<open>What a call gives back when it is refused.\<close>

fun api_refused :: "api_call \<Rightarrow> api_result" where
  "api_refused (Api_Connect w uid ip port) = Api_Int (-1)"
| "api_refused (Api_Disconnect w) = Api_Int (-1)"
| "api_refused (Api_Send_Video w pt ft bs) = Api_Int (-1)"
| "api_refused (Api_Recv_Video w cap) = Api_Frame \<lparr>pr_ret = -1, pr_out = [], pr_size = cap, pr_type = 0\<rparr>"
| "api_refused c = Api_Void"

fun is_init :: "api_call \<Rightarrow> bool" where
  "is_init (Api_Init w e sock cb) = True"
| "is_init c = False"

text \<open>Between the calls the session's thread makes steps of its own.\<close>

inductive api_reach :: "sim_api \<Rightarrow> bool" where
  api_start: "api_reach sim_api_start"
| api_called: "api_reach a \<Longrightarrow> api_do c a = Some (a', out, res) \<Longrightarrow> api_reach a'"
| api_thread: "api_reach a \<Longrightarrow> g_session a = Some s \<Longrightarrow> session_step s out s' \<Longrightarrow> api_reach (a\<lparr>g_session := Some s'\<rparr>)"

definition api_inv :: "sim_api \<Rightarrow> bool" where
  "api_inv a \<longleftrightarrow> (g_inited a = 0 \<and> g_session a = None \<or> g_inited a = 1 \<and> pred_option (\<lambda>s. \<exists>hist. session_reach s hist) (g_session a))"

lemma reaches_on: "session_step s out s' \<Longrightarrow> session_reach s hist \<Longrightarrow> \<exists>hist'. session_reach s' hist'"
  using reach_step by blast

text \<open>A call on a live interface is a step of its session.\<close>

lemma api_do_step:
  assumes "api_do c a = Some (a', out, res)" and "g_inited a \<noteq> 0" and "g_session a = Some s" and "c \<noteq> Api_Destroy"
  shows "a' = a \<and> out = [] \<or> (\<exists>s'. session_step s out s' \<and> a' = a\<lparr>g_session := Some s'\<rparr>)"
  using assms
  by (cases c) (auto simp: sim_init_def sim_connect_call_def sim_disconnect_call_def sim_set_bitrates_def sim_send_video_def sim_recv_video_def
    split: bind_splits intro: session_step.intros)

lemma api_do_refused:
  assumes "g_inited a = 0" and "\<not> is_init c"
  shows "api_do c a = Some (a, [], api_refused c)"
  using assms
  by (cases c) (simp_all add: sim_destroy_def sim_connect_call_def sim_disconnect_call_def sim_set_bitrates_def sim_send_video_def sim_recv_video_def)

lemma api_do_dangling:
  assumes "g_inited a \<noteq> 0" and "g_session a = None" and "\<not> is_init c"
  shows "api_do c a = None"
  using assms
  by (cases c) (simp_all add: sim_destroy_def sim_connect_call_def sim_disconnect_call_def sim_set_bitrates_def sim_send_video_def sim_recv_video_def)

lemma api_do_inv:
  assumes "api_do c a = Some (a', out, res)" and "api_inv a"
  shows "api_inv a'"
proof (cases "g_inited a = 0")
  case True
  then show ?thesis
    using assms api_do_refused [OF True, of c]
    by (cases "is_init c"; cases c) (use reach_start in \<open>fastforce simp: sim_init_def api_inv_def option.pred_set\<close>)+
next
  case False
  show ?thesis
  proof (cases "g_session a")
    case None
    then show ?thesis using assms False api_do_dangling [OF False None, of c] by (cases "is_init c"; cases c) (auto simp: sim_init_def)
  next
    case (Some s)
    show ?thesis
    proof (cases "c = Api_Destroy")
      case True
      then show ?thesis using assms(1) False by (auto simp: sim_destroy_def api_inv_def split: bind_splits)
    next
      case c: False
      show ?thesis using api_do_step [OF assms(1) False Some c] assms(2) False Some by (auto simp: api_inv_def dest: reaches_on)
    qed
  qed
qed

lemma api_reach_inv: "api_reach a \<Longrightarrow> api_inv a"
proof (induction rule: api_reach.induct)
  case api_start
  then show ?case by (simp add: api_inv_def sim_api_start_def)
next
  case (api_called a c a' out res)
  then show ?case using api_do_inv by blast
next
  case (api_thread a s out s')
  then show ?case by (auto simp: api_inv_def dest: reaches_on)
qed



end
