(* ===== verification/Net_Addr.thy ===== *)
theory Net_Addr
  imports Bin_Stream
begin

text \<open>
  Addresses of peers (\<open>common/platform/posix/posix.c\<close>): setting, copying, comparing, reading from text. \<open>inet_addr\<close> and \<open>inet_ntop\<close>
  are parameters. A string is the list of its characters before the terminator; \<open>None\<close> is a read or write outside it, or an
  \<open>atoi\<close> out of range. \<open>su_addr_to_string\<close> is left out: it prints a string onto itself with \<open>sprintf\<close>, which C does not define.
\<close>

record sock_addr =
  sin_family :: u16
  sin_port :: u16
  sin_addr :: u32

abbreviation AF_INET :: u16 where "AF_INET \<equiv> 2"
abbreviation IP_SIZE :: nat where "IP_SIZE \<equiv> 32"

text \<open>Both directions between the order of the host and of the network.\<close>

definition htons :: "env \<Rightarrow> u16 \<Rightarrow> u16" where
  "htons e v = of_be2 (host_order e (be2 v))"

definition su_set_addr :: "(string \<Rightarrow> u32) \<Rightarrow> env \<Rightarrow> string \<Rightarrow> u16 \<Rightarrow> sock_addr" where
  "su_set_addr inet_addr e ip port = \<lparr>sin_family = AF_INET, sin_port = htons e port, sin_addr = inet_addr ip\<rparr>"

definition su_set_addr2 :: "env \<Rightarrow> u32 \<Rightarrow> u16 \<Rightarrow> sock_addr" where
  "su_set_addr2 e ip port = \<lparr>sin_family = AF_INET, sin_port = htons e port, sin_addr = ip\<rparr>"

definition su_addr_to_addr :: "sock_addr \<Rightarrow> sock_addr \<Rightarrow> sock_addr" where
  "su_addr_to_addr src dst = dst\<lparr>sin_family := AF_INET, sin_port := sin_port src, sin_addr := sin_addr src\<rparr>"

text \<open>\<open>None\<close> is the result \<open>NULL\<close>.\<close>

definition su_addr_to_iport :: "(u32 \<Rightarrow> string) \<Rightarrow> env \<Rightarrow> sock_addr \<Rightarrow> int \<Rightarrow> (string \<times> u16) option" where
  "su_addr_to_iport inet_ntop e addr len = (if len < 24 then None else Some (inet_ntop (sin_addr addr), htons e (sin_port addr)))"

definition su_addr_cmp :: "sock_addr \<Rightarrow> sock_addr \<Rightarrow> int" where
  "su_addr_cmp src dst =
     (if sin_addr dst < sin_addr src then 1
      else if sin_addr src < sin_addr dst then -1
      else if sin_port dst < sin_port src then 1
      else if sin_port src < sin_port dst then -1
      else 0)"

definition su_addr_eq :: "sock_addr \<Rightarrow> sock_addr \<Rightarrow> int" where
  "su_addr_eq src dst = (if sin_addr src = sin_addr dst \<and> sin_port src = sin_port dst then 0 else -1)"

subsection \<open>Addresses in text\<close>

definition NUL :: char where "NUL = char_of (0::nat)"

definition c_str :: "string \<Rightarrow> string" where
  "c_str = takeWhile (\<lambda>c. c \<noteq> NUL)"

definition is_space :: "char \<Rightarrow> bool" where
  "is_space c \<longleftrightarrow> of_char c = (32::nat) \<or> 9 \<le> (of_char c :: nat) \<and> (of_char c :: nat) \<le> 13"

definition is_digit :: "char \<Rightarrow> bool" where
  "is_digit c \<longleftrightarrow> 48 \<le> (of_char c :: nat) \<and> (of_char c :: nat) \<le> 57"

definition atoi :: "string \<Rightarrow> int option" where
  "atoi str =
     (let str = dropWhile is_space str;
          neg = (case str of [] \<Rightarrow> False | c # cs \<Rightarrow> c = CHR ''-'');
          str = (case str of [] \<Rightarrow> [] | c # cs \<Rightarrow> if c = CHR ''-'' \<or> c = CHR ''+'' then cs else str);
          v = foldl (\<lambda>a c. 10 * a + (of_char c - 48)) 0 (takeWhile is_digit str);
          v = (if neg then - v else v)
      in if -2147483648 \<le> v \<and> v \<le> 2147483647 then Some v else None)"

text \<open>
  The loop that copies \<open>ip\<close>; \<open>n\<close> is \<open>IP_SIZE - 1 - i\<close>, the list what is at \<open>pos\<close> with the terminator. Its condition compares
  the pointer with zero, not the character, so that the terminator does not end it.
\<close>

fun ip_loop :: "nat \<Rightarrow> string \<Rightarrow> (string \<times> string) option" where
  "ip_loop (Suc n) (c # d # ds) =
     (if d \<noteq> CHR '':'' \<and> n \<noteq> 0 then map_option (apfst (Cons c)) (ip_loop n (d # ds)) else Some ([c], d # ds))"
| "ip_loop n pos = None"

definition su_string_to_addr :: "(string \<Rightarrow> u32) \<Rightarrow> env \<Rightarrow> string \<Rightarrow> sock_addr option" where
  "su_string_to_addr inet_addr e str = do {
     (ip, pos) \<leftarrow> ip_loop (IP_SIZE - 1) (str @ [NUL]);
     let pos = (if hd pos = CHR '':'' then tl pos else pos);
     port \<leftarrow> atoi (c_str pos);
     Some (su_set_addr inet_addr e (c_str ip) (word_of_int port))
   }"

text \<open>\<open>cap\<close> is the size of the caller's buffer; the text is split at its last colon.\<close>

definition su_addrstr_to_iport :: "nat \<Rightarrow> string \<Rightarrow> (string option \<times> int) option" where
  "su_addrstr_to_iport cap str =
     (if CHR '':'' \<in> set str
      then (let ip = rev (tl (dropWhile (\<lambda>c. c \<noteq> CHR '':'') (rev str)));
                p = rev (takeWhile (\<lambda>c. c \<noteq> CHR '':'') (rev str))
            in if cap \<le> length ip then None
               else map_option (\<lambda>port. (Some ip, uint (word_of_int port :: u16))) (atoi p))
      else Some (None, -1))"

subsection \<open>Comparing\<close>

lemma su_addr_eq_cmp: "su_addr_eq a b = 0 \<longleftrightarrow> su_addr_cmp a b = 0"
  by (auto simp: su_addr_eq_def su_addr_cmp_def)

lemma su_addr_cmp_antisym: "su_addr_cmp a b = - su_addr_cmp b a"
  by (auto simp: su_addr_cmp_def)

lemma su_addr_cmp_trans: "su_addr_cmp a b \<le> 0 \<Longrightarrow> su_addr_cmp b c \<le> 0 \<Longrightarrow> su_addr_cmp a c \<le> 0"
  by (auto simp: su_addr_cmp_def split: if_splits)

lemma su_addr_copied: "su_addr_eq src (su_addr_to_addr src dst) = 0"
  by (simp add: su_addr_eq_def su_addr_to_addr_def)

subsection \<open>Reading what was written\<close>

lemma uint_of_be2: "uint (of_be2 [a, b]) = uint a * 256 + uint b"
proof -
  have "0 \<le> uint a" "uint a < 256" "0 \<le> uint b" "uint b < 256" using uint_lt2p [of a] uint_lt2p [of b] by simp_all
  then have "(uint a * 256 + uint b) mod 65536 = uint a * 256 + uint b" by (intro mod_pos_pos_trivial) linarith+
  then show ?thesis by (simp add: of_be2_def push_bit_eq_mult uint_word_ariths uint_up_ucast is_up)
qed

lemma be2_of_be2: "be2 (of_be2 [a, b]) = [a, b]"
proof -
  have b: "0 \<le> uint a" "uint a < 256" "0 \<le> uint b" "uint b < 256" using uint_lt2p [of a] uint_lt2p [of b] by simp_all
  then have d: "(uint a * 256 + uint b) div 256 = uint a" "(uint a * 256 + uint b) mod 256 = uint b" by simp_all
  have "drop_bit 8 (of_be2 [a, b]) = of_be2 [a, b] div 256" by (simp add: drop_bit_eq_div)
  then have "ucast (drop_bit 8 (of_be2 [a, b])) = a"
    using b d by (intro word_uint_eqI) (simp add: unsigned_ucast_eq take_bit_eq_mod uint_div uint_of_be2)
  moreover have "ucast (of_be2 [a, b]) = b"
    using b d by (intro word_uint_eqI) (simp add: unsigned_ucast_eq take_bit_eq_mod uint_of_be2)
  ultimately show ?thesis by (simp add: be2_def)
qed

lemma htons_twice [simp]: "htons e (htons e v) = v"
  by (simp add: htons_def host_order_def be2_def [of v] be2_of_be2) (simp add: be2_def [symmetric])

text \<open>The digits that \<open>%d\<close> prints.\<close>

fun dec :: "nat \<Rightarrow> string" where
  "dec n = (if n < 10 then [] else dec (n div 10)) @ [char_of (48 + n mod 10)]"

declare dec.simps [simp del]

lemma dec_digits: "c \<in> set (dec n) \<Longrightarrow> is_digit c"
proof (induction n rule: dec.induct)
  case (1 n)
  have "is_digit (char_of (48 + n mod 10))" by (simp add: is_digit_def)
  then show ?case using 1 by (subst (asm) (2) dec.simps) (auto split: if_splits)
qed

lemma dec_value: "foldl (\<lambda>a c. 10 * a + (of_char c - 48)) 0 (dec n) = int n"
proof (induction n rule: dec.induct)
  case (1 n)
  have "(of_char (char_of (48 + n mod 10) :: char) :: int) = 48 + int (n mod 10)"
    using of_nat_of_char [of "char_of (48 + n mod 10) :: char", where 'a = int] by simp
  then show ?case using 1 by (subst dec.simps) (simp add: zmod_int zdiv_int)
qed

lemma dec_not_Nil: "dec n \<noteq> []"
  by (subst dec.simps) simp

lemma atoi_dec:
  assumes "n < 2147483648"
  shows "atoi (dec n) = Some (int n)"
proof -
  obtain c cs where c: "dec n = c # cs" using dec_not_Nil by (cases "dec n") auto
  have d: "is_digit c" using dec_digits [of c n] by (simp add: c)
  have "\<not> is_space c" "c \<noteq> CHR ''-''" "c \<noteq> CHR ''+''" using d by (auto simp: is_digit_def is_space_def)
  moreover have "takeWhile is_digit (dec n) = dec n" using dec_digits by (simp add: takeWhile_eq_all_conv)
  ultimately show ?thesis using assms dec_value [of n] by (simp add: atoi_def Let_def c)
qed

lemma ip_loop_copies:
  assumes "CHR '':'' \<notin> set ip" and "ip \<noteq> []" and "length ip \<le> n"
  shows "ip_loop n (ip @ CHR '':'' # rest) = Some (ip, CHR '':'' # rest)"
  using assms
proof (induction ip arbitrary: n)
  case (Cons c ip)
  obtain m where n: "n = Suc m" using Cons.prems(3) by (cases n) auto
  show ?case
  proof (cases ip)
    case (Cons d ds)
    then show ?thesis using Cons.IH [of m] Cons.prems by (auto simp: n)
  qed (simp add: n)
qed simp

lemma c_str_id: "NUL \<notin> set s \<Longrightarrow> c_str s = s" "NUL \<notin> set s \<Longrightarrow> c_str (s @ [NUL]) = s"
  by (simp_all add: c_str_def takeWhile_eq_all_conv takeWhile_append2) (auto intro!: takeWhile_append2 [THEN trans])

lemma digit_not: "is_digit c \<Longrightarrow> c \<noteq> NUL" "is_digit c \<Longrightarrow> c \<noteq> CHR '':''"
  by (auto simp: is_digit_def NUL_def)

lemma digit_colon: "NUL \<noteq> CHR '':''"
proof
  assume "NUL = CHR '':''"
  then have "(of_char NUL :: nat) = of_char (CHR '':'')" by simp
  then show False by (simp add: NUL_def)
qed

lemma port_less: "unat (port :: u16) < 2147483648"
proof -
  have "unat port < 2 ^ LENGTH(16)" by (rule unsigned_less)
  then show ?thesis by simp
qed

text \<open>An address as text, \<open>ip:port\<close>, is read back.\<close>

lemma string_to_addr_reads:
  assumes "ip \<noteq> []" and "length ip < IP_SIZE" and "CHR '':'' \<notin> set ip" and "NUL \<notin> set ip"
  shows "su_string_to_addr inet_addr e (ip @ '':'' @ dec (unat port)) = Some (su_set_addr inet_addr e ip port)"
proof -
  have "NUL \<notin> set (dec (unat port))" using dec_digits digit_not by blast
  moreover have "unat port < 2147483648" by (rule port_less)
  ultimately show ?thesis
    using ip_loop_copies [OF assms(3,1), of 31 "dec (unat port) @ [NUL]"] assms(2,4)
    by (simp add: su_string_to_addr_def c_str_id atoi_dec)
qed

lemma addrstr_to_iport_reads:
  assumes "length ip < cap"
  shows "su_addrstr_to_iport cap (ip @ '':'' @ dec (unat port)) = Some (Some ip, uint (port :: u16))"
proof -
  let ?d = "rev (dec (unat port))"
  have n: "c \<noteq> CHR '':''" if "c \<in> set ?d" for c using that dec_digits digit_not by auto
  have "takeWhile (\<lambda>c. c \<noteq> CHR '':'') (?d @ CHR '':'' # rev ip) = ?d" "dropWhile (\<lambda>c. c \<noteq> CHR '':'') (?d @ CHR '':'' # rev ip) = CHR '':'' # rev ip"
    using n by (subst takeWhile_append2 dropWhile_append2; simp)+
  then show ?thesis
    using assms port_less [of port] by (simp add: su_addrstr_to_iport_def Let_def atoi_dec)
qed

text \<open>Without a colon among the first characters the loop runs over the end of a short text.\<close>

lemma string_to_addr_overruns:
  assumes "CHR '':'' \<notin> set str" and "length str < IP_SIZE - 1"
  shows "su_string_to_addr inet_addr e str = None"
proof -
  have "CHR '':'' \<notin> set s \<Longrightarrow> length s < n \<Longrightarrow> ip_loop n (s @ [NUL]) = None" for s n
  proof (induction s arbitrary: n)
    case Nil
    then show ?case by (cases n) simp_all
  next
    case (Cons c s)
    obtain m where n: "n = Suc m" using Cons.prems(2) by (cases n) auto
    obtain d ds where d: "s @ [NUL] = d # ds" "d \<noteq> CHR '':''" using Cons.prems(1) digit_colon by (cases s) auto
    show ?case using Cons.IH [of m] Cons.prems by (simp add: n d)
  qed
  from this [OF assms] show ?thesis by (simp add: su_string_to_addr_def)
qed

end
