(* ===== verification/Razor_Header.thy ===== *)
theory Razor_Header
  imports Bin_Stream
begin

text \<open>
  The header of the messages in an ns-3 simulation (\<open>razor_header.cc\<close>, \<open>razor_header.h\<close>): a message is the memory image
  of a C struct in the host's byte order (\<open>m_message\<close>), and \<open>Serialize\<close> and \<open>Deserialize\<close> copy its members to and from network order.
  A member is its width and offset in the struct, with the padding that C's alignment gives. \<open>None\<close> is a failed assertion, or an access outside an
  object or the packet. ns-3's \<open>AddHeader\<close> reserves \<open>GetSerializedSize\<close> bytes, which may be more than are written.
\<close>

subsection \<open>Messages\<close>

abbreviation RZ_MIN_MSG_ID :: u8 where "RZ_MIN_MSG_ID \<equiv> 0"
abbreviation RZ_CONNECT :: u8 where "RZ_CONNECT \<equiv> 1"
abbreviation RZ_CONNECT_ACK :: u8 where "RZ_CONNECT_ACK \<equiv> 2"
abbreviation RZ_DISCONNECT :: u8 where "RZ_DISCONNECT \<equiv> 3"
abbreviation RZ_DISCONNECT_ACK :: u8 where "RZ_DISCONNECT_ACK \<equiv> 4"
abbreviation RZ_PING :: u8 where "RZ_PING \<equiv> 5"
abbreviation RZ_PONG :: u8 where "RZ_PONG \<equiv> 6"
abbreviation RZ_SEG :: u8 where "RZ_SEG \<equiv> 7"
abbreviation RZ_SEG_ACK :: u8 where "RZ_SEG_ACK \<equiv> 8"
abbreviation RZ_FEEDBACK :: u8 where "RZ_FEEDBACK \<equiv> 9"
abbreviation RZ_MAX_MSG_ID :: u8 where "RZ_MAX_MSG_ID \<equiv> 10"

abbreviation MAX_MSGLEN :: nat where "MAX_MSGLEN \<equiv> 1400"

text \<open>The structs: \<open>sizeof\<close> and members.\<close>

type_synonym member = "nat \<times> nat"

definition rz_sizeof :: "u8 \<Rightarrow> nat" where
  "rz_sizeof mid =
     (if mid = RZ_CONNECT then 136 else if mid = RZ_CONNECT_ACK \<or> mid = RZ_DISCONNECT_ACK then 8
      else if mid = RZ_DISCONNECT then 4 else if mid = RZ_PING \<or> mid = RZ_PONG then 8
      else if mid = RZ_SEG then 24 else if mid = RZ_SEG_ACK then 172 else if mid = RZ_FEEDBACK then 1008 else 0)"

abbreviation rz_cid :: member where "rz_cid \<equiv> (4, 0)"
abbreviation rz_token_size :: member where "rz_token_size \<equiv> (2, 4)"
abbreviation rz_token :: "nat \<Rightarrow> member" where "rz_token j \<equiv> (1, 6 + j)"
abbreviation rz_result :: member where "rz_result \<equiv> (4, 4)"
abbreviation rz_ts :: member where "rz_ts \<equiv> (8, 0)"
abbreviation rz_nack :: "nat \<Rightarrow> member" where "rz_nack i \<equiv> (2, 10 + 2 * i)"
abbreviation rz_feedback :: "nat \<Rightarrow> member" where "rz_feedback i \<equiv> (1, 6 + i)"

text \<open>Packet number, frame number, time, index, total, type, remb, send time, transport number, size.\<close>

definition rz_segment :: "member list" where
  "rz_segment = [(4, 0), (4, 4), (4, 8), (2, 12), (2, 14), (1, 16), (1, 17), (2, 18), (2, 20), (2, 22)]"

definition rz_read_u16 :: "env \<Rightarrow> nat \<Rightarrow> u8 list \<Rightarrow> nat option" where
  "rz_read_u16 e off m = map_option (\<lambda>bs. unat (of_be2 (host_order e bs))) (peek off 2 m)"

definition rz_read_u8 :: "nat \<Rightarrow> u8 list \<Rightarrow> nat option" where
  "rz_read_u8 off m = map_option (\<lambda>bs. unat (hd bs)) (peek off 1 m)"

subsection \<open>The header\<close>

record razor_header =
  m_ver :: u8
  m_mid :: u8
  m_uid :: u32
  m_message :: "u8 list"

text \<open>\<open>m_mid\<close> and \<open>m_uid\<close> are what the memory held.\<close>

definition razor_header_new :: "u8 \<Rightarrow> u32 \<Rightarrow> razor_header" where
  "razor_header_new mid uid = \<lparr>m_ver = 1, m_mid = mid, m_uid = uid, m_message = replicate MAX_MSGLEN 0\<rparr>"

definition GetSerializedSize :: "razor_header \<Rightarrow> nat" where
  "GetSerializedSize h = 6 + rz_sizeof (m_mid h)"

definition SetHeader :: "u8 \<Rightarrow> u8 \<Rightarrow> u32 \<Rightarrow> razor_header \<Rightarrow> razor_header" where
  "SetHeader ver mid uid h = h\<lparr>m_ver := ver, m_mid := mid, m_uid := uid\<rparr>"

definition GetHeader :: "razor_header \<Rightarrow> u8 \<times> u8 \<times> u32" where
  "GetHeader h = (m_ver h, m_mid h, m_uid h)"

text \<open>The cases from \<open>SIM_CONNECT_ACK\<close> to \<open>SIM_PONG\<close> run into one another, and the last one sets the length.\<close>

definition GetMessageLen :: "env \<Rightarrow> u8 \<Rightarrow> u8 list \<Rightarrow> nat option" where
  "GetMessageLen e mid message =
     (if mid = RZ_CONNECT then map_option (\<lambda>n. 4 + 2 + n) (rz_read_u16 e 4 message)
      else if mid = RZ_CONNECT_ACK \<or> mid = RZ_DISCONNECT \<or> mid = RZ_DISCONNECT_ACK \<or> mid = RZ_PING \<or> mid = RZ_PONG then Some (rz_sizeof RZ_PING)
      else if mid = RZ_SEG then Some (rz_sizeof RZ_SEG)
      else if mid = RZ_SEG_ACK then map_option (\<lambda>n. 4 + 4 + 1 + 2 * n) (rz_read_u8 8 message)
      else if mid = RZ_FEEDBACK then map_option (\<lambda>n. 4 + 2 + n) (rz_read_u16 e 4 message)
      else Some 0)"

text \<open>\<open>buf\<close> is the caller's object.\<close>

definition SetMessagePayload :: "env \<Rightarrow> razor_header \<Rightarrow> u8 list \<Rightarrow> nat \<Rightarrow> (razor_header \<times> nat) option" where
  "SetMessagePayload e h buf buflen =
     (if buflen = 0 \<or> MAX_MSGLEN < buflen then None
      else do {
        len \<leftarrow> GetMessageLen e (m_mid h) buf;
        bytes \<leftarrow> peek 0 len buf;
        m \<leftarrow> poke 0 bytes (m_message h);
        Some (h\<lparr>m_message := m\<rparr>, len)
      })"

definition GetMessage :: "env \<Rightarrow> razor_header \<Rightarrow> u8 list \<Rightarrow> nat \<Rightarrow> (u8 list \<times> nat) option" where
  "GetMessage e h buf buflen = do {
     len \<leftarrow> GetMessageLen e (m_mid h) (m_message h);
     if buflen < len then Some (buf, 0)
     else do { bytes \<leftarrow> peek 0 len (m_message h); b \<leftarrow> poke 0 bytes buf; Some (b, len) }
   }"

subsection \<open>To and from the packet\<close>

text \<open>The members that are written and read first, and the array after them, whose length is one of them.\<close>

definition fixed_members :: "u8 \<Rightarrow> member list" where
  "fixed_members mid =
     (if mid = RZ_CONNECT then [rz_cid, rz_token_size]
      else if mid = RZ_CONNECT_ACK then [rz_cid, rz_result]
      else if mid = RZ_DISCONNECT then [rz_cid]
      else if mid = RZ_DISCONNECT_ACK then [rz_cid]
      else if mid = RZ_PING then [rz_ts]
      else if mid = RZ_PONG then [rz_ts]
      else if mid = RZ_SEG then rz_segment
      else if mid = RZ_SEG_ACK then [(4, 0), (4, 4), (1, 8)]
      else if mid = RZ_FEEDBACK then [(4, 0), (2, 4)]
      else [])"

definition array_members :: "env \<Rightarrow> u8 \<Rightarrow> u8 list \<Rightarrow> member list option" where
  "array_members e mid m =
     (if mid = RZ_CONNECT then map_option (\<lambda>n. map rz_token [0..<n]) (rz_read_u16 e 4 m)
      else if mid = RZ_SEG_ACK then map_option (\<lambda>n. map rz_nack [0..<n]) (rz_read_u8 8 m)
      else if mid = RZ_FEEDBACK then map_option (\<lambda>n. map rz_feedback [0..<n]) (rz_read_u16 e 4 m)
      else Some [])"

fun put_members :: "env \<Rightarrow> member list \<Rightarrow> u8 list \<Rightarrow> u8 list option" where
  "put_members e [] m = Some []"
| "put_members e ((w, off) # ms) m = do {
     bs \<leftarrow> peek off w m;
     rest \<leftarrow> put_members e ms m;
     Some (host_order e bs @ rest)
   }"

text \<open>Reading takes the members from the packet's bytes and puts them into the struct.\<close>

fun get_members :: "env \<Rightarrow> member list \<Rightarrow> u8 list \<Rightarrow> u8 list \<Rightarrow> (u8 list \<times> u8 list) option" where
  "get_members e [] wire m = Some (wire, m)"
| "get_members e ((w, off) # ms) wire m = do {
     bs \<leftarrow> peek 0 w wire;
     m \<leftarrow> poke off (host_order e bs) m;
     get_members e ms (drop w wire) m
   }"

definition Serialize :: "env \<Rightarrow> razor_header \<Rightarrow> u8 list option" where
  "Serialize e h =
     (if \<not> (RZ_MIN_MSG_ID < m_mid h \<and> m_mid h < RZ_MAX_MSG_ID) then None
      else do {
        fixed \<leftarrow> put_members e (fixed_members (m_mid h)) (m_message h);
        members \<leftarrow> array_members e (m_mid h) (m_message h);
        arr \<leftarrow> put_members e members (m_message h);
        let out = [m_ver h, m_mid h] @ be4 (m_uid h) @ fixed @ arr;
        if length out \<le> GetSerializedSize h then Some out else None
      })"

definition Deserialize :: "env \<Rightarrow> razor_header \<Rightarrow> u8 list \<Rightarrow> (razor_header \<times> nat) option" where
  "Deserialize e h wire = do {
     hd_bytes \<leftarrow> peek 0 6 wire;
     let h = h\<lparr>m_ver := hd_bytes ! 0, m_mid := hd_bytes ! 1, m_uid := of_be4 (drop 2 hd_bytes)\<rparr>;
     (wire, m) \<leftarrow> get_members e (fixed_members (m_mid h)) (drop 6 wire) (m_message h);
     members \<leftarrow> array_members e (m_mid h) m;
     (wire, m) \<leftarrow> get_members e members wire m;
     let h = h\<lparr>m_message := m\<rparr>;
     Some (h, GetSerializedSize h)
   }"

subsection \<open>Members side by side\<close>

fun tiles :: "nat \<Rightarrow> member list \<Rightarrow> nat \<Rightarrow> bool" where
  "tiles a [] b = (a = b)"
| "tiles a ((w, off) # ms) b = (off = a \<and> tiles (a + w) ms b)"

lemma tiles_le: "tiles a ms b \<Longrightarrow> a \<le> b"
  by (induction a ms b rule: tiles.induct) auto

lemma length_host_order [simp]: "length (host_order e bs) = length bs"
  by (simp add: host_order_def)

lemma put_members_tiles:
  assumes "tiles a ms b" and "b \<le> length m"
  shows "\<exists>out. put_members e ms m = Some out \<and> length out = b - a"
  using assms
proof (induction a ms b rule: tiles.induct)
  case (2 a w off ms b)
  then have "a + w \<le> b" using tiles_le by auto
  then show ?case using 2 by (auto simp: peek_def)
qed simp

text \<open>What is read is what was written.\<close>

lemma get_members_tiles:
  assumes "tiles a ms b" and "b \<le> length m" and "b \<le> length m0" and "put_members e ms m = Some out"
  shows "get_members e ms (out @ rest) m0 = Some (rest, take a m0 @ take (b - a) (drop a m) @ drop b m0)"
  using assms
proof (induction a ms b arbitrary: out m0 rule: tiles.induct)
  case (1 a b)
  then show ?case by simp
next
  case (2 a w off ms b)
  have t: "off = a" "tiles (a + w) ms b" "a + w \<le> b" using 2(2) tiles_le by auto
  obtain out' where out: "out = host_order e (take w (drop a m)) @ out'" "put_members e ms m = Some out'"
    using 2(5) t by (auto simp: peek_def split: bind_splits if_splits)
  let ?m1 = "take a m0 @ take w (drop a m) @ drop (a + w) m0"
  have l: "length (take w (drop a m)) = w" "a \<le> length m0" "a + w \<le> length m0" using t 2(3,4) by simp_all
  have "get_members e ms (out' @ rest) ?m1 = Some (rest, take (a + w) ?m1 @ take (b - (a + w)) (drop (a + w) m) @ drop b ?m1)"
    using 2(1) [OF t(2) 2(3) _ out(2)] l 2(4) by simp
  moreover have "take (a + w) ?m1 = take a m0 @ take w (drop a m)" using l by simp
  moreover have "drop b ?m1 = drop b m0" using l t(3) by simp
  moreover have "take w (drop a m) @ take (b - (a + w)) (drop (a + w) m) = take (b - a) (drop a m)"
    using take_add [of w "b - (a + w)" "drop a m"] t(3) by (simp add: add.commute)
  ultimately show ?case using l t 2(4) by (simp add: out(1) peek_def poke_def add.commute)
qed

text \<open>A struct read into another one, its fixed members first and then an array after them.\<close>

lemma members_carried:
  assumes "tiles 0 fx f" and "tiles f ms len" and "len \<le> length m1" and "len \<le> length m0"
    and "put_members e fx m1 = Some o1" and "put_members e ms m1 = Some o2"
  shows "get_members e fx (o1 @ o2 @ rest) m0 = Some (o2 @ rest, take f m1 @ drop f m0)"
    and "get_members e ms (o2 @ rest) (take f m1 @ drop f m0) = Some (rest, take len m1 @ drop len m0)"
proof -
  have f: "f \<le> len" using tiles_le [OF assms(2)] .
  then show "get_members e fx (o1 @ o2 @ rest) m0 = Some (o2 @ rest, take f m1 @ drop f m0)"
    using get_members_tiles [OF assms(1) _ _ assms(5), of m0 "o2 @ rest"] assms(3,4) by simp
  have "take f (take f m1 @ drop f m0) @ take (len - f) (drop f m1) = take len m1"
    using f assms(3) take_add [of f "len - f" m1] by simp
  moreover have "drop len (take f m1 @ drop f m0) = drop len m0" using f assms(3,4) by simp
  moreover have "len \<le> length (take f m1 @ drop f m0)" using f assms(3,4) by simp
  ultimately show "get_members e ms (o2 @ rest) (take f m1 @ drop f m0) = Some (rest, take len m1 @ drop len m0)"
    using get_members_tiles [OF assms(2,3) _ assms(6), of "take f m1 @ drop f m0" rest] by (simp flip: append_assoc)
qed

subsection \<open>Messages carried whole\<close>

definition carried :: "env \<Rightarrow> u8 \<Rightarrow> u8 list \<Rightarrow> bool" where
  "carried e mid buf \<longleftrightarrow> mid \<in> {RZ_CONNECT, RZ_CONNECT_ACK, RZ_PING, RZ_PONG, RZ_SEG, RZ_FEEDBACK} \<and> length buf = rz_sizeof mid
     \<and> (mid = RZ_CONNECT \<longrightarrow> pred_option (\<lambda>n. n \<le> 128) (rz_read_u16 e 4 buf)) \<and> (mid = RZ_FEEDBACK \<longrightarrow> pred_option (\<lambda>n. n \<le> 1000) (rz_read_u16 e 4 buf))"

lemma tiles_bytes: "tiles (k + a) (map (\<lambda>j. (1, k + j)) [a..<a + n]) (k + a + n)"
proof (induction n arbitrary: a)
  case (Suc n)
  have "[a..<a + Suc n] = a # [Suc a..<Suc a + n]" by (simp add: upt_conv_Cons)
  then show ?case using Suc [of "Suc a"] by simp
qed simp

lemma read_u16_prefix:
  assumes "take 6 m = take 6 buf" and "6 \<le> length buf"
  shows "rz_read_u16 e 4 m = rz_read_u16 e 4 buf"
proof -
  have "length (take 6 m) = 6" using assms by simp
  then have "6 \<le> length m" by simp
  moreover have "take 2 (drop 4 m) = drop 4 (take 6 m)" "take 2 (drop 4 buf) = drop 4 (take 6 buf)" by (simp_all add: drop_take)
  ultimately show ?thesis using assms by (simp add: rz_read_u16_def peek_def)
qed

text \<open>A message is its members up to \<open>f\<close> and an array up to its length.\<close>

lemma message_shape:
  assumes "carried e mid buf"
  shows "\<exists>len f ms. tiles 0 (fixed_members mid) f \<and> tiles f ms len \<and> len \<le> rz_sizeof mid \<and> 0 < len
    \<and> (\<forall>m. take f m = take f buf \<longrightarrow> array_members e mid m = Some ms \<and> GetMessageLen e mid m = Some len)"
proof -
  have a: "\<exists>len f ms. tiles 0 (fixed_members mid) f \<and> tiles f ms len \<and> len \<le> rz_sizeof mid \<and> 0 < len
    \<and> (\<forall>m. take f m = take f buf \<longrightarrow> array_members e mid m = Some ms \<and> GetMessageLen e mid m = Some len)"
    if c: "mid = RZ_CONNECT \<and> mx = 128 \<or> mid = RZ_FEEDBACK \<and> mx = 1000" for mx :: nat
  proof -
    have l: "6 \<le> length buf" using assms c by (auto simp: carried_def rz_sizeof_def)
    obtain n where n: "rz_read_u16 e 4 buf = Some n" "n \<le> mx"
      using assms c by (auto simp: carried_def rz_read_u16_def peek_def rz_sizeof_def)
    have "\<forall>m. take 6 m = take 6 buf \<longrightarrow> rz_read_u16 e 4 m = Some n" using read_u16_prefix [OF _ l] n(1) by metis
    then show ?thesis
      using tiles_bytes [of 6 0 n, simplified] n(2) c
      by (intro exI [of _ "6 + n"] exI [of _ 6] exI [of _ "map (\<lambda>j. (1, 6 + j)) [0..<n]"])
        (auto simp: fixed_members_def array_members_def GetMessageLen_def rz_sizeof_def)
  qed
  have "\<exists>len f ms. tiles 0 (fixed_members mid) f \<and> tiles f ms len \<and> len \<le> rz_sizeof mid \<and> 0 < len
    \<and> (\<forall>m. take f m = take f buf \<longrightarrow> array_members e mid m = Some ms \<and> GetMessageLen e mid m = Some len)"
    if "mid \<in> {RZ_CONNECT_ACK, RZ_PING, RZ_PONG, RZ_SEG}"
    using that by (intro exI [of _ "rz_sizeof mid"] exI [of _ "rz_sizeof mid"] exI [of _ "[]"])
      (auto simp: fixed_members_def array_members_def GetMessageLen_def rz_sizeof_def rz_segment_def)
  then show ?thesis using a assms by (auto simp: carried_def)
qed

lemma rz_sizeof_max: "rz_sizeof mid \<le> MAX_MSGLEN"
  by (simp add: rz_sizeof_def)



subsection \<open>Messages that are not\<close>

text \<open>The length of a disconnect is taken for that of a ping: the sender reads behind its struct, and the receiver gets nothing.\<close>

lemma disconnect_overread: "length buf = rz_sizeof RZ_DISCONNECT \<Longrightarrow> m_mid h = RZ_DISCONNECT \<Longrightarrow> SetMessagePayload e h buf n = None"
  by (simp add: SetMessagePayload_def GetMessageLen_def peek_def rz_sizeof_def)

lemma disconnect_not_read: "m_mid h = RZ_DISCONNECT \<Longrightarrow> GetMessage e h buf (rz_sizeof RZ_DISCONNECT) = Some (buf, 0)"
  by (simp add: GetMessage_def GetMessageLen_def rz_sizeof_def)

text \<open>The result of a disconnect's answer is not written.\<close>

lemma disconnect_ack_result_lost:
  assumes "m_mid h = RZ_DISCONNECT_ACK" and "Serialize e h = Some out"
  shows "length out = 10"
proof -
  have "length (be4 (m_uid h)) = 4" by (simp add: be4_def)
  then show ?thesis
    using assms by (auto simp: Serialize_def fixed_members_def array_members_def peek_def Let_def split: bind_splits if_splits)
qed

text \<open>The byte of padding before \<open>nack\<close> is not counted: the last byte of the last number is not copied.\<close>

lemma ack_last_nack_cut:
  assumes "GetMessageLen e RZ_SEG_ACK m = Some len" and "rz_read_u8 8 m = Some n" and "0 < n"
  shows "\<exists>w off. rz_nack (n - 1) = (w, off) \<and> len + 1 = off + w"
  using assms by (simp add: GetMessageLen_def)

text \<open>A report that announces more than fits is read beyond \<open>m_message\<close>.\<close>

lemma get_members_overflow:
  assumes "(w, off) \<in> set ms" and "length m < off + w"
  shows "get_members e ms wire m = None"
  using assms
proof (induction e ms wire m rule: get_members.induct)
  case (2 e w' off' ms wire m)
  show ?case
  proof (cases "peek 0 w' wire")
    case (Some bs)
    then have "length bs = w'" by (auto simp: peek_def split: if_splits)
    then show ?thesis using 2 Some by (cases "poke off' (host_order e bs) m") (auto simp: poke_def split: if_splits)
  qed simp
qed simp

lemma report_overflows:
  assumes "wire = [1, RZ_FEEDBACK] @ uid @ base @ be2 n @ payload" and "length uid = 4" and "length base = 4"
    and "length (m_message h) = MAX_MSGLEN" and "MAX_MSGLEN - 6 < unat n"
  shows "Deserialize e h wire = None"
proof -
  define m where "m = host_order e base @ host_order e (be2 n) @ drop 6 (m_message h)"
  have b2: "length (be2 n) = 2" by (simp add: be2_def)
  have "get_members e (fixed_members RZ_FEEDBACK) (base @ be2 n @ payload) (m_message h) = Some (payload, m)"
    using assms(2-4) b2 by (simp add: fixed_members_def peek_def poke_def m_def)
  moreover have "rz_read_u16 e 4 m = Some (unat n)"
    using assms(3) b2 by (simp add: rz_read_u16_def peek_def m_def)
  moreover have "get_members e (map rz_feedback [0..<unat n]) payload m = None"
    using assms(3-5) b2 by (intro get_members_overflow [of 1 "6 + 1394"]) (auto simp: m_def image_iff intro!: bexI [of _ 1394])
  ultimately show ?thesis
    using assms(1,2) b2 by (simp add: Deserialize_def Let_def peek_def array_members_def)
qed

end
