(* ===== verification/Ns3_Sim.thy ===== *)
theory Ns3_Sim
  imports Sim_Net Sender_CC Receiver_CC U32_Loop
begin

text \<open>
  The controllers in an ns-3 simulation (\<open>sim_sender.cc\<close>, \<open>sim_receiver.cc\<close>, \<open>sim_endpoint.cc\<close> beside \<open>razor\<close>): video is only sizes. \<open>GET_SYS_MS\<close> is
  the simulated time there (\<open>c_call_cplus.cc\<close>), the same at every read of an operation, and is an argument \<open>now\<close>. What ns-3 does is in the results: packets
  sent, callbacks, and for each of the events an object keeps the time at which it is due (\<open>None\<close>: run, cancelled or never scheduled, which is \<open>IsExpired\<close>).
  Packets carry the messages of \<open>Razor_Header\<close> as values. \<open>None\<close> is undefined behaviour or a failed assertion.
\<close>

subsection \<open>Messages and results\<close>

record ns_segment =
  g_packet_id :: u32
  g_fid :: u32
  g_timestamp :: u32
  g_index :: u16
  g_total :: u16
  g_ftype :: u8
  g_remb :: u8
  g_send_ts :: u16
  g_transport_seq :: u16
  g_data_size :: u16

datatype ns_message = Ns_Connect u32 "u8 list" | Ns_Connect_Ack u32 u32 | Ns_Disconnect u32 | Ns_Disconnect_Ack u32 u32 | Ns_Ping int | Ns_Pong int
  | Ns_Seg ns_segment | Ns_Seg_Ack | Ns_Feedback "u8 list"

text \<open>A packet has the sender's user number and, after a segment, \<open>data_size\<close> bytes of nothing.\<close>

datatype ns_out = Ns_Send u32 ns_message | Ns_Sent_Seq u32 | Ns_Lost_Seq u32 | Ns_Rate u32 | Ns_Connected u32 | Ns_Failed u32

abbreviation NS_HEADER_LEN :: nat where "NS_HEADER_LEN \<equiv> 8 + 24"

subsection \<open>The sender\<close>

record ns_sender =
  ns_uid :: u32
  ns_frame_id :: u32
  ns_packet_id :: u32
  ns_transport_seq :: u16
  ns_first_ts :: int
  ns_remb :: u8
  ns_pace_at :: "int option"
  ns_queue_len :: u32
  ns_max_split :: u32
  ns_segment_size :: u32
  ns_loss_fraction :: u8
  ns_cc :: "sender_cc option"
  ns_cache :: "(u32 \<times> ns_segment) list"
  ns_has_send :: bool
  ns_has_rate :: bool
  ns_has_sent :: bool

definition ns_new_cc :: "host \<Rightarrow> int \<Rightarrow> env \<Rightarrow> u32 \<Rightarrow> env \<times> sender_cc option" where
  "ns_new_cc w now e queue_len = razor_sender_create e (malloc_ok w) (\<lambda>_. now) (new_ack w) True True (sint queue_len)"

definition ns_sender_new :: "host \<Rightarrow> int \<Rightarrow> env \<Rightarrow> env \<times> ns_sender" where
  "ns_sender_new w now e =
     (let (e, cc) = ns_new_cc w now e 3000
      in (e, \<lparr>ns_uid = 0, ns_frame_id = 1, ns_packet_id = 1, ns_transport_seq = 0, ns_first_ts = -1, ns_remb = 1, ns_pace_at = None, ns_queue_len = 3000,
            ns_max_split = 1000, ns_segment_size = 1000, ns_loss_fraction = 0, ns_cc = cc, ns_cache = [], ns_has_send = False, ns_has_rate = False,
            ns_has_sent = False\<rparr>))"

definition ns_sender_reset :: "host \<Rightarrow> int \<Rightarrow> env \<Rightarrow> ns_sender \<Rightarrow> env \<times> ns_sender" where
  "ns_sender_reset w now e s =
     (let (e, cc) = ns_new_cc w now e (ns_queue_len s)
      in (e, s\<lparr>ns_frame_id := 0, ns_packet_id := 0, ns_transport_seq := 0, ns_first_ts := -1, ns_loss_fraction := 0, ns_cache := [], ns_cc := cc,
            ns_pace_at := Some now\<rparr>))"

definition ns_sender_update_rtt :: "u32 \<Rightarrow> u32 \<Rightarrow> ns_sender \<Rightarrow> ns_sender" where
  "ns_sender_update_rtt rtt rtt_var s = s\<lparr>ns_cc := razor_sender_update_rtt (ns_cc s) (sint (rtt + rtt_var))\<rparr>"

text \<open>The sizes of the packets of a frame; \<open>None\<close>: a division by zero, or more packets than the array has room for.\<close>

definition ns_frame_split :: "u32 \<Rightarrow> u32 \<Rightarrow> u16 list" where
  "ns_frame_split segment_size sz =
     (if sz < segment_size then [ucast sz]
      else (let ret = ucast (sz div segment_size) :: u16; remain_size = ucast (sz mod segment_size) :: u16
            in replicate (unat ret) (ucast segment_size) @ (if 0 < remain_size then [remain_size] else [])))"

fun ns_put_segments :: "int \<Rightarrow> u8 \<Rightarrow> u32 \<Rightarrow> u16 \<Rightarrow> u16 \<Rightarrow> u16 list \<Rightarrow> ns_sender \<Rightarrow> ns_sender option" where
  "ns_put_segments now ftype timestamp seg_count i [] s = Some s"
| "ns_put_segments now ftype timestamp seg_count i (n # splits) s =
     (let seg = \<lparr>g_packet_id = ns_packet_id s, g_fid = ns_frame_id s, g_timestamp = timestamp, g_index = i, g_total = seg_count, g_ftype = ftype,
            g_remb = ns_remb s, g_send_ts = 0, g_transport_seq = 0, g_data_size = n\<rparr>;
          c = (if map_of (ns_cache s) (ns_packet_id s) = None then sl_ins (ns_packet_id s) seg (ns_cache s) else ns_cache s)
      in if ns_cc s = None then None
         else ns_put_segments now ftype timestamp seg_count (i + 1) splits
           (s\<lparr>ns_cache := c, ns_cc := fst (razor_sender_add_packet now (ns_cc s) (ns_packet_id s) 0 (unat n + NS_HEADER_LEN)),
              ns_packet_id := ns_packet_id s + 1\<rparr>))"

definition ns_put_fake_data :: "int \<Rightarrow> u8 \<Rightarrow> u32 \<Rightarrow> ns_sender \<Rightarrow> ns_sender option" where
  "ns_put_fake_data now ftype sz s =
     (if ns_segment_size s = 0 \<or> ns_max_split s \<le> sz div ns_segment_size s then None
      else (let splits = ns_frame_split (ns_segment_size s) sz;
                (timestamp, s) = (if ns_first_ts s = -1 then (0, s\<lparr>ns_first_ts := now\<rparr>) else (word_of_int (now - ns_first_ts s), s))
            in map_option (\<lambda>s. s\<lparr>ns_frame_id := ns_frame_id s + 1\<rparr>)
                 (ns_put_segments now ftype timestamp (word_of_nat (length splits)) 0 splits s)))"

definition ns_change_bitrate :: "ns_sender \<Rightarrow> notification \<Rightarrow> (ns_sender \<times> ns_out list) option" where
  "ns_change_bitrate s n =
     (case n of (bitrate, new_loss, rtt) \<Rightarrow>
       let packet_size_bit = (word_of_nat NS_HEADER_LEN + ns_segment_size s) * 8;
           per_packets_second = (bitrate + packet_size_bit - 1) div packet_size_bit;
           overhead_bitrate = per_packets_second * word_of_nat NS_HEADER_LEN * 8;
           payload_bitrate = bitrate - overhead_bitrate;
           fraction = (if ns_loss_fraction s = 0 then new_loss
             else word_of_int ((3 * uint (ns_loss_fraction s) + uint new_loss) div 4));
           loss = (fp_of_int (uint fraction) :: double) div fp_lit 255;
           loss = (if fp_lit 0.5 < loss then fp_lit 0.5 else loss)
       in if packet_size_bit = 0 then None
          else do {
            v \<leftarrow> fp_to_u32 ((fp_lit 1 - loss) * fp_of_int (uint payload_bitrate));
            Some (s\<lparr>ns_loss_fraction := fraction\<rparr>, if ns_has_rate s then [Ns_Rate (v div 1000)] else [])
          })"

definition ns_pace_packet_send :: "int \<Rightarrow> ns_sender \<Rightarrow> send_call \<Rightarrow> (ns_sender \<times> ns_out list) option" where
  "ns_pace_packet_send now s call =
     (case call of (packet_id, retrans, sz) \<Rightarrow>
       case (if ns_has_send s then map_of (ns_cache s) packet_id else None) of None \<Rightarrow> Some (s, [])
       | Some seg \<Rightarrow>
         (let s = s\<lparr>ns_transport_seq := ns_transport_seq s + 1, ns_cache := sl_del packet_id (ns_cache s)\<rparr>;
              seg = seg\<lparr>g_send_ts := word_of_int (now - ns_first_ts s - uint (g_timestamp seg)), g_transport_seq := ns_transport_seq s\<rparr>
          in do {
            cc \<leftarrow> razor_sender_on_send now (ns_cc s) (g_transport_seq seg) (NS_HEADER_LEN + unat (g_data_size seg));
            Some (s\<lparr>ns_cc := cc\<rparr>, (if ns_has_sent s then [Ns_Sent_Seq (g_packet_id seg)] else []) @ [Ns_Send (ns_uid s) (Ns_Seg seg)])
          }))"

text \<open>The callbacks of one call of the controller.\<close>

fun ns_callbacks :: "(ns_sender \<Rightarrow> 'c \<Rightarrow> (ns_sender \<times> ns_out list) option) \<Rightarrow> ns_sender \<Rightarrow> 'c list \<Rightarrow> (ns_sender \<times> ns_out list) option" where
  "ns_callbacks f s [] = Some (s, [])"
| "ns_callbacks f s (c # cs) = do {
     (s, out) \<leftarrow> f s c;
     (s, out') \<leftarrow> ns_callbacks f s cs;
     Some (s, out @ out')
   }"

definition ns_process_feedback :: "host \<Rightarrow> int \<Rightarrow> env \<Rightarrow> u8 list \<Rightarrow> ns_sender \<Rightarrow> (ns_sender \<times> ns_out list) option" where
  "ns_process_feedback w now e payload s = do {
     (cc, ns) \<leftarrow> razor_sender_on_feedback e (libc_qsort w) (\<lambda>_. now) (new_hist w) (stack_msg w) (ns_cc s) payload;
     ns_callbacks ns_change_bitrate (s\<lparr>ns_cc := cc\<rparr>) ns
   }"

definition ns_set_bitrates :: "int \<Rightarrow> u32 \<Rightarrow> u32 \<Rightarrow> u32 \<Rightarrow> ns_sender \<Rightarrow> (ns_sender \<times> ns_out list) option" where
  "ns_set_bitrates now min_bitrate start_bitrate max_bitrate s =
     (let (cc, ns) = razor_sender_set_bitrates (\<lambda>_. now) (ns_cc s) min_bitrate start_bitrate max_bitrate
      in ns_callbacks ns_change_bitrate (s\<lparr>ns_cc := cc\<rparr>) ns)"

definition ns_pace_start :: "int \<Rightarrow> ns_sender \<Rightarrow> ns_sender" where
  "ns_pace_start now s = s\<lparr>ns_pace_at := Some now\<rparr>"

definition ns_pace_heartbeat :: "int \<Rightarrow> ns_sender \<Rightarrow> (ns_sender \<times> ns_out list) option" where
  "ns_pace_heartbeat now s =
     (if ns_pace_at s \<noteq> None \<or> ns_cc s = None then Some (s, [])
      else do {
        (cc, calls, ns) \<leftarrow> razor_sender_heartbeat (\<lambda>_. now) (ns_cc s);
        (s, out) \<leftarrow> ns_callbacks (ns_pace_packet_send now) (s\<lparr>ns_cc := cc\<rparr>) calls;
        (s, out') \<leftarrow> ns_callbacks ns_change_bitrate s ns;
        Some (s\<lparr>ns_pace_at := Some (now + 5)\<rparr>, out @ out')
      })"

subsection \<open>The receiver\<close>

text \<open>The fields for playing video, which nothing reads, are left out.\<close>

record ns_receiver =
  nr_uid :: u32
  nr_min_bitrate :: u32
  nr_max_bitrate :: u32
  nr_first :: bool
  nr_stats_len :: u32
  nr_base_seq :: u32
  nr_cc :: "receiver_cc option"
  nr_heartbeat_at :: "int option"
  nr_stats_at :: "int option"
  nr_has_feedback :: bool
  nr_has_loss :: bool

definition nr_new_cc :: "int \<Rightarrow> u32 \<Rightarrow> u32 \<Rightarrow> receiver_cc option" where
  "nr_new_cc now min_bitrate max_bitrate = razor_receiver_create (sint min_bitrate) (sint max_bitrate) (int NS_HEADER_LEN) now"

definition ns_receiver_new :: "int \<Rightarrow> ns_receiver" where
  "ns_receiver_new now =
     \<lparr>nr_uid = 0, nr_min_bitrate = word_of_int MIN_BITRATE, nr_max_bitrate = word_of_int MAX_BITRATE, nr_first = True, nr_stats_len = 0, nr_base_seq = 0,
      nr_cc = nr_new_cc now (word_of_int MIN_BITRATE) (word_of_int MAX_BITRATE), nr_heartbeat_at = None, nr_stats_at = None,
      nr_has_feedback = False, nr_has_loss = False\<rparr>"

definition ns_receiver_reset :: "int \<Rightarrow> ns_receiver \<Rightarrow> ns_receiver" where
  "ns_receiver_reset now r =
     r\<lparr>nr_stats_len := 0, nr_first := True, nr_cc := nr_new_cc now (nr_min_bitrate r) (nr_max_bitrate r), nr_heartbeat_at := None\<rparr>"

definition ns_receiver_set_bitrate :: "int \<Rightarrow> u32 \<Rightarrow> u32 \<Rightarrow> ns_receiver \<Rightarrow> ns_receiver" where
  "ns_receiver_set_bitrate now min_bitrate max_bitrate r =
     ns_receiver_reset now (r\<lparr>nr_min_bitrate := min_bitrate, nr_max_bitrate := max_bitrate\<rparr>)"

definition ns_send_feedback :: "ns_receiver \<Rightarrow> u8 list \<Rightarrow> ns_out list option" where
  "ns_send_feedback r payload =
     (if SIM_FEEDBACK_SIZE < length payload then None
      else Some (if nr_has_feedback r then [Ns_Send (nr_uid r) (Ns_Feedback payload)] else []))"

definition ns_recv_fake_data :: "int \<Rightarrow> ns_segment \<Rightarrow> ns_receiver \<Rightarrow> (ns_receiver \<times> ns_out list) option" where
  "ns_recv_fake_data now seg r =
     (let lost = (if g_packet_id seg \<noteq> nr_base_seq r + 1 \<and> nr_has_loss r
            then map (\<lambda>i. Ns_Lost_Seq (word_of_nat i)) [unat (nr_base_seq r + 1)..<unat (g_packet_id seg)] else []);
          r = r\<lparr>nr_base_seq := g_packet_id seg\<rparr>
      in do {
        cc \<leftarrow> razor_receiver_on_received (nr_cc r) (g_transport_seq seg) (g_timestamp seg + ucast (g_send_ts seg)) (NS_HEADER_LEN + unat (g_data_size seg))
          (uint (g_remb seg)) now;
        let r = r\<lparr>nr_cc := cc, nr_stats_len := nr_stats_len r + word_of_nat (NS_HEADER_LEN + unat (g_data_size seg))\<rparr>;
        let r = (if nr_first r then r\<lparr>nr_stats_at := Some (now + 1000), nr_heartbeat_at := Some now\<rparr> else r);
        Some (r\<lparr>nr_first := False\<rparr>, lost)
      })"

definition ns_receiver_heartbeat :: "host \<Rightarrow> int \<Rightarrow> env \<Rightarrow> ns_receiver \<Rightarrow> (env \<times> ns_receiver \<times> ns_out list) option" where
  "ns_receiver_heartbeat w now e r =
     (if nr_heartbeat_at r \<noteq> None then Some (e, r, [])
      else do {
        (e, cc, d) \<leftarrow> razor_receiver_heartbeat e (malloc_ok w) (stack_msg w) now (nr_cc r);
        let r = r\<lparr>nr_cc := cc\<rparr>;
        out \<leftarrow> (case d of None \<Rightarrow> Some [] | Some payload \<Rightarrow> ns_send_feedback r payload);
        Some (e, r\<lparr>nr_heartbeat_at := Some (now + 5)\<rparr>, out)
      })"

definition ns_stats_recv_rate :: "int \<Rightarrow> ns_receiver \<Rightarrow> ns_receiver" where
  "ns_stats_recv_rate now r = (if nr_stats_at r \<noteq> None then r else r\<lparr>nr_stats_len := 0, nr_stats_at := Some (now + 1000)\<rparr>)"

definition ns_receiver_update_rtt :: "u32 \<Rightarrow> u32 \<Rightarrow> ns_receiver \<Rightarrow> ns_receiver option" where
  "ns_receiver_update_rtt rtt rtt_var r =
     (if nr_cc r = None then None else Some (r\<lparr>nr_cc := razor_receiver_cc_update_rtt (nr_cc r) (sint (rtt + rtt_var))\<rparr>))"

subsection \<open>A frame and its packets\<close>

lemma unat_ucast_u16: "unat (v :: u32) < 65536 \<Longrightarrow> unat (ucast v :: u16) = unat v"
  by (simp add: unsigned_ucast_eq take_bit_eq_mod)

lemma ns_frame_split_ok:
  assumes "0 < segment_size" and "unat segment_size < 65536" and "unat sz div unat segment_size < 1000"
  shows "sum_list (map unat (ns_frame_split segment_size sz)) = unat sz" and "length (ns_frame_split segment_size sz) \<le> 1000"
    and "0 < length (ns_frame_split segment_size sz)" and "\<forall>n\<in>set (ns_frame_split segment_size sz). unat n \<le> unat segment_size"
proof -
  have s: "0 < unat segment_size" using assms(1) by (simp add: word_less_nat_alt)
  have q: "unat (ucast (sz div segment_size) :: u16) = unat sz div unat segment_size"
    using assms(3) by (simp add: unat_ucast_u16 unat_div)
  have "unat sz mod unat segment_size < unat segment_size" using s by simp
  then have r: "unat (ucast (sz mod segment_size) :: u16) = unat sz mod unat segment_size" "unat sz mod unat segment_size \<le> unat segment_size"
    using assms(2) by (simp_all add: unat_ucast_u16 unat_mod)
  have z: "unat (ucast segment_size :: u16) = unat segment_size" using assms(2) by (rule unat_ucast_u16)
  have lt: "sz < segment_size \<Longrightarrow> unat (ucast sz :: u16) = unat sz \<and> unat sz < unat segment_size"
    using assms(2) by (auto simp: unat_ucast_u16 word_less_nat_alt)
  have pos: "0 < (ucast (sz mod segment_size) :: u16) \<longleftrightarrow> 0 < unat sz mod unat segment_size"
    by (simp add: word_less_nat_alt r(1))
  show "sum_list (map unat (ns_frame_split segment_size sz)) = unat sz"
    using lt by (auto simp: ns_frame_split_def Let_def q r z pos sum_list_replicate)
  show "length (ns_frame_split segment_size sz) \<le> 1000" using assms(3) by (simp add: ns_frame_split_def Let_def q)
  have "\<not> sz < segment_size \<Longrightarrow> 0 < unat sz div unat segment_size" using s by (simp add: div_greater_zero_iff word_less_nat_alt)
  then show "0 < length (ns_frame_split segment_size sz)" by (auto simp: ns_frame_split_def Let_def q)
  show "\<forall>n\<in>set (ns_frame_split segment_size sz). unat n \<le> unat segment_size"
    using lt r z by (auto simp: ns_frame_split_def Let_def)
qed

text \<open>A packet is sent once: it leaves the cache with the call that sends it, and a second call finds nothing.\<close>

lemma ns_packet_sent_once:
  assumes "ns_pace_packet_send now s (k, retrans, sz) = Some (s', out)" and "distinct (map fst (ns_cache s))"
  shows "(\<exists>uid seg. Ns_Send uid (Ns_Seg seg) \<in> set out) \<Longrightarrow> map_of (ns_cache s') k = None \<and> ns_pace_packet_send t s' (k, retrans', sz') = Some (s', [])"
proof -
  assume "\<exists>uid seg. Ns_Send uid (Ns_Seg seg) \<in> set out"
  then have "map_of (ns_cache s') k = None \<and> ns_has_send s' = ns_has_send s"
    using assms by (auto simp: ns_pace_packet_send_def Let_def sl_del_map_of split: option.splits if_splits bind_splits)
  then show ?thesis by (simp add: ns_pace_packet_send_def)
qed

subsection \<open>Lost packets\<close>

text \<open>A receiver reports exactly the numbers between the last packet and this one; none after a packet that comes late.\<close>

lemma ns_recv_reports_gap:
  assumes "ns_recv_fake_data now seg r = Some (r', out)" and "nr_has_loss r" and "nr_base_seq r \<noteq> - 1"
  shows "set out = {Ns_Lost_Seq k | k. nr_base_seq r < k \<and> k < g_packet_id seg}" and "nr_base_seq r' = g_packet_id seg"
proof -
  have b: "unat (nr_base_seq r + 1) = unat (nr_base_seq r) + 1" 
  proof -
    have "nr_base_seq r < - 1" using assms(3) u32_max [of "nr_base_seq r"] by (simp add: less_le)
    from unat_Suc_u32 [OF this] show ?thesis by simp
  qed
  have o: "out = (if g_packet_id seg \<noteq> nr_base_seq r + 1 then map (\<lambda>i. Ns_Lost_Seq (word_of_nat i)) [unat (nr_base_seq r + 1)..<unat (g_packet_id seg)] else [])"
      "nr_base_seq r' = g_packet_id seg"
    using assms(1,2) by (auto simp: ns_recv_fake_data_def Let_def split: bind_splits if_splits)
  show "nr_base_seq r' = g_packet_id seg" by (rule o(2))
  have "set out = (\<lambda>i. Ns_Lost_Seq (word_of_nat i)) ` {unat (nr_base_seq r) + 1..<unat (g_packet_id seg)}"
    using b by (auto simp: o(1))
  also have "\<dots> = {Ns_Lost_Seq k | k. nr_base_seq r < k \<and> k < g_packet_id seg}"
  proof (intro equalityI subsetI)
    fix x assume "x \<in> (\<lambda>i. Ns_Lost_Seq (word_of_nat i)) ` {unat (nr_base_seq r) + 1..<unat (g_packet_id seg)}"
    then obtain i where i: "x = Ns_Lost_Seq (word_of_nat i)" "unat (nr_base_seq r) < i" "i < unat (g_packet_id seg)" by auto
    have "unat (word_of_nat i :: u32) = i" using i(3) unat_u32 [of "g_packet_id seg"] by (simp add: unsigned_of_nat take_bit_eq_mod)
    then show "x \<in> {Ns_Lost_Seq k | k. nr_base_seq r < k \<and> k < g_packet_id seg}" using i by (auto simp: word_less_nat_alt)
  next
    fix x assume "x \<in> {Ns_Lost_Seq k | k. nr_base_seq r < k \<and> k < g_packet_id seg}"
    then obtain k where "x = Ns_Lost_Seq k" "unat (nr_base_seq r) < unat k" "unat k < unat (g_packet_id seg)" by (auto simp: word_less_nat_alt)
    then show "x \<in> (\<lambda>i. Ns_Lost_Seq (word_of_nat i)) ` {unat (nr_base_seq r) + 1..<unat (g_packet_id seg)}"
      by (intro image_eqI [of _ _ "unat k"]) simp_all
  qed
  finally show "set out = {Ns_Lost_Seq k | k. nr_base_seq r < k \<and> k < g_packet_id seg}" .
qed

end
