(* ===== verification/Ns3_Endpoint.thy ===== *)
theory Ns3_Endpoint
  imports Ns3_Sim
begin

text \<open>
  The application of an ns-3 simulation (\<open>sim_endpoint.cc\<close>): connects to a peer with growing pauses, makes a sender or a receiver, generates frames of the size that the
  controller's rate gives, measures the round trip. The messages are values, so that the faults of the codec for disconnects (\<open>Razor_Header\<close>) are not repeated here.
\<close>

datatype ns_state = ns_idle | ns_connecting | ns_connected | ns_disconnected

type_synonym ns_addr = "u32 \<times> u16"

record ns_endpoint =
  ep_initiator :: bool
  ep_uid :: u32
  ep_cid :: u32
  ep_state :: ns_state
  ep_rtt :: u32
  ep_rtt_var :: u32
  ep_con_count :: u8
  ep_con_retries :: u8
  ep_con_timeout :: int
  ep_first_rtt :: bool
  ep_sender :: "ns_sender option"
  ep_receiver :: "ns_receiver option"
  ep_packet_size :: u32
  ep_bit_rate :: u32
  ep_frame_rate :: u32
  ep_last_gen :: int
  ep_socket :: bool
  ep_peer :: ns_addr
  ep_recon_at :: "int option"
  ep_ping_at :: "int option"
  ep_gen_at :: "int option"
  ep_has_succeeded :: bool
  ep_has_failed :: bool
  ep_has_sent :: bool
  ep_has_loss :: bool

datatype ep_out = Ep_Send ns_addr u32 ns_message | Ep_Succeeded u32 | Ep_Failed u32 | Ep_Sent_Seq u32 | Ep_Lost_Seq u32

definition ns_endpoint_new :: "ns_addr \<Rightarrow> ns_endpoint" where
  "ns_endpoint_new peer =
     \<lparr>ep_initiator = False, ep_uid = 0, ep_cid = 0, ep_state = ns_idle, ep_rtt = 100, ep_rtt_var = 5, ep_con_count = 3, ep_con_retries = 3,
      ep_con_timeout = 100, ep_first_rtt = True, ep_sender = None, ep_receiver = None, ep_packet_size = 1000, ep_bit_rate = 8000000, ep_frame_rate = 40,
      ep_last_gen = 0, ep_socket = False, ep_peer = peer, ep_recon_at = None, ep_ping_at = None, ep_gen_at = None, ep_has_succeeded = False,
      ep_has_failed = False, ep_has_sent = False, ep_has_loss = False\<rparr>"

definition ep_initial_setup :: "ns_addr \<Rightarrow> ns_endpoint \<Rightarrow> ns_endpoint" where
  "ep_initial_setup dest ep = ep\<lparr>ep_peer := dest, ep_initiator := True, ep_uid := 1, ep_socket := True\<rparr>"

definition ep_bind :: "ns_endpoint \<Rightarrow> ns_endpoint" where
  "ep_bind ep = ep\<lparr>ep_socket := True\<rparr>"

definition ep_set_callback :: "bool \<Rightarrow> bool \<Rightarrow> ns_endpoint \<Rightarrow> ns_endpoint" where
  "ep_set_callback succeeded failed ep = ep\<lparr>ep_has_succeeded := succeeded, ep_has_failed := failed\<rparr>"

definition ep_send :: "ns_endpoint \<Rightarrow> u32 \<Rightarrow> ns_message \<Rightarrow> ep_out list" where
  "ep_send ep uid msg = (if ep_socket ep then [Ep_Send (ep_peer ep) uid msg] else [])"

text \<open>A rate of 0 is replaced by the least one.\<close>

definition ep_change_rate :: "u32 \<Rightarrow> ns_endpoint \<Rightarrow> ns_endpoint" where
  "ep_change_rate kbps ep = (let rate = kbps * 1000 in ep\<lparr>ep_bit_rate := if rate = 0 then word_of_int MIN_BITRATE else rate\<rparr>)"

text \<open>The callbacks of the sender and the receiver.\<close>

fun ep_callbacks :: "ns_out list \<Rightarrow> ns_endpoint \<Rightarrow> ns_endpoint \<times> ep_out list" where
  "ep_callbacks [] ep = (ep, [])"
| "ep_callbacks (x # xs) ep =
     (let (ep, out) = (case x of Ns_Send uid msg \<Rightarrow> (ep, ep_send ep uid msg) | Ns_Rate kbps \<Rightarrow> (ep_change_rate kbps ep, [])
            | Ns_Sent_Seq k \<Rightarrow> (ep, [Ep_Sent_Seq k]) | Ns_Lost_Seq k \<Rightarrow> (ep, [Ep_Lost_Seq k]) | Ns_Connected k \<Rightarrow> (ep, []) | Ns_Failed k \<Rightarrow> (ep, []));
          (ep, out') = ep_callbacks xs ep
      in (ep, out @ out'))"

subsection \<open>Connecting and disconnecting\<close>

definition ep_disconnect :: "ns_endpoint \<Rightarrow> ns_endpoint \<times> ep_out list" where
  "ep_disconnect ep = (ep\<lparr>ep_state := ns_disconnected\<rparr>, ep_send ep (ep_uid ep) (Ns_Disconnect (ep_cid ep)))"

definition ep_stop_application :: "ns_endpoint \<Rightarrow> ns_endpoint \<times> ep_out list" where
  "ep_stop_application ep =
     (let ep = ep\<lparr>ep_ping_at := None\<rparr>
      in if ep_initiator ep then ep_disconnect (ep\<lparr>ep_gen_at := None\<rparr>) else (ep, []))"

definition ep_do_connect :: "int \<Rightarrow> ns_endpoint \<Rightarrow> ns_endpoint \<times> ep_out list" where
  "ep_do_connect now ep =
     (let backoff = 2 ^ nat (uint (ep_con_retries ep) - uint (ep_con_count ep));
          timeout = ep_con_timeout ep * backoff
      in if ep_con_count ep = 0
         then apsnd (append (if ep_has_failed ep then [Ep_Failed (ep_uid ep)] else [])) (ep_stop_application ep)
         else (ep\<lparr>ep_recon_at := Some (now + timeout), ep_con_count := ep_con_count ep - 1\<rparr>,
               ep_send ep (ep_uid ep) (Ns_Connect (ep_cid ep) [123])))"

definition ep_connect :: "int \<Rightarrow> ns_endpoint \<Rightarrow> ns_endpoint \<times> ep_out list" where
  "ep_connect now ep = apfst (\<lambda>ep. ep\<lparr>ep_state := ns_connecting\<rparr>) (ep_do_connect now ep)"

definition ep_start_application :: "int \<Rightarrow> ns_endpoint \<Rightarrow> ns_endpoint \<times> ep_out list" where
  "ep_start_application now ep = (if ep_initiator ep then ep_connect now ep else (ep, []))"

text \<open>The callbacks are set after the rates, so that the first rates are not told.\<close>

definition ep_sender_init :: "host \<Rightarrow> int \<Rightarrow> env \<Rightarrow> ns_endpoint \<Rightarrow> (env \<times> ns_endpoint) option" where
  "ep_sender_init w now e ep =
     (let (e, s) = ns_sender_new w now e in do {
        (s, out) \<leftarrow> ns_set_bitrates now (word_of_int MIN_BITRATE) (ep_bit_rate ep) (word_of_int MAX_BITRATE)
          (s\<lparr>ns_has_sent := ep_has_sent ep, ns_uid := ep_uid ep\<rparr>);
        let s = ns_pace_start now (s\<lparr>ns_segment_size := ep_packet_size ep, ns_has_send := True, ns_has_rate := True\<rparr>);
        Some (e, ep\<lparr>ep_sender := Some s, ep_gen_at := Some now\<rparr>)
      })"

definition ep_receiver_init :: "int \<Rightarrow> ns_endpoint \<Rightarrow> ns_endpoint" where
  "ep_receiver_init now ep =
     (if ep_receiver ep = None
      then ep\<lparr>ep_receiver := Some ((ns_receiver_new now)\<lparr>nr_uid := ep_uid ep, nr_has_feedback := True, nr_has_loss := ep_has_loss ep\<rparr>)\<rparr>
      else ep)"

definition ep_process_connect :: "int \<Rightarrow> u32 \<Rightarrow> ns_endpoint \<Rightarrow> ns_endpoint \<times> ep_out list" where
  "ep_process_connect now cid ep =
     (let ep = ep\<lparr>ep_state := ns_connected\<rparr>;
          out = ep_send ep (ep_uid ep) (Ns_Connect_Ack cid 0)
      in (if \<not> ep_initiator ep \<and> ep_receiver ep = None then (ep_receiver_init now ep)\<lparr>ep_ping_at := Some (now + uint (ep_rtt ep))\<rparr> else ep, out))"

definition ep_process_connect_ack :: "host \<Rightarrow> int \<Rightarrow> env \<Rightarrow> ns_endpoint \<Rightarrow> (env \<times> ns_endpoint \<times> ep_out list) option" where
  "ep_process_connect_ack w now e ep =
     (let (ep, out) = (if ep_state ep = ns_connecting
            then (ep\<lparr>ep_state := ns_connected, ep_recon_at := None, ep_ping_at := Some now\<rparr>, if ep_has_succeeded ep then [Ep_Succeeded (ep_uid ep)] else [])
            else (ep, []))
      in if ep_sender ep = None then map_option (\<lambda>(e, ep). (e, ep, out)) (ep_sender_init w now e ep) else Some (e, ep, out))"

definition ep_process_disconnect :: "u32 \<Rightarrow> ns_endpoint \<Rightarrow> ns_endpoint \<times> ep_out list" where
  "ep_process_disconnect cid ep =
     (ep\<lparr>ep_state := ns_disconnected, ep_receiver := None, ep_sender := None\<rparr>, ep_send ep (ep_uid ep) (Ns_Disconnect_Ack cid 0))"

definition ep_process_disconnect_ack :: "ns_endpoint \<Rightarrow> ns_endpoint" where
  "ep_process_disconnect_ack ep = ep\<lparr>ep_state := ns_disconnected\<rparr>"

subsection \<open>The round trip time\<close>

definition ep_send_ping :: "int \<Rightarrow> ns_endpoint \<Rightarrow> ns_endpoint \<times> ep_out list" where
  "ep_send_ping now ep =
     (if ep_ping_at ep \<noteq> None then (ep, []) else (ep\<lparr>ep_ping_at := Some (now + uint (4 * ep_rtt ep))\<rparr>, ep_send ep (ep_uid ep) (Ns_Ping now)))"

definition ep_calculate_rtt :: "u32 \<Rightarrow> ns_endpoint \<Rightarrow> ns_endpoint option" where
  "ep_calculate_rtt keep_rtt ep =
     (let keep_rtt = (if keep_rtt < 5 then 5 else keep_rtt);
          v = (3 * ep_rtt_var ep + (if keep_rtt < ep_rtt ep then ep_rtt ep - keep_rtt else keep_rtt - ep_rtt ep)) div 4;
          v = (if v < 10 then 10 else v);
          r = (7 * ep_rtt ep + keep_rtt) div 8;
          r = (if r < 10 then 10 else r);
          ep = ep\<lparr>ep_rtt_var := v, ep_rtt := r, ep_sender := map_option (ns_sender_update_rtt r v) (ep_sender ep)\<rparr>
      in case ep_receiver ep of None \<Rightarrow> Some ep
         | Some x \<Rightarrow> map_option (\<lambda>x. ep\<lparr>ep_receiver := Some x\<rparr>) (ns_receiver_update_rtt r v x))"

definition ep_process_pong :: "int \<Rightarrow> int \<Rightarrow> ns_endpoint \<Rightarrow> ns_endpoint option" where
  "ep_process_pong now ts ep =
     (let keep_rtt = (if ts + 5 < now then word_of_int (now - ts) else 5)
      in if ep_first_rtt ep then Some (ep\<lparr>ep_first_rtt := False, ep_rtt := keep_rtt\<rparr>) else ep_calculate_rtt keep_rtt ep)"

subsection \<open>Packets and events\<close>

definition ep_recv_packet ::
  "host \<Rightarrow> int \<Rightarrow> env \<Rightarrow> ns_addr \<Rightarrow> ns_message \<Rightarrow> ns_endpoint \<Rightarrow> (env \<times> ns_endpoint \<times> ep_out list) option" where
  "ep_recv_packet w now e src msg ep =
     (case msg of
        Ns_Connect cid tok \<Rightarrow> Some (e, ep_process_connect now cid (if ep_initiator ep then ep else ep\<lparr>ep_peer := src\<rparr>))
      | Ns_Connect_Ack cid result \<Rightarrow> ep_process_connect_ack w now e ep
      | Ns_Ping ts \<Rightarrow> Some (e, ep, ep_send ep (ep_uid ep) (Ns_Pong ts))
      | Ns_Pong ts \<Rightarrow> map_option (\<lambda>ep. (e, ep, [])) (ep_process_pong now ts ep)
      | Ns_Seg seg \<Rightarrow> (case ep_receiver ep of None \<Rightarrow> Some (e, ep, [])
          | Some r \<Rightarrow> do { (r, out) \<leftarrow> ns_recv_fake_data now seg r; Some (e, ep_callbacks out (ep\<lparr>ep_receiver := Some r\<rparr>)) })
      | Ns_Seg_Ack \<Rightarrow> Some (e, ep, [])
      | Ns_Feedback payload \<Rightarrow> (case ep_sender ep of None \<Rightarrow> Some (e, ep, [])
          | Some s \<Rightarrow> do { (s, out) \<leftarrow> ns_process_feedback w now e payload s; Some (e, ep_callbacks out (ep\<lparr>ep_sender := Some s\<rparr>)) })
      | Ns_Disconnect cid \<Rightarrow> Some (e, ep_process_disconnect cid ep)
      | Ns_Disconnect_Ack cid result \<Rightarrow> Some (e, ep_process_disconnect_ack ep, []))"

text \<open>The length of the next frame, from the time since the last one.\<close>

definition ep_frame_len :: "int \<Rightarrow> ns_endpoint \<Rightarrow> u32 option" where
  "ep_frame_len now ep =
     fp_to_u32 ((fp_lit 0.001 :: double) * fp_of_int (if ep_last_gen ep = 0 then uint (ep_frame_rate ep) else now - ep_last_gen ep)
       * fp_of_int (uint (ep_bit_rate ep)) div fp_lit 8)"

definition ep_generate :: "int \<Rightarrow> ns_endpoint \<Rightarrow> ns_endpoint option" where
  "ep_generate now ep =
     (if ep_gen_at ep \<noteq> None then Some ep
      else do {
        len \<leftarrow> ep_frame_len now ep;
        let ep = ep\<lparr>ep_last_gen := now, ep_gen_at := Some (now + uint (ep_frame_rate ep))\<rparr>;
        if len = 0 then Some ep
        else if ep_packet_size ep = 0 then None
        else (case ep_sender ep of None \<Rightarrow> Some ep
          | Some s \<Rightarrow> map_option (\<lambda>s. ep\<lparr>ep_sender := Some s\<rparr>) (ns_put_fake_data now 0 len s))
      })"

definition ep_set_packet_size :: "u32 \<Rightarrow> ns_endpoint \<Rightarrow> ns_endpoint" where
  "ep_set_packet_size sz ep = ep\<lparr>ep_packet_size := sz\<rparr>"

text \<open>An event that is due is no longer pending when its function runs.\<close>

datatype ep_event = Ev_Reconnect | Ev_Ping | Ev_Generate | Ev_Pace | Ev_Heartbeat | Ev_Stats

fun ep_run_event :: "host \<Rightarrow> int \<Rightarrow> env \<Rightarrow> ep_event \<Rightarrow> ns_endpoint \<Rightarrow> (env \<times> ns_endpoint \<times> ep_out list) option" where
  "ep_run_event w now e Ev_Reconnect ep = Some (e, ep_do_connect now (ep\<lparr>ep_recon_at := None\<rparr>))"
| "ep_run_event w now e Ev_Ping ep = Some (e, ep_send_ping now (ep\<lparr>ep_ping_at := None\<rparr>))"
| "ep_run_event w now e Ev_Generate ep = map_option (\<lambda>ep. (e, ep, [])) (ep_generate now (ep\<lparr>ep_gen_at := None\<rparr>))"
| "ep_run_event w now e Ev_Pace ep =
     (case ep_sender ep of None \<Rightarrow> None
      | Some s \<Rightarrow> do { (s, out) \<leftarrow> ns_pace_heartbeat now (s\<lparr>ns_pace_at := None\<rparr>); Some (e, ep_callbacks out (ep\<lparr>ep_sender := Some s\<rparr>)) })"
| "ep_run_event w now e Ev_Heartbeat ep =
     (case ep_receiver ep of None \<Rightarrow> None
      | Some r \<Rightarrow> do {
          (e, r, out) \<leftarrow> ns_receiver_heartbeat w now e (r\<lparr>nr_heartbeat_at := None\<rparr>);
          Some (e, ep_callbacks out (ep\<lparr>ep_receiver := Some r\<rparr>))
        })"
| "ep_run_event w now e Ev_Stats ep =
     (case ep_receiver ep of None \<Rightarrow> None
      | Some r \<Rightarrow> Some (e, ep\<lparr>ep_receiver := Some (ns_stats_recv_rate now (r\<lparr>nr_stats_at := None\<rparr>))\<rparr>, []))"

subsection \<open>Connecting ends\<close>

text \<open>
  An endpoint whose peer does not answer asks three times, after 0, 100 and 300 ms, and after 700 ms tells that it failed and stops.
\<close>

lemma ep_connect_fails:
  assumes "ep = ep_set_callback ok True (ep_initial_setup dest (ns_endpoint_new peer))"
  shows "\<exists>ep1 ep2 ep3 ep4. ep_start_application t ep = (ep1, [Ep_Send dest 1 (Ns_Connect 0 [123])])
    \<and> ep_recon_at ep1 = Some (t + 100) \<and> ep_run_event w (t + 100) e Ev_Reconnect ep1 = Some (e, ep2, [Ep_Send dest 1 (Ns_Connect 0 [123])])
    \<and> ep_recon_at ep2 = Some (t + 300) \<and> ep_run_event w (t + 300) e Ev_Reconnect ep2 = Some (e, ep3, [Ep_Send dest 1 (Ns_Connect 0 [123])])
    \<and> ep_recon_at ep3 = Some (t + 700) \<and> ep_run_event w (t + 700) e Ev_Reconnect ep3 = Some (e, ep4, [Ep_Failed 1, Ep_Send dest 1 (Ns_Disconnect 0)])
    \<and> ep_recon_at ep4 = None \<and> ep_state ep4 = ns_disconnected"
  by (simp add: assms ep_set_callback_def ep_initial_setup_def ns_endpoint_new_def ep_start_application_def ep_connect_def ep_do_connect_def
    ep_send_def ep_stop_application_def ep_disconnect_def Let_def)

text \<open>The answer to a connect ends the attempts and starts the pings.\<close>

lemma ep_connect_ack_connects:
  assumes "ep_process_connect_ack w now e ep = Some (e', ep', out)" and "ep_state ep = ns_connecting"
  shows "ep_state ep' = ns_connected \<and> ep_recon_at ep' = None \<and> ep_ping_at ep' = Some now \<and> ep_sender ep' \<noteq> None"
  using assms by (auto simp: ep_process_connect_ack_def ep_sender_init_def Let_def split: if_splits bind_splits prod.splits)

text \<open>A pong is measured as in a session: the first one sets the estimate, the others move it by an eighth.\<close>

lemma ep_pong_measures:
  assumes "ep_process_pong now ts ep = Some ep'"
  shows "ep_rtt ep' = (let k = (if ts + 5 < now then word_of_int (now - ts) else 5) in if ep_first_rtt ep then k
    else su_max 10 ((7 * ep_rtt ep + su_max 5 k) div 8))"
  using assms by (auto simp: ep_process_pong_def ep_calculate_rtt_def Let_def su_max_def split: if_splits option.splits)

text \<open>A sender is deleted by a disconnect while its event of the pacer is pending, and the event then uses it.\<close>

lemma ep_disconnect_dangles:
  "ep_process_disconnect cid ep = (ep', out) \<Longrightarrow> ep_run_event w now e Ev_Pace ep' = None"
  by (auto simp: ep_process_disconnect_def)

end
